(* ===== verification/Prelude.thy ===== *)
theory Prelude
  imports Main "HOL-Library.Word" "HOL-Library.Multiset"
begin

text \<open>
  Shared vocabulary of the development: the machine integer types of the Rust
  sources, results (\<open>Result<T, E>\<close> as a sum type, the error on the left),
  the checked operations of \<open>i64\<close> the interpreter calls, decimal printing
  for error messages, and the list lemmas that the component theories share.

  A Rust \<open>i64\<close> or \<open>u64\<close> is a \<open>64 word\<close>: \<open>sint\<close> reads it signed,
  \<open>uint\<close> unsigned, and the wrapping operations of Rust are the word operations.
  A \<open>usize\<close> that counts elements of a collection is a \<open>nat\<close>; where the code
  wraps such a number on purpose the wrap is written out at the definition.
\<close>

named_theorems result_simps \<open>rules for the result type\<close>
named_theorems int_simps \<open>rules for checked machine arithmetic\<close>

unbundle bit_operations_syntax

type_synonym i64 = "64 word"
type_synonym u64 = "64 word"
type_synonym u8 = "8 word"
type_synonym addr = nat
type_synonym pystr = "nat list"

section \<open>Results\<close>

definition result_bind :: "'e + 'a \<Rightarrow> ('a \<Rightarrow> 'e + 'b) \<Rightarrow> 'e + 'b" where
  "result_bind r f = (case r of Inl e \<Rightarrow> Inl e | Inr x \<Rightarrow> f x)"

lemma result_bind_simps [simp, result_simps]:
  "result_bind (Inl e) f = Inl e"
  "result_bind (Inr x) f = f x"
  by (simp_all add: result_bind_def)

lemma result_bind_eq_Inr:
  "result_bind r f = Inr y \<longleftrightarrow> (\<exists>x. r = Inr x \<and> f x = Inr y)"
  by (cases r) simp_all

lemma result_bind_eq_Inl:
  "result_bind r f = Inl e \<longleftrightarrow> r = Inl e \<or> (\<exists>x. r = Inr x \<and> f x = Inl e)"
  by (cases r) simp_all

text \<open>\<open>for x in xs { acc = f(acc, x)?; }\<close>: a loop that stops at the first error.\<close>

primrec result_fold :: "('s \<Rightarrow> 'a \<Rightarrow> 'e + 's) \<Rightarrow> 's \<Rightarrow> 'a list \<Rightarrow> 'e + 's" where
  "result_fold f s [] = Inr s"
| "result_fold f s (x # xs) = result_bind (f s x) (\<lambda>s'. result_fold f s' xs)"

lemma result_fold_invariant:
  assumes "P s" and "\<And>s x s'. P s \<Longrightarrow> x \<in> set xs \<Longrightarrow> f s x = Inr s' \<Longrightarrow> P s'"
    and "result_fold f s xs = Inr t"
  shows "P t"
  using assms
proof (induction xs arbitrary: s)
  case (Cons x xs)
  from Cons.prems(3) obtain s' where s': "f s x = Inr s'" and t: "result_fold f s' xs = Inr t"
    by (auto simp: result_bind_eq_Inr)
  have "P s'"
    by (rule Cons.prems(2) [OF Cons.prems(1) _ s']) simp
  moreover have "\<And>s x s'. P s \<Longrightarrow> x \<in> set xs \<Longrightarrow> f s x = Inr s' \<Longrightarrow> P s'"
    by (rule Cons.prems(2)) simp_all
  ultimately show ?case
    using t by (rule Cons.IH)
qed simp

section \<open>Machine integers\<close>

definition i64_min :: int where "i64_min = - (2 ^ 63)"
definition i64_max :: int where "i64_max = 2 ^ 63 - 1"

definition in_i64 :: "int \<Rightarrow> bool" where
  "in_i64 n \<longleftrightarrow> - (2 ^ 63) \<le> n \<and> n < 2 ^ 63"

lemma in_i64_sint [simp, int_simps]: "in_i64 (sint (w :: i64))"
  using sint_ge [of w] sint_less [of w] by (simp add: in_i64_def)

lemma sint_word_of_int_i64 [int_simps]:
  assumes "in_i64 n"
  shows "sint (word_of_int n :: i64) = n"
proof -
  have "(n + 2 ^ 63) mod 2 ^ 64 - 2 ^ 63 = n"
    using assms by (simp add: in_i64_def)
  then show ?thesis
    by (simp add: signed_of_int signed_take_bit_eq_take_bit_shift take_bit_eq_mod)
qed

lemma word_of_int_sint_i64 [simp, int_simps]: "word_of_int (sint (w :: i64)) = w"
  by simp

definition checked_i64 :: "int \<Rightarrow> i64 option" where
  "checked_i64 n = (if in_i64 n then Some (word_of_int n) else None)"

lemma checked_i64_Some [int_simps]:
  "checked_i64 n = Some w \<longleftrightarrow> in_i64 n \<and> sint w = n"
  by (auto simp: checked_i64_def sint_word_of_int_i64)

lemma checked_i64_None [int_simps]: "checked_i64 n = None \<longleftrightarrow> \<not> in_i64 n"
  by (simp add: checked_i64_def)

lemma checked_i64_sint [simp, int_simps]: "checked_i64 (sint w) = Some w"
  by (simp add: checked_i64_def)

text \<open>\<open>i64::checked_add\<close>, \<open>checked_sub\<close> and \<open>checked_mul\<close>.\<close>

definition checked_add :: "i64 \<Rightarrow> i64 \<Rightarrow> i64 option" where
  "checked_add a b = checked_i64 (sint a + sint b)"

definition checked_sub :: "i64 \<Rightarrow> i64 \<Rightarrow> i64 option" where
  "checked_sub a b = checked_i64 (sint a - sint b)"

definition checked_mul :: "i64 \<Rightarrow> i64 \<Rightarrow> i64 option" where
  "checked_mul a b = checked_i64 (sint a * sint b)"

lemma sint_i64_inject: "sint (a :: i64) = sint b \<longleftrightarrow> a = b"
  by (metis word_of_int_sint_i64)

section \<open>Decimal printing\<close>

definition digit_char :: "nat \<Rightarrow> char" where
  "digit_char d = char_of (48 + d)"

fun nat_digits :: "nat \<Rightarrow> string" where
  "nat_digits n = (if n < 10 then [digit_char n]
                   else nat_digits (n div 10) @ [digit_char (n mod 10)])"

declare nat_digits.simps [simp del]

definition int_digits :: "int \<Rightarrow> string" where
  "int_digits n = (if n < 0 then ''-'' @ nat_digits (nat (- n)) else nat_digits (nat n))"

text \<open>Code points of a message text, as the contents of a \<open>str\<close> value.\<close>

definition str_of :: "string \<Rightarrow> pystr" where
  "str_of s = List.map of_char s"

lemma str_of_simps [simp]:
  "str_of [] = []" "str_of (c # s) = of_char c # str_of s" "str_of s = [] \<longleftrightarrow> s = []"
  by (simp_all add: str_of_def)

section \<open>Lists\<close>

lemma length_filter_update:
  assumes "i < length xs"
  shows "length (filter P (xs[i := v])) + (if P (xs ! i) then 1 else 0)
       = length (filter P xs) + (if P v then 1 else 0)"
  using assms
proof (induction xs arbitrary: i)
  case (Cons a xs)
  then show ?case by (cases i) auto
qed simp

lemma mset_map_filter_update:
  assumes "i < length xs"
  shows "mset (List.map_filter f (xs[i := v])) + (case f (xs ! i) of None \<Rightarrow> {#} | Some y \<Rightarrow> {#y#})
       = mset (List.map_filter f xs) + (case f v of None \<Rightarrow> {#} | Some y \<Rightarrow> {#y#})"
  using assms
proof (induction xs arbitrary: i)
  case (Cons a xs)
  then show ?case
    by (cases i) (auto simp: map_filter_simps split: option.splits)
qed simp

lemma length_map_filter:
  "length (List.map_filter f xs) = length (filter (\<lambda>x. f x \<noteq> None) xs)"
  by (simp add: List.map_filter_def)

lemma set_map_filter: "set (List.map_filter f xs) = {y. \<exists>x \<in> set xs. f x = Some y}"
  by (force simp: List.map_filter_def)

end
