(* ===== verification/Floats.thy ===== *)
theory Floats
  imports Prelude
begin

text \<open>
  The part of Rust's \<open>f64\<close> that the interpreter relies on: IEEE-754 binary64
  bit patterns (\<open>f64::to_bits\<close>), the classification predicates, the value of a
  finite pattern as a dyadic number \<open>m * 2 ^ e\<close>, the comparison operators and
  the conversion \<open>i as f64\<close> with rounding to nearest, ties to even.
\<close>

type_synonym f64 = "64 word"

definition f64_sign :: "f64 \<Rightarrow> bool" where
  "f64_sign b \<longleftrightarrow> uint b \<ge> 2 ^ 63"

definition f64_mag :: "f64 \<Rightarrow> int" where
  "f64_mag b = uint b mod 2 ^ 63"

definition f64_exp :: "f64 \<Rightarrow> int" where
  "f64_exp b = f64_mag b div 2 ^ 52"

definition f64_frac :: "f64 \<Rightarrow> int" where
  "f64_frac b = f64_mag b mod 2 ^ 52"

definition is_nan :: "f64 \<Rightarrow> bool" where
  "is_nan b \<longleftrightarrow> f64_exp b = 2047 \<and> f64_frac b \<noteq> 0"

definition is_infinite :: "f64 \<Rightarrow> bool" where
  "is_infinite b \<longleftrightarrow> f64_exp b = 2047 \<and> f64_frac b = 0"

definition is_finite :: "f64 \<Rightarrow> bool" where
  "is_finite b \<longleftrightarrow> f64_exp b < 2047"

text \<open>A finite pattern denotes \<open>f64_mant b * 2 ^ f64_pow b\<close> up to its sign.\<close>

definition f64_mant :: "f64 \<Rightarrow> int" where
  "f64_mant b = (if f64_exp b = 0 then f64_frac b else 2 ^ 52 + f64_frac b)"

definition f64_pow :: "f64 \<Rightarrow> int" where
  "f64_pow b = (if f64_exp b = 0 then - 1074 else f64_exp b - 1075)"

definition f64_key :: "f64 \<Rightarrow> int" where
  "f64_key b = (if f64_sign b then - f64_mag b else f64_mag b)"

definition f64_eq :: "f64 \<Rightarrow> f64 \<Rightarrow> bool" where
  "f64_eq a b \<longleftrightarrow> \<not> is_nan a \<and> \<not> is_nan b \<and> f64_key a = f64_key b"

definition f64_lt :: "f64 \<Rightarrow> f64 \<Rightarrow> bool" where
  "f64_lt a b \<longleftrightarrow> \<not> is_nan a \<and> \<not> is_nan b \<and> f64_key a < f64_key b"

definition f64_infinity :: f64 where
  "f64_infinity = 0x7FF0000000000000"

fun bit_length :: "nat \<Rightarrow> nat" where
  "bit_length n = (if n = 0 then 0 else Suc (bit_length (n div 2)))"

declare bit_length.simps [simp del]

text \<open>The magnitude bits of the \<open>f64\<close> nearest to a natural number.\<close>

definition f64_round_nat :: "nat \<Rightarrow> nat" where
  "f64_round_nat m =
     (let l = bit_length m in
      if m = 0 then 0
      else if l \<le> 53 then (l + 1022) * 2 ^ 52 + (m * 2 ^ (53 - l) - 2 ^ 52)
      else let s = l - 53; q = m div 2 ^ s; r = m mod 2 ^ s; half = 2 ^ (s - 1);
               q' = (if r > half \<or> r = half \<and> odd q then q + 1 else q)
           in min ((l + 1022) * 2 ^ 52 + (q' - 2 ^ 52)) (2047 * 2 ^ 52))"

definition f64_of_int :: "int \<Rightarrow> f64" where
  "f64_of_int n = (let m = word_of_int (int (f64_round_nat (nat \<bar>n\<bar>))) in
                   if n < 0 then m OR 0x8000000000000000 else m)"

text \<open>Rust's \<open>trunc\<close>, \<open>fract() == 0.0\<close> and \<open>as i64\<close> on a finite pattern; the cast saturates and
  maps NaN to zero.\<close>

definition f64_trunc :: "f64 \<Rightarrow> int" where
  "f64_trunc f = (let m = f64_mant f; e = f64_pow f;
                      t = (if e \<ge> 0 then m * 2 ^ nat e else m div 2 ^ nat (- e))
                  in if f64_sign f then - t else t)"

definition f64_integral :: "f64 \<Rightarrow> bool" where
  "f64_integral f \<longleftrightarrow> f64_pow f \<ge> 0 \<or> f64_mant f mod 2 ^ nat (- f64_pow f) = 0"

definition f64_as_i64 :: "f64 \<Rightarrow> i64" where
  "f64_as_i64 f =
     (if is_nan f then 0
      else if is_infinite f then (if f64_sign f then word_of_int i64_min else word_of_int i64_max)
      else word_of_int (max i64_min (min i64_max (f64_trunc f))))"

lemma f64_eq_sym: "f64_eq a b \<longleftrightarrow> f64_eq b a"
  by (auto simp: f64_eq_def)

lemma f64_eq_trans: "f64_eq a b \<Longrightarrow> f64_eq b c \<Longrightarrow> f64_eq a c"
  by (auto simp: f64_eq_def)

lemma f64_lt_trans: "f64_lt a b \<Longrightarrow> f64_lt b c \<Longrightarrow> f64_lt a c"
  by (auto simp: f64_lt_def)

lemma f64_lt_not_eq: "f64_lt a b \<Longrightarrow> \<not> f64_eq a b"
  by (auto simp: f64_lt_def f64_eq_def)

lemma f64_mag_nonneg [simp]: "0 \<le> f64_mag b" "f64_mag b < 2 ^ 63"
  by (simp_all add: f64_mag_def)

lemma f64_frac_bounds [simp]: "0 \<le> f64_frac b" "f64_frac b < 2 ^ 52"
  by (simp_all add: f64_frac_def)

lemma f64_exp_bounds [simp]: "0 \<le> f64_exp b" "f64_exp b \<le> 2047"
proof -
  show "0 \<le> f64_exp b"
    by (simp add: f64_exp_def pos_imp_zdiv_nonneg_iff)
  have "f64_mag b \<le> 2 ^ 63 - 1"
    using f64_mag_nonneg(2) [of b] by linarith
  then have "f64_mag b div 2 ^ 52 \<le> (2 ^ 63 - 1) div 2 ^ 52"
    by (rule zdiv_mono1) simp
  then show "f64_exp b \<le> 2047"
    by (simp add: f64_exp_def)
qed

lemma f64_mant_bounds: "0 \<le> f64_mant b" "f64_mant b < 2 ^ 53"
  using f64_frac_bounds [of b] by (auto simp: f64_mant_def)

lemma f64_exp_frac: "f64_mag b = f64_exp b * 2 ^ 52 + f64_frac b"
  by (simp add: f64_exp_def f64_frac_def)

lemma bit_length_bounds:
  "0 < m \<Longrightarrow> 2 ^ (bit_length m - 1) \<le> m \<and> m < 2 ^ bit_length m"
proof (induction m rule: bit_length.induct)
  case (1 m)
  show ?case
  proof (cases "m div 2 = 0")
    case True
    with 1 have "m = 1" by simp
    then show ?thesis by (simp add: bit_length.simps)
  next
    case False
    then have ih: "2 ^ (bit_length (m div 2) - 1) \<le> m div 2 \<and> m div 2 < 2 ^ bit_length (m div 2)"
      using 1 by simp
    have l: "bit_length m = Suc (bit_length (m div 2))"
      using 1 by (simp add: bit_length.simps [of m])
    have "bit_length (m div 2) \<noteq> 0"
      using False by (simp add: bit_length.simps [of "m div 2"])
    then obtain k where k: "bit_length (m div 2) = Suc k"
      by (cases "bit_length (m div 2)") simp_all
    have "2 * 2 ^ k \<le> m" "m < 2 * 2 ^ Suc k"
      using ih unfolding k
      by (simp_all add: less_eq_div_iff_mult_less_eq div_less_iff_less_mult)
    then show ?thesis
      by (simp add: l k)
  qed
qed

end
