(* ===== verification/Probing.thy ===== *)
theory Probing
  imports Prelude
begin

text \<open>
  The probe sequence of the open-addressing set table of \<open>pyset.rs\<close>, which
  \<open>insert_clean\<close>, \<open>add\<close>, \<open>contains\<close> and \<open>discard\<close> share: a run of
  up to \<open>LINEAR_PROBES + 1\<close> adjacent slots, then a jump to
  \<open>i * 5 + 1 + perturb\<close> with \<open>perturb\<close> shifted right by five bits.

  The loop has no bound in the source.  Its termination rests on arithmetic that
  is proved here: once \<open>perturb\<close> is exhausted the jumps follow
  \<open>i \<mapsto> 5 * i + 1\<close> modulo a power of two, which has full period, so that the
  sequence starts a run at every slot of the table, the empty ones included.
\<close>

section \<open>The map \<open>x \<mapsto> 5 x + 1\<close> modulo \<open>2 ^ k\<close> has full period\<close>

fun geo :: "nat \<Rightarrow> nat" where
  "geo 0 = 0"
| "geo (Suc n) = 5 * geo n + 1"

lemma geo_add: "geo (m + n) = 5 ^ n * geo m + geo n"
  by (induction n) (simp_all add: algebra_simps)

lemma geo_closed: "4 * geo n + 1 = 5 ^ n"
  by (induction n) simp_all

lemma geo_double: "geo (2 * n) = geo n * (5 ^ n + 1)"
  by (simp only: mult_2 geo_add) (simp add: algebra_simps)

lemma odd_geo: "odd (geo n) \<longleftrightarrow> odd n"
  by (induction n) simp_all

lemma pow5_plus1: "\<exists>c. 5 ^ n + 1 = 2 * c \<and> odd (c :: nat)"
proof -
  have "5 ^ n + 1 = 2 * (2 * geo n + 1)"
    using geo_closed [of n] by simp
  then show ?thesis by (metis even_mult_iff even_numeral odd_add odd_one)
qed

lemma pow2_dvd_geo: "2 ^ k dvd geo n \<longleftrightarrow> 2 ^ k dvd n"
proof (induction k arbitrary: n)
  case (Suc k)
  show ?case
  proof (cases "odd n")
    case True
    then have "odd (geo n)" by (simp add: odd_geo)
    then have "\<not> 2 ^ Suc k dvd geo n" "\<not> 2 ^ Suc k dvd n"
      using True by (auto elim!: dvdE)
    then show ?thesis by simp
  next
    case False
    then obtain m where n: "n = 2 * m" by (auto elim: evenE)
    obtain c :: nat where c: "5 ^ m + 1 = 2 * c" "odd c" using pow5_plus1 by blast
    have "geo n = 2 * (geo m * c)"
      unfolding n geo_double c(1) by simp
    then have "2 ^ Suc k dvd geo n \<longleftrightarrow> 2 ^ k dvd geo m * c"
      by simp
    also have "\<dots> \<longleftrightarrow> 2 ^ k dvd geo m"
      using c(2) by (simp add: coprime_dvd_mult_left_iff coprime_commute)
    also have "\<dots> \<longleftrightarrow> 2 ^ Suc k dvd n"
      by (simp add: n Suc.IH)
    finally show ?thesis .
  qed
qed simp

lemma lcg_closed: "((\<lambda>x. (5 * x + 1) mod 2 ^ k) ^^ n) x mod 2 ^ k = (5 ^ n * x + geo n) mod (2 ^ k :: nat)"
proof (induction n)
  case (Suc n)
  let ?f = "\<lambda>x. (5 * x + 1) mod 2 ^ k :: nat"
  have "(?f ^^ Suc n) x mod 2 ^ k = (5 * ((?f ^^ n) x mod 2 ^ k) + 1) mod 2 ^ k"
    unfolding funpow.simps comp_def mod_mod_trivial by (rule mod_add_cong [OF _ refl]) (simp add: mod_simps)
  also have "\<dots> = (5 * (5 ^ n * x + geo n) + 1) mod 2 ^ k"
    unfolding Suc.IH by (rule mod_add_cong [OF _ refl]) (rule mod_mult_right_eq)
  also have "5 * (5 ^ n * x + geo n) + 1 = 5 ^ Suc n * x + geo (Suc n)"
    by (simp add: algebra_simps)
  finally show ?case .
qed simp

lemma lcg_inj:
  assumes "(5 ^ a * x + geo a) mod 2 ^ k = (5 ^ b * x + geo b) mod (2 ^ k :: nat)" "a \<le> b" "b < a + 2 ^ k"
  shows "a = b"
proof -
  obtain d where b: "b = a + d" using assms(2) le_Suc_ex by blast
  define y where "y = 5 ^ a * x + geo a"
  have "5 ^ b * x + geo b = 5 ^ d * y + geo d"
    by (simp add: b y_def geo_add power_add algebra_simps)
  moreover have "5 ^ d * y + geo d = y + geo d * (4 * y + 1)"
    using geo_closed [of d, symmetric] by (simp add: algebra_simps)
  ultimately have "y mod 2 ^ k = (y + geo d * (4 * y + 1)) mod 2 ^ k"
    using assms(1) unfolding y_def [symmetric] by simp
  then have "2 ^ k dvd geo d * (4 * y + 1)"
    by (metis add_diff_cancel_left' le_add1 mod_eq_dvd_iff_nat)
  moreover have "coprime (2 ^ k) (4 * y + 1)"
    by simp
  ultimately have "2 ^ k dvd geo d"
    using coprime_dvd_mult_left_iff by blast
  then have "2 ^ k dvd d" by (simp add: pow2_dvd_geo)
  with assms(3) b show ?thesis by (auto dest: dvd_imp_le)
qed

lemma lcg_covers:
  assumes "e < (2 ^ k :: nat)" "x < 2 ^ k"
  shows "\<exists>n. ((\<lambda>x. (5 * x + 1) mod 2 ^ k) ^^ n) x = e"
proof -
  let ?g = "\<lambda>n. (5 ^ n * x + geo n) mod (2 ^ k :: nat)"
  have "inj_on ?g {..<2 ^ k}"
  proof (rule linorder_inj_onI)
    show "?g a \<noteq> ?g b" if "a < b" "a \<in> {..<2 ^ k}" "b \<in> {..<2 ^ k}" for a b
      using lcg_inj [of a x k b] that by auto
  qed auto
  then have "card (?g ` {..<2 ^ k}) = 2 ^ k" by (simp add: card_image)
  moreover have "?g ` {..<2 ^ k} \<subseteq> {..<2 ^ k}" by auto
  ultimately have "?g ` {..<2 ^ k} = {..<2 ^ k}"
    by (metis card_lessThan card_subset_eq finite_lessThan)
  with assms(1) have "e \<in> ?g ` {..<2 ^ k}" by simp
  then obtain n where n: "?g n = e" by (rule imageE) simp
  have "((\<lambda>x. (5 * x + 1) mod 2 ^ k) ^^ n) x < 2 ^ k"
    using assms(2) by (cases n) simp_all
  then have "((\<lambda>x. (5 * x + 1) mod 2 ^ k) ^^ n) x = e"
    using lcg_closed [where k = k and n = n and x = x] n by simp
  then show ?thesis by blast
qed

section \<open>The loop\<close>

definition LINEAR_PROBES :: nat where "LINEAR_PROBES = 9"
definition PERTURB_SHIFT :: nat where "PERTURB_SHIFT = 5"

datatype ('r, 'a) loop_step = Return 'r | Continue 'a | Panic

definition start_index :: "nat \<Rightarrow> i64 \<Rightarrow> nat" where
  "start_index msk hash = unat (hash AND of_nat msk)"

definition next_perturb :: "u64 \<Rightarrow> u64" where
  "next_perturb perturb = drop_bit PERTURB_SHIFT perturb"

definition next_index :: "nat \<Rightarrow> nat \<Rightarrow> u64 \<Rightarrow> nat" where
  "next_index msk i perturb = unat ((of_nat i * 5 + 1 + perturb) AND of_nat msk :: u64)"

definition probes_at :: "nat \<Rightarrow> nat \<Rightarrow> nat" where
  "probes_at msk i = (if i + LINEAR_PROBES \<le> msk then LINEAR_PROBES else 0)"

text \<open>The inner loop: look at \<open>slots[entry]\<close>, then at the \<open>p\<close> slots after it.  Indexing
  past the end of the vector panics.\<close>

fun scan :: "('a \<Rightarrow> nat \<Rightarrow> 's \<Rightarrow> ('r, 'a) loop_step) \<Rightarrow> 's list \<Rightarrow> 'a \<Rightarrow> nat \<Rightarrow> nat \<Rightarrow> ('r, 'a) loop_step" where
  "scan f sl a p entry =
     (if length sl \<le> entry then Panic
      else case f a entry (sl ! entry) of
             Return r \<Rightarrow> Return r
           | Panic \<Rightarrow> Panic
           | Continue a' \<Rightarrow> if p = 0 then Continue a' else scan f sl a' (p - 1) (entry + 1))"

declare scan.simps [simp del]

text \<open>The outer \<open>loop\<close>; \<open>None\<close> is a panic or a loop that never returns.\<close>

partial_function (option) probe_loop ::
  "('a \<Rightarrow> nat \<Rightarrow> 's \<Rightarrow> ('r, 'a) loop_step) \<Rightarrow> 's list \<Rightarrow> nat \<Rightarrow> 'a \<Rightarrow> nat \<Rightarrow> u64 \<Rightarrow> 'r option" where
  "probe_loop f sl msk a i perturb =
     (case scan f sl a (probes_at msk i) i of
        Return r \<Rightarrow> Some r
      | Panic \<Rightarrow> None
      | Continue a' \<Rightarrow>
          (let perturb' = next_perturb perturb
           in probe_loop f sl msk a' (next_index msk i perturb') perturb'))"

text \<open>The positions that the first \<open>n\<close> rounds of the outer loop look at, in order.\<close>

definition run_positions :: "nat \<Rightarrow> nat \<Rightarrow> nat list" where
  "run_positions msk i = [i ..< i + Suc (probes_at msk i)]"

primrec probe_prefix :: "nat \<Rightarrow> nat \<Rightarrow> u64 \<Rightarrow> nat \<Rightarrow> nat list" where
  "probe_prefix msk i perturb 0 = []"
| "probe_prefix msk i perturb (Suc n) =
     run_positions msk i @
     probe_prefix msk (next_index msk i (next_perturb perturb)) (next_perturb perturb) n"

primrec walk :: "('a \<Rightarrow> nat \<Rightarrow> 's \<Rightarrow> ('r, 'a) loop_step) \<Rightarrow> 's list \<Rightarrow> 'a \<Rightarrow> nat list \<Rightarrow> ('r, 'a) loop_step" where
  "walk f sl a [] = Continue a"
| "walk f sl a (x # xs) = (case f a x (sl ! x) of
       Return r \<Rightarrow> Return r | Panic \<Rightarrow> Panic | Continue a' \<Rightarrow> walk f sl a' xs)"

lemma walk_append:
  "walk f sl a (xs @ ys) = (case walk f sl a xs of
       Return r \<Rightarrow> Return r | Panic \<Rightarrow> Panic | Continue a' \<Rightarrow> walk f sl a' ys)"
  by (induction xs arbitrary: a) (simp_all split: loop_step.splits)

lemma scan_walk:
  assumes "entry + p < length sl"
  shows "scan f sl a p entry = walk f sl a [entry ..< entry + Suc p]"
  using assms
proof (induction p arbitrary: entry a)
  case 0
  then show ?case by (simp add: scan.simps [of f sl a 0 entry] split: loop_step.splits)
next
  case (Suc p)
  have l: "[entry ..< entry + Suc (Suc p)] = entry # [Suc entry ..< Suc entry + Suc p]"
    by (simp add: upt_conv_Cons del: upt_Suc)
  have "scan f sl a' p (Suc entry) = walk f sl a' [Suc entry ..< Suc entry + Suc p]" for a'
    using Suc.prems by (intro Suc.IH) simp
  then show ?case
    using Suc.prems unfolding l
    by (simp add: scan.simps [of f sl a "Suc p" entry] split: loop_step.splits del: upt_Suc)
qed

lemma run_in_range:
  assumes "i \<le> msk"
  shows "i + probes_at msk i \<le> msk"
  using assms by (auto simp: probes_at_def)

lemma set_run_positions:
  assumes "i \<le> msk" "x \<in> set (run_positions msk i)"
  shows "x \<le> msk"
  using assms run_in_range [OF assms(1)] by (auto simp: run_positions_def)

lemma next_index_le: "next_index msk i p \<le> msk"
proof -
  have "next_index msk i p \<le> unat (of_nat msk :: u64)"
    unfolding next_index_def by (simp add: word_and_le1 flip: word_le_nat_alt)
  also have "\<dots> \<le> msk"
    by (simp add: unat_of_nat)
  finally show ?thesis .
qed

lemma start_index_le: "start_index msk h \<le> msk"
proof -
  have "start_index msk h \<le> unat (of_nat msk :: u64)"
    unfolding start_index_def by (simp add: word_and_le1 flip: word_le_nat_alt)
  also have "\<dots> \<le> msk"
    by (simp add: unat_of_nat)
  finally show ?thesis .
qed

lemma probe_prefix_le:
  assumes "i \<le> msk" "x \<in> set (probe_prefix msk i perturb n)"
  shows "x \<le> msk"
  using assms
proof (induction n arbitrary: i perturb)
  case (Suc n)
  then show ?case
    using set_run_positions [OF Suc.prems(1)] Suc.IH [OF next_index_le] by auto
qed simp

text \<open>A walk along the probed positions that stops is what the loop computes.\<close>

lemma probe_loop_walk:
  assumes "length sl = Suc msk" "i \<le> msk"
    and "walk f sl a (probe_prefix msk i perturb n) = Return r"
  shows "probe_loop f sl msk a i perturb = Some r"
  using assms(2,3)
proof (induction n arbitrary: a i perturb)
  case (Suc n)
  have scan: "scan f sl a (probes_at msk i) i = walk f sl a (run_positions msk i)"
    using run_in_range [OF Suc.prems(1)] assms(1) by (simp add: scan_walk run_positions_def)
  show ?case
    using Suc.prems(2) Suc.IH [OF next_index_le]
    by (auto simp: probe_loop.simps [of f sl msk a i perturb] scan walk_append Let_def
        split: loop_step.splits)
qed simp

section \<open>Every slot starts a run\<close>

definition probe_step :: "nat \<Rightarrow> nat \<times> u64 \<Rightarrow> nat \<times> u64" where
  "probe_step msk = (\<lambda>(i, perturb). (next_index msk i (next_perturb perturb), next_perturb perturb))"

lemma probe_prefix_add:
  "probe_prefix msk i perturb (n + m) =
     probe_prefix msk i perturb n @
     (case (probe_step msk ^^ n) (i, perturb) of (i', perturb') \<Rightarrow> probe_prefix msk i' perturb' m)"
proof (induction n arbitrary: i perturb)
  case (Suc n)
  then show ?case
    by (simp add: probe_step_def funpow_Suc_right del: funpow.simps)
qed simp

lemma run_start: "i \<in> set (run_positions msk i)"
  by (simp add: run_positions_def del: upt_Suc)

lemma probe_prefix_reaches:
  assumes "(probe_step msk ^^ n) (i, perturb) = (e, perturb')"
  shows "e \<in> set (probe_prefix msk i perturb (Suc n))"
  using probe_prefix_add [of msk i perturb n 1] assms run_start [of e msk] by simp

lemma snd_probe_step: "snd ((probe_step msk ^^ n) (i, perturb)) = (next_perturb ^^ n) perturb"
proof (induction n)
  case (Suc n)
  then show ?case
    by (cases "(probe_step msk ^^ n) (i, perturb)") (simp add: probe_step_def [of msk])
qed simp

lemma next_perturb_funpow: "(next_perturb ^^ n) perturb = drop_bit (PERTURB_SHIFT * n) perturb"
  by (induction n) (simp_all add: next_perturb_def algebra_simps)

lemma perturb_exhausted: "(next_perturb ^^ 13) perturb = 0"
  by (rule bit_eqI) (simp add: next_perturb_funpow PERTURB_SHIFT_def bit_simps)

lemma unat_and_mask:
  assumes "k \<le> 64"
  shows "unat ((w :: u64) AND of_nat (2 ^ k - 1)) = unat w mod 2 ^ k"
proof -
  have "of_nat (2 ^ k - 1) = (Bit_Operations.mask k :: u64)"
    by (simp add: mask_eq_exp_minus_1 of_nat_diff)
  then show ?thesis
    by (simp add: unsigned_take_bit_eq flip: take_bit_eq_mask take_bit_eq_mod)
qed

lemma next_index_unperturbed:
  assumes "k \<le> 64"
  shows "next_index (2 ^ k - 1) i 0 = (5 * i + 1) mod 2 ^ k"
proof -
  have "(2 ^ k :: nat) dvd 2 ^ 64"
    using assms by (rule le_imp_power_dvd)
  moreover have w: "of_nat i * 5 + 1 + (0 :: u64) = of_nat (5 * i + 1)"
    by simp
  ultimately show ?thesis
    unfolding next_index_def unat_and_mask [OF assms] w unat_of_nat
    by (simp add: mod_mod_cancel del: of_nat_add of_nat_mult of_nat_Suc)
qed

lemma probe_step_unperturbed:
  assumes "k \<le> 64"
  shows "(probe_step (2 ^ k - 1) ^^ n) (i, 0) = (((\<lambda>x. (5 * x + 1) mod 2 ^ k) ^^ n) i, 0)"
  using next_index_unperturbed [OF assms]
  by (induction n) (simp_all add: probe_step_def next_perturb_def)

lemma probe_covers_aux:
  assumes k: "k \<le> 64" and e: "e < 2 ^ k"
  shows "\<exists>n. e \<in> set (probe_prefix (2 ^ k - 1) i perturb n)"
proof -
  obtain i0 where i0: "(probe_step (2 ^ k - 1) ^^ 13) (i, perturb) = (i0, 0)"
    using snd_probe_step [of 13 "2 ^ k - 1" i perturb] perturb_exhausted [of perturb]
    by (metis prod.collapse)
  have "i0 \<le> 2 ^ k - 1"
    using i0 next_index_le by (auto simp: probe_step_def numeral_eq_Suc split: prod.splits)
  then have "i0 < 2 ^ k"
    using le_less_trans [OF _ diff_less] by simp
  then obtain n where "((\<lambda>x. (5 * x + 1) mod 2 ^ k) ^^ n) i0 = e"
    using lcg_covers [OF e] by blast
  then have "(probe_step (2 ^ k - 1) ^^ (n + 13)) (i, perturb) = (e, 0)"
    unfolding funpow_add comp_def i0 probe_step_unperturbed [OF k] by simp
  then show ?thesis
    by (blast intro: probe_prefix_reaches)
qed

text \<open>C4: the probe sequence is complete.  From any start index and any perturbation the sequence of
  positions (ten linear probes, then the perturbed recurrence) reaches every slot of a table with a
  power-of-two capacity: the perturbation is shifted out after thirteen rounds and \<open>5 i + 1\<close>
  generates all residues modulo a power of two.\<close>

theorem probe_covers:
  assumes "k \<le> 64" "e < 2 ^ k"
  shows "\<exists>n. e \<in> set (probe_prefix (2 ^ k - 1) i perturb n)"
  using probe_covers_aux [OF assms] .

theorem probe_covers_witness: "\<exists>n. 5 \<in> set (probe_prefix (2 ^ 3 - 1) 2 (12345 :: u64) n)"
  by (rule probe_covers) simp_all

end
