(* ===== verification/Pyset.thy ===== *)
theory Pyset
  imports Probing
begin

text \<open>
  The storage of \<open>set\<close> and \<open>frozenset\<close> (\<open>pyset.rs\<close>): CPython's
  open-addressing hash table and the operations on it, with the insertion-order
  fallback for elements without a reproducible hash.

  The element type is a type variable here because a \<open>frozenset\<close> value embeds a
  table of values.  The functions of other modules that \<open>pyset.rs\<close> calls,
  \<open>types::recurse_eq\<close> and \<open>pyhash::python_hash\<close>, are arguments of the
  operations; theory \<open>Pyset_Values\<close> supplies the model's own definitions.

  Every operation on a table returns an \<open>option\<close>: \<open>None\<close> stands for a probe
  loop that does not return or an index out of range.  The theorems show that on
  well-formed tables the operations return.
\<close>

section \<open>Tables\<close>

datatype 'v slot = Empty | Dummy | Active (slot_value: 'v) (slot_hash: i64)

datatype 'v set_table = SetTable (slots: "'v slot list") (tmask: nat) (fill: nat) (used: nat)

datatype 'v set_body = Table "'v set_table" | Fallback "'v list"

definition MINSIZE :: nat where "MINSIZE = 8"

definition with_capacity :: "nat \<Rightarrow> 'v set_table" where
  "with_capacity cap = SetTable (replicate cap Empty) (cap - 1) 0 0"

definition active_entry :: "'v slot \<Rightarrow> ('v \<times> i64) option" where
  "active_entry s = (case s of Active v h \<Rightarrow> Some (v, h) | _ \<Rightarrow> None)"

lemma active_entry_simps [simp]:
  "active_entry Empty = None" "active_entry Dummy = None" "active_entry (Active v h) = Some (v, h)"
  by (simp_all add: active_entry_def)

definition table_actives :: "'v set_table \<Rightarrow> ('v \<times> i64) list" where
  "table_actives t = List.map_filter active_entry (slots t)"

definition table_iter_ordered :: "'v set_table \<Rightarrow> 'v list" where
  "table_iter_ordered t =
     List.map_filter (\<lambda>s. case s of Active v h \<Rightarrow> Some v | _ \<Rightarrow> None) (slots t)"

section \<open>Probing operations\<close>

text \<open>What each loop does at one slot.\<close>

definition clean_step :: "unit \<Rightarrow> nat \<Rightarrow> 'v slot \<Rightarrow> (nat, unit) loop_step" where
  "clean_step a entry s = (case s of Empty \<Rightarrow> Return entry | _ \<Rightarrow> Continue a)"

definition insert_clean :: "'v set_table \<Rightarrow> 'v \<Rightarrow> i64 \<Rightarrow> 'v set_table option" where
  "insert_clean t v h =
     (case probe_loop clean_step (slots t) (tmask t) () (start_index (tmask t) h) h of
        None \<Rightarrow> None
      | Some entry \<Rightarrow>
          Some (SetTable ((slots t)[entry := Active v h]) (tmask t) (fill t) (used t)))"

definition contains_step ::
  "('v \<Rightarrow> 'v \<Rightarrow> bool) \<Rightarrow> 'v \<Rightarrow> i64 \<Rightarrow> unit \<Rightarrow> nat \<Rightarrow> 'v slot \<Rightarrow> (bool, unit) loop_step" where
  "contains_step eq v h a entry s = (case s of
       Empty \<Rightarrow> Return False
     | Active ev eh \<Rightarrow> if eh = h \<and> eq ev v then Return True else Continue a
     | Dummy \<Rightarrow> Continue a)"

definition table_contains :: "('v \<Rightarrow> 'v \<Rightarrow> bool) \<Rightarrow> 'v set_table \<Rightarrow> 'v \<Rightarrow> i64 \<Rightarrow> bool option" where
  "table_contains eq t v h =
     probe_loop (contains_step eq v h) (slots t) (tmask t) () (start_index (tmask t) h) h"

definition discard_step ::
  "('v \<Rightarrow> 'v \<Rightarrow> bool) \<Rightarrow> 'v \<Rightarrow> i64 \<Rightarrow> unit \<Rightarrow> nat \<Rightarrow> 'v slot \<Rightarrow> (nat option, unit) loop_step" where
  "discard_step eq v h a entry s = (case s of
       Empty \<Rightarrow> Return None
     | Active ev eh \<Rightarrow> if eh = h \<and> eq ev v then Return (Some entry) else Continue a
     | Dummy \<Rightarrow> Continue a)"

definition table_discard ::
  "('v \<Rightarrow> 'v \<Rightarrow> bool) \<Rightarrow> 'v set_table \<Rightarrow> 'v \<Rightarrow> i64 \<Rightarrow> ('v set_table \<times> bool) option" where
  "table_discard eq t v h =
     (case probe_loop (discard_step eq v h) (slots t) (tmask t) () (start_index (tmask t) h) h of
        None \<Rightarrow> None
      | Some None \<Rightarrow> Some (t, False)
      | Some (Some entry) \<Rightarrow>
          Some (SetTable ((slots t)[entry := Dummy]) (tmask t) (fill t) (used t - 1), True))"

section \<open>Growing\<close>

text \<open>\<open>while newsize <= minused { newsize <<= 1 }\<close>; \<open>resize\<close> starts it at \<open>MINSIZE\<close>.\<close>

function grow :: "nat \<Rightarrow> nat \<Rightarrow> nat" where
  "grow newsize minused =
     (if 0 < newsize \<and> newsize \<le> minused then grow (newsize * 2) minused else newsize)"
  by pat_completeness auto
termination
  by (relation "measure (\<lambda>(n, m). Suc m - n)") auto

declare grow.simps [simp del]

primrec insert_clean_all :: "'v set_table \<Rightarrow> ('v \<times> i64) list \<Rightarrow> 'v set_table option" where
  "insert_clean_all t [] = Some t"
| "insert_clean_all t (e # es) =
     (case insert_clean t (fst e) (snd e) of None \<Rightarrow> None | Some t' \<Rightarrow> insert_clean_all t' es)"

definition table_resize :: "'v set_table \<Rightarrow> nat \<Rightarrow> 'v set_table option" where
  "table_resize t minused =
     (let newsize = grow MINSIZE minused; es = table_actives t
      in insert_clean_all
           (SetTable (replicate newsize Empty) (newsize - 1) (length es) (length es)) es)"

definition resize_target :: "nat \<Rightarrow> nat" where
  "resize_target n = (if n > 50000 then n * 2 else n * 4)"

definition maybe_resize :: "'v set_table \<Rightarrow> 'v set_table option" where
  "maybe_resize t = (if fill t * 5 < tmask t * 3 then Some t
                     else table_resize t (resize_target (used t)))"

definition table_compact_if_sparse :: "'v set_table \<Rightarrow> 'v set_table option" where
  "table_compact_if_sparse t = (if fill t - used t > tmask t div 4
                          then table_resize t (resize_target (used t)) else Some t)"

section \<open>Insertion\<close>

datatype add_result = Present | Reuse nat | Fresh nat

definition add_step ::
  "('v \<Rightarrow> 'v \<Rightarrow> bool) \<Rightarrow> 'v \<Rightarrow> i64 \<Rightarrow> nat option \<Rightarrow> nat \<Rightarrow> 'v slot \<Rightarrow> (add_result, nat option) loop_step" where
  "add_step eq v h freeslot entry s = (case s of
       Empty \<Rightarrow> Return (case freeslot of Some fs \<Rightarrow> Reuse fs | None \<Rightarrow> Fresh entry)
     | Active ev eh \<Rightarrow> if eh = h \<and> eq ev v then Return Present else Continue freeslot
     | Dummy \<Rightarrow> Continue (Some entry))"

definition table_add :: "('v \<Rightarrow> 'v \<Rightarrow> bool) \<Rightarrow> 'v set_table \<Rightarrow> 'v \<Rightarrow> i64 \<Rightarrow> 'v set_table option" where
  "table_add eq t v h =
     (case probe_loop (add_step eq v h) (slots t) (tmask t) None (start_index (tmask t) h) h of
        None \<Rightarrow> None
      | Some Present \<Rightarrow> Some t
      | Some (Reuse fs) \<Rightarrow>
          Some (SetTable ((slots t)[fs := Active v h]) (tmask t) (fill t) (used t + 1))
      | Some (Fresh entry) \<Rightarrow>
          maybe_resize (SetTable ((slots t)[entry := Active v h]) (tmask t) (fill t + 1) (used t + 1)))"

primrec table_add_all ::
  "('v \<Rightarrow> 'v \<Rightarrow> bool) \<Rightarrow> 'v set_table \<Rightarrow> ('v \<times> i64) list \<Rightarrow> 'v set_table option" where
  "table_add_all eq t [] = Some t"
| "table_add_all eq t (e # es) =
     (case table_add eq t (fst e) (snd e) of None \<Rightarrow> None | Some t' \<Rightarrow> table_add_all eq t' es)"

section \<open>Merging and the set operations\<close>

definition copy_slots :: "'v slot list \<Rightarrow> 'v slot list \<Rightarrow> 'v slot list" where
  "copy_slots sl other = List.map (\<lambda>(s, o1). case o1 of Active v h \<Rightarrow> Active v h | _ \<Rightarrow> s) (zip sl other)"

definition table_merge ::
  "('v \<Rightarrow> 'v \<Rightarrow> bool) \<Rightarrow> 'v set_table \<Rightarrow> 'v set_table \<Rightarrow> 'v set_table option" where
  "table_merge eq t other =
     (case (if (fill t + used other) * 5 \<ge> tmask t * 3
            then table_resize t ((used t + used other) * 2) else Some t) of
        None \<Rightarrow> None
      | Some t1 \<Rightarrow>
          if fill t1 = 0 \<and> tmask t1 = tmask other \<and> fill other = used other
          then Some (SetTable (copy_slots (slots t1) (slots other)) (tmask t1) (fill other) (used other))
          else if fill t1 = 0
          then insert_clean_all (SetTable (slots t1) (tmask t1) (used other) (used other))
                 (table_actives other)
          else table_add_all eq t1 (table_actives other))"

definition table_pop_first :: "'v set_table \<Rightarrow> ('v \<times> 'v set_table) option" where
  "table_pop_first t =
     (case List.find (\<lambda>i. active_entry (slots t ! i) \<noteq> None) [0 ..< length (slots t)] of
        None \<Rightarrow> None
      | Some i \<Rightarrow> Some (slot_value (slots t ! i),
                     SetTable ((slots t)[i := Dummy]) (tmask t) (fill t) (used t - 1)))"

definition hash_all :: "('v \<Rightarrow> i64 option) \<Rightarrow> 'v list \<Rightarrow> i64 list option" where
  "hash_all python_hash items = those (List.map python_hash items)"

text \<open>\<open>Some None\<close> is the code's \<open>None\<close>: an element has no reproducible hash.\<close>

definition table_from_incremental ::
  "('v \<Rightarrow> 'v \<Rightarrow> bool) \<Rightarrow> ('v \<Rightarrow> i64 option) \<Rightarrow> 'v list \<Rightarrow> 'v set_table option option" where
  "table_from_incremental eq python_hash items =
     (case hash_all python_hash items of
        None \<Rightarrow> Some None
      | Some hashes \<Rightarrow> map_option Some (table_add_all eq (with_capacity MINSIZE) (zip items hashes)))"

definition table_copy :: "('v \<Rightarrow> 'v \<Rightarrow> bool) \<Rightarrow> 'v set_table \<Rightarrow> 'v set_table option" where
  "table_copy eq a = table_merge eq (with_capacity MINSIZE) a"

definition table_union ::
  "('v \<Rightarrow> 'v \<Rightarrow> bool) \<Rightarrow> 'v set_table \<Rightarrow> 'v set_table \<Rightarrow> 'v set_table option" where
  "table_union eq a b = (case table_copy eq a of None \<Rightarrow> None | Some r \<Rightarrow> table_merge eq r b)"

text \<open>\<open>for (v, h) in es { if t.contains(v, h) == keep { r.add(v, h) } }\<close>.\<close>

primrec add_filtered ::
  "('v \<Rightarrow> 'v \<Rightarrow> bool) \<Rightarrow> bool \<Rightarrow> 'v set_table \<Rightarrow> 'v set_table \<Rightarrow> ('v \<times> i64) list \<Rightarrow> 'v set_table option" where
  "add_filtered eq keep t r [] = Some r"
| "add_filtered eq keep t r (e # es) =
     (case table_contains eq t (fst e) (snd e) of
        None \<Rightarrow> None
      | Some c \<Rightarrow>
          (case (if c = keep then table_add eq r (fst e) (snd e) else Some r) of
             None \<Rightarrow> None | Some r' \<Rightarrow> add_filtered eq keep t r' es))"

definition table_intersection ::
  "('v \<Rightarrow> 'v \<Rightarrow> bool) \<Rightarrow> 'v set_table \<Rightarrow> 'v set_table \<Rightarrow> 'v set_table option" where
  "table_intersection eq a b =
     (let (small, large) = (if used a \<ge> used b then (b, a) else (a, b))
      in add_filtered eq True large (with_capacity MINSIZE) (table_actives small))"

primrec table_discard_all ::
  "('v \<Rightarrow> 'v \<Rightarrow> bool) \<Rightarrow> 'v set_table \<Rightarrow> ('v \<times> i64) list \<Rightarrow> 'v set_table option" where
  "table_discard_all eq t [] = Some t"
| "table_discard_all eq t (e # es) =
     (case table_discard eq t (fst e) (snd e) of
        None \<Rightarrow> None | Some r \<Rightarrow> table_discard_all eq (fst r) es)"

definition difference_update ::
  "('v \<Rightarrow> 'v \<Rightarrow> bool) \<Rightarrow> 'v set_table \<Rightarrow> 'v set_table \<Rightarrow> 'v set_table option" where
  "difference_update eq a b =
     (case table_discard_all eq a (table_actives b) of
        None \<Rightarrow> None | Some a' \<Rightarrow> table_compact_if_sparse a')"

definition table_difference ::
  "('v \<Rightarrow> 'v \<Rightarrow> bool) \<Rightarrow> 'v set_table \<Rightarrow> 'v set_table \<Rightarrow> 'v set_table option" where
  "table_difference eq a b =
     (if used a div 4 > used b
      then (case table_copy eq a of None \<Rightarrow> None | Some r \<Rightarrow> difference_update eq r b)
      else add_filtered eq False b (with_capacity MINSIZE) (table_actives a))"

primrec toggle_all ::
  "('v \<Rightarrow> 'v \<Rightarrow> bool) \<Rightarrow> 'v set_table \<Rightarrow> ('v \<times> i64) list \<Rightarrow> 'v set_table option" where
  "toggle_all eq r [] = Some r"
| "toggle_all eq r (e # es) =
     (case table_discard eq r (fst e) (snd e) of
        None \<Rightarrow> None
      | Some (r1, True) \<Rightarrow> toggle_all eq r1 es
      | Some (r1, False) \<Rightarrow>
          (case table_add eq r1 (fst e) (snd e) of None \<Rightarrow> None | Some r2 \<Rightarrow> toggle_all eq r2 es))"

definition table_symmetric_difference ::
  "('v \<Rightarrow> 'v \<Rightarrow> bool) \<Rightarrow> 'v set_table \<Rightarrow> 'v set_table \<Rightarrow> 'v set_table option" where
  "table_symmetric_difference eq a b =
     (case table_copy eq b of None \<Rightarrow> None | Some r \<Rightarrow> toggle_all eq r (table_actives a))"

definition constant_literal_table ::
  "('v \<Rightarrow> 'v \<Rightarrow> bool) \<Rightarrow> ('v \<Rightarrow> i64 option) \<Rightarrow> 'v list \<Rightarrow> 'v set_table option option" where
  "constant_literal_table eq python_hash items =
     (case table_from_incremental eq python_hash items of
        None \<Rightarrow> None
      | Some None \<Rightarrow> Some None
      | Some (Some fs1) \<Rightarrow>
          (case table_from_incremental eq python_hash (table_iter_ordered fs1) of
             None \<Rightarrow> None
           | Some None \<Rightarrow> Some None
           | Some (Some konst) \<Rightarrow> map_option Some (table_copy eq konst)))"

section \<open>Well-formed tables\<close>

definition matches :: "('v \<Rightarrow> 'v \<Rightarrow> bool) \<Rightarrow> 'v \<Rightarrow> i64 \<Rightarrow> 'v slot \<Rightarrow> bool" where
  "matches eq v h s \<longleftrightarrow> (case s of Active ev eh \<Rightarrow> eh = h \<and> eq ev v | _ \<Rightarrow> False)"

lemma matches_simps [simp]:
  "\<not> matches eq v h Empty" "\<not> matches eq v h Dummy"
  "matches eq v h (Active ev eh) \<longleftrightarrow> eh = h \<and> eq ev v"
  by (simp_all add: matches_def)

definition probe_seq :: "nat \<Rightarrow> i64 \<Rightarrow> nat \<Rightarrow> nat list" where
  "probe_seq msk h n = probe_prefix msk (start_index msk h) h n"

definition reached :: "'v slot list \<Rightarrow> nat \<Rightarrow> i64 \<Rightarrow> nat \<Rightarrow> bool" where
  "reached sl msk h j \<longleftrightarrow>
     (\<exists>n ys zs. probe_seq msk h n = ys @ j # zs \<and> (\<forall>y \<in> set ys. sl ! y \<noteq> Empty))"

text \<open>Every active slot is met by the probe sequence of its own hash before an empty one.\<close>

definition slots_ok :: "'v slot list \<Rightarrow> nat \<Rightarrow> bool" where
  "slots_ok sl msk \<longleftrightarrow>
     (\<exists>k \<ge> 3. k \<le> 64 \<and> length sl = 2 ^ k) \<and> msk = length sl - 1 \<and>
     (\<forall>j < length sl. \<forall>v h. sl ! j = Active v h \<longrightarrow> reached sl msk h j)"

definition wf_table :: "'v set_table \<Rightarrow> bool" where
  "wf_table t \<longleftrightarrow>
     slots_ok (slots t) (tmask t) \<and>
     fill t = length (filter (\<lambda>s. s \<noteq> Empty) (slots t)) \<and>
     used t = length (table_actives t) \<and>
     fill t * 5 < tmask t * 3"

lemma probe_seq_le: "x \<in> set (probe_seq msk h n) \<Longrightarrow> x \<le> msk"
  unfolding probe_seq_def by (rule probe_prefix_le [OF start_index_le])

lemma probe_seq_prefix: "n \<le> m \<Longrightarrow> \<exists>zs. probe_seq msk h m = probe_seq msk h n @ zs"
  unfolding probe_seq_def by (auto simp: le_iff_add probe_prefix_add)

lemma slots_ok_length: "slots_ok sl msk \<Longrightarrow> length sl = Suc msk"
  by (auto simp: slots_ok_def)

lemma probe_seq_covers:
  assumes "slots_ok sl msk" "e < length sl"
  shows "\<exists>n. e \<in> set (probe_seq msk h n)"
proof -
  obtain k where k: "k \<le> 64" "length sl = 2 ^ k" "msk = 2 ^ k - 1"
    using assms(1) by (auto simp: slots_ok_def)
  then show ?thesis
    using probe_covers_aux [OF k(1), of e] assms(2) unfolding probe_seq_def k(3) by simp
qed

lemma first_empty:
  assumes "slots_ok sl msk" "Empty \<in> set sl"
  obtains n ys e zs where "probe_seq msk h n = ys @ e # zs" "sl ! e = Empty" "e < length sl"
    "\<forall>y \<in> set ys. sl ! y \<noteq> Empty \<and> y < length sl"
proof -
  obtain e0 where e0: "e0 < length sl" "sl ! e0 = Empty"
    using assms(2) by (auto simp: in_set_conv_nth)
  obtain n where "e0 \<in> set (probe_seq msk h n)"
    using probe_seq_covers [OF assms(1) e0(1)] by blast
  then have "\<exists>x \<in> set (probe_seq msk h n). sl ! x = Empty"
    using e0 by blast
  then obtain ys e zs where s: "probe_seq msk h n = ys @ e # zs" "sl ! e = Empty"
    "\<forall>y \<in> set ys. sl ! y \<noteq> Empty"
    using split_list_first_prop [of "probe_seq msk h n" "\<lambda>x. sl ! x = Empty"] by metis
  have "set (ys @ [e]) \<subseteq> {..msk}"
    using probe_seq_le [of _ msk h n] s(1) by auto
  then show thesis
    using that [OF s(1,2)] s(3) slots_ok_length [OF assms(1)]
    by (auto simp: less_Suc_eq_le subset_iff)
qed

lemma decomp_before:
  assumes "ys @ e # zs = xs @ rs" "ys' @ j # zs' = xs @ rs'" "rs = [] \<or> rs' = []"
    and "\<not> P e" "\<forall>y \<in> set ys'. P y" "P j"
  shows "j \<in> set ys"
proof (rule ccontr)
  assume j: "j \<notin> set ys"
  have "\<exists>us us'. ys @ e # us = ys' @ j # us'"
    using assms(1-3) by (metis append_Cons append_Nil2 append_assoc)
  then obtain us us' where "ys @ e # us = ys' @ j # us'" by blast
  then consider q where "ys' = ys @ q" "e # us = q @ j # us'" | q where "ys = ys' @ q" "q @ e # us = j # us'"
    by (auto simp: append_eq_append_conv2)
  then show False
  proof cases
    case 1
    then show ?thesis using assms(4-6) by (cases q) auto
  next
    case 2
    then show ?thesis using assms(4-6) j by (cases q) auto
  qed
qed

lemma reached_before_empty:
  assumes "probe_seq msk h n = ys @ e # zs" "sl ! e = Empty"
    and "reached sl msk h j" "sl ! j \<noteq> Empty"
  shows "j \<in> set ys"
proof -
  obtain n' ys' zs' where r: "probe_seq msk h n' = ys' @ j # zs'" "\<forall>y \<in> set ys'. sl ! y \<noteq> Empty"
    using assms(3) by (auto simp: reached_def)
  obtain xs rs rs' where "probe_seq msk h n = xs @ rs" "probe_seq msk h n' = xs @ rs'" "rs = [] \<or> rs' = []"
    using probe_seq_prefix [of n n' msk h] probe_seq_prefix [of n' n msk h]
    by (metis append_Nil2 nle_le)
  then show ?thesis
    using decomp_before [of ys e zs xs rs ys' j zs' rs' "\<lambda>y. sl ! y \<noteq> Empty"] assms r by metis
qed

lemma match_before_empty:
  assumes "slots_ok sl msk" "probe_seq msk h n = ys @ e # zs" "sl ! e = Empty"
    and "j < length sl" "matches eq v h (sl ! j)"
  shows "j \<in> set ys"
  using assms reached_before_empty [OF assms(2,3), of j]
  by (cases "sl ! j") (auto simp: slots_ok_def)

section \<open>What the probe loops return\<close>

lemma walk_clean:
  "\<forall>y \<in> set ys. sl ! y \<noteq> Empty \<Longrightarrow> sl ! e = Empty \<Longrightarrow> walk clean_step sl () (ys @ e # zs) = Return e"
  by (induction ys) (simp_all add: clean_step_def split: slot.splits)

lemma walk_contains:
  "\<forall>y \<in> set ys. sl ! y \<noteq> Empty \<Longrightarrow> sl ! e = Empty \<Longrightarrow>
   walk (contains_step eq v h) sl () (ys @ e # zs) = Return (\<exists>y \<in> set ys. matches eq v h (sl ! y))"
  by (induction ys) (auto simp: contains_step_def split: slot.splits)

lemma walk_discard:
  "\<forall>y \<in> set ys. sl ! y \<noteq> Empty \<Longrightarrow> sl ! e = Empty \<Longrightarrow>
   walk (discard_step eq v h) sl () (ys @ e # zs) = Return (List.find (\<lambda>y. matches eq v h (sl ! y)) ys)"
  by (induction ys) (simp_all add: discard_step_def split: slot.splits)

definition last_dummy :: "'v slot list \<Rightarrow> nat option \<Rightarrow> nat list \<Rightarrow> nat option" where
  "last_dummy sl fs ys = fold (\<lambda>y d. if active_entry (sl ! y) = None then Some y else d) ys fs"

lemma walk_add:
  "\<forall>y \<in> set ys. sl ! y \<noteq> Empty \<Longrightarrow> sl ! e = Empty \<Longrightarrow>
   walk (add_step eq v h) sl fs (ys @ e # zs) =
     Return (if \<exists>y \<in> set ys. matches eq v h (sl ! y) then Present
             else case last_dummy sl fs ys of Some d \<Rightarrow> Reuse d | None \<Rightarrow> Fresh e)"
  by (induction ys arbitrary: fs) (simp_all add: add_step_def last_dummy_def split: slot.splits)

lemma last_dummy_in:
  "last_dummy sl fs ys = Some d \<Longrightarrow> fs = Some d \<or> (d \<in> set ys \<and> active_entry (sl ! d) = None)"
  unfolding last_dummy_def
  by (induction ys arbitrary: fs) (auto split: if_splits)

section \<open>Updates keep the slots well-formed\<close>

lemma reached_update:
  assumes "reached sl msk h j" "s \<noteq> Empty"
  shows "reached (sl[i := s]) msk h j"
proof -
  obtain n ys zs where r: "probe_seq msk h n = ys @ j # zs" "\<forall>y \<in> set ys. sl ! y \<noteq> Empty"
    using assms(1) by (auto simp: reached_def)
  have "sl[i := s] ! y \<noteq> Empty" if "y \<in> set ys" for y
    using r(2) assms(2) that by (cases "i < length sl") (auto simp: nth_list_update not_less list_update_beyond)
  then have "\<forall>y \<in> set ys. sl[i := s] ! y \<noteq> Empty"
    by blast
  with r(1) show ?thesis by (auto simp: reached_def)
qed

lemma slots_ok_update:
  assumes ok: "slots_ok sl msk" and s: "s \<noteq> Empty" "\<And>v h. s = Active v h \<Longrightarrow> reached sl msk h i"
  shows "slots_ok (sl[i := s]) msk"
proof -
  have "reached (sl[i := s]) msk h j"
    if j: "j < length sl" "sl[i := s] ! j = Active v h" for j v h
  proof -
    have "reached sl msk h j"
      using j ok s(2) by (cases "i = j") (auto simp: slots_ok_def)
    then show ?thesis
      by (rule reached_update [OF _ s(1)])
  qed
  then show ?thesis
    using ok by (auto simp: slots_ok_def)
qed

definition nonempty :: "'v slot list \<Rightarrow> nat" where
  "nonempty sl = length (filter (\<lambda>s. s \<noteq> Empty) sl)"

definition entries :: "'v slot list \<Rightarrow> ('v \<times> i64) multiset" where
  "entries sl = mset (List.map_filter active_entry sl)"

lemma entries_table: "mset (table_actives t) = entries (slots t)"
  by (simp add: entries_def table_actives_def)

lemma nonempty_update:
  "i < length sl \<Longrightarrow> nonempty (sl[i := s]) + (if sl ! i \<noteq> Empty then 1 else 0)
     = nonempty sl + (if s \<noteq> Empty then 1 else 0)"
  unfolding nonempty_def by (rule length_filter_update)

lemma entries_update:
  "i < length sl \<Longrightarrow>
   entries (sl[i := s]) + (case active_entry (sl ! i) of None \<Rightarrow> {#} | Some y \<Rightarrow> {#y#})
     = entries sl + (case active_entry s of None \<Rightarrow> {#} | Some y \<Rightarrow> {#y#})"
  unfolding entries_def by (rule mset_map_filter_update)

lemma nonempty_less: "nonempty sl < length sl \<Longrightarrow> Empty \<in> set sl"
proof (rule ccontr)
  assume "nonempty sl < length sl" "Empty \<notin> set sl"
  moreover from this(2) have "filter (\<lambda>s. s \<noteq> Empty) sl = sl"
    by (intro filter_True) auto
  ultimately show False by (simp add: nonempty_def)
qed

lemma entries_replicate [simp]: "entries (replicate n Empty) = {#}" "nonempty (replicate n Empty) = 0"
  by (simp_all add: entries_def nonempty_def List.map_filter_def)

lemma in_entries: "e \<in># entries sl \<longleftrightarrow> (\<exists>j < length sl. active_entry (sl ! j) = Some e)"
  by (auto simp: entries_def set_map_filter in_set_conv_nth) (metis nth_mem)

lemma wf_table_def2:
  "wf_table t \<longleftrightarrow> slots_ok (slots t) (tmask t) \<and> fill t = nonempty (slots t) \<and>
     used t = size (entries (slots t)) \<and> fill t * 5 < tmask t * 3"
  by (simp add: wf_table_def nonempty_def flip: entries_table)

lemma wf_table_has_empty:
  assumes "wf_table t"
  shows "Empty \<in> set (slots t)"
proof (rule nonempty_less)
  show "nonempty (slots t) < length (slots t)"
    using assms slots_ok_length [of "slots t" "tmask t"] by (simp add: wf_table_def2)
qed

section \<open>Clean insertion and resizing\<close>

lemma insert_clean_ok:
  assumes ok: "slots_ok (slots t) (tmask t)" and em: "Empty \<in> set (slots t)"
  obtains e where "e < length (slots t)" "slots t ! e = Empty"
    "insert_clean t v h = Some (SetTable ((slots t)[e := Active v h]) (tmask t) (fill t) (used t))"
    "slots_ok ((slots t)[e := Active v h]) (tmask t)"
proof -
  obtain n ys e zs where f: "probe_seq (tmask t) h n = ys @ e # zs" "slots t ! e = Empty"
    "e < length (slots t)" "\<forall>y \<in> set ys. slots t ! y \<noteq> Empty \<and> y < length (slots t)"
    using first_empty [OF ok em] by metis
  have "walk clean_step (slots t) () (probe_seq (tmask t) h n) = Return e"
    unfolding f(1) using f by (intro walk_clean) auto
  then have "probe_loop clean_step (slots t) (tmask t) () (start_index (tmask t) h) h = Some e"
    unfolding probe_seq_def
    by (rule probe_loop_walk [OF slots_ok_length [OF ok] start_index_le])
  then have i: "insert_clean t v h
      = Some (SetTable ((slots t)[e := Active v h]) (tmask t) (fill t) (used t))"
    by (simp add: insert_clean_def)
  have "reached (slots t) (tmask t) h e"
    using f by (auto simp: reached_def)
  then have "slots_ok ((slots t)[e := Active v h]) (tmask t)"
    by (intro slots_ok_update [OF ok]) auto
  with f i show thesis by (intro that)
qed

lemma insert_clean_all_ok:
  assumes "slots_ok (slots t) (tmask t)" "nonempty (slots t) + length es < length (slots t)"
  shows "\<exists>t'. insert_clean_all t es = Some t' \<and> slots_ok (slots t') (tmask t') \<and>
     tmask t' = tmask t \<and> fill t' = fill t \<and> used t' = used t \<and>
     nonempty (slots t') = nonempty (slots t) + length es \<and>
     entries (slots t') = entries (slots t) + mset es"
  using assms
proof (induction es arbitrary: t)
  case (Cons x es)
  have "Empty \<in> set (slots t)"
    using Cons.prems(2) by (intro nonempty_less) simp
  then obtain e where e: "e < length (slots t)" "slots t ! e = Empty"
    "insert_clean t (fst x) (snd x)
       = Some (SetTable ((slots t)[e := Active (fst x) (snd x)]) (tmask t) (fill t) (used t))"
    "slots_ok ((slots t)[e := Active (fst x) (snd x)]) (tmask t)"
    using insert_clean_ok [OF Cons.prems(1)] by metis
  define t1 where "t1 = SetTable ((slots t)[e := Active (fst x) (snd x)]) (tmask t) (fill t) (used t)"
  have n: "nonempty (slots t1) = Suc (nonempty (slots t))"
    using nonempty_update [OF e(1), of "Active (fst x) (snd x)"] e(2) by (simp add: t1_def)
  have m: "entries (slots t1) = entries (slots t) + {#x#}"
    using entries_update [OF e(1), of "Active (fst x) (snd x)"] e(2) by (simp add: t1_def)
  have "\<exists>t'. insert_clean_all t1 es = Some t' \<and> slots_ok (slots t') (tmask t') \<and>
     tmask t' = tmask t1 \<and> fill t' = fill t1 \<and> used t' = used t1 \<and>
     nonempty (slots t') = nonempty (slots t1) + length es \<and>
     entries (slots t') = entries (slots t1) + mset es"
    using Cons.prems(2) e(4) n by (intro Cons.IH) (simp_all add: t1_def)
  then show ?case
    using e(3) n m by (simp add: t1_def ac_simps)
qed simp

lemma grow_power:
  "newsize = 2 ^ k \<Longrightarrow> \<exists>j \<ge> k. grow newsize minused = 2 ^ j \<and> minused < 2 ^ j \<and> (j = k \<or> 2 ^ j \<le> 2 * minused)"
proof (induction newsize minused arbitrary: k rule: grow.induct)
  case (1 newsize minused)
  show ?case
  proof (cases "newsize \<le> minused")
    case True
    have "\<exists>j \<ge> Suc k. grow (newsize * 2) minused = 2 ^ j \<and> minused < 2 ^ j \<and> (j = Suc k \<or> 2 ^ j \<le> 2 * minused)"
      using 1(2) True by (intro 1(1)) simp_all
    then obtain j where "j \<ge> Suc k" "grow (newsize * 2) minused = 2 ^ j" "minused < 2 ^ j"
      "j = Suc k \<or> 2 ^ j \<le> 2 * minused" by blast
    then show ?thesis
      using True 1(2) by (intro exI [of _ j]) (auto simp: grow.simps [of "2 ^ k"])
  next
    case False
    then show ?thesis
      using 1(2) by (intro exI [of _ k]) (simp add: grow.simps [of "2 ^ k"])
  qed
qed

lemma grow_MINSIZE:
  assumes "minused < 2 ^ 63"
  obtains k where "3 \<le> k" "k \<le> 64" "grow MINSIZE minused = 2 ^ k" "minused < 2 ^ k"
proof -
  obtain k where k: "3 \<le> k" "grow MINSIZE minused = 2 ^ k" "minused < 2 ^ k" "k = 3 \<or> 2 ^ k \<le> 2 * minused"
    using grow_power [of MINSIZE 3 minused] by (auto simp: MINSIZE_def)
  have "k \<le> 64"
  proof (cases "k = 3")
    case False
    then have "(2 :: nat) ^ k < 2 ^ 64"
      using k(4) assms by simp
    then show ?thesis
      using power_less_imp_less_exp [of "2 :: nat" k 64] by simp
  qed simp
  with k show thesis by (intro that)
qed

lemma slots_ok_replicate:
  "3 \<le> k \<Longrightarrow> k \<le> 64 \<Longrightarrow> slots_ok (replicate (2 ^ k) Empty) (2 ^ k - 1)"
  by (auto simp: slots_ok_def)

lemma table_resize_ok:
  fixes t :: "'a set_table"
  assumes "2 * size (entries (slots t)) \<le> minused" "minused < 2 ^ 63"
  shows "\<exists>t'. table_resize t minused = Some t' \<and> wf_table t' \<and> entries (slots t') = entries (slots t)"
proof -
  obtain k where k: "3 \<le> k" "k \<le> 64" "grow MINSIZE minused = 2 ^ k" "minused < 2 ^ k"
    using grow_MINSIZE [OF assms(2)] .
  define n where "n = size (entries (slots t))"
  have n: "length (table_actives t) = n"
    by (simp add: n_def flip: entries_table)
  define t0 :: "'a set_table" where "t0 = SetTable (replicate (2 ^ k) Empty) (2 ^ k - 1) n n"
  have eq: "table_resize t minused = insert_clean_all t0 (table_actives t)"
    by (simp add: table_resize_def k(3) t0_def n Let_def)
  have "\<exists>t'. insert_clean_all t0 (table_actives t) = Some t' \<and> slots_ok (slots t') (tmask t') \<and>
     tmask t' = tmask t0 \<and> fill t' = fill t0 \<and> used t' = used t0 \<and>
     nonempty (slots t') = nonempty (slots t0) + length (table_actives t) \<and>
     entries (slots t') = entries (slots t0) + mset (table_actives t)"
    using slots_ok_replicate [OF k(1,2)] assms(1) k(4)
    by (intro insert_clean_all_ok) (auto simp: t0_def n n_def)
  then obtain t' where t': "insert_clean_all t0 (table_actives t) = Some t'" "slots_ok (slots t') (tmask t')"
    "tmask t' = 2 ^ k - 1" "fill t' = n" "used t' = n" "nonempty (slots t') = n"
    "entries (slots t') = entries (slots t)"
    by (auto simp: t0_def n entries_table)
  have "n * 5 < (2 ^ k - 1) * 3"
  proof -
    have "(2 :: nat) ^ 3 \<le> 2 ^ k"
      using k(1) by (intro power_increasing) simp_all
    then show ?thesis
      using assms(1) k(4) by (simp add: n_def)
  qed
  then have "wf_table t'"
    using t' by (simp add: wf_table_def2 n_def)
  with t' eq show ?thesis by auto
qed

section \<open>Membership, insertion and removal\<close>

text \<open>The abstract membership test: some active entry has the hash and compares equal.\<close>

definition table_has :: "('v \<Rightarrow> 'v \<Rightarrow> bool) \<Rightarrow> 'v set_table \<Rightarrow> 'v \<Rightarrow> i64 \<Rightarrow> bool" where
  "table_has eq t v h \<longleftrightarrow> (\<exists>(w, g) \<in> set (table_actives t). g = h \<and> eq w v)"

lemma table_has_entries: "table_has eq t v h \<longleftrightarrow> (\<exists>w. (w, h) \<in># entries (slots t) \<and> eq w v)"
  by (auto simp: table_has_def simp flip: entries_table)

lemma table_has_slot: "table_has eq t v h \<longleftrightarrow> (\<exists>j < length (slots t). matches eq v h (slots t ! j))"
proof -
  have "(\<exists>w. active_entry s = Some (w, h) \<and> eq w v) \<longleftrightarrow> matches eq v h s" for s
    by (cases s) auto
  then show ?thesis
    unfolding table_has_entries in_entries by metis
qed

lemma probe_loop_seq:
  assumes "slots_ok sl msk" "walk f sl a (probe_seq msk h n) = Return r"
  shows "probe_loop f sl msk a (start_index msk h) h = Some r"
  using assms(2) unfolding probe_seq_def
  by (rule probe_loop_walk [OF slots_ok_length [OF assms(1)] start_index_le])

lemma probe_result:
  assumes ok: "slots_ok (slots t) (tmask t)" and em: "Empty \<in> set (slots t)"
  obtains n ys e zs where "probe_seq (tmask t) h n = ys @ e # zs"
    "e < length (slots t)" "slots t ! e = Empty" "reached (slots t) (tmask t) h e"
    "\<And>y. y \<in> set ys \<Longrightarrow> slots t ! y \<noteq> Empty \<and> y < length (slots t) \<and> reached (slots t) (tmask t) h y"
    "\<And>eq v. (\<exists>y \<in> set ys. matches eq v h (slots t ! y)) \<longleftrightarrow> table_has eq t v h"
proof -
  obtain n ys e zs where f: "probe_seq (tmask t) h n = ys @ e # zs" "slots t ! e = Empty"
    "e < length (slots t)" "\<forall>y \<in> set ys. slots t ! y \<noteq> Empty \<and> y < length (slots t)"
    using first_empty [OF ok em] by metis
  have "reached (slots t) (tmask t) h y" if y: "y \<in> set ys" for y
  proof -
    obtain us vs where "ys = us @ y # vs" using y by (auto dest: split_list)
    then show ?thesis
      using f unfolding reached_def
      by (intro exI [of _ n] exI [of _ us] exI [of _ "vs @ e # zs"]) auto
  qed
  moreover have "reached (slots t) (tmask t) h e"
    using f by (auto simp: reached_def)
  moreover have "(\<exists>y \<in> set ys. matches eq v h (slots t ! y)) \<longleftrightarrow> table_has eq t v h" for eq v
    using match_before_empty [OF ok f(1,2)] f(4) by (auto simp: table_has_slot)
  ultimately show thesis
    using f by (intro that) auto
qed

lemma contains_aux:
  assumes wf: "wf_table t"
  shows "table_contains eq t v h = Some (table_has eq t v h)"
proof -
  have ok: "slots_ok (slots t) (tmask t)"
    using wf by (simp add: wf_table_def)
  obtain n ys e zs where p: "probe_seq (tmask t) h n = ys @ e # zs" "slots t ! e = Empty"
      "\<And>y. y \<in> set ys \<Longrightarrow> slots t ! y \<noteq> Empty"
      "(\<exists>y \<in> set ys. matches eq v h (slots t ! y)) \<longleftrightarrow> table_has eq t v h"
    by (rule probe_result [OF ok wf_table_has_empty [OF wf]]) blast
  show ?thesis
    unfolding table_contains_def p(4) [symmetric]
    using p(2,3) by (intro probe_loop_seq [OF ok, of _ _ _ n]) (simp add: p(1) walk_contains)
qed

lemma discard_aux:
  assumes wf: "wf_table t"
  shows "if table_has eq t v h
     then \<exists>w t'. (w, h) \<in># entries (slots t) \<and> eq w v \<and> table_discard eq t v h = Some (t', True) \<and>
            wf_table t' \<and> entries (slots t') = entries (slots t) - {#(w, h)#}
     else table_discard eq t v h = Some (t, False)"
proof -
  have ok: "slots_ok (slots t) (tmask t)"
    using wf by (simp add: wf_table_def)
  obtain n ys e zs where p: "probe_seq (tmask t) h n = ys @ e # zs" "slots t ! e = Empty"
      "\<And>y. y \<in> set ys \<Longrightarrow> slots t ! y \<noteq> Empty \<and> y < length (slots t)"
      "(\<exists>y \<in> set ys. matches eq v h (slots t ! y)) \<longleftrightarrow> table_has eq t v h"
    by (rule probe_result [OF ok wf_table_has_empty [OF wf]]) blast
  have loop: "probe_loop (discard_step eq v h) (slots t) (tmask t) () (start_index (tmask t) h) h
      = Some (List.find (\<lambda>y. matches eq v h (slots t ! y)) ys)"
    using p(2,3) by (intro probe_loop_seq [OF ok, of _ _ _ n]) (simp add: p(1) walk_discard)
  show ?thesis
  proof (cases "List.find (\<lambda>y. matches eq v h (slots t ! y)) ys")
    case None
    then have "\<not> table_has eq t v h"
      using p(4) by (auto simp: find_None_iff)
    then show ?thesis
      using None loop by (simp add: table_discard_def)
  next
    case (Some i)
    then have i: "i \<in> set ys" "matches eq v h (slots t ! i)"
      by (auto simp: find_Some_iff)
    then obtain w where w: "slots t ! i = Active w h" "eq w v"
      by (cases "slots t ! i") auto
    have il: "i < length (slots t)"
      using i(1) p(3) by blast
    have has: "table_has eq t v h"
      using i p(4) by blast
    define t' where "t' = SetTable ((slots t)[i := Dummy]) (tmask t) (fill t) (used t - 1)"
    have d: "table_discard eq t v h = Some (t', True)"
      using Some loop by (simp add: table_discard_def t'_def)
    have e: "entries (slots t) = add_mset (w, h) (entries (slots t'))"
      using entries_update [OF il, of Dummy] w(1) by (simp add: t'_def)
    have "nonempty (slots t') = nonempty (slots t)"
      using nonempty_update [OF il, of Dummy] w(1) by (simp add: t'_def)
    moreover have "slots_ok (slots t') (tmask t)"
      unfolding t'_def using slots_ok_update [OF ok, of Dummy i] by simp
    ultimately have "wf_table t'"
      using wf e by (simp add: wf_table_def2 t'_def)
    then show ?thesis
      using has d e w(2) by auto
  qed
qed

lemma add_aux:
  assumes wf: "wf_table t" and cap: "used t < 2 ^ 60"
  shows "\<exists>t'. table_add eq t v h = Some t' \<and> wf_table t' \<and>
     entries (slots t') = (if table_has eq t v h then entries (slots t) else add_mset (v, h) (entries (slots t)))"
proof -
  have ok: "slots_ok (slots t) (tmask t)"
    using wf by (simp add: wf_table_def)
  obtain n ys e zs where q: "probe_seq (tmask t) h n = ys @ e # zs"
    and p: "e < length (slots t)" "slots t ! e = Empty" "reached (slots t) (tmask t) h e"
      "\<And>y. y \<in> set ys \<Longrightarrow> slots t ! y \<noteq> Empty \<and> y < length (slots t) \<and> reached (slots t) (tmask t) h y"
      "(\<exists>y \<in> set ys. matches eq v h (slots t ! y)) \<longleftrightarrow> table_has eq t v h"
    by (rule probe_result [OF ok wf_table_has_empty [OF wf]]) blast
  have loop: "probe_loop (add_step eq v h) (slots t) (tmask t) None (start_index (tmask t) h) h
      = Some (if \<exists>y \<in> set ys. matches eq v h (slots t ! y) then Present
              else case last_dummy (slots t) None ys of Some d \<Rightarrow> Reuse d | None \<Rightarrow> Fresh e)"
    using p(2,4) by (intro probe_loop_seq [OF ok, of _ _ _ n]) (simp add: q walk_add)
  have upd: "slots_ok ((slots t)[i := Active v h]) (tmask t)" if "reached (slots t) (tmask t) h i" for i
    using slots_ok_update [OF ok, of "Active v h" i] that by auto
  show ?thesis
  proof (cases "table_has eq t v h")
    case True
    then show ?thesis
      using loop p(5) wf by (simp add: table_add_def)
  next
    case False
    show ?thesis
    proof (cases "last_dummy (slots t) None ys")
      case (Some d)
      then have d: "d \<in> set ys" "active_entry (slots t ! d) = None"
        using last_dummy_in [OF Some] by auto
      then have dl: "d < length (slots t)" "slots t ! d \<noteq> Empty" "reached (slots t) (tmask t) h d"
        using p(4) by blast+
      define t' where "t' = SetTable ((slots t)[d := Active v h]) (tmask t) (fill t) (used t + 1)"
      have e: "entries (slots t') = add_mset (v, h) (entries (slots t))"
        using entries_update [OF dl(1), of "Active v h"] d(2) by (simp add: t'_def)
      have "nonempty (slots t') = nonempty (slots t)"
        using nonempty_update [OF dl(1), of "Active v h"] dl(2) by (simp add: t'_def)
      then have "wf_table t'"
        using wf upd [OF dl(3)] e by (simp add: wf_table_def2 t'_def)
      then show ?thesis
        using loop p(5) False Some e by (simp add: table_add_def t'_def)
    next
      case None
      define t1 where "t1 = SetTable ((slots t)[e := Active v h]) (tmask t) (fill t + 1) (used t + 1)"
      have e1: "entries (slots t1) = add_mset (v, h) (entries (slots t))"
        using entries_update [OF p(1), of "Active v h"] p(2) by (simp add: t1_def)
      have n1: "nonempty (slots t1) = Suc (nonempty (slots t))"
        using nonempty_update [OF p(1), of "Active v h"] p(2) by (simp add: t1_def)
      have add: "table_add eq t v h = maybe_resize t1"
        using loop p(5) False None by (simp add: table_add_def t1_def)
      show ?thesis
      proof (cases "fill t1 * 5 < tmask t1 * 3")
        case True
        then have "wf_table t1"
          using wf upd [OF p(3)] e1 n1 by (simp add: wf_table_def2 t1_def)
        then show ?thesis
          using add True e1 False by (simp add: maybe_resize_def)
      next
        case full: False
        have u: "used t1 = Suc (used t)"
          by (simp add: t1_def)
        have s: "size (entries (slots t1)) = used t1"
          using wf e1 by (simp add: wf_table_def2 t1_def)
        have "\<exists>t'. table_resize t1 (resize_target (used t1)) = Some t' \<and> wf_table t' \<and>
            entries (slots t') = entries (slots t1)"
          using cap u by (intro table_resize_ok) (auto simp: s resize_target_def)
        then show ?thesis
          using add full e1 False by (auto simp: maybe_resize_def)
      qed
    qed
  qed
qed

section \<open>Refinement to multisets of entries\<close>

definition mset_has :: "('v \<Rightarrow> 'v \<Rightarrow> bool) \<Rightarrow> ('v \<times> i64) multiset \<Rightarrow> 'v \<times> i64 \<Rightarrow> bool" where
  "mset_has eq M e \<longleftrightarrow> (\<exists>w. (w, snd e) \<in># M \<and> eq w (fst e))"

definition mset_add :: "('v \<Rightarrow> 'v \<Rightarrow> bool) \<Rightarrow> ('v \<times> i64) multiset \<Rightarrow> 'v \<times> i64 \<Rightarrow> ('v \<times> i64) multiset" where
  "mset_add eq M e = (if mset_has eq M e then M else add_mset e M)"

definition mset_drop :: "('v \<Rightarrow> 'v \<Rightarrow> bool) \<Rightarrow> ('v \<times> i64) multiset \<Rightarrow> 'v \<times> i64 \<Rightarrow> ('v \<times> i64) multiset" where
  "mset_drop eq M e = filter_mset (\<lambda>(w, g). \<not> (g = snd e \<and> eq w (fst e))) M"

definition contents :: "'v set_table \<Rightarrow> ('v \<times> i64) multiset" where
  "contents t = mset (table_actives t)"

lemma contents_entries: "contents t = entries (slots t)"
  by (simp add: contents_def entries_table)

lemma table_has_contents: "table_has eq t v h \<longleftrightarrow> mset_has eq (contents t) (v, h)"
  by (simp add: table_has_entries contents_entries mset_has_def)

lemma used_contents: "wf_table t \<Longrightarrow> used t = size (contents t)"
  by (simp add: wf_table_def2 contents_entries)

lemma size_mset_add: "size (mset_add eq M e) \<le> Suc (size M)"
  by (simp add: mset_add_def)

lemma add_refines:
  assumes "wf_table t" "size (contents t) < 2 ^ 60"
  obtains t' where "table_add eq t v h = Some t'" "wf_table t'" "contents t' = mset_add eq (contents t) (v, h)"
  using add_aux [OF assms(1), of eq v h] assms
  by (auto simp: used_contents contents_entries mset_add_def table_has_contents [unfolded contents_entries])

lemma contains_refines:
  "wf_table t \<Longrightarrow> table_contains eq t v h = Some (mset_has eq (contents t) (v, h))"
  by (simp add: contains_aux table_has_contents)

lemma resize_refines:
  assumes "2 * size (contents t) \<le> minused" "minused < 2 ^ 63"
  obtains t' where "table_resize t minused = Some t'" "wf_table t'" "contents t' = contents t"
  using table_resize_ok [OF assms [unfolded contents_entries]] by (auto simp: contents_entries)

lemma add_all_refines:
  assumes "wf_table t" "size (contents t) + length es < 2 ^ 60"
  shows "\<exists>t'. table_add_all eq t es = Some t' \<and> wf_table t' \<and> contents t' = foldl (mset_add eq) (contents t) es"
  using assms
proof (induction es arbitrary: t)
  case (Cons e es)
  obtain t1 where t1: "table_add eq t (fst e) (snd e) = Some t1" "wf_table t1"
    "contents t1 = mset_add eq (contents t) e"
    using add_refines [OF Cons.prems(1), of eq "fst e" "snd e"] Cons.prems(2) by auto
  have "\<exists>t'. table_add_all eq t1 es = Some t' \<and> wf_table t' \<and> contents t' = foldl (mset_add eq) (contents t1) es"
    using Cons.prems(2) t1(2,3) size_mset_add [of eq "contents t" e] by (intro Cons.IH) simp_all
  then show ?case using t1 by simp
qed simp

lemma add_filtered_refines:
  assumes "wf_table t" "wf_table r" "size (contents r) + length es < 2 ^ 60"
  shows "\<exists>r'. add_filtered eq keep t r es = Some r' \<and> wf_table r' \<and>
     contents r' = foldl (mset_add eq) (contents r) (filter (\<lambda>e. mset_has eq (contents t) e = keep) es)"
  using assms(2,3)
proof (induction es arbitrary: r)
  case (Cons e es)
  have c: "table_contains eq t (fst e) (snd e) = Some (mset_has eq (contents t) e)"
    using contains_refines [OF assms(1)] by simp
  show ?case
  proof (cases "mset_has eq (contents t) e = keep")
    case True
    obtain r1 where r1: "table_add eq r (fst e) (snd e) = Some r1" "wf_table r1"
      "contents r1 = mset_add eq (contents r) e"
      using add_refines [OF Cons.prems(1), of eq "fst e" "snd e"] Cons.prems(2) by auto
    have "\<exists>r'. add_filtered eq keep t r1 es = Some r' \<and> wf_table r' \<and>
       contents r' = foldl (mset_add eq) (contents r1) (filter (\<lambda>e. mset_has eq (contents t) e = keep) es)"
      using Cons.prems(2) r1(2,3) size_mset_add [of eq "contents r" e] by (intro Cons.IH) simp_all
    then show ?thesis using r1 c True by simp
  next
    case False
    then show ?thesis using Cons c by simp
  qed
qed simp

lemma wf_with_capacity [simp]: "wf_table (with_capacity MINSIZE)"
  using slots_ok_replicate [of 3]
  by (simp add: wf_table_def2 with_capacity_def MINSIZE_def)

lemma contents_with_capacity [simp]: "contents (with_capacity n) = {#}"
  by (simp add: contents_entries with_capacity_def)

lemma copy_slots_replicate:
  "length other = n \<Longrightarrow> n \<noteq> 0 \<Longrightarrow>
   copy_slots (replicate n Empty) other = List.map (\<lambda>s. case s of Active v h \<Rightarrow> Active v h | _ \<Rightarrow> Empty) other"
  by (simp add: copy_slots_def zip_replicate1)

lemma nonempty_zero: "nonempty sl = 0 \<Longrightarrow> sl = replicate (length sl) Empty"
  by (induction sl) (auto simp: nonempty_def split: if_splits)

lemma size_entries_le: "size (entries sl) \<le> nonempty sl"
  by (induction sl) (auto simp: entries_def nonempty_def map_filter_simps split: option.splits)

lemma no_dummies:
  assumes "size (entries sl) = nonempty sl"
  shows "List.map (\<lambda>s. case s of Active v h \<Rightarrow> Active v h | _ \<Rightarrow> Empty) sl = sl"
  using assms
proof (induction sl)
  case (Cons s sl)
  have "s \<noteq> Dummy"
    using Cons.prems size_entries_le [of sl]
    by (auto simp: entries_def nonempty_def map_filter_simps)
  then have "size (entries sl) = nonempty sl"
    using Cons.prems by (cases s) (auto simp: entries_def nonempty_def map_filter_simps)
  then show ?case
    using Cons.IH \<open>s \<noteq> Dummy\<close> by (cases s) simp_all
qed simp

lemma insert_clean_all_shape:
  "insert_clean_all t es = Some t' \<Longrightarrow> tmask t' = tmask t \<and> fill t' = fill t \<and> used t' = used t"
  by (induction es arbitrary: t) (fastforce simp: insert_clean_def split: option.splits)+

lemma resize_shape:
  assumes "table_resize t n = Some t1"
  shows "fill t1 = size (contents t) \<and> tmask t1 = grow MINSIZE n - 1"
  using insert_clean_all_shape assms by (fastforce simp: table_resize_def Let_def contents_def)

text \<open>\<open>merge\<close>: presize, then one of three ways to bring the elements in.\<close>

lemma merge_presized:
  assumes "wf_table t" "size (contents t) + size (contents t2) < 2 ^ 60" "wf_table t2"
  obtains t1 where "(if (fill t + used t2) * 5 \<ge> tmask t * 3
      then table_resize t ((used t + used t2) * 2) else Some t) = Some t1"
    "wf_table t1" "contents t1 = contents t" "(fill t1 + used t2) * 5 < tmask t1 * 3"
proof (cases "(fill t + used t2) * 5 \<ge> tmask t * 3")
  case True
  have u: "used t = size (contents t)" "used t2 = size (contents t2)"
    using assms by (simp_all add: used_contents)
  define n where "n = (used t + used t2) * 2"
  have n: "2 * size (contents t) \<le> n" "n < 2 ^ 63"
    using assms(2) by (simp_all add: n_def u)
  obtain k where k: "3 \<le> k" "k \<le> 64" "grow MINSIZE n = 2 ^ k" "n < 2 ^ k"
    using grow_MINSIZE [OF n(2)] .
  obtain t1 where t1: "table_resize t n = Some t1" "wf_table t1" "contents t1 = contents t"
    using resize_refines [OF n] by blast
  have "fill t1 = used t \<and> tmask t1 = 2 ^ k - 1"
    using resize_shape [OF t1(1)] by (simp add: k(3) u)
  moreover have "(2 :: nat) ^ 3 \<le> 2 ^ k"
    using k(1) by (intro power_increasing) simp_all
  ultimately have "(fill t1 + used t2) * 5 < tmask t1 * 3"
    using k(4) by (simp add: n_def)
  then show thesis
    using that [of t1] t1 True by (simp add: n_def)
next
  case False
  then show thesis using that [of t] assms by simp
qed

lemma merge_refines:
  assumes t: "wf_table t" and t2: "wf_table t2" and sz: "size (contents t) + size (contents t2) < 2 ^ 60"
  obtains t' where "table_merge eq t t2 = Some t'" "wf_table t'"
    "contents t = {#} \<and> contents t' = contents t2 \<or>
     contents t' = foldl (mset_add eq) (contents t) (table_actives t2)"
proof -
  obtain t1 where t1: "(if (fill t + used t2) * 5 \<ge> tmask t * 3
      then table_resize t ((used t + used t2) * 2) else Some t) = Some t1"
    "wf_table t1" "contents t1 = contents t" "(fill t1 + used t2) * 5 < tmask t1 * 3"
    using merge_presized [OF t sz t2] .
  have merge: "table_merge eq t t2 =
      (if fill t1 = 0 \<and> tmask t1 = tmask t2 \<and> fill t2 = used t2
       then Some (SetTable (copy_slots (slots t1) (slots t2)) (tmask t1) (fill t2) (used t2))
       else if fill t1 = 0
       then insert_clean_all (SetTable (slots t1) (tmask t1) (used t2) (used t2)) (table_actives t2)
       else table_add_all eq t1 (table_actives t2))"
    unfolding table_merge_def t1(1) by simp
  have u2: "used t2 = size (contents t2)" "length (table_actives t2) = size (contents t2)"
    using t2 by (simp_all add: used_contents contents_def)
  show thesis
  proof (cases "fill t1 = 0")
    case False
    have "\<exists>t'. table_add_all eq t1 (table_actives t2) = Some t' \<and> wf_table t' \<and>
        contents t' = foldl (mset_add eq) (contents t1) (table_actives t2)"
      using t1(2,3) sz u2 by (intro add_all_refines) simp_all
    then show thesis
      using that t1(3) False by (auto simp: merge)
  next
    case True
    have sl: "slots t1 = replicate (length (slots t1)) Empty"
      using t1(2) True by (intro nonempty_zero) (simp add: wf_table_def2)
    then have e0: "contents t1 = {#}" "nonempty (slots t1) = 0"
      by (metis contents_entries entries_replicate(1)) (metis sl entries_replicate(2))
    have ok1: "slots_ok (slots t1) (tmask t1)"
      using t1(2) by (simp add: wf_table_def)
    show thesis
    proof (cases "tmask t1 = tmask t2 \<and> fill t2 = used t2")
      case fast: True
      have "length (slots t1) = length (slots t2)"
        using slots_ok_length [OF ok1] slots_ok_length [of "slots t2" "tmask t2"] t2 fast
        by (simp add: wf_table_def)
      moreover have "length (slots t2) \<noteq> 0"
        using slots_ok_length [OF ok1] calculation by simp
      ultimately have "copy_slots (slots t1) (slots t2) = slots t2"
        using copy_slots_replicate [of "slots t2" "length (slots t2)"] sl
          no_dummies [of "slots t2"] t2 fast by (simp add: wf_table_def2)
      then have "table_merge eq t t2 = Some t2"
        unfolding merge using True fast by (cases t2) auto
      then show thesis
        using that [of t2] t2 e0 t1(3) by simp
    next
      case slow: False
      define t3 where "t3 = SetTable (slots t1) (tmask t1) (used t2) (used t2)"
      have "\<exists>t'. insert_clean_all t3 (table_actives t2) = Some t' \<and> slots_ok (slots t') (tmask t') \<and>
          tmask t' = tmask t3 \<and> fill t' = fill t3 \<and> used t' = used t3 \<and>
          nonempty (slots t') = nonempty (slots t3) + length (table_actives t2) \<and>
          entries (slots t') = entries (slots t3) + mset (table_actives t2)"
        using ok1 e0(2) t1(4) True slots_ok_length [OF ok1] u2
        by (intro insert_clean_all_ok) (auto simp: t3_def)
      then obtain t' where t': "insert_clean_all t3 (table_actives t2) = Some t'"
        "slots_ok (slots t') (tmask t')" "tmask t' = tmask t1" "fill t' = used t2" "used t' = used t2"
        "nonempty (slots t') = used t2" "contents t' = contents t2"
        using e0 u2 by (auto simp: t3_def contents_entries entries_table)
      then have "wf_table t'"
        using t1(4) True u2 by (simp add: wf_table_def2 contents_entries)
      moreover have "table_merge eq t t2 = Some t'"
        unfolding merge using True slow t'(1) by (auto simp: t3_def)
      ultimately show thesis
        using that [of t'] t'(7) e0(1) t1(3) by simp
    qed
  qed
qed

section \<open>Correctness of the table operations\<close>

text \<open>membership.  On a well-formed table the probe loop of \<open>contains\<close> returns, and it
  answers whether some active entry has the given hash and compares equal to the value.
  Nothing is assumed of the equality.\<close>

theorem contains_correct:
  assumes "wf_table t"
  shows "table_contains eq t v h = Some (\<exists>(w, g) \<in> set (table_actives t). g = h \<and> eq w v)"
  using contains_aux [OF assms] by (simp add: table_has_def)

text \<open>A table with the single entry \<open>(True, 9)\<close>, in the slot its hash selects.\<close>

definition one_entry :: "bool set_table" where
  "one_entry = SetTable [Empty, Active True 9, Empty, Empty, Empty, Empty, Empty, Empty] 7 1 1"

lemma one_entry_add: "table_add (=) (with_capacity MINSIZE) True 9 = Some one_entry"
  by (simp add: table_add_def with_capacity_def MINSIZE_def start_index_def probe_loop.simps scan.simps
      probes_at_def LINEAR_PROBES_def add_step_def maybe_resize_def one_entry_def numeral_eq_Suc)

lemma wf_one_entry: "wf_table one_entry"
  using add_aux [of "with_capacity MINSIZE" "(=)" True 9]
  by (simp add: one_entry_add wf_with_capacity) (simp add: with_capacity_def)

lemma actives_one_entry: "table_actives one_entry = [(True, 9)]"
  by (simp add: table_actives_def one_entry_def map_filter_simps)

theorem contains_correct_witness:
  "table_contains (=) one_entry True 9 = Some True \<and> table_contains (=) one_entry False 9 = Some False"
  using contains_correct [OF wf_one_entry, of "(=)" True 9] contains_correct [OF wf_one_entry, of "(=)" False 9]
  by (simp add: actives_one_entry)

text \<open>C3: insertion.  \<open>add\<close> returns, keeps the table well-formed through any resize, and changes
  the multiset of entries by exactly the new entry, unless an equal one is present.\<close>

theorem add_correct:
  assumes "wf_table t" "length (table_actives t) < 2 ^ 60"
  shows "\<exists>t'. table_add eq t v h = Some t' \<and> wf_table t' \<and>
     mset (table_actives t') =
       (if \<exists>(w, g) \<in> set (table_actives t). g = h \<and> eq w v then mset (table_actives t)
        else add_mset (v, h) (mset (table_actives t)))"
proof -
  have "used t < 2 ^ 60"
    using assms by (simp add: wf_table_def)
  from add_aux [OF assms(1) this, of eq v h] show ?thesis
    unfolding entries_table table_has_def .
qed

theorem add_correct_witness:
  "\<exists>t'. table_add (=) one_entry False 9 = Some t' \<and> wf_table t' \<and>
     mset (table_actives t') = {#(False, 9), (True, 9)#}"
  using add_correct [OF wf_one_entry, of "(=)" False 9]
  by (simp add: actives_one_entry)

text \<open>removal.  \<open>discard\<close> returns and keeps the table well-formed.  It reports whether an equal
  entry was present; if so one such entry is gone and a tombstone is in its slot, otherwise the table
  is unchanged.\<close>

theorem discard_correct:
  assumes "wf_table t"
  shows "\<exists>t' found. table_discard eq t v h = Some (t', found) \<and> wf_table t' \<and>
     (found \<longleftrightarrow> (\<exists>(w, g) \<in> set (table_actives t). g = h \<and> eq w v)) \<and>
     (if found
      then \<exists>w. eq w v \<and> mset (table_actives t) = add_mset (w, h) (mset (table_actives t')) \<and> fill t' = fill t
      else t' = t)"
proof (cases "table_has eq t v h")
  case True
  then obtain w t' where d: "(w, h) \<in># entries (slots t)" "eq w v" "table_discard eq t v h = Some (t', True)"
    "wf_table t'" "entries (slots t') = entries (slots t) - {#(w, h)#}"
    using discard_aux [OF assms, of eq v h] by auto
  moreover have "fill t' = fill t"
    using d(3) by (auto simp: table_discard_def split: option.splits)
  moreover have "mset (table_actives t) = add_mset (w, h) (mset (table_actives t'))"
    using d(1,5) by (simp add: entries_table)
  ultimately show ?thesis
    using True unfolding table_has_def by (intro exI [of _ t'] exI [of _ True]) auto
next
  case False
  then show ?thesis
    using discard_aux [OF assms, of eq v h] assms unfolding table_has_def
    by (intro exI [of _ t] exI [of _ False]) simp
qed

theorem discard_correct_witness:
  "\<exists>t'. table_discard (=) one_entry True 9 = Some (t', True) \<and> table_actives t' = [] \<and> fill t' = 1"
proof -
  obtain t' where t': "table_discard (=) one_entry True 9 = Some (t', True)" "fill t' = fill one_entry"
    "mset (table_actives one_entry) = add_mset (True, 9) (mset (table_actives t'))"
    using discard_correct [OF wf_one_entry, of "(=)" True 9] actives_one_entry by (auto split: if_splits)
  then show ?thesis
    by (simp add: actives_one_entry) (simp add: one_entry_def)
qed

text \<open>resizing.  \<open>resize\<close> to any target of at least twice the number of entries returns a
  well-formed table with the same entries and no tombstones; \<open>maybe_resize\<close>, \<open>merge\<close> and
  \<open>compact_if_sparse\<close> only ask for such targets.\<close>

theorem resize_correct:
  assumes "2 * length (table_actives t) \<le> minused" "minused < 2 ^ 63"
  shows "\<exists>t'. table_resize t minused = Some t' \<and> wf_table t' \<and>
     mset (table_actives t') = mset (table_actives t) \<and> fill t' = used t' \<and> minused < length (slots t')"
proof -
  obtain t' where t': "table_resize t minused = Some t'" "wf_table t'" "contents t' = contents t"
    using resize_refines [of t minused] assms by (auto simp: contents_def)
  have "tmask t' = grow MINSIZE minused - 1" "fill t' = size (contents t)"
    using resize_shape [OF t'(1)] by auto
  moreover have "minused < grow MINSIZE minused"
    by (rule grow_MINSIZE [OF assms(2)]) simp
  moreover have "length (slots t') = Suc (tmask t')"
    using t'(2) slots_ok_length by (auto simp: wf_table_def)
  ultimately show ?thesis
    using t' used_contents [OF t'(2)] by (auto simp: contents_def)
qed

theorem resize_correct_witness:
  "\<exists>t'. table_resize one_entry 20 = Some t' \<and> wf_table t' \<and> fill t' = used t' \<and> 20 < length (slots t')"
proof -
  have "2 * length (table_actives one_entry) \<le> 20" "(20 :: nat) < 2 ^ 63"
    by (simp_all add: actives_one_entry)
  from resize_correct [OF this] show ?thesis by blast
qed

end
