(* ===== verification/Values.thy ===== *)
theory Values
  imports Floats Pyset
begin

text \<open>
  The runtime values of the interpreter (\<open>value.rs\<close>): the enum \<open>Value\<close> with
  all its variants, the dictionary keys \<open>ValueKey\<close>, exception values, the
  storage of a set (\<open>pyset.rs\<close>) that a frozenset embeds, and the small
  accessors on them.

  A variant that holds an \<open>Arc\<close> holds an address here, because the code
  compares such pointers and mutates what they share; the heap maps addresses to
  contents.  A variant that owns its data holds it.  Rust's \<open>BTreeMap\<close> and
  \<open>IndexMap\<close> are association lists in iteration order, \<open>BigInt\<close> is \<open>int\<close>,
  a \<open>BigDecimal\<close> is its integer and scale, a \<open>BigRational\<close> its numerator and
  denominator.
\<close>

section \<open>Tags\<close>

datatype builtin_iter_name = Count | Cycle | Repeat | ListIterator | BytearrayIterator

definition builtin_iter_type_name :: "builtin_iter_name \<Rightarrow> string" where
  "builtin_iter_type_name k = (case k of
       Count \<Rightarrow> ''count'' | Cycle \<Rightarrow> ''cycle'' | Repeat \<Rightarrow> ''repeat''
     | ListIterator \<Rightarrow> ''list_iterator'' | BytearrayIterator \<Rightarrow> ''bytearray_iterator'')"

datatype decimal_kind = Normal | NegZero | PosInf | NegInf | Nan

definition decimal_is_special :: "decimal_kind \<Rightarrow> bool" where
  "decimal_is_special k \<longleftrightarrow> k \<in> {PosInf, NegInf, Nan}"

datatype lazy_kind =
    Generator | Map | Filter | Zip | Enumerate | Chain | Islice | Groupby | Accumulate
  | Combinations | CombinationsWithReplacement | Permutations | Product | Starmap
  | Takewhile | Dropwhile | Filterfalse | Compress | Pairwise | Tee | ZipLongest | Batched
  | TupleIterator | StrAsciiIterator | StrIterator | SetIterator | DictKeyIterator
  | DictValueIterator | DictItemIterator | RangeIterator | BytesIterator
  | ListReverseIterator | DictReverseKeyIterator | DictReverseValueIterator
  | DictReverseItemIterator | Reversed

definition lazy_type_name :: "lazy_kind \<Rightarrow> string" where
  "lazy_type_name k = (case k of
       Generator \<Rightarrow> ''generator'' | Map \<Rightarrow> ''map'' | Filter \<Rightarrow> ''filter'' | Zip \<Rightarrow> ''zip''
     | Enumerate \<Rightarrow> ''enumerate'' | Chain \<Rightarrow> ''chain'' | Islice \<Rightarrow> ''islice''
     | Groupby \<Rightarrow> ''groupby'' | Accumulate \<Rightarrow> ''accumulate'' | Combinations \<Rightarrow> ''combinations''
     | CombinationsWithReplacement \<Rightarrow> ''combinations_with_replacement''
     | Permutations \<Rightarrow> ''permutations'' | Product \<Rightarrow> ''product'' | Starmap \<Rightarrow> ''starmap''
     | Takewhile \<Rightarrow> ''takewhile'' | Dropwhile \<Rightarrow> ''dropwhile'' | Filterfalse \<Rightarrow> ''filterfalse''
     | Compress \<Rightarrow> ''compress'' | Pairwise \<Rightarrow> ''pairwise'' | Tee \<Rightarrow> ''_tee''
     | ZipLongest \<Rightarrow> ''zip_longest'' | Batched \<Rightarrow> ''batched''
     | TupleIterator \<Rightarrow> ''tuple_iterator'' | StrAsciiIterator \<Rightarrow> ''str_ascii_iterator''
     | StrIterator \<Rightarrow> ''str_iterator'' | SetIterator \<Rightarrow> ''set_iterator''
     | DictKeyIterator \<Rightarrow> ''dict_keyiterator'' | DictValueIterator \<Rightarrow> ''dict_valueiterator''
     | DictItemIterator \<Rightarrow> ''dict_itemiterator'' | RangeIterator \<Rightarrow> ''range_iterator''
     | BytesIterator \<Rightarrow> ''bytes_iterator'' | ListReverseIterator \<Rightarrow> ''list_reverseiterator''
     | DictReverseKeyIterator \<Rightarrow> ''dict_reversekeyiterator''
     | DictReverseValueIterator \<Rightarrow> ''dict_reversevalueiterator''
     | DictReverseItemIterator \<Rightarrow> ''dict_reverseitemiterator'' | Reversed \<Rightarrow> ''reversed'')"

datatype dict_view_kind = Keys | Values | Items

definition dict_view_type_name :: "dict_view_kind \<Rightarrow> string" where
  "dict_view_type_name k =
     (case k of Keys \<Rightarrow> ''dict_keys'' | Values \<Rightarrow> ''dict_values'' | Items \<Rightarrow> ''dict_items'')"

datatype enum_kind = Plain | IntKind | StrKind | Flag | IntFlag

definition enum_is_flag :: "enum_kind \<Rightarrow> bool" where
  "enum_is_flag k \<longleftrightarrow> k \<in> {Flag, IntFlag}"

section \<open>Dates and times\<close>

datatype naive_date = NaiveDate (year: int) (month: nat) (day: nat)
datatype naive_time = NaiveTime (hour: nat) (minute: nat) (second: nat) (nanosecond: nat)

type_synonym naive_datetime = "naive_date \<times> naive_time"

record match_group =
  mg_text :: pystr
  mg_start :: nat
  mg_end :: nat

section \<open>Values\<close>

datatype (plugins only: size) pyval =
    VNone
  | VNotImplemented
  | VEllipsis
  | VBool bool
  | VInt i64
  | VBigInt int
  | VFloat f64
  | VComplex f64 f64
  | VString pystr
  | VBytes "u8 list"
  | VByteArray addr
  | VMemoryView pyval
  | VStringIO addr
  | VList addr
  | VArray char addr
  | VTuple "pyval list"
  | VDict addr
  | VOrderedDict addr
  | VDictView addr dict_view_kind
  | VSet addr
  | VFrozenset "pyval set_body"
  | VFunction addr
  | VCoroutine addr "pyval list" "(string \<times> pyval) list" bool
  | VLambda addr
  | VRange i64 i64 i64
  | VSlice pyval pyval pyval
  | VException exception_value
  | VExceptionMethod string exception_value
  | VLazyProxy addr string
  | VLazy "pyval list" u64 lazy_kind
  | VGenerator u64
  | VBuiltinIter u64 builtin_iter_name
  | VType string
  | VClass string
  | VModule string
  | VInstance string addr
  | VPartial pyval "pyval list" "(string \<times> pyval) list"
  | VItemGetter "pyval list"
  | VAttrGetter "string list list"
  | VMethodCaller string "pyval list" "(string \<times> pyval) list"
  | VLruCache addr
  | VSingleDispatch addr
  | VModuleFunction string string
  | VDate naive_date
  | VDateTime naive_datetime "int option"
  | VTime naive_time
  | VTimeDelta i64
  | VTimeZone int
  | VHashDigest string "u8 list"
  | VDeque "pyval list" "nat option"
  | VDefaultDict "(value_key \<times> pyval) list" pyval
  | VChainMap "pyval list"
  | VTemplate pystr
  | VEnumMember string string pyval enum_kind
  | VReMatch "match_group option list" "(string \<times> nat) list"
  | VRePattern pystr
  | VSuper string string addr
  | VSuperClass string string
  | VProperty string string
  | VCounter "(value_key \<times> pyval) list"
  | VDecimal int int decimal_kind
  | VFraction int int
  | VBoundMethod bound_method_receiver string
  | VBuiltinTypeMethod string string
  | VBuiltinName string
  | VToolName string
  | VExceptionType string
  | VUnboundClassMethod string string
and value_key =
    KNone
  | KEllipsis
  | KBool bool
  | KInt i64
  | KBigInt int
  | KFloat f64
  | KComplex f64 f64
  | KString pystr
  | KTuple "value_key list"
  | KFrozenset "value_key list"
  | KInstance i64 pyval
  | KDate naive_date
  | KTime naive_time
  | KDateTime naive_datetime "int option"
  | KTimeDelta i64
  | KDecimal int int
  | KFraction int int
and exception_value =
    ExceptionValue (exc_type_name: string) (exc_message: string)
      (exc_cause: "exception_value option") (exc_args: "pyval list")
      (exc_stamped_line: "nat option") (exc_exceptions: "exception_value list option")
      (exc_fields: "(string \<times> pyval) list")
and bound_method_receiver = Snapshot pyval | Place string "bound_method_step list"
and bound_method_step = IndexStep pyval | AttrStep string

end
