(* ===== verification/Set_Algebra.thy ===== *)
theory Set_Algebra
  imports Pyset
begin

text \<open>
  The set operations of \<open>pyset.rs\<close> under the contract that the table has with
  the equality of its elements.  The locale states the contract: on the elements
  the table holds, equality is symmetric and transitive.  Reflexivity is not
  assumed, because \<open>nan != nan\<close>: the code may hold several NaNs in one set.

  Inside the locale the operations are shown to compute union, intersection,
  difference and symmetric difference of the membership relation, and to keep
  tables free of duplicates.
\<close>

locale element_equality =
  fixes eq :: "'v \<Rightarrow> 'v \<Rightarrow> bool" and elem :: "'v \<Rightarrow> bool"
  assumes eq_sym: "elem x \<Longrightarrow> elem y \<Longrightarrow> eq x y \<Longrightarrow> eq y x"
    and eq_trans: "elem x \<Longrightarrow> elem y \<Longrightarrow> elem z \<Longrightarrow> eq x y \<Longrightarrow> eq y z \<Longrightarrow> eq x z"
begin

definition elems :: "('v \<times> i64) multiset \<Rightarrow> bool" where
  "elems M \<longleftrightarrow> (\<forall>e \<in># M. elem (fst e))"

definition uniq :: "('v \<times> i64) multiset \<Rightarrow> bool" where
  "uniq M \<longleftrightarrow> (\<forall>a g N. M = add_mset (a, g) N \<longrightarrow> (\<forall>b. (b, g) \<in># N \<longrightarrow> \<not> eq a b))"

definition good :: "('v \<times> i64) multiset \<Rightarrow> bool" where
  "good M \<longleftrightarrow> elems M \<and> uniq M"

definition good_table :: "'v set_table \<Rightarrow> bool" where
  "good_table t \<longleftrightarrow> wf_table t \<and> good (contents t)"

lemma uniqD: "uniq (add_mset (a, g) N) \<Longrightarrow> (b, g) \<in># N \<Longrightarrow> \<not> eq a b"
  by (auto simp: uniq_def)

lemma good_empty [simp]: "good {#}"
  by (simp add: good_def elems_def uniq_def)

lemma uniq_subset:
  assumes "uniq M" "N \<subseteq># M"
  shows "uniq N"
  unfolding uniq_def
proof (intro allI impI)
  fix a g K b
  assume "N = add_mset (a, g) K" "(b, g) \<in># K"
  moreover obtain R where "M = N + R"
    using assms(2) by (auto simp: mset_subset_eq_exists_conv)
  ultimately show "\<not> eq a b"
    using uniqD [of a g "K + R" b] assms(1) by simp
qed

lemma good_subset: "good M \<Longrightarrow> N \<subseteq># M \<Longrightarrow> good N"
  by (auto simp: good_def elems_def uniq_subset dest: mset_subset_eqD)

lemma elems_add [simp]: "elems (add_mset e M) \<longleftrightarrow> elem (fst e) \<and> elems M"
  by (auto simp: elems_def)

lemma uniq_add:
  assumes "uniq M" "elems M" "elem v" "\<not> mset_has eq M (v, h)"
  shows "uniq (add_mset (v, h) M)"
  unfolding uniq_def
proof (intro allI impI)
  fix a g N b
  assume M: "add_mset (v, h) M = add_mset (a, g) N" and b: "(b, g) \<in># N"
  have fresh: "\<not> eq w v \<and> \<not> eq v w" if "(w, h) \<in># M" for w
    using that assms(2,3,4) eq_sym [of v w] by (auto simp: mset_has_def elems_def)
  show "\<not> eq a b"
  proof (cases "(a, g) = (v, h)")
    case True
    then show ?thesis using M b fresh by auto
  next
    case False
    then obtain K where K: "M = add_mset (a, g) K" "N = add_mset (v, h) K"
      using M by (auto simp: add_eq_conv_ex)
    then show ?thesis
      using b fresh assms(1) uniqD [of a g K b] by auto
  qed
qed

lemma good_mset_add:
  assumes "good M" "elem (fst e)"
  shows "good (mset_add eq M e)"
  using assms uniq_add [of M "fst e" "snd e"] by (simp add: mset_add_def good_def)

lemma has_mset_add:
  assumes "elems M" "elem (fst e)" "elem (fst x)"
  shows "mset_has eq (mset_add eq M e) x \<longleftrightarrow> mset_has eq M x \<or> snd x = snd e \<and> eq (fst e) (fst x)"
proof (cases "mset_has eq M e")
  case True
  then obtain w where w: "(w, snd e) \<in># M" "eq w (fst e)" by (auto simp: mset_has_def)
  then have "elem w" using assms(1) by (auto simp: elems_def)
  then have "eq w (fst x)" if "eq (fst e) (fst x)"
    using eq_trans [of w "fst e" "fst x"] w assms that by blast
  then show ?thesis
    using True w by (auto simp: mset_add_def mset_has_def)
next
  case False
  then show ?thesis by (cases e) (auto simp: mset_add_def mset_has_def)
qed

lemma good_adds:
  "good M \<Longrightarrow> \<forall>e \<in> set es. elem (fst e) \<Longrightarrow> good (foldl (mset_add eq) M es)"
  by (induction es arbitrary: M) (simp_all add: good_mset_add)

lemma has_adds:
  assumes "good M" "\<forall>e \<in> set es. elem (fst e)" "elem (fst x)"
  shows "mset_has eq (foldl (mset_add eq) M es) x \<longleftrightarrow> mset_has eq M x \<or> mset_has eq (mset es) x"
  using assms(1,2)
proof (induction es arbitrary: M)
  case (Cons e es)
  have "mset_has eq (foldl (mset_add eq) (mset_add eq M e) es) x
      \<longleftrightarrow> mset_has eq (mset_add eq M e) x \<or> mset_has eq (mset es) x"
    using Cons.prems by (intro Cons.IH good_mset_add) auto
  moreover have "mset_has eq (mset_add eq M e) x
      \<longleftrightarrow> mset_has eq M x \<or> snd x = snd e \<and> eq (fst e) (fst x)"
    using Cons.prems assms(3) by (intro has_mset_add) (auto simp: good_def)
  ultimately show ?case
    by (cases e) (auto simp: mset_has_def)
qed (simp add: mset_has_def)

lemma good_table_elems: "good_table t \<Longrightarrow> \<forall>e \<in> set (table_actives t). elem (fst e)"
  by (auto simp: good_table_def good_def elems_def contents_def)

text \<open>Adding the entries of a duplicate-free table to an empty one copies them.\<close>

lemma adds_distinct:
  assumes "good (M + mset es)"
  shows "foldl (mset_add eq) M es = M + mset es"
  using assms
proof (induction es arbitrary: M)
  case (Cons e es)
  have "\<not> eq w (fst e)" if w: "(w, snd e) \<in># M" for w
  proof -
    obtain N where "M = add_mset (w, snd e) N" using w by (blast dest: multi_member_split)
    then have "M + mset (e # es) = add_mset (w, snd e) (add_mset e (N + mset es))" by simp
    then have "uniq (add_mset (w, snd e) (add_mset e (N + mset es)))"
      using Cons.prems by (metis good_def)
    then show ?thesis
      by (rule uniqD) simp
  qed
  then have "mset_add eq M e = add_mset e M"
    by (auto simp: mset_add_def mset_has_def)
  moreover have "good (add_mset e M + mset es)"
    using Cons.prems by simp
  ultimately show ?case
    using Cons.IH [of "add_mset e M"] by simp
qed simp

lemma merge_good:
  assumes "good_table t" "good_table t2" "size (contents t) + size (contents t2) < 2 ^ 60"
  obtains t' where "table_merge eq t t2 = Some t'" "good_table t'"
    "contents t' = foldl (mset_add eq) (contents t) (table_actives t2)"
proof -
  have wf: "wf_table t" "wf_table t2"
    using assms by (simp_all add: good_table_def)
  have "foldl (mset_add eq) {#} (table_actives t2) = contents t2"
    using adds_distinct [of "{#}" "table_actives t2"] assms(2) by (simp add: good_table_def contents_def)
  then obtain t' where t': "table_merge eq t t2 = Some t'" "wf_table t'"
    "contents t' = foldl (mset_add eq) (contents t) (table_actives t2)"
    using merge_refines [OF wf assms(3), of eq] by metis
  then have "good_table t'"
    using good_adds [of "contents t" "table_actives t2"] good_table_elems [OF assms(2)] assms(1)
    by (simp add: good_table_def)
  with t' show thesis by (intro that)
qed

lemma copy_good:
  assumes "good_table t" "size (contents t) < 2 ^ 60"
  obtains r where "table_copy eq t = Some r" "good_table r" "contents r = contents t"
proof -
  have "good_table (with_capacity MINSIZE)" by (simp add: good_table_def)
  then obtain r where "table_copy eq t = Some r" "good_table r"
    "contents r = foldl (mset_add eq) {#} (table_actives t)"
    using merge_good [of "with_capacity MINSIZE" t] assms by (auto simp: table_copy_def)
  then show thesis
    using adds_distinct [of "{#}" "table_actives t"] assms that by (simp add: good_table_def contents_def)
qed

end

context element_equality
begin

definition same :: "'v \<times> i64 \<Rightarrow> 'v \<times> i64 \<Rightarrow> bool" where
  "same e x \<longleftrightarrow> snd x = snd e \<and> eq (fst e) (fst x)"

lemma mset_has_same: "mset_has eq M x \<longleftrightarrow> (\<exists>e \<in># M. same e x)"
  unfolding mset_has_def same_def by (metis fst_conv prod.exhaust_sel snd_conv)

lemma same_sym: "elem (fst e) \<Longrightarrow> elem (fst x) \<Longrightarrow> same e x \<Longrightarrow> same x e"
  by (auto simp: same_def intro: eq_sym)

lemma same_trans:
  "elem (fst e) \<Longrightarrow> elem (fst x) \<Longrightarrow> elem (fst y) \<Longrightarrow> same e x \<Longrightarrow> same x y \<Longrightarrow> same e y"
  by (auto simp: same_def intro: eq_trans)

lemma mset_has_cong:
  assumes "elems M" "elem (fst e)" "elem (fst x)" "same e x"
  shows "mset_has eq M e \<longleftrightarrow> mset_has eq M x"
  using assms same_sym [of e x] same_trans [of _ e x] same_trans [of _ x e]
  unfolding mset_has_same elems_def by blast

lemma mset_drop_same: "mset_drop eq M e = filter_mset (\<lambda>w. \<not> same w e) M"
  by (auto simp: mset_drop_def same_def intro!: filter_mset_cong)

lemma has_mset_drop:
  assumes "elems M" "elem (fst e)" "elem (fst x)"
  shows "mset_has eq (mset_drop eq M e) x \<longleftrightarrow> mset_has eq M x \<and> \<not> same e x"
  using assms same_sym [of e x] same_sym [of x e] same_trans [of _ e x] same_trans [of _ x e]
    same_sym [of _ e] same_trans [of e _ x]
  unfolding mset_has_same mset_drop_same elems_def set_mset_filter by blast

lemma good_mset_drop: "good M \<Longrightarrow> good (mset_drop eq M e)"
  unfolding mset_drop_def by (erule good_subset) (rule multiset_filter_subset)

lemma drop_single:
  assumes "good (add_mset w N)" "same w e" "elem (fst e)"
  shows "mset_drop eq (add_mset w N) e = N"
proof -
  have "\<not> same b e" if b: "b \<in># N" for b
  proof
    assume be: "same b e"
    have el: "elem (fst w)" "elem (fst b)"
      using assms(1) b by (auto simp: good_def elems_def)
    then have "same w b"
      using assms(2,3) be same_sym [of b e] same_trans [of w e b] by blast
    moreover have "\<not> same w b"
      using uniqD [of "fst w" "snd w" N "fst b"] assms(1) b by (cases b) (auto simp: good_def same_def)
    ultimately show False by blast
  qed
  then have "filter_mset (\<lambda>b. \<not> same b e) N = N"
    by (subst filter_mset_eq_conv) auto
  then show ?thesis
    using assms(2) by (simp add: mset_drop_same)
qed

lemma discard_good:
  assumes t: "good_table t" and v: "elem v"
  obtains t' where "table_discard eq t v h = Some (t', mset_has eq (contents t) (v, h))"
    "good_table t'" "contents t' = mset_drop eq (contents t) (v, h)"
proof (cases "table_has eq t v h")
  case True
  have wf: "wf_table t" using t by (simp add: good_table_def)
  obtain w t' where d: "(w, h) \<in># contents t" "eq w v" "table_discard eq t v h = Some (t', True)"
    "wf_table t'" "contents t' = contents t - {#(w, h)#}"
    using discard_aux [OF wf, of eq v h] True by (auto simp: contents_entries)
  obtain N where N: "contents t = add_mset (w, h) N"
    using d(1) by (blast dest: multi_member_split)
  have "mset_drop eq (contents t) (v, h) = N"
    unfolding N using t v d(2) by (intro drop_single) (simp_all add: good_table_def N same_def)
  then have c: "contents t' = mset_drop eq (contents t) (v, h)"
    using d(5) N by simp
  then have "good_table t'"
    using t d(4) by (simp add: good_table_def good_mset_drop)
  with c d(3) True show thesis
    by (intro that [of t']) (simp_all add: table_has_contents)
next
  case False
  have "mset_drop eq (contents t) (v, h) = contents t"
    using False by (auto simp: mset_drop_def table_has_contents mset_has_def filter_mset_eq_conv)
  then show thesis
    using discard_aux [of t eq v h] t False that [of t]
    by (simp add: good_table_def table_has_contents)
qed

lemma discard_all_good:
  assumes "good_table t" "\<forall>e \<in> set es. elem (fst e)"
  shows "\<exists>t'. table_discard_all eq t es = Some t' \<and> good_table t' \<and>
    contents t' = foldl (mset_drop eq) (contents t) es"
  using assms
proof (induction es arbitrary: t)
  case (Cons e es)
  then obtain t1 where t1: "table_discard eq t (fst e) (snd e) = Some (t1, mset_has eq (contents t) e)"
    "good_table t1" "contents t1 = mset_drop eq (contents t) e"
    using discard_good [of t "fst e" "snd e"] by auto
  then show ?case
    using Cons.IH [of t1] Cons.prems by simp
qed simp

lemma has_drops:
  assumes "good M" "\<forall>e \<in> set es. elem (fst e)" "elem (fst x)"
  shows "mset_has eq (foldl (mset_drop eq) M es) x \<longleftrightarrow> mset_has eq M x \<and> \<not> mset_has eq (mset es) x"
  using assms(1,2)
proof (induction es arbitrary: M)
  case (Cons e es)
  have "elems M" using Cons.prems by (simp add: good_def)
  then show ?case
    using Cons.IH [of "mset_drop eq M e"] Cons.prems good_mset_drop [of M e] assms(3)
    by (auto simp: has_mset_drop) (auto simp: mset_has_same)
qed (simp add: mset_has_def)

definition mset_toggle :: "('v \<times> i64) multiset \<Rightarrow> 'v \<times> i64 \<Rightarrow> ('v \<times> i64) multiset" where
  "mset_toggle M e = (if mset_has eq M e then mset_drop eq M e else mset_add eq M e)"

lemma good_mset_toggle: "good M \<Longrightarrow> elem (fst e) \<Longrightarrow> good (mset_toggle M e)"
  by (simp add: mset_toggle_def good_mset_drop good_mset_add)

lemma has_mset_toggle:
  assumes "good M" "elem (fst e)" "elem (fst x)"
  shows "mset_has eq (mset_toggle M e) x \<longleftrightarrow> mset_has eq M x \<noteq> same e x"
proof -
  have "elems M" using assms by (simp add: good_def)
  then show ?thesis
    using has_mset_drop [of M e x] has_mset_add [of M e x] mset_has_cong [of M e x] assms
    by (auto simp: mset_toggle_def same_def)
qed

lemma size_mset_drop: "size (mset_drop eq M e) \<le> size M"
  unfolding mset_drop_def by (rule size_filter_mset_lesseq)

lemma toggle_all_good:
  assumes "good_table r" "\<forall>e \<in> set es. elem (fst e)" "size (contents r) + length es < 2 ^ 60"
  shows "\<exists>r'. toggle_all eq r es = Some r' \<and> good_table r' \<and>
    contents r' = foldl mset_toggle (contents r) es"
  using assms
proof (induction es arbitrary: r)
  case (Cons e es)
  obtain r1 where r1: "table_discard eq r (fst e) (snd e) = Some (r1, mset_has eq (contents r) e)"
    "good_table r1" "contents r1 = mset_drop eq (contents r) e"
    using discard_good [of r "fst e" "snd e"] Cons.prems by auto
  show ?case
  proof (cases "mset_has eq (contents r) e")
    case True
    then show ?thesis
      using r1 Cons.IH [of r1] Cons.prems size_mset_drop [of "contents r" e] by (simp add: mset_toggle_def)
  next
    case False
    have d: "contents r1 = contents r"
      using False r1(3) by (auto simp: mset_drop_def mset_has_def filter_mset_eq_conv)
    obtain r2 where r2: "table_add eq r1 (fst e) (snd e) = Some r2" "wf_table r2"
      "contents r2 = mset_add eq (contents r) e"
      using add_refines [of r1 eq "fst e" "snd e"] r1(2) Cons.prems(3) d by (auto simp: good_table_def)
    have "good_table r2"
      using r2 Cons.prems good_mset_add [of "contents r" e] by (simp add: good_table_def)
    then show ?thesis
      using r1 r2 False Cons.IH [of r2] Cons.prems size_mset_add [of eq "contents r" e]
      by (simp add: mset_toggle_def)
  qed
qed simp

lemma has_toggles:
  assumes "good M" "good (mset es)" "elem (fst x)"
  shows "mset_has eq (foldl mset_toggle M es) x \<longleftrightarrow> mset_has eq M x \<noteq> mset_has eq (mset es) x"
  using assms(1,2)
proof (induction es arbitrary: M)
  case (Cons e es)
  have el: "elem (fst e)" "elems (mset es)" "good (mset es)"
    using Cons.prems(2) good_subset [of "mset (e # es)" "mset es"] by (simp_all add: good_def)
  have "\<not> (same e x \<and> mset_has eq (mset es) x)"
  proof
    assume a: "same e x \<and> mset_has eq (mset es) x"
    then have "mset_has eq (mset es) e"
      using mset_has_cong [of "mset es" e x] el assms(3) by blast
    then obtain w where w: "w \<in> set es" "same w e" by (auto simp: mset_has_same)
    then have "same e w" using same_sym [of w e] el by (auto simp: elems_def)
    then show False
      using uniqD [of "fst e" "snd e" "mset es" "fst w"] Cons.prems(2) w
      by (cases w) (auto simp: good_def same_def)
  qed
  then show ?case
    using Cons.IH [of "mset_toggle M e"] Cons.prems(1) el has_mset_toggle [of M e x] assms(3)
      good_mset_toggle [of M e] by (auto simp: mset_has_same)
qed (simp add: mset_has_def)
end

context element_equality
begin

lemma good_table_new: "good_table (with_capacity MINSIZE)"
  by (simp add: good_table_def)

lemma good_table_good: "good_table t \<Longrightarrow> good (contents t)" "good_table t \<Longrightarrow> wf_table t"
  by (simp_all add: good_table_def)

lemma union_good:
  assumes a: "good_table a" and b: "good_table b" and sz: "size (contents a) + size (contents b) < 2 ^ 60"
  obtains r where "table_union eq a b = Some r" "good_table r"
    "\<And>x. elem (fst x) \<Longrightarrow> mset_has eq (contents r) x \<longleftrightarrow> mset_has eq (contents a) x \<or> mset_has eq (contents b) x"
proof -
  obtain c where c: "table_copy eq a = Some c" "good_table c" "contents c = contents a"
    using copy_good [OF a] sz by auto
  obtain r where r: "table_merge eq c b = Some r" "good_table r"
    "contents r = foldl (mset_add eq) (contents a) (table_actives b)"
    using merge_good [OF c(2) b] sz c(3) by auto
  have "mset_has eq (contents r) x \<longleftrightarrow> mset_has eq (contents a) x \<or> mset_has eq (contents b) x"
    if "elem (fst x)" for x
    unfolding r(3) contents_def [of b]
    by (rule has_adds [OF good_table_good(1) [OF a] good_table_elems [OF b] that])
  with c(1) r show thesis by (intro that [of r]) (simp_all add: table_union_def)
qed

lemma filtered_good:
  assumes t: "good_table t" and s: "good_table s" and sz: "size (contents s) < 2 ^ 60"
  obtains r where "add_filtered eq keep t (with_capacity MINSIZE) (table_actives s) = Some r" "good_table r"
    "\<And>x. elem (fst x) \<Longrightarrow>
       mset_has eq (contents r) x \<longleftrightarrow> mset_has eq (contents s) x \<and> mset_has eq (contents t) x = keep"
proof -
  define es where "es = filter (\<lambda>e. mset_has eq (contents t) e = keep) (table_actives s)"
  have "length (table_actives s) = size (contents s)"
    by (simp add: contents_def)
  then obtain r where r: "add_filtered eq keep t (with_capacity MINSIZE) (table_actives s) = Some r"
    "wf_table r" "contents r = foldl (mset_add eq) {#} es"
    using add_filtered_refines [OF good_table_good(2) [OF t], of "with_capacity MINSIZE" "table_actives s" eq keep]
      sz by (auto simp: es_def)
  have el: "\<forall>e \<in> set es. elem (fst e)"
    using good_table_elems [OF s] by (auto simp: es_def)
  have "mset_has eq (contents r) x \<longleftrightarrow> mset_has eq (contents s) x \<and> mset_has eq (contents t) x = keep"
    if x: "elem (fst x)" for x
  proof -
    have "mset_has eq (contents r) x \<longleftrightarrow> (\<exists>e \<in> set (table_actives s). same e x \<and> mset_has eq (contents t) e = keep)"
      using has_adds [OF good_empty el x] r(3) by (auto simp: mset_has_same es_def)
    also have "\<dots> \<longleftrightarrow> (\<exists>e \<in> set (table_actives s). same e x \<and> mset_has eq (contents t) x = keep)"
      using mset_has_cong [OF _ _ x] good_table_elems [OF s] good_table_good(1) [OF t]
      unfolding good_def by blast
    also have "\<dots> \<longleftrightarrow> mset_has eq (contents s) x \<and> mset_has eq (contents t) x = keep"
      by (auto simp: mset_has_same contents_def [of s])
    finally show ?thesis .
  qed
  moreover have "good_table r"
    using r good_adds [OF good_empty el] by (simp add: good_table_def)
  ultimately show thesis
    using r(1) by (intro that) auto
qed

lemma intersection_good:
  assumes a: "good_table a" and b: "good_table b"
    and sz: "size (contents a) + size (contents b) < 2 ^ 60"
  obtains r where "table_intersection eq a b = Some r" "good_table r"
    "\<And>x. elem (fst x) \<Longrightarrow> mset_has eq (contents r) x \<longleftrightarrow> mset_has eq (contents a) x \<and> mset_has eq (contents b) x"
proof (cases "used a \<ge> used b")
  case True
  obtain r where "add_filtered eq True a (with_capacity MINSIZE) (table_actives b) = Some r" "good_table r"
    "\<And>x. elem (fst x) \<Longrightarrow> mset_has eq (contents r) x \<longleftrightarrow> mset_has eq (contents b) x \<and> mset_has eq (contents a) x = True"
    by (rule filtered_good [OF a b, of True]) (use sz in auto)
  with True show thesis by (intro that [of r]) (auto simp: table_intersection_def)
next
  case False
  obtain r where "add_filtered eq True b (with_capacity MINSIZE) (table_actives a) = Some r" "good_table r"
    "\<And>x. elem (fst x) \<Longrightarrow> mset_has eq (contents r) x \<longleftrightarrow> mset_has eq (contents a) x \<and> mset_has eq (contents b) x = True"
    by (rule filtered_good [OF b a, of True]) (use sz in auto)
  with False show thesis by (intro that [of r]) (auto simp: table_intersection_def)
qed

lemma difference_update_good:
  assumes a: "good_table a" and b: "good_table b" and sz: "size (contents a) < 2 ^ 60"
  obtains r where "difference_update eq a b = Some r" "good_table r"
    "\<And>x. elem (fst x) \<Longrightarrow> mset_has eq (contents r) x \<longleftrightarrow> mset_has eq (contents a) x \<and> \<not> mset_has eq (contents b) x"
proof -
  obtain d where d: "table_discard_all eq a (table_actives b) = Some d" "good_table d"
    "contents d = foldl (mset_drop eq) (contents a) (table_actives b)"
    using discard_all_good [OF a good_table_elems [OF b]] by blast
  have "size (foldl (mset_drop eq) M es) \<le> size M" for M es
  proof (induction es arbitrary: M)
    case (Cons e es)
    show ?case
      using order.trans [OF Cons.IH [of "mset_drop eq M e"] size_mset_drop] by simp
  qed simp
  then have szd: "size (contents d) < 2 ^ 60"
    unfolding d(3) by (rule le_less_trans [OF _ sz])
  obtain r where r: "table_compact_if_sparse d = Some r" "wf_table r" "contents r = contents d"
  proof (cases "fill d - used d > tmask d div 4")
    case True
    have "2 * size (contents d) \<le> resize_target (used d)" "resize_target (used d) < 2 ^ 63"
      using szd used_contents [OF good_table_good(2) [OF d(2)]] by (auto simp: resize_target_def)
    then obtain r where "table_resize d (resize_target (used d)) = Some r" "wf_table r" "contents r = contents d"
      by (rule resize_refines)
    then show thesis
      using that [of r] True by (simp add: table_compact_if_sparse_def)
  next
    case False
    then show thesis
      using that [of d] d(2) by (simp add: table_compact_if_sparse_def good_table_def)
  qed
  have "mset_has eq (contents r) x \<longleftrightarrow> mset_has eq (contents a) x \<and> \<not> mset_has eq (contents b) x"
    if "elem (fst x)" for x
    unfolding r(3) d(3) contents_def [of b]
    by (rule has_drops [OF good_table_good(1) [OF a] good_table_elems [OF b] that])
  moreover have "good_table r"
    using r d(2) by (simp add: good_table_def)
  ultimately show thesis
    using d(1) r(1) that by (simp add: difference_update_def)
qed

lemma difference_good:
  assumes a: "good_table a" and b: "good_table b" and sz: "size (contents a) < 2 ^ 60"
  obtains r where "table_difference eq a b = Some r" "good_table r"
    "\<And>x. elem (fst x) \<Longrightarrow> mset_has eq (contents r) x \<longleftrightarrow> mset_has eq (contents a) x \<and> \<not> mset_has eq (contents b) x"
proof (cases "used a div 4 > used b")
  case True
  obtain c where c: "table_copy eq a = Some c" "good_table c" "contents c = contents a"
    using copy_good [OF a sz] .
  then show thesis
    using difference_update_good [OF c(2) b] sz that True by (auto simp: table_difference_def)
next
  case False
  then show thesis
    using filtered_good [OF b a sz, of False] that by (auto simp: table_difference_def)
qed

lemma symmetric_difference_good:
  assumes a: "good_table a" and b: "good_table b" and sz: "size (contents a) + size (contents b) < 2 ^ 60"
  obtains r where "table_symmetric_difference eq a b = Some r" "good_table r"
    "\<And>x. elem (fst x) \<Longrightarrow> mset_has eq (contents r) x \<longleftrightarrow> mset_has eq (contents a) x \<noteq> mset_has eq (contents b) x"
proof -
  obtain c where c: "table_copy eq b = Some c" "good_table c" "contents c = contents b"
    using copy_good [OF b] sz by auto
  have "\<exists>r'. toggle_all eq c (table_actives a) = Some r' \<and> good_table r' \<and>
      contents r' = foldl mset_toggle (contents c) (table_actives a)"
    using sz c(3) by (intro toggle_all_good [OF c(2) good_table_elems [OF a]]) (simp add: contents_def)
  then obtain r where r: "toggle_all eq c (table_actives a) = Some r" "good_table r"
    "contents r = foldl mset_toggle (contents b) (table_actives a)"
    by (auto simp: c(3))
  have "mset_has eq (contents r) x \<longleftrightarrow> mset_has eq (contents a) x \<noteq> mset_has eq (contents b) x"
    if "elem (fst x)" for x
    unfolding r(3) using has_toggles [OF good_table_good(1) [OF b], of "table_actives a" x] a that
    by (auto simp: good_table_def contents_def)
  then show thesis
    using c(1) r that by (simp add: table_symmetric_difference_def)
qed
end

end
