(* ===== verification/Set_Body.thy ===== *)
theory Set_Body
  imports Set_Algebra
begin

text \<open>
  \<open>SetBody\<close> of \<open>pyset.rs\<close>: a set is a table while every element has a
  reproducible hash and an insertion-order list otherwise.  The operations choose
  between the two representations; the locale adds the second half of the
  contract, that equal elements have equal hashes, under which both
  representations answer membership alike.
\<close>

definition body_empty :: "'v set_body" where
  "body_empty = Table (with_capacity MINSIZE)"

definition from_items ::
  "('v \<Rightarrow> 'v \<Rightarrow> bool) \<Rightarrow> ('v \<Rightarrow> i64 option) \<Rightarrow> 'v list \<Rightarrow> 'v set_body option" where
  "from_items eq python_hash items = (case table_from_incremental eq python_hash items of
       None \<Rightarrow> None | Some (Some t) \<Rightarrow> Some (Table t) | Some None \<Rightarrow> Some (Fallback items))"

definition from_constant_literal ::
  "('v \<Rightarrow> 'v \<Rightarrow> bool) \<Rightarrow> ('v \<Rightarrow> i64 option) \<Rightarrow> 'v list \<Rightarrow> 'v set_body option" where
  "from_constant_literal eq python_hash items = (case constant_literal_table eq python_hash items of
       None \<Rightarrow> None | Some (Some t) \<Rightarrow> Some (Table t) | Some None \<Rightarrow> Some (Fallback items))"

definition body_iter_ordered :: "'v set_body \<Rightarrow> 'v list" where
  "body_iter_ordered b = (case b of Table t \<Rightarrow> table_iter_ordered t | Fallback v \<Rightarrow> v)"

definition body_len :: "'v set_body \<Rightarrow> nat" where
  "body_len b = (case b of Table t \<Rightarrow> used t | Fallback v \<Rightarrow> length v)"

definition body_contains ::
  "('v \<Rightarrow> 'v \<Rightarrow> bool) \<Rightarrow> ('v \<Rightarrow> i64 option) \<Rightarrow> 'v set_body \<Rightarrow> 'v \<Rightarrow> bool option" where
  "body_contains eq python_hash b value1 = (case b of
       Table t \<Rightarrow> (case python_hash value1 of None \<Rightarrow> Some False | Some h \<Rightarrow> table_contains eq t value1 h)
     | Fallback v \<Rightarrow> Some (list_ex (\<lambda>x. eq x value1) v))"

definition add_value ::
  "('v \<Rightarrow> 'v \<Rightarrow> bool) \<Rightarrow> ('v \<Rightarrow> i64 option) \<Rightarrow> 'v set_body \<Rightarrow> 'v \<Rightarrow> ('v set_body \<times> bool) option" where
  "add_value eq python_hash b value1 = (case b of
       Table t \<Rightarrow>
         (case python_hash value1 of
            Some h \<Rightarrow> map_option (\<lambda>t'. (Table t', used t' > used t)) (table_add eq t value1 h)
          | None \<Rightarrow>
              (let items = table_iter_ordered t in
               if list_ex (\<lambda>x. eq x value1) items then Some (b, False)
               else Some (Fallback (items @ [value1]), True)))
     | Fallback v \<Rightarrow>
         if list_ex (\<lambda>x. eq x value1) v then Some (b, False) else Some (Fallback (v @ [value1]), True))"

primrec remove_first :: "('v \<Rightarrow> bool) \<Rightarrow> 'v list \<Rightarrow> 'v list" where
  "remove_first P [] = []"
| "remove_first P (x # xs) = (if P x then xs else x # remove_first P xs)"

definition discard_value ::
  "('v \<Rightarrow> 'v \<Rightarrow> bool) \<Rightarrow> ('v \<Rightarrow> i64 option) \<Rightarrow> 'v set_body \<Rightarrow> 'v \<Rightarrow> ('v set_body \<times> bool) option" where
  "discard_value eq python_hash b value1 = (case b of
       Table t \<Rightarrow>
         (case python_hash value1 of
            None \<Rightarrow> Some (b, False)
          | Some h \<Rightarrow> map_option (\<lambda>(t', r). (Table t', r)) (table_discard eq t value1 h))
     | Fallback v \<Rightarrow>
         if list_ex (\<lambda>x. eq x value1) v
         then Some (Fallback (remove_first (\<lambda>x. eq x value1) v), True) else Some (b, False))"

definition body_pop_first :: "'v set_body \<Rightarrow> ('v \<times> 'v set_body) option" where
  "body_pop_first b = (case b of
       Table t \<Rightarrow> map_option (\<lambda>(v, t'). (v, Table t')) (table_pop_first t)
     | Fallback v \<Rightarrow> (case v of [] \<Rightarrow> None | x # xs \<Rightarrow> Some (x, Fallback xs)))"

definition body_clear :: "'v set_body \<Rightarrow> 'v set_body" where
  "body_clear b = body_empty"

definition copied :: "('v \<Rightarrow> 'v \<Rightarrow> bool) \<Rightarrow> 'v set_body \<Rightarrow> 'v set_body option" where
  "copied eq b = (case b of Table t \<Rightarrow> map_option Table (table_copy eq t) | Fallback v \<Rightarrow> Some (Fallback v))"

definition body_compact_if_sparse :: "'v set_body \<Rightarrow> 'v set_body option" where
  "body_compact_if_sparse b = (case b of
       Table t \<Rightarrow> map_option Table (table_compact_if_sparse t) | Fallback v \<Rightarrow> Some b)"

primrec add_values ::
  "('v \<Rightarrow> 'v \<Rightarrow> bool) \<Rightarrow> ('v \<Rightarrow> i64 option) \<Rightarrow> 'v set_body \<Rightarrow> 'v list \<Rightarrow> 'v set_body option" where
  "add_values eq python_hash b [] = Some b"
| "add_values eq python_hash b (v # vs) =
     (case add_value eq python_hash b v of None \<Rightarrow> None | Some r \<Rightarrow> add_values eq python_hash (fst r) vs)"

primrec discard_values ::
  "('v \<Rightarrow> 'v \<Rightarrow> bool) \<Rightarrow> ('v \<Rightarrow> i64 option) \<Rightarrow> 'v set_body \<Rightarrow> 'v list \<Rightarrow> 'v set_body option" where
  "discard_values eq python_hash b [] = Some b"
| "discard_values eq python_hash b (v # vs) =
     (case discard_value eq python_hash b v of
        None \<Rightarrow> None | Some r \<Rightarrow> discard_values eq python_hash (fst r) vs)"

definition merge_from ::
  "('v \<Rightarrow> 'v \<Rightarrow> bool) \<Rightarrow> ('v \<Rightarrow> i64 option) \<Rightarrow> 'v set_body \<Rightarrow> 'v set_body \<Rightarrow> 'v set_body option" where
  "merge_from eq python_hash a b = (case (a, b) of
       (Table ta, Table tb) \<Rightarrow> map_option Table (table_merge eq ta tb)
     | _ \<Rightarrow> add_values eq python_hash a (body_iter_ordered b))"

definition difference_from ::
  "('v \<Rightarrow> 'v \<Rightarrow> bool) \<Rightarrow> ('v \<Rightarrow> i64 option) \<Rightarrow> 'v set_body \<Rightarrow> 'v set_body \<Rightarrow> 'v set_body option" where
  "difference_from eq python_hash a b = (case (a, b) of
       (Table ta, Table tb) \<Rightarrow> map_option Table (difference_update eq ta tb)
     | _ \<Rightarrow> (case discard_values eq python_hash a (body_iter_ordered b) of
               None \<Rightarrow> None | Some a' \<Rightarrow> body_compact_if_sparse a'))"

definition union_with ::
  "('v \<Rightarrow> 'v \<Rightarrow> bool) \<Rightarrow> ('v \<Rightarrow> i64 option) \<Rightarrow> 'v set_body \<Rightarrow> 'v set_body \<Rightarrow> 'v set_body option" where
  "union_with eq python_hash a b = (case (a, b) of
       (Table ta, Table tb) \<Rightarrow> map_option Table (table_union eq ta tb)
     | _ \<Rightarrow> (case copied eq a of None \<Rightarrow> None | Some r \<Rightarrow> merge_from eq python_hash r b))"

primrec add_common ::
  "('v \<Rightarrow> 'v \<Rightarrow> bool) \<Rightarrow> ('v \<Rightarrow> i64 option) \<Rightarrow> 'v set_body \<Rightarrow> 'v set_body \<Rightarrow> 'v list \<Rightarrow> 'v set_body option" where
  "add_common eq python_hash large r [] = Some r"
| "add_common eq python_hash large r (v # vs) =
     (case body_contains eq python_hash large v of
        None \<Rightarrow> None
      | Some False \<Rightarrow> add_common eq python_hash large r vs
      | Some True \<Rightarrow>
          (case add_value eq python_hash r v of
             None \<Rightarrow> None | Some r' \<Rightarrow> add_common eq python_hash large (fst r') vs))"

definition intersection_with ::
  "('v \<Rightarrow> 'v \<Rightarrow> bool) \<Rightarrow> ('v \<Rightarrow> i64 option) \<Rightarrow> 'v set_body \<Rightarrow> 'v set_body \<Rightarrow> 'v set_body option" where
  "intersection_with eq python_hash a b = (case (a, b) of
       (Table ta, Table tb) \<Rightarrow> map_option Table (table_intersection eq ta tb)
     | _ \<Rightarrow> (let (small, large) = (if body_len a \<ge> body_len b then (b, a) else (a, b))
             in add_common eq python_hash large body_empty (body_iter_ordered small)))"

definition difference_with ::
  "('v \<Rightarrow> 'v \<Rightarrow> bool) \<Rightarrow> ('v \<Rightarrow> i64 option) \<Rightarrow> 'v set_body \<Rightarrow> 'v set_body \<Rightarrow> 'v set_body option" where
  "difference_with eq python_hash a b = (case (a, b) of
       (Table ta, Table tb) \<Rightarrow> map_option Table (table_difference eq ta tb)
     | _ \<Rightarrow> (case copied eq a of None \<Rightarrow> None | Some r \<Rightarrow> difference_from eq python_hash r b))"

primrec toggle_values ::
  "('v \<Rightarrow> 'v \<Rightarrow> bool) \<Rightarrow> ('v \<Rightarrow> i64 option) \<Rightarrow> 'v set_body \<Rightarrow> 'v list \<Rightarrow> 'v set_body option" where
  "toggle_values eq python_hash r [] = Some r"
| "toggle_values eq python_hash r (v # vs) =
     (case discard_value eq python_hash r v of
        None \<Rightarrow> None
      | Some (r1, True) \<Rightarrow> toggle_values eq python_hash r1 vs
      | Some (r1, False) \<Rightarrow>
          (case add_value eq python_hash r1 v of
             None \<Rightarrow> None | Some r2 \<Rightarrow> toggle_values eq python_hash (fst r2) vs))"

definition symmetric_difference_with ::
  "('v \<Rightarrow> 'v \<Rightarrow> bool) \<Rightarrow> ('v \<Rightarrow> i64 option) \<Rightarrow> 'v set_body \<Rightarrow> 'v set_body \<Rightarrow> 'v set_body option" where
  "symmetric_difference_with eq python_hash a b = (case (a, b) of
       (Table ta, Table tb) \<Rightarrow> map_option Table (table_symmetric_difference eq ta tb)
     | _ \<Rightarrow> (case copied eq b of
               None \<Rightarrow> None | Some r \<Rightarrow> toggle_values eq python_hash r (body_iter_ordered a)))"

section \<open>The two representations agree\<close>

lemma table_iter_actives: "table_iter_ordered t = List.map fst (table_actives t)"
proof -
  have "List.map_filter (\<lambda>s. case s of Active v h \<Rightarrow> Some v | _ \<Rightarrow> None) sl
      = List.map fst (List.map_filter active_entry sl)" for sl :: "'a slot list"
    by (induction sl) (auto simp: map_filter_simps split: slot.splits)
  then show ?thesis
    by (simp add: table_iter_ordered_def table_actives_def)
qed

definition body_mem :: "('v \<Rightarrow> 'v \<Rightarrow> bool) \<Rightarrow> 'v set_body \<Rightarrow> 'v \<Rightarrow> bool" where
  "body_mem eq b x \<longleftrightarrow> (\<exists>y \<in> set (body_iter_ordered b). eq y x)"

lemma list_ex_mem: "list_ex (\<lambda>y. eq y x) (body_iter_ordered b) \<longleftrightarrow> body_mem eq b x"
  by (simp add: body_mem_def list_ex_iff)

lemma mset_remove_first:
  "\<exists>y \<in> set vs. P y \<Longrightarrow> \<exists>y. P y \<and> mset vs = add_mset y (mset (remove_first P vs))"
  by (induction vs) (auto simp: add_mset_commute)

lemma set_remove_first: "set (remove_first P vs) \<subseteq> set vs"
  by (induction vs) auto

locale hashed_elements = element_equality +
  fixes python_hash :: "'a \<Rightarrow> i64 option"
  assumes hash_eq: "elem x \<Longrightarrow> elem y \<Longrightarrow> eq x y \<Longrightarrow> python_hash x = python_hash y"
begin

definition body_ok :: "'a set_body \<Rightarrow> bool" where
  "body_ok b \<longleftrightarrow> (case b of
       Table t \<Rightarrow> good_table t \<and> (\<forall>(v, h) \<in> set (table_actives t). python_hash v = Some h)
     | Fallback vs \<Rightarrow> \<forall>v \<in> set vs. elem v)"

lemma body_ok_elems: "body_ok b \<Longrightarrow> y \<in> set (body_iter_ordered b) \<Longrightarrow> elem y"
  by (auto simp: body_ok_def body_iter_ordered_def table_iter_actives
      dest: good_table_elems split: set_body.splits)

lemma table_mem:
  assumes "body_ok (Table t)" "elem x"
  shows "body_mem eq (Table t) x \<longleftrightarrow> (\<exists>h. python_hash x = Some h \<and> mset_has eq (contents t) (x, h))"
proof -
  have h: "python_hash v = Some h" "elem v" if "(v, h) \<in> set (table_actives t)" for v h
    using that assms(1) good_table_elems [of t] by (auto simp: body_ok_def)
  have "body_mem eq (Table t) x \<longleftrightarrow> (\<exists>(v, h) \<in> set (table_actives t). eq v x)"
    by (force simp: body_mem_def body_iter_ordered_def table_iter_actives)
  also have "\<dots> \<longleftrightarrow> (\<exists>(v, h) \<in> set (table_actives t). eq v x \<and> python_hash x = Some h)"
  proof (intro bex_cong refl)
    fix e assume "e \<in> set (table_actives t)"
    then show "(case e of (v, h) \<Rightarrow> eq v x) \<longleftrightarrow> (case e of (v, h) \<Rightarrow> eq v x \<and> python_hash x = Some h)"
      using h [of "fst e" "snd e"] hash_eq [of "fst e" x] assms(2) by (cases e) auto
  qed
  also have "\<dots> \<longleftrightarrow> (\<exists>h. python_hash x = Some h \<and> mset_has eq (contents t) (x, h))"
    by (auto simp: mset_has_def contents_def)
  finally show ?thesis .
qed

lemma body_contains_mem:
  assumes "body_ok b" "elem x"
  shows "body_contains eq python_hash b x = Some (body_mem eq b x)"
proof (cases b)
  case (Table t)
  then have "wf_table t" using assms(1) by (simp add: body_ok_def good_table_def)
  then show ?thesis
    using table_mem [of t x] assms Table
    by (cases "python_hash x") (simp_all add: body_contains_def contains_refines)
next
  case (Fallback vs)
  then show ?thesis
    by (simp add: body_contains_def body_mem_def body_iter_ordered_def list_ex_iff)
qed

lemma mset_items_table: "mset (table_iter_ordered t) = image_mset fst (contents t)"
  by (simp add: table_iter_actives contents_def)

lemma add_value_mem:
  assumes b: "body_ok b" and x: "elem x" and sz: "body_len b < 2 ^ 60"
  shows "\<exists>b'. add_value eq python_hash b x = Some (b', \<not> body_mem eq b x) \<and> body_ok b' \<and>
     mset (body_iter_ordered b') =
       (if body_mem eq b x then mset (body_iter_ordered b) else add_mset x (mset (body_iter_ordered b)))"
proof (cases b)
  case (Fallback vs)
  then show ?thesis
    using b x by (auto simp: add_value_def body_ok_def body_mem_def body_iter_ordered_def list_ex_iff)
next
  case (Table t)
  have t: "good_table t" "wf_table t" "size (contents t) < 2 ^ 60"
    using b sz Table by (simp_all add: body_ok_def good_table_def body_len_def used_contents)
  show ?thesis
  proof (cases "python_hash x")
    case None
    then have "\<not> body_mem eq b x"
      using table_mem [of t x] b x Table by simp
    moreover have "\<forall>v \<in> set (table_iter_ordered t). elem v"
      using body_ok_elems [OF b] Table by (simp add: body_iter_ordered_def)
    ultimately show ?thesis
      using None Table x list_ex_mem [of eq x b]
      by (simp add: add_value_def body_iter_ordered_def body_ok_def Let_def)
  next
    case (Some h)
    obtain t' where t': "table_add eq t x h = Some t'" "wf_table t'"
      "contents t' = mset_add eq (contents t) (x, h)"
      using add_refines [OF t(2,3)] by blast
    have mem: "body_mem eq b x \<longleftrightarrow> mset_has eq (contents t) (x, h)"
      using table_mem [of t x] b x Table Some by simp
    have "good_table t'"
      using t'(2,3) t(1) x good_mset_add [of "contents t" "(x, h)"] by (simp add: good_table_def)
    moreover have "set (table_actives t') \<subseteq> insert (x, h) (set (table_actives t))"
      using arg_cong [OF t'(3), of set_mset] by (auto simp: contents_def mset_add_def split: if_splits)
    ultimately have "body_ok (Table t')"
      using b Table Some by (auto simp: body_ok_def)
    moreover have "used t' > used t \<longleftrightarrow> \<not> body_mem eq b x"
      using t' t(2) by (simp add: used_contents mem mset_add_def)
    ultimately show ?thesis
      using Table Some t' mem
      by (simp add: add_value_def body_iter_ordered_def mset_items_table mset_add_def)
  qed
qed

lemma discard_value_mem:
  assumes b: "body_ok b" and x: "elem x"
  shows "\<exists>b'. discard_value eq python_hash b x = Some (b', body_mem eq b x) \<and> body_ok b' \<and>
     (if body_mem eq b x
      then \<exists>y. eq y x \<and> mset (body_iter_ordered b) = add_mset y (mset (body_iter_ordered b'))
      else b' = b)"
proof (cases b)
  case (Fallback vs)
  show ?thesis
  proof (cases "body_mem eq b x")
    case True
    then have ex: "\<exists>y \<in> set vs. eq y x"
      using Fallback by (simp add: body_mem_def body_iter_ordered_def)
    have "body_ok (Fallback (remove_first (\<lambda>y. eq y x) vs))"
      using b Fallback set_remove_first by (fastforce simp: body_ok_def)
    moreover obtain y where "eq y x" "mset vs = add_mset y (mset (remove_first (\<lambda>y. eq y x) vs))"
      using mset_remove_first [OF ex] by blast
    ultimately show ?thesis
      using True ex Fallback
      by (auto simp: discard_value_def body_iter_ordered_def list_ex_iff)
  next
    case False
    then show ?thesis
      using b Fallback by (auto simp: discard_value_def body_mem_def body_iter_ordered_def list_ex_iff)
  qed
next
  case (Table t)
  have t: "good_table t" "wf_table t"
    using b Table by (simp_all add: body_ok_def good_table_def)
  show ?thesis
  proof (cases "python_hash x")
    case None
    then show ?thesis
      using table_mem [of t x] b x Table by (simp add: discard_value_def)
  next
    case (Some h)
    have mem: "body_mem eq b x \<longleftrightarrow> table_has eq t x h"
      using table_mem [of t x] b x Table Some by (simp add: table_has_contents)
    show ?thesis
    proof (cases "table_has eq t x h")
      case False
      then show ?thesis
        using discard_aux [OF t(2), of eq x h] Table Some mem b by (simp add: discard_value_def)
    next
      case True
      obtain w t' where d: "(w, h) \<in># contents t" "eq w x" "table_discard eq t x h = Some (t', True)"
        "wf_table t'" "contents t' = contents t - {#(w, h)#}"
        using discard_aux [OF t(2), of eq x h] True by (auto simp: contents_entries)
      have "good (contents t')"
        using t(1) d(5) good_subset [of "contents t" "contents t'"] by (simp add: good_table_def)
      moreover have "set (table_actives t') \<subseteq> set (table_actives t)"
        using d(5) in_diffD [of _ "contents t" "{#(w, h)#}"] unfolding contents_def
        by (metis set_mset_mset subsetI)
      ultimately have "body_ok (Table t')"
        using b Table d(4) by (auto simp: body_ok_def good_table_def)
      moreover have "contents t = add_mset (w, h) (contents t')"
        using d(1,5) by simp
      ultimately show ?thesis
        using True mem d(2,3) Table Some
        by (auto simp: discard_value_def body_iter_ordered_def mset_items_table)
    qed
  qed
qed

end

end
