(* ===== verification/Mersenne.thy ===== *)
theory Mersenne
  imports Main
begin

text \<open>
  The number-theoretic fact behind the hash of \<open>Decimal\<close> values
  (\<open>types.rs\<close>, \<open>rational_hash\<close>): ten has the inverse \<open>10 ^ (p - 2)\<close> modulo
  \<open>p = 2 ^ 61 - 1\<close>.  The sources appeal to Fermat's little theorem; here
  \<open>10 ^ (p - 1) = 1\<close> is checked by sixty squarings, each certified by its
  quotient and remainder, so that no primality proof is needed.
\<close>

text \<open>Rows hold quotient and remainder of the square and of the accumulated product.\<close>

fun power_chain :: "nat \<Rightarrow> nat \<Rightarrow> nat \<Rightarrow> (nat \<times> nat \<times> nat \<times> nat) list \<Rightarrow> bool" where
  "power_chain p x acc [] \<longleftrightarrow> acc = 1"
| "power_chain p x acc ((q, r, q', r') # cs) \<longleftrightarrow>
     x * x = q * p + r \<and> acc * r = q' * p + r' \<and> power_chain p r r' cs"

lemma power_chain_sound:
  "power_chain p x acc cs \<Longrightarrow> acc * x ^ (2 * (2 ^ length cs - 1)) mod p = 1 mod p"
proof (induction p x acc cs rule: power_chain.induct)
  case (2 p x acc q r q' r' cs)
  define n where "n = (2 :: nat) ^ length cs - 1"
  have n: "(2 :: nat) ^ length cs = Suc n"
    by (simp add: n_def)
  have sq: "r mod p = x ^ 2 mod p" and ac: "r' mod p = acc * r mod p"
    using 2(2) by (simp_all add: power2_eq_square)
  have "2 * (2 ^ length ((q, r, q', r') # cs) - 1) = 2 + 2 * (2 * n)"
    using n by simp
  then have "acc * x ^ (2 * (2 ^ length ((q, r, q', r') # cs) - 1)) = acc * (x ^ 2 * (x ^ 2) ^ (2 * n))"
    by (simp only: power_add power_mult)
  also have "\<dots> mod p = acc * (r * r ^ (2 * n)) mod p"
    using sq by (metis mod_mult_cong power_mod)
  also have "\<dots> = r' * r ^ (2 * n) mod p"
    using ac by (metis mod_mult_cong mult.assoc)
  also have "\<dots> = 1 mod p"
    using 2 by (simp add: n_def)
  finally show ?case .
qed simp

definition ten_certificate :: "(nat \<times> nat \<times> nat \<times> nat) list" where
  "ten_certificate =
   [(0, 100, 0, 100),
    (0, 10000, 0, 1000000),
    (0, 100000000, 0, 100000000000000),
    (0, 10000000000000000, 433680868994, 465258685558744706),
    (43368086899420, 409008371600591580, 82527169713217145, 416329378157185585),
    (72549539309882918, 127763649872067382, 23068249091454365, 2300235154006042355),
    (7079211448223723, 1745057488448534351, 1740813474573719594, 500474970970460711),
    (1320656100967058672, 1624793903558498129, 352655700525646887, 1652615411247629182),
    (1144898077836228062, 1546687470590647679, 1108522800584484181, 278368047666079447),
    (1037469646512432903, 166688656043617288, 20123137423292023, 1372185908249026863),
    (12049869805794903, 1173853281294743191, 698549261380028257, 1173903639515366426),
    (597582541612977481, 2098213490851945050, 1068199545046768841, 892058483149910509),
    (1909279962079631638, 1583813964870680762, 612728046726813764, 1604134591337586294),
    (1087874007595507513, 1310291498013746781, 911546843519130234, 1448554918065205080),
    (744570988964495573, 1893225235271483038, 1189344077024935953, 1956667290892912737),
    (1554443115661647028, 1975916315340981816, 1676701669767078300, 194640889938427092),
    (1693196488065357464, 1017344920133157592, 85876150213964810, 1899105694214418154),
    (448855660331220346, 831442665918911418, 684781008485858829, 2304901630139838993),
    (299802243235146723, 2211705101828198151, 2210802155317061077, 2180024686187856716),
    (2121410450714490845, 1253225752698440206, 1184843489921981826, 1498271019273388970),
    (681128238544803300, 2253149337662484136, 1464032174447951127, 880258266398847143),
    (2201659834396128034, 403792289764344162, 154148179018653220, 460989615001756946),
    (70710890820243863, 2287944325115509531, 457411267534695959, 862647118946008317),
    (2270184576274914848, 948520553694155513, 354854393658118119, 1170485048515603452),
    (390178879128057969, 1756354390875647650, 891555299385152380, 228865928256434420),
    (1337810394732855509, 2134005742720196441, 211810259094250833, 1229224405745088037),
    (1974974224943315384, 712761086183024297, 379966597509308127, 594840725239995212),
    (220322183230524984, 1837997293657172425, 474150078205457695, 1643999976850526155),
    (1465075479116458946, 685144030880344979, 488488056821641312, 494264741796322033),
    (203579489659637712, 1003770986144630329, 215161485542156674, 982911741894659883),
    (436957845178430533, 1445767802490842358, 616287467725775058, 1153974031898449956),
    (906499067962126814, 105252729160298050, 52674408340940306, 291505606925096794),
    (4804376079128112, 1480444581945351988, 187158403522933164, 502241752376235508),
    (950505368949092565, 1801472044135977829, 392383381127141872, 21243819605335860),
    (1407425185858652791, 2124381960533586000, 19572012041615451, 116093899047123099),
    (1957201204161545105, 80174858643840145, 4036619972965705, 1425245140204058900),
    (2787704077369836, 1868090458370558989, 1154669609602839224, 4112249086118076),
    (1513442999679824071, 411224908611807600, 733380047067712, 1579549228052367488),
    (73338004706771268, 1157598178705560132, 792978230635362133, 817525400229230933),
    (581146911558124359, 1048034700443805015, 371575594917286230, 938473454971934265),
    (476344976195447515, 1613625128645668460, 656742173451796581, 568625111661600369),
    (1129212199352919724, 1522278945031382076, 375396777508174591, 1615429451912987003),
    (1004983070064289346, 133934546340123730, 93831978119022633, 2136984221197688207),
    (7779568093602292, 1560865272108977208, 1446561819076208770, 1943294628691235786),
    (1056576873594973948, 638650095173286716, 538234951210582199, 1148164963223040527),
    (176887126502135805, 1830188870833049101, 911319083378456713, 2057976203220473164),
    (1452653667026265440, 577592502028554761, 515504142989631630, 452166364455663674),
    (144681618421789290, 1405619270506182331, 275636178531658553, 1534283892883831191),
    (856851713548391077, 1242750680279318334, 826913343191212726, 543724333906935368),
    (669789420686262579, 1338044178778575927, 315514619571834855, 919891226385224031),
    (776445845276239218, 2061245279188339011, 822311597180201463, 2236389971407523028),
    (1842593829674924967, 2278068256237683504, 2209451806595057039, 960623106521459023),
    (2250628060688087557, 1522747274384450309, 634382397813411380, 1863024079942625727),
    (1005601531578675411, 1834967257167056620, 1482576295241477806, 1441793541434711234),
    (1460248950783251062, 1217087572222098438, 761018418850929305, 1985814783845318437),
    (642412407322827430, 278979592154163914, 240259981393873811, 1007215283956265157),
    (33753214129284539, 1570278999437675807, 685913569132582257, 687485889965129292),
    (1069359937438166028, 1879141729315804621, 560265126024268185, 1289703771939809397),
    (1531402452268484546, 2149011687227772395, 1201984900049860709, 2075258708292324556),
    (2002847207458589265, 10, 9, 1)]"

lemma ten_certificate_ok: "power_chain 2305843009213693951 10 1 ten_certificate"
  by (simp add: ten_certificate_def)

lemma length_ten_certificate: "length ten_certificate = 60"
  by (simp add: ten_certificate_def)

lemma ten_fermat: "(10 :: nat) ^ (2 ^ 61 - 2) mod (2 ^ 61 - 1) = 1"
proof -
  have e: "(2 :: nat) * (2 ^ 60 - 1) = 2 ^ 61 - 2" "(2305843009213693951 :: nat) = 2 ^ 61 - 1"
    and one: "(1 :: nat) mod (2 ^ 61 - 1) = 1"
    by simp_all
  show ?thesis
    by (rule power_chain_sound [OF ten_certificate_ok,
          unfolded length_ten_certificate e mult_1_left one])
qed

end
