(* ===== verification/Pyhash.thy ===== *)
theory Pyhash
  imports Values Set_Body Mersenne
begin

text \<open>
  CPython's \<open>hash()\<close> for the hashable values (\<open>pyhash.rs\<close>, and the rational
  hash of \<open>types.rs\<close> that it calls).  Hashes are \<open>i64\<close>, intermediate values
  \<open>u64\<close>, both \<open>64 word\<close>; reductions modulo \<open>2 ^ 61 - 1\<close> happen on integers
  where the code widens to \<open>u128\<close> or \<open>BigInt\<close>.

  SipHash-1-3 is a crate (\<open>siphasher\<close>): the byte hash is a parameter
  \<open>siphash13 :: u8 list \<Rightarrow> u64\<close> of the definitions that use it.
\<close>

definition MODULUS :: int where "MODULUS = 2 ^ 61 - 1"
definition HASH_BITS :: nat where "HASH_BITS = 61"
definition HASH_INF :: i64 where "HASH_INF = 314159"
definition NONE_HASH :: i64 where "NONE_HASH = 0xFCA86420"
definition XXPRIME_1 :: u64 where "XXPRIME_1 = 11400714785074694791"
definition XXPRIME_2 :: u64 where "XXPRIME_2 = 14029467366897019727"
definition XXPRIME_5 :: u64 where "XXPRIME_5 = 2870177450012600261"

section \<open>Strings and bytes\<close>

definition xxrotate :: "u64 \<Rightarrow> u64" where
  "xxrotate x = word_rotl 31 x"

text \<open>\<open>if h == -1 { -2 } else { h }\<close>\<close>

definition fold_minus_one :: "i64 \<Rightarrow> i64" where
  "fold_minus_one h = (if h = - 1 then - 2 else h)"

definition hash_bytes :: "(u8 list \<Rightarrow> u64) \<Rightarrow> u8 list \<Rightarrow> i64" where
  "hash_bytes siphash13 buf = (if buf = [] then 0 else fold_minus_one (siphash13 buf))"

primrec le_bytes :: "nat \<Rightarrow> nat \<Rightarrow> u8 list" where
  "le_bytes 0 n = []"
| "le_bytes (Suc k) n = of_nat (n mod 256) # le_bytes k (n div 256)"

definition str_hash_buffer :: "pystr \<Rightarrow> u8 list" where
  "str_hash_buffer s =
     (let mx = fold max s 0 in
      if mx < 0x100 then List.map of_nat s
      else if mx < 0x10000 then concat (List.map (le_bytes 2) s)
      else concat (List.map (le_bytes 4) s))"

section \<open>Integers\<close>

definition hash_i64 :: "i64 \<Rightarrow> i64" where
  "hash_i64 n = (let x = word_of_int (\<bar>sint n\<bar> mod MODULUS);
                     x' = (if sint n < 0 then - x else x)
                 in fold_minus_one x')"

definition hash_bigint :: "int \<Rightarrow> i64" where
  "hash_bigint n = (let x = word_of_int (\<bar>n\<bar> mod MODULUS);
                        x' = (if n < 0 then - x else x)
                    in fold_minus_one x')"

section \<open>Floats\<close>

text \<open>\<open>frexp\<close>: the fraction in \<open>[0.5, 1)\<close> as its numerator over \<open>2 ^ 53\<close>, and the exponent.
  A subnormal is scaled by \<open>2 ^ 64\<close> first.\<close>

definition frexp :: "f64 \<Rightarrow> nat \<times> int" where
  "frexp v =
     (let f = nat (f64_frac v) in
      if f64_exp v = 0 then
        (if f = 0 then (0, 0) else (f * 2 ^ (53 - bit_length f), int (bit_length f) - 1074))
      else (2 ^ 52 + f, f64_exp v - 1022))"

definition rotate61 :: "u64 \<Rightarrow> nat \<Rightarrow> u64" where
  "rotate61 x k = (push_bit k x AND (push_bit 61 1 - 1)) OR drop_bit (HASH_BITS - k) x"

text \<open>The mantissa is consumed 28 bits at a time; both float operations of the loop body are exact.\<close>

partial_function (option) hash_double_loop :: "nat \<Rightarrow> int \<Rightarrow> u64 \<Rightarrow> (u64 \<times> int) option" where
  "hash_double_loop m e x =
     (if m = 0 then Some (x, e)
      else let x1 = rotate61 x 28;
               m1 = m * 2 ^ 28;
               y = m1 div 2 ^ 53;
               x2 = x1 + of_nat y;
               x3 = (if uint x2 \<ge> MODULUS then x2 - word_of_int MODULUS else x2)
           in hash_double_loop (m1 mod 2 ^ 53) (e - 28) x3)"

definition e_mod :: "int \<Rightarrow> nat" where
  "e_mod e = (if e \<ge> 0 then nat (e mod 61) else HASH_BITS - 1 - nat ((- 1 - e) mod 61))"

definition hash_double :: "f64 \<Rightarrow> i64 option" where
  "hash_double v =
     (if \<not> is_finite v then
        Some (if is_infinite v then (if f64_sign v then - HASH_INF else HASH_INF) else 0)
      else let (m, e) = frexp v;
               sign = (if f64_sign v \<and> m \<noteq> 0 then - 1 else 1 :: i64)
           in (case hash_double_loop m e 0 of
                 None \<Rightarrow> None
               | Some (x, e') \<Rightarrow> Some (fold_minus_one (rotate61 x (e_mod e') * sign))))"

definition hash_complex :: "f64 \<Rightarrow> f64 \<Rightarrow> i64 option" where
  "hash_complex re im = (case (hash_double re, hash_double im) of
       (Some r, Some i) \<Rightarrow>
         (let combined = r + 1000003 * i in Some (if combined = - 1 then combined - 1 else combined))
     | _ \<Rightarrow> None)"

section \<open>Tuples and frozensets\<close>

primrec tuple_lanes :: "u64 \<Rightarrow> i64 list \<Rightarrow> u64" where
  "tuple_lanes acc [] = acc"
| "tuple_lanes acc (lane # lanes) =
     tuple_lanes (xxrotate (acc + lane * XXPRIME_2) * XXPRIME_1) lanes"

definition hash_tuple :: "i64 list \<Rightarrow> i64" where
  "hash_tuple element_hashes =
     (let acc = tuple_lanes XXPRIME_5 element_hashes;
          h = acc + (of_nat (length element_hashes) XOR (XXPRIME_5 XOR 3527539))
      in if h = - 1 then 1546275796 else h)"

definition shuffle_bits :: "u64 \<Rightarrow> u64" where
  "shuffle_bits h = ((h XOR 89869747) XOR push_bit 16 h) * 3644798167"

definition hash_frozenset :: "i64 list \<Rightarrow> i64" where
  "hash_frozenset element_hashes =
     (let h0 = foldl (\<lambda>acc h. acc XOR shuffle_bits h) 0 element_hashes;
          h1 = h0 XOR ((of_nat (length element_hashes) + 1) * 1927868237);
          h2 = h1 XOR (drop_bit 11 h1 XOR drop_bit 25 h1);
          h3 = h2 * 69069 + 907133923
      in if h3 = - 1 then 590923713 else h3)"

section \<open>Dates and times\<close>

definition date_state :: "naive_date \<Rightarrow> u8 list" where
  "date_state d = [word_of_int (year d div 256), word_of_int (year d), of_nat (month d), of_nat (day d)]"

definition time_state :: "naive_time \<Rightarrow> u8 list" where
  "time_state t = (let us = nanosecond t div 1000 in
     [of_nat (hour t), of_nat (minute t), of_nat (second t),
      of_nat (us div 2 ^ 16), of_nat (us div 2 ^ 8), of_nat us])"

definition datetime_state :: "naive_datetime \<Rightarrow> u8 list" where
  "datetime_state dt = date_state (fst dt) @ time_state (snd dt)"

definition timedelta_hash :: "i64 \<Rightarrow> i64" where
  "timedelta_hash micros =
     (let secs_total = sint micros div 1000000;
          us = sint micros mod 1000000;
          days = secs_total div 86400;
          seconds = secs_total mod 86400
      in hash_tuple [hash_i64 (word_of_int days), hash_i64 (word_of_int seconds), hash_i64 (word_of_int us)])"

section \<open>Rational numbers\<close>

definition mulmod :: "nat \<Rightarrow> nat \<Rightarrow> nat \<Rightarrow> nat" where
  "mulmod a b m = a * b mod m"

fun powmod_loop :: "nat \<Rightarrow> nat \<Rightarrow> nat \<Rightarrow> nat \<Rightarrow> nat" where
  "powmod_loop base e m result =
     (if e = 0 then result
      else powmod_loop (mulmod base base m) (e div 2) m
             (if e mod 2 = 1 then mulmod result base m else result))"

declare powmod_loop.simps [simp del]

definition powmod :: "nat \<Rightarrow> nat \<Rightarrow> nat \<Rightarrow> nat" where
  "powmod base e m = powmod_loop (base mod m) e m 1"

definition HASH_MODULUS :: nat where "HASH_MODULUS = 2 ^ 61 - 1"

definition rational_hash :: "nat \<Rightarrow> nat \<Rightarrow> bool \<Rightarrow> i64" where
  "rational_hash n_abs_mod d_mod negative =
     (let hash_abs = (if d_mod = 0 then HASH_INF
                      else of_nat (mulmod n_abs_mod (powmod d_mod (HASH_MODULUS - 2) HASH_MODULUS) HASH_MODULUS))
      in fold_minus_one (if negative then - hash_abs else hash_abs))"

definition bigint_abs_mod :: "int \<Rightarrow> nat" where
  "bigint_abs_mod n = nat (\<bar>n\<bar> mod int HASH_MODULUS)"

text \<open>\<open>u64::try_from(scale).unwrap_or(0)\<close>: the scale is an \<open>i64\<close>, so it always fits when it is not negative.\<close>

definition decimal_hash_slot :: "int \<Rightarrow> int \<Rightarrow> i64" where
  "decimal_hash_slot mantissa scale =
     (let m_mod = bigint_abs_mod mantissa;
          (n_abs_mod, d_mod) =
            (if scale \<ge> 0 then (m_mod, powmod 10 (nat scale) HASH_MODULUS)
             else (mulmod m_mod (powmod 10 (nat (- scale)) HASH_MODULUS) HASH_MODULUS, 1))
      in rational_hash n_abs_mod d_mod (mantissa < 0))"

definition fraction_hash_slot :: "int \<Rightarrow> int \<Rightarrow> i64" where
  "fraction_hash_slot numer denom =
     rational_hash (bigint_abs_mod numer) (bigint_abs_mod denom) (numer < 0)"

section \<open>Values\<close>

declare pyval.case_cong [fundef_cong]
declare set_body.case_cong [fundef_cong] set_table.case_cong [fundef_cong]

lemma table_iter_size:
  assumes "x \<in> set (table_iter_ordered t)"
  shows "size x < size_set_table size t"
proof -
  obtain h where "Active x h \<in> set (slots t)"
    using assms by (auto simp: table_iter_ordered_def set_map_filter split: slot.splits) (metis slot.exhaust)
  then have "size x < size_list (size_slot size) (slots t)"
    by (intro size_list_estimation [of "Active x h"]) simp_all
  then show ?thesis by (cases t) simp
qed

lemma body_iter_size: "x \<in> set (body_iter_ordered b) \<Longrightarrow> size x < size_set_body size b"
proof (cases b)
  case (Fallback vs)
  assume "x \<in> set (body_iter_ordered b)"
  then have "size x \<le> size_list size vs"
    using Fallback by (intro size_list_estimation' [of x]) (simp_all add: body_iter_ordered_def)
  then show ?thesis using Fallback by simp
qed (auto simp: body_iter_ordered_def intro: less_SucI dest: table_iter_size)

lemma body_iter_size_Suc [termination_simp]:
  "x \<in> set (body_iter_ordered b) \<Longrightarrow> size x < Suc (size_set_body size b)"
  by (rule less_SucI) (rule body_iter_size)

fun python_hash :: "(u8 list \<Rightarrow> u64) \<Rightarrow> pyval \<Rightarrow> i64 option" where
  "python_hash sip v = (case v of
       VNone \<Rightarrow> Some NONE_HASH
     | VBool b \<Rightarrow> Some (if b then 1 else 0)
     | VInt n \<Rightarrow> Some (hash_i64 n)
     | VBigInt n \<Rightarrow> Some (hash_bigint n)
     | VFloat f \<Rightarrow> hash_double f
     | VComplex re im \<Rightarrow> hash_complex re im
     | VDecimal mantissa scale k \<Rightarrow> Some (decimal_hash_slot mantissa scale)
     | VFraction numer denom \<Rightarrow> Some (fraction_hash_slot numer denom)
     | VDate d \<Rightarrow> Some (hash_bytes sip (date_state d))
     | VTime t \<Rightarrow> Some (hash_bytes sip (time_state t))
     | VDateTime dt tz \<Rightarrow> (case tz of None \<Rightarrow> Some (hash_bytes sip (datetime_state dt)) | Some o1 \<Rightarrow> None)
     | VTimeDelta micros \<Rightarrow> Some (timedelta_hash micros)
     | VString s \<Rightarrow> Some (hash_bytes sip (str_hash_buffer s))
     | VBytes b \<Rightarrow> Some (hash_bytes sip b)
     | VTuple items \<Rightarrow> map_option hash_tuple (those (List.map (python_hash sip) items))
     | VFrozenset body \<Rightarrow>
         map_option hash_frozenset (those (List.map (python_hash sip) (body_iter_ordered body)))
     | _ \<Rightarrow> None)"

declare python_hash.simps [simp del]

section \<open>Rotation is multiplication modulo \<open>2 ^ 61 - 1\<close>\<close>

lemma pow61: "(2 :: int) ^ 61 mod MODULUS = 1"
  by (simp add: MODULUS_def)

lemma uint_rotate61:
  assumes x: "uint x < MODULUS" and k: "k \<le> 61"
  shows "uint (rotate61 x k) = uint x * 2 ^ k mod MODULUS"
proof -
  define a where "a = uint x div 2 ^ (61 - k)"
  define b where "b = uint x mod 2 ^ (61 - k)"
  have ab: "uint x = a * 2 ^ (61 - k) + b"
    by (simp only: a_def b_def div_mult_mod_eq)
  have b: "0 \<le> b" "b < 2 ^ (61 - k)"
    by (simp_all add: b_def)
  have pow: "(2 :: int) ^ (61 - k) * 2 ^ k = 2 ^ 61"
    using k by (simp flip: power_add)
  have a0: "0 \<le> a"
    by (simp add: a_def pos_imp_zdiv_nonneg_iff)
  have "a * 2 ^ (61 - k) < 2 ^ k * 2 ^ (61 - k)"
    using x ab b(1) pow by (simp add: MODULUS_def mult.commute)
  then have a: "a < 2 ^ k"
    by simp
  have m: "push_bit 61 1 - 1 = (Bit_Operations.mask 61 :: u64)"
    by (simp add: mask_eq_exp_minus_1)
  have "uint (push_bit k x AND (push_bit 61 1 - 1)) = uint x * 2 ^ k mod 2 ^ 61"
    unfolding m take_bit_eq_mask [symmetric] unsigned_take_bit_eq unsigned_push_bit_eq
    by (simp add: take_bit_eq_mod push_bit_eq_mult mod_mod_cancel le_imp_power_dvd)
  also have "uint x * 2 ^ k = b * 2 ^ k + a * 2 ^ 61"
    unfolding ab pow [symmetric] by (simp only: algebra_simps)
  also have "(b * 2 ^ k + a * 2 ^ 61) mod 2 ^ 61 = b * 2 ^ k"
  proof -
    have "b * 2 ^ k < 2 ^ (61 - k) * 2 ^ k"
      using b(2) by simp
    then show ?thesis
      using b(1) pow by simp
  qed
  finally have lo: "uint (push_bit k x AND (push_bit 61 1 - 1)) = push_bit k b"
    by (simp add: push_bit_eq_mult)
  have hi: "uint (drop_bit (61 - k) x) = a"
  proof -
    have "uint x mod 2 ^ 64 = uint x"
      using x by (intro mod_pos_pos_trivial) (simp_all add: MODULUS_def)
    then show ?thesis
      by (simp only: unsigned_drop_bit_eq) (simp add: a_def drop_bit_eq_div take_bit_eq_mod)
  qed
  have "uint (rotate61 x k) = push_bit k b OR a"
    unfolding rotate61_def HASH_BITS_def unsigned_or_eq lo hi ..
  also have "\<dots> = push_bit k b + a"
  proof -
    have "push_bit k b AND a = 0"
    proof (rule bit_eqI)
      fix n
      have "\<not> bit a n" if "k \<le> n"
      proof -
        have "take_bit k a = a" using a a0 by (simp add: take_bit_int_eq_self)
        then show ?thesis using that by (metis bit_take_bit_iff leD)
      qed
      then show "bit (push_bit k b AND a) n \<longleftrightarrow> bit 0 n"
        by (auto simp: bit_simps)
    qed
    then show ?thesis by (simp add: disjunctive_add_eq_or)
  qed
  also have "\<dots> = b * 2 ^ k + a"
    by (simp add: push_bit_eq_mult)
  finally have r: "uint (rotate61 x k) = b * 2 ^ k + a" .
  have "b * 2 ^ k + a < MODULUS"
  proof (cases "b = 2 ^ (61 - k) - 1")
    case True
    then have "a * 2 ^ (61 - k) < (2 ^ k - 1) * 2 ^ (61 - k)"
      using x ab pow by (simp add: MODULUS_def algebra_simps)
    then have "a < 2 ^ k - 1" by simp
    moreover have "b * 2 ^ k = 2 ^ 61 - 2 ^ k"
      unfolding True pow [symmetric] by (simp add: algebra_simps)
    ultimately show ?thesis
      by (simp add: MODULUS_def)
  next
    case False
    then have "b + 1 \<le> 2 ^ (61 - k) - 1" using b(2) by linarith
    then have "(b + 1) * 2 ^ k \<le> (2 ^ (61 - k) - 1) * 2 ^ k"
      by (rule mult_right_mono) simp
    then have "b * 2 ^ k + 2 ^ k + 2 ^ k \<le> 2 ^ 61"
      using pow by (simp add: algebra_simps)
    moreover have "(1 :: int) \<le> 2 ^ k" by simp
    ultimately show ?thesis
      using a unfolding MODULUS_def by linarith
  qed
  moreover have "uint x * 2 ^ k mod MODULUS = (b * 2 ^ k + a) mod MODULUS"
  proof -
    have "uint x * 2 ^ k = (b * 2 ^ k + a) + a * MODULUS"
      unfolding ab MODULUS_def distrib_right mult.assoc pow by simp
    then show ?thesis by simp
  qed
  ultimately show ?thesis
    using r a0 b(1) by simp
qed

section \<open>Hashes of integers and floats\<close>

definition int_hash :: "int \<Rightarrow> int" where
  "int_hash n = (if n < 0 then - (\<bar>n\<bar> mod MODULUS) else \<bar>n\<bar> mod MODULUS)"

lemma hash_bigint_int_hash: "hash_bigint n = fold_minus_one (word_of_int (int_hash n))"
  by (simp add: hash_bigint_def int_hash_def Let_def)

lemma hash_i64_bigint: "hash_i64 n = hash_bigint (sint n)"
  by (simp add: hash_i64_def hash_bigint_def)

lemma hash_double_step:
  assumes m: "0 < m" "m < 2 ^ 53" and x: "uint x < MODULUS"
  shows "\<exists>x'. hash_double_loop m e x = hash_double_loop (m * 2 ^ 28 mod 2 ^ 53) (e - 28) x' \<and>
    uint x' < MODULUS \<and> uint x' = (uint x * 2 ^ 28 + int (m * 2 ^ 28 div 2 ^ 53)) mod MODULUS"
proof -
  define y where "y = m * 2 ^ 28 div 2 ^ 53"
  define x2 where "x2 = rotate61 x 28 + of_nat y"
  define x3 where "x3 = (if uint x2 \<ge> MODULUS then x2 - word_of_int MODULUS else x2)"
  have y: "y < 2 ^ 28"
    using m(2) by (simp add: y_def)
  have r: "uint (rotate61 x 28) = uint x * 2 ^ 28 mod MODULUS"
    using uint_rotate61 [OF x, of 28] by simp
  have x2: "uint x2 = uint x * 2 ^ 28 mod MODULUS + int y"
  proof -
    have "uint x * 2 ^ 28 mod MODULUS < MODULUS"
      by (simp add: MODULUS_def)
    moreover have "int y < 2 ^ 28"
      using y by (simp flip: of_nat_less_iff)
    ultimately have "uint x * 2 ^ 28 mod MODULUS + int y < 2 ^ 64"
      by (simp add: MODULUS_def)
    moreover have "0 \<le> uint x * 2 ^ 28 mod MODULUS + int y"
      by (simp add: MODULUS_def)
    moreover have "uint (of_nat y :: u64) = int y"
      using y by (simp add: unsigned_of_nat take_bit_nat_eq_self)
    ultimately show ?thesis
      unfolding x2_def uint_word_ariths r by (simp only: mod_pos_pos_trivial len_bit0 len_num1) simp
  qed
  have x3: "uint x3 = (uint x * 2 ^ 28 + int y) mod MODULUS"
  proof -
    define z where "z = uint x * 2 ^ 28 mod MODULUS"
    have z: "0 \<le> z" "z < MODULUS" "uint x2 = z + int y"
      by (simp_all add: z_def MODULUS_def x2)
    have "(uint x * 2 ^ 28 + int y) mod MODULUS = (z + int y) mod MODULUS"
      by (simp add: z_def mod_simps)
    also have "\<dots> = uint x3"
    proof (cases "z + int y \<ge> MODULUS")
      case True
      have "z + int y - MODULUS < 2 ^ 64"
        using z(2) y by (simp add: MODULUS_def)
      then have "uint x3 = z + int y - MODULUS"
        using True z unfolding x3_def by (simp add: uint_word_ariths MODULUS_def mod_pos_pos_trivial)
      moreover have "(z + int y) mod MODULUS = (z + int y - MODULUS) mod MODULUS"
        by simp
      moreover have "(z + int y - MODULUS) mod MODULUS = z + int y - MODULUS"
        using True z(2) y by (intro mod_pos_pos_trivial) (simp_all add: MODULUS_def)
      ultimately show ?thesis by (simp only:)
    next
      case False
      then show ?thesis using z unfolding x3_def by simp
    qed
    finally show ?thesis by simp
  qed
  have "hash_double_loop m e x = hash_double_loop (m * 2 ^ 28 mod 2 ^ 53) (e - 28) x3"
    using m(1) by (subst hash_double_loop.simps) (simp add: x3_def x2_def y_def Let_def)
  then show ?thesis
    using x3 unfolding y_def by (intro exI [of _ x3]) (simp add: MODULUS_def)
qed

text \<open>Powers of two modulo \<open>2 ^ 61 - 1\<close>: the exponent counts modulo 61, negative ones included.\<close>

definition pow2m :: "int \<Rightarrow> int" where
  "pow2m z = 2 ^ nat (z mod 61)"

lemma pow61_power: "((2 :: int) ^ 61) ^ q mod MODULUS = 1"
proof (induction q)
  case (Suc q)
  have "((2 :: int) ^ 61) ^ Suc q mod MODULUS = (2 ^ 61 mod MODULUS) * ((2 ^ 61) ^ q mod MODULUS) mod MODULUS"
    unfolding power_Suc by (rule mod_mult_eq [symmetric])
  then show ?case
    unfolding Suc.IH pow61 by (simp add: MODULUS_def)
qed (simp add: MODULUS_def)

lemma pow2_mod: "(2 :: int) ^ n mod MODULUS = 2 ^ (n mod 61) mod MODULUS"
proof -
  have "(2 :: int) ^ n = 2 ^ (n mod 61) * (2 ^ 61) ^ (n div 61)"
    by (metis mod_mult_div_eq power_add power_mult)
  then have "(2 :: int) ^ n mod MODULUS = 2 ^ (n mod 61) * ((2 ^ 61) ^ (n div 61) mod MODULUS) mod MODULUS"
    by (simp only: mod_mult_right_eq)
  also have "(2 ^ 61) ^ (n div 61) mod MODULUS = 1"
    by (rule pow61_power)
  finally show ?thesis by simp
qed

lemma pow2m_add: "pow2m (a + b) mod MODULUS = pow2m a * pow2m b mod MODULUS"
proof -
  have "pow2m a * pow2m b = 2 ^ (nat (a mod 61) + nat (b mod 61))"
    by (simp add: pow2m_def power_add)
  moreover have "(nat (a mod 61) + nat (b mod 61)) mod 61 = nat ((a + b) mod 61)"
  proof -
    have "nat (a mod 61) + nat (b mod 61) = nat (a mod 61 + b mod 61)"
      by (simp add: nat_add_distrib)
    then have "(nat (a mod 61) + nat (b mod 61)) mod 61 = nat ((a mod 61 + b mod 61) mod 61)"
      by (simp add: nat_mod_distrib)
    then show ?thesis by (simp add: mod_add_eq)
  qed
  ultimately show ?thesis
    using pow2_mod [of "nat (a mod 61) + nat (b mod 61)"] by (simp add: pow2m_def)
qed

lemma pow2m_nat: "pow2m (int n) mod MODULUS = 2 ^ n mod MODULUS"
  by (simp add: pow2m_def pow2_mod [of n] nat_mod_distrib)

lemma e_mod_eq: "2 ^ e_mod e = pow2m e"
proof (cases "e \<ge> 0")
  case False
  have "60 - (- 1 - e) mod 61 = e mod 61"
  proof -
    have "- 1 - e = - (e + 1)" by simp
    then show ?thesis
      using minus_mod_int_eq [of 61 "e + 1"] by (simp only:) simp
  qed
  then have "60 - nat ((- 1 - e) mod 61) = nat (e mod 61)"
    by linarith
  then show ?thesis
    using False by (simp add: e_mod_def pow2m_def HASH_BITS_def)
qed (simp add: e_mod_def pow2m_def)

lemma e_mod_le: "e_mod e \<le> 61"
  using pos_mod_bound [of 61 e] by (auto simp: e_mod_def HASH_BITS_def nat_le_iff)

lemma hash_double_loop_ok:
  assumes m: "m < 2 ^ 53"
  shows "\<exists>j X x. hash_double_loop m e 0 = Some (x, e - 28 * int j) \<and>
    uint x = X mod MODULUS \<and> X * 2 ^ 53 = int m * 2 ^ (28 * j)"
proof (cases "m = 0")
  case True
  then show ?thesis
    by (intro exI [of _ 0]) (simp add: hash_double_loop.simps)
next
  case False
  define y1 m1 where "y1 = m * 2 ^ 28 div 2 ^ 53" and "m1 = m * 2 ^ 28 mod 2 ^ 53"
  have e1: "y1 * 2 ^ 53 + m1 = m * 2 ^ 28"
    unfolding y1_def m1_def by (rule div_mult_mod_eq)
  obtain x1 where x1: "hash_double_loop m e 0 = hash_double_loop m1 (e - 28) x1"
    "uint x1 < MODULUS" "uint x1 = int y1 mod MODULUS"
    using hash_double_step [of m 0 e] False m by (auto simp: y1_def m1_def MODULUS_def)
  show ?thesis
  proof (cases "m1 = 0")
    case True
    then have "int (y1 * 2 ^ 53) = int (m * 2 ^ 28)"
      using e1 by (simp only: add_0_right)
    then have "int y1 * 2 ^ 53 = int m * 2 ^ (28 * 1)"
      by simp
    then show ?thesis
      using x1 True by (intro exI [of _ 1] exI [of _ "int y1"] exI [of _ x1]) (simp add: hash_double_loop.simps)
  next
    case m1: False
    define y2 m2 where "y2 = m1 * 2 ^ 28 div 2 ^ 53" and "m2 = m1 * 2 ^ 28 mod 2 ^ 53"
    have "m1 < 2 ^ 53" by (simp add: m1_def)
    then obtain x2 where x2: "hash_double_loop m1 (e - 28) x1 = hash_double_loop m2 (e - 28 - 28) x2"
      "uint x2 = (uint x1 * 2 ^ 28 + int y2) mod MODULUS"
      using hash_double_step [of m1 x1 "e - 28"] m1 x1(2) unfolding y2_def m2_def by blast
    have "m2 = m * 2 ^ 56 mod 2 ^ 53"
      unfolding m2_def m1_def mod_mult_left_eq by (simp add: mult.assoc)
    then have m2: "m2 = 0" by simp
    have "y2 * 2 ^ 53 = m1 * 2 ^ 28"
      using div_mult_mod_eq [of "m1 * 2 ^ 28" "2 ^ 53"] m2 unfolding y2_def m2_def by simp
    then have "(y1 * 2 ^ 28 + y2) * 2 ^ 53 = m * 2 ^ (28 * 2)"
      using e1 by (simp add: algebra_simps)
    then have "int ((y1 * 2 ^ 28 + y2) * 2 ^ 53) = int (m * 2 ^ (28 * 2))"
      by (simp only:)
    then have X: "(int y1 * 2 ^ 28 + int y2) * 2 ^ 53 = int m * 2 ^ (28 * 2)"
      by simp
    have "uint x2 = (int y1 * 2 ^ 28 + int y2) mod MODULUS"
      unfolding x2(2) x1(3) by (rule mod_add_cong [OF mod_mult_left_eq refl])
    then show ?thesis
      using X x1(1) x2(1) m2
      by (intro exI [of _ 2] exI [of _ "int y1 * 2 ^ 28 + int y2"] exI [of _ x2])
        (simp add: hash_double_loop.simps)
  qed
qed

lemma mulP: "a mod MODULUS = b mod MODULUS \<Longrightarrow> c * a mod MODULUS = c * b mod MODULUS"
  by (metis mod_mult_right_eq)

lemma subnormal_bits:
  assumes "0 < f" "f < (2 :: nat) ^ 52"
  shows "bit_length f \<le> 52" "f * 2 ^ (53 - bit_length f) < 2 ^ 53"
proof -
  define l where "l = bit_length f"
  have l: "2 ^ (l - 1) \<le> f" "f < 2 ^ l"
    using bit_length_bounds [OF assms(1)] by (simp_all add: l_def)
  then have "(2 :: nat) ^ (l - 1) < 2 ^ 52"
    using assms(2) by linarith
  then have l52: "l \<le> 52"
    using power_less_imp_less_exp [of "2 :: nat" "l - 1" 52] by simp
  have "f * 2 ^ (53 - l) < 2 ^ l * 2 ^ (53 - l)"
    using l(2) by simp
  also have "\<dots> = 2 ^ 53"
    using l52 by (simp flip: power_add)
  finally show "f * 2 ^ (53 - bit_length f) < 2 ^ 53"
    by (simp add: l_def)
  from l52 show "bit_length f \<le> 52" by (simp add: l_def)
qed

lemma f64_frac_nat: "nat (f64_frac v) < 2 ^ 52"
  using f64_frac_bounds [of v] by (simp add: nat_less_iff)

lemma frexp_bound:
  assumes "frexp v = (m, e)"
  shows "m < 2 ^ 53"
  using assms f64_frac_nat [of v] subnormal_bits(2) [of "nat (f64_frac v)"]
  by (auto simp: frexp_def Let_def split: if_splits)

lemma frexp_value:
  assumes "frexp v = (m, e)"
  shows "int m * pow2m (e - 53) mod MODULUS = f64_mant v * pow2m (f64_pow v) mod MODULUS"
proof (cases "f64_exp v = 0")
  case False
  then have "int m = f64_mant v" "e - 53 = f64_pow v"
    using assms f64_frac_bounds [of v] by (auto simp: frexp_def f64_mant_def f64_pow_def Let_def)
  then show ?thesis by simp
next
  case True
  define f where "f = nat (f64_frac v)"
  have mp: "f64_mant v = int f" "f64_pow v = - 1074"
    using True f64_frac_bounds [of v] by (simp_all add: f64_mant_def f64_pow_def f_def)
  show ?thesis
  proof (cases "f = 0")
    case zero: True
    then have "m = 0"
      using assms True by (simp add: frexp_def Let_def f_def [symmetric])
    then show ?thesis by (simp add: mp zero)
  next
    case nz: False
    define l where "l = bit_length f"
    have l: "l \<le> 52"
      using subnormal_bits(1) [of f] nz f64_frac_nat [of v] by (simp add: f_def l_def)
    have m: "m = f * 2 ^ (53 - l)" "e = int l - 1074"
      using assms True nz by (simp_all add: frexp_def Let_def f_def [symmetric] l_def)
    have "2 ^ (53 - l) * pow2m (e - 53) mod MODULUS = pow2m (int (53 - l)) * pow2m (e - 53) mod MODULUS"
      by (metis pow2m_nat mod_mult_left_eq)
    also have "\<dots> = pow2m (int (53 - l) + (e - 53)) mod MODULUS"
      by (rule pow2m_add [symmetric])
    also have "int (53 - l) + (e - 53) = - 1074"
      using l by (simp add: m(2) of_nat_diff)
    finally have "int f * (2 ^ (53 - l) * pow2m (e - 53)) mod MODULUS = int f * pow2m (- 1074) mod MODULUS"
      by (rule mulP)
    then show ?thesis
      by (simp add: mp m(1) mult.assoc)
  qed
qed

definition f64_hash :: "f64 \<Rightarrow> int" where
  "f64_hash v = (if f64_sign v then - 1 else 1) * (f64_mant v * pow2m (f64_pow v) mod MODULUS)"

lemma rotated_value:
  assumes X: "X * 2 ^ 53 = int m * 2 ^ (28 * j)"
  shows "X * pow2m (e - 28 * int j) mod MODULUS = int m * pow2m (e - 53) mod MODULUS"
proof -
  have "X * pow2m (e - 28 * int j) mod MODULUS = X * pow2m (e - 28 * int j) * (2 ^ 53 * 2 ^ 8) mod MODULUS"
  proof -
    have "(2 :: int) ^ 53 * 2 ^ 8 mod MODULUS = 1 mod MODULUS"
      by (simp add: MODULUS_def)
    then show ?thesis
      using mulP [of "2 ^ 53 * 2 ^ 8" 1 "X * pow2m (e - 28 * int j)"] by (simp only: mult_1_right)
  qed
  also have "X * pow2m (e - 28 * int j) * (2 ^ 53 * 2 ^ 8) = int m * (2 ^ (28 * j + 8) * pow2m (e - 28 * int j))"
  proof -
    have "X * pow2m (e - 28 * int j) * (2 ^ 53 * 2 ^ 8) = (X * 2 ^ 53) * (2 ^ 8 * pow2m (e - 28 * int j))"
      by (simp only: ac_simps)
    then show ?thesis
      unfolding X by (simp add: power_add ac_simps)
  qed
  also have "\<dots> mod MODULUS = int m * pow2m (e - 53) mod MODULUS"
  proof (rule mulP)
    have "2 ^ (28 * j + 8) * pow2m (e - 28 * int j) mod MODULUS
        = pow2m (int (28 * j + 8)) * pow2m (e - 28 * int j) mod MODULUS"
      by (metis pow2m_nat mod_mult_left_eq)
    also have "\<dots> = pow2m (int (28 * j + 8) + (e - 28 * int j)) mod MODULUS"
      by (rule pow2m_add [symmetric])
    also have "int (28 * j + 8) + (e - 28 * int j) = (e - 53) + 61"
      by simp
    also have "pow2m (e - 53 + 61) = pow2m (e - 53)"
      unfolding pow2m_def mod_add_self2 ..
    finally show "2 ^ (28 * j + 8) * pow2m (e - 28 * int j) mod MODULUS = pow2m (e - 53) mod MODULUS" .
  qed
  finally show ?thesis .
qed

lemma hash_double_finite:
  assumes "is_finite v"
  shows "hash_double v = Some (fold_minus_one (word_of_int (f64_hash v)))"
proof -
  obtain m e where me: "frexp v = (m, e)" by fastforce
  obtain j X x where l: "hash_double_loop m e 0 = Some (x, e - 28 * int j)" "uint x = X mod MODULUS"
    "X * 2 ^ 53 = int m * 2 ^ (28 * j)"
    using hash_double_loop_ok [OF frexp_bound [OF me]] by blast
  define k where "k = e_mod (e - 28 * int j)"
  have "uint x < MODULUS" unfolding l(2) by (simp add: MODULUS_def)
  then have "uint (rotate61 x k) = uint x * 2 ^ k mod MODULUS"
    unfolding k_def by (rule uint_rotate61) (rule e_mod_le)
  also have "\<dots> = X * pow2m (e - 28 * int j) mod MODULUS"
    unfolding l(2) k_def e_mod_eq by (rule mod_mult_left_eq)
  also have "\<dots> = f64_mant v * pow2m (f64_pow v) mod MODULUS"
    unfolding rotated_value [OF l(3)] by (rule frexp_value [OF me])
  finally have r: "rotate61 x k = word_of_int (f64_mant v * pow2m (f64_pow v) mod MODULUS)"
    by (metis word_of_int_uint)
  have "m = 0 \<Longrightarrow> f64_mant v = 0"
    using me f64_frac_bounds(1) [of v]
    by (auto simp: frexp_def Let_def f64_mant_def simp del: f64_frac_bounds split: if_splits)
  then show ?thesis
    using assms me l(1) r unfolding k_def
    by (auto simp: hash_double_def f64_hash_def)
qed

section \<open>One hash for equal numbers\<close>

text \<open>\<open>v\<close> is the float with the integer value \<open>n\<close>.\<close>

definition f64_is_int :: "f64 \<Rightarrow> int \<Rightarrow> bool" where
  "f64_is_int v n \<longleftrightarrow> is_finite v \<and>
     (if f64_pow v \<ge> 0 then f64_mant v * 2 ^ nat (f64_pow v) = \<bar>n\<bar>
      else f64_mant v = \<bar>n\<bar> * 2 ^ nat (- f64_pow v)) \<and> (n < 0 \<longrightarrow> f64_sign v) \<and> (n > 0 \<longrightarrow> \<not> f64_sign v)"

lemma f64_is_int_hash:
  assumes "f64_is_int v n"
  shows "f64_mant v * pow2m (f64_pow v) mod MODULUS = \<bar>n\<bar> mod MODULUS"
proof (cases "f64_pow v \<ge> 0")
  case True
  have "f64_mant v * pow2m (f64_pow v) mod MODULUS = f64_mant v * 2 ^ nat (f64_pow v) mod MODULUS"
    using True pow2m_nat [of "nat (f64_pow v)"] by (intro mulP) simp
  then show ?thesis using assms True by (simp add: f64_is_int_def)
next
  case False
  define p where "p = nat (- f64_pow v)"
  have p: "f64_pow v = - int p" "f64_mant v = \<bar>n\<bar> * 2 ^ p"
    using False assms by (simp_all add: p_def f64_is_int_def)
  have "2 ^ p * pow2m (- int p) mod MODULUS = pow2m (int p) * pow2m (- int p) mod MODULUS"
    by (metis pow2m_nat mod_mult_left_eq)
  also have "\<dots> = 1 mod MODULUS"
    using pow2m_add [of "int p" "- int p"] by (simp add: pow2m_def)
  finally have "\<bar>n\<bar> * (2 ^ p * pow2m (- int p)) mod MODULUS = \<bar>n\<bar> * 1 mod MODULUS"
    by (rule mulP)
  then show ?thesis by (simp add: p mult.assoc)
qed

lemma hash_double_int:
  assumes "f64_is_int v n"
  shows "hash_double v = Some (hash_bigint n)"
proof -
  have "word_of_int (f64_hash v) = (word_of_int (int_hash n) :: i64)"
    using f64_is_int_hash [OF assms] assms
    by (cases n "0 :: int" rule: linorder_cases)
      (auto simp: f64_hash_def int_hash_def f64_is_int_def)
  then show ?thesis
    using hash_double_finite [of v] assms by (simp add: hash_bigint_int_hash f64_is_int_def)
qed

lemma mulmod_power: "0 < m \<Longrightarrow> powmod_loop b e m r mod m = r * b ^ e mod m"
proof (induction b e m r rule: powmod_loop.induct)
  case (1 b e m r)
  show ?case
  proof (cases "e = 0")
    case False
    define r' where "r' = (if e mod 2 = 1 then mulmod r b m else r)"
    have "powmod_loop b e m r mod m = r' * mulmod b b m ^ (e div 2) mod m"
      using 1 False by (simp add: powmod_loop.simps [of b e] r'_def)
    also have "\<dots> = (r' mod m) * ((b * b) ^ (e div 2) mod m) mod m"
      unfolding mulmod_def by (metis mod_mult_eq power_mod)
    also have "\<dots> = (if e mod 2 = 1 then r * b else r) * (b * b) ^ (e div 2) mod m"
      unfolding r'_def mulmod_def mod_mult_eq by (simp add: mod_mult_left_eq)
    also have "(if e mod 2 = 1 then r * b else r) * (b * b) ^ (e div 2) = r * b ^ e"
    proof -
      have "b ^ e = b ^ (e mod 2) * (b * b) ^ (e div 2)"
        by (metis mod_mult_div_eq power2_eq_square power_add power_mult)
      then show ?thesis by (cases "e mod 2 = 1") auto
    qed
    finally show ?thesis .
  qed (simp add: powmod_loop.simps)
qed

lemma powmod_loop_less: "r < m \<Longrightarrow> powmod_loop b e m r < m"
  by (induction b e m r rule: powmod_loop.induct) (simp add: powmod_loop.simps mulmod_def)

lemma powmod_power: "1 < m \<Longrightarrow> powmod b e m = b ^ e mod m"
  using mulmod_power [of m "b mod m" e 1] powmod_loop_less [of 1 m "b mod m" e]
  by (simp add: powmod_def power_mod)

lemma decimal_inverse:
  "10 ^ s * (10 ^ s) ^ (HASH_MODULUS - 2) mod HASH_MODULUS = 1"
proof -
  have "Suc (HASH_MODULUS - 2) = 2 ^ 61 - 2"
    by (simp add: HASH_MODULUS_def)
  then have "(10 :: nat) ^ s * (10 ^ s) ^ (HASH_MODULUS - 2) = (10 ^ (2 ^ 61 - 2)) ^ s"
    by (metis power_Suc power_mult mult.commute)
  also have "\<dots> mod HASH_MODULUS = (10 ^ (2 ^ 61 - 2) mod HASH_MODULUS) ^ s mod HASH_MODULUS"
    by (rule power_mod [symmetric])
  also have "10 ^ (2 ^ 61 - 2) mod HASH_MODULUS = 1"
    unfolding HASH_MODULUS_def by (rule ten_fermat)
  finally show ?thesis by (simp add: HASH_MODULUS_def)
qed

text \<open>A decimal \<open>mantissa * 10 ^ (- scale)\<close> with the integer value \<open>n\<close>.\<close>

definition decimal_is_int :: "int \<Rightarrow> int \<Rightarrow> int \<Rightarrow> bool" where
  "decimal_is_int mantissa scale n \<longleftrightarrow>
     (if scale \<ge> 0 then mantissa = n * 10 ^ nat scale else n = mantissa * 10 ^ nat (- scale))"

lemma rational_hash_int:
  assumes "n_abs_mod * powmod d_mod (HASH_MODULUS - 2) HASH_MODULUS mod HASH_MODULUS = nat (\<bar>n\<bar> mod MODULUS)"
    and "d_mod \<noteq> 0" "negative \<longleftrightarrow> n < 0"
  shows "rational_hash n_abs_mod d_mod negative = hash_bigint n"
proof -
  have "0 \<le> \<bar>n\<bar> mod MODULUS" by (simp add: MODULUS_def)
  then have "(of_nat (nat (\<bar>n\<bar> mod MODULUS)) :: i64) = word_of_int (\<bar>n\<bar> mod MODULUS)"
    by simp
  then show ?thesis
    using assms by (simp add: rational_hash_def hash_bigint_def mulmod_def Let_def)
qed

lemma decimal_hash_int:
  assumes "decimal_is_int mantissa scale n"
  shows "decimal_hash_slot mantissa scale = hash_bigint n"
proof (cases "scale \<ge> 0")
  case True
  define s where "s = nat scale"
  have p: "1 < HASH_MODULUS" by (simp add: HASH_MODULUS_def)
  have d: "powmod 10 s HASH_MODULUS = 10 ^ s mod HASH_MODULUS"
    by (rule powmod_power [OF p])
  have inv: "(10 ^ s mod HASH_MODULUS) ^ (HASH_MODULUS - 2) mod HASH_MODULUS = (10 ^ s) ^ (HASH_MODULUS - 2) mod HASH_MODULUS"
    by (rule power_mod)
  have m: "\<bar>mantissa\<bar> = \<bar>n\<bar> * 10 ^ s" "mantissa < 0 \<longleftrightarrow> n < 0"
    using assms True by (auto simp: decimal_is_int_def s_def abs_mult mult_less_0_iff)
  define a where "a = nat \<bar>n\<bar>"
  have a: "\<bar>n\<bar> = int a" by (simp add: a_def)
  have b: "bigint_abs_mod mantissa = a * 10 ^ s mod HASH_MODULUS"
  proof -
    have "int a * 10 ^ s = int (a * 10 ^ s)" by simp
    then show ?thesis
      unfolding bigint_abs_mod_def m(1) a by (simp only: zmod_int [symmetric] nat_int)
  qed
  have "bigint_abs_mod mantissa * powmod (10 ^ s mod HASH_MODULUS) (HASH_MODULUS - 2) HASH_MODULUS mod HASH_MODULUS
      = a * (10 ^ s * (10 ^ s) ^ (HASH_MODULUS - 2)) mod HASH_MODULUS"
    unfolding b powmod_power [OF p] inv by (simp only: mod_mult_eq mult.assoc)
  also have "\<dots> = a * (10 ^ s * (10 ^ s) ^ (HASH_MODULUS - 2) mod HASH_MODULUS) mod HASH_MODULUS"
    by (rule mod_mult_right_eq [symmetric])
  also have "\<dots> = a mod HASH_MODULUS"
    unfolding decimal_inverse by simp
  also have "\<dots> = nat (\<bar>n\<bar> mod MODULUS)"
    by (simp add: a MODULUS_def HASH_MODULUS_def nat_mod_distrib)
  finally have "rational_hash (bigint_abs_mod mantissa) (10 ^ s mod HASH_MODULUS) (mantissa < 0) = hash_bigint n"
  proof (rule rational_hash_int)
    show "10 ^ s mod HASH_MODULUS \<noteq> 0"
    proof
      assume "10 ^ s mod HASH_MODULUS = 0"
      then have "10 ^ s * (10 ^ s) ^ (HASH_MODULUS - 2) mod HASH_MODULUS = 0"
        by (metis mod_mult_left_eq mult_0 mod_0)
      then show False unfolding decimal_inverse by simp
    qed
  qed (rule m(2))
  then show ?thesis
    using True by (simp add: decimal_hash_slot_def s_def [symmetric] d Let_def)
next
  case False
  define s where "s = nat (- scale)"
  have p: "1 < HASH_MODULUS" by (simp add: HASH_MODULUS_def)
  have n: "\<bar>n\<bar> = \<bar>mantissa\<bar> * 10 ^ s" "mantissa < 0 \<longleftrightarrow> n < 0"
    using assms False by (auto simp: decimal_is_int_def s_def abs_mult mult_less_0_iff)
  define a where "a = nat \<bar>mantissa\<bar>"
  have a: "\<bar>mantissa\<bar> = int a" by (simp add: a_def)
  have "mulmod (bigint_abs_mod mantissa) (powmod 10 s HASH_MODULUS) HASH_MODULUS = a * 10 ^ s mod HASH_MODULUS"
    unfolding mulmod_def bigint_abs_mod_def a powmod_power [OF p] by (simp add: nat_mod_distrib mod_mult_eq)
  also have "\<dots> = nat (\<bar>n\<bar> mod MODULUS)"
    unfolding n(1) a by (simp add: MODULUS_def HASH_MODULUS_def nat_mod_distrib nat_mult_distrib nat_power_eq)
  finally have eq: "mulmod (bigint_abs_mod mantissa) (powmod 10 s HASH_MODULUS) HASH_MODULUS = nat (\<bar>n\<bar> mod MODULUS)" .
  have "rational_hash (mulmod (bigint_abs_mod mantissa) (powmod 10 s HASH_MODULUS) HASH_MODULUS) 1 (mantissa < 0)
      = hash_bigint n"
  proof (rule rational_hash_int)
    have one: "powmod 1 (HASH_MODULUS - 2) HASH_MODULUS = 1"
      by (simp add: powmod_power [OF p], simp add: HASH_MODULUS_def)
    show "mulmod (bigint_abs_mod mantissa) (powmod 10 s HASH_MODULUS) HASH_MODULUS *
        powmod 1 (HASH_MODULUS - 2) HASH_MODULUS mod HASH_MODULUS = nat (\<bar>n\<bar> mod MODULUS)"
      unfolding eq one by (simp add: MODULUS_def HASH_MODULUS_def nat_mod_distrib)
  qed (use n(2) in simp_all)
  then show ?thesis
    using False by (simp add: decimal_hash_slot_def s_def [symmetric] Let_def)
qed

lemma fraction_hash_int: "fraction_hash_slot n 1 = hash_bigint n"
proof -
  have p: "1 < HASH_MODULUS" by (simp add: HASH_MODULUS_def)
  have one: "bigint_abs_mod 1 = 1" "powmod 1 (HASH_MODULUS - 2) HASH_MODULUS = 1"
    by (simp_all add: bigint_abs_mod_def powmod_power [OF p], simp_all add: HASH_MODULUS_def)
  show ?thesis
    unfolding fraction_hash_slot_def one(1)
  proof (rule rational_hash_int)
    show "bigint_abs_mod n * powmod 1 (HASH_MODULUS - 2) HASH_MODULUS mod HASH_MODULUS = nat (\<bar>n\<bar> mod MODULUS)"
      unfolding one(2) by (simp add: bigint_abs_mod_def MODULUS_def HASH_MODULUS_def nat_mod_distrib)
  qed simp_all
qed

section \<open>Properties of \<open>python_hash\<close>\<close>

lemma fold_minus_one_ne: "fold_minus_one h \<noteq> - 1"
  by (simp add: fold_minus_one_def)

lemma hash_double_ne: "hash_double v = Some h \<Longrightarrow> h \<noteq> - 1"
  by (auto simp: hash_double_def HASH_INF_def fold_minus_one_def Let_def
      split: if_splits option.splits prod.splits)

lemma hash_tuple_ne: "hash_tuple hs \<noteq> - 1"
  by (simp add: hash_tuple_def Let_def)

lemma hash_frozenset_ne: "hash_frozenset hs \<noteq> - 1"
  by (simp add: hash_frozenset_def Let_def)

lemma hash_complex_ne: "hash_complex re im = Some h \<Longrightarrow> h \<noteq> - 1"
  by (auto simp: hash_complex_def Let_def split: option.splits if_splits)

lemma hash_bytes_ne: "hash_bytes sip b \<noteq> - 1"
  by (simp add: hash_bytes_def fold_minus_one_ne)

lemma int_hashes_ne: "hash_i64 i \<noteq> - 1" "hash_bigint n \<noteq> - 1"
  by (simp_all add: hash_i64_def hash_bigint_def fold_minus_one_ne Let_def)

lemma rational_hash_ne: "rational_hash a d neg \<noteq> - 1"
  unfolding rational_hash_def Let_def by (rule fold_minus_one_ne)

lemma number_hashes_ne:
  "decimal_hash_slot m s \<noteq> - 1" "fraction_hash_slot n d \<noteq> - 1" "timedelta_hash us \<noteq> - 1"
  unfolding decimal_hash_slot_def fraction_hash_slot_def timedelta_hash_def Let_def
  by (simp_all add: rational_hash_ne hash_tuple_ne split: prod.split)

lemmas hash_ne = hash_bytes_ne int_hashes_ne number_hashes_ne fold_minus_one_ne hash_double_ne hash_tuple_ne hash_frozenset_ne hash_complex_ne

text \<open>C5: the hash of a hashable value is never \<open>-1\<close>, the value CPython reserves for errors:
  every branch of \<open>python_hash\<close> folds or remaps it.\<close>

theorem python_hash_not_reserved:
  assumes "python_hash sip v = Some h"
  shows "h \<noteq> - 1"
proof -
  have "NONE_HASH \<noteq> - 1" by (simp add: NONE_HASH_def)
  then show ?thesis
    using assms unfolding python_hash.simps [of sip v]
    by (cases v) (simp_all, auto simp: hash_ne split: option.splits if_splits)
qed

theorem python_hash_not_reserved_witness:
  "python_hash (\<lambda>b. 0) (VInt (- 1)) = Some (- 2) \<and> (- 2 :: i64) \<noteq> - 1"
proof -
  have "python_hash (\<lambda>b. 0) (VInt (- 1)) = Some (- 2)"
    by (simp add: python_hash.simps hash_i64_def MODULUS_def fold_minus_one_def)
  with python_hash_not_reserved [OF this] show ?thesis by simp
qed



text \<open>\<open>frozenset\<close> hashing does not depend on the order in which the table is iterated.\<close>

theorem frozenset_hash_order:
  assumes "mset hs = mset hs'"
  shows "hash_frozenset hs = hash_frozenset hs'"
proof -
  have "fold (\<lambda>h acc. acc XOR shuffle_bits h) hs 0 = fold (\<lambda>h acc. acc XOR shuffle_bits h) hs' 0"
    using assms by (intro fun_cong [OF fold_multiset_equiv]) (auto simp: fun_eq_iff ac_simps)
  moreover have "length hs = length hs'"
    using assms by (rule mset_eq_length)
  ultimately show ?thesis
    by (simp add: hash_frozenset_def foldl_conv_fold)
qed

theorem frozenset_hash_order_witness:
  "mset [1, 2, 3 :: i64] = mset [3, 1, 2] \<and> hash_frozenset [1, 2, 3] = hash_frozenset [3, 1, 2]"
proof -
  have "mset [1, 2, 3 :: i64] = mset [3, 1, 2]" by simp
  with frozenset_hash_order [OF this] show ?thesis by simp
qed

end
