(* ===== verification/Equality.thy ===== *)
theory Equality
  imports Complex_Main "HOL-Library.Signed_Division" Pyhash
begin

text \<open>
  Equality of values through the type-object dispatch of \<open>types.rs\<close>: the
  function \<open>recurse_eq\<close> with the equality slot of every type object, and the
  comparator \<open>values_equal\<close> of \<open>eval/operations.rs\<close> that the catch-all slot
  calls, both under the depth counter of \<open>cycle.rs\<close>.  Dictionary keys with
  their own equality (\<open>value.rs\<close>) are part of it, since comparing dictionaries
  looks keys up.

  The contents of shared containers come from an environment, a record that maps
  addresses to contents; it also holds the two functions of other crates that
  equality needs (SipHash-1-3 and the subtraction of an offset from a
  \<open>NaiveDateTime\<close>).

  The last section discharges the contract of the set table for the values with
  an exact hash.  Floats are excluded for a reason: comparing an integer with a
  float rounds the integer, so equality is not transitive there.
\<close>

section \<open>Shared storage\<close>

record env =
  list_at :: "addr \<Rightarrow> pyval list"
  dict_at :: "addr \<Rightarrow> (value_key \<times> pyval) list"
  set_at :: "addr \<Rightarrow> pyval set_body"
  bytes_at :: "addr \<Rightarrow> u8 list"
  fields_at :: "addr \<Rightarrow> (string \<times> pyval) list"
  siphash13 :: "u8 list \<Rightarrow> u64"
  datetime_sub :: "naive_datetime \<Rightarrow> int \<Rightarrow> naive_datetime"

definition set_items :: "env \<Rightarrow> pyval \<Rightarrow> pyval list option" where
  "set_items E v = (case v of
       VSet b \<Rightarrow> Some (body_iter_ordered (set_at E b))
     | VFrozenset b \<Rightarrow> Some (body_iter_ordered b)
     | _ \<Rightarrow> None)"

definition as_dict :: "pyval \<Rightarrow> addr option" where
  "as_dict v = (case v of VDict m \<Rightarrow> Some m | VOrderedDict m \<Rightarrow> Some m | _ \<Rightarrow> None)"

section \<open>Integers\<close>

definition int_from_bigint :: "int \<Rightarrow> pyval" where
  "int_from_bigint n = (case checked_i64 n of Some v \<Rightarrow> VInt v | None \<Rightarrow> VBigInt n)"

fun value_as_bigint :: "pyval \<Rightarrow> int option" where
  "value_as_bigint v = (case v of
       VInt i \<Rightarrow> Some (sint i)
     | VBigInt b \<Rightarrow> Some b
     | VBool b \<Rightarrow> Some (if b then 1 else 0)
     | VEnumMember c m inner k \<Rightarrow> if k = IntKind \<or> k = IntFlag then value_as_bigint inner else None
     | _ \<Rightarrow> None)"

declare value_as_bigint.simps [simp del]

definition value_as_i64 :: "pyval \<Rightarrow> i64 option" where
  "value_as_i64 v = (case v of
       VInt i \<Rightarrow> Some i
     | VBool b \<Rightarrow> Some (if b then 1 else 0)
     | VBigInt b \<Rightarrow> checked_i64 b
     | _ \<Rightarrow> None)"

section \<open>Dictionary keys\<close>

definition float_key_i64 :: "f64 \<Rightarrow> i64 option" where
  "float_key_i64 bits =
     (if is_finite bits \<and> f64_integral bits
      then let i = f64_as_i64 bits in if f64_eq (f64_of_int (sint i)) bits then Some i else None
      else None)"

text \<open>A \<open>BigDecimal\<close> of a mantissa and a scale, and the numerical value it compares by.\<close>

definition decimal_rat :: "int \<Rightarrow> int \<Rightarrow> rat" where
  "decimal_rat mantissa scale =
     (if scale \<ge> 0 then of_int mantissa / 10 ^ nat scale else of_int mantissa * 10 ^ nat (- scale))"

definition same_instant ::
  "env \<Rightarrow> naive_datetime \<Rightarrow> int option \<Rightarrow> naive_datetime \<Rightarrow> int option \<Rightarrow> bool" where
  "same_instant E a ta b tb = (case (ta, tb) of
       (None, None) \<Rightarrow> a = b
     | (Some oa, Some ob) \<Rightarrow> datetime_sub E a oa = datetime_sub E b ob
     | _ \<Rightarrow> False)"

definition instance_key_eq :: "(pyval \<Rightarrow> pyval \<Rightarrow> bool) \<Rightarrow> pyval \<Rightarrow> pyval \<Rightarrow> bool" where
  "instance_key_eq ve a b = (case (a, b) of
       (VInstance _ fa, VInstance _ fb) \<Rightarrow> fa = fb
     | (VFunction fa, VFunction fb) \<Rightarrow> fa = fb
     | (VLambda la, VLambda lb) \<Rightarrow> la = lb
     | _ \<Rightarrow> ve a b)"

declare value_key.case_cong [fundef_cong]

lemma size_in_list: "x \<in> set xs \<Longrightarrow> size x < Suc (size_list size xs)"
  by (simp add: size_list_estimation' less_Suc_eq_le)

function key_eq :: "env \<Rightarrow> (pyval \<Rightarrow> pyval \<Rightarrow> bool) \<Rightarrow> value_key \<Rightarrow> value_key \<Rightarrow> bool" where
  "key_eq E ve x y = (case x of
       KNone \<Rightarrow> (case y of KNone \<Rightarrow> True | _ \<Rightarrow> False)
     | KEllipsis \<Rightarrow> (case y of KEllipsis \<Rightarrow> True | _ \<Rightarrow> False)
     | KBool a \<Rightarrow> (case y of
           KBool b \<Rightarrow> a = b
         | KInt i \<Rightarrow> i = (if a then 1 else 0)
         | KBigInt n \<Rightarrow> n = (if a then 1 else 0)
         | KFloat bits \<Rightarrow> float_key_i64 bits = Some (if a then 1 else 0)
         | _ \<Rightarrow> False)
     | KInt a \<Rightarrow> (case y of
           KBool b \<Rightarrow> a = (if b then 1 else 0)
         | KInt b \<Rightarrow> a = b
         | KBigInt n \<Rightarrow> n = sint a
         | KFloat bits \<Rightarrow> float_key_i64 bits = Some a
         | _ \<Rightarrow> False)
     | KBigInt n \<Rightarrow> (case y of
           KBigInt m \<Rightarrow> n = m
         | KInt a \<Rightarrow> n = sint a
         | KBool b \<Rightarrow> n = (if b then 1 else 0)
         | KFloat bits \<Rightarrow> (case float_key_i64 bits of Some i \<Rightarrow> n = sint i | None \<Rightarrow> False)
         | _ \<Rightarrow> False)
     | KFloat bits \<Rightarrow> (case y of
           KFloat b \<Rightarrow> bits = b
         | KInt i \<Rightarrow> float_key_i64 bits = Some i
         | KBool b \<Rightarrow> float_key_i64 bits = Some (if b then 1 else 0)
         | KBigInt n \<Rightarrow> (case float_key_i64 bits of Some i \<Rightarrow> n = sint i | None \<Rightarrow> False)
         | _ \<Rightarrow> False)
     | KComplex ar ai \<Rightarrow> (case y of KComplex br bi \<Rightarrow> ar = br \<and> ai = bi | _ \<Rightarrow> False)
     | KString a \<Rightarrow> (case y of KString b \<Rightarrow> a = b | _ \<Rightarrow> False)
     | KTuple a \<Rightarrow> (case y of
           KTuple b \<Rightarrow> length a = length b \<and> list_all (\<lambda>(u, v). key_eq E ve u v) (zip a b)
         | _ \<Rightarrow> False)
     | KFrozenset a \<Rightarrow> (case y of
           KFrozenset b \<Rightarrow> length a = length b \<and> list_all (\<lambda>u. list_ex (\<lambda>v. key_eq E ve v u) b) a
         | _ \<Rightarrow> False)
     | KInstance _ a \<Rightarrow> (case y of KInstance _ b \<Rightarrow> instance_key_eq ve a b | _ \<Rightarrow> False)
     | KDate a \<Rightarrow> (case y of KDate b \<Rightarrow> a = b | _ \<Rightarrow> False)
     | KTime a \<Rightarrow> (case y of KTime b \<Rightarrow> a = b | _ \<Rightarrow> False)
     | KTimeDelta a \<Rightarrow> (case y of KTimeDelta b \<Rightarrow> a = b | _ \<Rightarrow> False)
     | KDecimal m s \<Rightarrow> (case y of KDecimal m' s' \<Rightarrow> decimal_rat m s = decimal_rat m' s' | _ \<Rightarrow> False)
     | KFraction n d \<Rightarrow> (case y of KFraction n' d' \<Rightarrow> n = n' \<and> d = d' | _ \<Rightarrow> False)
     | KDateTime a ta \<Rightarrow> (case y of KDateTime b tb \<Rightarrow> same_instant E a ta b tb | _ \<Rightarrow> False))"
  by pat_completeness auto
termination
proof (relation "measure (\<lambda>(E, ve, x, y). size x + size y)", goal_cases)
  case (2 E ve x y x9 x9a z za y1)
  then show ?case
    using size_in_list [OF set_zip_leftD] size_in_list [OF set_zip_rightD] by (fastforce intro: add_strict_mono)
next
  case (3 E ve x y x10 x10a z za)
  then show ?case
    using size_in_list [of z x10] size_in_list [of za x10a] by simp
qed simp

declare key_eq.simps [simp del]

definition dict_get :: "env \<Rightarrow> (pyval \<Rightarrow> pyval \<Rightarrow> bool) \<Rightarrow> (value_key \<times> pyval) list \<Rightarrow> value_key \<Rightarrow> pyval option" where
  "dict_get E ve m k = map_option snd (List.find (\<lambda>e. key_eq E ve k (fst e)) m)"

fun key_to_value :: "(pyval list \<Rightarrow> pyval set_body) \<Rightarrow> value_key \<Rightarrow> pyval" where
  "key_to_value set_of k = (case k of
       KNone \<Rightarrow> VNone
     | KEllipsis \<Rightarrow> VEllipsis
     | KBool b \<Rightarrow> VBool b
     | KInt i \<Rightarrow> VInt i
     | KBigInt i \<Rightarrow> int_from_bigint i
     | KFloat bits \<Rightarrow> VFloat bits
     | KComplex re im \<Rightarrow> VComplex re im
     | KString s \<Rightarrow> VString s
     | KTuple items \<Rightarrow> VTuple (List.map (key_to_value set_of) items)
     | KFrozenset items \<Rightarrow> VFrozenset (set_of (List.map (key_to_value set_of) items))
     | KInstance _ v \<Rightarrow> v
     | KDate d \<Rightarrow> VDate d
     | KTime t \<Rightarrow> VTime t
     | KTimeDelta m \<Rightarrow> VTimeDelta m
     | KDateTime dt tz \<Rightarrow> VDateTime dt tz
     | KDecimal m s \<Rightarrow> VDecimal m s Normal
     | KFraction n d \<Rightarrow> VFraction n d)"

declare key_to_value.simps [simp del]

section \<open>The shared comparator\<close>

text \<open>\<open>range_length\<close> computes with \<open>i64\<close>; a release build wraps.\<close>

definition range_length :: "i64 \<Rightarrow> i64 \<Rightarrow> i64 \<Rightarrow> nat" where
  "range_length start stop step =
     (let raw = (if 0 < sint step then sint (stop - start + step - 1) sdiv sint step
                 else if sint step < 0 then sint (start - stop - step - 1) sdiv sint (- step)
                 else 0)
      in nat (max 0 raw))"

definition trim :: "string \<Rightarrow> string" where
  "trim s = (let ws = (\<lambda>c. c \<in> {CHR '' '', CHR 0x09, CHR 0x0A, CHR 0x0B, CHR 0x0C, CHR 0x0D})
             in rev (dropWhile ws (rev (dropWhile ws s))))"

definition strip_prefix :: "string \<Rightarrow> string \<Rightarrow> string option" where
  "strip_prefix p s = (if take (length p) s = p then Some (drop (length p) s) else None)"

definition strip_suffix :: "string \<Rightarrow> string \<Rightarrow> string option" where
  "strip_suffix p s = map_option rev (strip_prefix (rev p) (rev s))"

text \<open>The scan of \<open>union_members\<close>: \<open>cur\<close> is the slice since \<open>start\<close>, reversed.\<close>

primrec split_members :: "nat \<Rightarrow> string \<Rightarrow> string \<Rightarrow> string list" where
  "split_members depth cur [] = [trim (rev cur)]"
| "split_members depth cur (c # cs) =
     (if c = CHR ''['' then split_members (depth + 1) (c # cur) cs
      else if c = CHR '']'' then split_members (depth - 1) (c # cur) cs
      else if c = CHR '','' \<and> depth = 0 then trim (rev cur) # split_members depth [] cs
      else split_members depth (c # cur) cs)"

definition union_members :: "string \<Rightarrow> string list option" where
  "union_members s = (case strip_prefix ''typing.Union['' s of
       None \<Rightarrow> None
     | Some r \<Rightarrow> map_option (split_members 0 []) (strip_suffix '']'' r))"

definition union_type_eq :: "string \<Rightarrow> string \<Rightarrow> bool" where
  "union_type_eq a b = (case (union_members a, union_members b) of
       (Some as, Some bs) \<Rightarrow>
         length as = length bs \<and> list_all (\<lambda>x. x \<in> set bs) as \<and> list_all (\<lambda>x. x \<in> set as) bs
     | _ \<Rightarrow> False)"

definition type_name_handle :: "pyval \<Rightarrow> string option" where
  "type_name_handle v = (case v of
       VExceptionType a \<Rightarrow> Some a | VType a \<Rightarrow> Some a | VClass a \<Rightarrow> Some a | VBuiltinName a \<Rightarrow> Some a
     | _ \<Rightarrow> None)"

definition elementwise_eq :: "(pyval \<Rightarrow> pyval \<Rightarrow> bool) \<Rightarrow> pyval list \<Rightarrow> pyval list \<Rightarrow> bool" where
  "elementwise_eq req a b \<longleftrightarrow> length a = length b \<and> list_all (\<lambda>(x, y). req x y) (zip a b)"

definition unordered_eq :: "(pyval \<Rightarrow> pyval \<Rightarrow> bool) \<Rightarrow> pyval list \<Rightarrow> pyval list \<Rightarrow> bool" where
  "unordered_eq req a b \<longleftrightarrow> length a = length b \<and> list_all (\<lambda>x. list_ex (\<lambda>y. req x y) b) a"

definition dict_content_eq ::
  "env \<Rightarrow> (pyval \<Rightarrow> pyval \<Rightarrow> bool) \<Rightarrow> (pyval \<Rightarrow> pyval \<Rightarrow> bool) \<Rightarrow>
   (value_key \<times> pyval) list \<Rightarrow> (value_key \<times> pyval) list \<Rightarrow> bool" where
  "dict_content_eq E ve req a b \<longleftrightarrow> length a = length b \<and>
     list_all (\<lambda>(k, v). case dict_get E ve b k of Some bv \<Rightarrow> req v bv | None \<Rightarrow> False) a"

definition ordered_content_eq ::
  "env \<Rightarrow> (pyval \<Rightarrow> pyval \<Rightarrow> bool) \<Rightarrow> (pyval \<Rightarrow> pyval \<Rightarrow> bool) \<Rightarrow>
   (value_key \<times> pyval) list \<Rightarrow> (value_key \<times> pyval) list \<Rightarrow> bool" where
  "ordered_content_eq E ve req a b \<longleftrightarrow> length a = length b \<and>
     list_all (\<lambda>((ka, va), (kb, vb)). key_eq E ve ka kb \<and> req va vb) (zip a b)"

definition fields_eq ::
  "(pyval \<Rightarrow> pyval \<Rightarrow> bool) \<Rightarrow> (string \<times> pyval) list \<Rightarrow> (string \<times> pyval) list \<Rightarrow> bool" where
  "fields_eq ve a b \<longleftrightarrow> length a = length b \<and>
     list_all (\<lambda>(name, va). case map_of b name of Some vb \<Rightarrow> ve va vb | None \<Rightarrow> False) a"

definition f64_of_bool :: "bool \<Rightarrow> f64" where
  "f64_of_bool b = (if b then f64_of_int 1 else 0)"

text \<open>One level of \<open>values_equal\<close>; \<open>ve\<close> is the comparator one level deeper.  The arms for enum
  members apply before the later ones because no earlier arm mentions an enum member.\<close>

definition values_equal_arms :: "env \<Rightarrow> (pyval \<Rightarrow> pyval \<Rightarrow> bool) \<Rightarrow> pyval \<Rightarrow> pyval \<Rightarrow> bool" where
  "values_equal_arms E ve left right = (case left of
       VNone \<Rightarrow> (case right of VNone \<Rightarrow> True | _ \<Rightarrow> False)
     | VEllipsis \<Rightarrow> (case right of VEllipsis \<Rightarrow> True | _ \<Rightarrow> False)
     | VNotImplemented \<Rightarrow> (case right of VNotImplemented \<Rightarrow> True | _ \<Rightarrow> False)
     | VBool a \<Rightarrow> (case right of
           VBool b \<Rightarrow> a = b
         | VInt i \<Rightarrow> i = (if a then 1 else 0)
         | VFloat f \<Rightarrow> f64_eq f (f64_of_bool a)
         | _ \<Rightarrow> False)
     | VInt a \<Rightarrow> (case right of
           VInt b \<Rightarrow> a = b
         | VBool b \<Rightarrow> a = (if b then 1 else 0)
         | VFloat f \<Rightarrow> f64_eq f (f64_of_int (sint a))
         | _ \<Rightarrow> False)
     | VFloat a \<Rightarrow> (case right of
           VFloat b \<Rightarrow> f64_eq a b
         | VBool b \<Rightarrow> f64_eq a (f64_of_bool b)
         | VInt i \<Rightarrow> f64_eq a (f64_of_int (sint i))
         | _ \<Rightarrow> False)
     | VString a \<Rightarrow> (case right of VString b \<Rightarrow> a = b | _ \<Rightarrow> False)
     | VBytes a \<Rightarrow> (case right of
           VBytes b \<Rightarrow> a = b
         | VByteArray b \<Rightarrow> bytes_at E b = a
         | _ \<Rightarrow> False)
     | VByteArray a \<Rightarrow> (case right of
           VByteArray b \<Rightarrow> a = b \<or> bytes_at E a = bytes_at E b
         | VBytes b \<Rightarrow> bytes_at E a = b
         | _ \<Rightarrow> False)
     | VFunction a \<Rightarrow> (case right of VFunction b \<Rightarrow> a = b | _ \<Rightarrow> False)
     | VLambda a \<Rightarrow> (case right of VLambda b \<Rightarrow> a = b | _ \<Rightarrow> False)
     | VList a \<Rightarrow> (case right of
           VList b \<Rightarrow> a = b \<or> elementwise_eq ve (list_at E a) (list_at E b) | _ \<Rightarrow> False)
     | VArray _ a \<Rightarrow> (case right of
           VArray _ b \<Rightarrow> a = b \<or> elementwise_eq ve (list_at E a) (list_at E b) | _ \<Rightarrow> False)
     | VDeque a _ \<Rightarrow> (case right of VDeque b _ \<Rightarrow> elementwise_eq ve a b | _ \<Rightarrow> False)
     | VTuple a \<Rightarrow> (case right of VTuple b \<Rightarrow> elementwise_eq ve a b | _ \<Rightarrow> False)
     | VOrderedDict a \<Rightarrow> (case right of
           VOrderedDict b \<Rightarrow> a = b \<or> ordered_content_eq E ve ve (dict_at E a) (dict_at E b)
         | VDict b \<Rightarrow> a = b \<or> dict_content_eq E ve ve (dict_at E a) (dict_at E b)
         | _ \<Rightarrow> False)
     | VDict a \<Rightarrow> (case as_dict right of
           Some b \<Rightarrow> a = b \<or> dict_content_eq E ve ve (dict_at E a) (dict_at E b) | None \<Rightarrow> False)
     | VSet a \<Rightarrow> (case set_items E right of
           Some b \<Rightarrow> unordered_eq ve (body_iter_ordered (set_at E a)) b | None \<Rightarrow> False)
     | VFrozenset a \<Rightarrow> (case set_items E right of
           Some b \<Rightarrow> unordered_eq ve (body_iter_ordered a) b | None \<Rightarrow> False)
     | VInstance c a \<Rightarrow> (case right of
           VInstance d b \<Rightarrow> c = d \<and> (a = b \<or> fields_eq ve (fields_at E a) (fields_at E b)) | _ \<Rightarrow> False)
     | VRePattern a \<Rightarrow> (case right of VRePattern b \<Rightarrow> a = b | _ \<Rightarrow> False)
     | VSlice a b c \<Rightarrow> (case right of VSlice a' b' c' \<Rightarrow> ve a a' \<and> ve b b' \<and> ve c c' | _ \<Rightarrow> False)
     | VDate a \<Rightarrow> (case right of VDate b \<Rightarrow> a = b | _ \<Rightarrow> False)
     | VTime a \<Rightarrow> (case right of VTime b \<Rightarrow> a = b | _ \<Rightarrow> False)
     | VTimeDelta a \<Rightarrow> (case right of VTimeDelta b \<Rightarrow> a = b | _ \<Rightarrow> False)
     | VDateTime a ta \<Rightarrow> (case right of VDateTime b tb \<Rightarrow> same_instant E a ta b tb | _ \<Rightarrow> False)
     | VTimeZone a \<Rightarrow> (case right of VTimeZone b \<Rightarrow> a = b | _ \<Rightarrow> False)
     | VRange sa pa ta \<Rightarrow> (case right of
           VRange sb pb tb \<Rightarrow>
             (let la = range_length sa pa ta in
              la = range_length sb pb tb \<and> (la = 0 \<or> sa = sb \<and> (la = 1 \<or> ta = tb)))
         | _ \<Rightarrow> False)
     | _ \<Rightarrow> (case (type_name_handle left, type_name_handle right) of
           (Some a, Some b) \<Rightarrow> a = b \<or> union_type_eq a b | _ \<Rightarrow> False))"

definition value_kind :: "enum_kind \<Rightarrow> bool" where
  "value_kind k \<longleftrightarrow> k = IntKind \<or> k = StrKind"

definition values_equal_step :: "env \<Rightarrow> (pyval \<Rightarrow> pyval \<Rightarrow> bool) \<Rightarrow> pyval \<Rightarrow> pyval \<Rightarrow> bool" where
  "values_equal_step E ve left right = (case left of
       VEnumMember c1 m1 v1 k1 \<Rightarrow> (case right of
           VEnumMember c2 m2 v2 k2 \<Rightarrow> c1 = c2 \<and> m1 = m2
         | _ \<Rightarrow> value_kind k1 \<and> ve v1 right)
     | _ \<Rightarrow> (case right of
           VEnumMember c2 m2 v2 k2 \<Rightarrow> value_kind k2 \<and> ve left v2
         | _ \<Rightarrow> values_equal_arms E ve left right))"

text \<open>The depth guard of \<open>cycle.rs\<close> as the number of levels left; at the limit the comparison
  is \<open>false\<close>.\<close>

primrec values_equal_depth :: "env \<Rightarrow> nat \<Rightarrow> pyval \<Rightarrow> pyval \<Rightarrow> bool" where
  "values_equal_depth E 0 = (\<lambda>left right. False)"
| "values_equal_depth E (Suc n) = values_equal_step E (values_equal_depth E n)"

definition EQ_RECURSION_LIMIT :: nat where "EQ_RECURSION_LIMIT = 1000"

definition values_equal :: "env \<Rightarrow> pyval \<Rightarrow> pyval \<Rightarrow> bool" where
  "values_equal E = values_equal_depth E EQ_RECURSION_LIMIT"

section \<open>Equality slots\<close>

definition none_eq :: "pyval \<Rightarrow> pyval \<Rightarrow> bool option" where
  "none_eq lhs rhs = Some (case rhs of VNone \<Rightarrow> True | _ \<Rightarrow> False)"

definition bool_eq :: "pyval \<Rightarrow> pyval \<Rightarrow> bool option" where
  "bool_eq lhs rhs = (case lhs of
       VBool a \<Rightarrow> (case rhs of
           VBool b \<Rightarrow> Some (a = b)
         | VInt i \<Rightarrow> Some (i = (if a then 1 else 0))
         | VBigInt i \<Rightarrow> Some (i = (if a then 1 else 0))
         | VFloat f \<Rightarrow> Some (f64_eq f (f64_of_bool a))
         | _ \<Rightarrow> None)
     | _ \<Rightarrow> None)"

definition int_eq :: "pyval \<Rightarrow> pyval \<Rightarrow> bool option" where
  "int_eq lhs rhs = (case value_as_bigint lhs of
       None \<Rightarrow> None
     | Some a \<Rightarrow> (case rhs of
           VInt i \<Rightarrow> map_option (\<lambda>b. a = b) (value_as_bigint rhs)
         | VBigInt i \<Rightarrow> map_option (\<lambda>b. a = b) (value_as_bigint rhs)
         | VBool i \<Rightarrow> map_option (\<lambda>b. a = b) (value_as_bigint rhs)
         | VFloat f \<Rightarrow> Some (f64_eq f (f64_of_int a))
         | _ \<Rightarrow> None))"

definition float_eq :: "pyval \<Rightarrow> pyval \<Rightarrow> bool option" where
  "float_eq lhs rhs = (case lhs of
       VFloat a \<Rightarrow> (case rhs of
           VFloat b \<Rightarrow> Some (f64_eq a b)
         | VBool b \<Rightarrow> Some (f64_eq a (f64_of_bool b))
         | VInt i \<Rightarrow> Some (f64_eq a (f64_of_int (sint i)))
         | _ \<Rightarrow> None)
     | _ \<Rightarrow> None)"

definition str_eq :: "pyval \<Rightarrow> pyval \<Rightarrow> bool option" where
  "str_eq lhs rhs = (case lhs of
       VString a \<Rightarrow> (case rhs of VString b \<Rightarrow> Some (a = b) | _ \<Rightarrow> None) | _ \<Rightarrow> None)"

fun bytes_view :: "env \<Rightarrow> pyval \<Rightarrow> u8 list option" where
  "bytes_view E v = (case v of
       VBytes b \<Rightarrow> Some b
     | VByteArray b \<Rightarrow> Some (bytes_at E b)
     | VMemoryView inner \<Rightarrow> bytes_view E inner
     | _ \<Rightarrow> None)"

declare bytes_view.simps [simp del]

definition bytes_eq :: "env \<Rightarrow> pyval \<Rightarrow> pyval \<Rightarrow> bool option" where
  "bytes_eq E lhs rhs = (case bytes_view E lhs of
       None \<Rightarrow> None
     | Some a \<Rightarrow> map_option (\<lambda>b. a = b) (bytes_view E rhs))"

definition list_eq :: "env \<Rightarrow> (pyval \<Rightarrow> pyval \<Rightarrow> bool) \<Rightarrow> pyval \<Rightarrow> pyval \<Rightarrow> bool option" where
  "list_eq E req lhs rhs = (case lhs of
       VList a \<Rightarrow> (case rhs of
           VList b \<Rightarrow> Some (a = b \<or> elementwise_eq req (list_at E a) (list_at E b)) | _ \<Rightarrow> None)
     | _ \<Rightarrow> None)"

definition tuple_eq :: "(pyval \<Rightarrow> pyval \<Rightarrow> bool) \<Rightarrow> pyval \<Rightarrow> pyval \<Rightarrow> bool option" where
  "tuple_eq req lhs rhs = (case lhs of
       VTuple a \<Rightarrow> (case rhs of VTuple b \<Rightarrow> Some (elementwise_eq req a b) | _ \<Rightarrow> None) | _ \<Rightarrow> None)"

definition dict_eq ::
  "env \<Rightarrow> (pyval \<Rightarrow> pyval \<Rightarrow> bool) \<Rightarrow> (pyval \<Rightarrow> pyval \<Rightarrow> bool) \<Rightarrow> pyval \<Rightarrow> pyval \<Rightarrow> bool option" where
  "dict_eq E ve req lhs rhs = (case (as_dict lhs, as_dict rhs) of
       (Some a, Some b) \<Rightarrow> Some (a = b \<or> dict_content_eq E ve req (dict_at E a) (dict_at E b))
     | _ \<Rightarrow> None)"

definition ordered_dict_eq ::
  "env \<Rightarrow> (pyval \<Rightarrow> pyval \<Rightarrow> bool) \<Rightarrow> (pyval \<Rightarrow> pyval \<Rightarrow> bool) \<Rightarrow> pyval \<Rightarrow> pyval \<Rightarrow> bool option" where
  "ordered_dict_eq E ve req lhs rhs = (case lhs of
       VOrderedDict a \<Rightarrow> (case rhs of
           VOrderedDict b \<Rightarrow> Some (a = b \<or> ordered_content_eq E ve req (dict_at E a) (dict_at E b))
         | _ \<Rightarrow> dict_eq E ve req lhs rhs)
     | _ \<Rightarrow> dict_eq E ve req lhs rhs)"

definition set_eq :: "env \<Rightarrow> (pyval \<Rightarrow> pyval \<Rightarrow> bool) \<Rightarrow> pyval \<Rightarrow> pyval \<Rightarrow> bool option" where
  "set_eq E req lhs rhs = (case (set_items E lhs, set_items E rhs) of
       (Some a, Some b) \<Rightarrow> Some (unordered_eq req a b) | _ \<Rightarrow> None)"

text \<open>The set of a frozenset key; the construction returns for hashable values
  (\<open>from_items_correct\<close> in the theory of Python sets).\<close>

definition set_of_keys :: "env \<Rightarrow> (pyval \<Rightarrow> pyval \<Rightarrow> bool) \<Rightarrow> pyval list \<Rightarrow> pyval set_body" where
  "set_of_keys E req items =
     (case from_items req (python_hash (siphash13 E)) items of Some b \<Rightarrow> b | None \<Rightarrow> Fallback items)"

definition dictview_iter :: "env \<Rightarrow> (pyval \<Rightarrow> pyval \<Rightarrow> bool) \<Rightarrow> addr \<Rightarrow> dict_view_kind \<Rightarrow> pyval list" where
  "dictview_iter E req d kind = (let m = dict_at E d; key = key_to_value (set_of_keys E req) in
     (case kind of
        Keys \<Rightarrow> List.map (\<lambda>e. key (fst e)) m
      | Values \<Rightarrow> List.map snd m
      | Items \<Rightarrow> List.map (\<lambda>e. VTuple [key (fst e), snd e]) m))"

definition view_elems :: "env \<Rightarrow> (pyval \<Rightarrow> pyval \<Rightarrow> bool) \<Rightarrow> pyval \<Rightarrow> pyval list option" where
  "view_elems E req v = (case v of
       VDictView d kind \<Rightarrow> Some (dictview_iter E req d kind) | _ \<Rightarrow> set_items E v)"

definition dictview_eq :: "env \<Rightarrow> (pyval \<Rightarrow> pyval \<Rightarrow> bool) \<Rightarrow> pyval \<Rightarrow> pyval \<Rightarrow> bool option" where
  "dictview_eq E req lhs rhs = (case (view_elems E req lhs, view_elems E req rhs) of
       (Some a, Some b) \<Rightarrow> Some (unordered_eq req a b) | _ \<Rightarrow> None)"

definition counter_eq ::
  "env \<Rightarrow> (pyval \<Rightarrow> pyval \<Rightarrow> bool) \<Rightarrow> (pyval \<Rightarrow> pyval \<Rightarrow> bool) \<Rightarrow> pyval \<Rightarrow> pyval \<Rightarrow> bool option" where
  "counter_eq E ve req lhs rhs = (case lhs of
       VCounter a \<Rightarrow> (case rhs of
           VCounter b \<Rightarrow> Some (dict_content_eq E ve req a b)
         | VDict b \<Rightarrow> Some (dict_content_eq E ve req a (dict_at E b))
         | _ \<Rightarrow> None)
     | _ \<Rightarrow> None)"

definition deque_eq :: "(pyval \<Rightarrow> pyval \<Rightarrow> bool) \<Rightarrow> pyval \<Rightarrow> pyval \<Rightarrow> bool option" where
  "deque_eq ve lhs rhs = (case lhs of
       VDeque a _ \<Rightarrow> (case rhs of VDeque b _ \<Rightarrow> Some (elementwise_eq ve a b) | _ \<Rightarrow> None) | _ \<Rightarrow> None)"

section \<open>The numeric tower\<close>

definition value_to_complex :: "pyval \<Rightarrow> (f64 \<times> f64) option" where
  "value_to_complex v = (case v of
       VComplex re im \<Rightarrow> Some (re, im)
     | VFloat f \<Rightarrow> Some (f, 0)
     | VInt i \<Rightarrow> Some (f64_of_int (sint i), 0)
     | VBool b \<Rightarrow> Some (f64_of_bool b, 0)
     | VBigInt b \<Rightarrow> Some (f64_of_int b, 0)
     | _ \<Rightarrow> None)"

definition is_complex :: "pyval \<Rightarrow> bool" where
  "is_complex v = (case v of VComplex re im \<Rightarrow> True | _ \<Rightarrow> False)"

definition complex_eq :: "pyval \<Rightarrow> pyval \<Rightarrow> bool option" where
  "complex_eq lhs rhs =
     (if \<not> is_complex lhs \<and> \<not> is_complex rhs then None
      else case (value_to_complex lhs, value_to_complex rhs) of
             (Some (ar, ai), Some (br, bi)) \<Rightarrow> Some (f64_eq ar br \<and> f64_eq ai bi)
           | _ \<Rightarrow> Some False)"

definition fraction_to_bigrational :: "pyval \<Rightarrow> rat option" where
  "fraction_to_bigrational v = (case v of
       VFraction n d \<Rightarrow> Some (Fract n d)
     | VInt i \<Rightarrow> Some (of_int (sint i))
     | VBigInt i \<Rightarrow> Some (of_int i)
     | VBool b \<Rightarrow> Some (if b then 1 else 0)
     | _ \<Rightarrow> None)"

definition float_to_bigrational :: "f64 \<Rightarrow> rat option" where
  "float_to_bigrational f =
     (if \<not> is_finite f then None
      else let numer = (if f64_sign f then - f64_mant f else f64_mant f); e = f64_pow f
           in Some (if e \<ge> 0 then of_int (numer * 2 ^ nat e) else Fract numer (2 ^ nat (- e))))"

text \<open>\<open>u32::try_from(scale).ok()?\<close> refuses a scale beyond 32 bits.\<close>

definition decimal_to_bigrational :: "pyval \<Rightarrow> rat option" where
  "decimal_to_bigrational v = (case v of
       VDecimal mantissa scale k \<Rightarrow> if \<bar>scale\<bar> < 2 ^ 32 then Some (decimal_rat mantissa scale) else None
     | _ \<Rightarrow> None)"

definition exact_rational :: "pyval \<Rightarrow> rat option" where
  "exact_rational v = (case v of
       VFloat f \<Rightarrow> float_to_bigrational f
     | VDecimal m s k \<Rightarrow> decimal_to_bigrational v
     | _ \<Rightarrow> fraction_to_bigrational v)"

definition decimal_operand_kind :: "pyval \<Rightarrow> decimal_kind" where
  "decimal_operand_kind v = (case v of VDecimal m s k \<Rightarrow> k | _ \<Rightarrow> Normal)"

definition decimal_to_bigdecimal :: "pyval \<Rightarrow> (int \<times> int) option" where
  "decimal_to_bigdecimal v = (case v of
       VDecimal m s k \<Rightarrow> Some (m, s)
     | VInt i \<Rightarrow> Some (sint i, 0)
     | VBigInt i \<Rightarrow> Some (i, 0)
     | VBool b \<Rightarrow> Some (if b then 1 else 0, 0)
     | _ \<Rightarrow> None)"

definition decimal_eq :: "pyval \<Rightarrow> pyval \<Rightarrow> bool option" where
  "decimal_eq lhs rhs =
     (let ka = decimal_operand_kind lhs; kb = decimal_operand_kind rhs in
      if decimal_is_special ka \<or> decimal_is_special kb then
        (if ka = Nan \<or> kb = Nan then Some False
         else Some (ka = PosInf \<and> kb = PosInf \<or> ka = NegInf \<and> kb = NegInf))
      else if (case rhs of VFloat f \<Rightarrow> True | VFraction n d \<Rightarrow> True | _ \<Rightarrow> False) then
        (case decimal_to_bigrational lhs of
           None \<Rightarrow> None | Some a \<Rightarrow> map_option (\<lambda>b. a = b) (exact_rational rhs))
      else
        (case decimal_to_bigdecimal lhs of
           None \<Rightarrow> None
         | Some a \<Rightarrow> map_option (\<lambda>b. case_prod decimal_rat a = case_prod decimal_rat b) (decimal_to_bigdecimal rhs)))"

definition fraction_eq :: "pyval \<Rightarrow> pyval \<Rightarrow> bool option" where
  "fraction_eq lhs rhs = (case fraction_to_bigrational lhs of
       None \<Rightarrow> None
     | Some a \<Rightarrow>
         (if (case rhs of VFloat f \<Rightarrow> True | VDecimal m s k \<Rightarrow> True | _ \<Rightarrow> False)
          then Some (case exact_rational rhs of Some b \<Rightarrow> a = b | None \<Rightarrow> False)
          else map_option (\<lambda>b. a = b) (fraction_to_bigrational rhs)))"

section \<open>Dispatch\<close>

text \<open>\<open>type_of(value).eq_slot\<close>; the last arm is \<open>object_eq\<close>.\<close>

definition eq_slot ::
  "env \<Rightarrow> (pyval \<Rightarrow> pyval \<Rightarrow> bool) \<Rightarrow> (pyval \<Rightarrow> pyval \<Rightarrow> bool) \<Rightarrow> pyval \<Rightarrow> pyval \<Rightarrow> bool option" where
  "eq_slot E ve req lhs rhs = (case lhs of
       VNone \<Rightarrow> none_eq lhs rhs
     | VBool b \<Rightarrow> bool_eq lhs rhs
     | VInt i \<Rightarrow> int_eq lhs rhs
     | VBigInt i \<Rightarrow> int_eq lhs rhs
     | VFloat f \<Rightarrow> float_eq lhs rhs
     | VComplex re im \<Rightarrow> complex_eq lhs rhs
     | VString s \<Rightarrow> str_eq lhs rhs
     | VBytes b \<Rightarrow> bytes_eq E lhs rhs
     | VByteArray b \<Rightarrow> bytes_eq E lhs rhs
     | VMemoryView b \<Rightarrow> bytes_eq E lhs rhs
     | VList xs \<Rightarrow> list_eq E req lhs rhs
     | VTuple xs \<Rightarrow> tuple_eq req lhs rhs
     | VDict d \<Rightarrow> dict_eq E ve req lhs rhs
     | VOrderedDict d \<Rightarrow> ordered_dict_eq E ve req lhs rhs
     | VSet s \<Rightarrow> set_eq E req lhs rhs
     | VFrozenset s \<Rightarrow> set_eq E req lhs rhs
     | VCounter m \<Rightarrow> counter_eq E ve req lhs rhs
     | VDeque xs n \<Rightarrow> deque_eq ve lhs rhs
     | VDefaultDict m f \<Rightarrow> None
     | VChainMap ms \<Rightarrow> None
     | VDictView d k \<Rightarrow> dictview_eq E req lhs rhs
     | VDecimal m s k \<Rightarrow> decimal_eq lhs rhs
     | VFraction n d \<Rightarrow> fraction_eq lhs rhs
     | _ \<Rightarrow> Some (ve lhs rhs))"

primrec recurse_eq_depth :: "env \<Rightarrow> nat \<Rightarrow> pyval \<Rightarrow> pyval \<Rightarrow> bool" where
  "recurse_eq_depth E 0 = (\<lambda>lhs rhs. False)"
| "recurse_eq_depth E (Suc n) = (\<lambda>lhs rhs.
     case eq_slot E (values_equal_depth E n) (recurse_eq_depth E n) lhs rhs of
        Some r \<Rightarrow> r
      | None \<Rightarrow> (case eq_slot E (values_equal_depth E n) (recurse_eq_depth E n) rhs lhs of
                   Some r \<Rightarrow> r | None \<Rightarrow> False))"

definition recurse_eq :: "env \<Rightarrow> pyval \<Rightarrow> pyval \<Rightarrow> bool" where
  "recurse_eq E = recurse_eq_depth E EQ_RECURSION_LIMIT"

fun hashable_exact :: "pyval \<Rightarrow> bool" where
  "hashable_exact v = (case v of
       VNone \<Rightarrow> True | VBool b \<Rightarrow> True | VInt i \<Rightarrow> True | VBigInt n \<Rightarrow> True
     | VString s \<Rightarrow> True | VBytes b \<Rightarrow> True | VDate d \<Rightarrow> True | VTime t \<Rightarrow> True | VTimeDelta m \<Rightarrow> True
     | VDateTime d tz \<Rightarrow> tz = None
     | VTuple xs \<Rightarrow> list_all hashable_exact xs
     | _ \<Rightarrow> False)"

declare hashable_exact.simps [simp del]

section \<open>The contract of the set table\<close>

text \<open>A view of the exact hashable values in which equal values are equal.\<close>

datatype key_view = NoneView | IntView int | StrView pystr | BytesView "u8 list" | DateView naive_date
  | TimeView naive_time | DeltaView i64 | DateTimeView naive_datetime | TupleView "pyval list"

definition view :: "pyval \<Rightarrow> key_view" where
  "view v = (case v of
       VBool b \<Rightarrow> IntView (if b then 1 else 0) | VInt i \<Rightarrow> IntView (sint i) | VBigInt n \<Rightarrow> IntView n
     | VString s \<Rightarrow> StrView s | VBytes b \<Rightarrow> BytesView b | VDate d \<Rightarrow> DateView d | VTime t \<Rightarrow> TimeView t
     | VTimeDelta m \<Rightarrow> DeltaView m | VDateTime d tz \<Rightarrow> DateTimeView d | VTuple xs \<Rightarrow> TupleView xs
     | _ \<Rightarrow> NoneView)"

text \<open>Dates and times are compared by \<open>values_equal\<close>, one level deeper: \<open>leaf\<close> says whether that
  level is still within the limit.\<close>

definition view_eq :: "bool \<Rightarrow> (pyval \<Rightarrow> pyval \<Rightarrow> bool) \<Rightarrow> key_view \<Rightarrow> key_view \<Rightarrow> bool" where
  "view_eq leaf req a b \<longleftrightarrow> (case a of
       TupleView xs \<Rightarrow> (case b of TupleView ys \<Rightarrow> elementwise_eq req xs ys | _ \<Rightarrow> False)
     | DateView d \<Rightarrow> leaf \<and> a = b
     | TimeView d \<Rightarrow> leaf \<and> a = b
     | DeltaView d \<Rightarrow> leaf \<and> a = b
     | DateTimeView d \<Rightarrow> leaf \<and> a = b
     | _ \<Rightarrow> a = b)"

lemma exact_cases:
  assumes "hashable_exact v"
  obtains "v = VNone" | b where "v = VBool b" | i where "v = VInt i" | n where "v = VBigInt n"
    | s where "v = VString s" | b where "v = VBytes b" | d where "v = VDate d" | t where "v = VTime t"
    | m where "v = VTimeDelta m" | d where "v = VDateTime d None"
    | xs where "v = VTuple xs" "list_all hashable_exact xs"
  using assms by (cases v) (auto simp: hashable_exact.simps)

lemma word_bool: "(i :: i64) = (if c then 1 else 0) \<longleftrightarrow> sint i = (if c then 1 else 0)"
  using sint_i64_inject [of i 1] sint_i64_inject [of i 0] by simp

lemma eq_slot_simps [simp]:
  "eq_slot E v r VNone b = none_eq VNone b" "eq_slot E v r (VBool c) b = bool_eq (VBool c) b"
  "eq_slot E v r (VInt i) b = int_eq (VInt i) b" "eq_slot E v r (VBigInt n) b = int_eq (VBigInt n) b"
  "eq_slot E v r (VString s) b = str_eq (VString s) b" "eq_slot E v r (VBytes y) b = bytes_eq E (VBytes y) b"
  "eq_slot E v r (VTuple xs) b = tuple_eq r (VTuple xs) b" "eq_slot E v r (VDate d) b = Some (v (VDate d) b)"
  "eq_slot E v r (VTime t) b = Some (v (VTime t) b)" "eq_slot E v r (VTimeDelta m) b = Some (v (VTimeDelta m) b)"
  "eq_slot E v r (VDateTime dt tz) b = Some (v (VDateTime dt tz) b)"
  by (simp_all add: eq_slot_def)

lemma bytes_view_simps [simp]:
  "bytes_view E VNone = None" "bytes_view E (VBool c) = None" "bytes_view E (VInt i) = None"
  "bytes_view E (VBigInt n) = None" "bytes_view E (VString s) = None" "bytes_view E (VBytes y) = Some y"
  "bytes_view E (VDate d) = None" "bytes_view E (VTime t) = None" "bytes_view E (VTimeDelta m) = None"
  "bytes_view E (VDateTime dt tz) = None" "bytes_view E (VTuple xs) = None"
  by (simp_all add: bytes_view.simps)

lemma temporal_arms [simp]:
  "values_equal_step E ve (VDate a) b = (case b of VDate c \<Rightarrow> a = c
     | VEnumMember c2 m2 v2 k2 \<Rightarrow> value_kind k2 \<and> ve (VDate a) v2 | _ \<Rightarrow> False)"
  "values_equal_step E ve (VTime t) b = (case b of VTime c \<Rightarrow> t = c
     | VEnumMember c2 m2 v2 k2 \<Rightarrow> value_kind k2 \<and> ve (VTime t) v2 | _ \<Rightarrow> False)"
  "values_equal_step E ve (VTimeDelta m) b = (case b of VTimeDelta c \<Rightarrow> m = c
     | VEnumMember c2 m2 v2 k2 \<Rightarrow> value_kind k2 \<and> ve (VTimeDelta m) v2 | _ \<Rightarrow> False)"
  "values_equal_step E ve (VDateTime dt tz) b = (case b of VDateTime c tc \<Rightarrow> same_instant E dt tz c tc
     | VEnumMember c2 m2 v2 k2 \<Rightarrow> value_kind k2 \<and> ve (VDateTime dt tz) v2 | _ \<Rightarrow> False)"
  by (cases b; simp add: values_equal_step_def values_equal_arms_def)+

lemma same_instant_naive [simp]: "same_instant E a None b None \<longleftrightarrow> a = b"
  by (simp add: same_instant_def)

lemma exact_simps [simp]:
  "hashable_exact VNone" "hashable_exact (VBool c)" "hashable_exact (VInt i)" "hashable_exact (VBigInt n)"
  "hashable_exact (VString s)" "hashable_exact (VBytes y)" "hashable_exact (VDate d)" "hashable_exact (VTime t)"
  "hashable_exact (VTimeDelta m)" "hashable_exact (VDateTime dt None)"
  by (simp_all add: hashable_exact.simps)

lemma tuple_exact: "hashable_exact (VTuple xs) \<longleftrightarrow> (\<forall>x \<in> set xs. hashable_exact x)"
  by (simp add: hashable_exact.simps [of "VTuple xs"] list_all_iff)

lemma values_equal_temporal [simp]:
  assumes "hashable_exact b"
  shows "values_equal_depth E n (VDate d) b \<longleftrightarrow> 0 < n \<and> b = VDate d"
    "values_equal_depth E n (VTime t) b \<longleftrightarrow> 0 < n \<and> b = VTime t"
    "values_equal_depth E n (VTimeDelta m) b \<longleftrightarrow> 0 < n \<and> b = VTimeDelta m"
    "values_equal_depth E n (VDateTime dt None) b \<longleftrightarrow> 0 < n \<and> b = VDateTime dt None"
  by (cases n; use assms in \<open>cases rule: exact_cases\<close>; auto)+

lemma value_as_bigint_simps [simp]:
  "value_as_bigint (VInt i) = Some (sint i)" "value_as_bigint (VBigInt n) = Some n"
  "value_as_bigint (VBool c) = Some (if c then 1 else 0)"
  by (simp_all add: value_as_bigint.simps)

lemma view_simps [simp]:
  "view VNone = NoneView" "view (VBool c) = IntView (if c then 1 else 0)" "view (VInt i) = IntView (sint i)"
  "view (VBigInt n) = IntView n" "view (VString s) = StrView s" "view (VBytes y) = BytesView y"
  "view (VDate d) = DateView d" "view (VTime t) = TimeView t" "view (VTimeDelta m) = DeltaView m"
  "view (VDateTime dt tz) = DateTimeView dt" "view (VTuple xs) = TupleView xs"
  by (simp_all add: view_def)

lemma recurse_eq_view:
  assumes a: "hashable_exact a" and b: "hashable_exact b"
  shows "recurse_eq_depth E (Suc n) a b \<longleftrightarrow> view_eq (0 < n) (recurse_eq_depth E n) (view a) (view b)"
  using a
proof (cases rule: exact_cases)
  case 1
  show ?thesis using b by (cases rule: exact_cases) (simp_all add: 1 none_eq_def view_eq_def)
next
  case (2 c)
  show ?thesis using b
    by (cases rule: exact_cases)
      (auto simp: 2 bool_eq_def none_eq_def str_eq_def bytes_eq_def tuple_eq_def view_eq_def word_bool)
next
  case (3 i)
  show ?thesis using b
    by (cases rule: exact_cases)
      (simp_all add: 3 int_eq_def none_eq_def str_eq_def bytes_eq_def tuple_eq_def view_eq_def)
next
  case (4 m)
  show ?thesis using b
    by (cases rule: exact_cases)
      (simp_all add: 4 int_eq_def none_eq_def str_eq_def bytes_eq_def tuple_eq_def view_eq_def)
next
  case (5 s)
  show ?thesis using b
    by (cases rule: exact_cases)
      (simp_all add: 5 str_eq_def int_eq_def bool_eq_def none_eq_def bytes_eq_def tuple_eq_def view_eq_def)
next
  case (6 s)
  show ?thesis using b
    by (cases rule: exact_cases)
      (simp_all add: 6 str_eq_def int_eq_def bool_eq_def none_eq_def bytes_eq_def tuple_eq_def view_eq_def)
next
  case (11 xs)
  show ?thesis using b
    by (cases rule: exact_cases)
      (simp_all add: 11 str_eq_def int_eq_def bool_eq_def none_eq_def bytes_eq_def tuple_eq_def view_eq_def
        values_equal_temporal [OF a [unfolded 11]])
next
  case (7 d)
  show ?thesis using b by (cases rule: exact_cases) (auto simp: 7 view_eq_def tuple_exact list_all_iff)
next
  case (8 t)
  show ?thesis using b by (cases rule: exact_cases) (auto simp: 8 view_eq_def tuple_exact list_all_iff)
next
  case (9 m)
  show ?thesis using b by (cases rule: exact_cases) (auto simp: 9 view_eq_def tuple_exact list_all_iff)
next
  case (10 dt)
  show ?thesis using b by (cases rule: exact_cases) (auto simp: 10 view_eq_def tuple_exact list_all_iff)
qed

lemma elementwise_all2: "elementwise_eq r a b \<longleftrightarrow> list_all2 r a b"
  by (auto simp: elementwise_eq_def list_all2_iff list_all_iff)

lemma view_tuple: "view v = TupleView xs \<Longrightarrow> v = VTuple xs"
  by (cases v) (simp_all add: view_def)

lemma view_eq_cases:
  assumes "view_eq l r (view a) (view b)"
  obtains (same) "view a = view b" "\<And>xs. a \<noteq> VTuple xs"
    | (tuple) xs ys where "a = VTuple xs" "b = VTuple ys" "list_all2 r xs ys"
proof (cases "\<exists>xs. a = VTuple xs")
  case True
  then obtain xs where a: "a = VTuple xs" by blast
  then obtain ys where "view b = TupleView ys" "list_all2 r xs ys"
    using assms by (auto simp: view_eq_def elementwise_all2 split: key_view.splits)
  then show thesis using a tuple view_tuple by blast
next
  case False
  then have "\<And>xs. view a \<noteq> TupleView xs" using view_tuple by blast
  then have "view a = view b"
    using assms by (cases "view a") (auto simp: view_eq_def)
  with False show thesis by (intro same) auto
qed

lemma recurse_eq_sym:
  "hashable_exact a \<Longrightarrow> hashable_exact b \<Longrightarrow> recurse_eq_depth E n a b \<Longrightarrow> recurse_eq_depth E n b a"
proof (induction n arbitrary: a b)
  case (Suc n)
  from Suc.prems have "view_eq (0 < n) (recurse_eq_depth E n) (view a) (view b)"
    by (simp only: recurse_eq_view)
  then have "view_eq (0 < n) (recurse_eq_depth E n) (view b) (view a)"
  proof (cases rule: view_eq_cases)
    case same
    then show ?thesis
      using \<open>view_eq (0 < n) (recurse_eq_depth E n) (view a) (view b)\<close> by simp
  next
    case (tuple xs ys)
    have "list_all2 (recurse_eq_depth E n) ys xs"
      using tuple(3) Suc.prems(1,2) tuple(1,2) Suc.IH
      by (auto simp: tuple_exact list_all2_conv_all_nth)
    then show ?thesis
      by (simp add: tuple view_eq_def elementwise_all2)
  qed
  then show ?case
    using Suc.prems by (simp only: recurse_eq_view)
qed simp

lemma recurse_eq_trans:
  "hashable_exact a \<Longrightarrow> hashable_exact b \<Longrightarrow> hashable_exact c \<Longrightarrow>
   recurse_eq_depth E n a b \<Longrightarrow> recurse_eq_depth E n b c \<Longrightarrow> recurse_eq_depth E n a c"
proof (induction n arbitrary: a b c)
  case (Suc n)
  have ab: "view_eq (0 < n) (recurse_eq_depth E n) (view a) (view b)"
    using Suc.prems(1,2,4) by (simp only: recurse_eq_view)
  have bc: "view_eq (0 < n) (recurse_eq_depth E n) (view b) (view c)"
    using Suc.prems(2,3,5) by (simp only: recurse_eq_view)
  have "view_eq (0 < n) (recurse_eq_depth E n) (view a) (view c)"
    using ab
  proof (cases rule: view_eq_cases)
    case same
    then show ?thesis using bc by simp
  next
    case (tuple xs ys)
    obtain zs where c: "c = VTuple zs" "list_all2 (recurse_eq_depth E n) ys zs"
      using bc tuple(2) by (cases rule: view_eq_cases) auto
    have "recurse_eq_depth E n (xs ! i) (zs ! i)" if "i < length xs" for i
      using that tuple c Suc.prems(1-3) list_all2_lengthD [OF tuple(3)] list_all2_lengthD [OF c(2)]
      by (intro Suc.IH [of "xs ! i" "ys ! i" "zs ! i"]) (auto simp: tuple_exact dest: list_all2_nthD)
    then have "list_all2 (recurse_eq_depth E n) xs zs"
      using list_all2_lengthD [OF tuple(3)] list_all2_lengthD [OF c(2)]
      by (simp add: list_all2_conv_all_nth)
    then show ?thesis
      by (simp add: tuple c view_eq_def elementwise_all2)
  qed
  then show ?case
    using Suc.prems by (simp only: recurse_eq_view)
qed simp

lemma bool_hash_bigint: "hash_bigint (if b then 1 else 0) = (if b then 1 else 0)"
  by (simp add: hash_bigint_def MODULUS_def fold_minus_one_def)

lemma view_hash:
  assumes "hashable_exact a" "hashable_exact b" "view a = view b" "\<And>xs. a \<noteq> VTuple xs"
  shows "python_hash sip a = python_hash sip b"
proof -
  have "python_hash sip v = (case view v of
      NoneView \<Rightarrow> Some NONE_HASH | IntView n \<Rightarrow> Some (hash_bigint n)
    | StrView s \<Rightarrow> Some (hash_bytes sip (str_hash_buffer s)) | BytesView y \<Rightarrow> Some (hash_bytes sip y)
    | DateView d \<Rightarrow> Some (hash_bytes sip (date_state d)) | TimeView t \<Rightarrow> Some (hash_bytes sip (time_state t))
    | DeltaView m \<Rightarrow> Some (timedelta_hash m) | DateTimeView d \<Rightarrow> Some (hash_bytes sip (datetime_state d))
    | TupleView xs \<Rightarrow> python_hash sip v)" if "hashable_exact v" for v
    using that
    by (cases rule: exact_cases) (simp_all add: python_hash.simps hash_i64_bigint bool_hash_bigint)
  from this [OF assms(1)] this [OF assms(2)] show ?thesis
    using assms(3,4) by (auto split: key_view.splits dest: view_tuple)
qed

lemma recurse_eq_hash:
  "hashable_exact a \<Longrightarrow> hashable_exact b \<Longrightarrow> recurse_eq_depth E n a b \<Longrightarrow> python_hash sip a = python_hash sip b"
proof (induction n arbitrary: a b)
  case (Suc n)
  from Suc.prems have "view_eq (0 < n) (recurse_eq_depth E n) (view a) (view b)"
    by (simp only: recurse_eq_view)
  then show ?case
  proof (cases rule: view_eq_cases)
    case same
    then show ?thesis using view_hash Suc.prems by blast
  next
    case (tuple xs ys)
    have "List.map (python_hash sip) xs = List.map (python_hash sip) ys"
      using tuple Suc.prems(1,2) Suc.IH list_all2_lengthD [OF tuple(3)]
      by (auto simp: tuple_exact list_eq_iff_nth_eq list_all2_conv_all_nth)
    then show ?thesis
      by (simp add: tuple python_hash.simps [of sip "VTuple xs"] python_hash.simps [of sip "VTuple ys"])
  qed
qed simp

definition empty_env :: env where
  "empty_env = \<lparr>list_at = \<lambda>_. [], dict_at = \<lambda>_. [], set_at = \<lambda>_. body_empty, bytes_at = \<lambda>_. [],
     fields_at = \<lambda>_. [], siphash13 = \<lambda>_. 0, datetime_sub = \<lambda>dt _. dt\<rparr>"

interpretation py: hashed_elements "recurse_eq E" hashable_exact "python_hash sip" for E sip
  by unfold_locales
    (auto simp: recurse_eq_def intro: recurse_eq_sym recurse_eq_trans recurse_eq_hash)

end
