(* ===== verification/Python_Sets.thy ===== *)
theory Python_Sets
  imports Equality
begin

text \<open>
  Sets of Python values: the tables of \<open>pyset.rs\<close> under the equality of \<open>types.rs\<close> and the
  hash of \<open>pyhash.rs\<close>.  The laws of the locales are discharged by the interpretation in the
  theory of equality; here the operations of the set methods get their meaning on sets whose
  elements are values with an exact hash (everything hashable except floats, complex numbers,
  decimals, fractions and instances).
\<close>

section \<open>Sets of Python values\<close>

definition exact_set :: "env \<Rightarrow> pyval set_table \<Rightarrow> bool" where
  "exact_set E t \<longleftrightarrow> wf_table t \<and> (\<forall>(v, h) \<in> set (table_actives t). hashable_exact v) \<and>
     sorted_wrt (\<lambda>(v, g) (w, h). \<not> (g = h \<and> recurse_eq E v w)) (table_actives t)"

lemma uniq_mset_iff:
  assumes "\<forall>e \<in> set xs. hashable_exact (fst e)"
  shows "py.uniq E (mset xs) \<longleftrightarrow> sorted_wrt (\<lambda>(v, g) (w, h). \<not> (g = h \<and> recurse_eq E v w)) xs"
  using assms
proof (induction xs)
  case (Cons e xs)
  obtain v h where e: "e = (v, h)" by fastforce
  have "py.uniq E (mset (e # xs)) \<longleftrightarrow> py.uniq E (mset xs) \<and> (\<forall>(w, g) \<in> set xs. \<not> (h = g \<and> recurse_eq E v w))"
  proof
    assume u: "py.uniq E (mset (e # xs))"
    then have "py.uniq E (mset xs)"
      by (rule py.uniq_subset) simp
    then show "py.uniq E (mset xs) \<and> (\<forall>(w, g) \<in> set xs. \<not> (h = g \<and> recurse_eq E v w))"
      using u py.uniqD [of E v h "mset xs"] by (auto simp: e)
  next
    assume r: "py.uniq E (mset xs) \<and> (\<forall>(w, g) \<in> set xs. \<not> (h = g \<and> recurse_eq E v w))"
    have "\<not> mset_has (recurse_eq E) (mset xs) (v, h)"
      using r Cons.prems py.eq_sym [where y = v] by (fastforce simp: mset_has_def e)
    then show "py.uniq E (mset (e # xs))"
      using r Cons.prems py.uniq_add [where M = "mset xs" and v = v and h = h] by (auto simp: py.elems_def e)
  qed
  then show ?case
    using Cons by (auto simp: e)
qed (simp add: py.uniq_def)

lemma exact_set_good: "exact_set E t \<longleftrightarrow> py.good_table E t"
  using uniq_mset_iff [of "table_actives t"]
  by (auto simp: exact_set_def py.good_table_def py.good_def py.elems_def contents_def split_beta)

lemma exact_contains: "exact_set E t \<Longrightarrow> table_contains (recurse_eq E) t x h = Some (mset_has (recurse_eq E) (contents t) (x, h))"
  by (simp add: contains_refines exact_set_def)

lemmas contents_size = contents_def size_mset

text \<open>C1: union.  \<open>a | b\<close> returns a duplicate-free well-formed table whose members are the members
  of either operand.\<close>

theorem union_correct:
  assumes "exact_set E a" "exact_set E b" "length (table_actives a) + length (table_actives b) < 2 ^ 60"
  shows "\<exists>r. table_union (recurse_eq E) a b = Some r \<and> exact_set E r \<and> (\<forall>x h. hashable_exact x \<longrightarrow>
     table_contains (recurse_eq E) r x h =
       Some (table_contains (recurse_eq E) a x h = Some True \<or> table_contains (recurse_eq E) b x h = Some True))"
proof -
  obtain r where "table_union (recurse_eq E) a b = Some r" "py.good_table E r"
    "\<And>x. hashable_exact (fst x) \<Longrightarrow> mset_has (recurse_eq E) (contents r) x \<longleftrightarrow>
       mset_has (recurse_eq E) (contents a) x \<or> mset_has (recurse_eq E) (contents b) x"
    using py.union_good [where a = a and b = b] assms by (auto simp: exact_set_good contents_size)
  then show ?thesis
    using assms by (intro exI [of _ r]) (simp add: exact_contains exact_set_good [symmetric])
qed

text \<open>intersection.  \<open>a & b\<close> scans the smaller operand, and its members are those of both.\<close>

theorem intersection_correct:
  assumes "exact_set E a" "exact_set E b" "length (table_actives a) + length (table_actives b) < 2 ^ 60"
  shows "\<exists>r. table_intersection (recurse_eq E) a b = Some r \<and> exact_set E r \<and> (\<forall>x h. hashable_exact x \<longrightarrow>
     table_contains (recurse_eq E) r x h =
       Some (table_contains (recurse_eq E) a x h = Some True \<and> table_contains (recurse_eq E) b x h = Some True))"
proof -
  obtain r where "table_intersection (recurse_eq E) a b = Some r" "py.good_table E r"
    "\<And>x. hashable_exact (fst x) \<Longrightarrow> mset_has (recurse_eq E) (contents r) x \<longleftrightarrow>
       mset_has (recurse_eq E) (contents a) x \<and> mset_has (recurse_eq E) (contents b) x"
    using py.intersection_good [where a = a and b = b] assms by (auto simp: exact_set_good contents_size)
  then show ?thesis
    using assms by (intro exI [of _ r]) (simp add: exact_contains exact_set_good [symmetric])
qed

text \<open>difference.  Both strategies of \<open>a - b\<close>, copying \<open>a\<close> and discarding (when \<open>a\<close> is much
  the larger) and filtering \<open>a\<close> into a new table, give the members of \<open>a\<close> that are not in \<open>b\<close>.\<close>

theorem difference_correct:
  assumes "exact_set E a" "exact_set E b" "length (table_actives a) < 2 ^ 60"
  shows "\<exists>r. table_difference (recurse_eq E) a b = Some r \<and> exact_set E r \<and> (\<forall>x h. hashable_exact x \<longrightarrow>
     table_contains (recurse_eq E) r x h =
       Some (table_contains (recurse_eq E) a x h = Some True \<and> table_contains (recurse_eq E) b x h = Some False))"
proof -
  obtain r where "table_difference (recurse_eq E) a b = Some r" "py.good_table E r"
    "\<And>x. hashable_exact (fst x) \<Longrightarrow> mset_has (recurse_eq E) (contents r) x \<longleftrightarrow>
       mset_has (recurse_eq E) (contents a) x \<and> \<not> mset_has (recurse_eq E) (contents b) x"
    using py.difference_good [where a = a and b = b] assms by (auto simp: exact_set_good contents_size)
  then show ?thesis
    using assms by (intro exI [of _ r]) (simp add: exact_contains exact_set_good [symmetric])
qed

text \<open>symmetric difference.  \<open>a ^ b\<close> toggles the elements of \<open>a\<close> in a copy of \<open>b\<close>; its
  members are those of exactly one operand.\<close>

theorem symmetric_difference_correct:
  assumes "exact_set E a" "exact_set E b" "length (table_actives a) + length (table_actives b) < 2 ^ 60"
  shows "\<exists>r. table_symmetric_difference (recurse_eq E) a b = Some r \<and> exact_set E r \<and> (\<forall>x h. hashable_exact x \<longrightarrow>
     table_contains (recurse_eq E) r x h =
       Some (table_contains (recurse_eq E) a x h \<noteq> table_contains (recurse_eq E) b x h))"
proof -
  obtain r where "table_symmetric_difference (recurse_eq E) a b = Some r" "py.good_table E r"
    "\<And>x. hashable_exact (fst x) \<Longrightarrow> mset_has (recurse_eq E) (contents r) x \<longleftrightarrow>
       mset_has (recurse_eq E) (contents a) x \<noteq> mset_has (recurse_eq E) (contents b) x"
    using py.symmetric_difference_good [where a = a and b = b] assms by (auto simp: exact_set_good contents_size)
  then show ?thesis
    using assms by (intro exI [of _ r]) (simp add: exact_contains exact_set_good [symmetric])
qed

text \<open>The set \<open>{1}\<close>: the hash of \<open>1\<close> is \<open>1\<close>, so the value is in slot 1.\<close>

definition set_of_one :: "pyval set_table" where
  "set_of_one = SetTable [Empty, Active (VInt 1) 1, Empty, Empty, Empty, Empty, Empty, Empty] 7 1 1"

lemma set_of_one_add: "table_add (recurse_eq E) (with_capacity MINSIZE) (VInt 1) 1 = Some set_of_one"
  by (simp add: table_add_def with_capacity_def MINSIZE_def start_index_def probe_loop.simps scan.simps
      probes_at_def LINEAR_PROBES_def add_step_def maybe_resize_def set_of_one_def numeral_eq_Suc)

lemma actives_set_of_one: "table_actives set_of_one = [(VInt 1, 1)]"
  by (simp add: table_actives_def set_of_one_def map_filter_simps)

lemma exact_set_of_one: "exact_set E set_of_one"
  using add_aux [of "with_capacity MINSIZE" "recurse_eq E" "VInt 1" 1]
  by (simp add: exact_set_def actives_set_of_one set_of_one_add wf_with_capacity hashable_exact.simps)
    (simp add: with_capacity_def)

lemma exact_set_new: "exact_set E (with_capacity MINSIZE)"
  using py.good_table_new by (simp add: exact_set_good)

lemma recurse_eq_one: "recurse_eq E (VInt 1) (VInt 1)"
  using recurse_eq_view [of "VInt 1" "VInt 1" E 999]
  by (simp add: recurse_eq_def EQ_RECURSION_LIMIT_def view_eq_def)

lemma contains_one: "table_contains (recurse_eq E) set_of_one (VInt 1) 1 = Some True"
  by (simp add: exact_contains exact_set_of_one mset_has_def contents_def actives_set_of_one recurse_eq_one)

lemma contains_new: "table_contains (recurse_eq E) (with_capacity MINSIZE) (VInt 1) 1 = Some False"
  by (simp add: exact_contains exact_set_new mset_has_def)

lemma exact_int: "hashable_exact (VInt i)"
  by (simp add: hashable_exact.simps)

lemma actives_new: "table_actives (with_capacity MINSIZE) = []"
  by (simp add: table_actives_def with_capacity_def map_filter_simps MINSIZE_def numeral_eq_Suc)

lemmas set_witness = exact_int actives_new exact_set_of_one exact_set_new contains_one contains_new actives_set_of_one

theorem union_correct_witness:
  "\<exists>r. table_union (recurse_eq empty_env) set_of_one (with_capacity MINSIZE) = Some r \<and>
     table_contains (recurse_eq empty_env) r (VInt 1) 1 = Some True"
  using union_correct [of empty_env set_of_one "with_capacity MINSIZE"] by (auto simp: set_witness)

theorem intersection_correct_witness:
  "\<exists>r. table_intersection (recurse_eq empty_env) set_of_one (with_capacity MINSIZE) = Some r \<and>
     table_contains (recurse_eq empty_env) r (VInt 1) 1 = Some False"
  using intersection_correct [of empty_env set_of_one "with_capacity MINSIZE"] by (auto simp: set_witness)

theorem difference_correct_witness:
  "\<exists>r. table_difference (recurse_eq empty_env) set_of_one (with_capacity MINSIZE) = Some r \<and>
     table_contains (recurse_eq empty_env) r (VInt 1) 1 = Some True"
  using difference_correct [of empty_env set_of_one "with_capacity MINSIZE"] by (auto simp: set_witness)

theorem symmetric_difference_correct_witness:
  "\<exists>r. table_symmetric_difference (recurse_eq empty_env) set_of_one set_of_one = Some r \<and>
     table_contains (recurse_eq empty_env) r (VInt 1) 1 = Some False"
  using symmetric_difference_correct [of empty_env set_of_one set_of_one] by (auto simp: set_witness)

section \<open>Sets in either representation\<close>

definition exact_body :: "env \<Rightarrow> (u8 list \<Rightarrow> u64) \<Rightarrow> pyval set_body \<Rightarrow> bool" where
  "exact_body E sip b \<longleftrightarrow> (case b of
       Table t \<Rightarrow> exact_set E t \<and> (\<forall>(v, h) \<in> set (table_actives t). python_hash sip v = Some h)
     | Fallback vs \<Rightarrow> \<forall>v \<in> set vs. hashable_exact v)"

lemma exact_body_ok: "exact_body E sip b \<longleftrightarrow> py.body_ok E sip b"
  by (simp add: exact_body_def py.body_ok_def exact_set_good split: set_body.splits)

text \<open>C2: the operations of a set agree with a search of its elements.  For a set of either representation with fewer
  than \<open>2^60\<close> elements, and a value, all of them with exact hashes (\<open>None\<close>, \<open>bool\<close>, \<open>int\<close>, \<open>str\<close>,
  \<open>bytes\<close>, dates, times and naive datetimes, time deltas, and tuples of these; floats are left out because their
  equality rounds: \<open>2.0**53\<close> equals \<open>2**53 + 1\<close>, which has another hash): \<open>contains\<close> answers whether an element equal to the value is present;
  \<open>add_value\<close> reports whether it inserted and adds the value when no equal one is present; \<open>discard_value\<close> reports
  whether it removed and removes one equal element.\<close>

theorem set_operations_correct:
  assumes "exact_body E sip b" "hashable_exact x" "body_len b < 2 ^ 60"
  shows "body_contains (recurse_eq E) (python_hash sip) b x = Some (body_mem (recurse_eq E) b x) \<and>
    (\<exists>b'. add_value (recurse_eq E) (python_hash sip) b x = Some (b', \<not> body_mem (recurse_eq E) b x) \<and> exact_body E sip b' \<and>
       mset (body_iter_ordered b') = (if body_mem (recurse_eq E) b x then mset (body_iter_ordered b)
         else add_mset x (mset (body_iter_ordered b)))) \<and>
    (\<exists>b'. discard_value (recurse_eq E) (python_hash sip) b x = Some (b', body_mem (recurse_eq E) b x) \<and> exact_body E sip b' \<and>
       (if body_mem (recurse_eq E) b x
        then \<exists>y. recurse_eq E y x \<and> mset (body_iter_ordered b) = add_mset y (mset (body_iter_ordered b'))
        else b' = b))"
  using assms unfolding exact_body_ok
  by (intro conjI py.body_contains_mem py.add_value_mem py.discard_value_mem)

theorem set_operations_correct_witness:
  "body_contains (recurse_eq empty_env) (python_hash (\<lambda>_. 0)) (Fallback [VInt 1]) (VInt 1) = Some True \<and>
   (\<exists>b'. discard_value (recurse_eq empty_env) (python_hash (\<lambda>_. 0)) (Fallback [VInt 1]) (VInt 1) = Some (b', True))"
proof -
  have "body_mem (recurse_eq empty_env) (Fallback [VInt 1]) (VInt 1)"
    by (simp add: body_mem_def body_iter_ordered_def recurse_eq_one)
  moreover have "exact_body empty_env (\<lambda>_. 0) (Fallback [VInt 1])" "body_len (Fallback [VInt 1]) < 2 ^ 60"
    by (simp_all add: exact_body_def exact_int body_len_def)
  ultimately show ?thesis
    using set_operations_correct [of empty_env "\<lambda>_. 0" "Fallback [VInt 1]" "VInt 1"] exact_int by (simp, blast)
qed

lemma those_Some: "\<forall>v \<in> set vs. f v \<noteq> None \<Longrightarrow> \<exists>ys. those (List.map f vs) = Some ys"
  by (induction vs) (auto split: option.splits)


lemma exact_hash: "hashable_exact v \<Longrightarrow> \<exists>h. python_hash sip v = Some h"
proof (induction v rule: hashable_exact.induct)
  case (1 v)
  from 1(2) show ?case
  proof (cases rule: exact_cases)
    case (11 xs)
    then have "\<forall>x \<in> set xs. python_hash sip x \<noteq> None"
      using 1 by (auto simp: tuple_exact)
    then show ?thesis
      using those_Some [of xs "python_hash sip"] 11 by (auto simp: python_hash.simps [of sip "VTuple xs"])
  qed (simp_all add: python_hash.simps)
qed

lemma exact_hash_all:
  assumes "\<forall>v \<in> set vs. hashable_exact v"
  obtains hs where "hash_all (python_hash sip) vs = Some hs" "list_all2 (\<lambda>v h. python_hash sip v = Some h) vs hs"
proof -
  have "\<exists>hs. those (List.map (python_hash sip) vs) = Some hs \<and> list_all2 (\<lambda>v h. python_hash sip v = Some h) vs hs"
    using assms
  proof (induction vs)
    case (Cons v vs)
    then show ?case using exact_hash [of v sip] by auto
  qed simp
  with that show thesis by (auto simp: hash_all_def)
qed

text \<open>building a set.  From any list of values with exact hashes \<open>from_items\<close> returns a table
  that is duplicate-free, stores every value with its own hash, and contains exactly the values
  equal to an element of the list.\<close>

theorem from_items_correct:
  assumes "\<forall>v \<in> set vs. hashable_exact v" "length vs < 2 ^ 60"
  shows "\<exists>t. from_items (recurse_eq E) (python_hash sip) vs = Some (Table t) \<and> exact_body E sip (Table t) \<and>
     (\<forall>x. hashable_exact x \<longrightarrow>
        body_contains (recurse_eq E) (python_hash sip) (Table t) x = Some (\<exists>v \<in> set vs. recurse_eq E v x))"
proof -
  obtain hs where hs: "hash_all (python_hash sip) vs = Some hs" "list_all2 (\<lambda>v h. python_hash sip v = Some h) vs hs"
    using exact_hash_all [OF assms(1)] .
  define es where "es = zip vs hs"
  have len: "length vs = length hs" and es: "\<forall>(v, h) \<in> set es. python_hash sip v = Some h \<and> v \<in> set vs"
    using hs(2) by (auto simp: list_all2_iff es_def dest: set_zip_leftD)
  obtain t where t: "table_add_all (recurse_eq E) (with_capacity MINSIZE) es = Some t" "wf_table t"
    "contents t = foldl (mset_add (recurse_eq E)) {#} es"
    using add_all_refines [of "with_capacity MINSIZE" es "recurse_eq E"] assms(2) len
    by (auto simp: wf_with_capacity es_def)
  have ex: "\<forall>e \<in> set es. hashable_exact (fst e)"
    using es assms(1) by auto
  have "set_mset (foldl (mset_add (recurse_eq E)) M es) \<subseteq> set_mset M \<union> set es" for M
    by (induction es arbitrary: M) (fastforce simp: mset_add_def split: if_splits)+
  then have sub: "set (table_actives t) \<subseteq> set es"
    using t(3) by (metis contents_def set_mset_empty set_mset_mset sup_bot_left)
  have good: "py.good_table E t"
    using t(2,3) py.good_adds [OF py.good_empty ex] by (simp add: py.good_table_def)
  have ok: "exact_body E sip (Table t)"
    using good sub es by (auto simp: exact_body_def exact_set_good)
  have "body_contains (recurse_eq E) (python_hash sip) (Table t) x = Some (\<exists>v \<in> set vs. recurse_eq E v x)"
    if x: "hashable_exact x" for x
  proof -
    obtain h where h: "python_hash sip x = Some h"
      using exact_hash [OF x] by blast
    have "mset_has (recurse_eq E) (contents t) (x, h) \<longleftrightarrow> (\<exists>(v, g) \<in> set es. g = h \<and> recurse_eq E v x)"
      unfolding t(3) using py.has_adds [OF py.good_empty ex, where x = "(x, h)"] x by (auto simp: mset_has_def)
    also have "\<dots> \<longleftrightarrow> (\<exists>v \<in> set vs. recurse_eq E v x)"
    proof
      assume "\<exists>v \<in> set vs. recurse_eq E v x"
      then obtain v where v: "v \<in> set vs" "recurse_eq E v x" by blast
      then have "v \<in> set (List.map fst es)"
        using len by (simp add: es_def)
      then obtain g where "(v, g) \<in> set es" by auto
      moreover have "g = h"
        using calculation es py.hash_eq [where x = v and y = x and sip = sip] v assms(1) x h by auto
      ultimately show "\<exists>(v, g) \<in> set es. g = h \<and> recurse_eq E v x"
        using v by blast
    qed (use es in auto)
    finally show ?thesis
      using h t(2) by (simp add: body_contains_def contains_refines)
  qed
  then show ?thesis
    using t(1) hs(1) ok
    by (intro exI [of _ t]) (simp add: from_items_def table_from_incremental_def es_def)
qed

theorem from_items_correct_witness:
  "\<exists>t. from_items (recurse_eq empty_env) (python_hash (\<lambda>_. 0)) [VInt 1, VInt 1, VInt 2] = Some (Table t) \<and>
     body_contains (recurse_eq empty_env) (python_hash (\<lambda>_. 0)) (Table t) (VInt 1) = Some True"
proof -
  have "\<forall>v \<in> set [VInt 1, VInt 1, VInt 2]. hashable_exact v"
    by (simp add: exact_int)
  from from_items_correct [OF this, of empty_env "\<lambda>_. 0"] exact_int [of 1] recurse_eq_one show ?thesis
    by auto
qed

end
