(* ===== verification/Errors.thy ===== *)
theory Errors
  imports Values
begin

text \<open>
  Errors and exceptions: \<open>error.rs\<close>, the exception values of \<open>value.rs\<close>, the line
  marker of \<open>eval/mod.rs\<close> and its removal, and the tree of built-in exception
  types of \<open>eval/exceptions.rs\<close>.  A Rust \<open>Result<T, EvalError>\<close> is a sum with the
  error on the left.
\<close>

section \<open>Error values\<close>

datatype interpreter_error =
    Syntax string
  | Security string
  | Runtime string
  | LimitExceeded string
  | RecursionLimitExceeded nat
  | Tool string string
  | NameError string
  | TypeError string
  | ValueError string
  | AttributeError string
  | AssertionError string
  | PythonException string string
  | StateFormatSuperseded nat nat

datatype control_flow = Break | Continue | Return pyval | Yield pyval

datatype eval_error =
    Interpreter interpreter_error
  | Signal control_flow
  | Exception exception_value

type_synonym 'a eval_result = "eval_error + 'a"

definition interpreter_error_display :: "interpreter_error \<Rightarrow> string" where
  "interpreter_error_display err = (case err of
       Syntax m \<Rightarrow> ''SyntaxError: '' @ m
     | Security m \<Rightarrow> ''SecurityError: '' @ m
     | Runtime m \<Rightarrow> ''RuntimeError: '' @ m
     | LimitExceeded m \<Rightarrow> ''LimitExceeded: '' @ m
     | RecursionLimitExceeded limit \<Rightarrow>
         ''RecursionError: maximum recursion depth exceeded ('' @ nat_digits limit @ '')''
     | Tool tool_name message \<Rightarrow> ''ToolError in '' @ [CHR 39] @ tool_name @ [CHR 39] @ '': '' @ message
     | NameError m \<Rightarrow> ''NameError: '' @ m
     | TypeError m \<Rightarrow> ''TypeError: '' @ m
     | ValueError m \<Rightarrow> ''ValueError: '' @ m
     | AttributeError m \<Rightarrow> ''AttributeError: '' @ m
     | AssertionError m \<Rightarrow> ''AssertionError: '' @ m
     | PythonException type_name message \<Rightarrow> type_name @ '': '' @ message
     | StateFormatSuperseded found expected \<Rightarrow>
         ''interpreter state format superseded: found version '' @ nat_digits found @ '', expected '' @
         nat_digits expected @ ''; host must restart from initial step'')"

definition name_not_defined :: "string \<Rightarrow> interpreter_error" where
  "name_not_defined name = NameError (''name '' @ [CHR 39] @ name @ [CHR 39] @ '' is not defined'')"

section \<open>Exception values\<close>

definition exception_new :: "string \<Rightarrow> string \<Rightarrow> exception_value" where
  "exception_new type_name message =
     ExceptionValue type_name message None
       (if message = [] then [] else [VString (str_of message)]) None None []"

text \<open>\<open>group\<close> allocates the list of the nested exceptions; \<open>fresh\<close> is its address.\<close>

definition exception_group :: "addr \<Rightarrow> string \<Rightarrow> string \<Rightarrow> exception_value list \<Rightarrow> exception_value" where
  "exception_group fresh type_name message exceptions =
     ExceptionValue type_name message None [VString (str_of message), VList fresh] None (Some exceptions) []"

definition with_cause :: "exception_value \<Rightarrow> exception_value \<Rightarrow> exception_value" where
  "with_cause e cause = (case e of
     ExceptionValue t m c a l x f \<Rightarrow> ExceptionValue t m (Some cause) a l x f)"

definition with_args :: "exception_value \<Rightarrow> pyval list \<Rightarrow> exception_value" where
  "with_args e args = (case e of
     ExceptionValue t m c a l x f \<Rightarrow> ExceptionValue t m c args l x f)"

definition with_stamped_line :: "exception_value \<Rightarrow> nat option \<Rightarrow> exception_value" where
  "with_stamped_line e line = (case e of
     ExceptionValue t m c a l x f \<Rightarrow> ExceptionValue t m c a line x f)"

definition index_error :: "string \<Rightarrow> exception_value" where
  "index_error kind = exception_new ''IndexError'' (kind @ '' index out of range'')"

definition zero_division_error :: "string \<Rightarrow> exception_value" where
  "zero_division_error message = exception_new ''ZeroDivisionError'' message"

section \<open>The line marker\<close>

text \<open>\<open>line_of\<close> counts newlines among the bytes before the offset.\<close>

definition line_of :: "u8 list \<Rightarrow> nat \<Rightarrow> nat" where
  "line_of source offset =
     (if offset > length source then 1 else length (filter (\<lambda>b. b = 10) (take offset source)) + 1)"

text \<open>The position of the first and of the last occurrence of a pattern.\<close>

primrec find_from :: "string \<Rightarrow> string \<Rightarrow> nat option" where
  "find_from pat [] = (if pat = [] then Some 0 else None)"
| "find_from pat (c # cs) =
     (if take (length pat) (c # cs) = pat then Some 0 else map_option Suc (find_from pat cs))"

primrec rfind :: "string \<Rightarrow> string \<Rightarrow> nat option" where
  "rfind pat [] = (if pat = [] then Some 0 else None)"
| "rfind pat (c # cs) = (case rfind pat cs of
       Some i \<Rightarrow> Some (Suc i)
     | None \<Rightarrow> if take (length pat) (c # cs) = pat then Some 0 else None)"

definition str_contains :: "string \<Rightarrow> string \<Rightarrow> bool" where
  "str_contains s pat \<longleftrightarrow> find_from pat s \<noteq> None"

definition line_suffix :: "nat \<Rightarrow> string" where
  "line_suffix line = '' (at line '' @ nat_digits line @ '')''"

definition stamp_message :: "nat \<Rightarrow> string \<Rightarrow> string" where
  "stamp_message line m = (if str_contains m ''at line '' then m else m @ line_suffix line)"

definition stamp_line :: "eval_error \<Rightarrow> nat \<Rightarrow> eval_error" where
  "stamp_line err line = (case err of
       Signal s \<Rightarrow> err
     | Interpreter inner \<Rightarrow> Interpreter (case inner of
           Security m \<Rightarrow> Security (stamp_message line m)
         | Runtime m \<Rightarrow> Runtime (stamp_message line m)
         | LimitExceeded m \<Rightarrow> LimitExceeded (stamp_message line m)
         | NameError m \<Rightarrow> NameError (stamp_message line m)
         | TypeError m \<Rightarrow> TypeError (stamp_message line m)
         | ValueError m \<Rightarrow> ValueError (stamp_message line m)
         | AttributeError m \<Rightarrow> AttributeError (stamp_message line m)
         | AssertionError m \<Rightarrow> AssertionError (stamp_message line m)
         | Tool tool_name message \<Rightarrow> Tool tool_name (stamp_message line message)
         | other \<Rightarrow> other)
     | Exception exc \<Rightarrow> Exception (case exc_stamped_line exc of
           None \<Rightarrow> with_stamped_line exc (Some (min line (2 ^ 32 - 1)))
         | Some l \<Rightarrow> exc))"

definition strip_line_marker :: "string \<Rightarrow> string" where
  "strip_line_marker msg = (case rfind '' (at line '' msg of
       Some idx \<Rightarrow> if drop idx msg \<noteq> [] \<and> last (drop idx msg) = CHR '')'' then take idx msg else msg
     | None \<Rightarrow> msg)"

definition interpreter_error_to_exception :: "interpreter_error \<Rightarrow> exception_value" where
  "interpreter_error_to_exception err = (case err of
       TypeError m \<Rightarrow> exception_new ''TypeError'' (strip_line_marker m)
     | ValueError m \<Rightarrow> exception_new ''ValueError'' (strip_line_marker m)
     | NameError m \<Rightarrow> exception_new ''NameError'' (strip_line_marker m)
     | AttributeError m \<Rightarrow> exception_new ''AttributeError'' (strip_line_marker m)
     | AssertionError m \<Rightarrow> exception_new ''AssertionError'' (strip_line_marker m)
     | PythonException type_name message \<Rightarrow> exception_new type_name (strip_line_marker message)
     | Runtime m \<Rightarrow> exception_new ''RuntimeError'' (strip_line_marker m)
     | RecursionLimitExceeded limit \<Rightarrow>
         exception_new ''RecursionError'' ''maximum recursion depth exceeded''
     | Tool tool_name message \<Rightarrow>
         exception_new ''Exception''
           (''ToolError in '' @ [CHR 39] @ tool_name @ [CHR 39] @ '': '' @ strip_line_marker message)
     | _ \<Rightarrow> exception_new ''Exception'' (strip_line_marker (interpreter_error_display err)))"

section \<open>The tree of built-in exception types\<close>

text \<open>The arms of the match, in order: the names of an arm and the parent it returns.\<close>

definition exception_tree :: "(string list \<times> string) list" where
  "exception_tree = [
       ([''ZeroDivisionError'', ''OverflowError'', ''FloatingPointError''], ''ArithmeticError''),
       ([''KeyError'', ''IndexError''], ''LookupError''),
       ([''FileNotFoundError'', ''PermissionError'', ''TimeoutError'', ''IOError'', 
         ''BlockingIOError'', ''ChildProcessError'', ''FileExistsError'', ''InterruptedError'', 
         ''IsADirectoryError'', ''NotADirectoryError'', ''ProcessLookupError'', 
         ''ConnectionError''], ''OSError''),
       ([''BrokenPipeError'', ''ConnectionAbortedError'', ''ConnectionRefusedError'', 
         ''ConnectionResetError''], ''ConnectionError''),
       ([''ModuleNotFoundError''], ''ImportError''),
       ([''ImportError''], ''Exception''),
       ([''IndentationError'', ''TabError''], ''SyntaxError''),
       ([''SyntaxError''], ''Exception''),
       ([''UnicodeDecodeError'', ''UnicodeEncodeError'', ''UnicodeTranslateError''], ''UnicodeError''),
       ([''UnicodeError''], ''ValueError''),
       ([''statistics.StatisticsError'', ''json.decoder.JSONDecodeError''], ''ValueError''),
       ([''re.error''], ''Exception''),
       ([''NotImplementedError'', ''RecursionError''], ''RuntimeError''),
       ([''AssertionError'', ''AttributeError'', ''NameError'', ''TypeError'', ''ValueError'', 
         ''RuntimeError'', ''OSError'', ''LookupError'', ''ArithmeticError'', ''StopIteration'', 
         ''ExceptionGroup''], ''Exception''),
       ([''BaseExceptionGroup''], ''BaseException''),
       ([''Exception''], ''BaseException'')]"

definition builtin_exception_parent :: "string \<Rightarrow> string option" where
  "builtin_exception_parent name =
     map_option snd (List.find (\<lambda>(names, parent). name \<in> set names) exception_tree)"

primrec issubclass_loop :: "nat \<Rightarrow> string \<Rightarrow> string \<Rightarrow> bool" where
  "issubclass_loop 0 cur parent = False"
| "issubclass_loop (Suc n) cur parent =
     (cur = parent \<or> (case builtin_exception_parent cur of
        Some p \<Rightarrow> issubclass_loop n p parent | None \<Rightarrow> False))"

definition builtin_exception_issubclass :: "string \<Rightarrow> string \<Rightarrow> bool" where
  "builtin_exception_issubclass exc_name parent = issubclass_loop 16 exc_name parent"

section \<open>The marker is invisible to user code\<close>

lemma rfind_append: "rfind pat ys = Some i \<Longrightarrow> rfind pat (xs @ ys) = Some (length xs + i)"
  by (induction xs) auto

lemma take_eq_append: "take (length p) s = p \<Longrightarrow> \<exists>post. s = p @ post"
  by (metis append_take_drop_id)

lemma rfind_occurs: "rfind pat s \<noteq> None \<Longrightarrow> \<exists>pre post. s = pre @ pat @ post"
proof (induction s)
  case (Cons c s)
  show ?case
  proof (cases "rfind pat s")
    case None
    then have "take (length pat) (c # s) = pat"
      using Cons.prems by (auto split: if_splits)
    then show ?thesis
      using take_eq_append [of pat "c # s"] by (metis append_Nil)
  next
    case (Some i)
    then obtain pre post where "s = pre @ pat @ post" using Cons.IH by auto
    then show ?thesis by (metis append_Cons)
  qed
qed (auto split: if_splits)

lemma find_from_occurs: "find_from pat (pre @ pat @ post) \<noteq> None"
proof (induction pre)
  case Nil
  have "take (length pat) (pat @ post) = pat" by simp
  then show ?case by (cases "pat @ post") auto
next
  case (Cons c pre)
  have "find_from pat (c # s) \<noteq> None" if "find_from pat s \<noteq> None" for s
    using that by simp
  with Cons show ?case by simp
qed

lemma digits_no_paren: "CHR ''('' \<notin> set (nat_digits n)"
proof (induction n rule: nat_digits.induct)
  case (1 n)
  have "CHR ''('' \<noteq> digit_char d" if "d < 10" for d
  proof
    assume "CHR ''('' = digit_char d"
    then have "(of_char CHR ''('' :: nat) = of_char (digit_char d)" by simp
    with that show False by (simp add: digit_char_def)
  qed
  then show ?case
    using 1 by (auto simp: nat_digits.simps [of n])
qed

lemma rfind_suffix: "rfind '' (at line '' (line_suffix n) = Some 0"
proof -
  define t where "t = ''(at line '' @ nat_digits n @ '')''"
  have "rfind '' (at line '' t = None"
  proof (rule ccontr)
    assume "rfind '' (at line '' t \<noteq> None"
    then obtain pre post where "t = pre @ '' (at line '' @ post"
      using rfind_occurs by blast
    then have "t = (pre @ '' '') @ ''(at line '' @ post" by simp
    then have "CHR ''('' \<in> set (tl t)"
      by (cases "pre @ '' ''") auto
    then show False
      using digits_no_paren by (auto simp: t_def)
  qed
  moreover have "line_suffix n = CHR '' '' # t"
    by (simp add: line_suffix_def t_def)
  ultimately show ?thesis by (simp add: t_def)
qed

lemma strip_stamped: "strip_line_marker (m @ line_suffix n) = m"
proof -
  have "rfind '' (at line '' (m @ line_suffix n) = Some (length m)"
    using rfind_append [OF rfind_suffix, of m n] by simp
  then show ?thesis
    by (simp add: strip_line_marker_def) (simp add: line_suffix_def)
qed

lemma strip_unstamped:
  assumes "\<not> str_contains m ''at line ''"
  shows "strip_line_marker m = m"
proof -
  have "rfind '' (at line '' m = None"
  proof (rule ccontr)
    assume "rfind '' (at line '' m \<noteq> None"
    then obtain pre post where "m = (pre @ '' ('') @ ''at line '' @ post"
      using rfind_occurs by fastforce
    then show False
      using assms find_from_occurs [of "''at line ''" "pre @ '' (''" post] by (simp add: str_contains_def)
  qed
  then show ?thesis by (simp add: strip_line_marker_def)
qed

text \<open>The text an error carries into the exception that user code sees.\<close>

definition error_text :: "interpreter_error \<Rightarrow> string" where
  "error_text err = (case err of
       Tool t m \<Rightarrow> m | TypeError m \<Rightarrow> m | ValueError m \<Rightarrow> m | NameError m \<Rightarrow> m | AttributeError m \<Rightarrow> m
     | AssertionError m \<Rightarrow> m | Runtime m \<Rightarrow> m | PythonException t m \<Rightarrow> m
     | _ \<Rightarrow> interpreter_error_display err)"

lemma find_from_drop: "find_from pat s \<noteq> None \<Longrightarrow> find_from pat (pre @ s) \<noteq> None"
  by (induction pre) auto

lemma contains_prefix: "\<not> str_contains (pre @ m) pat \<Longrightarrow> \<not> str_contains m pat"
  using find_from_drop [of pat m pre] unfolding str_contains_def by blast

text \<open>the line marker that \<open>stamp_line\<close> appends to an interpreter error for the host does not
  reach user code: an error and the same error after stamping are converted by the \<open>except\<close>
  machinery to the same exception value.\<close>

theorem stamp_invisible:
  assumes "\<not> str_contains (error_text err) ''at line ''"
    and "stamp_line (Interpreter err) line = Interpreter err'"
  shows "interpreter_error_to_exception err' = interpreter_error_to_exception err"
proof -
  have strip: "strip_line_marker (stamp_message line m) = m" if "\<not> str_contains m ''at line ''" for m
    using that by (simp add: stamp_message_def strip_stamped)
  have pre: "strip_line_marker (pre @ stamp_message line m) = pre @ m"
    if "\<not> str_contains (pre @ m) ''at line ''" for pre m
    using that contains_prefix [OF that] strip_stamped [of "pre @ m" line]
    by (simp add: stamp_message_def)
  show ?thesis
    using assms
    by (cases err)
      (auto simp: stamp_line_def error_text_def interpreter_error_to_exception_def
        interpreter_error_display_def strip strip_unstamped pre [of "''SecurityError: ''", simplified]
        pre [of "''LimitExceeded: ''", simplified])
qed

theorem stamp_invisible_witness:
  "interpreter_error_to_exception (TypeError ''bad operand (at line 7)'') =
   interpreter_error_to_exception (TypeError ''bad operand'')"
proof (rule stamp_invisible)
  show "\<not> str_contains (error_text (TypeError ''bad operand'')) ''at line ''"
    by (simp add: str_contains_def error_text_def)
  then have "\<not> str_contains ''bad operand'' ''at line ''"
    by (simp add: error_text_def)
  moreover have "nat_digits 7 = ''7''"
    by code_simp
  ultimately show "stamp_line (Interpreter (TypeError ''bad operand'')) 7 = Interpreter (TypeError ''bad operand (at line 7)'')"
    by (simp add: stamp_line_def stamp_message_def line_suffix_def)
qed

section \<open>The subclass test is reachability\<close>

definition parent_rel :: "(string \<times> string) set" where
  "parent_rel = {(c, p). builtin_exception_parent c = Some p}"

definition exc_rank :: "string \<Rightarrow> nat" where
  "exc_rank n =
     (if n = ''BaseException'' then 0 else if n = ''Exception'' then 1
      else if n \<in> set [''ArithmeticError'', ''LookupError'', ''OSError'', ''ImportError'', ''SyntaxError'',
        ''ValueError'', ''RuntimeError''] then 2
      else if n \<in> set [''ConnectionError'', ''UnicodeError''] then 3 else 4)"

lemma find_SomeD: "List.find P xs = Some x \<Longrightarrow> x \<in> set xs \<and> P x"
  by (induction xs) (auto split: if_splits)

lemma exc_rank_tree: "list_all (\<lambda>(ns, p). list_all (\<lambda>n. exc_rank p < exc_rank n) ns) exception_tree"
  unfolding exception_tree_def list.pred_inject prod.case by (intro conjI; simp add: exc_rank_def)

lemma exc_rank_decreases:
  assumes "builtin_exception_parent c = Some p"
  shows "exc_rank p < exc_rank c"
proof -
  from assms obtain e where e: "List.find (\<lambda>(names, parent). c \<in> set names) exception_tree = Some e" "snd e = p"
    by (auto simp: builtin_exception_parent_def)
  from find_SomeD [OF e(1)] have "e \<in> set exception_tree" "c \<in> set (fst e)"
    by (simp_all add: split_beta)
  with exc_rank_tree e(2) show ?thesis by (auto simp: list_all_iff)
qed

lemma exc_rank_le: "exc_rank c \<le> 4"
  by (simp add: exc_rank_def)

lemma issubclass_loop_reach:
  "exc_rank c < n \<Longrightarrow> issubclass_loop n c p \<longleftrightarrow> (c, p) \<in> parent_rel\<^sup>*"
proof (induction n arbitrary: c)
  case (Suc n)
  show ?case
  proof (cases "builtin_exception_parent c")
    case None
    then have "(c, p) \<in> parent_rel\<^sup>* \<longleftrightarrow> c = p"
      by (metis (mono_tags, lifting) case_prodD converse_rtranclE mem_Collect_eq option.distinct(1) parent_rel_def
          rtrancl.rtrancl_refl)
    then show ?thesis using None by simp
  next
    case (Some q)
    then have "exc_rank q < n"
      using exc_rank_decreases [OF Some] Suc.prems by simp
    then have "issubclass_loop n q p \<longleftrightarrow> (q, p) \<in> parent_rel\<^sup>*"
      by (rule Suc.IH)
    moreover have "(c, p) \<in> parent_rel\<^sup>* \<longleftrightarrow> c = p \<or> (q, p) \<in> parent_rel\<^sup>*"
      using Some by (auto simp: parent_rel_def elim: converse_rtranclE intro: converse_rtrancl_into_rtrancl)
    ultimately show ?thesis using Some by simp
  qed
qed simp

text \<open>the subclass test of built-in exceptions follows at most sixteen parents; that bound never
  cuts the search short, so the test is exactly reachability in the tree.\<close>

theorem builtin_issubclass_reachability:
  "builtin_exception_issubclass c p \<longleftrightarrow> (c, p) \<in> {(c, p). builtin_exception_parent c = Some p}\<^sup>*"
  using issubclass_loop_reach [of c 16 p] exc_rank_le [of c]
  by (simp add: builtin_exception_issubclass_def parent_rel_def)

end
