(* ===== verification/Value_Keys.thy ===== *)
theory Value_Keys
  imports Equality Errors "HOL-Library.FSet"
begin

text \<open>
  Truth values, type names and dictionary keys: \<open>is_truthy\<close>, \<open>type_name\<close> and the
  \<open>Hash\<close> implementation of \<open>ValueKey\<close> from \<open>value.rs\<close>, and \<open>value_to_key\<close> from
  \<open>eval/literals.rs\<close>.  A key is hashed by writing tokens to a hasher; the model
  returns the tokens, so equal tokens mean equal hashes under any hasher.
\<close>

section \<open>Truth and type names\<close>

fun is_truthy :: "env \<Rightarrow> pyval \<Rightarrow> bool" where
  "is_truthy E v = (case v of
       VNone \<Rightarrow> False
     | VNotImplemented \<Rightarrow> False
     | VBool b \<Rightarrow> b
     | VInt i \<Rightarrow> i \<noteq> 0
     | VBigInt i \<Rightarrow> i \<noteq> 0
     | VFloat f \<Rightarrow> \<not> f64_eq f 0
     | VString s \<Rightarrow> s \<noteq> []
     | VBytes b \<Rightarrow> b \<noteq> []
     | VByteArray b \<Rightarrow> bytes_at E b \<noteq> []
     | VMemoryView inner \<Rightarrow> is_truthy E inner
     | VList l \<Rightarrow> list_at E l \<noteq> []
     | VArray c l \<Rightarrow> list_at E l \<noteq> []
     | VTuple t \<Rightarrow> t \<noteq> []
     | VDict d \<Rightarrow> dict_at E d \<noteq> []
     | VOrderedDict d \<Rightarrow> dict_at E d \<noteq> []
     | VSet s \<Rightarrow> body_len (set_at E s) \<noteq> 0
     | VFrozenset s \<Rightarrow> body_len s \<noteq> 0
     | VCounter c \<Rightarrow> c \<noteq> []
     | VTimeDelta micros \<Rightarrow> micros \<noteq> 0
     | VDeque items n \<Rightarrow> items \<noteq> []
     | VDefaultDict items f \<Rightarrow> items \<noteq> []
     | VChainMap maps \<Rightarrow> list_ex (is_truthy E) maps
     | VDictView d k \<Rightarrow> dict_at E d \<noteq> []
     | VEnumMember c m inner k \<Rightarrow> is_truthy E inner
     | VDecimal m s kind \<Rightarrow> decimal_is_special kind \<or> m \<noteq> 0
     | VFraction n d \<Rightarrow> n \<noteq> 0
     | VComplex re im \<Rightarrow> \<not> f64_eq re 0 \<or> \<not> f64_eq im 0
     | VRange start stop step \<Rightarrow> if 0 < sint step then sint start < sint stop else sint start > sint stop
     | _ \<Rightarrow> True)"

declare is_truthy.simps [simp del]

definition type_name :: "pyval \<Rightarrow> string" where
  "type_name v = (case v of
       VItemGetter ks \<Rightarrow> ''itemgetter''
     | VAttrGetter ps \<Rightarrow> ''attrgetter''
     | VMethodCaller n as kw \<Rightarrow> ''methodcaller''
     | VNone \<Rightarrow> ''NoneType''
     | VNotImplemented \<Rightarrow> ''NotImplementedType''
     | VEllipsis \<Rightarrow> ''ellipsis''
     | VBool b \<Rightarrow> ''bool''
     | VInt i \<Rightarrow> ''int''
     | VBigInt i \<Rightarrow> ''int''
     | VFloat f \<Rightarrow> ''float''
     | VComplex re im \<Rightarrow> ''complex''
     | VString s \<Rightarrow> ''str''
     | VBytes b \<Rightarrow> ''bytes''
     | VByteArray b \<Rightarrow> ''bytearray''
     | VMemoryView inner \<Rightarrow> ''memoryview''
     | VArray c l \<Rightarrow> ''array''
     | VList l \<Rightarrow> ''list''
     | VTuple t \<Rightarrow> ''tuple''
     | VDict d \<Rightarrow> ''dict''
     | VOrderedDict d \<Rightarrow> ''OrderedDict''
     | VSet s \<Rightarrow> ''set''
     | VFrozenset s \<Rightarrow> ''frozenset''
     | VStringIO s \<Rightarrow> ''StringIO''
     | VFunction f \<Rightarrow> ''function''
     | VLambda f \<Rightarrow> ''function''
     | VCoroutine f as kw a \<Rightarrow> ''coroutine''
     | VRange a b c \<Rightarrow> ''range''
     | VException e \<Rightarrow> ''Exception''
     | VExceptionMethod m e \<Rightarrow> ''method''
     | VLazyProxy a n \<Rightarrow> ''LazyProxy''
     | VType n \<Rightarrow> ''type''
     | VClass n \<Rightarrow> ''type''
     | VExceptionType n \<Rightarrow> ''type''
     | VModule n \<Rightarrow> ''module''
     | VInstance c a \<Rightarrow> ''object''
     | VBuiltinTypeMethod t m \<Rightarrow>
         if m \<in> set [''fromkeys'', ''fromhex'', ''from_bytes'', ''maketrans'']
         then ''builtin_function_or_method'' else ''method_descriptor''
     | VModuleFunction m n \<Rightarrow> ''builtin_function_or_method''
     | VBoundMethod r m \<Rightarrow> ''builtin_function_or_method''
     | VBuiltinName n \<Rightarrow> ''builtin_function_or_method''
     | VToolName n \<Rightarrow> ''builtin_function_or_method''
     | VUnboundClassMethod c m \<Rightarrow> ''builtin_function_or_method''
     | VDate d \<Rightarrow> ''date''
     | VReMatch gs ns \<Rightarrow> ''re.Match''
     | VRePattern p \<Rightarrow> ''re.Pattern''
     | VSlice a b c \<Rightarrow> ''slice''
     | VSuper d c a \<Rightarrow> ''super''
     | VSuperClass d c \<Rightarrow> ''super''
     | VProperty c n \<Rightarrow> ''property''
     | VCounter c \<Rightarrow> ''Counter''
     | VDateTime d tz \<Rightarrow> ''datetime''
     | VTime t \<Rightarrow> ''time''
     | VTimeDelta m \<Rightarrow> ''timedelta''
     | VTimeZone z \<Rightarrow> ''timezone''
     | VHashDigest a b \<Rightarrow> ''_hashlib.HASH''
     | VDeque xs n \<Rightarrow> ''deque''
     | VDefaultDict xs f \<Rightarrow> ''defaultdict''
     | VChainMap ms \<Rightarrow> ''ChainMap''
     | VTemplate t \<Rightarrow> ''Template''
     | VDictView d kind \<Rightarrow> dict_view_type_name kind
     | VEnumMember c m inner k \<Rightarrow> ''enum''
     | VDecimal m s k \<Rightarrow> ''Decimal''
     | VFraction n d \<Rightarrow> ''Fraction''
     | VLazy xs i kind \<Rightarrow> lazy_type_name kind
     | VGenerator i \<Rightarrow> ''generator''
     | VBuiltinIter i kind \<Rightarrow> builtin_iter_type_name kind
     | VPartial f as kw \<Rightarrow> ''functools.partial''
     | VLruCache a \<Rightarrow> ''functools._lru_cache_wrapper''
     | VSingleDispatch a \<Rightarrow> ''function'')"

definition python_type_name :: "pyval \<Rightarrow> string" where
  "python_type_name v = (case v of
       VInstance c a \<Rightarrow> c
     | VType n \<Rightarrow> n
     | VClass n \<Rightarrow> n
     | VModule n \<Rightarrow> n
     | other \<Rightarrow> type_name other)"

section \<open>Keys of values\<close>

definition bigint_to_key :: "int \<Rightarrow> value_key" where
  "bigint_to_key n = (case checked_i64 n of Some i \<Rightarrow> KInt i | None \<Rightarrow> KBigInt n)"

definition float_to_key :: "f64 \<Rightarrow> value_key" where
  "float_to_key f = KFloat f"

text \<open>\<open>f + 0.0\<close>: the sign of a zero is lost.\<close>

definition f64_plus_zero :: "f64 \<Rightarrow> f64" where
  "f64_plus_zero f = (if f64_mag f = 0 then 0 else f)"

definition result_all :: "('e + 'a) list \<Rightarrow> 'e + 'a list" where
  "result_all rs = fold (\<lambda>r acc. result_bind acc (\<lambda>xs. result_bind r (\<lambda>x. Inr (xs @ [x])))) rs (Inr [])"

text \<open>Integrality of a decimal, and its integer: the code normalises a \<open>BigDecimal\<close> and looks at
  the number of fractional digits, then rescales to zero digits.\<close>

definition decimal_is_integral :: "int \<Rightarrow> int \<Rightarrow> bool" where
  "decimal_is_integral m s \<longleftrightarrow> s \<le> 0 \<or> 10 ^ nat s dvd m"

definition decimal_to_int :: "int \<Rightarrow> int \<Rightarrow> int" where
  "decimal_to_int m s = (if s \<le> 0 then m * 10 ^ nat (- s) else m div 10 ^ nat s)"

text \<open>\<open>name_hash\<close> is the hash of names by the standard library's default hasher; a function or
  lambda is keyed by its address.\<close>

fun value_to_key :: "(string list \<Rightarrow> i64) \<Rightarrow> pyval \<Rightarrow> value_key eval_result" where
  "value_to_key name_hash v = (case v of
       VNone \<Rightarrow> Inr KNone
     | VEllipsis \<Rightarrow> Inr KEllipsis
     | VBool b \<Rightarrow> Inr (KBool b)
     | VInt i \<Rightarrow> Inr (KInt i)
     | VBigInt i \<Rightarrow> Inr (KBigInt i)
     | VFloat f \<Rightarrow> Inr (float_to_key f)
     | VComplex re im \<Rightarrow>
         Inr (if f64_eq im 0 then float_to_key re else KComplex (f64_plus_zero re) (f64_plus_zero im))
     | VString s \<Rightarrow> Inr (KString s)
     | VTuple items \<Rightarrow> result_bind (result_all (List.map (value_to_key name_hash) items)) (\<lambda>ks. Inr (KTuple ks))
     | VFrozenset body \<Rightarrow>
         result_bind (result_all (List.map (value_to_key name_hash) (body_iter_ordered body)))
           (\<lambda>ks. Inr (KFrozenset ks))
     | VDate d \<Rightarrow> Inr (KDate d)
     | VTime t \<Rightarrow> Inr (KTime t)
     | VTimeDelta m \<Rightarrow> Inr (KTimeDelta m)
     | VDateTime dt tz \<Rightarrow> Inr (KDateTime dt tz)
     | VDecimal m s k \<Rightarrow>
         Inr (if decimal_is_integral m s then bigint_to_key (decimal_to_int m s) else KDecimal m s)
     | VFraction n d \<Rightarrow> Inr (if d = 1 then bigint_to_key n else KFraction n d)
     | VEnumMember class_name member_name inner kind \<Rightarrow>
         (if kind = IntKind \<or> kind = IntFlag \<or> kind = StrKind then value_to_key name_hash inner
          else Inr (KInstance (name_hash [class_name, member_name]) v))
     | VFunction fd \<Rightarrow> Inr (KInstance (of_nat fd) v)
     | VLambda ld \<Rightarrow> Inr (KInstance (of_nat ld) v)
     | VClass name \<Rightarrow> Inr (KInstance (name_hash [name]) v)
     | VType name \<Rightarrow> Inr (KInstance (name_hash [name]) v)
     | VExceptionType name \<Rightarrow> Inr (KInstance (name_hash [name]) v)
     | VBuiltinName name \<Rightarrow> Inr (KInstance (name_hash [name]) v)
     | _ \<Rightarrow> Inl (Interpreter (TypeError (''unhashable type: '' @ [CHR 39] @ type_name v @ [CHR 39]))))"

declare value_to_key.simps [simp del]

section \<open>Hashing keys\<close>

datatype token =
    Tag nat | WriteI64 i64 | WriteU64 u64 | WriteBig int | WriteStr pystr | WriteLen nat | WriteU8 nat
  | WriteDate naive_date | WriteTime naive_time | WriteDateTime naive_datetime

record hash_env =
  hasher :: "token list \<Rightarrow> u64"
  decimal_normalized :: "int \<Rightarrow> int \<Rightarrow> int \<times> int"

text \<open>The tokens that \<open>ValueKey::hash\<close> writes.  The hash of a frozenset runs a fresh default hasher
  on every element and combines the results with exclusive or.\<close>

fun key_tokens :: "env \<Rightarrow> hash_env \<Rightarrow> value_key \<Rightarrow> token list" where
  "key_tokens E H k = (case k of
       KNone \<Rightarrow> [Tag 0]
     | KEllipsis \<Rightarrow> [Tag 7]
     | KBool b \<Rightarrow> [Tag 1, WriteI64 (if b then 1 else 0)]
     | KInt i \<Rightarrow> [Tag 1, WriteI64 i]
     | KBigInt i \<Rightarrow> Tag 1 # (case checked_i64 i of Some n \<Rightarrow> [WriteI64 n] | None \<Rightarrow> [WriteBig i])
     | KFloat bits \<Rightarrow> (case float_key_i64 bits of
           Some i \<Rightarrow> [Tag 1, WriteI64 i] | None \<Rightarrow> [Tag 2, WriteU64 bits])
     | KComplex re im \<Rightarrow> [Tag 6, WriteU64 re, WriteU64 im]
     | KString s \<Rightarrow> [Tag 3, WriteStr s]
     | KTuple items \<Rightarrow> Tag 4 # WriteLen (length items) # concat (List.map (key_tokens E H) items)
     | KFrozenset items \<Rightarrow>
         [Tag 8, WriteU64 (foldl (\<lambda>acc h. acc XOR h) 0 (List.map (\<lambda>i. hasher H (key_tokens E H i)) items))]
     | KInstance h v \<Rightarrow> [Tag 5, WriteI64 h]
     | KDate d \<Rightarrow> [Tag 9, WriteDate d]
     | KTime t \<Rightarrow> [Tag 10, WriteTime t]
     | KTimeDelta m \<Rightarrow> [Tag 12, WriteI64 m]
     | KDecimal m s \<Rightarrow> (case decimal_normalized H m s of (m', s') \<Rightarrow> [Tag 13, WriteBig m', WriteBig s'])
     | KFraction n d \<Rightarrow> [Tag 14, WriteBig n, WriteBig d]
     | KDateTime dt tz \<Rightarrow> (case tz of
           None \<Rightarrow> [Tag 11, WriteU8 0, WriteDateTime dt]
         | Some o1 \<Rightarrow> [Tag 11, WriteU8 1, WriteDateTime (datetime_sub E dt o1)]))"

declare key_tokens.simps [simp del]

section \<open>Equal keys hash alike\<close>

text \<open>The abstract key: equal keys have the same one.\<close>

datatype akey =
    ANone | AEllipsis | ANum int | AFloat f64 | AComplex f64 f64 | AString pystr | ATuple "akey list"
  | AFrozen "akey fset" | ADate naive_date | ATime naive_time | ADelta i64 | ADecimal rat
  | AFraction int int | ANaive naive_datetime | AAware naive_datetime | AInstance

fun key_abs :: "env \<Rightarrow> value_key \<Rightarrow> akey" where
  "key_abs E k = (case k of
       KNone \<Rightarrow> ANone
     | KEllipsis \<Rightarrow> AEllipsis
     | KBool b \<Rightarrow> ANum (if b then 1 else 0)
     | KInt i \<Rightarrow> ANum (sint i)
     | KBigInt i \<Rightarrow> ANum i
     | KFloat bits \<Rightarrow> (case float_key_i64 bits of Some i \<Rightarrow> ANum (sint i) | None \<Rightarrow> AFloat bits)
     | KComplex re im \<Rightarrow> AComplex re im
     | KString s \<Rightarrow> AString s
     | KTuple items \<Rightarrow> ATuple (List.map (key_abs E) items)
     | KFrozenset items \<Rightarrow> AFrozen (fset_of_list (List.map (key_abs E) items))
     | KInstance h v \<Rightarrow> AInstance
     | KDate d \<Rightarrow> ADate d
     | KTime t \<Rightarrow> ATime t
     | KTimeDelta m \<Rightarrow> ADelta m
     | KDecimal m s \<Rightarrow> ADecimal (decimal_rat m s)
     | KFraction n d \<Rightarrow> AFraction n d
     | KDateTime dt tz \<Rightarrow> (case tz of None \<Rightarrow> ANaive dt | Some o1 \<Rightarrow> AAware (datetime_sub E dt o1)))"

declare key_abs.simps [simp del]

text \<open>Keys without instances, whose frozensets hold numerically distinct elements.\<close>

fun key_ok :: "env \<Rightarrow> value_key \<Rightarrow> bool" where
  "key_ok E k = (case k of
       KTuple items \<Rightarrow> list_all (key_ok E) items
     | KFrozenset items \<Rightarrow> list_all (key_ok E) items \<and> distinct (List.map (key_abs E) items)
     | KInstance h v \<Rightarrow> False
     | _ \<Rightarrow> True)"

declare key_ok.simps [simp del]

lemmas key_defs = key_tokens.simps key_abs.simps key_ok.simps

lemma key_abs_simps [simp]:
  "key_abs E (KTuple xs) = ATuple (List.map (key_abs E) xs)"
  "key_abs E (KFrozenset xs) = AFrozen (fset_of_list (List.map (key_abs E) xs))"
  by (simp_all add: key_abs.simps)

lemma key_ok_simps [simp]:
  "key_ok E (KTuple xs) \<longleftrightarrow> (\<forall>x \<in> set xs. key_ok E x)"
  "key_ok E (KFrozenset xs) \<longleftrightarrow> (\<forall>x \<in> set xs. key_ok E x) \<and> distinct (List.map (key_abs E) xs)"
  "\<not> key_ok E (KInstance h v)"
  by (simp_all add: key_ok.simps [of E "KTuple xs"] key_ok.simps [of E "KFrozenset xs"]
      key_ok.simps [of E "KInstance h v"] list_all_iff)

lemma key_eq_abs_scalar:
  assumes "key_eq E ve x y" "\<And>xs. x \<noteq> KTuple xs" "\<And>xs. x \<noteq> KFrozenset xs" "\<And>h v. x \<noteq> KInstance h v"
  shows "key_abs E x = key_abs E y"
  using assms unfolding key_eq.simps [of E ve x y]
  by (cases x; cases y)
    (auto simp: key_abs.simps same_instant_def split: option.splits if_splits)

lemma key_eq_abs:
  "key_ok E x \<Longrightarrow> key_ok E y \<Longrightarrow> key_eq E ve x y \<Longrightarrow> key_abs E x = key_abs E y"
proof (induction "size x + size y" arbitrary: x y rule: less_induct)
  case less
  show ?case
  proof (cases "(\<exists>xs. x = KTuple xs) \<or> (\<exists>xs. x = KFrozenset xs)")
    case False
    moreover have "x \<noteq> KInstance h v" for h v
      using less.prems(1) by auto
    ultimately show ?thesis
      using key_eq_abs_scalar [OF less.prems(3)] by blast
  next
    case True
    then show ?thesis
    proof
      assume "\<exists>xs. x = KTuple xs"
      then obtain xs where x: "x = KTuple xs" ..
      then obtain ys where y: "y = KTuple ys"
        and eq: "length xs = length ys" "\<forall>(u, v) \<in> set (zip xs ys). key_eq E ve u v"
        using less.prems(3) unfolding key_eq.simps [of E ve x y] by (auto simp: list_all_iff split: value_key.splits)
      have "key_abs E u = key_abs E v" if "(u, v) \<in> set (zip xs ys)" for u v
        using that less.hyps [of u v] less.prems(1,2) eq(2) size_in_list [of u xs] size_in_list [of v ys]
          set_zip_leftD [OF that] set_zip_rightD [OF that] by (auto simp: x y)
      then show ?thesis
        using eq(1) by (auto simp: x y list_eq_iff_nth_eq in_set_zip)
    next
      assume "\<exists>xs. x = KFrozenset xs"
      then obtain xs where x: "x = KFrozenset xs" ..
      then obtain ys where y: "y = KFrozenset ys"
        and eq: "length xs = length ys" "\<forall>u \<in> set xs. \<exists>v \<in> set ys. key_eq E ve v u"
        using less.prems(3) unfolding key_eq.simps [of E ve x y]
        by (auto simp: list_all_iff list_ex_iff split: value_key.splits)
      have "key_abs E ` set xs \<subseteq> key_abs E ` set ys"
      proof
        fix a assume "a \<in> key_abs E ` set xs"
        then obtain u where u: "u \<in> set xs" "a = key_abs E u" by blast
        then obtain v where v: "v \<in> set ys" "key_eq E ve v u" using eq(2) by blast
        then have "key_abs E v = key_abs E u"
          using less.hyps [of v u] less.prems(1,2) u size_in_list [of u xs] size_in_list [of v ys]
          by (auto simp: x y)
        with u v show "a \<in> key_abs E ` set ys" by (metis image_eqI)
      qed
      moreover have "card (key_abs E ` set xs) = card (key_abs E ` set ys)"
        using less.prems(1,2) eq(1) distinct_card [of "List.map (key_abs E) xs"]
          distinct_card [of "List.map (key_abs E) ys"] by (simp add: x y)
      ultimately have "key_abs E ` set xs = key_abs E ` set ys"
        by (intro card_subset_eq) auto
      then show ?thesis by (simp add: x y fset_of_list.rep_eq fset_inject [symmetric])
    qed
  qed
qed

lemma mset_map_factor:
  assumes "mset (List.map f xs) = mset (List.map f ys)"
    and "\<And>x y. x \<in> set xs \<Longrightarrow> y \<in> set ys \<Longrightarrow> f x = f y \<Longrightarrow> g x = g y"
  shows "mset (List.map g xs) = mset (List.map g ys)"
  using assms
proof (induction xs arbitrary: ys)
  case (Cons x xs)
  then have "f x \<in> set (List.map f ys)"
    by (metis list.set_intros(1) list.simps(9) set_mset_mset)
  then obtain y where y: "y \<in> set ys" "f x = f y" by auto
  obtain zs where zs: "mset ys = add_mset y (mset zs)"
    using y(1) by (metis ex_mset in_multiset_in_set insert_DiffM)
  then have "set ys = insert y (set zs)"
    by (metis set_mset_add_mset_insert set_mset_mset)
  have "mset (List.map f xs) = mset (List.map f zs)"
    using Cons.prems(1) zs y(2) by simp
  then have "mset (List.map g xs) = mset (List.map g zs)"
    using Cons.prems(2) \<open>set ys = insert y (set zs)\<close> by (intro Cons.IH) auto
  then show ?case
    using zs y Cons.prems(2) [of x y] by simp
qed simp

lemma xor_fold_mset:
  assumes "mset xs = mset ys"
  shows "foldl (\<lambda>acc h. acc XOR h) (0 :: u64) xs = foldl (\<lambda>acc h. acc XOR h) 0 ys"
proof -
  have "fold (\<lambda>h acc. acc XOR h) xs (0 :: u64) = fold (\<lambda>h acc. acc XOR h) ys 0"
    using assms by (intro fun_cong [OF fold_multiset_equiv]) (auto simp: fun_eq_iff ac_simps)
  then show ?thesis by (simp add: foldl_conv_fold)
qed

definition normalizes :: "hash_env \<Rightarrow> bool" where
  "normalizes H \<longleftrightarrow> (\<forall>m s m' s'. decimal_rat m s = decimal_rat m' s' \<longrightarrow>
     decimal_normalized H m s = decimal_normalized H m' s')"

lemma tokens_num:
  assumes "key_abs E x = ANum n"
  shows "key_tokens E H x = Tag 1 # (case checked_i64 n of Some i \<Rightarrow> [WriteI64 i] | None \<Rightarrow> [WriteBig n])"
proof -
  have "checked_i64 1 = Some 1" "checked_i64 0 = Some 0"
    by (simp_all add: checked_i64_def in_i64_def)
  then show ?thesis
    using assms by (cases x) (auto simp: key_defs split: option.splits if_splits)
qed


definition scalar_tokens :: "akey \<Rightarrow> token list" where
  "scalar_tokens a = (case a of
       ANone \<Rightarrow> [Tag 0] | AEllipsis \<Rightarrow> [Tag 7] | AFloat f \<Rightarrow> [Tag 2, WriteU64 f]
     | AComplex re im \<Rightarrow> [Tag 6, WriteU64 re, WriteU64 im] | AString s \<Rightarrow> [Tag 3, WriteStr s]
     | ADate d \<Rightarrow> [Tag 9, WriteDate d] | ATime t \<Rightarrow> [Tag 10, WriteTime t] | ADelta m \<Rightarrow> [Tag 12, WriteI64 m]
     | AFraction n d \<Rightarrow> [Tag 14, WriteBig n, WriteBig d]
     | ANaive dt \<Rightarrow> [Tag 11, WriteU8 0, WriteDateTime dt] | AAware dt \<Rightarrow> [Tag 11, WriteU8 1, WriteDateTime dt]
     | _ \<Rightarrow> [])"

definition scalar_abs :: "akey \<Rightarrow> bool" where
  "scalar_abs a = (case a of
     ATuple as \<Rightarrow> False | AFrozen as \<Rightarrow> False | ANum n \<Rightarrow> False | ADecimal r \<Rightarrow> False | _ \<Rightarrow> True)"

lemma tokens_scalar:
  assumes "key_ok E x" "scalar_abs (key_abs E x)"
  shows "key_tokens E H x = scalar_tokens (key_abs E x)"
  using assms unfolding key_tokens.simps [of E H x] key_abs.simps [of E x]
  by (cases x) (simp_all add: scalar_tokens_def scalar_abs_def split: option.splits)

lemma abs_decimal: "key_abs E y = ADecimal r \<Longrightarrow> \<exists>m s. y = KDecimal m s \<and> decimal_rat m s = r"
  by (cases y) (auto simp: key_abs.simps split: option.splits)

lemma abs_tuple: "key_abs E y = ATuple as \<Longrightarrow> \<exists>ys. y = KTuple ys"
  by (cases y) (auto simp: key_abs.simps split: option.splits)

lemma abs_frozen: "key_abs E y = AFrozen as \<Longrightarrow> \<exists>ys. y = KFrozenset ys"
  by (cases y) (auto simp: key_abs.simps split: option.splits)

lemma key_tokens_abs:
  assumes "normalizes H"
  shows "key_ok E x \<Longrightarrow> key_ok E y \<Longrightarrow> key_abs E x = key_abs E y \<Longrightarrow> key_tokens E H x = key_tokens E H y"
proof (induction "size x" arbitrary: x y rule: less_induct)
  case less
  consider (tuple) as where "key_abs E x = ATuple as" | (frozen) as where "key_abs E x = AFrozen as"
    | (num) n where "key_abs E x = ANum n" | (decimal) r where "key_abs E x = ADecimal r"
    | (other) "scalar_abs (key_abs E x)"
    by (cases "key_abs E x") (auto simp: scalar_abs_def)
  then show ?case
  proof cases
    case tuple
    then obtain xs ys where x: "x = KTuple xs" and y: "y = KTuple ys"
      using abs_tuple less.prems(3) by metis
    then have map: "List.map (key_abs E) xs = List.map (key_abs E) ys"
      using less.prems(3) by simp
    then have len: "length xs = length ys" by (metis length_map)
    have "key_tokens E H (xs ! i) = key_tokens E H (ys ! i)" if "i < length xs" for i
      using that len map less.prems(1,2) less.hyps [of "xs ! i" "ys ! i"] size_in_list [of "xs ! i" xs]
      by (auto simp: x y list_eq_iff_nth_eq)
    then have "List.map (key_tokens E H) xs = List.map (key_tokens E H) ys"
      using len by (simp add: list_eq_iff_nth_eq)
    then show ?thesis
      using len by (simp add: x y key_tokens.simps [of E H "KTuple xs"] key_tokens.simps [of E H "KTuple ys"])
  next
    case frozen
    then obtain xs ys where x: "x = KFrozenset xs" and y: "y = KFrozenset ys"
      using abs_frozen less.prems(3) by metis
    have "set (List.map (key_abs E) xs) = set (List.map (key_abs E) ys)"
      using less.prems(3) by (simp add: x y fset_of_list.rep_eq fset_inject [symmetric])
    moreover have "distinct (List.map (key_abs E) xs)" "distinct (List.map (key_abs E) ys)"
      using less.prems(1,2) by (simp_all add: x y)
    ultimately have "mset (List.map (key_abs E) xs) = mset (List.map (key_abs E) ys)"
      by (metis set_eq_iff_mset_eq_distinct)
    then have "mset (List.map (\<lambda>i. hasher H (key_tokens E H i)) xs) = mset (List.map (\<lambda>i. hasher H (key_tokens E H i)) ys)"
    proof (rule mset_map_factor)
      fix u v assume uv: "u \<in> set xs" "v \<in> set ys" "key_abs E u = key_abs E v"
      then show "hasher H (key_tokens E H u) = hasher H (key_tokens E H v)"
        using less.hyps [of u v] less.prems(1,2) size_in_list [of u xs] by (auto simp: x y)
    qed
    from xor_fold_mset [OF this] show ?thesis
      by (simp add: x y key_tokens.simps [of E H "KFrozenset xs"] key_tokens.simps [of E H "KFrozenset ys"])
  next
    case num
    then show ?thesis
      using tokens_num [of E x n H] tokens_num [of E y n H] less.prems(3) by simp
  next
    case decimal
    then obtain m s m' s' where "x = KDecimal m s" "y = KDecimal m' s'" "decimal_rat m s = decimal_rat m' s'"
      using abs_decimal less.prems(3) by metis
    moreover from this have "decimal_normalized H m s = decimal_normalized H m' s'"
      using assms unfolding normalizes_def by blast
    ultimately show ?thesis
      by (simp add: key_tokens.simps [of E H "KDecimal _ _"])
  next
    case other
    then show ?thesis
      using tokens_scalar [of E x H] tokens_scalar [of E y H] less.prems by simp
  qed
qed

text \<open>C7: the contract of the hash map of dictionaries, for keys without instances: keys built from \<open>None\<close>, \<open>...\<close>, numbers,
  strings, dates and times, tuples, and frozensets of pairwise different keys.  Two such keys that compare equal,
  across \<open>bool\<close>, \<open>int\<close>, big integers and integral floats, nested in tuples and frozensets, write the same tokens to
  the hasher.  The decimal crate's normal form is assumed to depend on the numerical value only.  (For the keys that box
  a class, type, function or enum member the contract can fail: equal \<open>typing.Union\<close> types with their members in
  another order are hashed by their names.)\<close>

theorem key_hash_contract:
  assumes "\<forall>m s m' s'. decimal_rat m s = decimal_rat m' s' \<longrightarrow>
      decimal_normalized H m s = decimal_normalized H m' s'"
    and "key_ok E x" "key_ok E y" "key_eq E ve x y"
  shows "key_tokens E H x = key_tokens E H y"
proof -
  have "normalizes H"
    using assms(1) unfolding normalizes_def .
  from key_tokens_abs [OF this assms(2,3) key_eq_abs [OF assms(2-4)]] show ?thesis .
qed

lemma key_eq_simps [simp]:
  "key_eq E ve (KTuple a) (KTuple b) \<longleftrightarrow> length a = length b \<and> list_all (\<lambda>(u, v). key_eq E ve u v) (zip a b)"
  "key_eq E ve (KBool c) (KInt i) \<longleftrightarrow> i = (if c then 1 else 0)"
  "key_eq E ve (KInt i) (KInt j) \<longleftrightarrow> i = j"
  "key_eq E ve (KFloat f) (KInt i) \<longleftrightarrow> float_key_i64 f = Some i"
  "key_eq E ve (KInt i) (KFloat f) \<longleftrightarrow> float_key_i64 f = Some i"
  "key_eq E ve (KFloat f) (KFloat g) \<longleftrightarrow> f = g"
  by (simp_all add: key_eq.simps [of E ve "KTuple a" "KTuple b"] key_eq.simps [of E ve "KBool c" "KInt i"]
      key_eq.simps [of E ve "KInt i" "KInt j"] key_eq.simps [of E ve "KFloat f" "KInt i"]
      key_eq.simps [of E ve "KInt i" "KFloat f"] key_eq.simps [of E ve "KFloat f" "KFloat g"])

definition sample_hash_env :: hash_env where
  "sample_hash_env = \<lparr>hasher = \<lambda>_. 0, decimal_normalized = \<lambda>m s. quotient_of (decimal_rat m s)\<rparr>"

theorem key_hash_contract_witness:
  "key_eq empty_env (=) (KTuple [KBool True]) (KTuple [KInt 1]) \<and>
   key_tokens empty_env sample_hash_env (KTuple [KBool True]) =
     key_tokens empty_env sample_hash_env (KTuple [KInt 1])"
proof -
  have eq: "key_eq empty_env (=) (KTuple [KBool True]) (KTuple [KInt 1])"
    by simp
  moreover have "key_tokens empty_env sample_hash_env (KTuple [KBool True]) =
     key_tokens empty_env sample_hash_env (KTuple [KInt 1])"
    by (rule key_hash_contract [OF _ _ _ eq]) (simp_all add: sample_hash_env_def key_ok.simps [of _ "KBool _"] key_ok.simps [of _ "KInt _"])
  ultimately show ?thesis by blast
qed

text \<open>equality of keys is not transitive.  Both zeros of the floats equal the integer key \<open>0\<close>,
  but float keys are compared by their bits, so \<open>{0.0: x}[-0.0]\<close> is a miss.\<close>

theorem key_eq_zero_not_transitive:
  "key_eq E ve (KFloat 0) (KInt 0) \<and> key_eq E ve (KInt 0) (KFloat 0x8000000000000000) \<and>
   \<not> key_eq E ve (KFloat 0) (KFloat 0x8000000000000000) \<and>
   recurse_eq E (VFloat 0) (VFloat 0x8000000000000000)"
proof -
  have z: "float_key_i64 0 = Some 0" "float_key_i64 0x8000000000000000 = Some 0"
    by (simp_all add: float_key_i64_def is_finite_def f64_exp_def f64_mag_def f64_integral_def f64_pow_def
        f64_mant_def f64_frac_def f64_as_i64_def is_nan_def is_infinite_def f64_trunc_def f64_eq_def f64_key_def
        f64_sign_def f64_of_int_def f64_round_nat_def i64_min_def i64_max_def)
  have "recurse_eq_depth E (Suc n) (VFloat 0) (VFloat 0x8000000000000000)" for n
    by (simp add: eq_slot_def float_eq_def f64_eq_def is_nan_def f64_exp_def f64_mag_def f64_frac_def f64_key_def
        f64_sign_def)
  from this [of 999] show ?thesis
    by (simp add: z recurse_eq_def EQ_RECURSION_LIMIT_def)
qed

section \<open>Values survive the conversion to keys\<close>

lemma result_all_Inr:
  assumes "\<And>x. x \<in> set xs \<Longrightarrow> f x = Inr (g x)"
  shows "result_all (List.map f xs) = Inr (List.map g xs)"
proof -
  have "fold (\<lambda>r acc. result_bind acc (\<lambda>xs. result_bind r (\<lambda>x. Inr (xs @ [x])))) (List.map f xs) (Inr acc)
      = Inr (acc @ List.map g xs)" for acc
    using assms by (induction xs arbitrary: acc) simp_all
  then show ?thesis by (simp add: result_all_def)
qed

text \<open>Values that a key holds unchanged: no integer that the key would narrow, no decimal or fraction
  of an integral value, no frozenset.\<close>

fun keyable :: "pyval \<Rightarrow> bool" where
  "keyable v = (case v of
       VNone \<Rightarrow> True | VEllipsis \<Rightarrow> True | VBool b \<Rightarrow> True | VInt i \<Rightarrow> True | VBigInt n \<Rightarrow> \<not> in_i64 n
     | VFloat f \<Rightarrow> True | VString s \<Rightarrow> True | VDate d \<Rightarrow> True | VTime t \<Rightarrow> True | VTimeDelta m \<Rightarrow> True
     | VDateTime d tz \<Rightarrow> True | VTuple xs \<Rightarrow> list_all keyable xs
     | VFunction f \<Rightarrow> True | VLambda f \<Rightarrow> True | VClass n \<Rightarrow> True | VType n \<Rightarrow> True | VExceptionType n \<Rightarrow> True
     | VBuiltinName n \<Rightarrow> True
     | VDecimal m s k \<Rightarrow> k = Normal \<and> \<not> decimal_is_integral m s
     | VFraction n d \<Rightarrow> d \<noteq> 1
     | VEnumMember c m inner k \<Rightarrow> k = Plain \<or> k = Flag
     | _ \<Rightarrow> False)"

declare keyable.simps [simp del]

text \<open>a value used as a dictionary key comes back unchanged when the keys are iterated.\<close>

theorem key_round_trip:
  assumes "keyable v"
  shows "\<exists>k. value_to_key name_hash v = Inr k \<and> key_to_value set_of k = v"
  using assms
proof (induction v rule: keyable.induct)
  case (1 v)
  show ?case
  proof (cases "\<exists>xs. v = VTuple xs")
    case True
    then obtain xs where v: "v = VTuple xs" ..
    have "\<exists>k. value_to_key name_hash x = Inr k \<and> key_to_value set_of k = x" if "x \<in> set xs" for x
      using 1 that by (auto simp: v keyable.simps [of "VTuple xs"] list_all_iff)
    then obtain g where g: "\<And>x. x \<in> set xs \<Longrightarrow> value_to_key name_hash x = Inr (g x) \<and> key_to_value set_of (g x) = x"
      by metis
    then have "value_to_key name_hash v = Inr (KTuple (List.map g xs))"
      using result_all_Inr [of xs "value_to_key name_hash" g] by (simp add: v value_to_key.simps [of _ "VTuple xs"])
    moreover have "key_to_value set_of (KTuple (List.map g xs)) = v"
      using g by (simp add: v key_to_value.simps [of _ "KTuple _"] map_idI)
    ultimately show ?thesis by blast
  next
    case False
    then show ?thesis
      using 1(2) unfolding keyable.simps [of v] value_to_key.simps [of name_hash v]
      by (cases v) (auto simp: key_to_value.simps float_to_key_def int_from_bigint_def checked_i64_def)
  qed
qed

theorem key_round_trip_witness:
  "\<exists>k. value_to_key (\<lambda>_. 0) (VTuple [VInt 3, VString [104, 105]]) = Inr k \<and>
     key_to_value Fallback k = VTuple [VInt 3, VString [104, 105]]"
  by (rule key_round_trip)
    (simp add: keyable.simps [of "VTuple _"] keyable.simps [of "VInt _"] keyable.simps [of "VString _"])

text \<open>values without a key.  Lists, dictionaries, sets and byte arrays raise the \<open>TypeError\<close>
  of an unhashable type with their type name; so does \<open>bytes\<close>, although \<open>hash\<close> and sets accept it.\<close>

theorem unhashable_keys:
  "v \<in> {VList a, VDict a, VSet a, VByteArray a, VBytes b} \<Longrightarrow>
   value_to_key name_hash v =
     Inl (Interpreter (TypeError (''unhashable type: '' @ [CHR 39] @ type_name v @ [CHR 39]))) \<and>
   (v = VBytes b \<longrightarrow> python_hash sip v = Some (hash_bytes sip b))"
  by (auto simp: value_to_key.simps python_hash.simps)

theorem unhashable_keys_witness:
  "value_to_key (\<lambda>_. 0) (VBytes [104]) =
     Inl (Interpreter (TypeError (''unhashable type: '' @ [CHR 39] @ ''bytes'' @ [CHR 39]))) \<and>
   python_hash (\<lambda>_. 0) (VBytes [104]) = Some (hash_bytes (\<lambda>_. 0) [104])"
  using unhashable_keys [of "VBytes [104]" 0 "[104]" "\<lambda>_. 0" "\<lambda>_. 0"] by (simp add: type_name_def)

end
