(* ===== verification/Ordering.thy ===== *)
theory Ordering
  imports Value_Keys
begin

text \<open>
  The order of values: \<open>dispatch_lt\<close> of \<open>types.rs\<close> with the less-than slot of every
  type object.  The recursion through lists follows shared storage without a depth
  guard, so the model takes the number of levels it may descend; \<open>Inl None\<close> is a
  comparison that needs more.  A Python-level error is \<open>Inl (Some e)\<close>.
\<close>

type_synonym 'a lt_result = "eval_error option + 'a"

definition type_object_name :: "pyval \<Rightarrow> string" where
  "type_object_name v = (case v of
       VNone \<Rightarrow> ''NoneType''
     | VBool b \<Rightarrow> ''bool''
     | VInt i \<Rightarrow> ''int''
     | VBigInt i \<Rightarrow> ''int''
     | VFloat f \<Rightarrow> ''float''
     | VComplex re im \<Rightarrow> ''complex''
     | VString s \<Rightarrow> ''str''
     | VBytes b \<Rightarrow> ''bytes''
     | VByteArray b \<Rightarrow> ''bytearray''
     | VMemoryView b \<Rightarrow> ''memoryview''
     | VList l \<Rightarrow> ''list''
     | VTuple t \<Rightarrow> ''tuple''
     | VDict d \<Rightarrow> ''dict''
     | VOrderedDict d \<Rightarrow> ''OrderedDict''
     | VSet s \<Rightarrow> ''set''
     | VFrozenset s \<Rightarrow> ''frozenset''
     | VRange a b c \<Rightarrow> ''range''
     | VCounter m \<Rightarrow> ''Counter''
     | VDeque xs n \<Rightarrow> ''deque''
     | VDefaultDict m f \<Rightarrow> ''defaultdict''
     | VChainMap ms \<Rightarrow> ''ChainMap''
     | VDictView d k \<Rightarrow> ''dict_view''
     | VDecimal m s k \<Rightarrow> ''Decimal''
     | VFraction n d \<Rightarrow> ''Fraction''
     | VDate d \<Rightarrow> ''date''
     | VDateTime d tz \<Rightarrow> ''datetime''
     | VTime t \<Rightarrow> ''time''
     | VTimeDelta m \<Rightarrow> ''timedelta''
     | VTimeZone z \<Rightarrow> ''timezone''
     | VHashDigest a b \<Rightarrow> ''_hashlib.HASH''
     | VEnumMember c m inner k \<Rightarrow> ''enum''
     | _ \<Rightarrow> ''object'')"

definition type_error_unsupported :: "string \<Rightarrow> pyval \<Rightarrow> pyval \<Rightarrow> eval_error" where
  "type_error_unsupported opr lhs rhs =
     (let name = (\<lambda>v. case v of VInstance c a \<Rightarrow> c | _ \<Rightarrow> type_object_name v) in
      Interpreter (TypeError ([CHR 39] @ opr @ [CHR 39] @ '' not supported between instances of '' @
        [CHR 39] @ name lhs @ [CHR 39] @ '' and '' @ [CHR 39] @ name rhs @ [CHR 39])))"

section \<open>Orders of the parts\<close>

fun lex_less :: "('a :: linorder) list \<Rightarrow> 'a list \<Rightarrow> bool" where
  "lex_less [] ys = (ys \<noteq> [])"
| "lex_less (x # xs) [] = False"
| "lex_less (x # xs) (y # ys) = (x < y \<or> x = y \<and> lex_less xs ys)"

text \<open>\<open>chrono\<close> orders dates and times chronologically.\<close>

definition date_fields :: "naive_date \<Rightarrow> int list" where
  "date_fields d = [year d, int (month d), int (day d)]"

definition time_fields :: "naive_time \<Rightarrow> int list" where
  "time_fields t = [int (hour t), int (minute t), int (second t), int (nanosecond t)]"

definition datetime_fields :: "naive_datetime \<Rightarrow> int list" where
  "datetime_fields d = date_fields (fst d) @ time_fields (snd d)"

section \<open>Less-than slots\<close>

definition date_lt :: "pyval \<Rightarrow> pyval \<Rightarrow> bool lt_result option" where
  "date_lt lhs rhs = (case lhs of
       VDate a \<Rightarrow> (case rhs of VDate b \<Rightarrow> Some (Inr (lex_less (date_fields a) (date_fields b))) | _ \<Rightarrow> None)
     | _ \<Rightarrow> None)"

definition time_lt :: "pyval \<Rightarrow> pyval \<Rightarrow> bool lt_result option" where
  "time_lt lhs rhs = (case lhs of
       VTime a \<Rightarrow> (case rhs of VTime b \<Rightarrow> Some (Inr (lex_less (time_fields a) (time_fields b))) | _ \<Rightarrow> None)
     | _ \<Rightarrow> None)"

definition timedelta_lt :: "pyval \<Rightarrow> pyval \<Rightarrow> bool lt_result option" where
  "timedelta_lt lhs rhs = (case lhs of
       VTimeDelta a \<Rightarrow> (case rhs of VTimeDelta b \<Rightarrow> Some (Inr (sint a < sint b)) | _ \<Rightarrow> None)
     | _ \<Rightarrow> None)"

definition datetime_lt :: "env \<Rightarrow> pyval \<Rightarrow> pyval \<Rightarrow> bool lt_result option" where
  "datetime_lt E lhs rhs = (case lhs of
       VDateTime a ta \<Rightarrow> (case rhs of
           VDateTime b tb \<Rightarrow> (case (ta, tb) of
               (None, None) \<Rightarrow> Some (Inr (lex_less (datetime_fields a) (datetime_fields b)))
             | (Some oa, Some ob) \<Rightarrow>
                 Some (Inr (lex_less (datetime_fields (datetime_sub E a oa)) (datetime_fields (datetime_sub E b ob))))
             | _ \<Rightarrow> Some (Inl (Some (Interpreter (TypeError
                 (''can'' @ [CHR 39] @ ''t compare offset-naive and offset-aware datetimes''))))))
         | _ \<Rightarrow> None)
     | _ \<Rightarrow> None)"

definition bool_lt :: "pyval \<Rightarrow> pyval \<Rightarrow> bool lt_result option" where
  "bool_lt lhs rhs = (case lhs of
       VBool a \<Rightarrow> (let av = (if a then 1 else 0) in (case rhs of
           VBool b \<Rightarrow> Some (Inr (av < (if b then 1 else (0 :: int))))
         | VInt b \<Rightarrow> Some (Inr (av < sint b))
         | VFloat b \<Rightarrow> Some (Inr (f64_lt (f64_of_int av) b))
         | _ \<Rightarrow> None))
     | _ \<Rightarrow> None)"

definition int_lt :: "pyval \<Rightarrow> pyval \<Rightarrow> bool lt_result option" where
  "int_lt lhs rhs = (case value_as_bigint lhs of
       None \<Rightarrow> None
     | Some a \<Rightarrow> (case rhs of
           VInt i \<Rightarrow> map_option (\<lambda>b. Inr (a < b)) (value_as_bigint rhs)
         | VBigInt i \<Rightarrow> map_option (\<lambda>b. Inr (a < b)) (value_as_bigint rhs)
         | VBool i \<Rightarrow> map_option (\<lambda>b. Inr (a < b)) (value_as_bigint rhs)
         | VFloat b \<Rightarrow> Some (Inr (f64_lt (f64_of_int a) b))
         | _ \<Rightarrow> None))"

definition float_lt :: "pyval \<Rightarrow> pyval \<Rightarrow> bool lt_result option" where
  "float_lt lhs rhs = (case lhs of
       VFloat a \<Rightarrow> (case rhs of
           VFloat b \<Rightarrow> Some (Inr (f64_lt a b))
         | VBool b \<Rightarrow> Some (Inr (f64_lt a (f64_of_bool b)))
         | VInt b \<Rightarrow> Some (Inr (f64_lt a (f64_of_int (sint b))))
         | VBigInt b \<Rightarrow> Some (Inr (f64_lt a (f64_of_int b)))
         | _ \<Rightarrow> None)
     | _ \<Rightarrow> None)"

definition str_lt :: "pyval \<Rightarrow> pyval \<Rightarrow> bool lt_result option" where
  "str_lt lhs rhs = (case lhs of
       VString a \<Rightarrow> (case rhs of VString b \<Rightarrow> Some (Inr (lex_less a b)) | _ \<Rightarrow> None) | _ \<Rightarrow> None)"

definition bytes_lt :: "env \<Rightarrow> pyval \<Rightarrow> pyval \<Rightarrow> bool lt_result option" where
  "bytes_lt E lhs rhs = (case (bytes_view E lhs, bytes_view E rhs) of
       (Some a, Some b) \<Rightarrow> Some (Inr (lex_less a b)) | _ \<Rightarrow> None)"

fun lex_lt ::
  "(pyval \<Rightarrow> pyval \<Rightarrow> bool) \<Rightarrow> (pyval \<Rightarrow> pyval \<Rightarrow> bool lt_result) \<Rightarrow> pyval list \<Rightarrow> pyval list \<Rightarrow> bool lt_result" where
  "lex_lt req lt [] b = Inr (b \<noteq> [])"
| "lex_lt req lt (x # xs) [] = Inr False"
| "lex_lt req lt (x # xs) (y # ys) = (if req x y then lex_lt req lt xs ys else lt x y)"

definition list_lt ::
  "env \<Rightarrow> (pyval \<Rightarrow> pyval \<Rightarrow> bool lt_result) \<Rightarrow> pyval \<Rightarrow> pyval \<Rightarrow> bool lt_result option" where
  "list_lt E lt lhs rhs = (case lhs of
       VList a \<Rightarrow> (case rhs of
           VList b \<Rightarrow> Some (if a = b then Inr False else lex_lt (recurse_eq E) lt (list_at E a) (list_at E b))
         | _ \<Rightarrow> None)
     | _ \<Rightarrow> None)"

definition tuple_lt ::
  "env \<Rightarrow> (pyval \<Rightarrow> pyval \<Rightarrow> bool lt_result) \<Rightarrow> pyval \<Rightarrow> pyval \<Rightarrow> bool lt_result option" where
  "tuple_lt E lt lhs rhs = (case lhs of
       VTuple a \<Rightarrow> (case rhs of VTuple b \<Rightarrow> Some (lex_lt (recurse_eq E) lt a b) | _ \<Rightarrow> None)
     | _ \<Rightarrow> None)"

definition proper_subset :: "(pyval \<Rightarrow> pyval \<Rightarrow> bool) \<Rightarrow> pyval list \<Rightarrow> pyval list \<Rightarrow> bool" where
  "proper_subset req a b \<longleftrightarrow> length a < length b \<and> list_all (\<lambda>av. list_ex (\<lambda>bv. req av bv) b) a"

definition set_lt :: "env \<Rightarrow> pyval \<Rightarrow> pyval \<Rightarrow> bool lt_result option" where
  "set_lt E lhs rhs = (case (set_items E lhs, set_items E rhs) of
       (Some a, Some b) \<Rightarrow> Some (Inr (proper_subset (recurse_eq E) a b)) | _ \<Rightarrow> None)"

definition dictview_lt :: "env \<Rightarrow> pyval \<Rightarrow> pyval \<Rightarrow> bool lt_result option" where
  "dictview_lt E lhs rhs = (case (view_elems E (recurse_eq E) lhs, view_elems E (recurse_eq E) rhs) of
       (Some a, Some b) \<Rightarrow> Some (Inr (proper_subset (recurse_eq E) a b)) | _ \<Rightarrow> None)"

section \<open>The numeric tower\<close>

definition is_float :: "pyval \<Rightarrow> bool" where "is_float v = (case v of VFloat f \<Rightarrow> True | _ \<Rightarrow> False)"
definition is_decimal :: "pyval \<Rightarrow> bool" where "is_decimal v = (case v of VDecimal m s k \<Rightarrow> True | _ \<Rightarrow> False)"
definition is_fraction :: "pyval \<Rightarrow> bool" where "is_fraction v = (case v of VFraction n d \<Rightarrow> True | _ \<Rightarrow> False)"

definition is_nan_value :: "pyval \<Rightarrow> bool" where
  "is_nan_value v = (case v of VFloat f \<Rightarrow> is_nan f | _ \<Rightarrow> False)"

definition inf_rank :: "pyval \<Rightarrow> int" where
  "inf_rank v = (case v of VFloat f \<Rightarrow> if is_infinite f then (if f64_sign f then - 1 else 1) else 0 | _ \<Rightarrow> 0)"

datatype ordering = Less | Equal | Greater

definition cmp :: "'a :: linorder \<Rightarrow> 'a \<Rightarrow> ordering" where
  "cmp a b = (if a < b then Less else if a = b then Equal else Greater)"

definition tower_partial_cmp :: "pyval \<Rightarrow> pyval \<Rightarrow> ordering option" where
  "tower_partial_cmp lhs rhs =
     (if is_nan_value lhs \<or> is_nan_value rhs then None
      else if inf_rank lhs = 0 \<and> inf_rank rhs = 0 then
        (case (exact_rational lhs, exact_rational rhs) of (Some a, Some b) \<Rightarrow> Some (cmp a b) | _ \<Rightarrow> None)
      else Some (cmp (inf_rank lhs) (inf_rank rhs)))"

definition decimal_rank :: "decimal_kind \<Rightarrow> int" where
  "decimal_rank k = (case k of NegInf \<Rightarrow> - 2 | PosInf \<Rightarrow> 2 | _ \<Rightarrow> 0)"

definition decimal_lt :: "pyval \<Rightarrow> pyval \<Rightarrow> bool lt_result option" where
  "decimal_lt lhs rhs =
     (let ka = decimal_operand_kind lhs; kb = decimal_operand_kind rhs in
      if decimal_is_special ka \<or> decimal_is_special kb then
        (if ka = Nan \<or> kb = Nan
         then Some (Inl (Some (Exception (exception_new ''InvalidOperation'' ''comparison involving NaN''))))
         else Some (Inr (decimal_rank ka < decimal_rank kb)))
      else if is_decimal lhs \<and> (is_float rhs \<or> is_fraction rhs) \<or> is_decimal rhs \<and> (is_float lhs \<or> is_fraction lhs)
      then Some (Inr (tower_partial_cmp lhs rhs = Some Less))
      else (case (decimal_to_bigdecimal lhs, decimal_to_bigdecimal rhs) of
              (Some (m, s), Some (m', s')) \<Rightarrow> Some (Inr (decimal_rat m s < decimal_rat m' s'))
            | _ \<Rightarrow> None))"

definition fraction_lt :: "pyval \<Rightarrow> pyval \<Rightarrow> bool lt_result option" where
  "fraction_lt lhs rhs =
     (if is_fraction lhs \<and> (is_float rhs \<or> is_decimal rhs) \<or> is_fraction rhs \<and> (is_float lhs \<or> is_decimal lhs)
      then Some (Inr (tower_partial_cmp lhs rhs = Some Less))
      else (case (fraction_to_bigrational lhs, fraction_to_bigrational rhs) of
              (Some a, Some b) \<Rightarrow> Some (Inr (a < b)) | _ \<Rightarrow> None))"

section \<open>Dispatch\<close>

text \<open>\<open>type_of(value).lt_slot(lhs, rhs)\<close>.\<close>

definition lt_slot ::
  "env \<Rightarrow> (pyval \<Rightarrow> pyval \<Rightarrow> bool lt_result) \<Rightarrow> pyval \<Rightarrow> pyval \<Rightarrow> pyval \<Rightarrow> bool lt_result option" where
  "lt_slot E lt value1 lhs rhs = (case value1 of
       VBool b \<Rightarrow> bool_lt lhs rhs
     | VInt i \<Rightarrow> int_lt lhs rhs
     | VBigInt i \<Rightarrow> int_lt lhs rhs
     | VFloat f \<Rightarrow> float_lt lhs rhs
     | VString s \<Rightarrow> str_lt lhs rhs
     | VBytes b \<Rightarrow> bytes_lt E lhs rhs
     | VByteArray b \<Rightarrow> bytes_lt E lhs rhs
     | VMemoryView b \<Rightarrow> bytes_lt E lhs rhs
     | VList l \<Rightarrow> list_lt E lt lhs rhs
     | VTuple t \<Rightarrow> tuple_lt E lt lhs rhs
     | VSet s \<Rightarrow> set_lt E lhs rhs
     | VFrozenset s \<Rightarrow> set_lt E lhs rhs
     | VDictView d k \<Rightarrow> dictview_lt E lhs rhs
     | VDate d \<Rightarrow> date_lt lhs rhs
     | VDateTime d tz \<Rightarrow> datetime_lt E lhs rhs
     | VTime t \<Rightarrow> time_lt lhs rhs
     | VTimeDelta m \<Rightarrow> timedelta_lt lhs rhs
     | VDecimal m s k \<Rightarrow> decimal_lt lhs rhs
     | VFraction n d \<Rightarrow> fraction_lt lhs rhs
     | _ \<Rightarrow> None)"

definition unwrap_enum_for_compare :: "pyval \<Rightarrow> pyval option" where
  "unwrap_enum_for_compare v = (case v of
       VEnumMember c m inner k \<Rightarrow> if k = IntKind \<or> k = StrKind then Some inner else None | _ \<Rightarrow> None)"

primrec dispatch_lt :: "env \<Rightarrow> nat \<Rightarrow> pyval \<Rightarrow> pyval \<Rightarrow> bool lt_result" where
  "dispatch_lt E 0 = (\<lambda>lhs rhs. Inl None)"
| "dispatch_lt E (Suc n) = (\<lambda>lhs rhs.
     (let lhs_u = unwrap_enum_for_compare lhs; rhs_u = unwrap_enum_for_compare rhs in
      if lhs_u \<noteq> None \<or> rhs_u \<noteq> None
      then dispatch_lt E n (case lhs_u of Some v \<Rightarrow> v | None \<Rightarrow> lhs) (case rhs_u of Some v \<Rightarrow> v | None \<Rightarrow> rhs)
      else (case lt_slot E (dispatch_lt E n) lhs lhs rhs of
              Some r \<Rightarrow> r
            | None \<Rightarrow> (case lt_slot E (dispatch_lt E n) rhs lhs rhs of
                Some r \<Rightarrow> r
              | None \<Rightarrow> Inl (Some (type_error_unsupported ''<'' lhs rhs))))))"

section \<open>Orders that are total on their kind\<close>

text \<open>
  Two kinds of values on which \<open>dispatch_lt\<close> always answers: the integers in their
  three representations, and the strings.
\<close>

definition integral :: "pyval \<Rightarrow> bool" where
  "integral v = (case v of VInt i \<Rightarrow> True | VBigInt b \<Rightarrow> True | VBool b \<Rightarrow> True | _ \<Rightarrow> False)"

definition is_string :: "pyval \<Rightarrow> bool" where
  "is_string v = (case v of VString s \<Rightarrow> True | _ \<Rightarrow> False)"

definition int_value :: "pyval \<Rightarrow> int" where
  "int_value v = (case value_as_bigint v of Some i \<Rightarrow> i | None \<Rightarrow> 0)"

definition str_value :: "pyval \<Rightarrow> nat list" where
  "str_value v = (case v of VString s \<Rightarrow> s | _ \<Rightarrow> [])"

text \<open>\<open>kinded True\<close> are the strings and \<open>kinded False\<close> the integers.\<close>

definition kinded :: "bool \<Rightarrow> pyval \<Rightarrow> bool" where
  "kinded s v = (if s then is_string v else integral v)"

definition kind_less :: "bool \<Rightarrow> pyval \<Rightarrow> pyval \<Rightarrow> bool" where
  "kind_less s a b = (if s then lex_less (str_value a) (str_value b) else int_value a < int_value b)"

lemma integral_simps [simp]:
  "integral (VInt i)" "integral (VBigInt b)" "integral (VBool c)"
  "int_value (VInt i) = sint i" "int_value (VBigInt b) = b" "int_value (VBool c) = (if c then 1 else 0)"
  by (simp_all add: integral_def int_value_def value_as_bigint.simps)

lemma integral_cases:
  assumes "integral v"
  obtains i where "v = VInt i" | b where "v = VBigInt b" | b where "v = VBool b"
  using assms by (cases v) (simp_all add: integral_def)

lemma dispatch_lt_int:
  assumes "integral a" "integral b"
  shows "dispatch_lt E (Suc n) a b = Inr (int_value a < int_value b)"
  by (rule integral_cases [OF assms(1)]; rule integral_cases [OF assms(2)])
    (simp_all add: unwrap_enum_for_compare_def lt_slot_def int_lt_def bool_lt_def int_value_def
      value_as_bigint.simps)

lemma dispatch_lt_str:
  "dispatch_lt E (Suc n) (VString a) (VString b) = Inr (lex_less a b)"
  by (simp add: unwrap_enum_for_compare_def lt_slot_def str_lt_def)

lemma dispatch_lt_kinded:
  assumes "kinded s a" "kinded s b"
  shows "dispatch_lt E (Suc n) a b = Inr (kind_less s a b)"
proof (cases s)
  case True
  then obtain x y where "a = VString x" "b = VString y"
    using assms by (auto simp: kinded_def is_string_def split: pyval.splits)
  then show ?thesis using True dispatch_lt_str by (simp add: kind_less_def str_value_def)
next
  case False
  then show ?thesis using assms dispatch_lt_int by (simp add: kind_less_def kinded_def)
qed

lemma lex_less_asym: "lex_less xs ys \<Longrightarrow> \<not> lex_less ys xs"
proof (induction xs ys rule: lex_less.induct)
  case (1 ys)
  then show ?case by (cases ys) auto
qed auto

lemma lex_less_weak: "\<not> lex_less ys xs \<Longrightarrow> \<not> lex_less zs ys \<Longrightarrow> \<not> lex_less zs xs"
proof (induction xs arbitrary: ys zs)
  case Nil
  then show ?case by (cases zs) auto
next
  case (Cons x xs)
  obtain y ys' where y: "ys = y # ys'" using Cons.prems(1) by (cases ys) auto
  then obtain z zs' where z: "zs = z # zs'" using Cons.prems(2) by (cases zs) auto
  show ?case using Cons.IH [of ys' zs'] Cons.prems unfolding y z by auto
qed

lemma kind_less_asym: "kind_less s a b \<Longrightarrow> \<not> kind_less s b a"
  using lex_less_asym by (auto simp: kind_less_def split: if_splits)

lemma kind_less_weak: "\<not> kind_less s b a \<Longrightarrow> \<not> kind_less s c b \<Longrightarrow> \<not> kind_less s c a"
  using lex_less_weak by (auto simp: kind_less_def split: if_splits)

end
