(* ===== verification/Heapq.thy ===== *)
theory Heapq
  imports Ordering
begin

text \<open>
  The \<open>heapq\<close> module (\<open>eval/modules/heapq.rs\<close>): a binary heap in a list, with
  CPython's \<open>_siftup\<close> and \<open>_siftdown\<close>.  The operations work in place, so each returns
  the list together with the result; when a comparison fails half-way, the list is
  left as the code leaves it.

  The comparison is a parameter of the operations.  The locale states what a
  comparison must satisfy for the heap to be correct: it answers on the elements,
  and the order it computes is a strict weak order.
\<close>

section \<open>Operations\<close>

function siftdown_loop ::
  "('v \<Rightarrow> 'v \<Rightarrow> 'e + bool) \<Rightarrow> 'v list \<Rightarrow> nat \<Rightarrow> nat \<Rightarrow> 'v \<Rightarrow> 'v list \<times> ('e + unit)" where
  "siftdown_loop lt heap startpos pos newitem =
     (if pos > startpos then
        (let parentpos = (pos - 1) div 2 in
         (case lt newitem (heap ! parentpos) of
            Inl e \<Rightarrow> (heap, Inl e)
          | Inr b \<Rightarrow> if b then siftdown_loop lt (heap[pos := heap ! parentpos]) startpos parentpos newitem
                    else (heap[pos := newitem], Inr ())))
      else (heap[pos := newitem], Inr ()))"
  by pat_completeness auto
termination
  by (relation "measure (\<lambda>(lt, heap, startpos, pos, newitem). pos)") auto

declare siftdown_loop.simps [simp del]

definition siftdown :: "('v \<Rightarrow> 'v \<Rightarrow> 'e + bool) \<Rightarrow> 'v list \<Rightarrow> nat \<Rightarrow> nat \<Rightarrow> 'v list \<times> ('e + unit)" where
  "siftdown lt heap startpos pos = siftdown_loop lt heap startpos pos (heap ! pos)"

text \<open>The child that moves up, or the error of comparing the two children.\<close>

definition smaller_child :: "('v \<Rightarrow> 'v \<Rightarrow> 'e + bool) \<Rightarrow> 'v list \<Rightarrow> nat \<Rightarrow> 'e + nat" where
  "smaller_child lt heap childpos =
     (let rightpos = childpos + 1 in
      if rightpos < length heap
      then result_bind (lt (heap ! childpos) (heap ! rightpos))
             (\<lambda>b. Inr (if b then childpos else rightpos))
      else Inr childpos)"

lemma smaller_child_cases:
  "smaller_child lt heap childpos = Inr c \<Longrightarrow> c = childpos \<or> c = childpos + 1 \<and> childpos + 1 < length heap"
  by (auto simp: smaller_child_def Let_def result_bind_eq_Inr split: if_splits)

function siftup_loop ::
  "('v \<Rightarrow> 'v \<Rightarrow> 'e + bool) \<Rightarrow> 'v list \<Rightarrow> nat \<Rightarrow> 'v list \<times> ('e + nat)" where
  "siftup_loop lt heap pos =
     (let childpos = 2 * pos + 1 in
      if childpos < length heap then
        (case smaller_child lt heap childpos of
           Inl e \<Rightarrow> (heap, Inl e)
         | Inr c \<Rightarrow> siftup_loop lt (heap[pos := heap ! c]) c)
      else (heap, Inr pos))"
  by pat_completeness auto
termination
  by (relation "measure (\<lambda>(lt, heap, pos). length heap - pos)") (auto dest: smaller_child_cases)

declare siftup_loop.simps [simp del]

definition siftup :: "('v \<Rightarrow> 'v \<Rightarrow> 'e + bool) \<Rightarrow> 'v list \<Rightarrow> nat \<Rightarrow> 'v list \<times> ('e + unit)" where
  "siftup lt heap pos =
     (let newitem = heap ! pos in
      (case siftup_loop lt heap pos of
         (heap1, Inl e) \<Rightarrow> (heap1, Inl e)
       | (heap1, Inr p) \<Rightarrow> siftdown lt (heap1[p := newitem]) pos p))"

primrec heapify_from :: "('v \<Rightarrow> 'v \<Rightarrow> 'e + bool) \<Rightarrow> 'v list \<Rightarrow> nat \<Rightarrow> 'v list \<times> ('e + unit)" where
  "heapify_from lt heap 0 = (heap, Inr ())"
| "heapify_from lt heap (Suc i) =
     (case siftup lt heap i of
        (heap1, Inl e) \<Rightarrow> (heap1, Inl e)
      | (heap1, Inr u) \<Rightarrow> heapify_from lt heap1 i)"

definition heapify :: "('v \<Rightarrow> 'v \<Rightarrow> 'e + bool) \<Rightarrow> 'v list \<Rightarrow> 'v list \<times> ('e + unit)" where
  "heapify lt heap = heapify_from lt heap (length heap div 2)"

definition heappush :: "('v \<Rightarrow> 'v \<Rightarrow> 'e + bool) \<Rightarrow> 'v list \<Rightarrow> 'v \<Rightarrow> 'v list \<times> ('e + unit)" where
  "heappush lt heap item = siftdown lt (heap @ [item]) 0 (length heap)"

definition returning :: "'v list \<times> ('e + unit) \<Rightarrow> 'r \<Rightarrow> 'v list \<times> ('e + 'r)" where
  "returning p r = (case p of (h, Inl e) \<Rightarrow> (h, Inl e) | (h, Inr u) \<Rightarrow> (h, Inr r))"

text \<open>\<open>eemp\<close> is the \<open>IndexError\<close> of an empty heap.\<close>

definition pop_min :: "'e \<Rightarrow> ('v \<Rightarrow> 'v \<Rightarrow> 'e + bool) \<Rightarrow> 'v list \<Rightarrow> 'v list \<times> ('e + 'v)" where
  "pop_min eemp lt heap =
     (if heap = [] then (heap, Inl eemp)
      else let rest = butlast heap in
           if rest = [] then (rest, Inr (last heap))
           else returning (siftup lt (rest[0 := last heap]) 0) (rest ! 0))"

definition heappushpop :: "('v \<Rightarrow> 'v \<Rightarrow> 'e + bool) \<Rightarrow> 'v list \<Rightarrow> 'v \<Rightarrow> 'v list \<times> ('e + 'v)" where
  "heappushpop lt heap item =
     (if heap \<noteq> [] then
        (case lt (heap ! 0) item of
           Inl e \<Rightarrow> (heap, Inl e)
         | Inr b \<Rightarrow> if b then returning (siftup lt (heap[0 := item]) 0) (heap ! 0) else (heap, Inr item))
      else (heap, Inr item))"

definition heapreplace :: "'e \<Rightarrow> ('v \<Rightarrow> 'v \<Rightarrow> 'e + bool) \<Rightarrow> 'v list \<Rightarrow> 'v \<Rightarrow> 'v list \<times> ('e + 'v)" where
  "heapreplace eemp lt heap item =
     (if heap = [] then (heap, Inl eemp)
      else returning (siftup lt (heap[0 := item]) 0) (heap ! 0))"

section \<open>Correctness\<close>

definition parent :: "nat \<Rightarrow> nat" where "parent i = (i - 1) div 2"

lemma parent_fold: "(i - Suc 0) div 2 = parent i" "(i - 1) div 2 = parent i"
  by (simp_all add: parent_def)

lemma parent_less: "0 < i \<Longrightarrow> parent i < i"
  by (simp add: parent_def)

lemma parent_children: "0 < i \<Longrightarrow> parent i = p \<longleftrightarrow> i = 2 * p + 1 \<or> i = 2 * p + 2"
  by (auto simp: parent_def)

inductive below :: "nat \<Rightarrow> nat \<Rightarrow> bool" for s where
  here: "below s s"
| child: "below s (parent q) \<Longrightarrow> 0 < q \<Longrightarrow> below s q"

lemma below_le: "below s q \<Longrightarrow> s \<le> q"
proof (induction rule: below.induct)
  case (child q)
  then show ?case using parent_less [of q] by simp
qed simp

lemma below_parent: "below s q \<Longrightarrow> s < q \<Longrightarrow> below s (parent q)"
  by (cases rule: below.cases) auto

locale heap_order =
  fixes lt :: "'v \<Rightarrow> 'v \<Rightarrow> 'e + bool" and elem :: "'v \<Rightarrow> bool" and less :: "'v \<Rightarrow> 'v \<Rightarrow> bool"
  assumes lt_less: "elem a \<Longrightarrow> elem b \<Longrightarrow> lt a b = Inr (less a b)"
    and less_asym: "elem a \<Longrightarrow> elem b \<Longrightarrow> less a b \<Longrightarrow> \<not> less b a"
    and less_weak: "elem a \<Longrightarrow> elem b \<Longrightarrow> elem c \<Longrightarrow> \<not> less b a \<Longrightarrow> \<not> less c b \<Longrightarrow> \<not> less c a"
begin

definition ordered_from :: "nat \<Rightarrow> 'v list \<Rightarrow> bool" where
  "ordered_from s h \<longleftrightarrow> (\<forall>i < length h. 0 < i \<longrightarrow> s \<le> parent i \<longrightarrow> \<not> less (h ! i) (h ! parent i))"

definition heap :: "'v list \<Rightarrow> bool" where
  "heap h \<longleftrightarrow> (\<forall>v \<in> set h. elem v) \<and> ordered_from 0 h"

text \<open>The list with a hole at \<open>q\<close>: every edge from \<open>s\<close> on that avoids the hole is ordered, and the
  parent of the hole is below the children of the hole.\<close>

definition hole :: "nat \<Rightarrow> nat \<Rightarrow> 'v list \<Rightarrow> bool" where
  "hole s q h \<longleftrightarrow> (\<forall>i < length h. 0 < i \<longrightarrow> s \<le> parent i \<longrightarrow> i \<noteq> q \<longrightarrow> parent i \<noteq> q \<longrightarrow> \<not> less (h ! i) (h ! parent i)) \<and>
     (s < q \<longrightarrow> (\<forall>i < length h. 0 < i \<longrightarrow> parent i = q \<longrightarrow> \<not> less (h ! i) (h ! parent q)))"

lemma fill_ordered:
  assumes "below s q" "q < length h" "hole s q h" "\<forall>i < length h. 0 < i \<longrightarrow> parent i = q \<longrightarrow> \<not> less (h ! i) x"
    "s < q \<Longrightarrow> \<not> less x (h ! parent q)"
  shows "ordered_from s (h[q := x])"
  unfolding ordered_from_def
proof (intro allI impI)
  fix i assume i: "i < length (h[q := x])" "0 < i" "s \<le> parent i"
  consider "i = q" | "i \<noteq> q" "parent i = q" | "i \<noteq> q" "parent i \<noteq> q" by blast
  then show "\<not> less (h[q := x] ! i) (h[q := x] ! parent i)"
  proof cases
    case 1
    then have "parent q \<noteq> q" "s < q"
      using i parent_less [of q] by auto
    then show ?thesis using 1 i assms(5) by simp
  next
    case 2
    then show ?thesis using i assms(2,4) by auto
  next
    case 3
    then show ?thesis using i assms(3) by (auto simp: hole_def)
  qed
qed

lemma hole_up:
  assumes "below s q" "s < q" "q < length h" "\<forall>v \<in> set h. elem v" "hole s q h"
  shows "hole s (parent q) (h[q := h ! parent q])"
proof -
  define p where "p = parent q"
  have q: "0 < q" "p < q" "s \<le> p"
    using assms(2) parent_less [of q] below_le [OF below_parent [OF assms(1,2)]] by (auto simp: p_def)
  have el: "elem (h ! i)" if "i < length h" for i
    using assms(4) that by simp
  let ?h = "h[q := h ! p]"
  have keep: "\<not> less (h ! i) (h ! parent i)" if "i < length h" "0 < i" "s \<le> parent i" "i \<noteq> q" "parent i \<noteq> q" for i
    using assms(5) that by (auto simp: hole_def)
  have bridge: "\<not> less (h ! i) (h ! p)" if "i < length h" "0 < i" "parent i = q" for i
    using assms(5) that assms(2) by (auto simp: hole_def p_def)
  have "\<not> less (?h ! i) (?h ! parent i)"
    if "i < length h" "0 < i" "s \<le> parent i" "i \<noteq> p" "parent i \<noteq> p" for i
  proof (cases "i = q")
    case True
    then show ?thesis using that p_def by simp
  next
    case False
    then show ?thesis
      using keep [OF that(1-3)] bridge [OF that(1,2)] assms(3) by (cases "parent i = q") auto
  qed
  moreover have "\<not> less (?h ! i) (?h ! parent p)" if "s < p" "i < length h" "0 < i" "parent i = p" for i
  proof -
    have pp: "0 < p" "s \<le> parent p" "parent p < p"
      using that(1) parent_less [of p] below_le below_parent [OF below_parent [OF assms(1,2)]] by (auto simp: p_def)
    have top: "\<not> less (h ! p) (h ! parent p)"
      using keep [of p] pp q assms(3) by auto
    show ?thesis
    proof (cases "i = q")
      case True
      then show ?thesis using top pp q assms(3) by simp
    next
      case False
      have "\<not> less (h ! i) (h ! p)"
        using keep [of i] that False q pp by auto
      then have "\<not> less (h ! i) (h ! parent p)"
        using less_weak [of "h ! parent p" "h ! p" "h ! i"] top el that(2) pp q assms(3) by auto
      then show ?thesis using False pp q by simp
    qed
  qed
  ultimately show ?thesis
    using assms(3) unfolding hole_def p_def by simp
qed

lemma siftdown_ok:
  assumes "below s q" "q < length h" "\<forall>v \<in> set h. elem v" "elem x" "hole s q h"
    "\<forall>i < length h. 0 < i \<longrightarrow> parent i = q \<longrightarrow> \<not> less (h ! i) x"
  shows "\<exists>h'. siftdown_loop lt h s q x = (h', Inr ()) \<and> mset h' = mset (h[q := x]) \<and> ordered_from s h'"
  using assms
proof (induction q arbitrary: h rule: less_induct)
  case (less q)
  show ?case
  proof (cases "s < q \<and> less x (h ! parent q)")
    case False
    have "ordered_from s (h[q := x])"
      using fill_ordered [OF less.prems(1,2,5,6)] False by blast
    moreover have "siftdown_loop lt h s q x = (h[q := x], Inr ())"
      using False less.prems(2-4) parent_less [of q] lt_less [of x "h ! parent q"]
      by (auto simp: siftdown_loop.simps [of lt h s q x] parent_fold Let_def)
    ultimately show ?thesis by simp
  next
    case True
    define p where "p = parent q"
    define h1 where "h1 = h[q := h ! p]"
    have p: "p < q" "p < length h"
      using True parent_less [of q] less.prems(2) by (auto simp: p_def)
    have el: "elem (h ! i)" if "i < length h" for i
      using less.prems(3) that by simp
    have step: "siftdown_loop lt h s q x = siftdown_loop lt h1 s p x"
      using True lt_less [OF less.prems(4) el [OF p(2)]]
      by (simp add: siftdown_loop.simps [of lt h s q x] parent_fold p_def [symmetric] h1_def Let_def)
    have "\<not> less (h1 ! i) x" if i: "i < length h1" "0 < i" "parent i = p" for i
    proof (cases "i = q")
      case True
      then show ?thesis
        using less_asym [OF less.prems(4) el [OF p(2)]] \<open>s < q \<and> less x (h ! parent q)\<close> less.prems(2)
        by (simp add: h1_def p_def)
    next
      case False
      have "s \<le> p"
        using below_le [OF below_parent [OF less.prems(1)]] True by (simp add: p_def)
      then have "\<not> less (h ! i) (h ! p)"
        using less.prems(5) i False p by (auto simp: hole_def h1_def)
      then have "\<not> less (h ! i) x"
        using less_weak [of x "h ! p" "h ! i"] less_asym [OF less.prems(4) el [OF p(2)]] True el i p less.prems(4)
        by (auto simp: h1_def p_def)
      then show ?thesis using False by (simp add: h1_def)
    qed
    moreover have "hole s p h1"
      using hole_up [OF less.prems(1) _ less.prems(2,3,5)] True by (simp add: p_def h1_def)
    moreover have "\<forall>v \<in> set h1. elem v"
      using less.prems(3) el [OF p(2)] set_update_subset_insert [of h q "h ! p"] by (auto simp: h1_def)
    ultimately obtain h' where h': "siftdown_loop lt h1 s p x = (h', Inr ())" "mset h' = mset (h1[p := x])"
      "ordered_from s h'"
      using less.IH [of p h1] below_parent [OF less.prems(1)] True p less.prems(4) by (auto simp: p_def h1_def)
    have "mset (h1[p := x]) = mset (h[q := x])"
      using mset_swap [of p "h[q := x]" q] p less.prems(2) by (simp add: h1_def)
    with h' step show ?thesis by auto
  qed
qed

end

lemma below_child: "below s p \<Longrightarrow> 0 < c \<Longrightarrow> parent c = p \<Longrightarrow> below s c"
  using below.child by auto

context heap_order
begin

lemma smaller_child_ok:
  assumes "2 * p + 1 < length h" "\<forall>v \<in> set h. elem v"
  shows "\<exists>c. smaller_child lt h (2 * p + 1) = Inr c \<and> c < length h \<and> 0 < c \<and> parent c = p \<and>
    (\<forall>i < length h. 0 < i \<longrightarrow> parent i = p \<longrightarrow> \<not> less (h ! i) (h ! c))"
proof -
  let ?c = "2 * p + 1"
  have el: "elem (h ! i)" if "i < length h" for i using assms(2) that by simp
  have irr: "\<not> less (h ! i) (h ! i)" if "i < length h" for i using less_asym [OF el el, of i i] that by blast
  have par: "parent (2 * p + 1) = p" "parent (2 * p + 2) = p" by (simp_all add: parent_def)
  have two: "i = ?c \<or> i = ?c + 1" if "0 < i" "parent i = p" for i
    using that(2) unfolding parent_children [OF that(1)] by simp
  show ?thesis
  proof (cases "?c + 1 < length h")
    case False
    have only: "i = ?c" if "i < length h" "0 < i" "parent i = p" for i
      using two [OF that(2,3)] that(1) False by linarith
    have "\<not> less (h ! i) (h ! ?c)" if "i < length h" "0 < i" "parent i = p" for i
      unfolding only [OF that] by (rule irr [OF assms(1)])
    moreover have "smaller_child lt h ?c = Inr ?c" using False by (simp add: smaller_child_def Let_def)
    ultimately show ?thesis using assms(1) par by auto
  next
    case True
    let ?d = "if less (h ! ?c) (h ! (?c + 1)) then ?c else ?c + 1"
    have sc: "smaller_child lt h ?c = Inr ?d"
      using True lt_less [OF el el, of ?c "?c + 1"] by (auto simp: smaller_child_def Let_def result_bind_def)
    have "\<not> less (h ! i) (h ! ?d)" if i: "i < length h" "0 < i" "parent i = p" for i
      using two [OF i(2,3)] True irr [of ?c] irr [of "?c + 1"] less_asym [OF el el, of ?c "?c + 1"] by auto
    then show ?thesis using sc True par by auto
  qed
qed

text \<open>Moving the smaller child into the hole moves the hole down.\<close>

lemma hole_down:
  assumes "below s p" "p < length h" "\<forall>v \<in> set h. elem v" "hole s p h"
    "c < length h" "0 < c" "parent c = p"
    "\<forall>i < length h. 0 < i \<longrightarrow> parent i = p \<longrightarrow> \<not> less (h ! i) (h ! c)"
  shows "hole s c (h[p := h ! c])"
proof -
  let ?h = "h[p := h ! c]"
  have pc: "p < c" using parent_less [OF assms(6)] assms(7) by simp
  have sp: "s \<le> p" by (rule below_le [OF assms(1)])
  have "\<not> less (?h ! i) (?h ! parent i)"
    if i: "i < length h" "0 < i" "s \<le> parent i" "i \<noteq> c" "parent i \<noteq> c" for i
  proof -
    consider "i = p" | "i \<noteq> p" "parent i = p" | "i \<noteq> p" "parent i \<noteq> p" by blast
    then show ?thesis
    proof cases
      case 1
      then have "s < p" "parent p \<noteq> p" using i parent_less [of p] by auto
      then show ?thesis using 1 assms(2,4-7) by (auto simp: hole_def)
    next
      case 2
      then show ?thesis using i assms(2,8) by simp
    next
      case 3
      then show ?thesis using i assms(4) by (auto simp: hole_def)
    qed
  qed
  moreover have "\<not> less (?h ! i) (?h ! parent c)" if i: "i < length h" "0 < i" "parent i = c" for i
  proof -
    have "i \<noteq> p" "c \<noteq> p" using parent_less [OF i(2)] i pc by auto
    then show ?thesis using i assms(2,4-7) pc sp by (auto simp: hole_def)
  qed
  ultimately show ?thesis unfolding hole_def by simp
qed

lemma siftup_loop_ok:
  assumes "below s p" "p < length h" "\<forall>v \<in> set h. elem v" "elem x" "hole s p h"
  shows "\<exists>h' q. siftup_loop lt h p = (h', Inr q) \<and> below s q \<and> q < length h' \<and> hole s q h' \<and>
    (\<forall>v \<in> set h'. elem v) \<and> \<not> 2 * q + 1 < length h' \<and> mset (h'[q := x]) = mset (h[p := x])"
  using assms
proof (induction "length h - p" arbitrary: h p rule: less_induct)
  case less
  show ?case
  proof (cases "2 * p + 1 < length h")
    case False
    then show ?thesis using less.prems by (simp add: siftup_loop.simps [of lt h p] Let_def)
  next
    case True
    obtain c where c: "smaller_child lt h (2 * p + 1) = Inr c" "c < length h" "0 < c" "parent c = p"
      "\<forall>i < length h. 0 < i \<longrightarrow> parent i = p \<longrightarrow> \<not> less (h ! i) (h ! c)"
      using smaller_child_ok [OF True less.prems(3)] by blast
    let ?h = "h[p := h ! c]"
    have pc: "p < c" using parent_less [OF c(3)] c(4) by simp
    have step: "siftup_loop lt h p = siftup_loop lt ?h c"
      using True c(1) by (simp add: siftup_loop.simps [of lt h p] Let_def)
    have el: "\<forall>v \<in> set ?h. elem v"
      using less.prems(3) c(2) set_update_subset_insert [of h p "h ! c"] by auto
    obtain h' q where h': "siftup_loop lt ?h c = (h', Inr q)" "below s q" "q < length h'" "hole s q h'"
      "\<forall>v \<in> set h'. elem v" "\<not> 2 * q + 1 < length h'" "mset (h'[q := x]) = mset (?h[c := x])"
      using less.hyps [OF _ below_child [OF less.prems(1) c(3,4)] _ el less.prems(4)
        hole_down [OF less.prems(1,2,3,5) c(2-5)]] pc c(2) by fastforce
    have "mset (?h[c := x]) = mset (h[p := x])"
      using mset_swap [of c "h[p := x]" p] pc c(2) less.prems(2) by (simp add: list_update_swap)
    with h' step show ?thesis by auto
  qed
qed

lemma siftup_ok:
  assumes "p < length h" "\<forall>v \<in> set h. elem v" "ordered_from (Suc p) h"
  shows "\<exists>h'. siftup lt h p = (h', Inr ()) \<and> mset h' = mset h \<and> ordered_from p h'"
proof -
  let ?x = "h ! p"
  have "hole p p h"
    using assms(3) by (auto simp: hole_def ordered_from_def)
  then obtain h1 q where s: "siftup_loop lt h p = (h1, Inr q)" "below p q" "q < length h1" "hole p q h1"
    "\<forall>v \<in> set h1. elem v" "\<not> 2 * q + 1 < length h1" "mset (h1[q := ?x]) = mset h"
    using siftup_loop_ok [OF below.here assms(1,2), of ?x] assms(1,2) by auto
  let ?h = "h1[q := ?x]"
  have leaf: "\<not> (0 < i \<and> parent i = q)" if "i < length h1" for i
    using that s(6) parent_children [of i q] by auto
  have "hole p q ?h"
    using s(4) leaf s(2) parent_less [of q] unfolding hole_def by (auto simp: nth_list_update)
  moreover have "\<forall>v \<in> set ?h. elem v"
    using s(7) assms(2) mset_eq_setD by metis
  ultimately obtain h' where "siftdown_loop lt ?h p q ?x = (h', Inr ())" "mset h' = mset (?h[q := ?x])"
    "ordered_from p h'"
    using siftdown_ok [of p q ?h ?x] s(2,3) leaf assms(1,2) by auto
  then show ?thesis using s(1,3,7) by (simp add: siftup_def siftdown_def Let_def)
qed

lemma elem_mset: "mset h' = mset h \<Longrightarrow> (\<forall>v \<in> set h'. elem v) \<longleftrightarrow> (\<forall>v \<in> set h. elem v)"
  by (metis mset_eq_setD)

lemma heapify_from_ok:
  assumes "n \<le> length h" "\<forall>v \<in> set h. elem v" "ordered_from n h"
  shows "\<exists>h'. heapify_from lt h n = (h', Inr ()) \<and> mset h' = mset h \<and> ordered_from 0 h'"
  using assms
proof (induction n arbitrary: h)
  case (Suc n)
  obtain h1 where h1: "siftup lt h n = (h1, Inr ())" "mset h1 = mset h" "ordered_from n h1"
    using siftup_ok [of n h] Suc.prems by auto
  then show ?case
    using Suc.IH [of h1] Suc.prems elem_mset [OF h1(2)] mset_eq_length [OF h1(2)] by auto
qed simp

lemma heap_top:
  assumes "heap h" "i < length h"
  shows "\<not> less (h ! i) (h ! 0)"
  using assms(2)
proof (induction i rule: less_induct)
  case (less i)
  have el: "elem (h ! j)" if "j < length h" for j using assms(1) that by (simp add: heap_def)
  show ?case
  proof (cases "i = 0")
    case True
    then show ?thesis using less_asym [OF el el] less.prems by blast
  next
    case False
    have pi: "parent i < i" using False parent_less by simp
    have "\<not> less (h ! parent i) (h ! 0)" using less.IH [OF pi] pi less.prems by simp
    moreover have "\<not> less (h ! i) (h ! parent i)"
      using assms(1) False less.prems by (auto simp: heap_def ordered_from_def)
    ultimately show ?thesis using less_weak [OF el el el, of 0 "parent i" i] less.prems pi by (cases "h = []") auto
  qed
qed

lemma heap_min: "heap h \<Longrightarrow> v \<in> set h \<Longrightarrow> \<not> less v (h ! 0)"
  using heap_top by (auto simp: in_set_conv_nth)

text \<open>What the operations of the module promise.\<close>

lemma heapify_heap:
  assumes "\<forall>v \<in> set h. elem v"
  shows "\<exists>h'. heapify lt h = (h', Inr ()) \<and> mset h' = mset h \<and> heap h'"
proof -
  have "ordered_from (length h div 2) h"
    unfolding ordered_from_def
  proof (intro allI impI)
    fix i assume "i < length h" "0 < i" "length h div 2 \<le> parent i"
    then have False unfolding parent_def by linarith
    then show "\<not> less (h ! i) (h ! parent i)" ..
  qed
  then obtain h' where "heapify_from lt h (length h div 2) = (h', Inr ())" "mset h' = mset h" "ordered_from 0 h'"
    using heapify_from_ok [of "length h div 2" h] assms by auto
  then show ?thesis using elem_mset [of h' h] assms by (simp add: heapify_def heap_def)
qed

lemma below_zero: "below 0 q"
proof (induction q rule: less_induct)
  case (less q)
  then show ?case using below.here below.child parent_less by (cases "q = 0") auto
qed

lemma heappush_heap:
  assumes "heap h" "elem x"
  shows "\<exists>h'. heappush lt h x = (h', Inr ()) \<and> mset h' = add_mset x (mset h) \<and> heap h'"
proof -
  let ?h = "h @ [x]" let ?q = "length h"
  have leaf: "\<not> (0 < i \<and> parent i = ?q)" if "i < length ?h" for i
    using that parent_less [of i] by auto
  have "hole 0 ?q ?h"
    unfolding hole_def
  proof (intro conjI allI impI)
    fix i assume i: "i < length ?h" "0 < i" "i \<noteq> ?q"
    then have "i < length h" "parent i < length h" using parent_less [of i] by auto
    then show "\<not> less (?h ! i) (?h ! parent i)"
      using assms(1) i(2) by (simp add: nth_append heap_def ordered_from_def)
  qed (use leaf in blast)
  then obtain h' where h': "siftdown_loop lt ?h 0 ?q x = (h', Inr ())" "mset h' = mset ?h" "ordered_from 0 h'"
    using siftdown_ok [of 0 ?q ?h x] below_zero leaf assms by (auto simp: heap_def)
  then show ?thesis
    using elem_mset [OF h'(2)] assms by (auto simp: heappush_def siftdown_def heap_def)
qed

text \<open>Putting any element at the root leaves only the root out of order.\<close>

lemma siftup_root:
  assumes "heap h" "h \<noteq> []" "elem x"
  shows "\<exists>h'. siftup lt (h[0 := x]) 0 = (h', Inr ()) \<and> mset h' = mset (h[0 := x]) \<and> heap h'"
proof -
  have el: "\<forall>v \<in> set (h[0 := x]). elem v"
    using assms set_update_subset_insert [of h 0 x] by (auto simp: heap_def)
  have "ordered_from (Suc 0) (h[0 := x])"
    using assms(1) unfolding ordered_from_def heap_def by simp
  then obtain h' where "siftup lt (h[0 := x]) 0 = (h', Inr ())" "mset h' = mset (h[0 := x])" "ordered_from 0 h'"
    using siftup_ok [of 0 "h[0 := x]"] el assms(2) by auto
  then show ?thesis using el elem_mset [of h' "h[0 := x]"] by (simp add: heap_def)
qed

lemma heapreplace_heap:
  assumes "heap h" "h \<noteq> []" "elem x"
  shows "\<exists>h'. heapreplace eemp lt h x = (h', Inr (h ! 0)) \<and> mset h' + {#h ! 0#} = add_mset x (mset h) \<and> heap h'"
proof -
  obtain h' where h': "siftup lt (h[0 := x]) 0 = (h', Inr ())" "mset h' = mset (h[0 := x])" "heap h'"
    using siftup_root [OF assms] by blast
  moreover have "mset (h[0 := x]) + {#h ! 0#} = add_mset x (mset h)"
    using assms(2) by (cases h) auto
  ultimately show ?thesis using assms(2) by (simp add: heapreplace_def returning_def)
qed

lemma heap_butlast: "heap h \<Longrightarrow> heap (butlast h)"
  unfolding heap_def ordered_from_def
proof (intro conjI ballI allI impI)
  fix i assume h: "(\<forall>v \<in> set h. elem v) \<and> (\<forall>i < length h. 0 < i \<longrightarrow> 0 \<le> parent i \<longrightarrow> \<not> less (h ! i) (h ! parent i))"
    and i: "i < length (butlast h)" "0 < i"
  then have "parent i < length (butlast h)" using parent_less [of i] by simp
  then show "\<not> less (butlast h ! i) (butlast h ! parent i)" using h i by (simp add: nth_butlast)
qed (auto dest: in_set_butlastD)

lemma pop_min_heap:
  assumes "heap h" "h \<noteq> []"
  shows "\<exists>h'. pop_min eemp lt h = (h', Inr (h ! 0)) \<and> add_mset (h ! 0) (mset h') = mset h \<and> heap h'"
proof (cases "butlast h = []")
  case True
  then obtain v where "h = [v]" using assms(2) by (cases h rule: rev_cases) auto
  then show ?thesis by (simp add: pop_min_def heap_def ordered_from_def)
next
  case False
  let ?r = "butlast h"
  have "elem (last h)" using assms by (simp add: heap_def)
  then obtain h' where h': "siftup lt (?r[0 := last h]) 0 = (h', Inr ())" "mset h' = mset (?r[0 := last h])" "heap h'"
    using siftup_root [OF heap_butlast [OF assms(1)] False] by blast
  have r0: "?r ! 0 = h ! 0" using False by (cases h) (auto simp: nth_butlast)
  have "add_mset (h ! 0) (mset (?r[0 := last h])) = add_mset (last h) (mset ?r)"
    using False r0 by (cases ?r) auto
  also have "\<dots> = mset h"
    by (metis append_butlast_last_id assms(2) mset.simps(2) mset_append union_mset_add_mset_right add.right_neutral mset.simps(1))
  finally show ?thesis using h' False assms(2) r0 by (simp add: pop_min_def returning_def Let_def)
qed

lemma heappushpop_heap:
  assumes "heap h" "elem x"
  shows "\<exists>h' v. heappushpop lt h x = (h', Inr v) \<and> add_mset v (mset h') = add_mset x (mset h) \<and> heap h' \<and>
    (\<forall>w \<in> set h'. \<not> less w v)"
proof (cases "h \<noteq> [] \<and> less (h ! 0) x")
  case False
  have "\<not> less w x" if "w \<in> set h" for w
    using that False assms heap_min [OF assms(1) that] less_weak [of x "h ! 0" w] by (cases h) (auto simp: heap_def)
  then show ?thesis
    using False assms lt_less [of "h ! 0" x] by (auto simp: heappushpop_def heap_def)
next
  case True
  obtain h' where h': "siftup lt (h[0 := x]) 0 = (h', Inr ())" "mset h' = mset (h[0 := x])" "heap h'"
    using siftup_root [OF assms(1) _ assms(2)] True by blast
  have ms: "add_mset (h ! 0) (mset (h[0 := x])) = add_mset x (mset h)"
    using True by (cases h) auto
  have "\<not> less w (h ! 0)" if "w \<in> set h'" for w
  proof -
    have "w \<in> set (h[0 := x])" using that mset_eq_setD [OF h'(2)] by simp
    then have "w = x \<or> w \<in> set h" using set_update_subset_insert by fastforce
    then show ?thesis
      using heap_min [OF assms(1)] True less_asym [of "h ! 0" x] assms by (auto simp: heap_def)
  qed
  then show ?thesis
    using True h' ms assms lt_less [of "h ! 0" x] by (auto simp: heappushpop_def returning_def heap_def)
qed

end

section \<open>The module\<close>

definition heap_under :: "('v \<Rightarrow> 'v \<Rightarrow> 'e + bool) \<Rightarrow> 'v list \<Rightarrow> bool" where
  "heap_under lt h = (\<forall>i < length h. 0 < i \<longrightarrow> lt (h ! i) (h ! parent i) = Inr False)"

context heap_order
begin

lemma heap_under_iff: "\<forall>v \<in> set h. elem v \<Longrightarrow> heap_under lt h \<longleftrightarrow> heap h"
proof -
  assume el: "\<forall>v \<in> set h. elem v"
  have "lt (h ! i) (h ! parent i) = Inr (less (h ! i) (h ! parent i))" if "i < length h" "0 < i" for i
    using lt_less [of "h ! i" "h ! parent i"] el that parent_less [OF that(2)] by simp
  then show ?thesis using el by (simp add: heap_under_def heap_def ordered_from_def)
qed

lemma minimal_under:
  "\<forall>v \<in> set h. elem v \<Longrightarrow> elem x \<Longrightarrow> \<forall>v \<in> set h. \<not> less v x \<Longrightarrow> \<forall>v \<in> set h. lt v x = Inr False"
  by (simp add: lt_less)

lemma heap_elems: "heap h \<Longrightarrow> \<forall>v \<in> set h. elem v"
  by (simp add: heap_def)

end

interpretation kinds: heap_order "dispatch_lt E (Suc n)" "kinded s" "kind_less s" for E n s
  by unfold_locales (simp add: dispatch_lt_kinded del: dispatch_lt.simps, erule kind_less_asym,
      erule (1) kind_less_weak)

text \<open>\<open>with_heap\<close> works on the storage of the first argument.\<close>

definition with_heap ::
  "env \<Rightarrow> pyval list \<Rightarrow> (pyval list \<Rightarrow> pyval list \<times> 'r lt_result) \<Rightarrow> env \<times> 'r lt_result" where
  "with_heap E args f = (case args of
       VList l # rest \<Rightarrow> (case f (list_at E l) of (h, r) \<Rightarrow> (E\<lparr>list_at := (list_at E)(l := h)\<rparr>, r))
     | _ \<Rightarrow> (E, Inl (Some (Interpreter (TypeError (''heap argument must be a list, not '' @ [CHR 39] @
         (case args of [] \<Rightarrow> ''nothing'' | v # rest \<Rightarrow> type_name v) @ [CHR 39]))))))"

definition need_arg :: "string \<Rightarrow> pyval list \<Rightarrow> nat \<Rightarrow> pyval lt_result" where
  "need_arg func args index =
     (if index < length args then Inr (args ! index)
      else Inl (Some (Interpreter (TypeError (func @ ''() missing required argument at position '' @ nat_digits index)))))"

text \<open>The calls that update a heap in place; \<open>compare_lt\<close> is \<open>dispatch_lt\<close>.\<close>

definition heap_index_error :: "eval_error option" where
  "heap_index_error = Some (Exception (exception_new ''IndexError'' ''index out of range''))"

datatype heap_update = Heapify | Heappush | Heappop | Heappushpop | Heapreplace

definition heapq_call :: "env \<Rightarrow> nat \<Rightarrow> heap_update \<Rightarrow> pyval list \<Rightarrow> env \<times> pyval lt_result" where
  "heapq_call E n func args =
     (let lt = dispatch_lt E n in
      case func of
        Heapify \<Rightarrow> with_heap E args (\<lambda>heap. returning (heapify lt heap) VNone)
      | Heappush \<Rightarrow>
          (case need_arg ''heappush'' args 1 of
             Inl e \<Rightarrow> (E, Inl e)
           | Inr item \<Rightarrow> with_heap E args (\<lambda>heap. returning (heappush lt heap item) VNone))
      | Heappop \<Rightarrow> with_heap E args (pop_min heap_index_error lt)
      | Heappushpop \<Rightarrow>
          (case need_arg ''heappushpop'' args 1 of
             Inl e \<Rightarrow> (E, Inl e)
           | Inr item \<Rightarrow> with_heap E args (\<lambda>heap. heappushpop lt heap item))
      | Heapreplace \<Rightarrow>
          (case need_arg ''heapreplace'' args 1 of
             Inl e \<Rightarrow> (E, Inl e)
           | Inr item \<Rightarrow> with_heap E args (\<lambda>heap. heapreplace heap_index_error lt heap item)))"

lemma heap_under_kinds:
  "list_all (kinded s) h \<Longrightarrow> heap_under (dispatch_lt E (Suc n)) h \<longleftrightarrow> kinds.heap s h"
  using kinds.heap_under_iff [of h s E n] unfolding list_all_iff by blast

lemma heap_kinds: "kinds.heap s h \<Longrightarrow> heap_under (dispatch_lt E (Suc n)) h"
  using kinds.heap_under_iff [OF kinds.heap_elems] by blast

lemma heapq_call_result:
  "f (list_at E l) = (h, r) \<Longrightarrow> with_heap E (VList l # rest) f = (E\<lparr>list_at := (list_at E)(l := h)\<rparr>, r)"
  by (simp add: with_heap_def)

text \<open>\<open>heapify\<close> terminates without an error on a list of integers, or of strings: it
  permutes the list, and afterwards no element is smaller than its parent.\<close>

theorem heapify_correct:
  assumes "list_all (kinded s) (list_at E l)"
  shows "\<exists>h. heapq_call E (Suc n) Heapify (VList l # rest) = (E\<lparr>list_at := (list_at E)(l := h)\<rparr>, Inr VNone) \<and>
    mset h = mset (list_at E l) \<and> heap_under (dispatch_lt E (Suc n)) h"
proof -
  obtain h where h: "heapify (dispatch_lt E (Suc n)) (list_at E l) = (h, Inr ())" "mset h = mset (list_at E l)"
    "kinds.heap s h"
    using kinds.heapify_heap [of "list_at E l" s E n] assms unfolding list_all_iff by blast
  then show ?thesis using heap_kinds [OF h(3)] by (auto simp: heapq_call_def heapq_call_result returning_def)
qed

text \<open>Pushing onto a heap gives a heap with exactly one more element.\<close>

theorem heappush_correct:
  assumes "list_all (kinded s) (list_at E l)" "kinded s x" "heap_under (dispatch_lt E (Suc n)) (list_at E l)"
  shows "\<exists>h. heapq_call E (Suc n) Heappush (VList l # x # rest) = (E\<lparr>list_at := (list_at E)(l := h)\<rparr>, Inr VNone) \<and>
    mset h = add_mset x (mset (list_at E l)) \<and> heap_under (dispatch_lt E (Suc n)) h"
proof -
  obtain h where h: "heappush (dispatch_lt E (Suc n)) (list_at E l) x = (h, Inr ())"
    "mset h = add_mset x (mset (list_at E l))" "kinds.heap s h"
    using kinds.heappush_heap [of s "list_at E l" x E n] assms heap_under_kinds [OF assms(1)] by blast
  then show ?thesis
    using heap_kinds [OF h(3)] by (auto simp: heapq_call_def heapq_call_result returning_def need_arg_def)
qed

text \<open>Popping a non-empty heap removes and returns a smallest element and leaves a heap.\<close>

theorem heappop_correct:
  assumes "list_all (kinded s) (list_at E l)" "heap_under (dispatch_lt E (Suc n)) (list_at E l)" "list_at E l \<noteq> []"
  shows "\<exists>h v. heapq_call E (Suc n) Heappop (VList l # rest) = (E\<lparr>list_at := (list_at E)(l := h)\<rparr>, Inr v) \<and>
    add_mset v (mset h) = mset (list_at E l) \<and> heap_under (dispatch_lt E (Suc n)) h \<and>
    (\<forall>w \<in> set h. dispatch_lt E (Suc n) w v = Inr False)"
proof -
  let ?h = "list_at E l" let ?v = "?h ! 0"
  have hp: "kinds.heap s ?h" using assms(2) heap_under_kinds [OF assms(1)] by blast
  obtain h where h: "pop_min heap_index_error (dispatch_lt E (Suc n)) ?h = (h, Inr ?v)"
    "add_mset ?v (mset h) = mset ?h" "kinds.heap s h"
    using kinds.pop_min_heap [OF hp assms(3), of heap_index_error E n] by blast
  have "set h \<subseteq> set ?h" using h(2) by (metis set_mset_mset set_mset_add_mset_insert subset_insertI)
  then have "\<forall>w \<in> set h. \<not> kind_less s w ?v" using kinds.heap_min [OF hp] by blast
  moreover have "kinded s ?v" using assms(1,3) by (cases ?h) auto
  ultimately have "\<forall>w \<in> set h. dispatch_lt E (Suc n) w ?v = Inr False"
    using kinds.minimal_under [OF kinds.heap_elems [OF h(3)]] by blast
  then show ?thesis using h heap_kinds [OF h(3)] by (auto simp: heapq_call_def heapq_call_result)
qed

text \<open>\<open>heappushpop\<close> returns a smallest element of the heap with the new element added, and
  keeps the others as a heap.\<close>

theorem heappushpop_correct:
  assumes "list_all (kinded s) (list_at E l)" "kinded s x" "heap_under (dispatch_lt E (Suc n)) (list_at E l)"
  shows "\<exists>h v. heapq_call E (Suc n) Heappushpop (VList l # x # rest) = (E\<lparr>list_at := (list_at E)(l := h)\<rparr>, Inr v) \<and>
    add_mset v (mset h) = add_mset x (mset (list_at E l)) \<and> heap_under (dispatch_lt E (Suc n)) h \<and>
    (\<forall>w \<in> set h. dispatch_lt E (Suc n) w v = Inr False)"
proof -
  let ?h = "list_at E l"
  obtain h v where h: "heappushpop (dispatch_lt E (Suc n)) ?h x = (h, Inr v)"
    "add_mset v (mset h) = add_mset x (mset ?h)" "kinds.heap s h" "\<forall>w \<in> set h. \<not> kind_less s w v"
    using kinds.heappushpop_heap [of s ?h x E n] assms heap_under_kinds [OF assms(1)] by blast
  have "v \<in> insert x (set ?h)" using h(2) by (metis insertI1 set_mset_mset set_mset_add_mset_insert)
  then have "kinded s v" using assms(1,2) by (auto simp: list_all_iff)
  then have "\<forall>w \<in> set h. dispatch_lt E (Suc n) w v = Inr False"
    using kinds.minimal_under [OF kinds.heap_elems [OF h(3)]] h(4) by blast
  then show ?thesis
    using h heap_kinds [OF h(3)] by (auto simp: heapq_call_def heapq_call_result need_arg_def)
qed

definition three_ints :: env where
  "three_ints = empty_env\<lparr>list_at := (\<lambda>a. [VInt 1, VInt 3, VBool True])\<rparr>"

lemma three_ints_heap:
  "list_all (kinded False) (list_at three_ints 0)" "kinded False (VInt 2)" "list_at three_ints 0 \<noteq> []"
  "heap_under (dispatch_lt E (Suc n)) (list_at three_ints 0)"
proof -
  have "dispatch_lt E (Suc n) (VInt 3) (VInt 1) = Inr False" "dispatch_lt E (Suc n) (VBool True) (VInt 1) = Inr False"
    by (simp_all add: dispatch_lt_int del: dispatch_lt.simps)
  then show "heap_under (dispatch_lt E (Suc n)) (list_at three_ints 0)"
    by (simp add: heap_under_def three_ints_def parent_def All_less_Suc del: dispatch_lt.simps)
qed (simp_all add: three_ints_def kinded_def)

theorem heapify_correct_witness:
  "\<exists>h. heapq_call three_ints 1 Heapify [VList 0] = (three_ints\<lparr>list_at := (list_at three_ints)(0 := h)\<rparr>, Inr VNone) \<and>
    mset h = mset (list_at three_ints 0) \<and> heap_under (dispatch_lt three_ints 1) h"
  unfolding One_nat_def by (rule heapify_correct [OF three_ints_heap(1)])

theorem heappush_correct_witness:
  "\<exists>h. heapq_call three_ints 1 Heappush [VList 0, VInt 2] = (three_ints\<lparr>list_at := (list_at three_ints)(0 := h)\<rparr>, Inr VNone) \<and>
    mset h = add_mset (VInt 2) (mset (list_at three_ints 0)) \<and> heap_under (dispatch_lt three_ints 1) h"
  unfolding One_nat_def by (rule heappush_correct [OF three_ints_heap(1,2,4)])

theorem heappop_correct_witness:
  "\<exists>h v. heapq_call three_ints 1 Heappop [VList 0] = (three_ints\<lparr>list_at := (list_at three_ints)(0 := h)\<rparr>, Inr v) \<and>
    add_mset v (mset h) = mset (list_at three_ints 0) \<and> heap_under (dispatch_lt three_ints 1) h \<and>
    (\<forall>w \<in> set h. dispatch_lt three_ints 1 w v = Inr False)"
  unfolding One_nat_def by (rule heappop_correct [OF three_ints_heap(1,4,3)])

theorem heappushpop_correct_witness:
  "\<exists>h v. heapq_call three_ints 1 Heappushpop [VList 0, VInt 2] = (three_ints\<lparr>list_at := (list_at three_ints)(0 := h)\<rparr>, Inr v) \<and>
    add_mset v (mset h) = add_mset (VInt 2) (mset (list_at three_ints 0)) \<and> heap_under (dispatch_lt three_ints 1) h \<and>
    (\<forall>w \<in> set h. dispatch_lt three_ints 1 w v = Inr False)"
  unfolding One_nat_def by (rule heappushpop_correct [OF three_ints_heap(1,2,4)])

end
