(* ===== verification/Bisect.thy ===== *)
theory Bisect
  imports Heapq
begin

text \<open>
  The \<open>bisect\<close> module (\<open>eval/modules/bisect.rs\<close>): binary search of a list and
  insertion at the position found.

  A \<open>key\<close> function is user code: calling it may change the heap, so the search
  threads the environment.  The list is read once, before the search; the insertion goes
  into the list as it is afterwards.  \<open>Vec::insert\<close> panics past the end of the list:
  the result is then \<open>None\<close>.
\<close>

section \<open>Operations\<close>

definition opt_bound :: "pyval option \<Rightarrow> nat \<Rightarrow> nat lt_result" where
  "opt_bound arg dflt = (case arg of
       None \<Rightarrow> Inr dflt
     | Some VNone \<Rightarrow> Inr dflt
     | Some (VInt n) \<Rightarrow>
         (if 0 \<le> sint n then Inr (nat (sint n))
          else Inl (Some (Interpreter (ValueError ''lo must be non-negative''))))
     | Some other \<Rightarrow> Inl (Some (Interpreter (TypeError
         ([CHR 39] @ type_name other @ [CHR 39] @ '' object cannot be interpreted as an integer'')))))"

function bisect_search ::
  "('s \<Rightarrow> 'v \<Rightarrow> 's \<times> ('e + bool)) \<Rightarrow> 'v list \<Rightarrow> 's \<Rightarrow> nat \<Rightarrow> nat \<Rightarrow> 's \<times> ('e + nat)" where
  "bisect_search go snapshot s lo hi =
     (if lo < hi then
        (let mid = lo + (hi - lo) div 2 in
         (case go s (snapshot ! mid) of
            (s1, Inl e) \<Rightarrow> (s1, Inl e)
          | (s1, Inr go_right) \<Rightarrow>
              if go_right then bisect_search go snapshot s1 (mid + 1) hi
              else bisect_search go snapshot s1 lo mid))
      else (s, Inr lo))"
  by pat_completeness auto
termination
  by (relation "measure (\<lambda>(go, snapshot, s, lo, hi). hi - lo)") auto

declare bisect_search.simps [simp del]

text \<open>\<open>call\<close> is the interpreter's \<open>call_callable\<close>.\<close>

definition go_right ::
  "(env \<Rightarrow> pyval \<Rightarrow> pyval list \<Rightarrow> env \<times> pyval lt_result) \<Rightarrow> nat \<Rightarrow> bool \<Rightarrow> pyval option \<Rightarrow> pyval \<Rightarrow>
   env \<Rightarrow> pyval \<Rightarrow> env \<times> bool lt_result" where
  "go_right call n right key_fn x E item =
     (case (case key_fn of Some f \<Rightarrow> call E f [item] | None \<Rightarrow> (E, Inr item)) of
        (E1, Inl e) \<Rightarrow> (E1, Inl e)
      | (E1, Inr elem) \<Rightarrow>
          (E1, if right then result_bind (dispatch_lt E1 n x elem) (\<lambda>b. Inr (\<not> b)) else dispatch_lt E1 n elem x))"

definition vec_insert :: "nat \<Rightarrow> 'v \<Rightarrow> 'v list \<Rightarrow> 'v list option" where
  "vec_insert i x xs = (if i \<le> length xs then Some (take i xs @ x # drop i xs) else None)"

definition nth_opt :: "'v list \<Rightarrow> nat \<Rightarrow> 'v option" where
  "nth_opt xs i = (if i < length xs then Some (xs ! i) else None)"

definition bisect_call ::
  "(env \<Rightarrow> pyval \<Rightarrow> pyval list \<Rightarrow> env \<times> pyval lt_result) \<Rightarrow> env \<Rightarrow> nat \<Rightarrow> string \<Rightarrow> pyval list \<Rightarrow> pyval option \<Rightarrow>
   (env \<times> pyval lt_result) option" where
  "bisect_call call E n func args key =
     (let right = func \<in> set [''bisect_right'', ''bisect'', ''insort_right'', ''insort''];
          insert = func \<in> set [''insort_left'', ''insort_right'', ''insort''] in
      case args of
        VList l # rest \<Rightarrow>
          (case need_arg func args 1 of
             Inl e \<Rightarrow> Some (E, Inl e)
           | Inr x \<Rightarrow>
               (let key_fn = (if key = Some VNone then None else key);
                    snapshot = list_at E l;
                    len = length snapshot in
                case opt_bound (nth_opt args 2) 0 of
                  Inl e \<Rightarrow> Some (E, Inl e)
                | Inr lo \<Rightarrow> (case opt_bound (nth_opt args 3) len of
                    Inl e \<Rightarrow> Some (E, Inl e)
                  | Inr hi0 \<Rightarrow>
                      (let hi = min hi0 len in
                       if len < lo then Some (E, Inl (Some (Interpreter (ValueError ''lo must be non-negative''))))
                       else (case bisect_search (go_right call n right key_fn x) snapshot E lo hi of
                               (E1, Inl e) \<Rightarrow> Some (E1, Inl e)
                             | (E1, Inr k) \<Rightarrow>
                                 if insert then
                                   (case vec_insert k x (list_at E1 l) of
                                      None \<Rightarrow> None
                                    | Some xs \<Rightarrow> Some (E1\<lparr>list_at := (list_at E1)(l := xs)\<rparr>, Inr VNone))
                                 else Some (E1, Inr (VInt (if k < 2 ^ 63 then of_nat k else 0x7FFFFFFFFFFFFFFF))))))))
      | _ \<Rightarrow> Some (E, Inl (Some (Interpreter (TypeError
               (func @ ''() argument must be a list, not '' @ [CHR 39] @
                (case args of [] \<Rightarrow> ''nothing'' | v # rest \<Rightarrow> type_name v) @ [CHR 39]))))))"

section \<open>The search\<close>

text \<open>Where the question asked of the elements is answered yes up to some position and no
  from there on, the search finds that position.\<close>

lemma search_boundary:
  assumes "\<And>i. i < length xs \<Longrightarrow> go s (xs ! i) = (s, Inr (P i))"
    "\<And>i j. i \<le> j \<Longrightarrow> j < length xs \<Longrightarrow> P j \<Longrightarrow> P i" "lo \<le> hi" "hi \<le> length xs"
  shows "\<exists>k. bisect_search go xs s lo hi = (s, Inr k) \<and> lo \<le> k \<and> k \<le> hi \<and>
    (\<forall>i. lo \<le> i \<longrightarrow> i < k \<longrightarrow> P i) \<and> (\<forall>i. k \<le> i \<longrightarrow> i < hi \<longrightarrow> \<not> P i)"
  using assms(3,4)
proof (induction "hi - lo" arbitrary: lo hi rule: less_induct)
  case less
  show ?case
  proof (cases "lo < hi")
    case False
    then have "bisect_search go xs s lo hi = (s, Inr lo)" by (simp add: bisect_search.simps [of go xs s lo hi])
    then show ?thesis using False less.prems by auto
  next
    case True
    define mid where "mid = lo + (hi - lo) div 2"
    have mid: "lo \<le> mid" "mid < hi" "mid < length xs" using True less.prems by (auto simp: mid_def)
    have step: "bisect_search go xs s lo hi =
        (if P mid then bisect_search go xs s (mid + 1) hi else bisect_search go xs s lo mid)"
      using True assms(1) [OF mid(3)] by (simp add: bisect_search.simps [of go xs s lo hi] mid_def Let_def)
    show ?thesis
    proof (cases "P mid")
      case True
      then obtain k where k: "bisect_search go xs s (mid + 1) hi = (s, Inr k)" "mid + 1 \<le> k" "k \<le> hi"
        "\<forall>i. mid + 1 \<le> i \<longrightarrow> i < k \<longrightarrow> P i" "\<forall>i. k \<le> i \<longrightarrow> i < hi \<longrightarrow> \<not> P i"
        using less.hyps [of hi "mid + 1", OF diff_less_mono2] mid less.prems by auto
      have "P i" if "i \<le> mid" for i by (rule assms(2) [OF that mid(3) True])
      then have "\<forall>i. lo \<le> i \<longrightarrow> i < k \<longrightarrow> P i" using k(4) by (metis Suc_eq_plus1 not_less_eq_eq)
      then show ?thesis using True step k mid by auto
    next
      case False
      then obtain k where k: "bisect_search go xs s lo mid = (s, Inr k)" "lo \<le> k" "k \<le> mid"
        "\<forall>i. lo \<le> i \<longrightarrow> i < k \<longrightarrow> P i" "\<forall>i. k \<le> i \<longrightarrow> i < mid \<longrightarrow> \<not> P i"
        using less.hyps [of mid lo, OF diff_less_mono] mid less.prems by auto
      have "\<not> P i" if "mid \<le> i" "i < hi" for i using assms(2) [OF that(1)] False that less.prems by auto
      then have "\<forall>i. k \<le> i \<longrightarrow> i < hi \<longrightarrow> \<not> P i" using k(5) by (metis not_le_imp_less)
      then show ?thesis using False step k mid by auto
    qed
  qed
qed

section \<open>Searching and inserting in a sorted list\<close>

definition sorted_under :: "('v \<Rightarrow> 'v \<Rightarrow> 'e + bool) \<Rightarrow> 'v list \<Rightarrow> bool" where
  "sorted_under lt xs = (\<forall>j < length xs. \<forall>i < j. lt (xs ! j) (xs ! i) = Inr False)"

text \<open>Position \<open>k\<close> splits the list at \<open>x\<close>: on the left side of equal elements, or on the
  right side of them.\<close>

definition splits_at :: "('v \<Rightarrow> 'v \<Rightarrow> 'e + bool) \<Rightarrow> bool \<Rightarrow> 'v \<Rightarrow> 'v list \<Rightarrow> nat \<Rightarrow> bool" where
  "splits_at lt right x xs k \<longleftrightarrow> k \<le> length xs \<and>
     (\<forall>i < length xs. if right then lt x (xs ! i) = Inr (k \<le> i) else lt (xs ! i) x = Inr (i < k))"

context heap_order
begin

lemma bisect_search_splits:
  assumes "\<forall>v \<in> set xs. elem v" "elem x" "sorted_under lt xs"
    "\<And>v. elem v \<Longrightarrow> go s v = (s, Inr (if right then \<not> less x v else less v x))"
  shows "\<exists>k. bisect_search go xs s 0 (length xs) = (s, Inr k) \<and> splits_at lt right x xs k"
proof -
  let ?P = "\<lambda>i. if right then \<not> less x (xs ! i) else less (xs ! i) x"
  have el: "elem (xs ! i)" if "i < length xs" for i using assms(1) that by simp
  have ord: "\<not> less (xs ! j) (xs ! i)" if "i \<le> j" "j < length xs" for i j
  proof (cases "i = j")
    case True
    then show ?thesis using less_asym [OF el el] that(2) by blast
  next
    case False
    then have "lt (xs ! j) (xs ! i) = Inr False" using assms(3) that by (simp add: sorted_under_def)
    then show ?thesis using lt_less [OF el el, of j i] that by simp
  qed
  have "?P i" if "i \<le> j" "j < length xs" "?P j" for i j
  proof -
    have "i < length xs" using that(1,2) by simp
    then show ?thesis
      using that(3) ord [OF that(1,2)] less_weak [OF el el assms(2), of i j] less_weak [OF assms(2) el el, of i j]
        that(2) by (cases right) auto
  qed
  then obtain k where k: "bisect_search go xs s 0 (length xs) = (s, Inr k)" "k \<le> length xs"
    "\<forall>i. 0 \<le> i \<longrightarrow> i < k \<longrightarrow> ?P i" "\<forall>i. k \<le> i \<longrightarrow> i < length xs \<longrightarrow> \<not> ?P i"
    using search_boundary [of xs go s ?P 0 "length xs"] assms(4) el by (auto split: if_splits)
  have "if right then lt x (xs ! i) = Inr (k \<le> i) else lt (xs ! i) x = Inr (i < k)" if "i < length xs" for i
    using lt_less [OF assms(2) el [OF that]] lt_less [OF el [OF that] assms(2)] k(3) [rule_format, of i]
      k(4) [rule_format, of i] that by (cases "i < k") (auto split: if_splits)
  then show ?thesis using k(1,2) unfolding splits_at_def by blast
qed

lemma insert_sorted:
  assumes "\<forall>v \<in> set xs. elem v" "elem x" "sorted_under lt xs" "splits_at lt right x xs k"
  shows "sorted_under lt (take k xs @ x # drop k xs)"
  unfolding sorted_under_def
proof (intro allI impI)
  let ?ys = "take k xs @ x # drop k xs"
  have el: "elem (xs ! i)" if "i < length xs" for i using assms(1) that by simp
  have k: "k \<le> length xs" using assms(4) by (simp add: splits_at_def)
  have sp: "if right then less x (xs ! i) = (k \<le> i) else less (xs ! i) x = (i < k)" if "i < length xs" for i
    using assms(4) that lt_less [OF assms(2) el [OF that]] lt_less [OF el [OF that] assms(2)]
    unfolding splits_at_def by auto
  fix j i assume j: "j < length ?ys" "i < j"
  have nth: "?ys ! m = (if m < k then xs ! m else if m = k then x else xs ! (m - 1))" if "m < length ?ys" for m
    using that k by (auto simp: nth_append nth_Cons' min_def)
  have so: "lt (xs ! b) (xs ! a) = Inr False" if "a < b" "b < length xs" for a b
    using assms(3) that by (simp add: sorted_under_def)
  have below: "lt x (xs ! a) = Inr False" if "a < k" for a
    using sp [of a] that k lt_less [OF assms(2) el, of a] less_asym [OF el assms(2), of a] by (auto split: if_splits)
  have above: "lt (xs ! a) x = Inr False" if "k \<le> a" "a < length xs" for a
    using sp [of a] that lt_less [OF el assms(2), of a] less_asym [OF assms(2) el, of a] by (auto split: if_splits)
  consider "j < k" | "j = k" | "i < k" "k < j" | "i = k" "k < j" | "k < i" using j by linarith
  then show "lt (?ys ! j) (?ys ! i) = Inr False"
    using j nth [of j] nth [of i] k by cases (auto intro!: so below above)
qed

end

lemma go_right_kinded:
  "kinded s x \<Longrightarrow> kinded s v \<Longrightarrow>
   go_right call (Suc n) right None x E v = (E, Inr (if right then \<not> kind_less s x v else kind_less s v x))"
  by (simp add: go_right_def dispatch_lt_kinded del: dispatch_lt.simps)

text \<open>The searches and the insertions share this.\<close>

lemma bisect_call_splits:
  assumes "list_all (kinded s) (list_at E l)" "kinded s x" "sorted_under (dispatch_lt E (Suc n)) (list_at E l)"
  obtains k where "bisect_search (go_right call (Suc n) right None x) (list_at E l) E 0 (length (list_at E l)) = (E, Inr k)"
    "splits_at (dispatch_lt E (Suc n)) right x (list_at E l) k" "k \<le> length (list_at E l)"
  using kinds.bisect_search_splits [of "list_at E l" s x E n "go_right call (Suc n) right None x" E right]
    assms go_right_kinded [OF assms(2)] unfolding list_all_iff splits_at_def by blast

text \<open>C8: \<open>bisect_left\<close> and \<open>bisect_right\<close>, called with a list and a value and neither \<open>key\<close> nor bounds, on a
  sorted list of fewer than \<open>2^63\<close> elements that, with the value, are all integers (booleans included) or all
  strings: they return, without changing anything, the position that splits the list.  Every element before it is
  smaller than (not greater than) the one searched, and no element after it is.\<close>

theorem bisect_correct:
  assumes "list_all (kinded s) (list_at E l)" "kinded s x" "sorted_under (dispatch_lt E (Suc n)) (list_at E l)"
    "length (list_at E l) < 2 ^ 63"
  shows "\<exists>k. bisect_call call E (Suc n) (if right then ''bisect_right'' else ''bisect_left'') [VList l, x] None =
      Some (E, Inr (VInt (of_nat k))) \<and> splits_at (dispatch_lt E (Suc n)) right x (list_at E l) k"
proof -
  obtain k where k: "bisect_search (go_right call (Suc n) right None x) (list_at E l) E 0 (length (list_at E l)) = (E, Inr k)"
    "splits_at (dispatch_lt E (Suc n)) right x (list_at E l) k" "k \<le> length (list_at E l)"
    by (rule bisect_call_splits [OF assms(1-3)])
  then show ?thesis
    using assms(4) by (intro exI [of _ k]) (cases right; simp add: bisect_call_def need_arg_def nth_opt_def opt_bound_def
        Let_def)
qed

text \<open>\<open>insort_left\<close> and \<open>insort_right\<close> put the new element at the position \<open>bisect\<close>
  finds, and the list stays sorted.\<close>

theorem insort_correct:
  assumes "list_all (kinded s) (list_at E l)" "kinded s x" "sorted_under (dispatch_lt E (Suc n)) (list_at E l)"
  shows "\<exists>k ys. bisect_call call E (Suc n) (if right then ''insort_right'' else ''insort_left'') [VList l, x] None =
      Some (E\<lparr>list_at := (list_at E)(l := ys)\<rparr>, Inr VNone) \<and> splits_at (dispatch_lt E (Suc n)) right x (list_at E l) k \<and>
    ys = take k (list_at E l) @ x # drop k (list_at E l) \<and> sorted_under (dispatch_lt E (Suc n)) ys"
proof -
  let ?xs = "list_at E l"
  obtain k where k: "bisect_search (go_right call (Suc n) right None x) ?xs E 0 (length ?xs) = (E, Inr k)"
    "splits_at (dispatch_lt E (Suc n)) right x ?xs k" "k \<le> length ?xs"
    by (rule bisect_call_splits [OF assms])
  have "sorted_under (dispatch_lt E (Suc n)) (take k ?xs @ x # drop k ?xs)"
    using kinds.insert_sorted [of ?xs s x E n right k] assms k(2) unfolding list_all_iff by blast
  then show ?thesis
    using k by (intro exI [of _ k] exI [of _ "take k ?xs @ x # drop k ?xs"])
      (cases right; simp add: bisect_call_def need_arg_def nth_opt_def opt_bound_def vec_insert_def Let_def)
qed

definition sorted_ints :: env where
  "sorted_ints = empty_env\<lparr>list_at := (\<lambda>a. [VInt 1, VBool True, VInt 3])\<rparr>"

lemma sorted_ints_sorted:
  "list_all (kinded False) (list_at sorted_ints 0)" "length (list_at sorted_ints 0) < 2 ^ 63"
  "sorted_under (dispatch_lt E (Suc n)) (list_at sorted_ints 0)"
proof -
  have "dispatch_lt E (Suc n) (VBool True) (VInt 1) = Inr False" "dispatch_lt E (Suc n) (VInt 3) (VInt 1) = Inr False"
    "dispatch_lt E (Suc n) (VInt 3) (VBool True) = Inr False"
    by (simp_all add: dispatch_lt_int del: dispatch_lt.simps)
  then show "sorted_under (dispatch_lt E (Suc n)) (list_at sorted_ints 0)"
    by (simp add: sorted_under_def sorted_ints_def All_less_Suc numeral_2_eq_2 del: dispatch_lt.simps)
qed (simp_all add: sorted_ints_def kinded_def)

theorem bisect_correct_witness:
  "\<exists>k. bisect_call (\<lambda>E f args. (E, Inr VNone)) sorted_ints 1 (if True then ''bisect_right'' else ''bisect_left'')
      [VList 0, VInt 1] None = Some (sorted_ints, Inr (VInt (of_nat k))) \<and>
    splits_at (dispatch_lt sorted_ints 1) True (VInt 1) (list_at sorted_ints 0) k"
  unfolding One_nat_def
  by (rule bisect_correct [OF sorted_ints_sorted(1) _ sorted_ints_sorted(3,2)]) (simp add: kinded_def)

theorem insort_correct_witness:
  "\<exists>k ys. bisect_call (\<lambda>E f args. (E, Inr VNone)) sorted_ints 1 (if False then ''insort_right'' else ''insort_left'')
      [VList 0, VInt 2] None = Some (sorted_ints\<lparr>list_at := (list_at sorted_ints)(0 := ys)\<rparr>, Inr VNone) \<and>
    splits_at (dispatch_lt sorted_ints 1) False (VInt 2) (list_at sorted_ints 0) k \<and>
    ys = take k (list_at sorted_ints 0) @ VInt 2 # drop k (list_at sorted_ints 0) \<and> sorted_under (dispatch_lt sorted_ints 1) ys"
  unfolding One_nat_def
  by (rule insort_correct [OF sorted_ints_sorted(1) _ sorted_ints_sorted(3)]) (simp add: kinded_def)

end
