(* ===== verification/Slices.thy ===== *)
theory Slices
  imports Bisect
begin

text \<open>
  Slices: the bounds and positions of \<open>a[i:j:k]\<close> as they are read
  (\<open>slice_sequence\<close> of \<open>eval/names.rs\<close>), assigned (\<open>extended_indices\<close> of
  \<open>eval/place.rs\<close>) and deleted (\<open>strided_indices\<close> of \<open>eval/delete.rs\<close>).

  An \<open>i64\<close> is an \<open>int\<close> in the range of the type.  The only sum that can leave that range
  is the step of the loops, \<open>i += stride\<close>, which wraps around in a release build.  A loop
  is a partial function; \<open>None\<close> would be a loop that does not end.
\<close>

section \<open>Bounds\<close>

definition i64_add :: "int \<Rightarrow> int \<Rightarrow> int" where
  "i64_add a b = sint (word_of_int (a + b) :: i64)"

definition slice_type_error :: eval_error where
  "slice_type_error = Interpreter (TypeError ''slice indices must be integers or None or have an __index__ method'')"

definition resolve_bound :: "pyval option \<Rightarrow> int \<Rightarrow> int eval_result" where
  "resolve_bound val dflt = (case val of
       None \<Rightarrow> Inr dflt
     | Some VNone \<Rightarrow> Inr dflt
     | Some (VInt i) \<Rightarrow> Inr (sint i)
     | Some (VBool b) \<Rightarrow> Inr (if b then 1 else 0)
     | Some v \<Rightarrow> Inl slice_type_error)"

definition resolve_step :: "pyval option \<Rightarrow> int eval_result" where
  "resolve_step step = (case step of
       None \<Rightarrow> Inr 1
     | Some VNone \<Rightarrow> Inr 1
     | Some (VInt s) \<Rightarrow>
         (if sint s = 0 then Inl (Interpreter (ValueError ''slice step cannot be zero'')) else Inr (sint s))
     | Some (VBool b) \<Rightarrow> (if b then Inr 1 else Inl (Interpreter (ValueError ''slice step cannot be zero'')))
     | Some v \<Rightarrow> Inl slice_type_error)"

definition clamp_slice_index :: "int \<Rightarrow> int \<Rightarrow> int" where
  "clamp_slice_index idx len = (let adjusted = (if idx < 0 then idx + len else idx) in min (max adjusted 0) len)"

definition clamp_slice_index_neg :: "int \<Rightarrow> int \<Rightarrow> int" where
  "clamp_slice_index_neg idx len =
     (let adjusted = (if idx < 0 then idx + len else idx) in min (max adjusted (- 1)) (len - 1))"

definition clamp :: "int \<Rightarrow> int \<Rightarrow> int \<Rightarrow> int" where
  "clamp x lo hi = (if x < lo then lo else if hi < x then hi else x)"

definition clamp_index :: "int \<Rightarrow> int \<Rightarrow> int" where
  "clamp_index idx len = clamp (if idx < 0 then idx + len else idx) 0 len"

definition clamp_index_neg :: "int \<Rightarrow> int \<Rightarrow> int" where
  "clamp_index_neg idx len = clamp (if idx < 0 then idx + len else idx) (- 1) (len - 1)"

definition to_index :: "int \<Rightarrow> nat eval_result" where
  "to_index i = (if 0 \<le> i then Inr (nat i)
                 else Inl (Interpreter (Runtime ''slice index overflow (internal invariant)'')))"

section \<open>Positions\<close>

partial_function (option) stride_loop ::
  "(int \<Rightarrow> bool) \<Rightarrow> (int \<Rightarrow> 'e + 'b) \<Rightarrow> int \<Rightarrow> int \<Rightarrow> ('e + 'b list) option" where
  "stride_loop cond body stride i =
     (if cond i then
        (case body i of
           Inl e \<Rightarrow> Some (Inl e)
         | Inr x \<Rightarrow>
             Option.bind (stride_loop cond body stride (i64_add i stride))
               (\<lambda>r. Some (case r of Inl e \<Rightarrow> Inl e | Inr xs \<Rightarrow> Inr (x # xs))))
      else Some (Inr []))"

definition slice_sequence ::
  "'v list \<Rightarrow> pyval option \<Rightarrow> pyval option \<Rightarrow> int \<Rightarrow> 'v list eval_result option" where
  "slice_sequence items lower upper stride =
     (if 2 ^ 63 \<le> length items
      then Some (Inl (Interpreter (Runtime ''sequence length overflows i64 for slicing'')))
      else
        (let len = int (length items); element = (\<lambda>i. result_bind (to_index i) (\<lambda>u. Inr (items ! u))) in
         if 0 < stride then
           (case resolve_bound lower 0 of
              Inl e \<Rightarrow> Some (Inl e)
            | Inr raw_start \<Rightarrow> (case resolve_bound upper len of
                Inl e \<Rightarrow> Some (Inl e)
              | Inr raw_stop \<Rightarrow>
                  stride_loop (\<lambda>i. i < clamp_slice_index raw_stop len) element stride (clamp_slice_index raw_start len)))
         else
           (case resolve_bound lower (len - 1) of
              Inl e \<Rightarrow> Some (Inl e)
            | Inr raw_start \<Rightarrow> (case resolve_bound upper (- (len + 1)) of
                Inl e \<Rightarrow> Some (Inl e)
              | Inr raw_stop \<Rightarrow>
                  stride_loop (\<lambda>i. clamp_slice_index_neg raw_stop len < i) element stride
                    (clamp_slice_index_neg raw_start len)))))"

record slice_spec =
  spec_lower :: "pyval option"
  spec_upper :: "pyval option"
  spec_step :: "pyval option"

definition extended_indices :: "int \<Rightarrow> slice_spec \<Rightarrow> int \<Rightarrow> nat list eval_result option" where
  "extended_indices len spec stride =
     (if 0 < stride then
        (case resolve_bound (spec_lower spec) 0 of
           Inl e \<Rightarrow> Some (Inl e)
         | Inr lo \<Rightarrow> (case resolve_bound (spec_upper spec) len of
             Inl e \<Rightarrow> Some (Inl e)
           | Inr hi \<Rightarrow> stride_loop (\<lambda>i. i < clamp_index hi len) to_index stride (clamp_index lo len)))
      else
        (case resolve_bound (spec_lower spec) (len - 1) of
           Inl e \<Rightarrow> Some (Inl e)
         | Inr lo \<Rightarrow> (case resolve_bound (spec_upper spec) (- (len + 1)) of
             Inl e \<Rightarrow> Some (Inl e)
           | Inr hi \<Rightarrow> stride_loop (\<lambda>i. clamp_index_neg hi len < i) to_index stride (clamp_index_neg lo len))))"

text \<open>Deletion resolves a bound without an error, skips positions that are not a \<open>usize\<close>, and sorts
  the positions in descending order.\<close>

definition resolve_lenient :: "pyval option \<Rightarrow> int \<Rightarrow> int" where
  "resolve_lenient v dflt = (case v of Some (VInt i) \<Rightarrow> sint i | Some (VBool b) \<Rightarrow> (if b then 1 else 0) | _ \<Rightarrow> dflt)"

definition usize_try_from :: "int \<Rightarrow> nat option" where
  "usize_try_from i = (if 0 \<le> i then Some (nat i) else None)"

definition strided_indices :: "pyval option \<Rightarrow> pyval option \<Rightarrow> int \<Rightarrow> int \<Rightarrow> nat list option" where
  "strided_indices lower upper step len =
     map_option (\<lambda>r. case r of Inl u \<Rightarrow> [] | Inr us \<Rightarrow> remdups_adj (rev (sort (List.map_filter id us))))
       (if 0 < step
        then stride_loop (\<lambda>i. i < clamp_slice_index (resolve_lenient upper len) len)
               (\<lambda>i. Inr (usize_try_from i) :: unit + nat option) step
               (clamp_slice_index (resolve_lenient lower 0) len)
        else stride_loop (\<lambda>i. clamp_slice_index_neg (resolve_lenient upper (- (len + 1))) len < i)
               (\<lambda>i. Inr (usize_try_from i) :: unit + nat option) step
               (clamp_slice_index_neg (resolve_lenient lower (len - 1)) len))"

section \<open>The positions a slice selects\<close>

text \<open>The reference: the positions between the bounds whose distance from the first is a multiple of
  the stride, in the direction of the stride.\<close>

definition selected :: "int \<Rightarrow> int \<Rightarrow> int \<Rightarrow> nat \<Rightarrow> nat list" where
  "selected b e stride len =
     (if 0 < stride then filter (\<lambda>i. b \<le> int i \<and> int i < e \<and> stride dvd (int i - b)) [0..<len]
      else filter (\<lambda>i. e < int i \<and> int i \<le> b \<and> stride dvd (b - int i)) (rev [0..<len]))"

lemma clamp_slice_index_bounds:
  "0 \<le> len \<Longrightarrow> 0 \<le> clamp_slice_index idx len \<and> clamp_slice_index idx len \<le> len"
  "0 \<le> len \<Longrightarrow> - 1 \<le> clamp_slice_index_neg idx len \<and> clamp_slice_index_neg idx len \<le> len - 1"
  by (auto simp: clamp_slice_index_def clamp_slice_index_neg_def Let_def)

lemma clamp_index_eq: "0 \<le> len \<Longrightarrow> clamp_index idx len = clamp_slice_index idx len"
  "0 \<le> len \<Longrightarrow> clamp_index_neg idx len = clamp_slice_index_neg idx len"
  by (auto simp: clamp_index_def clamp_index_neg_def clamp_def clamp_slice_index_def clamp_slice_index_neg_def Let_def)

lemma i64_add_exact: "in_i64 (a + b) \<Longrightarrow> i64_add a b = a + b"
  unfolding i64_add_def by (rule sint_word_of_int_i64)

lemma dvd_step: "(s :: int) dvd (i - (b + s)) \<longleftrightarrow> s dvd (i - b)"
  using dvd_add_right_iff [of s "- s" "i - b"] by (simp add: algebra_simps)

lemma dvd_far:
  assumes "0 < (s :: int)" "b < i" "s dvd (i - b)"
  shows "b + s \<le> i"
  using zdvd_imp_le [OF assms(3)] assms(2) by simp

lemma upt_split: "b < len \<Longrightarrow> [0..<len] = [0..<b] @ b # [Suc b..<len]"
  by (metis less_imp_add_positive upt_add_eq_append upt_conv_Cons le0 add_0 less_imp_le)

lemma selected_up:
  assumes "0 < s" "0 \<le> b" "e \<le> int len"
  shows "selected b e s len = (if b < e then nat b # selected (b + s) e s len else [])"
proof (cases "b < e")
  case False
  then show ?thesis using assms(1) by (auto simp: selected_def)
next
  case True
  define n where "n = nat b"
  have n: "int n = b" "n < len" using assms(2,3) True by (auto simp: n_def)
  let ?P = "\<lambda>b i. b \<le> int i \<and> int i < e \<and> s dvd (int i - b)"
  have before: "filter (?P b) [0..<n] = []" "filter (?P (b + s)) [0..<n] = []"
    using n(1) assms(1) by (auto simp: filter_empty_conv)
  have after: "filter (?P b) [Suc n..<len] = filter (?P (b + s)) [Suc n..<len]"
  proof (rule filter_cong [OF refl])
    fix i assume "i \<in> set [Suc n..<len]"
    then have "b < int i" using n(1) by auto
    then show "?P b i \<longleftrightarrow> ?P (b + s) i"
      using dvd_far [OF assms(1)] dvd_step [of s "int i" b] assms(1) by auto
  qed
  have "filter (?P b) [0..<len] = n # filter (?P (b + s)) [0..<len]"
    using True n(1) assms(1) by (simp add: upt_split [OF n(2)] before after)
  then show ?thesis using True assms(1) by (simp add: selected_def n_def)
qed

lemma selected_down:
  assumes "s < 0" "- 1 \<le> e" "b < int len"
  shows "selected b e s len = (if e < b then nat b # selected (b + s) e s len else [])"
proof (cases "e < b")
  case False
  then show ?thesis using assms(1) by (auto simp: selected_def)
next
  case True
  define n where "n = nat b"
  have n: "int n = b" "n < len" using assms(2,3) True by (auto simp: n_def)
  let ?P = "\<lambda>b i. e < int i \<and> int i \<le> b \<and> s dvd (b - int i)"
  have after: "filter (?P b) (rev [Suc n..<len]) = []" "filter (?P (b + s)) (rev [Suc n..<len]) = []"
    using n(1) assms(1) by (auto simp: filter_empty_conv)
  have before: "filter (?P b) (rev [0..<n]) = filter (?P (b + s)) (rev [0..<n])"
  proof (rule filter_cong [OF refl])
    fix i assume "i \<in> set (rev [0..<n])"
    then have less: "int i < b" using n(1) by auto
    have "s dvd (b + s - int i) \<longleftrightarrow> s dvd (b - int i)"
      using dvd_add_right_iff [of s s "b - int i"] by (simp add: algebra_simps)
    moreover have "int i \<le> b + s" if "s dvd (b - int i)"
      using dvd_far [of "- s" "int i" b] that less assms(1) by simp
    ultimately show "?P b i \<longleftrightarrow> ?P (b + s) i"
      using assms(1) less by auto
  qed
  have "filter (?P b) (rev [0..<len]) = n # filter (?P (b + s)) (rev [0..<len])"
    using True n(1) assms(1) by (simp add: upt_split [OF n(2)] before after)
  then show ?thesis using True assms(1) by (simp add: selected_def n_def)
qed

lemma stride_loop_up:
  assumes "0 < s" "0 \<le> i" "e \<le> int len" "int len + s \<le> 2 ^ 63" "\<And>j. j < len \<Longrightarrow> body (int j) = Inr (g j)"
  shows "stride_loop (\<lambda>i. i < e) body s i = Some (Inr (map g (selected i e s len)))"
  using assms(2)
proof (induction "nat (e - i)" arbitrary: i rule: less_induct)
  case less
  show ?case
  proof (cases "i < e")
    case False
    then show ?thesis
      by (simp add: stride_loop.simps [of _ _ _ i] selected_up [OF assms(1) less.prems assms(3)])
  next
    case True
    have "in_i64 (i + s)" using True less.prems assms(1,3,4) by (auto simp: in_i64_def)
    then have add: "i64_add i s = i + s" by (rule i64_add_exact)
    have ih: "stride_loop (\<lambda>i. i < e) body s (i + s) = Some (Inr (map g (selected (i + s) e s len)))"
      using less.hyps [of "i + s"] True assms(1) less.prems by simp
    have "body i = Inr (g (nat i))" using assms(5) [of "nat i"] True less.prems assms(3) by simp
    then show ?thesis
      using True by (simp add: stride_loop.simps [of _ _ _ i] add ih selected_up [OF assms(1) less.prems assms(3)])
  qed
qed

lemma stride_loop_down:
  assumes "s < 0" "- (2 ^ 63) \<le> s" "- 1 \<le> e" "i < int len" "len < 2 ^ 63" "\<And>j. j < len \<Longrightarrow> body (int j) = Inr (g j)"
  shows "stride_loop (\<lambda>i. e < i) body s i = Some (Inr (map g (selected i e s len)))"
  using assms(4)
proof (induction "nat (i - e)" arbitrary: i rule: less_induct)
  case less
  show ?case
  proof (cases "e < i")
    case False
    then show ?thesis
      by (simp add: stride_loop.simps [of _ _ _ i] selected_down [OF assms(1,3) less.prems])
  next
    case True
    have "in_i64 (i + s)" using True less.prems assms(1,2,3,5) by (auto simp: in_i64_def)
    then have add: "i64_add i s = i + s" by (rule i64_add_exact)
    have ih: "stride_loop (\<lambda>i. e < i) body s (i + s) = Some (Inr (map g (selected (i + s) e s len)))"
      using less.hyps [of "i + s"] True assms(1) less.prems by simp
    have "body i = Inr (g (nat i))" using assms(6) [of "nat i"] True less.prems assms(3) by simp
    then show ?thesis
      using True by (simp add: stride_loop.simps [of _ _ _ i] add ih selected_down [OF assms(1,3) less.prems])
  qed
qed

section \<open>Bounds of a slice\<close>

text \<open>The bounds a reader, a writer and a deleter compute for the same slice expression.\<close>

definition slice_begin :: "pyval option \<Rightarrow> int \<Rightarrow> int \<Rightarrow> int" where
  "slice_begin lower stride len =
     (if 0 < stride then clamp_slice_index (resolve_lenient lower 0) len
      else clamp_slice_index_neg (resolve_lenient lower (len - 1)) len)"

definition slice_end :: "pyval option \<Rightarrow> int \<Rightarrow> int \<Rightarrow> int" where
  "slice_end upper stride len =
     (if 0 < stride then clamp_slice_index (resolve_lenient upper len) len
      else clamp_slice_index_neg (resolve_lenient upper (- (len + 1))) len)"

definition good_bound :: "pyval option \<Rightarrow> bool" where
  "good_bound v = (case v of None \<Rightarrow> True | Some VNone \<Rightarrow> True | Some (VInt i) \<Rightarrow> True | Some (VBool b) \<Rightarrow> True | _ \<Rightarrow> False)"

definition good_stride :: "int \<Rightarrow> nat \<Rightarrow> bool" where
  "good_stride stride len \<longleftrightarrow> stride \<noteq> 0 \<and> - (2 ^ 63) \<le> stride \<and> len < 2 ^ 63 \<and> int len + stride \<le> 2 ^ 63"

lemma resolve_good: "good_bound v \<Longrightarrow> resolve_bound v d = Inr (resolve_lenient v d)"
  by (auto simp: good_bound_def resolve_bound_def resolve_lenient_def split: option.splits pyval.splits)

lemma stride_loop_selected:
  assumes "good_stride s len" "\<And>j. j < len \<Longrightarrow> body (int j) = Inr (g j)"
    "i = slice_begin lower s (int len)" "e = slice_end upper s (int len)"
  shows "stride_loop (if 0 < s then (\<lambda>i. i < e) else (\<lambda>i. e < i)) body s i = Some (Inr (map g (selected i e s len)))"
proof (cases "0 < s")
  case True
  then have "0 \<le> i" "e \<le> int len"
    using assms(3,4) clamp_slice_index_bounds(1) [of "int len"] by (auto simp: slice_begin_def slice_end_def)
  then show ?thesis
    using stride_loop_up [where body = body and g = g, of s i e len] True assms(1,2) by (simp add: good_stride_def)
next
  case False
  then have "- 1 \<le> e" "i < int len"
    using assms(3,4) clamp_slice_index_bounds(2) [of "int len"] by (fastforce simp: slice_begin_def slice_end_def)+
  then show ?thesis
    using stride_loop_down [where body = body and g = g, of s e i len] False assms(1,2) by (simp add: good_stride_def)
qed

abbreviation slice_positions :: "pyval option \<Rightarrow> pyval option \<Rightarrow> int \<Rightarrow> nat \<Rightarrow> nat list" where
  "slice_positions lower upper stride len \<equiv>
     selected (slice_begin lower stride (int len)) (slice_end upper stride (int len)) stride len"

lemma selected_less: "i \<in> set (selected b e s len) \<Longrightarrow> i < len"
  by (auto simp: selected_def split: if_splits)

lemma selected_distinct: "distinct (selected b e s len)"
  by (simp add: selected_def)

lemma selected_sorted:
  "0 < s \<Longrightarrow> sorted (selected b e s len)" "\<not> 0 < s \<Longrightarrow> sorted (rev (selected b e s len))"
  by (simp_all add: selected_def rev_filter [symmetric] sorted_wrt_filter)

lemma sort_selected: "rev (sort (selected b e s len)) = (if 0 < s then rev (selected b e s len) else selected b e s len)"
proof (cases "0 < s")
  case True
  then show ?thesis by (simp add: sorted_sort_id [OF selected_sorted(1)])
next
  case False
  have "sort (selected b e s len) = sort (rev (selected b e s len))" by (rule properties_for_sort) simp_all
  then show ?thesis using False sorted_sort_id [OF selected_sorted(2) [OF False]] by simp
qed

lemma to_index_nat: "to_index (int j) = Inr j"
  by (simp add: to_index_def)

lemma slice_sequence_selected:
  assumes "good_bound lower" "good_bound upper" "good_stride s (length items)"
  shows "slice_sequence items lower upper s =
    Some (Inr (map ((!) items) (slice_positions lower upper s (length items))))"
  using stride_loop_selected [OF assms(3) _ refl refl,
      of "\<lambda>i. result_bind (to_index i) (\<lambda>u. Inr (items ! u))" "(!) items" upper lower] assms
  by (auto simp: slice_sequence_def to_index_nat resolve_good slice_begin_def slice_end_def Let_def good_stride_def)

lemma extended_indices_selected:
  assumes "good_bound (spec_lower spec)" "good_bound (spec_upper spec)" "good_stride s len"
  shows "extended_indices (int len) spec s =
    Some (Inr (slice_positions (spec_lower spec) (spec_upper spec) s len))"
  using stride_loop_selected [OF assms(3) _ refl refl, of to_index "\<lambda>u. u" "spec_upper spec" "spec_lower spec"] assms
  by (auto simp: extended_indices_def to_index_nat resolve_good slice_begin_def slice_end_def clamp_index_eq)

lemma map_filter_Some: "List.map_filter id (map Some xs) = xs"
  by (induction xs) (simp_all add: map_filter_simps)

lemma strided_indices_selected:
  assumes "good_stride s len"
  shows "strided_indices lower upper s (int len) = Some (rev (sort (slice_positions lower upper s len)))"
proof -
  let ?f = "\<lambda>i. Inr (usize_try_from i) :: unit + nat option"
  have "stride_loop (if 0 < s then (\<lambda>i. i < slice_end upper s (int len)) else (\<lambda>i. slice_end upper s (int len) < i)) ?f s
      (slice_begin lower s (int len)) = Some (Inr (map Some (slice_positions lower upper s len)))"
    by (rule stride_loop_selected [OF assms _ refl refl]) (simp add: usize_try_from_def)
  moreover have "remdups_adj (rev (sort (slice_positions lower upper s len))) = rev (sort (slice_positions lower upper s len))"
    by (rule remdups_adj_distinct) (simp add: selected_distinct)
  ultimately show ?thesis
    by (cases "0 < s") (simp_all add: strided_indices_def slice_begin_def slice_end_def map_filter_Some)
qed

text \<open>C39: Reading a slice, assigning to an extended slice and deleting an extended slice visit the same positions, those
  of the reference definition in the direction of the stride; deletion takes them from the back.  The bounds are missing,
  \<open>None\<close>, booleans or 64-bit integers, and the stride is a non-zero \<open>i64\<close> which, added to the length, does not exceed
  \<open>2^63\<close>.  Deletion here is that of \<open>strided_indices\<close>, which the code uses for a step other than 1; a contiguous
  deletion takes another path (\<open>delete_slice\<close>), which ignores boolean bounds.\<close>

theorem slice_positions_agree:
  assumes "good_bound lower" "good_bound upper" "good_stride stride (length items)"
  shows "slice_sequence items lower upper stride =
      Some (Inr (map ((!) items) (slice_positions lower upper stride (length items)))) \<and>
    extended_indices (int (length items)) \<lparr>spec_lower = lower, spec_upper = upper, spec_step = None\<rparr> stride =
      Some (Inr (slice_positions lower upper stride (length items))) \<and>
    strided_indices lower upper stride (int (length items)) =
      Some (rev (sort (slice_positions lower upper stride (length items))))"
  using slice_sequence_selected [OF assms] strided_indices_selected [OF assms(3)]
    extended_indices_selected [of "\<lparr>spec_lower = lower, spec_upper = upper, spec_step = None\<rparr>" stride "length items"] assms
  by simp

theorem slice_positions_agree_witness:
  "slice_sequence [VInt 7, VInt 8, VInt 9] None (Some (VInt 0)) (- 2) = Some (Inr [VInt 9]) \<and>
    extended_indices 3 \<lparr>spec_lower = None, spec_upper = Some (VInt 0), spec_step = None\<rparr> (- 2) = Some (Inr [2]) \<and>
    strided_indices None (Some (VInt 0)) (- 2) 3 = Some [2]"
proof -
  have "slice_positions None (Some (VInt 0)) (- 2) 3 = [2]"
    by (simp add: selected_def slice_begin_def slice_end_def resolve_lenient_def clamp_slice_index_neg_def upt_rec)
  then show ?thesis
    using slice_positions_agree [of None "Some (VInt 0)" "- 2" "[VInt 7, VInt 8, VInt 9]"]
    by (simp add: good_bound_def good_stride_def numeral_3_eq_3)
qed

text \<open>With a stride near the largest \<open>i64\<close> the position wraps around: reading reports an internal
  error, and deleting from position 5 of ten elements also deletes positions 3 and 1.\<close>

theorem slice_stride_overflow:
  "slice_sequence [0 :: nat, 1, 2, 3, 4, 5, 6, 7, 8, 9] (Some (VInt 5)) None (2 ^ 63 - 1) =
      Some (Inl (Interpreter (Runtime ''slice index overflow (internal invariant)''))) \<and>
    strided_indices (Some (VInt 5)) None (2 ^ 63 - 1) 10 = Some [5, 3, 1]"
proof -
  have add: "i64_add 5 9223372036854775807 = - 9223372036854775804" "i64_add (- 9223372036854775804) 9223372036854775807 = 3"
    "i64_add 3 9223372036854775807 = - 9223372036854775806" "i64_add (- 9223372036854775806) 9223372036854775807 = 1"
    "i64_add 1 9223372036854775807 = - 9223372036854775808" "i64_add (- 9223372036854775808) 9223372036854775807 = - 1"
    "i64_add (- 1) 9223372036854775807 = 9223372036854775806"
    by (simp_all add: i64_add_def)
  show ?thesis
    by (simp add: slice_sequence_def strided_indices_def resolve_bound_def resolve_lenient_def clamp_slice_index_def
        stride_loop.simps add to_index_def usize_try_from_def map_filter_simps)
qed

end
