(* ===== verification/Containers.thy ===== *)
theory Containers
  imports Slices
begin

text \<open>
  Containers: subscripts, item assignment and deletion, length, iteration and membership
  through the type objects of \<open>types.rs\<close>.

  A list, dictionary, bytearray or set lives in the heap \<open>env\<close>; a deque, Counter,
  defaultdict and ChainMap is stored in the value itself, so an update returns the heap and the
  container.  Item assignment and deletion also return the signed change of the size estimate.
\<close>

type_synonym 'a run = "'a eval_result option"

text \<open>What the operations use of the rest of the interpreter: the hash of a name, how a key is
  displayed, and the size estimates of \<open>state.rs\<close>.\<close>

record runtime =
  name_hash :: "string list \<Rightarrow> i64"
  key_display :: "value_key \<Rightarrow> string"
  value_size :: "pyval \<Rightarrow> nat"
  key_size :: "value_key \<Rightarrow> nat"

section \<open>Indices, keys and sizes\<close>

definition index_type_error :: "pyval \<Rightarrow> string \<Rightarrow> eval_error" where
  "index_type_error other container_name =
     (let ty = type_name other in
      Interpreter (TypeError
        (if container_name = ''string'' then ''string indices must be integers, not '' @ [CHR 39] @ ty @ [CHR 39]
         else if container_name = ''bytes'' then ''byte indices must be integers or slices, not '' @ ty
         else container_name @ '' indices must be integers or slices, not '' @ ty)))"

fun int_index :: "pyval \<Rightarrow> string \<Rightarrow> i64 eval_result" where
  "int_index index container_name = (case index of
       VInt i \<Rightarrow> Inr i
     | VBool b \<Rightarrow> Inr (if b then 1 else 0)
     | VEnumMember c m inner kind \<Rightarrow>
         (if kind = IntKind \<or> kind = IntFlag then int_index inner container_name
          else Inl (index_type_error index container_name))
     | other \<Rightarrow> Inl (index_type_error other container_name))"

declare int_index.simps [simp del]

definition normalize_seq_index :: "i64 \<Rightarrow> nat \<Rightarrow> string \<Rightarrow> nat eval_result" where
  "normalize_seq_index raw len kind =
     (if 2 ^ 63 \<le> len then Inl (Interpreter (Runtime ''sequence length overflows i64 for indexing''))
      else
        (let adjusted = (if sint raw < 0 then int len + sint raw else sint raw) in
         if adjusted < 0 \<or> int len \<le> adjusted then Inl (Exception (index_error kind))
         else Inr (nat adjusted)))"

definition to_isize_sat :: "nat \<Rightarrow> int" where
  "to_isize_sat n = (if 2 ^ 63 - 1 < int n then 2 ^ 63 - 1 else int n)"

definition size_delta :: "nat \<Rightarrow> nat \<Rightarrow> int" where
  "size_delta old new = to_isize_sat new - to_isize_sat old"

definition key_value :: "env \<Rightarrow> value_key \<Rightarrow> pyval" where
  "key_value E k = key_to_value (set_of_keys E (recurse_eq E)) k"

definition key_error :: "runtime \<Rightarrow> env \<Rightarrow> value_key \<Rightarrow> exception_value" where
  "key_error R E key = with_args (exception_new ''KeyError'' (key_display R key)) [key_value E key]"

text \<open>\<open>IndexMap\<close> in insertion order: a lookup, an insertion that keeps the position of an equal key,
  and \<open>shift_remove\<close>.\<close>

abbreviation same_key :: "env \<Rightarrow> value_key \<Rightarrow> value_key \<Rightarrow> bool" where
  "same_key E \<equiv> key_eq E (values_equal E)"

abbreviation map_get :: "env \<Rightarrow> (value_key \<times> pyval) list \<Rightarrow> value_key \<Rightarrow> pyval option" where
  "map_get E \<equiv> dict_get E (values_equal E)"

fun assoc_insert :: "('k \<Rightarrow> 'k \<Rightarrow> bool) \<Rightarrow> 'k \<Rightarrow> 'v \<Rightarrow> ('k \<times> 'v) list \<Rightarrow> ('k \<times> 'v) list" where
  "assoc_insert same k v [] = [(k, v)]"
| "assoc_insert same k v ((k', v') # m) =
     (if same k k' then (k', v) # m else (k', v') # assoc_insert same k v m)"

fun assoc_remove :: "('k \<Rightarrow> 'k \<Rightarrow> bool) \<Rightarrow> 'k \<Rightarrow> ('k \<times> 'v) list \<Rightarrow> ('k \<times> 'v) list" where
  "assoc_remove same k [] = []"
| "assoc_remove same k ((k', v') # m) = (if same k k' then m else (k', v') # assoc_remove same k m)"

abbreviation map_insert :: "env \<Rightarrow> value_key \<Rightarrow> pyval \<Rightarrow> (value_key \<times> pyval) list \<Rightarrow> (value_key \<times> pyval) list" where
  "map_insert E \<equiv> assoc_insert (same_key E)"

abbreviation map_remove :: "env \<Rightarrow> value_key \<Rightarrow> (value_key \<times> pyval) list \<Rightarrow> (value_key \<times> pyval) list" where
  "map_remove E \<equiv> assoc_remove (same_key E)"

definition insert_delta :: "runtime \<Rightarrow> env \<Rightarrow> (value_key \<times> pyval) list \<Rightarrow> value_key \<Rightarrow> pyval \<Rightarrow> int" where
  "insert_delta R E m key v = (case map_get E m key of
       None \<Rightarrow> to_isize_sat (key_size R key + value_size R v)
     | Some old \<Rightarrow> size_delta (value_size R old) (value_size R v))"

definition set_list :: "env \<Rightarrow> addr \<Rightarrow> pyval list \<Rightarrow> env" where
  "set_list E a xs = E\<lparr>list_at := (list_at E)(a := xs)\<rparr>"

definition set_dict :: "env \<Rightarrow> addr \<Rightarrow> (value_key \<times> pyval) list \<Rightarrow> env" where
  "set_dict E a m = E\<lparr>dict_at := (dict_at E)(a := m)\<rparr>"

definition set_bytes :: "env \<Rightarrow> addr \<Rightarrow> u8 list \<Rightarrow> env" where
  "set_bytes E a b = E\<lparr>bytes_at := (bytes_at E)(a := b)\<rparr>"

section \<open>Subscripts\<close>

definition element_at :: "pyval list \<Rightarrow> pyval \<Rightarrow> string \<Rightarrow> pyval eval_result" where
  "element_at items index kind =
     result_bind (int_index index kind) (\<lambda>raw.
     result_bind (normalize_seq_index raw (length items) kind) (\<lambda>idx. Inr (items ! idx)))"

definition str_get_item :: "pystr \<Rightarrow> pyval \<Rightarrow> pyval eval_result" where
  "str_get_item s index =
     result_bind (int_index index ''string'') (\<lambda>raw.
     result_bind (normalize_seq_index raw (length s) ''string'') (\<lambda>idx. Inr (VString [s ! idx])))"

definition bytes_get_item :: "env \<Rightarrow> pyval \<Rightarrow> pyval \<Rightarrow> pyval eval_result" where
  "bytes_get_item E container index =
     (let b = (case bytes_view E container of Some b \<Rightarrow> b | None \<Rightarrow> []);
          name = (case container of VByteArray a \<Rightarrow> ''bytearray'' | _ \<Rightarrow> ''bytes'') in
      result_bind (int_index index name) (\<lambda>raw.
      result_bind (normalize_seq_index raw (length b) ''bytes'') (\<lambda>idx. Inr (VInt (ucast (b ! idx))))))"

definition dict_get_item :: "runtime \<Rightarrow> env \<Rightarrow> addr \<Rightarrow> pyval \<Rightarrow> pyval eval_result" where
  "dict_get_item R E d index =
     result_bind (value_to_key (name_hash R) index) (\<lambda>key.
       (case map_get E (dict_at E d) key of Some v \<Rightarrow> Inr v | None \<Rightarrow> Inl (Exception (key_error R E key))))"

definition range_get_item :: "i64 \<Rightarrow> i64 \<Rightarrow> i64 \<Rightarrow> pyval \<Rightarrow> pyval eval_result" where
  "range_get_item start stop step index =
     result_bind (int_index index ''range'') (\<lambda>raw.
     result_bind (normalize_seq_index raw (range_length start stop step) ''range object'') (\<lambda>idx.
       if 2 ^ 63 \<le> idx then Inl (Interpreter (Runtime ''range index overflow''))
       else Inr (VInt (start + of_nat idx * step))))"

definition counter_get_item :: "runtime \<Rightarrow> env \<Rightarrow> (value_key \<times> pyval) list \<Rightarrow> pyval \<Rightarrow> pyval eval_result" where
  "counter_get_item R E m index =
     result_bind (value_to_key (name_hash R) index) (\<lambda>key.
       (case map_get E m key of Some v \<Rightarrow> Inr v | None \<Rightarrow> Inr (VInt 0)))"

primrec first_in_maps :: "env \<Rightarrow> value_key \<Rightarrow> pyval list \<Rightarrow> pyval option" where
  "first_in_maps E key [] = None"
| "first_in_maps E key (m # maps) = (case m of
       VDict d \<Rightarrow> (case map_get E (dict_at E d) key of Some v \<Rightarrow> Some v | None \<Rightarrow> first_in_maps E key maps)
     | _ \<Rightarrow> first_in_maps E key maps)"

definition chainmap_get_item :: "runtime \<Rightarrow> env \<Rightarrow> pyval list \<Rightarrow> pyval \<Rightarrow> pyval eval_result" where
  "chainmap_get_item R E maps index =
     result_bind (value_to_key (name_hash R) index) (\<lambda>key.
       (case first_in_maps E key maps of Some v \<Rightarrow> Inr v | None \<Rightarrow> Inl (Exception (key_error R E key))))"

definition get_item_slot :: "runtime \<Rightarrow> env \<Rightarrow> pyval \<Rightarrow> pyval \<Rightarrow> pyval eval_result option" where
  "get_item_slot R E container index = (case container of
       VList l \<Rightarrow> Some (element_at (list_at E l) index ''list'')
     | VTuple t \<Rightarrow> Some (element_at t index ''tuple'')
     | VString s \<Rightarrow> Some (str_get_item s index)
     | VBytes b \<Rightarrow> Some (bytes_get_item E container index)
     | VByteArray b \<Rightarrow> Some (bytes_get_item E container index)
     | VMemoryView b \<Rightarrow> Some (bytes_get_item E container index)
     | VDict d \<Rightarrow> Some (dict_get_item R E d index)
     | VOrderedDict d \<Rightarrow> Some (dict_get_item R E d index)
     | VRange a b c \<Rightarrow> Some (range_get_item a b c index)
     | VCounter m \<Rightarrow> Some (counter_get_item R E m index)
     | VDeque xs n \<Rightarrow> Some (element_at xs index ''deque'')
     | VChainMap ms \<Rightarrow> Some (chainmap_get_item R E ms index)
     | _ \<Rightarrow> None)"

definition dispatch_getitem :: "runtime \<Rightarrow> env \<Rightarrow> pyval \<Rightarrow> pyval \<Rightarrow> pyval eval_result" where
  "dispatch_getitem R E container index = (case container of
       VArray typecode items \<Rightarrow>
         result_bind (element_at (list_at E items) index ''list'') (\<lambda>r.
           Inr (case r of VList l \<Rightarrow> VArray typecode l | elem \<Rightarrow> elem))
     | _ \<Rightarrow> (case get_item_slot R E container index of
         Some r \<Rightarrow> r
       | None \<Rightarrow> Inl (Interpreter (TypeError
           ([CHR 39] @ type_object_name container @ [CHR 39] @ '' object is not subscriptable'')))))"

section \<open>Item assignment\<close>

definition byte_from_value :: "pyval \<Rightarrow> u8 eval_result" where
  "byte_from_value v = (case v of
       VInt n \<Rightarrow> (if 0 \<le> sint n \<and> sint n \<le> 255 then Inr (word_of_int (sint n))
                  else Inl (Interpreter (ValueError ''byte must be in range(0, 256)'')))
     | VBool b \<Rightarrow> Inr (if b then 1 else 0)
     | other \<Rightarrow> Inl (Interpreter (TypeError
         ([CHR 39] @ type_name other @ [CHR 39] @ '' object cannot be interpreted as an integer''))))"

definition list_set_item :: "runtime \<Rightarrow> env \<Rightarrow> addr \<Rightarrow> pyval \<Rightarrow> pyval \<Rightarrow> (env \<times> int) eval_result" where
  "list_set_item R E l index v =
     result_bind (int_index index ''list'') (\<lambda>raw.
     result_bind (normalize_seq_index raw (length (list_at E l)) ''list'') (\<lambda>idx.
       Inr (set_list E l ((list_at E l)[idx := v]), size_delta (value_size R (list_at E l ! idx)) (value_size R v))))"

definition dict_set_item :: "runtime \<Rightarrow> env \<Rightarrow> addr \<Rightarrow> pyval \<Rightarrow> pyval \<Rightarrow> (env \<times> int) eval_result" where
  "dict_set_item R E d index v =
     result_bind (value_to_key (name_hash R) index) (\<lambda>key.
       Inr (set_dict E d (map_insert E key v (dict_at E d)), insert_delta R E (dict_at E d) key v))"

definition bytearray_set_item :: "env \<Rightarrow> addr \<Rightarrow> pyval \<Rightarrow> pyval \<Rightarrow> (env \<times> int) eval_result" where
  "bytearray_set_item E ba index v =
     result_bind (byte_from_value v) (\<lambda>byte.
     result_bind (int_index index ''bytearray'') (\<lambda>raw.
     result_bind (normalize_seq_index raw (length (bytes_at E ba)) ''bytearray'') (\<lambda>idx.
       Inr (set_bytes E ba ((bytes_at E ba)[idx := byte]), 0))))"

definition map_set_item ::
  "runtime \<Rightarrow> env \<Rightarrow> (value_key \<times> pyval) list \<Rightarrow> pyval \<Rightarrow> pyval \<Rightarrow> ((value_key \<times> pyval) list \<times> int) eval_result" where
  "map_set_item R E m index v =
     result_bind (value_to_key (name_hash R) index) (\<lambda>key.
       Inr (map_insert E key v m, insert_delta R E m key v))"

definition deque_set_item :: "runtime \<Rightarrow> pyval list \<Rightarrow> pyval \<Rightarrow> pyval \<Rightarrow> (pyval list \<times> int) eval_result" where
  "deque_set_item R items index v =
     result_bind (int_index index ''deque'') (\<lambda>raw.
     result_bind (normalize_seq_index raw (length items) ''deque'') (\<lambda>idx.
       Inr (items[idx := v], size_delta (value_size R (items ! idx)) (value_size R v))))"

definition chainmap_set_item :: "runtime \<Rightarrow> env \<Rightarrow> pyval list \<Rightarrow> pyval \<Rightarrow> pyval \<Rightarrow> (env \<times> int) eval_result" where
  "chainmap_set_item R E maps index v =
     result_bind (value_to_key (name_hash R) index) (\<lambda>key.
       Inr (case maps of
              VDict d # rest \<Rightarrow> (set_dict E d (map_insert E key v (dict_at E d)), 0)
            | _ \<Rightarrow> (E, 0)))"

definition dispatch_setitem :: "runtime \<Rightarrow> env \<Rightarrow> pyval \<Rightarrow> pyval \<Rightarrow> pyval \<Rightarrow> (env \<times> pyval \<times> int) eval_result" where
  "dispatch_setitem R E container index v =
     (let shared = (\<lambda>r. result_bind r (\<lambda>(E1, delta). Inr (E1, container, delta))) in
      case container of
       VArray typecode items \<Rightarrow> shared (list_set_item R E items index v)
     | VList l \<Rightarrow> shared (list_set_item R E l index v)
     | VDict d \<Rightarrow> shared (dict_set_item R E d index v)
     | VOrderedDict d \<Rightarrow> shared (dict_set_item R E d index v)
     | VByteArray b \<Rightarrow> shared (bytearray_set_item E b index v)
     | VCounter m \<Rightarrow> result_bind (map_set_item R E m index v) (\<lambda>(m1, delta). Inr (E, VCounter m1, delta))
     | VDefaultDict m f \<Rightarrow> result_bind (map_set_item R E m index v) (\<lambda>(m1, delta). Inr (E, VDefaultDict m1 f, delta))
     | VDeque xs n \<Rightarrow> result_bind (deque_set_item R xs index v) (\<lambda>(ys, delta). Inr (E, VDeque ys n, delta))
     | VChainMap ms \<Rightarrow> shared (chainmap_set_item R E ms index v)
     | _ \<Rightarrow> Inl (Interpreter (TypeError
         ([CHR 39] @ type_object_name container @ [CHR 39] @ '' object does not support item assignment''))))"

section \<open>Item deletion\<close>

definition remove_nth :: "nat \<Rightarrow> 'v list \<Rightarrow> 'v list" where
  "remove_nth i xs = take i xs @ drop (Suc i) xs"

primrec remove_positions :: "runtime \<Rightarrow> nat list \<Rightarrow> pyval list \<Rightarrow> nat \<Rightarrow> pyval list \<times> nat" where
  "remove_positions R [] items freed = (items, freed)"
| "remove_positions R (u # us) items freed =
     (if u < length items then remove_positions R us (remove_nth u items) (freed + value_size R (items ! u))
      else remove_positions R us items freed)"

definition slice_step_value :: "pyval \<Rightarrow> int eval_result" where
  "slice_step_value step = (case step of
       VNone \<Rightarrow> Inr 1
     | VInt n \<Rightarrow> Inr (sint n)
     | VBool b \<Rightarrow> Inr (if b then 1 else 0)
     | _ \<Rightarrow> Inl slice_type_error)"

definition list_del_item :: "runtime \<Rightarrow> env \<Rightarrow> addr \<Rightarrow> pyval \<Rightarrow> (env \<times> int) run" where
  "list_del_item R E l index = (case index of
       VSlice start stop step \<Rightarrow>
         (case slice_step_value step of
            Inl e \<Rightarrow> Some (Inl e)
          | Inr st \<Rightarrow>
              if st = 0 then Some (Inl (Interpreter (ValueError ''slice step cannot be zero'')))
              else
                (let items = list_at E l; len = min (int (length items)) (2 ^ 63 - 1) in
                 map_option (\<lambda>us. case remove_positions R us items 0 of
                     (ys, freed) \<Rightarrow> Inr (set_list E l ys, - to_isize_sat freed))
                   (strided_indices (Some start) (Some stop) st len)))
     | _ \<Rightarrow>
         Some (result_bind (int_index index ''list'') (\<lambda>raw.
           result_bind (normalize_seq_index raw (length (list_at E l)) ''list'') (\<lambda>idx.
             Inr (set_list E l (remove_nth idx (list_at E l)), - to_isize_sat (value_size R (list_at E l ! idx)))))))"

definition map_del_item ::
  "runtime \<Rightarrow> env \<Rightarrow> (value_key \<times> pyval) list \<Rightarrow> pyval \<Rightarrow> ((value_key \<times> pyval) list \<times> int) eval_result" where
  "map_del_item R E m index =
     result_bind (value_to_key (name_hash R) index) (\<lambda>key.
       (case map_get E m key of
          None \<Rightarrow> Inl (Exception (key_error R E key))
        | Some v \<Rightarrow> Inr (map_remove E key m, - to_isize_sat (key_size R key + value_size R v))))"

definition dict_del_item :: "runtime \<Rightarrow> env \<Rightarrow> addr \<Rightarrow> pyval \<Rightarrow> (env \<times> int) eval_result" where
  "dict_del_item R E d index = result_bind (map_del_item R E (dict_at E d) index) (\<lambda>(m, delta). Inr (set_dict E d m, delta))"

definition bytearray_del_item :: "env \<Rightarrow> addr \<Rightarrow> pyval \<Rightarrow> (env \<times> int) eval_result" where
  "bytearray_del_item E ba index =
     result_bind (int_index index ''bytearray'') (\<lambda>raw.
     result_bind (normalize_seq_index raw (length (bytes_at E ba)) ''bytearray'') (\<lambda>idx.
       Inr (set_bytes E ba (remove_nth idx (bytes_at E ba)), - 1)))"

definition deque_del_item :: "runtime \<Rightarrow> pyval list \<Rightarrow> pyval \<Rightarrow> (pyval list \<times> int) eval_result" where
  "deque_del_item R items index =
     result_bind (int_index index ''deque'') (\<lambda>raw.
     result_bind (normalize_seq_index raw (length items) ''deque'') (\<lambda>idx.
       Inr (remove_nth idx items, - to_isize_sat (value_size R (items ! idx)))))"

definition chainmap_del_item :: "runtime \<Rightarrow> env \<Rightarrow> pyval list \<Rightarrow> pyval \<Rightarrow> (env \<times> int) eval_result" where
  "chainmap_del_item R E maps index =
     result_bind (value_to_key (name_hash R) index) (\<lambda>key.
       (let missing = Inl (Exception (exception_new ''KeyError'' (''Key not found in the first mapping: '' @ key_display R key))) in
        case maps of
          VDict d # rest \<Rightarrow>
            (if map_get E (dict_at E d) key = None then missing
             else Inr (set_dict E d (map_remove E key (dict_at E d)), 0))
        | _ \<Rightarrow> missing))"

definition dispatch_delitem :: "runtime \<Rightarrow> env \<Rightarrow> pyval \<Rightarrow> pyval \<Rightarrow> (env \<times> pyval \<times> int) run" where
  "dispatch_delitem R E container index =
     (let shared = (\<lambda>r. result_bind r (\<lambda>(E1, delta). Inr (E1, container, delta))) in
      case container of
       VList l \<Rightarrow> map_option shared (list_del_item R E l index)
     | VDict d \<Rightarrow> Some (shared (dict_del_item R E d index))
     | VOrderedDict d \<Rightarrow> Some (shared (dict_del_item R E d index))
     | VByteArray b \<Rightarrow> Some (shared (bytearray_del_item E b index))
     | VCounter m \<Rightarrow> Some (result_bind (map_del_item R E m index) (\<lambda>(m1, delta). Inr (E, VCounter m1, delta)))
     | VDefaultDict m f \<Rightarrow> Some (result_bind (map_del_item R E m index) (\<lambda>(m1, delta). Inr (E, VDefaultDict m1 f, delta)))
     | VDeque xs n \<Rightarrow> Some (result_bind (deque_del_item R xs index) (\<lambda>(ys, delta). Inr (E, VDeque ys n, delta)))
     | VChainMap ms \<Rightarrow> Some (shared (chainmap_del_item R E ms index))
     | _ \<Rightarrow> Some (Inl (Interpreter (TypeError
         ([CHR 39] @ type_object_name container @ [CHR 39] @ '' object does not support item deletion'')))))"

section \<open>Iteration\<close>

definition MAX_COLLECTION_SIZE :: nat where "MAX_COLLECTION_SIZE = 10000000"

text \<open>The number of elements, counted with \<open>i128\<close>, where nothing overflows.\<close>

definition range_count :: "i64 \<Rightarrow> i64 \<Rightarrow> i64 \<Rightarrow> int" where
  "range_count start stop step =
     (let s = sint start; e = sint stop; st = sint step; span = e - s in
      if 0 < st \<and> 0 < span \<or> st < 0 \<and> span < 0
      then span sdiv st + (if span smod st \<noteq> 0 then 1 else 0)
      else 0)"

definition range_iter :: "i64 \<Rightarrow> i64 \<Rightarrow> i64 \<Rightarrow> pyval list run" where
  "range_iter start stop step =
     (let count = range_count start stop step in
      if int MAX_COLLECTION_SIZE < count then
        Some (Inl (Interpreter (LimitExceeded (''range with '' @ nat_digits (nat count) @
          '' elements is too large to materialise (limit: '' @ nat_digits MAX_COLLECTION_SIZE @ '')''))))
      else if 0 < sint step then
        stride_loop (\<lambda>i. i < sint stop) (\<lambda>i. Inr (VInt (word_of_int i))) (sint step) (sint start)
      else if sint step < 0 then
        stride_loop (\<lambda>i. sint stop < i) (\<lambda>i. Inr (VInt (word_of_int i))) (sint step) (sint start)
      else Some (Inr []))"

text \<open>\<open>FxHashSet::insert\<close> keeps the first of equal keys.\<close>

fun dedup_keys :: "env \<Rightarrow> value_key list \<Rightarrow> value_key list \<Rightarrow> value_key list" where
  "dedup_keys E seen [] = []"
| "dedup_keys E seen (k # ks) =
     (if list_ex (\<lambda>s. same_key E k s) seen then dedup_keys E seen ks else k # dedup_keys E (k # seen) ks)"

definition map_keys_of :: "env \<Rightarrow> pyval \<Rightarrow> value_key list" where
  "map_keys_of E m = (case m of VDict d \<Rightarrow> List.map fst (dict_at E d) | _ \<Rightarrow> [])"

definition chainmap_iter :: "env \<Rightarrow> pyval list \<Rightarrow> pyval list" where
  "chainmap_iter E maps = List.map (key_value E) (dedup_keys E [] (concat (List.map (map_keys_of E) (rev maps))))"

definition chainmap_len :: "env \<Rightarrow> pyval list \<Rightarrow> nat" where
  "chainmap_len E maps = length (dedup_keys E [] (concat (List.map (map_keys_of E) maps)))"

definition iter_slot :: "env \<Rightarrow> pyval \<Rightarrow> pyval list run option" where
  "iter_slot E v = (case v of
       VList l \<Rightarrow> Some (Some (Inr (list_at E l)))
     | VTuple t \<Rightarrow> Some (Some (Inr t))
     | VSet s \<Rightarrow> Some (Some (Inr (body_iter_ordered (set_at E s))))
     | VFrozenset s \<Rightarrow> Some (Some (Inr (body_iter_ordered s)))
     | VString s \<Rightarrow> Some (Some (Inr (List.map (\<lambda>c. VString [c]) s)))
     | VBytes b \<Rightarrow> Some (Some (Inr (List.map (\<lambda>x. VInt (ucast x)) b)))
     | VByteArray b \<Rightarrow> Some (Some (Inr (List.map (\<lambda>x. VInt (ucast x)) (bytes_at E b))))
     | VMemoryView inner \<Rightarrow>
         Some (Some (Inr (List.map (\<lambda>x. VInt (ucast x)) (case bytes_view E inner of Some b \<Rightarrow> b | None \<Rightarrow> []))))
     | VDict d \<Rightarrow> Some (Some (Inr (List.map (\<lambda>e. key_value E (fst e)) (dict_at E d))))
     | VOrderedDict d \<Rightarrow> Some (Some (Inr (List.map (\<lambda>e. key_value E (fst e)) (dict_at E d))))
     | VRange a b c \<Rightarrow> Some (range_iter a b c)
     | VCounter m \<Rightarrow> Some (Some (Inr (List.map (\<lambda>e. key_value E (fst e)) m)))
     | VDefaultDict m f \<Rightarrow> Some (Some (Inr (List.map (\<lambda>e. key_value E (fst e)) m)))
     | VDeque xs n \<Rightarrow> Some (Some (Inr xs))
     | VChainMap ms \<Rightarrow> Some (Some (Inr (chainmap_iter E ms)))
     | VDictView d k \<Rightarrow> Some (Some (Inr (dictview_iter E (recurse_eq E) d k)))
     | _ \<Rightarrow> None)"

definition dispatch_iter :: "env \<Rightarrow> pyval \<Rightarrow> pyval list run" where
  "dispatch_iter E v = (case v of
       VLazy items cursor kind \<Rightarrow> Some (Inr items)
     | VArray typecode items \<Rightarrow> Some (Inr (list_at E items))
     | _ \<Rightarrow> (case iter_slot E v of
         Some r \<Rightarrow> r
       | None \<Rightarrow> Some (Inl (Interpreter (TypeError
           ([CHR 39] @ type_object_name v @ [CHR 39] @ '' object is not iterable''))))))"

section \<open>Length\<close>

definition len_slot :: "env \<Rightarrow> pyval \<Rightarrow> nat option" where
  "len_slot E v = (case v of
       VList l \<Rightarrow> Some (length (list_at E l))
     | VTuple t \<Rightarrow> Some (length t)
     | VSet s \<Rightarrow> Some (body_len (set_at E s))
     | VFrozenset s \<Rightarrow> Some (body_len s)
     | VString s \<Rightarrow> Some (length s)
     | VBytes b \<Rightarrow> Some (length b)
     | VByteArray b \<Rightarrow> Some (length (bytes_at E b))
     | VMemoryView inner \<Rightarrow> Some (length (case bytes_view E inner of Some b \<Rightarrow> b | None \<Rightarrow> []))
     | VDict d \<Rightarrow> Some (length (dict_at E d))
     | VOrderedDict d \<Rightarrow> Some (length (dict_at E d))
     | VRange a b c \<Rightarrow> Some (range_length a b c)
     | VCounter m \<Rightarrow> Some (length m)
     | VDefaultDict m f \<Rightarrow> Some (length m)
     | VDeque xs n \<Rightarrow> Some (length xs)
     | VChainMap ms \<Rightarrow> Some (chainmap_len E ms)
     | VDictView d k \<Rightarrow> Some (length (dict_at E d))
     | _ \<Rightarrow> None)"

definition dispatch_len :: "env \<Rightarrow> pyval \<Rightarrow> nat eval_result" where
  "dispatch_len E v = (case v of
       VArray typecode items \<Rightarrow> Inr (length (list_at E items))
     | _ \<Rightarrow> (case len_slot E v of
         Some n \<Rightarrow> Inr n
       | None \<Rightarrow> Inl (Interpreter (TypeError
           (''object of type '' @ [CHR 39] @ type_object_name v @ [CHR 39] @ '' has no len()'')))))"

section \<open>Membership\<close>

definition sublist_at :: "'a list \<Rightarrow> 'a list \<Rightarrow> bool" where
  "sublist_at needle hay \<longleftrightarrow> list_ex (\<lambda>i. take (length needle) (drop i hay) = needle) [0..<length hay + 1 - length needle]"

definition str_contains_slot :: "pystr \<Rightarrow> pyval \<Rightarrow> bool eval_result" where
  "str_contains_slot s item = (case item of
       VString needle \<Rightarrow> Inr (sublist_at needle s)
     | _ \<Rightarrow> Inl (Interpreter (TypeError
         ([CHR 39] @ ''in <string>'' @ [CHR 39] @ '' requires string as left operand, not '' @ [CHR 39] @ type_name item @ [CHR 39]))))"

definition bytes_contains :: "env \<Rightarrow> pyval \<Rightarrow> pyval \<Rightarrow> bool eval_result" where
  "bytes_contains E container item =
     (let haystack = (case bytes_view E container of Some b \<Rightarrow> b | None \<Rightarrow> []);
          number = (\<lambda>n. if \<not> (0 \<le> n \<and> n \<le> 255) then Inl (Interpreter (ValueError ''byte must be in range(0, 256)''))
                        else Inr (list_ex (\<lambda>b. uint b = n) haystack));
          part = (let needle = (case bytes_view E item of Some b \<Rightarrow> b | None \<Rightarrow> []) in
                  Inr (needle = [] \<or> sublist_at needle haystack)) in
      case item of
        VInt i \<Rightarrow> number (sint i)
      | VBool b \<Rightarrow> number (if b then 1 else 0)
      | VBytes b \<Rightarrow> part
      | VByteArray b \<Rightarrow> part
      | VMemoryView b \<Rightarrow> part
      | other \<Rightarrow> Inl (Interpreter (TypeError (''a bytes-like object is required, not '' @ [CHR 39] @ type_name other @ [CHR 39]))))"

text \<open>\<open>val - start\<close> is computed with \<open>i64\<close>; a release build wraps.  The remainder of the least
  \<open>i64\<close> by \<open>-1\<close> panics in every build: the result is then \<open>None\<close>.\<close>

definition range_test :: "i64 \<Rightarrow> i64 \<Rightarrow> i64 \<Rightarrow> i64 \<Rightarrow> bool option" where
  "range_test start stop step val =
     (if sint step = 0 then Some False
      else
        (let in_bounds = (if 0 < sint step then sint start \<le> sint val \<and> sint val < sint stop
                          else sint val \<le> sint start \<and> sint stop < sint val)
         in if \<not> in_bounds then Some False
            else if sint (val - start) = i64_min \<and> sint step = - 1 then None
            else Some (sint (val - start) smod sint step = 0)))"

definition range_contains :: "i64 \<Rightarrow> i64 \<Rightarrow> i64 \<Rightarrow> pyval \<Rightarrow> bool option" where
  "range_contains start stop step item = (case item of
       VInt n \<Rightarrow> range_test start stop step n
     | VBool b \<Rightarrow> range_test start stop step (if b then 1 else 0)
     | VFloat f \<Rightarrow>
         (if \<not> is_finite f \<or> \<not> f64_integral f then Some False
          else if \<not> f64_eq (f64_of_int (sint (f64_as_i64 f))) f then Some False
          else range_test start stop step (f64_as_i64 f))
     | _ \<Rightarrow> Some False)"

definition enummember_contains :: "enum_kind \<Rightarrow> pyval \<Rightarrow> pyval \<Rightarrow> bool eval_result" where
  "enummember_contains kind cv item =
     (if \<not> enum_is_flag kind
      then Inl (Interpreter (TypeError (''argument of type '' @ [CHR 39] @ ''enum'' @ [CHR 39] @ '' is not iterable'')))
      else (case item of
          VEnumMember c m v k \<Rightarrow>
            (let container_bits = (case value_as_i64 cv of Some b \<Rightarrow> b | None \<Rightarrow> 0);
                 item_bits = (case value_as_i64 v of Some b \<Rightarrow> b | None \<Rightarrow> - 1) in
             Inr (0 \<le> sint item_bits \<and> and container_bits item_bits = item_bits))
        | _ \<Rightarrow> Inl (Interpreter (TypeError (''unsupported operand type(s) for '' @ [CHR 39] @ ''in'' @ [CHR 39] @ '': '' @
              [CHR 39] @ type_name item @ [CHR 39] @ '' and '' @ [CHR 39] @ ''enum'' @ [CHR 39])))))"

definition dictview_contains :: "runtime \<Rightarrow> env \<Rightarrow> addr \<Rightarrow> dict_view_kind \<Rightarrow> pyval \<Rightarrow> bool" where
  "dictview_contains R E d kind item =
     (let m = dict_at E d; lookup = (\<lambda>v. case value_to_key (name_hash R) v of Inl e \<Rightarrow> None | Inr k \<Rightarrow> map_get E m k) in
      case kind of
        Keys \<Rightarrow> lookup item \<noteq> None
      | Values \<Rightarrow> list_ex (\<lambda>e. values_equal E (snd e) item) m
      | Items \<Rightarrow> (case item of
            VTuple pair \<Rightarrow>
              length pair = 2 \<and> (case lookup (pair ! 0) of Some v \<Rightarrow> values_equal E v (pair ! 1) | None \<Rightarrow> False)
          | _ \<Rightarrow> False))"

definition map_contains :: "runtime \<Rightarrow> env \<Rightarrow> (value_key \<times> pyval) list \<Rightarrow> pyval \<Rightarrow> bool eval_result" where
  "map_contains R E m item =
     result_bind (value_to_key (name_hash R) item) (\<lambda>key. Inr (map_get E m key \<noteq> None))"

definition chainmap_contains :: "runtime \<Rightarrow> env \<Rightarrow> pyval list \<Rightarrow> pyval \<Rightarrow> bool eval_result" where
  "chainmap_contains R E maps item =
     result_bind (value_to_key (name_hash R) item) (\<lambda>key.
       Inr (list_ex (\<lambda>m. case m of VDict d \<Rightarrow> map_get E (dict_at E d) key \<noteq> None | _ \<Rightarrow> False) maps))"

definition sequence_contains :: "env \<Rightarrow> pyval list \<Rightarrow> pyval \<Rightarrow> bool" where
  "sequence_contains E items item = list_ex (\<lambda>entry. recurse_eq E item entry) items"

definition set_contains :: "env \<Rightarrow> pyval set_body \<Rightarrow> pyval \<Rightarrow> bool run" where
  "set_contains E b item = map_option Inr (body_contains (recurse_eq E) (python_hash (siphash13 E)) b item)"

definition object_contains :: "pyval \<Rightarrow> bool eval_result" where
  "object_contains container =
     Inl (Interpreter (TypeError (''argument of type '' @ [CHR 39] @ type_name container @ [CHR 39] @ '' is not iterable'')))"

text \<open>The type objects without a \<open>contains\<close> slot, for which the dispatch itself reports the error.\<close>

definition no_contains :: "pyval \<Rightarrow> bool" where
  "no_contains v = (case v of
       VNone \<Rightarrow> True | VBool b \<Rightarrow> True | VInt i \<Rightarrow> True | VBigInt i \<Rightarrow> True | VFloat f \<Rightarrow> True | VComplex a b \<Rightarrow> True
     | VDecimal m s k \<Rightarrow> True | VFraction n d \<Rightarrow> True | VDate d \<Rightarrow> True | VDateTime d t \<Rightarrow> True | VTime t \<Rightarrow> True
     | VTimeDelta m \<Rightarrow> True | VTimeZone z \<Rightarrow> True | VHashDigest a b \<Rightarrow> True | _ \<Rightarrow> False)"

definition dispatch_contains :: "runtime \<Rightarrow> env \<Rightarrow> pyval \<Rightarrow> pyval \<Rightarrow> bool run" where
  "dispatch_contains R E container item =
     (if no_contains container
      then Some (Inl (Interpreter (TypeError
             (''argument of type '' @ [CHR 39] @ type_object_name container @ [CHR 39] @ '' is not iterable''))))
      else (case container of
       VArray typecode items \<Rightarrow> Some (Inr (sequence_contains E (list_at E items) item))
     | VList l \<Rightarrow> Some (Inr (sequence_contains E (list_at E l) item))
     | VTuple t \<Rightarrow> Some (Inr (sequence_contains E t item))
     | VDeque xs n \<Rightarrow> Some (Inr (sequence_contains E xs item))
     | VSet s \<Rightarrow> set_contains E (set_at E s) item
     | VFrozenset s \<Rightarrow> set_contains E s item
     | VString s \<Rightarrow> Some (str_contains_slot s item)
     | VBytes b \<Rightarrow> Some (bytes_contains E container item)
     | VByteArray b \<Rightarrow> Some (bytes_contains E container item)
     | VMemoryView b \<Rightarrow> Some (bytes_contains E container item)
     | VDict d \<Rightarrow> Some (map_contains R E (dict_at E d) item)
     | VOrderedDict d \<Rightarrow> Some (map_contains R E (dict_at E d) item)
     | VCounter m \<Rightarrow> Some (map_contains R E m item)
     | VDefaultDict m f \<Rightarrow> Some (map_contains R E m item)
     | VRange a b c \<Rightarrow> map_option Inr (range_contains a b c item)
     | VChainMap ms \<Rightarrow> Some (chainmap_contains R E ms item)
     | VDictView d k \<Rightarrow> Some (Inr (dictview_contains R E d k item))
     | VEnumMember c m v k \<Rightarrow> Some (enummember_contains k v item)
     | _ \<Rightarrow> Some (object_contains container)))"

section \<open>Dictionaries refine finite maps\<close>

text \<open>
  The interface of an ordered association list: on the keys considered, key equality is
  the kernel of an abstraction.
\<close>

locale keyed =
  fixes same :: "'k \<Rightarrow> 'k \<Rightarrow> bool" and ok :: "'k \<Rightarrow> bool" and abs :: "'k \<Rightarrow> 'a"
  assumes same_iff: "ok x \<Longrightarrow> ok y \<Longrightarrow> same x y \<longleftrightarrow> abs x = abs y"
begin

definition content :: "('k \<times> 'v) list \<Rightarrow> 'a \<Rightarrow> 'v option" where
  "content m = map_of (map (\<lambda>(k, v). (abs k, v)) m)"

definition wf :: "('k \<times> 'v) list \<Rightarrow> bool" where
  "wf m \<longleftrightarrow> (\<forall>e \<in> set m. ok (fst e)) \<and> distinct (map (\<lambda>e. abs (fst e)) m)"

lemma wf_Cons: "wf ((k, v) # m) \<longleftrightarrow> ok k \<and> abs k \<notin> (\<lambda>e. abs (fst e)) ` set m \<and> wf m"
  by (auto simp: wf_def)

lemma content_Cons: "content ((k, v) # m) = (content m)(abs k \<mapsto> v)"
  by (simp add: content_def)

lemma content_None: "content m a = None \<longleftrightarrow> a \<notin> (\<lambda>e. abs (fst e)) ` set m"
  by (force simp: content_def map_of_eq_None_iff)

lemma find_content:
  "wf m \<Longrightarrow> ok k \<Longrightarrow> map_option snd (find (\<lambda>e. same k (fst e)) m) = content m (abs k)"
proof (induction m)
  case (Cons e m)
  obtain k' v' where e: "e = (k', v')" by force
  then show ?case using Cons by (auto simp: wf_Cons content_Cons same_iff)
qed (simp add: content_def)

lemma insert_abs:
  "wf m \<Longrightarrow> ok k \<Longrightarrow> map (\<lambda>e. abs (fst e)) (assoc_insert same k v m) =
     map (\<lambda>e. abs (fst e)) m @ (if content m (abs k) = None then [abs k] else [])"
proof (induction m)
  case (Cons e m)
  obtain k' v' where e: "e = (k', v')" by force
  then show ?case using Cons by (auto simp: wf_Cons content_Cons same_iff)
qed (simp add: content_def)

lemma insert_ok: "wf m \<Longrightarrow> ok k \<Longrightarrow> \<forall>e \<in> set (assoc_insert same k v m). ok (fst e)"
proof (induction m)
  case (Cons e m)
  obtain k' v' where e: "e = (k', v')" by force
  then show ?case using Cons by (auto simp: wf_def)
qed simp

lemma insert_wf:
  assumes "wf m" "ok k"
  shows "wf (assoc_insert same k v m)"
proof -
  have "distinct (map (\<lambda>e. abs (fst e)) (assoc_insert same k v m))"
    using assms(1) unfolding insert_abs [OF assms] by (auto simp: wf_def content_None)
  then show ?thesis using insert_ok [OF assms] by (simp add: wf_def)
qed

lemma insert_content: "wf m \<Longrightarrow> ok k \<Longrightarrow> content (assoc_insert same k v m) = (content m)(abs k \<mapsto> v)"
proof (induction m)
  case (Cons e m)
  obtain k' v' where e: "e = (k', v')" by force
  then show ?case using Cons by (auto simp: wf_Cons content_Cons same_iff fun_upd_twist)
qed (simp add: content_def)

lemma remove_abs:
  "wf m \<Longrightarrow> ok k \<Longrightarrow> map (\<lambda>e. abs (fst e)) (assoc_remove same k m) = filter (\<lambda>a. a \<noteq> abs k) (map (\<lambda>e. abs (fst e)) m)"
proof (induction m)
  case (Cons e m)
  obtain k' v' where e: "e = (k', v')" by force
  have "filter (\<lambda>a. a \<noteq> abs k) (map (\<lambda>e. abs (fst e)) m) = map (\<lambda>e. abs (fst e)) m" if "abs k = abs k'"
    using that Cons.prems e by (intro filter_True) (force simp: wf_Cons)
  then show ?case using e Cons by (auto simp: wf_Cons same_iff)
qed simp

lemma remove_subset: "set (assoc_remove same k m) \<subseteq> set m"
  by (induction same k m rule: assoc_remove.induct) auto

lemma remove_wf: "wf m \<Longrightarrow> ok k \<Longrightarrow> wf (assoc_remove same k m)"
  using remove_subset [of k m] remove_abs [of m k] by (auto simp: wf_def subset_iff distinct_map)

lemma remove_content: "wf m \<Longrightarrow> ok k \<Longrightarrow> content (assoc_remove same k m) = (content m)(abs k := None)"
proof (induction m)
  case (Cons e m)
  obtain k' v' where e: "e = (k', v')" by force
  show ?case
  proof (cases "abs k = abs k'")
    case True
    then have "content m (abs k) = None" using Cons.prems e by (simp add: wf_Cons content_None)
    then have "(content m)(abs k := None) = content m" by (rule fun_upd_idem)
    then show ?thesis
      using True e Cons.prems fun_upd_upd [of "content m" "abs k" "Some v'" None]
      by (simp only: wf_Cons content_Cons same_iff assoc_remove.simps if_True simp_thms)
  next
    case False
    then show ?thesis using e Cons by (auto simp: wf_Cons content_Cons same_iff)
  qed
qed (simp add: content_def)

lemma wf_dom: "wf m \<Longrightarrow> card (dom (content m)) = length m"
proof -
  assume w: "wf m"
  have "dom (content m) = set (map (\<lambda>e. abs (fst e)) m)"
    using content_None [of m] by (auto simp: dom_def)
  then show ?thesis using w distinct_card [of "map (\<lambda>e. abs (fst e)) m"] by (simp add: wf_def)
qed

end

text \<open>Keys on which key equality is exact: no floats, decimals, frozensets or instances.\<close>

fun exact_key :: "value_key \<Rightarrow> bool" where
  "exact_key k = (case k of
       KNone \<Rightarrow> True | KEllipsis \<Rightarrow> True | KBool b \<Rightarrow> True | KInt i \<Rightarrow> True | KBigInt i \<Rightarrow> True | KString s \<Rightarrow> True
     | KTuple ks \<Rightarrow> list_all exact_key ks | KDate d \<Rightarrow> True | KTime t \<Rightarrow> True | KTimeDelta m \<Rightarrow> True
     | _ \<Rightarrow> False)"

declare exact_key.simps [simp del]

lemma exact_key_cases:
  assumes "exact_key k"
  obtains "k = KNone" | "k = KEllipsis" | b where "k = KBool b" | i where "k = KInt i" | n where "k = KBigInt n" | s where "k = KString s"
    | ks where "k = KTuple ks" "list_all exact_key ks" | d where "k = KDate d" | t where "k = KTime t"
    | m where "k = KTimeDelta m"
  using assms by (cases k) (simp_all add: exact_key.simps)

lemma sint_i64_eq: "sint (a :: i64) = sint b \<longleftrightarrow> a = b"
  by (metis word_of_int_sint_i64)

lemma sint_zero_one: "sint (i :: i64) = 1 \<longleftrightarrow> i = 1" "sint (i :: i64) = 0 \<longleftrightarrow> i = 0"
  "1 = sint (i :: i64) \<longleftrightarrow> i = 1" "0 = sint (i :: i64) \<longleftrightarrow> i = 0"
  using sint_i64_eq [of i 1] sint_i64_eq [of i 0] by auto

lemma key_eq_exact_scalar:
  assumes "exact_key x" "exact_key y" "\<And>ks. x \<noteq> KTuple ks"
  shows "key_eq E ve x y \<longleftrightarrow> key_abs E x = key_abs E y"
  unfolding key_eq.simps [of E ve x y] key_abs.simps [of E x] key_abs.simps [of E y]
  by (rule exact_key_cases [OF assms(1)]; rule exact_key_cases [OF assms(2)])
    (use assms(3) in \<open>auto simp: sint_i64_eq sint_zero_one\<close>)

lemma key_eq_exact:
  "exact_key x \<Longrightarrow> exact_key y \<Longrightarrow> key_eq E ve x y \<longleftrightarrow> key_abs E x = key_abs E y"
proof (induction "size x" arbitrary: x y rule: less_induct)
  case less
  show ?case
  proof (cases "\<exists>ks. x = KTuple ks")
    case False
    then show ?thesis using key_eq_exact_scalar less.prems by blast
  next
    case True
    then obtain a where x: "x = KTuple a" "list_all exact_key a" using less.prems(1) by (auto simp: exact_key.simps)
    show ?thesis
    proof (cases "\<exists>ks. y = KTuple ks")
      case False
      then have "key_abs E y \<noteq> ATuple as" for as using abs_tuple by blast
      moreover have "\<not> key_eq E ve x y"
        using False by (subst key_eq.simps) (simp add: x(1) split: value_key.split)
      ultimately show ?thesis using x by (metis key_abs_simps(1))
    next
      case True
      then obtain b where y: "y = KTuple b" "list_all exact_key b" using less.prems(2) by (auto simp: exact_key.simps)
      have el: "key_eq E ve (a ! i) (b ! i) \<longleftrightarrow> key_abs E (a ! i) = key_abs E (b ! i)" if "i < length a" "length a = length b" for i
        using less.hyps [of "a ! i" "b ! i"] x y that size_in_list [of "a ! i" a] by (simp add: list_all_length)
      have "key_eq E ve x y \<longleftrightarrow> length a = length b \<and> (\<forall>i < length a. key_eq E ve (a ! i) (b ! i))"
        by (auto simp: x y list_all_length)
      also have "\<dots> \<longleftrightarrow> map (key_abs E) a = map (key_abs E) b"
        using el by (auto simp: list_eq_iff_nth_eq)
      finally show ?thesis by (simp add: x y)
    qed
  qed
qed

interpretation keys: keyed "key_eq E ve" exact_key "key_abs E" for E ve
  by unfold_locales (rule key_eq_exact)

lemma key_abs_env: "datetime_sub E = datetime_sub E' \<Longrightarrow> key_abs E k = key_abs E' k"
proof (induction "size k" arbitrary: k rule: less_induct)
  case less
  have items: "map (key_abs E) ks = map (key_abs E') ks" if "k = KTuple ks \<or> k = KFrozenset ks" for ks
    using less.hyps less.prems that size_in_list [of _ ks] by (auto intro!: map_cong)
  show ?case
    unfolding key_abs.simps [of E k] key_abs.simps [of E' k]
    using items less.prems by (cases k) (simp_all del: fset_of_list_map map_eq_conv split: option.split)
qed

lemma key_abs_set_dict [simp]: "key_abs (set_dict E d m) = key_abs E"
  by (rule ext, rule key_abs_env) (simp add: set_dict_def)

lemma dict_at_set_dict [simp]: "dict_at (set_dict E d m) d' = (if d' = d then m else dict_at E d')"
  by (simp add: set_dict_def)

lemma map_get_content: "keys.wf E m \<Longrightarrow> exact_key k \<Longrightarrow> map_get E m k = keys.content E m (key_abs E k)"
  unfolding dict_get_def by (rule keys.find_content)

text \<open>On a dictionary with exact keys, a subscript, a membership test and the length are the lookup,
  the domain and its cardinality of the finite map the dictionary stands for; a missing key is a \<open>KeyError\<close>.\<close>

theorem dict_lookup_refines:
  assumes "keys.wf E (dict_at E d)" "value_to_key (name_hash R) index = Inr k" "exact_key k"
  shows "dispatch_getitem R E (VDict d) index =
      (case keys.content E (dict_at E d) (key_abs E k) of Some v \<Rightarrow> Inr v | None \<Rightarrow> Inl (Exception (key_error R E k))) \<and>
    dispatch_contains R E (VDict d) index = Some (Inr (key_abs E k \<in> dom (keys.content E (dict_at E d)))) \<and>
    dispatch_len E (VDict d) = Inr (card (dom (keys.content E (dict_at E d))))"
  using assms map_get_content [OF assms(1,3)] keys.wf_dom [OF assms(1)]
  by (simp add: dispatch_getitem_def get_item_slot_def dict_get_item_def dispatch_contains_def no_contains_def
      map_contains_def dispatch_len_def len_slot_def domIff)

text \<open>Assigning to a key of a dictionary updates the finite map at that key and nothing else: other
  dictionaries keep their entries, a new key goes to the end, an old one keeps its place, and the
  subscript then returns the value.\<close>

theorem dict_assignment_refines:
  assumes "keys.wf E (dict_at E d)" "value_to_key (name_hash R) index = Inr k" "exact_key k"
  shows "\<exists>m delta. dispatch_setitem R E (VDict d) index v = Inr (set_dict E d m, VDict d, delta) \<and>
    keys.wf E m \<and> keys.content E m = (keys.content E (dict_at E d))(key_abs E k \<mapsto> v) \<and>
    map (\<lambda>e. key_abs E (fst e)) m = map (\<lambda>e. key_abs E (fst e)) (dict_at E d) @
      (if key_abs E k \<in> dom (keys.content E (dict_at E d)) then [] else [key_abs E k]) \<and>
    dispatch_getitem R (set_dict E d m) (VDict d) index = Inr v"
proof -
  let ?m = "map_insert E k v (dict_at E d)"
  note facts = keys.insert_wf [OF assms(1,3)] keys.insert_content [OF assms(1,3)] keys.insert_abs [OF assms(1,3)]
  have "map_get (set_dict E d ?m) ?m k = Some v"
    using map_get_content [of "set_dict E d ?m" ?m k] facts(1,2) [of "values_equal E" v] assms(3) by simp
  then have "dispatch_getitem R (set_dict E d ?m) (VDict d) index = Inr v"
    using assms(2) by (simp add: dispatch_getitem_def get_item_slot_def dict_get_item_def)
  moreover have "\<exists>delta. dispatch_setitem R E (VDict d) index v = Inr (set_dict E d ?m, VDict d, delta)"
    using assms(2) by (simp add: dispatch_setitem_def dict_set_item_def)
  ultimately show ?thesis using facts [of "values_equal E" v] by (auto simp: domIff intro!: exI [of _ ?m])
qed

text \<open>Deleting a key removes it from the finite map and keeps the order of the others; deleting a
  missing key is a \<open>KeyError\<close> that carries the key.\<close>

theorem dict_deletion_refines:
  assumes "keys.wf E (dict_at E d)" "value_to_key (name_hash R) index = Inr k" "exact_key k"
  shows "(if key_abs E k \<in> dom (keys.content E (dict_at E d)) then
      \<exists>m delta. dispatch_delitem R E (VDict d) index = Some (Inr (set_dict E d m, VDict d, delta)) \<and>
        keys.wf E m \<and> keys.content E m = (keys.content E (dict_at E d))(key_abs E k := None) \<and>
        map (\<lambda>e. key_abs E (fst e)) m = filter (\<lambda>a. a \<noteq> key_abs E k) (map (\<lambda>e. key_abs E (fst e)) (dict_at E d))
    else dispatch_delitem R E (VDict d) index = Some (Inl (Exception (key_error R E k))))"
proof -
  note facts = keys.remove_wf [OF assms(1,3)] keys.remove_content [OF assms(1,3)] keys.remove_abs [OF assms(1,3)]
  show ?thesis
    using assms(2) map_get_content [OF assms(1,3)] facts [of "values_equal E"]
    by (auto simp: dispatch_delitem_def dict_del_item_def map_del_item_def domIff)
qed

definition sample_runtime :: runtime where
  "sample_runtime = \<lparr>name_hash = (\<lambda>_. 0), key_display = (\<lambda>_. []), value_size = (\<lambda>_. 8), key_size = (\<lambda>_. 8)\<rparr>"

definition sample_dict :: env where
  "sample_dict = empty_env\<lparr>dict_at := (\<lambda>a. [(KInt 1, VNone), (KString [104], VBool True)])\<rparr>"

lemma sample_dict_facts:
  "keys.wf sample_dict (dict_at sample_dict 0)" "value_to_key (name_hash sample_runtime) (VInt 1) = Inr (KInt 1)"
  "exact_key (KInt 1)" "keys.content sample_dict (dict_at sample_dict 0) (key_abs sample_dict (KInt 1)) = Some VNone"
  by (simp_all add: keys.wf_def keys.content_def sample_dict_def exact_key.simps key_abs.simps value_to_key.simps)

theorem dict_lookup_refines_witness:
  "dispatch_getitem sample_runtime sample_dict (VDict 0) (VInt 1) = Inr VNone"
  using dict_lookup_refines [OF sample_dict_facts(1-3)] sample_dict_facts(4) by simp

theorem dict_assignment_refines_witness:
  "\<exists>m delta. dispatch_setitem sample_runtime sample_dict (VDict 0) (VInt 1) VEllipsis =
      Inr (set_dict sample_dict 0 m, VDict 0, delta) \<and>
    dispatch_getitem sample_runtime (set_dict sample_dict 0 m) (VDict 0) (VInt 1) = Inr VEllipsis"
  using dict_assignment_refines [OF sample_dict_facts(1-3), of VEllipsis] by blast

theorem dict_deletion_refines_witness:
  "\<exists>m delta. dispatch_delitem sample_runtime sample_dict (VDict 0) (VInt 1) =
      Some (Inr (set_dict sample_dict 0 m, VDict 0, delta)) \<and>
    keys.content sample_dict m (key_abs sample_dict (KInt 1)) = None"
  using dict_deletion_refines [OF sample_dict_facts(1-3)] sample_dict_facts(4) by (auto simp: domIff)

section \<open>Lists\<close>

text \<open>Assigning to an index of a list, counted from either end, replaces that element in the shared
  storage: every alias of the list reads the new value there and the old values elsewhere.\<close>

theorem list_assignment_visible:
  assumes "length (list_at E l) < 2 ^ 63" "- int (length (list_at E l)) \<le> sint i" "sint i < int (length (list_at E l))"
  shows "\<exists>delta. dispatch_setitem R E (VList l) (VInt i) v =
      Inr (set_list E l ((list_at E l)[nat (if sint i < 0 then int (length (list_at E l)) + sint i else sint i) := v]), VList l, delta) \<and>
    dispatch_getitem R (set_list E l ((list_at E l)[nat (if sint i < 0 then int (length (list_at E l)) + sint i else sint i) := v]))
      (VList l) (VInt i) = Inr v"
  using assms
  by (auto simp: dispatch_setitem_def list_set_item_def dispatch_getitem_def get_item_slot_def element_at_def set_list_def
      int_index.simps normalize_seq_index_def)

theorem list_assignment_visible_witness:
  "\<exists>delta. dispatch_setitem sample_runtime sorted_ints (VList 0) (VInt (- 1)) VNone =
      Inr (set_list sorted_ints 0 [VInt 1, VBool True, VNone], VList 0, delta) \<and>
    dispatch_getitem sample_runtime (set_list sorted_ints 0 [VInt 1, VBool True, VNone]) (VList 0) (VInt (- 1)) = Inr VNone"
  using list_assignment_visible [of sorted_ints 0 "- 1" sample_runtime VNone] by (simp add: sorted_ints_def)

end
