(* ===== verification/Ranges.thy ===== *)
theory Ranges
  imports Containers
begin

text \<open>
  Ranges: iteration, length, indexing and membership of \<open>VRange\<close> agree with the
  arithmetic progression away from the limits of \<open>i64\<close>, and what happens at the limits.
\<close>

section \<open>Progressions\<close>

text \<open>The number of elements of a range, as a quotient rounded up.\<close>

definition range_size :: "int \<Rightarrow> int \<Rightarrow> int \<Rightarrow> nat" where
  "range_size a b s = (if 0 < s then nat ((b - a + s - 1) div s) else nat ((a - b - s - 1) div (- s)))"

lemma range_size_up:
  assumes "0 < s"
  shows "range_size a b s = (if a < b then Suc (range_size (a + s) b s) else 0)"
proof (cases "a < b")
  case True
  have "(b - a + s - 1) div s = 1 + (b - (a + s) + s - 1) div s"
    using div_add_self2 [of s "b - (a + s) + s - 1"] assms by (simp add: algebra_simps)
  moreover have "0 \<le> (b - (a + s) + s - 1) div s" using True assms by (simp add: pos_imp_zdiv_nonneg_iff)
  ultimately show ?thesis using True assms by (simp add: range_size_def)
next
  case False
  then have "(b - a + s - 1) div s \<le> (s - 1) div s" using assms by (intro zdiv_mono1) auto
  also have "(s - 1) div s = 0" using assms by (simp add: div_pos_pos_trivial)
  finally have "(b - a + s - 1) div s \<le> 0" .
  then show ?thesis using False assms by (simp add: range_size_def)
qed

lemma range_size_mirror: "s < 0 \<Longrightarrow> range_size a b s = range_size (- a) (- b) (- s)"
  by (simp add: range_size_def)

lemma range_size_down:
  "s < 0 \<Longrightarrow> range_size a b s = (if b < a then Suc (range_size (a + s) b s) else 0)"
  using range_size_up [of "- s" "- a" "- b"] range_size_mirror [of s a b] range_size_mirror [of s "a + s" b] by simp

definition progression :: "int \<Rightarrow> int \<Rightarrow> nat \<Rightarrow> int list" where
  "progression a s n = map (\<lambda>k. a + int k * s) [0..<n]"

lemma progression_Suc: "progression a s (Suc n) = a # progression (a + s) s n"
  unfolding progression_def by (simp add: upt_conv_Cons map_Suc_upt [symmetric] algebra_simps del: upt_Suc)

lemma stride_loop_step:
  assumes "in_i64 (i + s)" "cond i"
  shows "stride_loop cond (\<lambda>i. Inr (g i)) s i =
    Option.bind (stride_loop cond (\<lambda>i. Inr (g i)) s (i + s)) (\<lambda>r. Some (case r of Inl e \<Rightarrow> Inl e | Inr xs \<Rightarrow> Inr (g i # xs)))"
  using assms by (simp add: stride_loop.simps [of cond _ s i] i64_add_exact)

lemma range_loop_up:
  assumes "0 < s" "e + s \<le> 2 ^ 63" "- (2 ^ 63) \<le> i"
  shows "stride_loop (\<lambda>i. i < e) (\<lambda>i. Inr (g i)) s i = Some (Inr (map g (progression i s (range_size i e s))))"
  using assms(3)
proof (induction "nat (e - i)" arbitrary: i rule: less_induct)
  case less
  show ?case
  proof (cases "i < e")
    case False
    then show ?thesis using assms(1) by (simp add: stride_loop.simps [of _ _ s i] range_size_up progression_def)
  next
    case True
    have "in_i64 (i + s)" using True less.prems assms(1,2) by (simp add: in_i64_def)
    moreover note less.hyps [of "i + s"]
    ultimately show ?thesis
      using True range_size_up [OF assms(1), of i e] assms(1) less.prems
      by (simp add: progression_Suc stride_loop_step [of i s])
  qed
qed

lemma range_loop_down:
  assumes "s < 0" "- (2 ^ 63) \<le> e + s" "i < 2 ^ 63"
  shows "stride_loop (\<lambda>i. e < i) (\<lambda>i. Inr (g i)) s i = Some (Inr (map g (progression i s (range_size i e s))))"
  using assms(3)
proof (induction "nat (i - e)" arbitrary: i rule: less_induct)
  case less
  show ?case
  proof (cases "e < i")
    case False
    then show ?thesis using assms(1) by (simp add: stride_loop.simps [of _ _ s i] range_size_down progression_def)
  next
    case True
    have "in_i64 (i + s)" using True less.prems assms(1,2) by (simp add: in_i64_def)
    moreover note less.hyps [of "i + s"]
    ultimately show ?thesis
      using True range_size_down [OF assms(1), of i e] assms(1) less.prems
      by (simp add: progression_Suc stride_loop_step [of i s])
  qed
qed

text \<open>Membership in the progression is a bound and a divisibility.\<close>

lemma progression_up:
  assumes "0 < s"
  shows "x \<in> set (progression a s (range_size a b s)) \<longleftrightarrow> a \<le> x \<and> x < b \<and> s dvd (x - a)"
proof (induction "nat (b - a)" arbitrary: a rule: less_induct)
  case less
  show ?case
  proof (cases "a < b")
    case False
    then show ?thesis using assms by (auto simp: range_size_up progression_def)
  next
    case True
    have "x \<in> set (progression a s (range_size a b s)) \<longleftrightarrow> x = a \<or> a + s \<le> x \<and> x < b \<and> s dvd (x - (a + s))"
      using less.hyps [of "a + s"] True assms range_size_up [OF assms, of a b] by (simp add: progression_Suc)
    also have "\<dots> \<longleftrightarrow> a \<le> x \<and> x < b \<and> s dvd (x - a)"
      using True assms dvd_far [OF assms, of a x] dvd_step [of s x a] by (cases "x = a") auto
    finally show ?thesis .
  qed
qed

lemma progression_mirror: "progression a s n = map uminus (progression (- a) (- s) n)"
  by (simp add: progression_def)

lemma progression_down:
  assumes "s < 0"
  shows "x \<in> set (progression a s (range_size a b s)) \<longleftrightarrow> x \<le> a \<and> b < x \<and> s dvd (x - a)"
proof -
  have "x \<in> set (progression a s n) \<longleftrightarrow> - x \<in> set (progression (- a) (- s) n)" for n
    using progression_mirror [of a s n] by (auto simp: image_iff) (metis minus_minus)
  then have "x \<in> set (progression a s (range_size a b s)) \<longleftrightarrow> - a \<le> - x \<and> - x < - b \<and> - s dvd (- x - (- a))"
    using progression_up [of "- s" "- x" "- a" "- b"] assms by (simp add: range_size_mirror)
  also have "- s dvd (- x - (- a)) \<longleftrightarrow> s dvd (x - a)"
    using dvd_minus_iff [of s "x - a"] minus_dvd_iff [of s "a - x"] by (simp add: algebra_simps)
  finally show ?thesis by simp
qed

text \<open>Ranges far from the limits of \<open>i64\<close>.\<close>

definition small :: "i64 \<Rightarrow> bool" where
  "small x \<longleftrightarrow> \<bar>sint x\<bar> < 2 ^ 61"

lemma sint_of_sum:
  assumes "word_of_int n = (w :: i64)" "\<bar>n\<bar> < 2 ^ 63"
  shows "sint w = n"
  using sint_word_of_int_i64 [of n] assms by (auto simp: in_i64_def abs_less_iff)

lemma trunc_up: "0 < (d :: int) \<Longrightarrow> nat (max 0 (n sdiv d)) = nat (n div d)"
  using pos_imp_zdiv_neg_iff [of d n]
  by (cases "0 \<le> n") (simp_all add: signed_divide_int_def sgn_if pos_imp_zdiv_nonneg_iff)

lemma range_length_size:
  assumes "small start" "small stop" "small step" "sint step \<noteq> 0"
  shows "range_length start stop step = range_size (sint start) (sint stop) (sint step)"
proof (cases "0 < sint step")
  case True
  have "sint (stop - start + step - 1) = sint stop - sint start + sint step - 1"
    using assms by (intro sint_of_sum) (auto simp: small_def)
  then show ?thesis using True trunc_up [OF True] by (simp add: range_length_def range_size_def)
next
  case False
  have "sint (start - stop - step - 1) = sint start - sint stop - sint step - 1"
    using assms by (intro sint_of_sum) (auto simp: small_def)
  moreover have "sint (- step) = - sint step"
    using assms by (intro sint_of_sum) (auto simp: small_def)
  ultimately show ?thesis
    using False assms(4) trunc_up [of "- sint step"] by (simp add: range_length_def range_size_def)
qed

lemma sdiv_ceiling:
  assumes "0 < (s :: int)" "0 < n"
  shows "n sdiv s + (if n smod s \<noteq> 0 then 1 else 0) = (n + s - 1) div s"
proof -
  have "n sdiv s = n div s" "n smod s = n mod s"
    using assms by (simp_all add: signed_divide_int_def signed_modulo_int_def)
  moreover have "(n + s - 1) div s = n div s + (n mod s + s - 1) div s"
    using div_mult_self1 [of s "n mod s + s - 1" "n div s"] assms mult_div_mod_eq [of s n] by (simp add: algebra_simps)
  moreover have "(n mod s + s - 1) div s = (if n mod s \<noteq> 0 then 1 else 0)"
  proof (cases "n mod s = 0")
    case True
    then show ?thesis using assms by (simp add: div_pos_pos_trivial)
  next
    case False
    then have "0 < n mod s" "n mod s < s" using assms by (simp_all add: pos_mod_bound le_neq_trans)
    then have "(n mod s - 1 + s) div s = (n mod s - 1) div s + 1" using assms by (simp add: div_add_self2)
    also have "(n mod s - 1) div s = 0" using \<open>0 < n mod s\<close> \<open>n mod s < s\<close> by (simp add: div_pos_pos_trivial)
    finally show ?thesis using False by (simp add: algebra_simps)
  qed
  ultimately show ?thesis by simp
qed

lemma sdiv_minus: "(- n) sdiv (- s) = n sdiv (s :: int)" "(- n) smod (- s) = - (n smod (s :: int))"
  by (simp_all add: signed_divide_int_def signed_modulo_int_def)

lemma range_count_size:
  assumes "sint step \<noteq> 0"
  shows "range_count start stop step = int (range_size (sint start) (sint stop) (sint step))"
proof (cases "0 < sint step")
  case True
  show ?thesis
  proof (cases "sint start < sint stop")
    case True
    then have "0 \<le> (sint stop - sint start + sint step - 1) div sint step"
      using \<open>0 < sint step\<close> by (simp add: pos_imp_zdiv_nonneg_iff)
    then show ?thesis
      using True \<open>0 < sint step\<close> sdiv_ceiling [of "sint step" "sint stop - sint start"]
      by (simp add: range_count_def range_size_def Let_def)
  qed (use True in \<open>simp add: range_count_def range_size_up Let_def\<close>)
next
  case False
  then have neg: "sint step < 0" using assms by simp
  show ?thesis
  proof (cases "sint stop < sint start")
    case True
    then have "0 \<le> (sint start - sint stop - sint step - 1) div (- sint step)"
      using neg by (simp only: pos_imp_zdiv_nonneg_iff neg_0_less_iff_less)
    then show ?thesis
      using True neg sdiv_ceiling [of "- sint step" "sint start - sint stop"] sdiv_minus [of "sint start - sint stop" "sint step"]
        sdiv_minus [of "sint stop - sint start" "sint step"]
      by (simp add: range_count_def range_size_def Let_def)
  qed (use neg in \<open>simp add: range_count_def range_size_down Let_def\<close>)
qed

lemma range_iter_progression:
  assumes "small start" "small stop" "small step" "sint step \<noteq> 0" "range_length start stop step \<le> MAX_COLLECTION_SIZE"
  shows "range_iter start stop step =
    Some (Inr (map (\<lambda>i. VInt (word_of_int i)) (progression (sint start) (sint step) (range_length start stop step))))"
proof -
  have count: "\<not> int MAX_COLLECTION_SIZE < range_count start stop step"
    using range_count_size [OF assms(4)] range_length_size [OF assms(1-4)] assms(5) by simp
  have bounds: "sint stop + sint step \<le> 2 ^ 63" "- (2 ^ 63) \<le> sint stop + sint step" "- (2 ^ 63) \<le> sint start" "sint start < 2 ^ 63"
    using assms(1-3) by (auto simp: small_def)
  show ?thesis
    using count bounds assms(4) by (cases "0 < sint step")
      (simp_all add: range_iter_def range_length_size [OF assms(1-4)] Let_def range_loop_up range_loop_down)
qed

lemma range_test_progression:
  assumes "small start" "small stop" "small step" "sint step \<noteq> 0"
  shows "range_test start stop step x =
    Some (sint x \<in> set (progression (sint start) (sint step) (range_length start stop step)))"
proof -
  let ?in = "if 0 < sint step then sint start \<le> sint x \<and> sint x < sint stop else sint x \<le> sint start \<and> sint stop < sint x"
  have mem: "sint x \<in> set (progression (sint start) (sint step) (range_length start stop step)) \<longleftrightarrow>
      ?in \<and> sint step dvd (sint x - sint start)"
    using progression_up [of "sint step" "sint x" "sint start" "sint stop"]
      progression_down [of "sint step" "sint x" "sint start" "sint stop"] assms(4)
    by (auto simp: range_length_size [OF assms])
  show ?thesis
  proof (cases ?in)
    case False
    then show ?thesis unfolding mem using assms(4) by (simp add: range_test_def Let_def)
  next
    case True
    then have "\<bar>sint x - sint start\<bar> < 2 ^ 62" using assms(1,2) by (auto simp: small_def split: if_splits)
    then have diff: "sint (x - start) = sint x - sint start" "sint x - sint start \<noteq> i64_min"
      by (intro sint_of_sum, auto simp: i64_min_def)
    have "(sint x - sint start) smod sint step = 0 \<longleftrightarrow> sint step dvd (sint x - sint start)"
      by (auto simp: signed_modulo_int_def sgn_if dvd_eq_mod_eq_0 [symmetric])
    then show ?thesis unfolding mem using True assms(4) diff by (simp add: range_test_def Let_def)
  qed
qed

text \<open>For a range far from the limits of \<open>i64\<close>, iterating, indexing, the length and membership agree:
  they all describe the arithmetic progression from the start with the step, up to the stop.\<close>

theorem range_operations_agree:
  assumes "small start" "small stop" "small step" "step \<noteq> 0" "range_length start stop step \<le> MAX_COLLECTION_SIZE"
  shows "dispatch_iter E (VRange start stop step) =
      Some (Inr (map (\<lambda>k. VInt (start + of_nat k * step)) [0..<range_length start stop step])) \<and>
    dispatch_len E (VRange start stop step) = Inr (range_length start stop step) \<and>
    (\<forall>k < range_length start stop step.
      dispatch_getitem R E (VRange start stop step) (VInt (of_nat k)) = Inr (VInt (start + of_nat k * step))) \<and>
    (\<forall>x. dispatch_contains R E (VRange start stop step) (VInt x) =
      Some (Inr (\<exists>k < range_length start stop step. sint x = sint start + int k * sint step)))"
proof -
  have nz: "sint step \<noteq> 0" using assms(4) sint_zero_one(2) [of step] by simp
  let ?n = "range_length start stop step"
  have "word_of_int (sint start + int k * sint step) = start + of_nat k * step" for k by simp
  then have "map (\<lambda>i. VInt (word_of_int i)) (progression (sint start) (sint step) ?n) = map (\<lambda>k. VInt (start + of_nat k * step)) [0..<?n]"
    by (simp add: progression_def)
  then have "dispatch_iter E (VRange start stop step) = Some (Inr (map (\<lambda>k. VInt (start + of_nat k * step)) [0..<?n]))"
    using range_iter_progression [OF assms(1-3) nz assms(5)] by (simp add: dispatch_iter_def iter_slot_def)
  moreover have "dispatch_getitem R E (VRange start stop step) (VInt (of_nat k)) = Inr (VInt (start + of_nat k * step))"
    if "k < ?n" for k
  proof -
    have "sint (of_nat k :: i64) = int k"
      using that assms(5) by (intro sint_of_sum) (simp_all add: MAX_COLLECTION_SIZE_def)
    then show ?thesis
      using that assms(5)
      by (simp add: dispatch_getitem_def get_item_slot_def range_get_item_def int_index.simps normalize_seq_index_def
          MAX_COLLECTION_SIZE_def)
  qed
  moreover have "dispatch_contains R E (VRange start stop step) (VInt x) =
      Some (Inr (\<exists>k < ?n. sint x = sint start + int k * sint step))" for x
    using range_test_progression [OF assms(1-3) nz, of x]
    by (auto simp: dispatch_contains_def no_contains_def range_contains_def progression_def)
  ultimately show ?thesis by (simp add: dispatch_len_def len_slot_def)
qed

theorem range_operations_agree_witness:
  "dispatch_iter empty_env (VRange 10 0 (- 4)) = Some (Inr [VInt 10, VInt 6, VInt 2]) \<and>
    dispatch_len empty_env (VRange 10 0 (- 4)) = Inr 3"
proof -
  have len: "range_length 10 0 (- 4) = 3"
    by (simp add: range_length_def signed_divide_int_def)
  show ?thesis
    using range_operations_agree [of 10 0 "- 4" empty_env sample_runtime] unfolding len
    by (simp add: small_def MAX_COLLECTION_SIZE_def upt_rec)
qed

lemma bind_cons:
  "Option.bind m (\<lambda>r. Some (case r of Inl e \<Rightarrow> Inl e | Inr xs \<Rightarrow> Inr (x # xs))) = Some (Inr ys) \<longleftrightarrow>
     (\<exists>zs. m = Some (Inr zs) \<and> ys = x # zs)"
  by (cases m) (auto split: sum.split)

lemma stride_loop_long:
  fixes g :: "int \<Rightarrow> 'b"
  assumes "0 < s" "e < 2 ^ 63"
  shows "stride_loop (\<lambda>i. i < e) (\<lambda>i. Inr (g i) :: 'e + 'b) s i = Some (Inr xs) \<Longrightarrow> - (2 ^ 63) \<le> i \<Longrightarrow> i + int n * s < e \<Longrightarrow> n < length xs"
proof (induction n arbitrary: i xs)
  case 0
  then show ?case
    by (auto simp: stride_loop.simps [of "\<lambda>i. i < e" _ s i] bind_cons)
next
  case (Suc n)
  have "i + s + int n * s < e" using Suc.prems(3) by (simp add: algebra_simps)
  moreover have "0 \<le> int n * s" using assms(1) by simp
  ultimately have "i + s < e" by linarith
  then have "in_i64 (i + s)" "i < e" "- (2 ^ 63) \<le> i + s"
    using Suc.prems(2) assms by (auto simp: in_i64_def)
  then obtain ys where "stride_loop (\<lambda>i. i < e) (\<lambda>i. Inr (g i) :: 'e + 'b) s (i + s) = Some (Inr ys)" "xs = g i # ys"
    using Suc.prems(1) by (auto simp: stride_loop_step [of i s] bind_cons)
  then show ?case using Suc.IH [of "i + s" ys] \<open>i + s + int n * s < e\<close> \<open>- (2 ^ 63) \<le> i + s\<close> by simp
qed

text \<open>The loop of \<open>range_iter\<close> can wrap past its stop: \<open>range(2**63 - 2, 2**63 - 1, 5)\<close> has one element
  and passes the size check, but every list the loop could return is longer than the limit allows.\<close>

theorem range_iter_escapes_limit:
  "range_count (2 ^ 63 - 2) (2 ^ 63 - 1) 5 = 1 \<and>
    (\<nexists>xs. range_iter (2 ^ 63 - 2) (2 ^ 63 - 1) 5 = Some (Inr xs) \<and> length xs \<le> MAX_COLLECTION_SIZE)"
proof -
  let ?loop = "stride_loop (\<lambda>i. i < 9223372036854775807) (\<lambda>i. Inr (VInt (word_of_int i)) :: eval_error + pyval) 5"
  have count: "range_count (2 ^ 63 - 2) (2 ^ 63 - 1) 5 = 1"
    by (simp add: range_count_def signed_divide_int_def signed_modulo_int_def)
  have first: "?loop 9223372036854775806 = Option.bind (?loop (- 9223372036854775805))
      (\<lambda>r. Some (case r of Inl e \<Rightarrow> Inl e | Inr xs \<Rightarrow> Inr (VInt 9223372036854775806 # xs)))"
    by (subst stride_loop.simps) (simp add: i64_add_def)
  have "MAX_COLLECTION_SIZE < length xs" if "range_iter (2 ^ 63 - 2) (2 ^ 63 - 1) 5 = Some (Inr xs)" for xs
  proof -
    have "?loop 9223372036854775806 = Some (Inr xs)"
      using that count by (simp add: range_iter_def MAX_COLLECTION_SIZE_def)
    then obtain ys where ys: "?loop (- 9223372036854775805) = Some (Inr ys)" "length xs = Suc (length ys)"
      unfolding first bind_cons by auto
    then show ?thesis
      using stride_loop_long [OF _ _ ys(1), of MAX_COLLECTION_SIZE] by (simp add: MAX_COLLECTION_SIZE_def)
  qed
  then show ?thesis using count by (metis not_le)
qed

text \<open>A membership test in a range can divide the least \<open>i64\<close> by \<open>-1\<close>, which panics in every build.\<close>

theorem range_contains_panics:
  "dispatch_contains R E (VRange 1 (- (2 ^ 63)) (- 1)) (VInt (- (2 ^ 63) + 1)) = None"
  by (simp add: dispatch_contains_def no_contains_def range_contains_def range_test_def i64_min_def)

end
