(* ===== verification/Slice_Assignment.thy ===== *)
theory Slice_Assignment
  imports Ranges
begin

text \<open>
  Slices as places: \<open>apply_value_slice\<close> of \<open>eval/names.rs\<close>, slice assignment of
  \<open>eval/place.rs\<close> and slice deletion of \<open>eval/delete.rs\<close>.
\<close>

section \<open>Slices of values\<close>

text \<open>A slice is a new object: \<open>fresh\<close> is the address of its storage.\<close>

definition not_none :: "pyval option \<Rightarrow> pyval option" where
  "not_none v = (if v = Some VNone then None else v)"

definition run_bind :: "'a run \<Rightarrow> ('a \<Rightarrow> 'b run) \<Rightarrow> 'b run" where
  "run_bind r f = (case r of None \<Rightarrow> None | Some (Inl e) \<Rightarrow> Some (Inl e) | Some (Inr x) \<Rightarrow> f x)"

lemma run_bind_simps [simp]:
  "run_bind None f = None" "run_bind (Some (Inl e)) f = Some (Inl e)" "run_bind (Some (Inr x)) f = f x"
  by (simp_all add: run_bind_def)

definition range_slice ::
  "i64 \<Rightarrow> i64 \<Rightarrow> i64 \<Rightarrow> pyval option \<Rightarrow> pyval option \<Rightarrow> i64 \<Rightarrow> pyval eval_result" where
  "range_slice start stop step lower upper stride =
     (let n = range_length start stop step in
      if 2 ^ 63 \<le> n then Inl (Interpreter (Runtime ''range length overflow''))
      else
        (let len = int n;
             result = (\<lambda>begin1 end1. VRange (start + word_of_int begin1 * step) (start + word_of_int end1 * step) (step * stride)) in
         if 0 < sint stride then
           result_bind (resolve_bound lower 0) (\<lambda>lo. result_bind (resolve_bound upper len) (\<lambda>hi.
             Inr (result (clamp_slice_index lo len) (clamp_slice_index hi len))))
         else
           result_bind (resolve_bound lower (len - 1)) (\<lambda>lo. result_bind (resolve_bound upper (- (len + 1))) (\<lambda>hi.
             Inr (result (clamp_slice_index_neg lo len) (clamp_slice_index_neg hi len))))))"

definition slice_stride :: "pyval option \<Rightarrow> i64 eval_result" where
  "slice_stride step_expr =
     result_bind
       (case step_expr of
          Some (VInt s) \<Rightarrow> Inr s
        | Some (VBool b) \<Rightarrow> Inr (if b then 1 else 0)
        | None \<Rightarrow> Inr 1
        | Some VNone \<Rightarrow> Inr 1
        | Some v \<Rightarrow> Inl slice_type_error)
       (\<lambda>stride. if stride = 0 then Inl (Interpreter (ValueError ''slice step cannot be zero'')) else Inr stride)"

definition apply_value_slice ::
  "env \<Rightarrow> addr \<Rightarrow> pyval \<Rightarrow> pyval option \<Rightarrow> pyval option \<Rightarrow> pyval option \<Rightarrow> (env \<times> pyval) run" where
  "apply_value_slice E fresh obj lower0 upper0 step_expr =
     (let lower = not_none lower0; upper = not_none upper0 in
      run_bind (Some (slice_stride step_expr)) (\<lambda>stride.
        (let cut = (\<lambda>items. slice_sequence items lower upper (sint stride));
             bytes_of = run_bind (cut (List.map (\<lambda>x. VInt (ucast x)) (case bytes_view E obj of Some b \<Rightarrow> b | None \<Rightarrow> [])))
               (\<lambda>vs. Some (Inr (List.map_filter (\<lambda>v. case v of VInt n \<Rightarrow> Some (ucast n :: u8) | _ \<Rightarrow> None) vs))) in
         case obj of
           VList l \<Rightarrow> run_bind (cut (list_at E l)) (\<lambda>vs. Some (Inr (set_list E fresh vs, VList fresh)))
         | VArray typecode l \<Rightarrow> run_bind (cut (list_at E l)) (\<lambda>vs. Some (Inr (set_list E fresh vs, VArray typecode fresh)))
         | VTuple t \<Rightarrow> run_bind (cut t) (\<lambda>vs. Some (Inr (E, VTuple vs)))
         | VString s \<Rightarrow>
             run_bind (cut (List.map (\<lambda>c. VString [c]) s)) (\<lambda>vs.
               Some (Inr (E, VString (concat (List.map (\<lambda>v. case v of VString t \<Rightarrow> t | _ \<Rightarrow> []) vs)))))
         | VByteArray b \<Rightarrow> run_bind bytes_of (\<lambda>bs. Some (Inr (set_bytes E fresh bs, VByteArray fresh)))
         | VMemoryView b \<Rightarrow> run_bind bytes_of (\<lambda>bs. Some (Inr (E, VMemoryView (VBytes bs))))
         | VBytes b \<Rightarrow> run_bind bytes_of (\<lambda>bs. Some (Inr (E, VBytes bs)))
         | VRange a b c \<Rightarrow> run_bind (Some (range_slice a b c lower upper stride)) (\<lambda>r. Some (Inr (E, r)))
         | _ \<Rightarrow> Some (Inl (Interpreter (TypeError ([CHR 39] @ type_name obj @ [CHR 39] @ '' object is not subscriptable'')))))))"

section \<open>Slice assignment and deletion\<close>

definition splice :: "nat \<Rightarrow> nat \<Rightarrow> 'v list \<Rightarrow> 'v list \<Rightarrow> 'v list" where
  "splice lo hi ys xs = take lo xs @ ys @ drop hi xs"

primrec update_positions :: "nat list \<Rightarrow> 'v list \<Rightarrow> 'v list \<Rightarrow> 'v list" where
  "update_positions [] ys xs = xs"
| "update_positions (i # is) ys xs = (case ys of [] \<Rightarrow> xs | y # ys' \<Rightarrow> update_positions is ys' (xs[i := y]))"

primrec update_delta :: "runtime \<Rightarrow> nat list \<Rightarrow> pyval list \<Rightarrow> pyval list \<Rightarrow> int \<Rightarrow> int" where
  "update_delta R [] ys xs delta = delta"
| "update_delta R (i # is) ys xs delta = (case ys of
       [] \<Rightarrow> delta
     | y # ys' \<Rightarrow> update_delta R is ys' (xs[i := y])
         (max (- (2 ^ 63)) (min (2 ^ 63 - 1) (delta + size_delta (value_size R (xs ! i)) (value_size R y)))))"

definition contiguous :: "slice_spec \<Rightarrow> int \<Rightarrow> (nat \<times> nat) eval_result" where
  "contiguous spec len =
     result_bind (resolve_bound (spec_lower spec) 0) (\<lambda>lo.
     result_bind (resolve_bound (spec_upper spec) len) (\<lambda>hi.
       (let start = clamp_index lo len; stop = max (clamp_index hi len) start in
        result_bind (to_index start) (\<lambda>l. result_bind (to_index stop) (\<lambda>h. Inr (l, h))))))"

definition sum_sizes :: "runtime \<Rightarrow> pyval list \<Rightarrow> nat" where
  "sum_sizes R vs = sum_list (List.map (value_size R) vs)"

definition set_list_slice :: "runtime \<Rightarrow> env \<Rightarrow> addr \<Rightarrow> slice_spec \<Rightarrow> pyval list \<Rightarrow> (env \<times> int) run" where
  "set_list_slice R E l spec new_items =
     (let items = list_at E l in
      run_bind (Some (resolve_step (spec_step spec))) (\<lambda>stride.
        if 2 ^ 63 \<le> length items then Some (Inl (Interpreter (Runtime ''sequence length overflows i64'')))
        else if stride = 1 then
          run_bind (Some (contiguous spec (int (length items)))) (\<lambda>(lo, hi).
            Some (Inr (set_list E l (splice lo hi new_items items),
              size_delta (sum_sizes R (take (hi - lo) (drop lo items))) (sum_sizes R new_items))))
        else
          run_bind (extended_indices (int (length items)) spec stride) (\<lambda>is.
            if length is \<noteq> length new_items then
              Some (Inl (Interpreter (ValueError (''attempt to assign sequence of size '' @ nat_digits (length new_items) @
                '' to extended slice of size '' @ nat_digits (length is)))))
            else Some (Inr (set_list E l (update_positions is new_items items), update_delta R is new_items items 0)))))"

definition byte_of_element :: "pyval \<Rightarrow> u8 eval_result" where
  "byte_of_element v = (case v of
       VInt n \<Rightarrow> (if 0 \<le> sint n \<and> sint n \<le> 255 then Inr (word_of_int (sint n))
                  else Inl (Interpreter (ValueError ''bytes must be in range(0, 256)'')))
     | VBool b \<Rightarrow> Inr (if b then 1 else 0)
     | _ \<Rightarrow> Inl (Interpreter (ValueError ''bytes must be in range(0, 256)'')))"

definition set_bytearray_slice :: "env \<Rightarrow> addr \<Rightarrow> slice_spec \<Rightarrow> pyval \<Rightarrow> (env \<times> int) run" where
  "set_bytearray_slice E ba spec v =
     run_bind
       (case v of
          VBytes b \<Rightarrow> Some (Inr b)
        | VByteArray b \<Rightarrow> Some (Inr (bytes_at E b))
        | other \<Rightarrow> run_bind (dispatch_iter E other) (\<lambda>vs. Some (result_all (List.map byte_of_element vs))))
       (\<lambda>new_bytes.
         run_bind (Some (resolve_step (spec_step spec))) (\<lambda>stride.
           (let b = bytes_at E ba in
            if 2 ^ 63 \<le> length b then Some (Inl (Interpreter (Runtime ''sequence length overflows i64'')))
            else if stride = 1 then
              run_bind (Some (contiguous spec (int (length b)))) (\<lambda>(lo, hi).
                Some (Inr (set_bytes E ba (splice lo hi new_bytes b), size_delta (hi - lo) (length new_bytes))))
            else
              run_bind (extended_indices (int (length b)) spec stride) (\<lambda>is.
                if length is \<noteq> length new_bytes then
                  Some (Inl (Interpreter (ValueError (''attempt to assign bytes of size '' @ nat_digits (length new_bytes) @
                    '' to extended slice of size '' @ nat_digits (length is)))))
                else Some (Inr (set_bytes E ba (update_positions is new_bytes b), 0))))))"

definition set_slice :: "runtime \<Rightarrow> env \<Rightarrow> pyval \<Rightarrow> slice_spec \<Rightarrow> pyval \<Rightarrow> (env \<times> int) run" where
  "set_slice R E container spec v = (case container of
       VByteArray ba \<Rightarrow> set_bytearray_slice E ba spec v
     | VArray typecode items \<Rightarrow> (case v of
           VArray t rhs \<Rightarrow> set_list_slice R E items spec (list_at E rhs)
         | _ \<Rightarrow> Some (Inl (Interpreter (TypeError
             (''can only assign array (not '' @ [CHR 34] @ type_name v @ [CHR 34] @ '') to array slice'')))))
     | VList l \<Rightarrow> run_bind (dispatch_iter E v) (set_list_slice R E l spec)
     | _ \<Rightarrow> Some (Inl (Interpreter (TypeError
         ([CHR 39] @ type_name container @ [CHR 39] @ '' object does not support slice assignment'')))))"

definition get_slice :: "env \<Rightarrow> addr \<Rightarrow> pyval \<Rightarrow> slice_spec \<Rightarrow> (env \<times> pyval) run" where
  "get_slice E fresh container spec = (case container of
       VList l \<Rightarrow>
         (let items = list_at E l in
          run_bind (Some (resolve_step (spec_step spec))) (\<lambda>stride.
            if 2 ^ 63 \<le> length items then Some (Inl (Interpreter (Runtime ''sequence length overflows i64'')))
            else
              run_bind
                (if stride = 1
                 then run_bind (Some (contiguous spec (int (length items)))) (\<lambda>(lo, hi). Some (Inr (take (hi - lo) (drop lo items))))
                 else run_bind (extended_indices (int (length items)) spec stride) (\<lambda>is. Some (Inr (List.map ((!) items) is))))
                (\<lambda>out. Some (Inr (set_list E fresh out, VList fresh)))))
     | _ \<Rightarrow> Some (Inl (Interpreter (TypeError ([CHR 39] @ type_name container @ [CHR 39] @ '' object is not subscriptable'')))))"

text \<open>\<open>del xs[start:stop:step]\<close> with the bounds evaluated; returns the size released.  The contiguous case
  reads only \<open>int\<close> bounds: any other value stands for the default.\<close>

definition delete_bound :: "pyval option \<Rightarrow> int \<Rightarrow> nat \<Rightarrow> nat" where
  "delete_bound v len dflt = (case v of
       Some (VInt i) \<Rightarrow> (let idx = (if sint i < 0 then max (len + sint i) 0 else sint i) in nat (min idx len))
     | _ \<Rightarrow> dflt)"

definition delete_slice ::
  "runtime \<Rightarrow> env \<Rightarrow> pyval \<Rightarrow> pyval option \<Rightarrow> pyval option \<Rightarrow> pyval option \<Rightarrow> (env \<times> nat) run" where
  "delete_slice R E obj start stop step =
     run_bind (Some (slice_stride step)) (\<lambda>st. (case obj of
         VList l \<Rightarrow>
           (let items = list_at E l; n = length items; len = int n in
            if 2 ^ 63 \<le> n then Some (Inl (Interpreter (Runtime ''list length overflows i64 for slicing'')))
            else if st = 1 then
              (let s = delete_bound start len 0; e = delete_bound stop len n in
               if s < e \<and> s < n then
                 (let end1 = min e n in
                  Some (Inr (set_list E l (splice s end1 [] items), sum_sizes R (take (end1 - s) (drop s items)))))
               else Some (Inr (E, 0)))
            else
              map_option (\<lambda>us. case remove_positions R us items 0 of (ys, freed) \<Rightarrow> Inr (set_list E l ys, freed))
                (strided_indices start stop (sint st) len))
       | _ \<Rightarrow> Some (Inl (Interpreter (TypeError
           ([CHR 39] @ type_name obj @ [CHR 39] @ '' object does not support item deletion''))))))"

section \<open>Assigning a slice and reading it back\<close>

lemma update_positions_length [simp]: "length (update_positions is ys xs) = length xs"
  by (induction "is" arbitrary: ys xs) (auto split: list.split)

lemma update_positions_other: "i \<notin> set is \<Longrightarrow> update_positions is ys xs ! i = xs ! i"
  by (induction "is" arbitrary: ys xs) (auto split: list.split)

lemma update_positions_read:
  "distinct is \<Longrightarrow> \<forall>i \<in> set is. i < length xs \<Longrightarrow> length is = length ys \<Longrightarrow> map ((!) (update_positions is ys xs)) is = ys"
proof (induction "is" arbitrary: ys xs)
  case (Cons i "is")
  then obtain y ys' where ys: "ys = y # ys'" by (cases ys) auto
  then show ?case
    using Cons.IH [of "xs[i := y]" ys'] Cons.prems update_positions_other [of i "is" ys' "xs[i := y]"] by simp
qed simp

text \<open>Assigning as many items as an extended slice selects, then reading the slice, gives the items
  back; assigning any other number is a \<open>ValueError\<close>.\<close>

theorem extended_slice_assignment:
  assumes "good_bound lower" "good_bound upper" "good_stride (sint st) (length (list_at E l))" "sint st \<noteq> 1"
  shows "(if length ys = length (slice_positions lower upper (sint st) (length (list_at E l))) then
      \<exists>xs delta. set_slice R E (VList l) \<lparr>spec_lower = lower, spec_upper = upper, spec_step = Some (VInt st)\<rparr> (VTuple ys) =
          Some (Inr (set_list E l xs, delta)) \<and> slice_sequence xs lower upper (sint st) = Some (Inr ys)
    else \<exists>msg. set_slice R E (VList l) \<lparr>spec_lower = lower, spec_upper = upper, spec_step = Some (VInt st)\<rparr> (VTuple ys) =
          Some (Inl (Interpreter (ValueError msg))))"
proof -
  let ?xs = "list_at E l" let ?spec = "\<lparr>spec_lower = lower, spec_upper = upper, spec_step = Some (VInt st)\<rparr>"
  let ?ps = "slice_positions lower upper (sint st) (length ?xs)"
  have ext: "extended_indices (int (length ?xs)) ?spec (sint st) = Some (Inr ?ps)"
    using extended_indices_selected [of ?spec "sint st" "length ?xs"] assms(1-3) by simp
  have set: "set_slice R E (VList l) ?spec (VTuple ys) = set_list_slice R E l ?spec ys"
    by (simp add: set_slice_def dispatch_iter_def iter_slot_def)
  have nz: "sint st \<noteq> 0" "\<not> 2 ^ 63 \<le> length ?xs" using assms(3) by (auto simp: good_stride_def)
  have "slice_sequence (update_positions ?ps ys ?xs) lower upper (sint st) = Some (Inr ys)" if "length ys = length ?ps"
    using slice_sequence_selected [of lower upper "sint st" "update_positions ?ps ys ?xs"] assms(1-3) that
      update_positions_read [OF selected_distinct, where xs = ?xs and ys = ys] selected_less by simp
  then show ?thesis
    unfolding set using ext nz assms(4) by (auto simp: set_list_slice_def resolve_step_def Let_def)
qed

theorem extended_slice_assignment_witness:
  "\<exists>xs delta. set_slice sample_runtime sorted_ints (VList 0) \<lparr>spec_lower = None, spec_upper = None, spec_step = Some (VInt 2)\<rparr>
      (VTuple [VNone, VEllipsis]) = Some (Inr (set_list sorted_ints 0 xs, delta)) \<and>
    slice_sequence xs None None 2 = Some (Inr [VNone, VEllipsis])"
proof -
  have "slice_positions None None 2 3 = [0, 2]"
    by (simp add: selected_def slice_begin_def slice_end_def resolve_lenient_def clamp_slice_index_def upt_rec)
  then show ?thesis
    using extended_slice_assignment [of None None 2 sorted_ints 0 "[VNone, VEllipsis]" sample_runtime]
    by (simp add: good_bound_def good_stride_def sorted_ints_def numeral_3_eq_3)
qed

text \<open>Deleting a slice with step one ignores a \<open>bool\<close> bound that reading honours: \<open>del xs[True:]\<close>
  empties the list, although \<open>xs[True:]\<close> does not contain its first element.\<close>

theorem delete_slice_ignores_bool:
  "delete_slice R sorted_ints (VList 0) (Some (VBool True)) None None =
      Some (Inr (set_list sorted_ints 0 [], sum_sizes R [VInt 1, VBool True, VInt 3])) \<and>
    apply_value_slice sorted_ints 1 (VList 0) (Some (VBool True)) None None =
      Some (Inr (set_list sorted_ints 1 [VBool True, VInt 3], VList 1))"
proof -
  have "slice_positions (Some (VBool True)) None 1 3 = [1, 2]"
    by (simp add: selected_def slice_begin_def slice_end_def resolve_lenient_def clamp_slice_index_def upt_rec)
  moreover have "slice_sequence [VInt 1, VBool True, VInt 3] (Some (VBool True)) None 1 =
      Some (Inr (map ((!) [VInt 1, VBool True, VInt 3]) (slice_positions (Some (VBool True)) None 1 3)))"
    using slice_sequence_selected [of "Some (VBool True)" None 1 "[VInt 1, VBool True, VInt 3]"]
    by (simp add: good_bound_def good_stride_def numeral_3_eq_3)
  ultimately show ?thesis
    by (simp add: delete_slice_def apply_value_slice_def slice_stride_def delete_bound_def sorted_ints_def splice_def not_none_def Let_def)
qed

end
