(* ===== verification/State.thy ===== *)
theory State
  imports Slice_Assignment
begin

text \<open>
  The state of the interpreter (\<open>state.rs\<close>) with its limits (\<open>config.rs\<close>): variables, the print
  buffer, call and expression depth, memory accounting, and the cursors of lazy iterators.

  Counters of a machine type are \<open>nat\<close> with the saturation the code asks for written out;
  identifiers that wrap are words; stacks grow at the front.  The estimate of a value's size is \<open>value_size R\<close>.
\<close>

section \<open>The state\<close>

record interpreter_config =
  max_operations :: nat
  max_while_iterations :: nat
  max_memory_bytes :: nat
  max_stdout_bytes :: nat
  max_concurrent_tools :: nat
  max_execution_time :: "nat option"
  max_recursion_depth :: nat
  max_int_bits :: nat

definition default_config :: interpreter_config where
  "default_config = \<lparr>max_operations = 10000000, max_while_iterations = 100000, max_memory_bytes = 128 * 1024 * 1024,
     max_stdout_bytes = 64 * 1024, max_concurrent_tools = 10, max_execution_time = None, max_recursion_depth = 1000,
     max_int_bits = 1048576\<rparr>"

datatype builtin_iter_state =
    Count pyval pyval
  | Cycle "pyval list" nat
  | Repeat pyval
  | ListIter addr nat
  | BytearrayIter addr nat

record interp_state =
  heap_env :: env
  stringio_at :: "addr \<Rightarrow> pystr \<times> nat"
  variables :: "string \<rightharpoonup> pyval"
  class_mro :: "string \<rightharpoonup> string list"
  print_buffer :: pystr
  stdout_redirects :: "addr list"
  qualname_stack :: "string list"
  operations_count :: nat
  memory_used_bytes :: nat
  call_depth :: nat
  expr_depth :: nat
  saved_expr_depth :: "nat list"
  active_exception_stack :: "exception_value list"
  lazy_cursors :: "u64 \<rightharpoonup> nat"
  next_cursor_id :: u64
  builtin_iters :: "u64 \<rightharpoonup> builtin_iter_state"
  next_builtin_iter_id :: u64
  nonlocal_cells :: "u64 \<rightharpoonup> (string \<rightharpoonup> pyval)"
  frame_cell_owners :: "(string \<rightharpoonup> u64) list"
  config :: interpreter_config

text \<open>\<open>InterpreterState::new\<close>: the stacks are empty and \<open>__name__\<close> is bound.  Of a class the state keeps
  the method resolution order.\<close>

definition main_value :: pyval where
  "main_value = VString (str_of ''__main__'')"

definition new_state :: "env \<Rightarrow> interpreter_config \<Rightarrow> interp_state" where
  "new_state E cfg = \<lparr>heap_env = E, stringio_at = (\<lambda>_. ([], 0)), variables = [''__name__'' \<mapsto> main_value],
     class_mro = [''time.struct_time'' \<mapsto> [''time.struct_time''], ''datetime.IsoCalendarDate'' \<mapsto> [''datetime.IsoCalendarDate''],
       ''CacheInfo'' \<mapsto> [''CacheInfo''], ''DecimalTuple'' \<mapsto> [''DecimalTuple'']],
     print_buffer = [], stdout_redirects = [], qualname_stack = [], operations_count = 0, memory_used_bytes = 0,
     call_depth = 0, expr_depth = 0, saved_expr_depth = [], active_exception_stack = [],
     lazy_cursors = Map.empty, next_cursor_id = 0, builtin_iters = Map.empty, next_builtin_iter_id = 0,
     nonlocal_cells = Map.empty, frame_cell_owners = [], config = cfg\<rparr>"

type_synonym 'a state_result = "interp_state \<times> (interpreter_error + 'a)"

section \<open>Machine arithmetic\<close>

definition usize_max :: nat where "usize_max = 2 ^ 64 - 1"
definition u32_max :: nat where "u32_max = 2 ^ 32 - 1"

definition usize_add :: "nat \<Rightarrow> nat \<Rightarrow> nat" where
  "usize_add a b = min usize_max (a + b)"

definition u32_succ :: "nat \<Rightarrow> nat" where
  "u32_succ a = min u32_max (a + 1)"

section \<open>Depth\<close>

definition qualname_for :: "interp_state \<Rightarrow> string \<Rightarrow> string" where
  "qualname_for s name = (case qualname_stack s of enclosing # _ \<Rightarrow> enclosing @ ''.'' @ name | [] \<Rightarrow> name)"

definition enter_call :: "interp_state \<Rightarrow> unit state_result" where
  "enter_call s =
     (if max_recursion_depth (config s) \<le> call_depth s
      then (s, Inl (RecursionLimitExceeded (max_recursion_depth (config s))))
      else (s\<lparr>call_depth := u32_succ (call_depth s), saved_expr_depth := expr_depth s # saved_expr_depth s,
               expr_depth := 0\<rparr>, Inr ()))"

definition exit_call :: "interp_state \<Rightarrow> interp_state" where
  "exit_call s =
     (let s1 = s\<lparr>call_depth := call_depth s - 1\<rparr> in
      case saved_expr_depth s of
        saved # rest \<Rightarrow> s1\<lparr>saved_expr_depth := rest, expr_depth := saved\<rparr>
      | [] \<Rightarrow> s1)"

definition enter_expr :: "interp_state \<Rightarrow> unit state_result" where
  "enter_expr s =
     (if max_recursion_depth (config s) \<le> expr_depth s
      then (s, Inl (RecursionLimitExceeded (max_recursion_depth (config s))))
      else (s\<lparr>expr_depth := u32_succ (expr_depth s)\<rparr>, Inr ()))"

definition exit_expr :: "interp_state \<Rightarrow> interp_state" where
  "exit_expr s = s\<lparr>expr_depth := expr_depth s - 1\<rparr>"

section \<open>Memory\<close>

definition memory_error :: "interp_state \<Rightarrow> interpreter_error" where
  "memory_error s = LimitExceeded (''memory usage ('' @ nat_digits (memory_used_bytes s) @ '' bytes) exceeds limit ('' @
     nat_digits (max_memory_bytes (config s)) @ '' bytes)'')"

definition check_memory :: "interp_state \<Rightarrow> interpreter_error + unit" where
  "check_memory s =
     (if min (max_memory_bytes (config s)) usize_max < memory_used_bytes s then Inl (memory_error s) else Inr ())"

definition track_allocation :: "interp_state \<Rightarrow> nat \<Rightarrow> unit state_result" where
  "track_allocation s bytes =
     (let s1 = s\<lparr>memory_used_bytes := usize_add (memory_used_bytes s) bytes\<rparr> in
      if min (max_memory_bytes (config s1)) usize_max < memory_used_bytes s1 then (s1, Inl (memory_error s1)) else (s1, Inr ()))"

definition release_allocation :: "interp_state \<Rightarrow> nat \<Rightarrow> interp_state" where
  "release_allocation s bytes = s\<lparr>memory_used_bytes := memory_used_bytes s - bytes\<rparr>"

definition apply_mem_delta :: "interp_state \<Rightarrow> int \<Rightarrow> unit state_result" where
  "apply_mem_delta s delta =
     (if 0 \<le> delta then track_allocation s (nat delta) else (release_allocation s (nat (- delta)), Inr ()))"

section \<open>Variables\<close>

definition write_through :: "interp_state \<Rightarrow> string \<Rightarrow> pyval \<Rightarrow> interp_state" where
  "write_through s name v = (case frame_cell_owners s of
       owners # _ \<Rightarrow> (case owners name of
           Some cell_id \<Rightarrow>
             s\<lparr>nonlocal_cells := (nonlocal_cells s)(cell_id \<mapsto>
               ((case nonlocal_cells s cell_id of Some c \<Rightarrow> c | None \<Rightarrow> Map.empty)(name \<mapsto> v)))\<rparr>
         | None \<Rightarrow> s)
     | [] \<Rightarrow> s)"

definition set_variable :: "runtime \<Rightarrow> interp_state \<Rightarrow> string \<Rightarrow> pyval \<Rightarrow> unit state_result" where
  "set_variable R s name v =
     (let released = (case variables s name of
            Some old \<Rightarrow> memory_used_bytes s - value_size R old | None \<Rightarrow> memory_used_bytes s);
          s1 = s\<lparr>memory_used_bytes := usize_add released (value_size R v)\<rparr>;
          s2 = write_through s1 name v;
          s3 = s2\<lparr>variables := (variables s2)(name \<mapsto> v)\<rparr> in
      (s3, check_memory s3))"

definition get_variable :: "interp_state \<Rightarrow> string \<Rightarrow> pyval option" where
  "get_variable s name = variables s name"

definition delete_variable :: "runtime \<Rightarrow> interp_state \<Rightarrow> string \<Rightarrow> unit state_result" where
  "delete_variable R s name = (case variables s name of
       Some old \<Rightarrow>
         (s\<lparr>variables := (variables s)(name := None), memory_used_bytes := memory_used_bytes s - value_size R old\<rparr>, Inr ())
     | None \<Rightarrow> (s, Inl (name_not_defined name)))"

text \<open>The order of the keys of a hash map is not specified: the keys are a set.\<close>

definition state_keys :: "interp_state \<Rightarrow> string set" where
  "state_keys s = {k \<in> dom (variables s). \<not> (k \<noteq> [] \<and> hd k = CHR ''_'')}"

section \<open>Output\<close>

definition utf8_len :: "nat \<Rightarrow> nat" where
  "utf8_len c = (if c < 0x80 then 1 else if c < 0x800 then 2 else if c < 0x10000 then 3 else 4)"

definition byte_len :: "pystr \<Rightarrow> nat" where
  "byte_len s = sum_list (map utf8_len s)"

text \<open>Writing at a position overwrites what is there and extends the text past its end.\<close>

definition overwrite_at :: "nat \<Rightarrow> pystr \<Rightarrow> pystr \<Rightarrow> pystr" where
  "overwrite_at pos t buf = take pos buf @ t @ drop (pos + length t) buf"

definition write_stringio :: "pystr \<times> nat \<Rightarrow> pystr \<Rightarrow> pystr \<times> nat" where
  "write_stringio g t =
     (let insert_at = min (snd g) (length (fst g)) in
      (if length (fst g) \<le> insert_at then fst g @ t else overwrite_at insert_at t (fst g), insert_at + length t))"

definition append_print :: "interp_state \<Rightarrow> pystr \<Rightarrow> unit state_result" where
  "append_print s t = (case stdout_redirects s of
       target # _ \<Rightarrow>
         (s\<lparr>stringio_at := (stringio_at s)(target := write_stringio (stringio_at s target) t)\<rparr>, Inr ())
     | [] \<Rightarrow>
         (let new_len = byte_len (print_buffer s) + byte_len t; max_stdout = min (max_stdout_bytes (config s)) usize_max in
          if max_stdout < new_len then
            (s, Inl (LimitExceeded (''print output ('' @ nat_digits new_len @ '' bytes) exceeds limit ('' @
              nat_digits (max_stdout_bytes (config s)) @ '' bytes)'')))
          else track_allocation (s\<lparr>print_buffer := print_buffer s @ t\<rparr>) (byte_len t)))"

definition clear_print_buffer :: "interp_state \<Rightarrow> interp_state" where
  "clear_print_buffer s = s\<lparr>print_buffer := []\<rparr>"

section \<open>Operations\<close>

definition reset_operations :: "interp_state \<Rightarrow> interp_state" where
  "reset_operations s = s\<lparr>operations_count := 0\<rparr>"

text \<open>The counter is a \<open>u64\<close> whose \<open>+= 1\<close> wraps in a release build.  \<open>elapsed\<close> is the time since the
  start of the execution, \<open>shown\<close> the limit as displayed.\<close>

definition increment_ops :: "nat \<Rightarrow> string \<Rightarrow> interp_state \<Rightarrow> unit state_result" where
  "increment_ops elapsed shown s =
     (let s1 = s\<lparr>operations_count := (operations_count s + 1) mod 2 ^ 64\<rparr> in
      if max_operations (config s1) \<le> operations_count s1 then
        (s1, Inl (LimitExceeded (''exceeded maximum of '' @ nat_digits (max_operations (config s1)) @ '' operations'')))
      else if operations_count s1 mod 100 = 0 then
        (case check_memory s1 of
           Inl e \<Rightarrow> (s1, Inl e)
         | Inr u \<Rightarrow> (case max_execution_time (config s1) of
             Some max_time \<Rightarrow>
               if max_time < elapsed then (s1, Inl (LimitExceeded (''execution time exceeded '' @ shown))) else (s1, Inr ())
           | None \<Rightarrow> (s1, Inr ())))
      else (s1, Inr ()))"

section \<open>Lazy iterators\<close>

definition alloc_builtin_iter :: "interp_state \<Rightarrow> builtin_iter_name \<Rightarrow> builtin_iter_state \<Rightarrow> interp_state \<times> pyval" where
  "alloc_builtin_iter s kind st =
     (let iter_id = next_builtin_iter_id s in
      (s\<lparr>next_builtin_iter_id := iter_id + 1, builtin_iters := (builtin_iters s)(iter_id \<mapsto> st)\<rparr>, VBuiltinIter iter_id kind))"

definition alloc_lazy_kind :: "interp_state \<Rightarrow> pyval list \<Rightarrow> lazy_kind \<Rightarrow> interp_state \<times> pyval" where
  "alloc_lazy_kind s items kind =
     (let cursor_id = next_cursor_id s in
      (s\<lparr>next_cursor_id := cursor_id + 1, lazy_cursors := (lazy_cursors s)(cursor_id \<mapsto> 0)\<rparr>, VLazy items cursor_id kind))"

text \<open>\<open>fadd\<close> is the addition of \<open>f64\<close>.\<close>

definition count_big :: "pyval \<Rightarrow> int option" where
  "count_big v = (case v of VInt n \<Rightarrow> Some (sint n) | VBigInt b \<Rightarrow> Some b | VBool b \<Rightarrow> Some (if b then 1 else 0) | _ \<Rightarrow> None)"

definition count_float :: "pyval \<Rightarrow> f64 option" where
  "count_float v = (case v of
       VFloat f \<Rightarrow> Some f | VInt n \<Rightarrow> Some (f64_of_int (sint n)) | VBool b \<Rightarrow> Some (f64_of_bool b)
     | VBigInt b \<Rightarrow> Some (f64_of_int b) | _ \<Rightarrow> None)"

definition count_add :: "(f64 \<Rightarrow> f64 \<Rightarrow> f64) \<Rightarrow> pyval \<Rightarrow> pyval \<Rightarrow> pyval" where
  "count_add fadd next1 step = (case (count_big next1, count_big step) of
       (Some a, Some b) \<Rightarrow> int_from_bigint (a + b)
     | _ \<Rightarrow> (case (count_float next1, count_float step) of (Some a, Some b) \<Rightarrow> VFloat (fadd a b) | _ \<Rightarrow> next1))"

definition step_iter :: "(f64 \<Rightarrow> f64 \<Rightarrow> f64) \<Rightarrow> env \<Rightarrow> builtin_iter_state \<Rightarrow> (builtin_iter_state \<times> pyval) option" where
  "step_iter fadd E st = (case st of
       Count next1 step \<Rightarrow> Some (Count (count_add fadd next1 step) step, next1)
     | Cycle items pos \<Rightarrow> (if items = [] then None else Some (Cycle items ((pos + 1) mod length items), items ! pos))
     | Repeat v \<Rightarrow> Some (st, v)
     | ListIter l index \<Rightarrow>
         (if index < length (list_at E l) then Some (ListIter l (index + 1), list_at E l ! index) else None)
     | BytearrayIter b index \<Rightarrow>
         (if index < length (bytes_at E b) then Some (BytearrayIter b (index + 1), VInt (ucast (bytes_at E b ! index)))
          else None))"

definition step_builtin_iter :: "(f64 \<Rightarrow> f64 \<Rightarrow> f64) \<Rightarrow> interp_state \<Rightarrow> u64 \<Rightarrow> interp_state \<times> pyval option" where
  "step_builtin_iter fadd s iter_id = (case builtin_iters s iter_id of
       None \<Rightarrow> (s, None)
     | Some st \<Rightarrow> (case step_iter fadd (heap_env s) st of
         None \<Rightarrow> (s, None)
       | Some (st', v) \<Rightarrow> (s\<lparr>builtin_iters := (builtin_iters s)(iter_id \<mapsto> st')\<rparr>, Some v)))"

section \<open>Reachable states\<close>

text \<open>One call of an operation of the state.\<close>

inductive state_step :: "runtime \<Rightarrow> interp_state \<Rightarrow> interp_state \<Rightarrow> bool" for R where
  enter_call: "state_step R s (fst (enter_call s))"
| exit_call: "state_step R s (exit_call s)"
| enter_expr: "state_step R s (fst (enter_expr s))"
| exit_expr: "state_step R s (exit_expr s)"
| track: "state_step R s (fst (track_allocation s n))"
| release: "state_step R s (release_allocation s n)"
| set_variable: "state_step R s (fst (set_variable R s name v))"
| delete_variable: "state_step R s (fst (delete_variable R s name))"
| append_print: "state_step R s (fst (append_print s t))"
| clear_print: "state_step R s (clear_print_buffer s)"
| reset_operations: "state_step R s (reset_operations s)"
| increment_ops: "state_step R s (fst (increment_ops elapsed shown s))"
| alloc_builtin_iter: "state_step R s (fst (alloc_builtin_iter s kind st))"
| alloc_lazy: "state_step R s (fst (alloc_lazy_kind s items lkind))"
| step_builtin_iter: "state_step R s (fst (step_builtin_iter fadd s iter_id))"

inductive_cases state_stepE: "state_step R s s'"

abbreviation reachable :: "runtime \<Rightarrow> interp_state \<Rightarrow> interp_state \<Rightarrow> bool" where
  "reachable R \<equiv> (state_step R)\<^sup>*\<^sup>*"

definition depth_ok :: "interp_state \<Rightarrow> bool" where
  "depth_ok s \<longleftrightarrow> call_depth s \<le> max_recursion_depth (config s) \<and> expr_depth s \<le> max_recursion_depth (config s) \<and>
     list_all (\<lambda>d. d \<le> max_recursion_depth (config s)) (saved_expr_depth s) \<and> length (saved_expr_depth s) = call_depth s"

definition output_ok :: "interp_state \<Rightarrow> bool" where
  "output_ok s \<longleftrightarrow> byte_len (print_buffer s) \<le> max_stdout_bytes (config s)"

text \<open>The operations that touch neither depths nor output.\<close>

definition same_limits :: "interp_state \<Rightarrow> interp_state \<Rightarrow> bool" where
  "same_limits s s' \<longleftrightarrow> call_depth s' = call_depth s \<and> expr_depth s' = expr_depth s \<and>
     saved_expr_depth s' = saved_expr_depth s \<and> config s' = config s"

lemma same_limits_depth: "same_limits s s' \<Longrightarrow> depth_ok s \<Longrightarrow> depth_ok s'"
  by (simp add: same_limits_def depth_ok_def)

lemma byte_len_append [simp]: "byte_len (s @ t) = byte_len s + byte_len t"
  by (simp add: byte_len_def)

lemma byte_len_Nil [simp]: "byte_len [] = 0"
  by (simp add: byte_len_def)

lemma write_through_fields [simp]:
  "call_depth (write_through s n v) = call_depth s" "expr_depth (write_through s n v) = expr_depth s"
  "saved_expr_depth (write_through s n v) = saved_expr_depth s" "config (write_through s n v) = config s"
  "print_buffer (write_through s n v) = print_buffer s" "memory_used_bytes (write_through s n v) = memory_used_bytes s"
  "variables (write_through s n v) = variables s"
  by (simp_all add: write_through_def split: list.split option.split)

lemma track_fields [simp]:
  "fst (track_allocation s n) = s\<lparr>memory_used_bytes := usize_add (memory_used_bytes s) n\<rparr>"
  by (simp add: track_allocation_def Let_def)

lemma append_print_fields:
  "same_limits s (fst (append_print s t)) \<and> (output_ok s \<longrightarrow> output_ok (fst (append_print s t)))"
  by (auto simp: append_print_def same_limits_def output_ok_def track_allocation_def Let_def split: list.split)

lemma step_same_limits:
  "same_limits s (fst (set_variable R s name v))" "same_limits s (fst (delete_variable R s name))"
  "same_limits s (fst (increment_ops elapsed shown s))" "same_limits s (fst (alloc_builtin_iter s kind st))"
  "same_limits s (fst (alloc_lazy_kind s items lkind))" "same_limits s (fst (step_builtin_iter fadd s iter_id))"
  "same_limits s (fst (track_allocation s n))" "same_limits s (release_allocation s n)"
  "same_limits s (clear_print_buffer s)" "same_limits s (reset_operations s)"
  by (simp_all add: same_limits_def set_variable_def delete_variable_def increment_ops_def alloc_builtin_iter_def
      alloc_lazy_kind_def step_builtin_iter_def release_allocation_def clear_print_buffer_def reset_operations_def
      Let_def split: option.split sum.split)

lemma step_same_output:
  "print_buffer (fst (set_variable R s name v)) = print_buffer s" "print_buffer (fst (delete_variable R s name)) = print_buffer s"
  "print_buffer (fst (increment_ops elapsed shown s)) = print_buffer s" "print_buffer (fst (alloc_builtin_iter s kind st)) = print_buffer s"
  "print_buffer (fst (alloc_lazy_kind s items lkind)) = print_buffer s" "print_buffer (fst (step_builtin_iter fadd s iter_id)) = print_buffer s"
  "print_buffer (fst (enter_call s)) = print_buffer s" "print_buffer (exit_call s) = print_buffer s"
  "print_buffer (fst (enter_expr s)) = print_buffer s" "print_buffer (exit_expr s) = print_buffer s"
  "config (fst (enter_call s)) = config s" "config (exit_call s) = config s"
  "config (fst (enter_expr s)) = config s" "config (exit_expr s) = config s"
  by (simp_all add: set_variable_def delete_variable_def increment_ops_def alloc_builtin_iter_def
      alloc_lazy_kind_def step_builtin_iter_def enter_call_def exit_call_def enter_expr_def exit_expr_def
      Let_def split: option.split sum.split list.split)

lemma depth_step:
  assumes "depth_ok s" "max_recursion_depth (config s) \<le> u32_max"
  shows "depth_ok (fst (enter_call s))" "depth_ok (exit_call s)" "depth_ok (fst (enter_expr s))" "depth_ok (exit_expr s)"
  using assms
  by (auto simp: depth_ok_def enter_call_def exit_call_def enter_expr_def exit_expr_def u32_succ_def Let_def split: list.split)

lemma same_limits_config: "same_limits s s' \<Longrightarrow> config s' = config s"
  by (simp add: same_limits_def)

lemma append_print_output: "output_ok s \<Longrightarrow> output_ok (fst (append_print s t))"
  using append_print_fields by blast

lemmas limit_intros = step_same_limits append_print_fields [THEN conjunct1]

lemmas config_eqs = step_same_limits [THEN same_limits_config] append_print_fields [THEN conjunct1, THEN same_limits_config]

lemma config_step: "state_step R s s' \<Longrightarrow> config s' = config s"
  by (erule state_stepE) (simp_all only: config_eqs step_same_output)

lemma output_cleared: "output_ok (clear_print_buffer s)"
  by (simp add: output_ok_def clear_print_buffer_def)

lemma output_step: "state_step R s s' \<Longrightarrow> output_ok s \<Longrightarrow> output_ok s'"
proof (erule state_stepE)
  fix t assume "s' = fst (append_print s t)" "output_ok s"
  then show "output_ok s'" by (simp add: append_print_output)
next
  assume "s' = clear_print_buffer s"
  then show "output_ok s'" by (simp add: output_cleared)
qed (simp_all add: output_ok_def step_same_output config_eqs release_allocation_def reset_operations_def)

lemma depth_state_step:
  "state_step R s s' \<Longrightarrow> depth_ok s \<Longrightarrow> max_recursion_depth (config s) \<le> u32_max \<Longrightarrow> depth_ok s'"
  by (erule state_stepE) (auto intro: depth_step same_limits_depth [of s] limit_intros simp del: track_fields)

text \<open>C11: In every state the interpreter reaches from a new one, the call depth and every expression
  depth are at most the recursion limit, there is one saved depth per active call, and the print
  buffer is no longer than its limit.\<close>

theorem limits_respected:
  assumes "reachable R (new_state E cfg) s" "max_recursion_depth cfg \<le> u32_max"
  shows "depth_ok s \<and> output_ok s \<and> config s = cfg"
  using assms(1)
proof (induction rule: rtranclp_induct)
  case base
  then show ?case by (simp add: new_state_def depth_ok_def output_ok_def)
next
  case (step s s')
  then show ?case using depth_state_step [of R s s'] output_step [of R s s'] config_step [of R s s'] assms(2) by simp
qed

theorem limits_respected_witness:
  "depth_ok (fst (enter_call (new_state empty_env default_config))) \<and>
    output_ok (fst (enter_call (new_state empty_env default_config))) \<and>
    config (fst (enter_call (new_state empty_env default_config))) = default_config"
  by (rule limits_respected [of sample_runtime empty_env])
    (auto intro: state_step.enter_call simp: default_config_def u32_max_def)

text \<open>A call that is entered and left restores the state: depth, expression depth and saved depths.\<close>

theorem call_round_trip:
  assumes "enter_call s = (s', Inr ())" "max_recursion_depth (config s) \<le> u32_max"
  shows "exit_call s' = s"
  using assms by (auto simp: enter_call_def exit_call_def u32_succ_def split: if_splits)

theorem call_round_trip_witness:
  "exit_call (fst (enter_call (new_state empty_env default_config))) = new_state empty_env default_config"
  by (rule call_round_trip) (simp_all add: enter_call_def new_state_def default_config_def u32_max_def)

section \<open>Memory accounting\<close>

text \<open>What the variables and the printed text weigh.\<close>

definition weight :: "runtime \<Rightarrow> (string \<rightharpoonup> pyval) \<Rightarrow> nat" where
  "weight R m = (\<Sum>x \<in> dom m. value_size R (the (m x)))"

definition accounted :: "runtime \<Rightarrow> interp_state \<Rightarrow> nat" where
  "accounted R s = weight R (variables s) + byte_len (print_buffer s)"

definition old_size :: "runtime \<Rightarrow> (string \<rightharpoonup> pyval) \<Rightarrow> string \<Rightarrow> nat" where
  "old_size R m x = (case m x of Some v \<Rightarrow> value_size R v | None \<Rightarrow> 0)"

lemma weight_remove:
  assumes "finite (dom m)"
  shows "weight R m = old_size R m x + weight R (m(x := None))"
proof (cases "m x")
  case None
  then show ?thesis by (simp add: old_size_def fun_upd_idem)
next
  case (Some v)
  have "weight R m = value_size R (the (m x)) + (\<Sum>y \<in> dom m - {x}. value_size R (the (m y)))"
    unfolding weight_def using sum.remove [OF assms, of x "\<lambda>y. value_size R (the (m y))"] Some by auto
  also have "(\<Sum>y \<in> dom m - {x}. value_size R (the (m y))) = weight R (m(x := None))"
    unfolding weight_def by (rule sum.cong) auto
  finally show ?thesis using Some by (simp add: old_size_def)
qed

lemma weight_insert: "finite (dom m) \<Longrightarrow> weight R (m(x \<mapsto> v)) = weight R (m(x := None)) + value_size R v"
  using weight_remove [of "m(x \<mapsto> v)" R x] by (simp add: old_size_def)

text \<open>The operations that charge and release memory.\<close>

inductive memory_step :: "runtime \<Rightarrow> interp_state \<Rightarrow> interp_state \<Rightarrow> bool" for R where
  set: "memory_step R s (fst (set_variable R s name v))"
| delete: "memory_step R s (fst (delete_variable R s name))"
| print: "stdout_redirects s = [] \<Longrightarrow> memory_step R s (fst (append_print s t))"

text \<open>\<open>slack\<close> is what the state was created with and never charged.\<close>

definition balanced :: "runtime \<Rightarrow> nat \<Rightarrow> interp_state \<Rightarrow> bool" where
  "balanced R slack s \<longleftrightarrow> finite (dom (variables s)) \<and> memory_used_bytes s \<le> accounted R s \<and>
     accounted R s \<le> memory_used_bytes s + slack"

lemma set_variable_balanced:
  assumes "balanced R slack s" "accounted R (fst (set_variable R s name v)) \<le> usize_max"
  shows "balanced R slack (fst (set_variable R s name v))"
proof -
  let ?m = "variables s" let ?o = "old_size R ?m name" let ?w = "weight R (?m(name := None))"
  have fin: "finite (dom ?m)" using assms(1) by (simp add: balanced_def)
  have w: "weight R ?m = ?o + ?w" "weight R (?m(name \<mapsto> v)) = ?w + value_size R v"
    by (rule weight_remove [OF fin], rule weight_insert [OF fin])
  have rel: "(case ?m name of Some old \<Rightarrow> memory_used_bytes s - value_size R old | None \<Rightarrow> memory_used_bytes s) =
      memory_used_bytes s - ?o"
    by (simp add: old_size_def split: option.split)
  have eqs: "variables (fst (set_variable R s name v)) = ?m(name \<mapsto> v)"
    "memory_used_bytes (fst (set_variable R s name v)) = usize_add (memory_used_bytes s - ?o) (value_size R v)"
    "print_buffer (fst (set_variable R s name v)) = print_buffer s"
    by (simp_all add: set_variable_def rel Let_def)
  show ?thesis
    using assms fin unfolding balanced_def accounted_def eqs w by (auto simp: usize_add_def)
qed

lemma delete_variable_balanced:
  assumes "balanced R slack s"
  shows "balanced R slack (fst (delete_variable R s name))"
proof -
  have "finite (dom (variables s))" using assms by (simp add: balanced_def)
  from weight_remove [OF this, of R name] show ?thesis
    using assms by (auto simp: balanced_def accounted_def delete_variable_def old_size_def split: option.splits)
qed

lemma append_print_balanced:
  assumes "balanced R slack s" "stdout_redirects s = []" "accounted R (fst (append_print s t)) \<le> usize_max"
  shows "balanced R slack (fst (append_print s t))"
  using assms
  by (auto simp: balanced_def accounted_def append_print_def usize_add_def Let_def split: if_splits)

text \<open>C12: Through any sequence of assignments, deletions and prints, the memory in use is the weight of the
  variables and of the printed text, up to the weight of the initial \<open>__name__\<close>, which a new state
  holds without having charged it, and as long as the total fits a \<open>usize\<close>.\<close>

theorem memory_accounting:
  assumes "(\<lambda>s s'. memory_step R s s' \<and> accounted R s' \<le> usize_max)\<^sup>*\<^sup>* (new_state E cfg) s"
  shows "memory_used_bytes s \<le> accounted R s \<and> accounted R s \<le> memory_used_bytes s + value_size R main_value"
proof -
  have "balanced R (value_size R main_value) s"
    using assms
  proof (induction rule: rtranclp_induct)
    case base
    then show ?case by (simp add: balanced_def accounted_def weight_def new_state_def)
  next
    case (step s s')
    then have "memory_step R s s'" "accounted R s' \<le> usize_max" by auto
    then show ?case
      using step.IH set_variable_balanced delete_variable_balanced append_print_balanced by cases auto
  qed
  then show ?thesis by (simp add: balanced_def)
qed

theorem memory_accounting_witness:
  "memory_used_bytes (fst (set_variable sample_runtime (new_state empty_env default_config) ''x'' VNone)) \<le>
      accounted sample_runtime (fst (set_variable sample_runtime (new_state empty_env default_config) ''x'' VNone)) \<and>
    accounted sample_runtime (fst (set_variable sample_runtime (new_state empty_env default_config) ''x'' VNone)) \<le>
      memory_used_bytes (fst (set_variable sample_runtime (new_state empty_env default_config) ''x'' VNone)) +
      value_size sample_runtime main_value"
proof (rule memory_accounting [of _ empty_env default_config], rule r_into_rtranclp, rule conjI)
  show "memory_step sample_runtime (new_state empty_env default_config)
      (fst (set_variable sample_runtime (new_state empty_env default_config) ''x'' VNone))"
    by (rule memory_step.set)
  show "accounted sample_runtime (fst (set_variable sample_runtime (new_state empty_env default_config) ''x'' VNone)) \<le> usize_max"
    by (simp add: set_variable_def new_state_def accounted_def weight_def write_through_def sample_runtime_def usize_max_def Let_def)
qed

text \<open>Assigning a variable binds it and writes through to the cell of the frame that owns it even when
  the call reports that the memory limit is exceeded, which it does exactly when the memory in use is
  over the limit afterwards.\<close>

theorem set_variable_binds:
  "get_variable (fst (set_variable R s name v)) name = Some v \<and>
    (\<forall>other. other \<noteq> name \<longrightarrow> get_variable (fst (set_variable R s name v)) other = get_variable s other) \<and>
    (\<forall>owners rest cell. frame_cell_owners s = owners # rest \<longrightarrow> owners name = Some cell \<longrightarrow>
      (\<exists>c. nonlocal_cells (fst (set_variable R s name v)) cell = Some c \<and> c name = Some v)) \<and>
    (snd (set_variable R s name v) = Inr () \<longleftrightarrow>
      memory_used_bytes (fst (set_variable R s name v)) \<le> min (max_memory_bytes (config s)) usize_max)"
  by (auto simp: set_variable_def get_variable_def check_memory_def write_through_def Let_def split: list.split option.split)

theorem set_variable_binds_witness:
  "get_variable (fst (set_variable sample_runtime (new_state empty_env (default_config\<lparr>max_memory_bytes := 0\<rparr>)) ''x'' VNone)) ''x'' =
      Some VNone \<and>
    snd (set_variable sample_runtime (new_state empty_env (default_config\<lparr>max_memory_bytes := 0\<rparr>)) ''x'' VNone) \<noteq> Inr ()"
  using set_variable_binds [of sample_runtime "new_state empty_env (default_config\<lparr>max_memory_bytes := 0\<rparr>)" "''x''" VNone]
  by (simp add: set_variable_def new_state_def sample_runtime_def usize_add_def usize_max_def write_through_def Let_def)

text \<open>Clearing the print buffer between two executions keeps the bytes it charged: each execution that
  prints raises the memory in use for good.\<close>

theorem print_charge_kept:
  assumes "stdout_redirects s = []" "snd (append_print s t) = Inr ()"
  shows "print_buffer (clear_print_buffer (fst (append_print s t))) = [] \<and>
    memory_used_bytes (clear_print_buffer (fst (append_print s t))) = min usize_max (memory_used_bytes s + byte_len t)"
  using assms by (auto simp: append_print_def clear_print_buffer_def usize_add_def Let_def split: if_splits)

theorem print_charge_kept_witness:
  "memory_used_bytes (clear_print_buffer (fst (append_print (new_state empty_env default_config) [104, 105]))) = 2"
proof -
  have "snd (append_print (new_state empty_env default_config) [104, 105]) = Inr ()"
    by (simp add: append_print_def new_state_def track_allocation_def default_config_def byte_len_def utf8_len_def
        usize_add_def usize_max_def Let_def)
  then show ?thesis
    using print_charge_kept [of "new_state empty_env default_config" "[104, 105]"]
    by (simp add: new_state_def byte_len_def utf8_len_def usize_max_def)
qed

section \<open>Iterators\<close>

text \<open>The identifiers given out so far are below the next one.\<close>

definition cursors_ok :: "interp_state \<Rightarrow> bool" where
  "cursors_ok s \<longleftrightarrow> (\<forall>c \<in> dom (lazy_cursors s). c < next_cursor_id s)"

text \<open>A lazy iterator gets a cursor of its own, at the start, until \<open>2^64 - 1\<close> of them have been made.\<close>

theorem lazy_cursor_fresh:
  assumes "cursors_ok s" "next_cursor_id s \<noteq> - 1" "alloc_lazy_kind s items kind = (s', VLazy items c k)"
  shows "lazy_cursors s c = None \<and> lazy_cursors s' c = Some 0 \<and> cursors_ok s'"
proof -
  have s': "c = next_cursor_id s" "s' = s\<lparr>next_cursor_id := c + 1, lazy_cursors := (lazy_cursors s)(c \<mapsto> 0)\<rparr>"
    using assms(3) by (auto simp: alloc_lazy_kind_def Let_def)
  have "c + 1 \<noteq> 0" using assms(2) s'(1) max_word_wrap by blast
  then have "unat (c + 1) = Suc (unat c)" using unatSuc [of c] by (simp add: add.commute)
  then have next1: "d < c + 1 \<longleftrightarrow> d < c \<or> d = c" for d
    by (auto simp: word_less_nat_alt less_Suc_eq word_unat_eq_iff)
  then show ?thesis using assms(1) s' by (auto simp: cursors_ok_def)
qed

theorem lazy_cursor_fresh_witness:
  "lazy_cursors (fst (alloc_lazy_kind (new_state empty_env default_config) [VNone] Generator)) 0 = Some 0"
  using lazy_cursor_fresh [of "new_state empty_env default_config" "[VNone]" Generator
      "fst (alloc_lazy_kind (new_state empty_env default_config) [VNone] Generator)" 0 Generator]
  by (simp add: cursors_ok_def new_state_def alloc_lazy_kind_def)

section \<open>The operation limit\<close>

text \<open>The calls between two operations: every step of the state but \<open>increment_ops\<close> and
  \<open>reset_operations\<close>.\<close>

inductive quiet_step :: "runtime \<Rightarrow> interp_state \<Rightarrow> interp_state \<Rightarrow> bool" for R where
  "quiet_step R s (fst (enter_call s))"
| "quiet_step R s (exit_call s)"
| "quiet_step R s (fst (enter_expr s))"
| "quiet_step R s (exit_expr s)"
| "quiet_step R s (fst (track_allocation s n))"
| "quiet_step R s (release_allocation s n)"
| "quiet_step R s (fst (set_variable R s name v))"
| "quiet_step R s (fst (delete_variable R s name))"
| "quiet_step R s (fst (append_print s t))"
| "quiet_step R s (clear_print_buffer s)"
| "quiet_step R s (fst (alloc_builtin_iter s kind st))"
| "quiet_step R s (fst (alloc_lazy_kind s items lkind))"
| "quiet_step R s (fst (step_builtin_iter fadd s iter_id))"

inductive_cases quiet_stepE: "quiet_step R s s'"

text \<open>\<open>ops_run R k s s'\<close>: a run from \<open>s\<close> to \<open>s'\<close> that performs \<open>k\<close> operations, whether they
  succeed or fail (an \<open>except\<close> clause may catch the error of the limit), with any other calls in between.\<close>

inductive ops_run :: "runtime \<Rightarrow> nat \<Rightarrow> interp_state \<Rightarrow> interp_state \<Rightarrow> bool" for R where
  start: "ops_run R 0 s s"
| operation: "ops_run R k s s1 \<Longrightarrow> ops_run R (Suc k) s (fst (increment_ops elapsed shown s1))"
| quiet: "ops_run R k s s1 \<Longrightarrow> quiet_step R s1 s2 \<Longrightarrow> ops_run R k s s2"

lemma state_step_iff:
  "state_step R s s' \<longleftrightarrow>
     quiet_step R s s' \<or> s' = reset_operations s \<or> (\<exists>elapsed shown. s' = fst (increment_ops elapsed shown s))"
  by (auto elim!: state_stepE quiet_stepE
      intro: state_step.intros quiet_step.intros state_step.track [simplified] quiet_step.intros(5) [simplified])

lemma quiet_step_counter:
  assumes "quiet_step R s s'"
  shows "operations_count s' = operations_count s \<and> config s' = config s"
  using assms
  by (rule quiet_stepE)
    (simp_all add: enter_call_def exit_call_def enter_expr_def exit_expr_def release_allocation_def set_variable_def
      delete_variable_def append_print_def clear_print_buffer_def alloc_builtin_iter_def alloc_lazy_kind_def
      step_builtin_iter_def track_allocation_def write_through_def Let_def split: option.split sum.split list.split)

lemma increment_ops_state:
  "fst (increment_ops elapsed shown s) = s\<lparr>operations_count := (operations_count s + 1) mod 2 ^ 64\<rparr>"
  by (simp add: increment_ops_def Let_def split: sum.split option.split)

lemma ops_run_counter:
  assumes "ops_run R k s s'"
  shows "operations_count s' mod 2 ^ 64 = (operations_count s + k) mod 2 ^ 64 \<and> config s' = config s"
  using assms
proof (induction rule: ops_run.induct)
  case (operation k s s1 elapsed shown)
  then show ?case by (simp add: increment_ops_state mod_simps) (metis mod_Suc_eq)
next
  case (quiet k s s1 s2)
  then show ?case using quiet_step_counter [OF quiet(2)] by simp
qed simp

text \<open>C13: The operation limit holds over a whole run.  Reset the counter and run any program that has performed
  \<open>k\<close> operations (fewer than \<open>2^64 - 1\<close>, so that the \<open>u64\<close> counter has not wrapped), successful or caught
  failures, with any other calls of the state in between: the next operation fails with the message of the limit when
  it is the \<open>max_operations\<close>-th or a later one; before that it fails exactly when its number is a multiple of 100
  and the memory or the time of the run exceeds its limit.  So no run gets past the limit by catching its error.\<close>

theorem operation_limit_exact:
  assumes "ops_run R k (reset_operations s) s'" "k + 1 < 2 ^ 64"
  shows "snd (increment_ops elapsed shown s') =
    (if max_operations (config s) \<le> k + 1 then
       Inl (LimitExceeded (''exceeded maximum of '' @ nat_digits (max_operations (config s)) @ '' operations''))
     else if 100 dvd k + 1 then
       (case check_memory s' of
          Inl e \<Rightarrow> Inl e
        | Inr _ \<Rightarrow> (case max_execution_time (config s) of
            Some max_time \<Rightarrow>
              if max_time < elapsed then Inl (LimitExceeded (''execution time exceeded '' @ shown)) else Inr ()
          | None \<Rightarrow> Inr ()))
     else Inr ())"
proof -
  have c: "operations_count s' mod 2 ^ 64 = k" "config s' = config s"
    using ops_run_counter [OF assms(1)] assms(2) by (simp_all add: reset_operations_def)
  then have "(operations_count s' + 1) mod 2 ^ 64 = k + 1"
    using assms(2) by (metis mod_Suc_eq mod_less Suc_eq_plus1)
  moreover have "check_memory (s'\<lparr>operations_count := n\<rparr>) = check_memory s'" for n
    by (simp add: check_memory_def memory_error_def)
  ultimately show ?thesis
    using c(2) by (simp add: increment_ops_def Let_def dvd_eq_mod_eq_0 split: sum.split option.split)
qed

definition one_operation_left :: interp_state where
  "one_operation_left = reset_operations (new_state empty_env (default_config\<lparr>max_operations := 2\<rparr>))"

theorem operation_limit_exact_witness:
  "snd (increment_ops 0 [] one_operation_left) = Inr () \<and>
   snd (increment_ops 0 [] (fst (increment_ops 0 [] one_operation_left))) =
     Inl (LimitExceeded (''exceeded maximum of '' @ nat_digits 2 @ '' operations''))"
proof -
  have "ops_run R 0 one_operation_left one_operation_left"
    "ops_run R 1 one_operation_left (fst (increment_ops 0 [] one_operation_left))" for R
    using ops_run.start ops_run.operation [OF ops_run.start] by simp_all
  from this [THEN operation_limit_exact [of _ _ "new_state empty_env (default_config\<lparr>max_operations := 2\<rparr>)",
        folded one_operation_left_def], of 0 "[]"]
  show ?thesis by (simp add: new_state_def)
qed

end
