(* ===== verification/Arithmetic.thy ===== *)
theory Arithmetic
  imports State
begin

unbundle bit_operations_syntax

text \<open>
  Operators (\<open>eval/operations.rs\<close>, and the arithmetic slots of \<open>types.rs\<close>): integers with their fast
  path in \<open>i64\<close>, concatenation and repetition with their limits, bitwise and unary operators,
  comparison and identity.

  Floating-point operations, formatting with \<open>%\<close> and the slots of complex numbers, dates, decimals
  and fractions are fields of a record.  An operation that makes a list, a set or a byte array
  takes the address for it.
\<close>

section \<open>What arithmetic needs of the rest\<close>

datatype bin_op = Add | Sub | Mul | Div | FloorDiv | Mod | Pow

datatype unary_op = UAdd | USub | UNot | Invert

definition bin_symbol :: "bin_op \<Rightarrow> string" where
  "bin_symbol op1 = (case op1 of
     Add \<Rightarrow> ''+'' | Sub \<Rightarrow> ''-'' | Mul \<Rightarrow> ''*'' | Div \<Rightarrow> ''/'' | FloorDiv \<Rightarrow> ''//'' | Mod \<Rightarrow> ''%'' | Pow \<Rightarrow> ''**'')"

record arith =
  f_add :: "f64 \<Rightarrow> f64 \<Rightarrow> f64"
  f_sub :: "f64 \<Rightarrow> f64 \<Rightarrow> f64"
  f_mul :: "f64 \<Rightarrow> f64 \<Rightarrow> f64"
  f_div :: "f64 \<Rightarrow> f64 \<Rightarrow> f64"
  f_floor :: "f64 \<Rightarrow> f64"
  f_mul_add :: "f64 \<Rightarrow> f64 \<Rightarrow> f64 \<Rightarrow> f64"
  f_pow :: "f64 \<Rightarrow> f64 \<Rightarrow> f64"
  complex_pow :: "f64 \<Rightarrow> f64 \<Rightarrow> f64 \<times> f64"
  overflow_text :: string
  percent_format :: "env \<Rightarrow> addr \<Rightarrow> pyval \<Rightarrow> pyval \<Rightarrow> (env \<times> pyval) eval_result"
  other_arith :: "bin_op \<Rightarrow> env \<Rightarrow> addr \<Rightarrow> pyval \<Rightarrow> pyval \<Rightarrow> (env \<times> pyval) eval_result option"
  neg_decimal :: "pyval \<Rightarrow> pyval"

definition MAX_STRING_SIZE :: nat where
  "MAX_STRING_SIZE = 100 * 1024 * 1024"

definition fresh_list :: "env \<Rightarrow> addr \<Rightarrow> pyval list \<Rightarrow> env \<times> pyval" where
  "fresh_list E a xs = (set_list E a xs, VList a)"

definition fresh_bytes :: "env \<Rightarrow> addr \<Rightarrow> u8 list \<Rightarrow> env \<times> pyval" where
  "fresh_bytes E a bs = (set_bytes E a bs, VByteArray a)"

definition set_set :: "env \<Rightarrow> addr \<Rightarrow> pyval set_body \<Rightarrow> env" where
  "set_set E a b = E\<lparr>set_at := (set_at E)(a := b)\<rparr>"

section \<open>Operands\<close>

definition type_error :: "string \<Rightarrow> eval_error" where
  "type_error m = Interpreter (TypeError m)"

definition overflow_error :: "string \<Rightarrow> eval_error" where
  "overflow_error m = Exception (exception_new ''OverflowError'' m)"

definition to_float :: "pyval \<Rightarrow> f64 eval_result" where
  "to_float v = (case v of
       VInt i \<Rightarrow> Inr (f64_of_int (sint i))
     | VBigInt b \<Rightarrow> Inr (f64_of_int b)
     | VFloat f \<Rightarrow> Inr f
     | VBool b \<Rightarrow> Inr (f64_of_bool b)
     | _ \<Rightarrow> Inl (type_error (''unsupported operand type for numeric operation: '' @ [CHR 39] @ type_name v @ [CHR 39])))"

definition integer_type_error :: "pyval \<Rightarrow> eval_error" where
  "integer_type_error v =
     type_error (''unsupported operand type for integer operation: '' @ [CHR 39] @ type_name v @ [CHR 39])"

definition to_int :: "pyval \<Rightarrow> i64 eval_result" where
  "to_int v = (case value_as_i64 v of
       Some i \<Rightarrow> Inr i
     | None \<Rightarrow> (case v of
         VBigInt b \<Rightarrow> Inl (overflow_error ''Python int too large to convert to C long'')
       | _ \<Rightarrow> Inl (integer_type_error v)))"

definition unsupported :: "string \<Rightarrow> string \<Rightarrow> string \<Rightarrow> eval_error" where
  "unsupported symbol l r = type_error (''unsupported operand type(s) for '' @ symbol @ '': '' @ [CHR 39] @ l @ [CHR 39] @
     '' and '' @ [CHR 39] @ r @ [CHR 39])"

definition require_int_operands :: "string \<Rightarrow> pyval \<Rightarrow> pyval \<Rightarrow> unit eval_result" where
  "require_int_operands symbol l r =
     (if value_as_bigint l = None \<or> value_as_bigint r = None
      then Inl (unsupported symbol (type_name l) (type_name r)) else Inr ())"

definition to_bigint :: "pyval \<Rightarrow> int eval_result" where
  "to_bigint v = (case value_as_bigint v of Some n \<Rightarrow> Inr n | None \<Rightarrow> Inl (integer_type_error v))"

definition either_is_float :: "pyval \<Rightarrow> pyval \<Rightarrow> bool" where
  "either_is_float l r \<longleftrightarrow> (case l of VFloat f \<Rightarrow> True | _ \<Rightarrow> False) \<or> (case r of VFloat f \<Rightarrow> True | _ \<Rightarrow> False)"

text \<open>\<open>int_add\<close>, \<open>int_sub\<close> and \<open>int_mul\<close>: a checked operation on \<open>i64\<close>, else arbitrary precision.\<close>

definition int_checked :: "(int \<Rightarrow> int \<Rightarrow> int) \<Rightarrow> pyval \<Rightarrow> pyval \<Rightarrow> pyval eval_result" where
  "int_checked f l r =
     (let big = result_bind (to_bigint l) (\<lambda>a. result_bind (to_bigint r) (\<lambda>b. Inr (int_from_bigint (f a b)))) in
      case (l, r) of
        (VInt a, VInt b) \<Rightarrow> (case checked_i64 (f (sint a) (sint b)) of Some v \<Rightarrow> Inr (VInt v) | None \<Rightarrow> big)
      | _ \<Rightarrow> big)"

definition int_add :: "pyval \<Rightarrow> pyval \<Rightarrow> pyval eval_result" where "int_add = int_checked (+)"
definition int_sub :: "pyval \<Rightarrow> pyval \<Rightarrow> pyval eval_result" where "int_sub = int_checked (-)"
definition int_mul :: "pyval \<Rightarrow> pyval \<Rightarrow> pyval eval_result" where "int_mul = int_checked (*)"

text \<open>A result that allocates nothing.\<close>

definition pure_result :: "env \<Rightarrow> pyval eval_result \<Rightarrow> (env \<times> pyval) eval_result" where
  "pure_result E r = result_bind r (\<lambda>v. Inr (E, v))"

definition float_result :: "env \<Rightarrow> (f64 \<Rightarrow> f64 \<Rightarrow> f64) \<Rightarrow> pyval \<Rightarrow> pyval \<Rightarrow> (env \<times> pyval) eval_result" where
  "float_result E f l r = result_bind (to_float l) (\<lambda>a. result_bind (to_float r) (\<lambda>b. Inr (E, VFloat (f a b))))"

section \<open>Addition and subtraction\<close>

definition add_values_op :: "arith \<Rightarrow> env \<Rightarrow> addr \<Rightarrow> pyval \<Rightarrow> pyval \<Rightarrow> (env \<times> pyval) eval_result" where
  "add_values_op A E fresh l r =
     (let numeric = (if either_is_float l r then float_result E (f_add A) l r else pure_result E (int_add l r)) in
      case l of
        VString a \<Rightarrow> (case r of VString b \<Rightarrow> Inr (E, VString (a @ b)) | _ \<Rightarrow> numeric)
      | VBytes a \<Rightarrow> (case r of
            VBytes b \<Rightarrow> Inr (E, VBytes (a @ b)) | VByteArray b \<Rightarrow> Inr (E, VBytes (a @ bytes_at E b)) | _ \<Rightarrow> numeric)
      | VByteArray a \<Rightarrow> (case r of
            VBytes b \<Rightarrow> Inr (fresh_bytes E fresh (bytes_at E a @ b))
          | VByteArray b \<Rightarrow> Inr (fresh_bytes E fresh (bytes_at E a @ bytes_at E b))
          | _ \<Rightarrow> numeric)
      | VList a \<Rightarrow> (case r of VList b \<Rightarrow> Inr (fresh_list E fresh (list_at E a @ list_at E b)) | _ \<Rightarrow> numeric)
      | VTuple a \<Rightarrow> (case r of VTuple b \<Rightarrow> Inr (E, VTuple (a @ b)) | _ \<Rightarrow> numeric)
      | _ \<Rightarrow> numeric)"

definition set_like_body :: "env \<Rightarrow> pyval \<Rightarrow> pyval set_body option" where
  "set_like_body E v = (case v of VSet s \<Rightarrow> Some (set_at E s) | VFrozenset f \<Rightarrow> Some f | _ \<Rightarrow> None)"

definition wrap_set_body :: "env \<Rightarrow> addr \<Rightarrow> pyval \<Rightarrow> pyval set_body \<Rightarrow> env \<times> pyval" where
  "wrap_set_body E fresh l b = (case l of
       VFrozenset f \<Rightarrow> (E, VFrozenset b) | _ \<Rightarrow> (set_set E fresh b, VSet fresh))"

text \<open>An operation on two sets; the inner \<open>None\<close> is a probe loop that does not return, which the set theories
  exclude for the tables the interpreter builds.\<close>

definition set_operation ::
  "(pyval set_body \<Rightarrow> pyval set_body \<Rightarrow> pyval set_body option) \<Rightarrow> env \<Rightarrow> addr \<Rightarrow> pyval \<Rightarrow> pyval \<Rightarrow>
   (env \<times> pyval) run option" where
  "set_operation f E fresh l r = (case (set_like_body E l, set_like_body E r) of
       (Some a, Some b) \<Rightarrow> Some (map_option (\<lambda>s. Inr (wrap_set_body E fresh l s)) (f a b))
     | _ \<Rightarrow> None)"

abbreviation py_hash :: "env \<Rightarrow> pyval \<Rightarrow> i64 option" where
  "py_hash E \<equiv> python_hash (siphash13 E)"

definition sub_values :: "arith \<Rightarrow> env \<Rightarrow> addr \<Rightarrow> pyval \<Rightarrow> pyval \<Rightarrow> (env \<times> pyval) run" where
  "sub_values A E fresh l r = (case set_operation (difference_with (recurse_eq E) (py_hash E)) E fresh l r of
       Some res \<Rightarrow> res
     | None \<Rightarrow> Some (if either_is_float l r then float_result E (f_sub A) l r else pure_result E (int_sub l r)))"

section \<open>Multiplication and repetition\<close>

definition repeat_count :: "i64 \<Rightarrow> nat" where
  "repeat_count n = (if sint n < 0 then usize_max else nat (sint n))"

text \<open>The arms of \<open>mult_values\<close> that repeat a sequence of \<open>len\<close> bytes or elements.\<close>

definition repeat_seq :: "string \<Rightarrow> string \<Rightarrow> nat \<Rightarrow> nat \<Rightarrow> 'a list \<Rightarrow> i64 \<Rightarrow> 'a list eval_result" where
  "repeat_seq kind unit_name limit len xs n =
     (if sint n \<le> 0 then Inr []
      else let result_size = min usize_max (len * repeat_count n) in
        if limit < result_size then
          Inl (Interpreter (LimitExceeded (kind @ '' repetition would create '' @ nat_digits result_size @ '' '' @ unit_name @
            '' (limit: '' @ nat_digits limit @ '')'')))
        else Inr (concat (replicate (repeat_count n) xs)))"

definition repeat_str :: "pystr \<Rightarrow> i64 \<Rightarrow> pystr eval_result" where
  "repeat_str s n = repeat_seq ''string'' ''bytes'' MAX_STRING_SIZE (byte_len s) s n"

definition repeat_bytes :: "u8 list \<Rightarrow> i64 \<Rightarrow> u8 list eval_result" where
  "repeat_bytes b n = repeat_seq ''bytes'' ''bytes'' MAX_STRING_SIZE (length b) b n"

definition repeat_items :: "string \<Rightarrow> pyval list \<Rightarrow> i64 \<Rightarrow> pyval list eval_result" where
  "repeat_items kind xs n = repeat_seq kind ''elements'' MAX_COLLECTION_SIZE (length xs) xs n"

definition small_int :: "pyval \<Rightarrow> i64 option" where
  "small_int v = (case v of VInt i \<Rightarrow> Some i | VBool b \<Rightarrow> Some (if b then 1 else 0) | _ \<Rightarrow> None)"

definition is_seq :: "pyval \<Rightarrow> bool" where
  "is_seq v = (case v of
     VString s \<Rightarrow> True | VList a \<Rightarrow> True | VTuple t \<Rightarrow> True | VBytes b \<Rightarrow> True | VByteArray b \<Rightarrow> True | _ \<Rightarrow> False)"

definition is_int :: "pyval \<Rightarrow> bool" where
  "is_int v = (case v of VInt i \<Rightarrow> True | VBool b \<Rightarrow> True | VBigInt n \<Rightarrow> True | _ \<Rightarrow> False)"

definition repeat_error :: "string \<Rightarrow> eval_error" where
  "repeat_error tname = type_error (''can'' @ [CHR 39] @ ''t multiply sequence by non-int of type '' @ [CHR 39] @ tname @ [CHR 39])"

definition mult_numbers :: "arith \<Rightarrow> env \<Rightarrow> pyval \<Rightarrow> pyval \<Rightarrow> (env \<times> pyval) eval_result" where
  "mult_numbers A E l r =
     (if is_seq l \<and> \<not> is_int r then Inl (repeat_error (type_name r))
      else if is_seq r \<and> \<not> is_int l then Inl (repeat_error (type_name l))
      else if either_is_float l r then float_result E (f_mul A) l r else pure_result E (int_mul l r))"

definition mult_values :: "arith \<Rightarrow> env \<Rightarrow> addr \<Rightarrow> pyval \<Rightarrow> pyval \<Rightarrow> (env \<times> pyval) eval_result" where
  "mult_values A E fresh l r = (case (small_int l, small_int r) of
       (None, Some n) \<Rightarrow> (case l of
           VString s \<Rightarrow> result_bind (repeat_str s n) (\<lambda>t. Inr (E, VString t))
         | VBytes b \<Rightarrow> result_bind (repeat_bytes b n) (\<lambda>t. Inr (E, VBytes t))
         | VByteArray b \<Rightarrow> result_bind (repeat_bytes (bytes_at E b) n) (\<lambda>t. Inr (fresh_bytes E fresh t))
         | VList a \<Rightarrow> result_bind (repeat_items ''list'' (list_at E a) n) (\<lambda>t. Inr (fresh_list E fresh t))
         | VTuple xs \<Rightarrow> result_bind (repeat_items ''tuple'' xs n) (\<lambda>t. Inr (E, VTuple t))
         | _ \<Rightarrow> mult_numbers A E l r)
     | (Some n, None) \<Rightarrow> (case r of
           VString s \<Rightarrow> result_bind (repeat_str s n) (\<lambda>t. Inr (E, VString t))
         | VBytes b \<Rightarrow> result_bind (repeat_bytes b n) (\<lambda>t. Inr (E, VBytes t))
         | VList a \<Rightarrow> result_bind (repeat_items ''list'' (list_at E a) n) (\<lambda>t. Inr (fresh_list E fresh t))
         | _ \<Rightarrow> mult_numbers A E l r)
     | _ \<Rightarrow> mult_numbers A E l r)"

section \<open>Division\<close>

definition zero_division :: "string \<Rightarrow> eval_error" where
  "zero_division m = Exception (zero_division_error m)"

definition div_values :: "arith \<Rightarrow> env \<Rightarrow> pyval \<Rightarrow> pyval \<Rightarrow> (env \<times> pyval) eval_result" where
  "div_values A E l r = result_bind (to_float l) (\<lambda>a. result_bind (to_float r) (\<lambda>b.
     if f64_eq b 0 then Inl (zero_division (if either_is_float l r then ''float division by zero'' else ''division by zero''))
     else Inr (E, VFloat (f_div A a b))))"

text \<open>\<open>/\<close> and \<open>%\<close> of \<open>i64\<close> truncate; the sign of a word is its top bit.\<close>

definition python_floordiv :: "i64 \<Rightarrow> i64 \<Rightarrow> i64" where
  "python_floordiv a b =
     (let d = word_of_int (sint a sdiv sint b); r = word_of_int (sint a smod sint b) in
      if r \<noteq> 0 \<and> sint (r XOR b) < 0 then d - 1 else d)"

definition python_mod :: "i64 \<Rightarrow> i64 \<Rightarrow> i64" where
  "python_mod a b =
     (let r = word_of_int (sint a smod sint b) in if r \<noteq> 0 \<and> sint (r XOR b) < 0 then r + b else r)"

text \<open>The integer branch of \<open>floordiv_values\<close> and \<open>mod_values\<close>: the fast path, its one overflow, and the rest.\<close>

definition int_divide :: "(i64 \<Rightarrow> i64 \<Rightarrow> i64) \<Rightarrow> (int \<Rightarrow> int \<Rightarrow> int) \<Rightarrow> string \<Rightarrow> pyval \<Rightarrow> pyval \<Rightarrow> pyval eval_result" where
  "int_divide fast big msg l r =
     (let slow = result_bind (to_bigint l) (\<lambda>a. result_bind (to_bigint r) (\<lambda>b.
            if b = 0 then Inl (zero_division msg) else Inr (int_from_bigint (big a b)))) in
      case (l, r) of
        (VInt a, VInt b) \<Rightarrow>
          if b = 0 then Inl (zero_division msg)
          else if \<not> (sint a = i64_min \<and> b = - 1) then Inr (VInt (fast a b))
          else slow
      | _ \<Rightarrow> slow)"

definition floordiv_values :: "arith \<Rightarrow> env \<Rightarrow> pyval \<Rightarrow> pyval \<Rightarrow> (env \<times> pyval) eval_result" where
  "floordiv_values A E l r =
     (if either_is_float l r then result_bind (to_float l) (\<lambda>a. result_bind (to_float r) (\<lambda>b.
        if f64_eq b 0 then Inl (zero_division ''float floor division by zero'')
        else Inr (E, VFloat (f_floor A (f_div A a b)))))
      else pure_result E (int_divide python_floordiv (div) ''integer division or modulo by zero'' l r))"

definition f64_neg :: "f64 \<Rightarrow> f64" where
  "f64_neg f = f XOR push_bit 63 1"

definition mod_values :: "arith \<Rightarrow> env \<Rightarrow> addr \<Rightarrow> pyval \<Rightarrow> pyval \<Rightarrow> (env \<times> pyval) eval_result" where
  "mod_values A E fresh l r =
     (if (case l of VString s \<Rightarrow> True | VBytes b \<Rightarrow> True | VByteArray b \<Rightarrow> True | _ \<Rightarrow> False)
      then percent_format A E fresh l r
      else if either_is_float l r then result_bind (to_float l) (\<lambda>a. result_bind (to_float r) (\<lambda>b.
        if f64_eq b 0 then Inl (zero_division ''float modulo'')
        else Inr (E, VFloat (f_mul_add A b (f64_neg (f_floor A (f_div A a b))) a))))
      else pure_result E (int_divide python_mod (mod) ''integer modulo by zero'' l r))"

section \<open>Powers and shifts\<close>

abbreviation int_bits :: "int \<Rightarrow> nat" where
  "int_bits n \<equiv> bit_length (nat \<bar>n\<bar>)"

definition int_from_bigint_limited :: "int \<Rightarrow> nat \<Rightarrow> pyval eval_result" where
  "int_from_bigint_limited n max_bits =
     (if max_bits < int_bits n then
        Inl (overflow_error (''int exceeds max_int_bits limit ('' @ nat_digits max_bits @ '' bits)''))
      else Inr (int_from_bigint n))"

definition float_pow :: "arith \<Rightarrow> f64 \<Rightarrow> f64 \<Rightarrow> pyval eval_result" where
  "float_pow A l r =
     (if f64_eq l 0 \<and> f64_lt r 0 then Inl (zero_division ''0.0 cannot be raised to a negative power'')
      else if f64_lt l 0 \<and> \<not> (is_finite r \<and> f64_integral r) then (case complex_pow A l r of (re, im) \<Rightarrow> Inr (VComplex re im))
      else let result = f_pow A l r in
        if is_infinite result \<and> is_finite l \<and> is_finite r
        then Inl (overflow_error (''(34, '' @ [CHR 39] @ overflow_text A @ [CHR 39] @ '')''))
        else Inr (VFloat result))"

definition int_pow :: "arith \<Rightarrow> nat \<Rightarrow> int \<Rightarrow> int \<Rightarrow> pyval eval_result" where
  "int_pow A max_bits l r =
     (if r < 0 then
        (if l = 0 then Inl (zero_division ''0.0 cannot be raised to a negative power'')
         else Inr (VFloat (f_pow A (f64_of_int l) (f64_of_int r))))
      else if r = 0 then Inr (VInt 1)
      else if 2 ^ 32 \<le> r \<or> 1000000 < r then Inl (overflow_error ''exponent too large for integer power'')
      else if 2 \<le> int_bits l \<and> max_bits \<le> min (2 ^ 64 - 1) ((int_bits l - 1) * nat r)
      then Inl (overflow_error ''integer power result too large to represent'')
      else int_from_bigint_limited (l ^ nat r) max_bits)"

definition pow_values :: "arith \<Rightarrow> pyval \<Rightarrow> pyval \<Rightarrow> nat \<Rightarrow> pyval eval_result" where
  "pow_values A l r max_bits =
     (if either_is_float l r then result_bind (to_float l) (\<lambda>a. result_bind (to_float r) (float_pow A a))
      else (case (value_as_bigint l, value_as_bigint r) of
        (Some a, Some b) \<Rightarrow> int_pow A max_bits a b
      | _ \<Rightarrow> Inl (unsupported ''**'' (type_name l) (type_name r))))"

definition shift_count :: "int \<Rightarrow> nat eval_result" where
  "shift_count r =
     (if r < 0 then Inl (Interpreter (ValueError ''negative shift count''))
      else if 2 ^ 32 \<le> r then Inl (overflow_error ''shift count too large'')
      else Inr (nat r))"

definition lshift_values :: "pyval \<Rightarrow> pyval \<Rightarrow> nat \<Rightarrow> pyval eval_result" where
  "lshift_values l r max_bits =
     result_bind (require_int_operands ''<<'' l r) (\<lambda>_. result_bind (to_bigint l) (\<lambda>a. result_bind (to_bigint r) (\<lambda>b.
       result_bind (shift_count b) (\<lambda>shift.
         if 1000000 < shift then Inl (overflow_error ''shift count too large'')
         else int_from_bigint_limited (push_bit shift a) max_bits))))"

definition rshift_values :: "pyval \<Rightarrow> pyval \<Rightarrow> nat \<Rightarrow> pyval eval_result" where
  "rshift_values l r max_bits =
     result_bind (require_int_operands ''>>'' l r) (\<lambda>_. result_bind (to_bigint l) (\<lambda>a. result_bind (to_bigint r) (\<lambda>b.
       result_bind (shift_count b) (\<lambda>shift. int_from_bigint_limited (drop_bit shift a) max_bits))))"

section \<open>Bitwise operators\<close>

definition counter_int :: "pyval \<Rightarrow> i64" where
  "counter_int v = (case v of VInt n \<Rightarrow> n | VBool b \<Rightarrow> (if b then 1 else 0) | _ \<Rightarrow> 0)"

primrec keep_positive :: "env \<Rightarrow> (value_key \<times> i64) list \<Rightarrow> (value_key \<times> pyval) list \<Rightarrow> (value_key \<times> pyval) list" where
  "keep_positive E [] acc = acc"
| "keep_positive E (e # es) acc =
     keep_positive E es (if 0 < sint (snd e) then map_insert E (fst e) (VInt (snd e)) acc else acc)"

definition counter_combine_op ::
  "env \<Rightarrow> (value_key \<times> pyval) list \<Rightarrow> (value_key \<times> pyval) list \<Rightarrow> (i64 \<Rightarrow> i64 \<Rightarrow> i64) \<Rightarrow> (value_key \<times> pyval) list" where
  "counter_combine_op E a b f =
     keep_positive E
       (List.map (\<lambda>(k, av). (k, f (counter_int av) (case map_get E b k of Some bv \<Rightarrow> counter_int bv | None \<Rightarrow> 0))) a @
        List.map (\<lambda>(k, bv). (k, f 0 (counter_int bv))) (filter (\<lambda>(k, bv). map_get E a k = None) b)) []"

definition counter_unary :: "env \<Rightarrow> (value_key \<times> pyval) list \<Rightarrow> bool \<Rightarrow> (value_key \<times> pyval) list" where
  "counter_unary E c negate =
     keep_positive E (List.map (\<lambda>(k, v).
       let n = (case value_as_i64 v of Some n \<Rightarrow> n | None \<Rightarrow> 0) in (k, if negate then - n else n)) c) []"

definition max_i64 :: "i64 \<Rightarrow> i64 \<Rightarrow> i64" where "max_i64 a b = (if sint a \<le> sint b then b else a)"
definition min_i64 :: "i64 \<Rightarrow> i64 \<Rightarrow> i64" where "min_i64 a b = (if sint a \<le> sint b then a else b)"

text \<open>The integer branch of the three operators: booleans stay booleans, \<open>i64\<close> works on words.\<close>

definition bit_numbers ::
  "string \<Rightarrow> (bool \<Rightarrow> bool \<Rightarrow> bool) \<Rightarrow> (i64 \<Rightarrow> i64 \<Rightarrow> i64) \<Rightarrow> (int \<Rightarrow> int \<Rightarrow> int) \<Rightarrow> pyval \<Rightarrow> pyval \<Rightarrow> pyval eval_result" where
  "bit_numbers symbol on_bool on_i64 on_int l r =
     (let slow = result_bind (require_int_operands symbol l r) (\<lambda>_. result_bind (to_bigint l) (\<lambda>a.
            result_bind (to_bigint r) (\<lambda>b. Inr (int_from_bigint (on_int a b))))) in
      case (l, r) of
        (VBool a, VBool b) \<Rightarrow> Inr (VBool (on_bool a b))
      | (VInt a, VInt b) \<Rightarrow> Inr (VInt (on_i64 a b))
      | _ \<Rightarrow> slow)"

definition merge_dicts :: "env \<Rightarrow> (value_key \<times> pyval) list \<Rightarrow> (value_key \<times> pyval) list \<Rightarrow> (value_key \<times> pyval) list" where
  "merge_dicts E a b = foldl (\<lambda>m e. map_insert E (fst e) (snd e) m) a b"

definition is_ordered :: "pyval \<Rightarrow> bool" where
  "is_ordered v = (case v of VOrderedDict m \<Rightarrow> True | _ \<Rightarrow> False)"

definition bitor_values :: "env \<Rightarrow> addr \<Rightarrow> pyval \<Rightarrow> pyval \<Rightarrow> (env \<times> pyval) run" where
  "bitor_values E fresh l r = (case (l, r) of
       (VCounter a, VCounter b) \<Rightarrow> Some (Inr (E, VCounter (counter_combine_op E a b max_i64)))
     | _ \<Rightarrow> (case set_operation (union_with (recurse_eq E) (py_hash E)) E fresh l r of
         Some res \<Rightarrow> res
       | None \<Rightarrow> (case (as_dict l, as_dict r) of
           (Some a, Some b) \<Rightarrow>
             Some (Inr (set_dict E fresh (merge_dicts E (dict_at E a) (dict_at E b)),
               if is_ordered l \<or> is_ordered r then VOrderedDict fresh else VDict fresh))
         | _ \<Rightarrow> Some (pure_result E (bit_numbers ''|'' (\<or>) (OR) (OR) l r)))))"

definition bitxor_values :: "env \<Rightarrow> addr \<Rightarrow> pyval \<Rightarrow> pyval \<Rightarrow> (env \<times> pyval) run" where
  "bitxor_values E fresh l r =
     (case set_operation (symmetric_difference_with (recurse_eq E) (py_hash E)) E fresh l r of
        Some res \<Rightarrow> res
      | None \<Rightarrow> Some (pure_result E (bit_numbers ''^'' (\<noteq>) (XOR) (XOR) l r)))"

definition bitand_values :: "env \<Rightarrow> addr \<Rightarrow> pyval \<Rightarrow> pyval \<Rightarrow> (env \<times> pyval) run" where
  "bitand_values E fresh l r = (case (l, r) of
       (VCounter a, VCounter b) \<Rightarrow> Some (Inr (E, VCounter (counter_combine_op E a b min_i64)))
     | _ \<Rightarrow> (case set_operation (intersection_with (recurse_eq E) (py_hash E)) E fresh l r of
         Some res \<Rightarrow> res
       | None \<Rightarrow> Some (pure_result E (bit_numbers ''&'' (\<and>) (AND) (AND) l r))))"

section \<open>Unary operators\<close>

definition unary_error :: "string \<Rightarrow> pyval \<Rightarrow> eval_error" where
  "unary_error symbol v = type_error (''bad operand type for unary '' @ symbol @ '': '' @ [CHR 39] @ type_name v @ [CHR 39])"

definition unwrap_int_enum :: "pyval \<Rightarrow> pyval" where
  "unwrap_int_enum v = (case v of
     VEnumMember c m inner k \<Rightarrow> if k = IntKind \<or> k = IntFlag then inner else v | _ \<Rightarrow> v)"

text \<open>\<open>not\<close> takes the truth of the operand, which may run a method of the program.\<close>

definition apply_unaryop :: "arith \<Rightarrow> env \<Rightarrow> (pyval \<Rightarrow> bool eval_result) \<Rightarrow> unary_op \<Rightarrow> pyval \<Rightarrow> pyval eval_result" where
  "apply_unaryop A E truthy op1 operand0 =
     (let operand = unwrap_int_enum operand0 in
      case op1 of
        UAdd \<Rightarrow> (case operand of
            VInt i \<Rightarrow> Inr operand | VBigInt n \<Rightarrow> Inr operand | VFloat f \<Rightarrow> Inr operand | VComplex a b \<Rightarrow> Inr operand
          | VDecimal m s k \<Rightarrow> Inr operand | VFraction n d \<Rightarrow> Inr operand
          | VBool b \<Rightarrow> Inr (VInt (if b then 1 else 0))
          | VTimeDelta us \<Rightarrow> Inr operand
          | VCounter c \<Rightarrow> Inr (VCounter (counter_unary E c False))
          | _ \<Rightarrow> Inl (unary_error ''+'' operand))
      | USub \<Rightarrow> (case operand of
            VInt i \<Rightarrow> Inr (case checked_i64 (- sint i) of Some v \<Rightarrow> VInt v | None \<Rightarrow> int_from_bigint (- sint i))
          | VBigInt b \<Rightarrow> Inr (int_from_bigint (- b))
          | VFloat f \<Rightarrow> Inr (VFloat (f64_neg f))
          | VComplex a b \<Rightarrow> Inr (VComplex (f64_neg a) (f64_neg b))
          | VBool b \<Rightarrow> Inr (VInt (if b then - 1 else 0))
          | VDecimal m s k \<Rightarrow> Inr (neg_decimal A operand)
          | VFraction n d \<Rightarrow> Inr (VFraction (- n) d)
          | VCounter c \<Rightarrow> Inr (VCounter (counter_unary E c True))
          | VTimeDelta us \<Rightarrow> Inr (VTimeDelta (- us))
          | _ \<Rightarrow> Inl (unary_error ''-'' operand))
      | UNot \<Rightarrow> result_bind (truthy operand) (\<lambda>b. Inr (VBool (\<not> b)))
      | Invert \<Rightarrow> (case operand of
            VInt i \<Rightarrow> Inr (VInt (NOT i))
          | VBool b \<Rightarrow> Inr (VInt (NOT (if b then 1 else 0)))
          | VBigInt n \<Rightarrow> Inr (int_from_bigint (- n - 1))
          | _ \<Rightarrow> Inl (unary_error ''~'' operand)))"

section \<open>Dispatch\<close>

text \<open>The recursion of \<open>dispatch_binop\<close> and of \<open>apply_binop_builtin\<close> unwraps the members of \<open>IntEnum\<close> and
  \<open>StrEnum\<close> until neither operand changes.\<close>

fun unwrap_enum_for_arith :: "pyval \<Rightarrow> pyval" where
  "unwrap_enum_for_arith v = (case v of
       VEnumMember c m inner k \<Rightarrow> if k = IntKind \<or> k = StrKind then unwrap_enum_for_arith inner else v
     | _ \<Rightarrow> v)"

declare unwrap_enum_for_arith.simps [simp del]

definition binop_kernel :: "arith \<Rightarrow> bin_op \<Rightarrow> env \<Rightarrow> addr \<Rightarrow> pyval \<Rightarrow> pyval \<Rightarrow> (env \<times> pyval) run" where
  "binop_kernel A op1 E fresh l r = (case op1 of
       Add \<Rightarrow> Some (add_values_op A E fresh l r)
     | Sub \<Rightarrow> sub_values A E fresh l r
     | Mul \<Rightarrow> Some (mult_values A E fresh l r)
     | Div \<Rightarrow> Some (div_values A E l r)
     | FloorDiv \<Rightarrow> Some (floordiv_values A E l r)
     | Mod \<Rightarrow> Some (mod_values A E fresh l r)
     | Pow \<Rightarrow> Some (pure_result E (pow_values A l r 1048576)))"

definition apply_binop_builtin :: "arith \<Rightarrow> bin_op \<Rightarrow> env \<Rightarrow> addr \<Rightarrow> pyval \<Rightarrow> pyval \<Rightarrow> (env \<times> pyval) run" where
  "apply_binop_builtin A op1 E fresh l r =
     binop_kernel A op1 E fresh (unwrap_enum_for_arith l) (unwrap_enum_for_arith r)"

definition is_numeric :: "pyval \<Rightarrow> bool" where
  "is_numeric v = (case v of VInt i \<Rightarrow> True | VBigInt n \<Rightarrow> True | VFloat f \<Rightarrow> True | VBool b \<Rightarrow> True | _ \<Rightarrow> False)"

type_synonym arith_slot_fun = "bin_op \<Rightarrow> env \<Rightarrow> addr \<Rightarrow> pyval \<Rightarrow> pyval \<Rightarrow> (env \<times> pyval) run option"

definition numeric_arith :: "arith \<Rightarrow> arith_slot_fun" where
  "numeric_arith A op1 E fresh l r =
     (if \<not> is_numeric l then None
      else if is_numeric r then Some (apply_binop_builtin A op1 E fresh l r)
      else if op1 = Mul \<and> (case r of VString s \<Rightarrow> True | VList a \<Rightarrow> True | VTuple t \<Rightarrow> True | _ \<Rightarrow> False)
      then Some (apply_binop_builtin A op1 E fresh l r)
      else None)"

text \<open>A slot that concatenates its own kind, repeats by a small integer and may format.\<close>

definition seq_arith :: "arith \<Rightarrow> (pyval \<Rightarrow> bool) \<Rightarrow> bool \<Rightarrow> arith_slot_fun" where
  "seq_arith A same_kind formats op1 E fresh l r =
     (if \<not> same_kind l then None
      else if op1 = Add \<and> same_kind r \<or> op1 = Mul \<and> small_int r \<noteq> None \<or> op1 = Mod \<and> formats
      then Some (apply_binop_builtin A op1 E fresh l r)
      else None)"

definition str_arith :: "arith \<Rightarrow> arith_slot_fun" where
  "str_arith A = seq_arith A (\<lambda>v. case v of VString s \<Rightarrow> True | _ \<Rightarrow> False) True"

definition bytes_arith :: "arith \<Rightarrow> arith_slot_fun" where
  "bytes_arith A = seq_arith A (\<lambda>v. case v of VBytes b \<Rightarrow> True | VByteArray b \<Rightarrow> True | _ \<Rightarrow> False) True"

definition list_arith :: "arith \<Rightarrow> arith_slot_fun" where
  "list_arith A = seq_arith A (\<lambda>v. case v of VList a \<Rightarrow> True | _ \<Rightarrow> False) False"

definition tuple_arith :: "arith \<Rightarrow> arith_slot_fun" where
  "tuple_arith A = seq_arith A (\<lambda>v. case v of VTuple t \<Rightarrow> True | _ \<Rightarrow> False) False"

definition set_arith :: "arith \<Rightarrow> arith_slot_fun" where
  "set_arith A op1 E fresh l r =
     (if op1 = Sub \<and> set_like_body E l \<noteq> None \<and> set_like_body E r \<noteq> None
      then Some (apply_binop_builtin A op1 E fresh l r) else None)"

definition counter_arith :: arith_slot_fun where
  "counter_arith op1 E fresh l r = (case (l, r) of
       (VCounter a, VCounter b) \<Rightarrow> (case op1 of
           Add \<Rightarrow> Some (Some (Inr (E, VCounter (counter_combine_op E a b (+)))))
         | Sub \<Rightarrow> Some (Some (Inr (E, VCounter (counter_combine_op E a b (-)))))
         | _ \<Rightarrow> None)
     | _ \<Rightarrow> None)"

definition array_arith :: arith_slot_fun where
  "array_arith op1 E fresh l r = (case l of
       VArray typecode items \<Rightarrow> (case op1 of
           Add \<Rightarrow> Some (Some (case r of
               VArray rt ri \<Rightarrow>
                 if rt \<noteq> typecode then Inl (type_error ''bad argument type for built-in operation'')
                 else Inr (set_list E fresh (list_at E items @ list_at E ri), VArray typecode fresh)
             | _ \<Rightarrow> Inl (type_error (''can only append array (not '' @ [CHR 34] @ python_type_name r @ [CHR 34] @ '') to array''))))
         | Mul \<Rightarrow> (case small_int r of
               None \<Rightarrow> None
             | Some n \<Rightarrow> Some (Some (Inr (set_list E fresh (concat (replicate (nat (max 0 (sint n))) (list_at E items))),
                 VArray typecode fresh))))
         | _ \<Rightarrow> None)
     | _ \<Rightarrow> None)"

definition arith_slot :: "arith \<Rightarrow> pyval \<Rightarrow> arith_slot_fun" where
  "arith_slot A v = (case v of
       VBool b \<Rightarrow> numeric_arith A | VInt i \<Rightarrow> numeric_arith A | VBigInt n \<Rightarrow> numeric_arith A | VFloat f \<Rightarrow> numeric_arith A
     | VString s \<Rightarrow> str_arith A
     | VBytes b \<Rightarrow> bytes_arith A | VByteArray b \<Rightarrow> bytes_arith A
     | VList a \<Rightarrow> list_arith A | VTuple t \<Rightarrow> tuple_arith A
     | VSet s \<Rightarrow> set_arith A | VFrozenset s \<Rightarrow> set_arith A
     | VCounter c \<Rightarrow> counter_arith
     | VComplex a b \<Rightarrow> (\<lambda>op1 E fresh l r. map_option Some (other_arith A op1 E fresh l r))
     | VDate d \<Rightarrow> (\<lambda>op1 E fresh l r. map_option Some (other_arith A op1 E fresh l r))
     | VDateTime d t \<Rightarrow> (\<lambda>op1 E fresh l r. map_option Some (other_arith A op1 E fresh l r))
     | VTimeDelta d \<Rightarrow> (\<lambda>op1 E fresh l r. map_option Some (other_arith A op1 E fresh l r))
     | VDecimal m s k \<Rightarrow> (\<lambda>op1 E fresh l r. map_option Some (other_arith A op1 E fresh l r))
     | VFraction n d \<Rightarrow> (\<lambda>op1 E fresh l r. map_option Some (other_arith A op1 E fresh l r))
     | _ \<Rightarrow> (\<lambda>op1 E fresh l r. None))"

definition unsupported_pair :: "bin_op \<Rightarrow> pyval \<Rightarrow> pyval \<Rightarrow> eval_error" where
  "unsupported_pair op1 l r =
     (let can_only = type_error (''can only concatenate '' @ type_object_name l @ '' (not '' @ [CHR 34] @
            python_type_name r @ [CHR 34] @ '') to '' @ type_object_name l);
          cant = type_error (''can'' @ [CHR 39] @ ''t concat '' @ python_type_name r @ '' to '' @ type_object_name l);
          generic = unsupported (bin_symbol op1) (python_type_name l) (python_type_name r);
          rest = (if op1 = Mul \<and> is_seq l then repeat_error (python_type_name r)
                  else if op1 = Mul \<and> is_seq r then repeat_error (python_type_name l) else generic) in
      if op1 = Add then
        (case l of VString s \<Rightarrow> can_only | VList a \<Rightarrow> can_only | VTuple t \<Rightarrow> can_only
         | VBytes b \<Rightarrow> cant | VByteArray b \<Rightarrow> cant | _ \<Rightarrow> rest)
      else rest)"

definition dispatch_binop :: "arith \<Rightarrow> bin_op \<Rightarrow> env \<Rightarrow> addr \<Rightarrow> pyval \<Rightarrow> pyval \<Rightarrow> (env \<times> pyval) run" where
  "dispatch_binop A op1 E fresh lhs rhs =
     (let l = unwrap_enum_for_arith lhs; r = unwrap_enum_for_arith rhs in
      case array_arith op1 E fresh l r of
        Some res \<Rightarrow> res
      | None \<Rightarrow> (case arith_slot A l op1 E fresh l r of
          Some res \<Rightarrow> res
        | None \<Rightarrow> (case arith_slot A r op1 E fresh l r of
            Some res \<Rightarrow> res
          | None \<Rightarrow> Some (Inl (unsupported_pair op1 l r)))))"

section \<open>Identity\<close>

definition numeric_is_kind :: "pyval \<Rightarrow> nat option" where
  "numeric_is_kind v = (case v of
     VBool b \<Rightarrow> Some 0 | VInt i \<Rightarrow> Some 1 | VBigInt n \<Rightarrow> Some 1 | VFloat f \<Rightarrow> Some 2 | VComplex a b \<Rightarrow> Some 3 | _ \<Rightarrow> None)"

text \<open>The variants that are compared by identity, each with its tag and the address or id of its storage.\<close>

definition reference_id :: "pyval \<Rightarrow> (nat \<times> nat) option" where
  "reference_id v = (case v of
       VList a \<Rightarrow> Some (0, a) | VInstance c a \<Rightarrow> Some (1, a) | VFunction a \<Rightarrow> Some (2, a) | VLambda a \<Rightarrow> Some (3, a)
     | VLruCache a \<Rightarrow> Some (4, a) | VSet a \<Rightarrow> Some (5, a) | VDict a \<Rightarrow> Some (6, a) | VOrderedDict a \<Rightarrow> Some (7, a)
     | VByteArray a \<Rightarrow> Some (8, a) | VArray c a \<Rightarrow> Some (9, a) | VGenerator g \<Rightarrow> Some (10, unat g)
     | VLazy xs c k \<Rightarrow> Some (11, unat c) | VBuiltinIter b k \<Rightarrow> Some (12, unat b) | _ \<Rightarrow> None)"

text \<open>A frozenset has no address here, so whether two of them share their body is an argument.\<close>

definition values_is :: "(pyval set_body \<Rightarrow> pyval set_body \<Rightarrow> bool) \<Rightarrow> env \<Rightarrow> pyval \<Rightarrow> pyval \<Rightarrow> bool" where
  "values_is same_body E l r =
     (let frozen = (\<lambda>v. case v of VFrozenset b \<Rightarrow> Some b | _ \<Rightarrow> None) in
      case (frozen l, frozen r) of
        (Some a, Some b) \<Rightarrow> same_body a b
      | (None, None) \<Rightarrow> (case (reference_id l, reference_id r) of
            (Some a, Some b) \<Rightarrow> a = b
          | (None, None) \<Rightarrow> (case (numeric_is_kind l, numeric_is_kind r) of
                (Some a, Some b) \<Rightarrow> a = b \<and> values_equal E l r
              | _ \<Rightarrow> values_equal E l r)
          | _ \<Rightarrow> False)
      | _ \<Rightarrow> False)"

section \<open>Matrix product and the operator table\<close>

text \<open>One pass over the rows of a matrix: each a list, as long as the first, of numbers.\<close>

primrec matrix_rows :: "env \<Rightarrow> string \<Rightarrow> nat option \<Rightarrow> pyval list \<Rightarrow> (nat option \<times> f64 list list) eval_result" where
  "matrix_rows E side cols [] = Inr (cols, [])"
| "matrix_rows E side cols (row # rows) = (case row of
       VList a \<Rightarrow>
         let cells = list_at E a in
         if cols \<noteq> None \<and> cols \<noteq> Some (length cells) then
           Inl (Interpreter (ValueError (''matmul: '' @ side @ '' operand rows must have equal length'')))
         else result_bind (result_all (List.map to_float cells)) (\<lambda>r.
           result_bind (matrix_rows E side (Some (length cells)) rows) (\<lambda>(n, rs). Inr (n, r # rs)))
     | _ \<Rightarrow> Inl (type_error (''@ requires a list of lists on the '' @ side)))"

definition matrix_cell :: "arith \<Rightarrow> f64 list \<Rightarrow> f64 list list \<Rightarrow> nat \<Rightarrow> pyval" where
  "matrix_cell A row rows col =
     (let total = foldl (\<lambda>acc (a, brow). f_add A acc (f_mul A a (brow ! col))) 0 (zip row rows) in
      if is_finite total \<and> f64_integral total \<and> - (2 ^ 63) \<le> f64_trunc total \<and> f64_trunc total \<le> 2 ^ 63
      then VInt (f64_as_i64 total) else VFloat total)"

text \<open>The rows of the result are stored at the addresses after that of the result.\<close>

primrec store_rows :: "env \<Rightarrow> addr \<Rightarrow> pyval list list \<Rightarrow> env \<times> pyval list" where
  "store_rows E a [] = (E, [])"
| "store_rows E a (r # rs) = (case store_rows (set_list E a r) (Suc a) rs of (E', vs) \<Rightarrow> (E', VList a # vs))"

definition matmult_values :: "arith \<Rightarrow> env \<Rightarrow> addr \<Rightarrow> pyval \<Rightarrow> pyval \<Rightarrow> (env \<times> pyval) eval_result" where
  "matmult_values A E fresh l r = (case (l, r) of
       (VList a, VList b) \<Rightarrow>
         if list_at E a = [] \<or> list_at E b = [] then Inr (fresh_list E fresh [])
         else result_bind (matrix_rows E ''left'' None (list_at E a)) (\<lambda>(ka, a_rows).
           result_bind (matrix_rows E ''right'' None (list_at E b)) (\<lambda>(nb, b_rows).
             let k = (case ka of Some k \<Rightarrow> k | None \<Rightarrow> 0); n = (case nb of Some n \<Rightarrow> n | None \<Rightarrow> 0) in
             if length b_rows \<noteq> k then
               Inl (Interpreter (ValueError (''matmul: shapes ('' @ nat_digits (length a_rows) @ '','' @ nat_digits k @
                 '') and ('' @ nat_digits (length b_rows) @ '','' @ nat_digits n @ '') not aligned'')))
             else (case store_rows E (Suc fresh) (List.map (\<lambda>row. List.map (matrix_cell A row b_rows) [0..<n]) a_rows) of
               (E', vs) \<Rightarrow> Inr (fresh_list E' fresh vs))))
     | _ \<Rightarrow> Inl (type_error (''unsupported operand type(s) for @: '' @ [CHR 39] @ type_name l @ [CHR 39] @ '' and '' @ [CHR 39] @
         type_name r @ [CHR 39] @ '' (see CONFORMANCE.md#unsupported-language-features)'')))"

datatype operator =
    OpAdd | OpSub | OpMult | OpDiv | OpFloorDiv | OpMod | OpPow | OpLShift | OpRShift | OpBitOr | OpBitXor | OpBitAnd | OpMatMult

text \<open>A view of keys or items becomes a set; building it hashes the elements, so its result is a run.\<close>

definition dictview_as_set :: "env \<Rightarrow> pyval \<Rightarrow> pyval set_body option option" where
  "dictview_as_set E v = (case v of
       VDictView d k \<Rightarrow> if k = Values then None
         else Some (from_items (recurse_eq E) (py_hash E) (dictview_iter E (recurse_eq E) d k))
     | _ \<Rightarrow> None)"

definition coerce_view :: "env \<Rightarrow> addr \<Rightarrow> pyval \<Rightarrow> (env \<times> pyval) option" where
  "coerce_view E a v = (case dictview_as_set E v of
       None \<Rightarrow> Some (E, v)
     | Some body \<Rightarrow> map_option (\<lambda>b. (set_set E a b, VSet a)) body)"

definition operator_kernel ::
  "arith \<Rightarrow> nat \<Rightarrow> operator \<Rightarrow> env \<Rightarrow> addr \<Rightarrow> pyval \<Rightarrow> pyval \<Rightarrow> (env \<times> pyval) run" where
  "operator_kernel A max_bits op1 E fresh l r = (case op1 of
       OpAdd \<Rightarrow> dispatch_binop A Add E fresh l r
     | OpSub \<Rightarrow> dispatch_binop A Sub E fresh l r
     | OpMult \<Rightarrow> dispatch_binop A Mul E fresh l r
     | OpDiv \<Rightarrow> dispatch_binop A Div E fresh l r
     | OpFloorDiv \<Rightarrow> dispatch_binop A FloorDiv E fresh l r
     | OpMod \<Rightarrow> dispatch_binop A Mod E fresh l r
     | OpPow \<Rightarrow> if is_numeric l \<and> is_numeric r then Some (pure_result E (pow_values A l r max_bits))
         else dispatch_binop A Pow E fresh l r
     | OpLShift \<Rightarrow> Some (pure_result E (lshift_values l r max_bits))
     | OpRShift \<Rightarrow> Some (pure_result E (rshift_values l r max_bits))
     | OpBitOr \<Rightarrow> bitor_values E fresh l r
     | OpBitXor \<Rightarrow> bitxor_values E fresh l r
     | OpBitAnd \<Rightarrow> bitand_values E fresh l r
     | OpMatMult \<Rightarrow> Some (matmult_values A E fresh l r))"

definition apply_binop :: "arith \<Rightarrow> nat \<Rightarrow> operator \<Rightarrow> env \<Rightarrow> addr \<Rightarrow> pyval \<Rightarrow> pyval \<Rightarrow> (env \<times> pyval) run" where
  "apply_binop A max_bits op1 E fresh left right =
     (case coerce_view E fresh left of None \<Rightarrow> None
      | Some (E1, l) \<Rightarrow> (case coerce_view E1 (Suc fresh) right of None \<Rightarrow> None
        | Some (E2, r) \<Rightarrow> operator_kernel A max_bits op1 E2 (Suc (Suc fresh)) l r))"

section \<open>The fast paths agree with arbitrary precision\<close>

lemma sint_zero_iff [simp]: "sint (b :: i64) = 0 \<longleftrightarrow> b = 0"
  using sint_i64_inject [of b 0] by simp

lemma in_i64_bounds: "in_i64 n \<longleftrightarrow> - (2 ^ 63) \<le> n \<and> n < 2 ^ 63"
  by (auto simp: in_i64_def i64_min_def i64_max_def)

lemma smod_in_i64: "b \<noteq> 0 \<Longrightarrow> in_i64 (sint (a :: i64) smod sint (b :: i64))"
  using smod_int_range [of "sint b" "sint a"] in_i64_sint [of b] by (auto simp: in_i64_bounds abs_if split: if_splits)

lemma smod_sign:
  fixes a b :: int
  assumes "b \<noteq> 0"
  shows "a smod b \<noteq> 0 \<and> (a smod b < 0) \<noteq> (b < 0) \<longleftrightarrow> sgn a \<noteq> sgn b \<and> \<not> b dvd a"
proof -
  let ?m = "\<bar>a\<bar> mod \<bar>b\<bar>"
  have m: "0 \<le> ?m" "?m = 0 \<longleftrightarrow> b dvd a" using assms by (simp_all add: mod_eq_0_iff_dvd)
  have s: "a smod b = sgn a * ?m" by (rule smod_int_alt_def)
  show ?thesis
  proof (cases "b dvd a")
    case True
    then show ?thesis using m s by simp
  next
    case False
    then have "0 < ?m" "a \<noteq> 0" using m by auto
    then show ?thesis using s False assms by (auto simp: sgn_if mult_less_0_iff)
  qed
qed

lemma rounds_down:
  fixes a b :: i64
  assumes "b \<noteq> 0"
  shows "word_of_int (sint a smod sint b) \<noteq> (0 :: i64) \<and> sint (word_of_int (sint a smod sint b) XOR b) < 0 \<longleftrightarrow>
    sgn (sint a) \<noteq> sgn (sint b) \<and> \<not> sint b dvd sint a"
proof -
  let ?s = "sint a smod sint b"
  have s: "sint (word_of_int ?s :: i64) = ?s" using smod_in_i64 [OF assms] by (simp add: sint_word_of_int_i64)
  have "word_of_int ?s = (0 :: i64) \<longleftrightarrow> ?s = 0" using s by (metis sint_zero_iff)
  moreover have "sint (word_of_int ?s XOR b) < 0 \<longleftrightarrow> (?s < 0) \<noteq> (sint b < 0)"
    using s by (simp add: signed_xor_eq)
  ultimately show ?thesis using smod_sign [of "sint b" "sint a"] assms by simp
qed

lemma python_floordiv_word: "b \<noteq> 0 \<Longrightarrow> python_floordiv a b = word_of_int (sint a div sint b)"
  using rounds_down [of b a] divide_int_eq_signed_divide_int [of "sint a" "sint b"]
  by (auto simp: python_floordiv_def Let_def)

lemma python_mod_word: "b \<noteq> 0 \<Longrightarrow> python_mod a b = word_of_int (sint a mod sint b)"
  using rounds_down [of b a] modulo_int_eq_signed_modulo_int [of "sint a" "sint b"]
  by (auto simp: python_mod_def Let_def)

lemma div_in_i64:
  assumes "b \<noteq> 0" "\<not> (sint a = i64_min \<and> b = - 1)"
  shows "in_i64 (sint (a :: i64) div sint (b :: i64))"
proof -
  have b: "sint b \<noteq> 0" "sint b = - 1 \<longleftrightarrow> b = - 1" using assms(1) sint_i64_inject [of b "- 1"] by auto
  have range: "- (2 ^ 63) \<le> sint a" "sint a < 2 ^ 63" using in_i64_sint [of a] by (simp_all only: in_i64_bounds)
  consider "sint b = 1" | "sint b = - 1" | "2 \<le> \<bar>sint b\<bar>" using b(1) by linarith
  then show ?thesis
  proof cases
    case 3
    have "\<bar>sint a sdiv sint b\<bar> = \<bar>sint a\<bar> div \<bar>sint b\<bar>"
      by (cases "sint a = 0") (use b(1) in \<open>simp_all add: signed_divide_int_def abs_mult abs_sgn_eq pos_imp_zdiv_nonneg_iff\<close>)
    also have "\<dots> \<le> \<bar>sint a\<bar> div 2" using 3 by (intro zdiv_mono2) auto
    also have "\<dots> \<le> 2 ^ 62" using range by (auto simp: abs_if)
    finally show ?thesis
      using divide_int_eq_signed_divide_int [of "sint a" "sint b"]
      by (auto simp: in_i64_bounds split: if_splits)
  qed (use assms b(2) range in \<open>auto simp: in_i64_bounds i64_min_def\<close>)
qed

lemma mod_in_i64:
  fixes a b :: i64
  assumes "b \<noteq> 0"
  shows "in_i64 (sint a mod sint b)"
proof -
  have "- (2 ^ 63) \<le> sint b" "sint b < 2 ^ 63" using in_i64_sint [of b] by (simp_all only: in_i64_bounds)
  moreover have "sint b \<noteq> 0" using assms by simp
  ultimately show ?thesis
    using pos_mod_bound [of "sint b" "sint a"] pos_mod_sign [of "sint b" "sint a"]
      neg_mod_bound [of "sint b" "sint a"] neg_mod_sign [of "sint b" "sint a"]
    unfolding in_i64_bounds by linarith
qed

lemma int_from_bigint_VInt: "in_i64 n \<Longrightarrow> int_from_bigint n = VInt (word_of_int n)"
  by (simp add: int_from_bigint_def checked_i64_def)

text \<open>The integers a value stands for: the three representations.\<close>

lemma integral_bigint: "integral v \<Longrightarrow> value_as_bigint v = Some (int_value v)"
  by (erule integral_cases) (simp_all add: value_as_bigint.simps int_value_def)

lemma int_checked_exact:
  assumes "integral l" "integral r"
  shows "int_checked f l r = Inr (int_from_bigint (f (int_value l) (int_value r)))"
  by (rule integral_cases [OF assms(1)]; rule integral_cases [OF assms(2)])
    (auto simp: int_checked_def to_bigint_def value_as_bigint.simps int_value_def int_from_bigint_def
      split: option.splits)

lemma int_divide_exact:
  assumes "integral l" "integral r"
    "\<And>(a :: i64) (b :: i64). b \<noteq> 0 \<Longrightarrow> fast a b = word_of_int (big (sint a) (sint b))"
    "\<And>(a :: i64) (b :: i64). b \<noteq> 0 \<Longrightarrow> \<not> (sint a = i64_min \<and> b = - 1) \<Longrightarrow> in_i64 (big (sint a) (sint b))"
  shows "int_divide fast big msg l r = (if int_value r = 0 then Inl (zero_division msg)
    else Inr (int_from_bigint (big (int_value l) (int_value r))))"
proof -
  have "VInt (fast a b) = int_from_bigint (big (sint a) (sint b))" if "b \<noteq> 0" "\<not> (sint a = i64_min \<and> b = - 1)" for a b :: i64
    using assms(3) [of b a] assms(4) [of b a] that by (simp add: int_from_bigint_VInt)
  note fast = this
  show ?thesis
    by (rule integral_cases [OF assms(1)]; rule integral_cases [OF assms(2)])
      (auto simp: int_divide_def to_bigint_def value_as_bigint.simps int_value_def Let_def fast)
qed

lemma unwrap_integral: "integral v \<Longrightarrow> unwrap_enum_for_arith v = v"
  by (erule integral_cases) (simp_all add: unwrap_enum_for_arith.simps)

lemma integral_kind:
  assumes "integral v"
  shows "is_numeric v" "is_int v" "\<not> is_seq v" "arith_slot A v = numeric_arith A" "array_arith op1 E fresh v w = None"
    "set_like_body E v = None" "is_string v = False" "as_dict v = None" "unwrap_int_enum v = v"
  by (rule integral_cases [OF assms];
      simp add: is_numeric_def is_int_def is_seq_def arith_slot_def array_arith_def set_like_body_def is_string_def
        as_dict_def unwrap_int_enum_def)+

lemma integral_not_float: "integral l \<Longrightarrow> integral r \<Longrightarrow> \<not> either_is_float l r"
  by (erule integral_cases; erule integral_cases) (simp_all add: either_is_float_def)

lemmas integral_facts = unwrap_integral integral_kind integral_not_float integral_bigint

lemma dispatch_integral:
  "integral l \<Longrightarrow> integral r \<Longrightarrow> dispatch_binop A op1 E fresh l r = binop_kernel A op1 E fresh l r"
  by (simp add: dispatch_binop_def integral_facts numeric_arith_def apply_binop_builtin_def)

lemma add_integral: "integral l \<Longrightarrow> integral r \<Longrightarrow> add_values_op A E fresh l r = pure_result E (int_add l r)"
  using integral_not_float [of l r] by (auto simp: add_values_op_def Let_def elim: integral_cases)

lemma mult_integral: "integral l \<Longrightarrow> integral r \<Longrightarrow> mult_values A E fresh l r = pure_result E (int_mul l r)"
proof -
  assume *: "integral l" "integral r"
  have "mult_numbers A E l r = pure_result E (int_mul l r)"
    using * by (simp add: mult_numbers_def integral_facts)
  then show ?thesis using *
    by (elim integral_cases) (simp_all add: mult_values_def small_int_def)
qed

lemma mod_integral:
  "integral l \<Longrightarrow> integral r \<Longrightarrow>
   mod_values A E fresh l r = pure_result E (int_divide python_mod (mod) ''integer modulo by zero'' l r)"
  using integral_not_float [of l r] by (auto simp: mod_values_def elim: integral_cases)

definition exact_result :: "env \<Rightarrow> int \<Rightarrow> (env \<times> pyval) run" where
  "exact_result E n = Some (Inr (E, int_from_bigint n))"

lemma binop_integral:
  assumes "integral l" "integral r"
  shows "binop_kernel A Add E fresh l r = exact_result E (int_value l + int_value r)"
    "binop_kernel A Sub E fresh l r = exact_result E (int_value l - int_value r)"
    "binop_kernel A Mul E fresh l r = exact_result E (int_value l * int_value r)"
  using assms by (simp_all add: binop_kernel_def add_integral mult_integral sub_values_def set_operation_def
      integral_facts int_add_def int_sub_def int_mul_def int_checked_exact pure_result_def exact_result_def)

lemma floordiv_exact:
  assumes "integral l" "integral r"
  shows "int_divide python_floordiv (div) msg l r = (if int_value r = 0 then Inl (zero_division msg)
    else Inr (int_from_bigint (int_value l div int_value r)))"
  by (rule int_divide_exact [OF assms]) (auto simp: python_floordiv_word intro: div_in_i64)

lemma mod_exact:
  assumes "integral l" "integral r"
  shows "int_divide python_mod (mod) msg l r = (if int_value r = 0 then Inl (zero_division msg)
    else Inr (int_from_bigint (int_value l mod int_value r)))"
  by (rule int_divide_exact [OF assms]) (auto simp: python_mod_word intro: mod_in_i64)

lemma divide_integral:
  assumes "integral l" "integral r"
  shows "binop_kernel A FloorDiv E fresh l r =
      (if int_value r = 0 then Some (Inl (zero_division ''integer division or modulo by zero''))
       else exact_result E (int_value l div int_value r))"
    "binop_kernel A Mod E fresh l r =
      (if int_value r = 0 then Some (Inl (zero_division ''integer modulo by zero''))
       else exact_result E (int_value l mod int_value r))"
  using assms by (simp_all add: binop_kernel_def floordiv_values_def mod_integral integral_facts exact_result_def
      floordiv_exact mod_exact pure_result_def)

lemma int_value_from_bigint [simp]: "int_value (int_from_bigint n) = n"
  by (auto simp: int_from_bigint_def int_value_def value_as_bigint.simps checked_i64_Some split: option.splits)

lemma integral_from_bigint [simp]: "integral (int_from_bigint n)"
  by (auto simp: int_from_bigint_def integral_def split: option.splits)

lemma apply_integral:
  "integral l \<Longrightarrow> integral r \<Longrightarrow> apply_binop A max_bits op1 E fresh l r = operator_kernel A max_bits op1 E (Suc (Suc fresh)) l r"
  by (elim integral_cases) (simp_all add: apply_binop_def coerce_view_def dictview_as_set_def)

text \<open>These operators do not look at the configured number of bits at all.\<close>

lemma integer_arithmetic_unlimited:
  assumes "integral l" "integral r"
  shows "apply_binop A max_bits OpAdd E fresh l r = exact_result E (int_value l + int_value r)"
    "apply_binop A max_bits OpSub E fresh l r = exact_result E (int_value l - int_value r)"
    "apply_binop A max_bits OpMult E fresh l r = exact_result E (int_value l * int_value r)"
    "apply_binop A max_bits OpFloorDiv E fresh l r =
      (if int_value r = 0 then Some (Inl (zero_division ''integer division or modulo by zero''))
       else exact_result E (int_value l div int_value r))"
    "apply_binop A max_bits OpMod E fresh l r =
      (if int_value r = 0 then Some (Inl (zero_division ''integer modulo by zero''))
       else exact_result E (int_value l mod int_value r))"
  using assms by (simp_all only: apply_integral operator_kernel_def operator.case dispatch_integral binop_integral divide_integral)

text \<open>C14: Arithmetic on integers is exact within the configured size.  For operands that are \<open>bool\<close>, \<open>int\<close> in 64
  bits or arbitrary-precision integers, \<open>+\<close>, \<open>-\<close>, \<open>*\<close>, \<open>//\<close> and \<open>%\<close> give the integer of unbounded arithmetic,
  rounded towards minus infinity in a division and stored in 64 bits exactly when it fits, whenever that integer has at
  most \<open>max_int_bits\<close> bits; a division by zero is a \<open>ZeroDivisionError\<close>.  (Above the limit the configuration
  promises an \<open>OverflowError\<close>, which these operators never raise: \<open>integer_arithmetic_unlimited\<close>.)\<close>
theorem integer_arithmetic_exact:
  assumes "integral l" "integral r"
  shows "(int_bits (int_value l + int_value r) \<le> max_bits \<longrightarrow>
      apply_binop A max_bits OpAdd E fresh l r = exact_result E (int_value l + int_value r)) \<and>
    (int_bits (int_value l - int_value r) \<le> max_bits \<longrightarrow>
      apply_binop A max_bits OpSub E fresh l r = exact_result E (int_value l - int_value r)) \<and>
    (int_bits (int_value l * int_value r) \<le> max_bits \<longrightarrow>
      apply_binop A max_bits OpMult E fresh l r = exact_result E (int_value l * int_value r)) \<and>
    (int_value r \<noteq> 0 \<and> int_bits (int_value l div int_value r) \<le> max_bits \<longrightarrow>
      apply_binop A max_bits OpFloorDiv E fresh l r = exact_result E (int_value l div int_value r)) \<and>
    (int_value r \<noteq> 0 \<and> int_bits (int_value l mod int_value r) \<le> max_bits \<longrightarrow>
      apply_binop A max_bits OpMod E fresh l r = exact_result E (int_value l mod int_value r)) \<and>
    (int_value r = 0 \<longrightarrow>
      apply_binop A max_bits OpFloorDiv E fresh l r = Some (Inl (zero_division ''integer division or modulo by zero'')) \<and>
      apply_binop A max_bits OpMod E fresh l r = Some (Inl (zero_division ''integer modulo by zero'')))"
  using assms by (simp add: integer_arithmetic_unlimited)

definition sample_arith :: arith where
  "sample_arith = \<lparr>f_add = (\<lambda>a b. a), f_sub = (\<lambda>a b. a), f_mul = (\<lambda>a b. a), f_div = (\<lambda>a b. a), f_floor = (\<lambda>a. a),
     f_mul_add = (\<lambda>a b c. a), f_pow = (\<lambda>a b. a), complex_pow = (\<lambda>a b. (a, b)), overflow_text = [],
     percent_format = (\<lambda>E a l r. Inr (E, l)), other_arith = (\<lambda>op1 E a l r. None), neg_decimal = (\<lambda>v. v)\<rparr>"

theorem integer_arithmetic_exact_witness:
  "apply_binop sample_arith 128 OpFloorDiv empty_env 0 (VInt (- 7)) (VInt 2) = exact_result empty_env (- 4) \<and>
   apply_binop sample_arith 128 OpMult empty_env 0 (VBigInt (2 ^ 80)) (VBool True) = exact_result empty_env (2 ^ 80)"
  using integer_arithmetic_exact [of "VInt (- 7)" "VInt 2" 128 sample_arith empty_env 0]
    integer_arithmetic_exact [of "VBigInt (2 ^ 80)" "VBool True" 128 sample_arith empty_env 0]
  by (simp add: bit_length.simps)

section \<open>Bitwise operators, shifts and powers\<close>

lemma i64_bitwise_in_range:
  fixes a b :: i64
  shows "in_i64 (sint a AND sint b)" "in_i64 (sint a OR sint b)" "in_i64 (sint a XOR sint b)"
  using in_i64_sint [of "a AND b"] in_i64_sint [of "a OR b"] in_i64_sint [of "a XOR b"]
  by (simp_all add: signed_and_eq signed_or_eq signed_xor_eq)

definition bit_spec :: "(bool \<Rightarrow> bool \<Rightarrow> bool) \<Rightarrow> (int \<Rightarrow> int \<Rightarrow> int) \<Rightarrow> pyval \<Rightarrow> pyval \<Rightarrow> pyval" where
  "bit_spec on_bool on_int l r = (case (l, r) of
     (VBool a, VBool b) \<Rightarrow> VBool (on_bool a b) | _ \<Rightarrow> int_from_bigint (on_int (int_value l) (int_value r)))"

lemma bit_numbers_exact:
  assumes "integral l" "integral r" "\<And>a b. sint (on_i64 a b) = on_int (sint a) (sint b)"
  shows "bit_numbers symbol on_bool on_i64 on_int l r = Inr (bit_spec on_bool on_int l r)"
proof -
  have "int_from_bigint (on_int (sint a) (sint b)) = VInt (on_i64 a b)" for a b
    using in_i64_sint [of "on_i64 a b"] assms(3) [of a b]
    by (metis int_from_bigint_VInt word_of_int_sint_i64)
  then show ?thesis
    by (rule_tac integral_cases [OF assms(1)]; rule_tac integral_cases [OF assms(2)])
      (simp_all add: bit_numbers_def bit_spec_def require_int_operands_def to_bigint_def value_as_bigint.simps)
qed

lemma int_bits_le_iff: "int_bits n \<le> m \<longleftrightarrow> \<bar>n\<bar> < 2 ^ m"
proof (cases "n = 0")
  case True
  then show ?thesis by (simp add: bit_length.simps [of 0])
next
  case False
  let ?b = "int_bits n"
  have *: "2 ^ (?b - 1) \<le> nat \<bar>n\<bar>" "nat \<bar>n\<bar> < 2 ^ ?b" "?b \<noteq> 0"
    using bit_length_bounds [of "nat \<bar>n\<bar>"] False by (auto simp: bit_length.simps [of "nat \<bar>n\<bar>"])
  have "nat \<bar>n\<bar> < 2 ^ m \<longleftrightarrow> ?b \<le> m"
  proof
    assume "nat \<bar>n\<bar> < 2 ^ m"
    then have "(2 :: nat) ^ (?b - 1) < 2 ^ m" using * by linarith
    then have "?b - 1 < m" using power_strict_increasing_iff [of "2 :: nat" "?b - 1" m] by simp
    then show "?b \<le> m" using *(3) by linarith
  next
    assume "?b \<le> m"
    then have "(2 :: nat) ^ ?b \<le> 2 ^ m" by simp
    then show "nat \<bar>n\<bar> < 2 ^ m" using * by linarith
  qed
  then show ?thesis by (simp add: nat_less_iff)
qed

text \<open>The test on the bits of the base rejects no power that fits.\<close>

lemma power_guard_sound:
  assumes "2 \<le> int_bits l" "m \<le> (int_bits l - 1) * k"
  shows "m < int_bits (l ^ k)"
proof -
  have "\<not> int_bits l \<le> int_bits l - 1" using assms(1) by linarith
  then have "2 ^ (int_bits l - 1) \<le> \<bar>l\<bar>" by (simp only: int_bits_le_iff not_less)
  then have "(2 ^ (int_bits l - 1)) ^ k \<le> \<bar>l\<bar> ^ k" by (rule power_mono) simp
  moreover have "(2 :: int) ^ m \<le> 2 ^ ((int_bits l - 1) * k)" using assms(2) by (intro power_increasing) simp_all
  ultimately have "2 ^ m \<le> \<bar>l ^ k\<bar>" by (simp add: power_mult power_abs)
  then show ?thesis using int_bits_le_iff [of "l ^ k" m] by linarith
qed

lemma bit_length_1 [simp]: "bit_length (Suc 0) = 1"
  by (simp add: bit_length.simps [of "Suc 0"] bit_length.simps [of 0])

lemma int_pow_exact:
  assumes "0 \<le> r" "r \<le> 1000000" "0 < max_bits"
  shows "int_bits (l ^ nat r) \<le> max_bits \<Longrightarrow> int_pow A max_bits l r = Inr (int_from_bigint (l ^ nat r))"
    "max_bits < int_bits (l ^ nat r) \<Longrightarrow> \<exists>m. int_pow A max_bits l r = Inl (overflow_error m)"
proof -
  let ?guard = "2 \<le> int_bits l \<and> max_bits \<le> min (2 ^ 64 - 1) ((int_bits l - 1) * nat r)"
  have one: "int_from_bigint 1 = VInt 1" by (simp add: int_from_bigint_VInt in_i64_bounds)
  have shape: "int_pow A max_bits l r = (if r = 0 then Inr (VInt 1)
      else if ?guard then Inl (overflow_error ''integer power result too large to represent'')
      else int_from_bigint_limited (l ^ nat r) max_bits)"
    using assms by (simp add: int_pow_def)
  have sound: "max_bits < int_bits (l ^ nat r)" if ?guard
    using that power_guard_sound [of l max_bits "nat r"] by simp
  show "int_pow A max_bits l r = Inr (int_from_bigint (l ^ nat r))" if "int_bits (l ^ nat r) \<le> max_bits"
    using that sound by (auto simp: shape one int_from_bigint_limited_def)
  show "\<exists>m. int_pow A max_bits l r = Inl (overflow_error m)" if "max_bits < int_bits (l ^ nat r)"
    using that assms(3) by (auto simp: shape int_from_bigint_limited_def)
qed

text \<open>C15: The outcome of a power of two integers (\<open>bool\<close>, 64-bit or arbitrary-precision), for every exponent and a
  positive limit of bits.  A negative exponent is a division by zero for the base 0 and the float power of the operands
  as floats otherwise; an exponent above a million is an \<open>OverflowError\<close>, whatever the base; for an exponent from 0
  to a million the result is the exact power whenever its bits do not exceed the limit, and an \<open>OverflowError\<close>
  otherwise.  In particular the early test on the bits of the base never rejects a power that would fit.\<close>
theorem integer_power_exact:
  assumes "integral l" "integral r" "0 < max_bits"
  shows "if int_value r < 0 then
      pow_values A l r max_bits = (if int_value l = 0 then Inl (zero_division ''0.0 cannot be raised to a negative power'')
        else Inr (VFloat (f_pow A (f64_of_int (int_value l)) (f64_of_int (int_value r)))))
    else if int_value r \<le> 1000000 \<and> int_bits (int_value l ^ nat (int_value r)) \<le> max_bits
    then pow_values A l r max_bits = Inr (int_from_bigint (int_value l ^ nat (int_value r)))
    else (\<exists>m. pow_values A l r max_bits = Inl (overflow_error m))"
proof -
  have shape: "pow_values A l r max_bits = int_pow A max_bits (int_value l) (int_value r)"
    using assms by (simp add: pow_values_def integral_facts)
  consider "int_value r < 0" | "1000000 < int_value r" | "0 \<le> int_value r" "int_value r \<le> 1000000" by linarith
  then show ?thesis
  proof cases
    case 3
    then show ?thesis
      using int_pow_exact [OF 3 assms(3), of "int_value l" A] by (simp add: shape not_le)
  qed (auto simp: shape int_pow_def)
qed

theorem integer_power_exact_witness:
  "pow_values sample_arith (VInt 3) (VInt 5) 8 = Inr (int_from_bigint 243) \<and>
   (\<exists>m. pow_values sample_arith (VInt 3) (VInt 5) 7 = Inl (overflow_error m)) \<and>
   (\<exists>m. pow_values sample_arith (VInt 1) (VInt 1000001) 8 = Inl (overflow_error m))"
  using integer_power_exact [of "VInt 3" "VInt 5" 8 sample_arith] integer_power_exact [of "VInt 3" "VInt 5" 7 sample_arith]
    integer_power_exact [of "VInt 1" "VInt 1000001" 8 sample_arith]
  by (simp add: bit_length.simps)

lemma shift_values_cases:
  assumes "integral l" "integral r"
  shows "lshift_values l r max_bits =
      (if int_value r < 0 then Inl (Interpreter (ValueError ''negative shift count''))
       else if int_value r \<le> 1000000 then int_from_bigint_limited (int_value l * 2 ^ nat (int_value r)) max_bits
       else Inl (overflow_error ''shift count too large''))"
    "rshift_values l r max_bits =
      (if int_value r < 0 then Inl (Interpreter (ValueError ''negative shift count''))
       else if int_value r < 2 ^ 32 then int_from_bigint_limited (int_value l div 2 ^ nat (int_value r)) max_bits
       else Inl (overflow_error ''shift count too large''))"
  using assms by (auto simp: integral_facts lshift_values_def rshift_values_def require_int_operands_def to_bigint_def
      shift_count_def push_bit_eq_mult drop_bit_eq_div nat_less_iff zless_nat_eq_int_zless)

lemma bitwise_integral:
  assumes "integral l" "integral r"
  shows "bitand_values E fresh l r = Some (pure_result E (bit_numbers ''&'' (\<and>) (AND) (AND) l r))"
    "bitor_values E fresh l r = Some (pure_result E (bit_numbers ''|'' (\<or>) (OR) (OR) l r))"
    "bitxor_values E fresh l r = Some (pure_result E (bit_numbers ''^'' (\<noteq>) (XOR) (XOR) l r))"
  by (rule integral_cases [OF assms(1)];
      simp add: bitand_values_def bitor_values_def bitxor_values_def set_operation_def set_like_body_def as_dict_def)+

text \<open>C16: Bitwise operators and shifts work on the integers themselves, in two's complement without end: \<open>&\<close>, \<open>|\<close>
  and \<open>^\<close> of 64-bit words, of booleans (which stay booleans) and of big integers agree.  A shift by a negative count
  is a \<open>ValueError\<close>.  A shift to the left by 0 to 1,000,000 multiplies by a power of two, one to the right by less than
  \<open>2^32\<close> divides and rounds down, and each fails with an \<open>OverflowError\<close> when the result has more than
  \<open>max_int_bits\<close> bits; a larger count is an \<open>OverflowError\<close> whatever the other operand.\<close>
theorem integer_bits_exact:
  assumes "integral l" "integral r"
  shows "bitand_values E fresh l r = Some (Inr (E, bit_spec (\<and>) (AND) l r)) \<and>
    bitor_values E fresh l r = Some (Inr (E, bit_spec (\<or>) (OR) l r)) \<and>
    bitxor_values E fresh l r = Some (Inr (E, bit_spec (\<noteq>) (XOR) l r)) \<and>
    lshift_values l r max_bits =
      (if int_value r < 0 then Inl (Interpreter (ValueError ''negative shift count''))
       else if int_value r \<le> 1000000 then int_from_bigint_limited (int_value l * 2 ^ nat (int_value r)) max_bits
       else Inl (overflow_error ''shift count too large'')) \<and>
    rshift_values l r max_bits =
      (if int_value r < 0 then Inl (Interpreter (ValueError ''negative shift count''))
       else if int_value r < 2 ^ 32 then int_from_bigint_limited (int_value l div 2 ^ nat (int_value r)) max_bits
       else Inl (overflow_error ''shift count too large''))"
proof -
  have "bit_numbers s1 b1 (AND) (AND) l r = Inr (bit_spec b1 (AND) l r)"
    "bit_numbers s1 b1 (OR) (OR) l r = Inr (bit_spec b1 (OR) l r)"
    "bit_numbers s1 b1 (XOR) (XOR) l r = Inr (bit_spec b1 (XOR) l r)" for s1 b1
    by (rule bit_numbers_exact [OF assms]; simp add: signed_and_eq signed_or_eq signed_xor_eq)+
  then show ?thesis
    using assms by (simp only: bitwise_integral shift_values_cases pure_result_def result_bind_simps simp_thms)
qed

theorem integer_bits_exact_witness:
  "bitand_values empty_env 0 (VInt (- 4)) (VBigInt 6) = Some (Inr (empty_env, int_from_bigint 4)) \<and>
   rshift_values (VInt (- 7)) (VInt 1) 64 = Inr (int_from_bigint (- 4))"
  using integer_bits_exact [of "VInt (- 4)" "VBigInt 6" empty_env 0] integer_bits_exact [of "VInt (- 7)" "VInt 1" empty_env 0 64]
  by (simp add: bit_spec_def int_from_bigint_limited_def bit_length.simps)

section \<open>Unary operators\<close>

text \<open>Negation and inversion of integers are exact too, the least 64-bit integer included.\<close>

lemma integer_unary_exact:
  assumes "integral v"
  shows "apply_unaryop A E truthy USub v = Inr (int_from_bigint (- int_value v)) \<and>
    apply_unaryop A E truthy Invert v = Inr (int_from_bigint (- int_value v - 1)) \<and>
    (\<exists>w. apply_unaryop A E truthy UAdd v = Inr w \<and> integral w \<and> int_value w = int_value v)"
proof -
  have inv: "int_from_bigint (- sint i - 1) = VInt (NOT i)" for i :: i64
  proof -
    have "in_i64 (- sint i - 1)" using in_i64_sint [of i] by (simp add: in_i64_bounds)
    then show ?thesis by (simp add: int_from_bigint_VInt not_eq_complement)
  qed
  have const: "int_from_bigint (- 1) = VInt (- 1)" "int_from_bigint 0 = VInt 0" "int_from_bigint (- 2) = VInt (- 2)"
    by (simp_all add: int_from_bigint_VInt in_i64_bounds)
  show ?thesis
    by (rule integral_cases [OF assms])
      (auto simp: apply_unaryop_def unwrap_int_enum_def inv const int_from_bigint_def [of "- sint i" for i] Let_def
        split: option.splits)
qed

section \<open>Concatenation and repetition\<close>

definition seq_view :: "env \<Rightarrow> pyval \<Rightarrow> (string \<times> nat \<times> nat) option" where
  "seq_view E v = (case v of
       VString s \<Rightarrow> Some (''str'', byte_len s, MAX_STRING_SIZE)
     | VBytes b \<Rightarrow> Some (''bytes'', length b, MAX_STRING_SIZE)
     | VByteArray a \<Rightarrow> Some (''bytearray'', length (bytes_at E a), MAX_STRING_SIZE)
     | VList a \<Rightarrow> Some (''list'', length (list_at E a), MAX_COLLECTION_SIZE)
     | VTuple xs \<Rightarrow> Some (''tuple'', length xs, MAX_COLLECTION_SIZE)
     | _ \<Rightarrow> None)"

lemma limits_below_usize: "MAX_STRING_SIZE < usize_max" "MAX_COLLECTION_SIZE < usize_max"
  by (simp_all add: MAX_STRING_SIZE_def MAX_COLLECTION_SIZE_def usize_max_def)

lemma repeat_seq_fits:
  "limit < usize_max \<Longrightarrow> nat (sint n) * len \<le> limit \<Longrightarrow>
   repeat_seq kind u limit len xs n = Inr (concat (replicate (nat (sint n)) xs))"
  by (auto simp: repeat_seq_def repeat_count_def Let_def min_def mult.commute)

lemma repeat_seq_fails:
  "limit < usize_max \<Longrightarrow> limit < nat (sint n) * len \<Longrightarrow>
   \<exists>m. result_bind (repeat_seq kind u limit len xs n) f = Inl (Interpreter (LimitExceeded m))"
  by (auto simp: repeat_seq_def repeat_count_def Let_def min_def mult.commute)

lemma byte_len_replicate: "byte_len (concat (replicate k s)) = k * byte_len s"
  by (induction k) (simp_all add: byte_len_append byte_len_Nil)

lemma length_concat_replicate: "length (concat (replicate k xs)) = k * length xs"
  by (induction k) simp_all

lemmas repeat_unfold = repeat_str_def repeat_bytes_def repeat_items_def

lemma seq_view_cases:
  assumes "seq_view E v = Some (kind, len, limit)"
  obtains s where "v = VString s" "kind = ''str''" "len = byte_len s" "limit = MAX_STRING_SIZE"
    | b where "v = VBytes b" "kind = ''bytes''" "len = length b" "limit = MAX_STRING_SIZE"
    | a where "v = VByteArray a" "kind = ''bytearray''" "len = length (bytes_at E a)" "limit = MAX_STRING_SIZE"
    | a where "v = VList a" "kind = ''list''" "len = length (list_at E a)" "limit = MAX_COLLECTION_SIZE"
    | xs where "v = VTuple xs" "kind = ''tuple''" "len = length xs" "limit = MAX_COLLECTION_SIZE"
  using assms by (cases v) (simp_all add: seq_view_def)

lemma dispatch_repeat:
  assumes "seq_view E v = Some (kind, len, limit)"
  shows "dispatch_binop A Mul E fresh v (VInt n) = Some (mult_values A E fresh v (VInt n))"
  using assms by (rule seq_view_cases)
    (simp_all add: dispatch_binop_def array_arith_def arith_slot_def str_arith_def bytes_arith_def
      list_arith_def tuple_arith_def seq_arith_def small_int_def apply_binop_builtin_def binop_kernel_def
      unwrap_enum_for_arith.simps)

text \<open>Repetition of a sequence by an integer is bounded before it allocates: when the size of the result, in bytes of
  text or in elements, is within the limit the result is a sequence of the same kind of exactly that size, and when it is
  above the limit the operation fails with \<open>LimitExceeded\<close>; a count of zero or less gives the empty sequence.\<close>
theorem repetition_bounded:
  assumes "seq_view E v = Some (kind, len, limit)"
  shows "if nat (sint n) * len \<le> limit
    then (\<exists>E' w. dispatch_binop A Mul E fresh v (VInt n) = Some (Inr (E', w)) \<and>
      seq_view E' w = Some (kind, nat (sint n) * len, limit))
    else (\<exists>m. dispatch_binop A Mul E fresh v (VInt n) = Some (Inl (Interpreter (LimitExceeded m))))"
proof (cases "nat (sint n) * len \<le> limit")
  case True
  with assms show ?thesis unfolding dispatch_repeat [OF assms]
    by (elim seq_view_cases) (simp_all add: mult_values_def small_int_def repeat_unfold
        limits_below_usize repeat_seq_fits seq_view_def byte_len_replicate length_concat_replicate fresh_bytes_def
        fresh_list_def set_bytes_def set_list_def)
next
  case False
  with assms show ?thesis unfolding dispatch_repeat [OF assms]
    by (elim seq_view_cases) (simp_all add: mult_values_def small_int_def repeat_unfold
        limits_below_usize repeat_seq_fails not_le)
qed

theorem repetition_bounded_witness:
  "(\<exists>E' w. dispatch_binop sample_arith Mul empty_env 0 (VTuple [VNone, VNone]) (VInt 3) = Some (Inr (E', w)) \<and>
     seq_view E' w = Some (''tuple'', 6, MAX_COLLECTION_SIZE)) \<and>
   (\<exists>m. dispatch_binop sample_arith Mul empty_env 0 (VTuple [VNone, VNone]) (VInt 8000000) =
     Some (Inl (Interpreter (LimitExceeded m))))"
  using repetition_bounded [of empty_env "VTuple [VNone, VNone]" "''tuple''" 2 MAX_COLLECTION_SIZE 3 sample_arith 0]
    repetition_bounded [of empty_env "VTuple [VNone, VNone]" "''tuple''" 2 MAX_COLLECTION_SIZE 8000000 sample_arith 0]
  by (simp add: seq_view_def MAX_COLLECTION_SIZE_def)

text \<open>Repetition is not symmetric.  An integer times a tuple fails with \<open>TypeError\<close> for every integer and tuple,
  although the slot of integers sends the pair on for repetition, and so does an integer times \<open>bytes\<close>, which the slot
  does not send on; the same operands in the other order repeat.  An array has no bound: it repeats past the limit of
  lists and tuples.\<close>
theorem repetition_asymmetric:
  "(\<exists>m. dispatch_binop A Mul E fresh (VInt n) (VTuple xs) = Some (Inl (Interpreter (TypeError m)))) \<and>
   (\<exists>m. dispatch_binop A Mul E fresh (VInt n) (VBytes b) = Some (Inl (Interpreter (TypeError m)))) \<and>
   (\<exists>E'. dispatch_binop A Mul E fresh (VArray tc a) (VInt n) = Some (Inr (E', VArray tc fresh)) \<and>
     length (list_at E' fresh) = nat (sint n) * length (list_at E a))"
proof -
  have "dispatch_binop A Mul E fresh (VInt n) (VTuple xs) = Some (mult_numbers A E (VInt n) (VTuple xs))"
    by (simp add: dispatch_binop_def unwrap_enum_for_arith.simps array_arith_def arith_slot_def numeric_arith_def
        is_numeric_def apply_binop_builtin_def binop_kernel_def mult_values_def small_int_def)
  moreover have "mult_numbers A E (VInt n) (VTuple xs) = Inl (integer_type_error (VTuple xs))"
    by (simp add: mult_numbers_def is_seq_def is_int_def either_is_float_def int_mul_def int_checked_def to_bigint_def
        value_as_bigint.simps pure_result_def)
  moreover have "dispatch_binop A Mul E fresh (VInt n) (VBytes b) = Some (Inl (unsupported_pair Mul (VInt n) (VBytes b)))"
    by (simp add: dispatch_binop_def unwrap_enum_for_arith.simps array_arith_def arith_slot_def numeric_arith_def
        is_numeric_def bytes_arith_def seq_arith_def)
  moreover have "max 0 (sint n) = int (nat (sint n))" by simp
  ultimately show ?thesis
    by (auto simp: integer_type_error_def type_error_def unsupported_pair_def repeat_error_def is_seq_def Let_def
        dispatch_binop_def unwrap_enum_for_arith.simps array_arith_def small_int_def set_list_def length_concat_replicate)
qed

end
