(* ===== verification/Exceptions.thy ===== *)
theory Exceptions
  imports State
begin

text \<open>
  Exceptions (\<open>eval/exceptions.rs\<close>): \<open>try\<close>, \<open>except*\<close>, \<open>raise\<close>, \<open>assert\<close>, the matching of handlers,
  and exception groups.

  The evaluation of one statement and of one expression are parameters: state transformers over
  the syntax of the program.  The theorems say what they need of them.
\<close>

section \<open>What exceptions need of the rest\<close>

text \<open>The text of a value (\<open>Display\<close> and \<open>repr\<close>), the address of a new list, and the truth of a value
  (\<open>op::truthy\<close>).  \<open>eq_depth\<close> bounds the nesting of the values that are compared.\<close>

record exc_runtime = runtime +
  value_display :: "env \<Rightarrow> pyval \<Rightarrow> string"
  value_repr :: "env \<Rightarrow> pyval \<Rightarrow> string"
  fresh_addr :: "env \<Rightarrow> addr"
  eq_depth :: nat

section \<open>Equality of values as Rust compares them\<close>

text \<open>\<open>impl PartialEq for Value\<close>: floats by their bits, no equality of an integer and a float, and none of
  functions or instances.\<close>

definition set_bodies_equal :: "(pyval \<Rightarrow> pyval \<Rightarrow> bool) \<Rightarrow> pyval set_body \<Rightarrow> pyval set_body \<Rightarrow> bool" where
  "set_bodies_equal eq a b \<longleftrightarrow> unordered_eq eq (body_iter_ordered a) (body_iter_ordered b)"

definition value_eq_arms :: "env \<Rightarrow> (pyval \<Rightarrow> pyval \<Rightarrow> bool) \<Rightarrow> pyval \<Rightarrow> pyval \<Rightarrow> bool" where
  "value_eq_arms E eq x y = (case x of
       VNone \<Rightarrow> (case y of VNone \<Rightarrow> True | _ \<Rightarrow> False)
     | VBool a \<Rightarrow> (case y of VBool b \<Rightarrow> a = b | VBigInt n \<Rightarrow> n = (if a then 1 else 0) | _ \<Rightarrow> False)
     | VInt a \<Rightarrow> (case y of
           VInt b \<Rightarrow> a = b
         | VBigInt n \<Rightarrow> n = sint a
         | VDecimal m s k \<Rightarrow> decimal_rat m s = of_int (sint a)
         | VFraction n d \<Rightarrow> n = sint a \<and> d = 1
         | _ \<Rightarrow> False)
     | VBigInt a \<Rightarrow> (case y of
           VBigInt b \<Rightarrow> a = b
         | VInt b \<Rightarrow> a = sint b
         | VBool b \<Rightarrow> a = (if b then 1 else 0)
         | VDecimal m s k \<Rightarrow> decimal_rat m s = of_int a
         | VFraction n d \<Rightarrow> n = a \<and> d = 1
         | _ \<Rightarrow> False)
     | VFloat a \<Rightarrow> (case y of VFloat b \<Rightarrow> a = b | _ \<Rightarrow> False)
     | VString a \<Rightarrow> (case y of VString b \<Rightarrow> a = b | _ \<Rightarrow> False)
     | VType a \<Rightarrow> (case y of VType b \<Rightarrow> a = b | _ \<Rightarrow> False)
     | VClass a \<Rightarrow> (case y of VClass b \<Rightarrow> a = b | _ \<Rightarrow> False)
     | VModule a \<Rightarrow> (case y of VModule b \<Rightarrow> a = b | _ \<Rightarrow> False)
     | VBytes a \<Rightarrow> (case y of VBytes b \<Rightarrow> a = b | VByteArray b \<Rightarrow> bytes_at E b = a | _ \<Rightarrow> False)
     | VByteArray a \<Rightarrow> (case y of
           VByteArray b \<Rightarrow> a = b \<or> bytes_at E a = bytes_at E b | VBytes b \<Rightarrow> bytes_at E a = b | _ \<Rightarrow> False)
     | VList a \<Rightarrow> (case y of VList b \<Rightarrow> a = b \<or> elementwise_eq eq (list_at E a) (list_at E b) | _ \<Rightarrow> False)
     | VArray c a \<Rightarrow> (case y of VArray d b \<Rightarrow> a = b \<or> elementwise_eq eq (list_at E a) (list_at E b) | _ \<Rightarrow> False)
     | VTuple a \<Rightarrow> (case y of VTuple b \<Rightarrow> elementwise_eq eq a b | _ \<Rightarrow> False)
     | VSet a \<Rightarrow> (case y of
           VSet b \<Rightarrow> a = b \<or> set_bodies_equal eq (set_at E a) (set_at E b)
         | VFrozenset b \<Rightarrow> set_bodies_equal eq (set_at E a) b
         | _ \<Rightarrow> False)
     | VFrozenset a \<Rightarrow> (case y of
           VFrozenset b \<Rightarrow> set_bodies_equal eq a b | VSet b \<Rightarrow> set_bodies_equal eq a (set_at E b) | _ \<Rightarrow> False)
     | VDict a \<Rightarrow> (case y of
           VDict b \<Rightarrow> a = b \<or> dict_content_eq E (values_equal E) eq (dict_at E a) (dict_at E b) | _ \<Rightarrow> False)
     | VRange a b c \<Rightarrow> (case y of VRange a' b' c' \<Rightarrow> a = a' \<and> b = b' \<and> c = c' | _ \<Rightarrow> False)
     | VException a \<Rightarrow> (case y of
           VException b \<Rightarrow> exc_type_name a = exc_type_name b \<and> exc_message a = exc_message b | _ \<Rightarrow> False)
     | VDate a \<Rightarrow> (case y of VDate b \<Rightarrow> a = b | _ \<Rightarrow> False)
     | VModuleFunction m n \<Rightarrow> (case y of VModuleFunction m' n' \<Rightarrow> m = m' \<and> n = n' | _ \<Rightarrow> False)
     | VDecimal m s k \<Rightarrow> (case y of
           VDecimal m' s' k' \<Rightarrow> decimal_rat m s = decimal_rat m' s'
         | VInt i \<Rightarrow> decimal_rat m s = of_int (sint i)
         | VBigInt i \<Rightarrow> decimal_rat m s = of_int i
         | _ \<Rightarrow> False)
     | VFraction n d \<Rightarrow> (case y of
           VFraction n' d' \<Rightarrow> n = n' \<and> d = d'
         | VInt i \<Rightarrow> n = sint i \<and> d = 1
         | VBigInt i \<Rightarrow> n = i \<and> d = 1
         | _ \<Rightarrow> False)
     | _ \<Rightarrow> False)"

text \<open>Enum members come after the arms that do not mention them, which is the same order.  A comparison that
  nests deeper than the bound is answered \<open>False\<close> where the code recurses further.\<close>

definition value_eq_step :: "env \<Rightarrow> (pyval \<Rightarrow> pyval \<Rightarrow> bool) \<Rightarrow> pyval \<Rightarrow> pyval \<Rightarrow> bool" where
  "value_eq_step E eq x y = (case x of
       VEnumMember c m v k \<Rightarrow> (case y of
           VEnumMember c' m' v' k' \<Rightarrow> c = c' \<and> m = m'
         | _ \<Rightarrow> value_kind k \<and> eq v y)
     | _ \<Rightarrow> (case y of
           VEnumMember c' m' v' k' \<Rightarrow> value_kind k' \<and> eq x v'
         | _ \<Rightarrow> value_eq_arms E eq x y))"

primrec value_eq :: "env \<Rightarrow> nat \<Rightarrow> pyval \<Rightarrow> pyval \<Rightarrow> bool" where
  "value_eq E 0 x y = False"
| "value_eq E (Suc n) x y = value_eq_step E (value_eq E n) x y"

section \<open>Statements\<close>

type_synonym ('x, 'a) eval = "interp_state \<Rightarrow> 'x \<Rightarrow> interp_state \<times> 'a eval_result"

fun eval_body_from :: "('stmt, pyval) eval \<Rightarrow> pyval \<Rightarrow> interp_state \<Rightarrow> 'stmt list \<Rightarrow> interp_state \<times> pyval eval_result" where
  "eval_body_from eval_stmt result s [] = (s, Inr result)"
| "eval_body_from eval_stmt result s (stmt # rest) = (case eval_stmt s stmt of
       (s1, Inl e) \<Rightarrow> (s1, Inl e)
     | (s1, Inr v) \<Rightarrow> eval_body_from eval_stmt v s1 rest)"

definition eval_body :: "('stmt, pyval) eval \<Rightarrow> interp_state \<Rightarrow> 'stmt list \<Rightarrow> interp_state \<times> pyval eval_result" where
  "eval_body eval_stmt s body = eval_body_from eval_stmt VNone s body"

record ('stmt, 'expr) handler =
  h_type :: "'expr option"
  h_name :: "string option"
  h_body :: "'stmt list"

record ('stmt, 'expr) stmt_try =
  try_body :: "'stmt list"
  try_handlers :: "('stmt, 'expr) handler list"
  try_orelse :: "'stmt list"
  try_finalbody :: "'stmt list"

section \<open>Matching\<close>

definition latin_name :: "pystr \<Rightarrow> string option" where
  "latin_name s = (if list_all (\<lambda>c. c < 256) s then Some (List.map char_of s) else None)"

definition matcher_name :: "pyval \<Rightarrow> string option" where
  "matcher_name v = (case v of
       VExceptionType n \<Rightarrow> Some n | VClass n \<Rightarrow> Some n | VString s \<Rightarrow> latin_name s | _ \<Rightarrow> None)"

definition matches_user_exception :: "interp_state \<Rightarrow> exception_value \<Rightarrow> string \<Rightarrow> bool" where
  "matches_user_exception s exc handler_name = (case class_mro s (exc_type_name exc) of
       None \<Rightarrow> False
     | Some mro \<Rightarrow> list_ex (\<lambda>base. base = handler_name \<or> builtin_exception_issubclass base handler_name) mro)"

definition matches_exception_type :: "interp_state \<Rightarrow> exception_value \<Rightarrow> pyval \<Rightarrow> bool" where
  "matches_exception_type s exc type_val = (case matcher_name type_val of
       None \<Rightarrow> False
     | Some tname \<Rightarrow>
         tname = ''Exception'' \<or> tname = ''BaseException'' \<or> exc_type_name exc = tname \<or>
         builtin_exception_issubclass (exc_type_name exc) tname \<or> matches_user_exception s exc tname)"

definition matches_handler ::
  "('expr, pyval) eval \<Rightarrow> interp_state \<Rightarrow> exception_value \<Rightarrow> ('stmt, 'expr) handler \<Rightarrow> interp_state \<times> bool eval_result" where
  "matches_handler eval_expr s exc h = (case h_type h of
       None \<Rightarrow> (s, Inr True)
     | Some type_expr \<Rightarrow> (case eval_expr s type_expr of
         (s1, Inl e) \<Rightarrow> (s1, Inl e)
       | (s1, Inr type_val) \<Rightarrow> (s1, Inr (case type_val of
             VTuple types \<Rightarrow> list_ex (matches_exception_type s1 exc) types
           | _ \<Rightarrow> matches_exception_type s1 exc type_val))))"

section \<open>Context\<close>

definition field_insert :: "string \<Rightarrow> pyval \<Rightarrow> (string \<times> pyval) list \<Rightarrow> (string \<times> pyval) list" where
  "field_insert name v fs = assoc_insert (=) name v fs"

definition with_field :: "exception_value \<Rightarrow> string \<Rightarrow> pyval \<Rightarrow> exception_value" where
  "with_field e name v = (case e of
     ExceptionValue t m c a l x f \<Rightarrow> ExceptionValue t m c a l x (field_insert name v f))"

definition set_implicit_context ::
  "(pyval \<Rightarrow> pyval \<Rightarrow> bool) \<Rightarrow> exception_value \<Rightarrow> exception_value \<Rightarrow> exception_value" where
  "set_implicit_context eq exc handled =
     (let already_chained = map_of (exc_fields exc) ''__context__'' \<noteq> None;
          is_reraise = (exc_type_name exc = exc_type_name handled \<and> exc_message exc = exc_message handled \<and>
            elementwise_eq eq (exc_args exc) (exc_args handled)) in
      if \<not> already_chained \<and> \<not> is_reraise then with_field exc ''__context__'' (VException handled) else exc)"

definition chain_context :: "(pyval \<Rightarrow> pyval \<Rightarrow> bool) \<Rightarrow> eval_error \<Rightarrow> exception_value \<Rightarrow> eval_error" where
  "chain_context eq err handled = (case err of
       Exception exc \<Rightarrow> Exception (set_implicit_context eq exc handled) | _ \<Rightarrow> err)"

abbreviation rust_eq :: "exc_runtime \<Rightarrow> interp_state \<Rightarrow> pyval \<Rightarrow> pyval \<Rightarrow> bool" where
  "rust_eq R s \<equiv> value_eq (heap_env s) (eq_depth R)"

definition push_exception :: "interp_state \<Rightarrow> exception_value \<Rightarrow> interp_state" where
  "push_exception s e = s\<lparr>active_exception_stack := e # active_exception_stack s\<rparr>"

definition pop_exception :: "interp_state \<Rightarrow> interp_state" where
  "pop_exception s = s\<lparr>active_exception_stack := tl (active_exception_stack s)\<rparr>"

section \<open>Handlers\<close>

text \<open>Binding the name of a handler can exceed the memory limit.\<close>

definition bind_name :: "exc_runtime \<Rightarrow> interp_state \<Rightarrow> string option \<Rightarrow> exception_value \<Rightarrow> interp_state \<times> unit eval_result" where
  "bind_name R s name exc = (case name of
       None \<Rightarrow> (s, Inr ())
     | Some n \<Rightarrow> (case set_variable (runtime.truncate R) s n (VException exc) of
         (s1, Inl e) \<Rightarrow> (s1, Inl (Interpreter e)) | (s1, Inr u) \<Rightarrow> (s1, Inr ())))"

definition unbind_name :: "exc_runtime \<Rightarrow> interp_state \<Rightarrow> string option \<Rightarrow> interp_state" where
  "unbind_name R s name = (case name of None \<Rightarrow> s | Some n \<Rightarrow> fst (delete_variable (runtime.truncate R) s n))"

definition run_handler ::
  "('stmt, pyval) eval \<Rightarrow> exc_runtime \<Rightarrow> interp_state \<Rightarrow> exception_value \<Rightarrow> ('stmt, 'expr) handler \<Rightarrow>
   interp_state \<times> (pyval \<times> eval_error option) eval_result" where
  "run_handler eval_stmt R s exc0 h =
     (let exc = (case active_exception_stack s of outer # _ \<Rightarrow> set_implicit_context (rust_eq R s) exc0 outer | [] \<Rightarrow> exc0) in
      case bind_name R s (h_name h) exc of
        (s1, Inl e) \<Rightarrow> (s1, Inl e)
      | (s1, Inr u) \<Rightarrow> (case eval_body eval_stmt (push_exception s1 exc) (h_body h) of
          (s2, body_result) \<Rightarrow>
            (unbind_name R (pop_exception s2) (h_name h),
             Inr (case body_result of Inr v \<Rightarrow> (v, None) | Inl err \<Rightarrow> (VNone, Some (chain_context (rust_eq R s2) err exc))))))"

fun try_match_handlers ::
  "('stmt, pyval) eval \<Rightarrow> ('expr, pyval) eval \<Rightarrow> exc_runtime \<Rightarrow> interp_state \<Rightarrow> exception_value \<Rightarrow>
   ('stmt, 'expr) handler list \<Rightarrow> interp_state \<times> (pyval \<times> eval_error option) option eval_result" where
  "try_match_handlers eval_stmt eval_expr R s exc [] = (s, Inr None)"
| "try_match_handlers eval_stmt eval_expr R s exc (h # hs) = (case matches_handler eval_expr s exc h of
       (s1, Inl e) \<Rightarrow> (s1, Inl e)
     | (s1, Inr b) \<Rightarrow>
         if b then
           (case run_handler eval_stmt R s1 exc h of
              (s2, Inl e) \<Rightarrow> (s2, Inl e) | (s2, Inr r) \<Rightarrow> (s2, Inr (Some r)))
         else try_match_handlers eval_stmt eval_expr R s1 exc hs)"

text \<open>The end of a \<open>try\<close>: the \<open>finally\<close> block, whose error replaces the pending one.\<close>

definition finish_try ::
  "('stmt, pyval) eval \<Rightarrow> 'stmt list \<Rightarrow> interp_state \<Rightarrow> pyval \<Rightarrow> eval_error option \<Rightarrow> interp_state \<times> pyval eval_result" where
  "finish_try eval_stmt finalbody s result pending_error =
     (let outcome = (\<lambda>s1. (s1, case pending_error of Some err \<Rightarrow> Inl err | None \<Rightarrow> Inr result)) in
      if finalbody \<noteq> [] then
        (case eval_body eval_stmt s finalbody of (s1, Inl e) \<Rightarrow> (s1, Inl e) | (s1, Inr v) \<Rightarrow> outcome s1)
      else outcome s)"

text \<open>\<open>eval_try\<close> and \<open>eval_try_star_inner\<close> have the same shape and differ in the matching.\<close>

definition try_with ::
  "(interp_state \<Rightarrow> exception_value \<Rightarrow> ('stmt, 'expr) handler list \<Rightarrow>
      interp_state \<times> (pyval \<times> eval_error option) option eval_result) \<Rightarrow>
   ('stmt, pyval) eval \<Rightarrow> interp_state \<Rightarrow> ('stmt, 'expr) stmt_try \<Rightarrow> interp_state \<times> pyval eval_result" where
  "try_with matching eval_stmt s node =
     (let finish = finish_try eval_stmt (try_finalbody node);
          handle = (\<lambda>s1 exc unmatched. case matching s1 exc (try_handlers node) of
            (s2, Inl e) \<Rightarrow> (s2, Inl e)
          | (s2, Inr None) \<Rightarrow> finish s2 VNone (Some unmatched)
          | (s2, Inr (Some (v, new_error))) \<Rightarrow> finish s2 v new_error) in
      case eval_body eval_stmt s (try_body node) of
        (s1, Inr v) \<Rightarrow> (case eval_body eval_stmt s1 (try_orelse node) of
            (s2, Inr v') \<Rightarrow> finish s2 v' None
          | (s2, Inl e) \<Rightarrow> finish s2 v (Some e))
      | (s1, Inl (Signal (Yield v))) \<Rightarrow> (s1, Inl (Signal (Yield v)))
      | (s1, Inl (Signal sig)) \<Rightarrow> finish s1 VNone (Some (Signal sig))
      | (s1, Inl (Exception exc)) \<Rightarrow> handle s1 exc (Exception exc)
      | (s1, Inl (Interpreter ie)) \<Rightarrow> handle s1 (interpreter_error_to_exception ie) (Interpreter ie))"

definition eval_try ::
  "('stmt, pyval) eval \<Rightarrow> ('expr, pyval) eval \<Rightarrow> exc_runtime \<Rightarrow> interp_state \<Rightarrow> ('stmt, 'expr) stmt_try \<Rightarrow>
   interp_state \<times> pyval eval_result" where
  "eval_try eval_stmt eval_expr R s node = try_with (try_match_handlers eval_stmt eval_expr R) eval_stmt s node"

section \<open>except*\<close>

text \<open>\<open>ExceptionValue::group\<close> with its allocation.\<close>

definition new_group ::
  "exc_runtime \<Rightarrow> interp_state \<Rightarrow> string \<Rightarrow> string \<Rightarrow> exception_value list \<Rightarrow> interp_state \<times> exception_value" where
  "new_group R s tname message xs =
     (let a = fresh_addr R (heap_env s) in
      (s\<lparr>heap_env := set_list (heap_env s) a (List.map VException xs)\<rparr>, exception_group a tname message xs))"

fun match_leaves ::
  "('expr, pyval) eval \<Rightarrow> interp_state \<Rightarrow> ('stmt, 'expr) handler \<Rightarrow> exception_value list \<Rightarrow>
   interp_state \<times> (exception_value list \<times> exception_value list) eval_result" where
  "match_leaves eval_expr s h [] = (s, Inr ([], []))"
| "match_leaves eval_expr s h (leaf # rest) = (case matches_handler eval_expr s leaf h of
       (s1, Inl e) \<Rightarrow> (s1, Inl e)
     | (s1, Inr b) \<Rightarrow> (case match_leaves eval_expr s1 h rest of
         (s2, Inl e) \<Rightarrow> (s2, Inl e)
       | (s2, Inr (matched, unmatched)) \<Rightarrow>
           (s2, Inr (if b then (leaf # matched, unmatched) else (matched, leaf # unmatched)))))"

text \<open>The loop over the handlers: the last value, the error of a handler, whether any handler ran, and what
  remains unmatched.  An error of a handler ends the loop before the handler's name is deleted.\<close>

fun star_loop ::
  "('stmt, pyval) eval \<Rightarrow> ('expr, pyval) eval \<Rightarrow> exc_runtime \<Rightarrow> string \<Rightarrow> interp_state \<Rightarrow> pyval \<Rightarrow> bool \<Rightarrow>
   exception_value list \<Rightarrow> ('stmt, 'expr) handler list \<Rightarrow>
   interp_state \<times> (pyval \<times> eval_error option \<times> bool \<times> exception_value list) eval_result" where
  "star_loop eval_stmt eval_expr R message s last_value any_matched remaining [] =
     (s, Inr (last_value, None, any_matched, remaining))"
| "star_loop eval_stmt eval_expr R message s last_value any_matched remaining (h # hs) =
     (if remaining = [] then (s, Inr (last_value, None, any_matched, remaining))
      else case match_leaves eval_expr s h remaining of
        (s1, Inl e) \<Rightarrow> (s1, Inl e)
      | (s1, Inr (matched, unmatched)) \<Rightarrow>
          if matched = [] then star_loop eval_stmt eval_expr R message s1 last_value any_matched unmatched hs
          else (case new_group R s1 ''ExceptionGroup'' message matched of
            (s2, grp) \<Rightarrow> (case bind_name R s2 (h_name h) grp of
              (s3, Inl e) \<Rightarrow> (s3, Inl e)
            | (s3, Inr u) \<Rightarrow> (case eval_body eval_stmt (push_exception s3 grp) (h_body h) of
                (s4, Inr v) \<Rightarrow>
                  star_loop eval_stmt eval_expr R message (unbind_name R (pop_exception s4) (h_name h)) v True unmatched hs
              | (s4, Inl err) \<Rightarrow>
                  (pop_exception s4, Inr (last_value, Some (chain_context (rust_eq R s4) err grp), True, unmatched))))))"

definition try_match_star_handlers ::
  "('stmt, pyval) eval \<Rightarrow> ('expr, pyval) eval \<Rightarrow> exc_runtime \<Rightarrow> interp_state \<Rightarrow> exception_value \<Rightarrow>
   ('stmt, 'expr) handler list \<Rightarrow> interp_state \<times> (pyval \<times> eval_error option) option eval_result" where
  "try_match_star_handlers eval_stmt eval_expr R s exc handlers =
     (let remaining = (case exc_exceptions exc of Some nested \<Rightarrow> nested | None \<Rightarrow> [exc]) in
      case star_loop eval_stmt eval_expr R (exc_message exc) s VNone False remaining handlers of
        (s1, Inl e) \<Rightarrow> (s1, Inl e)
      | (s1, Inr (last_value, Some err, any_matched, rest)) \<Rightarrow> (s1, Inr (Some (last_value, Some err)))
      | (s1, Inr (last_value, None, any_matched, rest)) \<Rightarrow>
          (case rest of
             [] \<Rightarrow> (s1, Inr (if any_matched then Some (last_value, None) else None))
           | x # others \<Rightarrow>
               if others = [] \<and> exc_exceptions x = None then (s1, Inr (Some (last_value, Some (Exception x))))
               else (case new_group R s1 ''ExceptionGroup'' (exc_message exc) rest of
                 (s2, grp) \<Rightarrow> (s2, Inr (Some (last_value, Some (Exception grp)))))))"

definition eval_try_star ::
  "('stmt, pyval) eval \<Rightarrow> ('expr, pyval) eval \<Rightarrow> exc_runtime \<Rightarrow> interp_state \<Rightarrow> ('stmt, 'expr) stmt_try \<Rightarrow>
   interp_state \<times> pyval eval_result" where
  "eval_try_star eval_stmt eval_expr R s node =
     try_with (try_match_star_handlers eval_stmt eval_expr R) eval_stmt s node"

section \<open>raise and assert\<close>

record 'expr stmt_raise =
  raise_exc :: "'expr option"
  raise_cause :: "'expr option"

definition exception_type_names :: "string list" where
  "exception_type_names =
     [''Exception'', ''ValueError'', ''TypeError'', ''KeyError'', ''IndexError'', ''AttributeError'', ''RuntimeError'',
      ''StopIteration'', ''ZeroDivisionError'', ''OverflowError'', ''AssertionError'', ''NotImplementedError'',
      ''FileNotFoundError'', ''IOError'', ''OSError'', ''NameError'', ''ArithmeticError'', ''LookupError'',
      ''RecursionError'', ''ExceptionGroup'', ''BaseExceptionGroup'', ''GeneratorExit'', ''StopAsyncIteration'',
      ''KeyboardInterrupt'', ''SystemExit'', ''UnicodeError'', ''UnicodeDecodeError'', ''UnicodeEncodeError'',
      ''FloatingPointError'', ''BufferError'', ''ReferenceError'', ''MemoryError'', ''PermissionError'',
      ''NotADirectoryError'', ''IsADirectoryError'', ''FileExistsError'', ''InterruptedError'', ''ConnectionError'',
      ''ConnectionAbortedError'', ''ConnectionRefusedError'', ''ConnectionResetError'', ''ProcessLookupError'',
      ''TimeoutError'', ''BlockingIOError'', ''ChildProcessError'', ''BrokenPipeError'', ''IndentationError'',
      ''TabError'', ''SyntaxError'', ''SystemError'', ''EOFError'', ''ModuleNotFoundError'', ''ImportError'',
      ''UnboundLocalError'', ''BaseException'']"

definition is_exception_type_name :: "string \<Rightarrow> bool" where
  "is_exception_type_name name \<longleftrightarrow> name \<in> set exception_type_names"

definition replace_cause :: "exception_value \<Rightarrow> exception_value option \<Rightarrow> exception_value" where
  "replace_cause e cause = (case e of
     ExceptionValue t m c a l x f \<Rightarrow> ExceptionValue t m cause a l x f)"

text \<open>The value that is raised: an exception keeps its contents but its cause is replaced; the name of a
  type gives a new exception.\<close>

definition raise_value ::
  "exc_runtime \<Rightarrow> env \<Rightarrow> pyval \<Rightarrow> bool \<Rightarrow> exception_value option \<Rightarrow> eval_error" where
  "raise_value R E exc_val has_explicit_from cause =
     (let set_suppress = (\<lambda>exc. with_field exc ''__suppress_context__'' (VBool has_explicit_from));
          of_type = (\<lambda>tname. let exc = exception_new tname [] in
            Exception (set_suppress (case cause of Some c \<Rightarrow> with_cause exc c | None \<Rightarrow> exc))) in
      case exc_val of
        VException exc \<Rightarrow> Exception (set_suppress (replace_cause exc cause))
      | VExceptionType tname \<Rightarrow> of_type tname
      | _ \<Rightarrow> (let tname = value_display R E exc_val in
          if is_exception_type_name tname then of_type tname
          else Interpreter (TypeError (''exceptions must derive from BaseException, not '' @ [CHR 39] @
            type_name exc_val @ [CHR 39]))))"

definition eval_raise ::
  "('expr, pyval) eval \<Rightarrow> exc_runtime \<Rightarrow> interp_state \<Rightarrow> 'expr stmt_raise \<Rightarrow> interp_state \<times> pyval eval_result" where
  "eval_raise eval_expr R s node = (case raise_exc node of
       None \<Rightarrow> (s, Inl (case active_exception_stack s of
           exc # _ \<Rightarrow> Exception exc
         | [] \<Rightarrow> Interpreter (Runtime ''No active exception to re-raise'')))
     | Some exc_expr \<Rightarrow> (case eval_expr s exc_expr of
         (s1, Inl e) \<Rightarrow> (s1, Inl e)
       | (s1, Inr exc_val) \<Rightarrow> (case raise_cause node of
           None \<Rightarrow> (s1, Inl (raise_value R (heap_env s1) exc_val False None))
         | Some cause_expr \<Rightarrow> (case eval_expr s1 cause_expr of
             (s2, Inl e) \<Rightarrow> (s2, Inl e)
           | (s2, Inr c) \<Rightarrow> (s2, Inl (raise_value R (heap_env s2) exc_val True
               (case c of VException e \<Rightarrow> Some e | _ \<Rightarrow> None)))))))"

text \<open>\<open>truthy\<close> can run a \<open>__bool__\<close>: it is an evaluation of a value.\<close>

definition eval_assert ::
  "('expr, pyval) eval \<Rightarrow> (pyval, bool) eval \<Rightarrow> exc_runtime \<Rightarrow> interp_state \<Rightarrow> 'expr \<Rightarrow> 'expr option \<Rightarrow>
   interp_state \<times> pyval eval_result" where
  "eval_assert eval_expr truthy R s test msg = (case eval_expr s test of
       (s1, Inl e) \<Rightarrow> (s1, Inl e)
     | (s1, Inr v) \<Rightarrow> (case truthy s1 v of
         (s2, Inl e) \<Rightarrow> (s2, Inl e)
       | (s2, Inr True) \<Rightarrow> (s2, Inr VNone)
       | (s2, Inr False) \<Rightarrow> (case msg of
           None \<Rightarrow> (s2, Inl (Exception (exception_new ''AssertionError'' [])))
         | Some msg_expr \<Rightarrow> (case eval_expr s2 msg_expr of
             (s3, Inl e) \<Rightarrow> (s3, Inl e)
           | (s3, Inr m) \<Rightarrow> (s3, Inl (Exception (exception_new ''AssertionError'' (value_display R (heap_env s3) m))))))))"

section \<open>Exception values\<close>

primrec nested_exceptions :: "string \<Rightarrow> pyval list \<Rightarrow> interpreter_error + exception_value list" where
  "nested_exceptions tname [] = Inr []"
| "nested_exceptions tname (v # vs) = (case v of
       VException e \<Rightarrow> (case nested_exceptions tname vs of Inl err \<Rightarrow> Inl err | Inr es \<Rightarrow> Inr (e # es))
     | _ \<Rightarrow> Inl (TypeError (''Item in '' @ tname @ '' must be an exception, not '' @ [CHR 39] @ type_name v @ [CHR 39])))"

definition construct_group ::
  "exc_runtime \<Rightarrow> interp_state \<Rightarrow> string \<Rightarrow> pyval list \<Rightarrow> interp_state \<times> pyval eval_result" where
  "construct_group R s tname args =
     (let fail = (\<lambda>err. (s, Inl (Interpreter err)));
          build = (\<lambda>m items. case nested_exceptions tname items of
            Inl err \<Rightarrow> fail err
          | Inr nested \<Rightarrow>
              if nested = [] then fail (ValueError ''second argument (exceptions) must be a non-empty sequence'')
              else (case new_group R s tname (value_display R (heap_env s) m) nested of
                (s1, grp) \<Rightarrow> (s1, Inr (VException grp)))) in
      case args of
        [m, VList a] \<Rightarrow> build m (list_at (heap_env s) a)
      | [m, VTuple items] \<Rightarrow> build m items
      | [m, other] \<Rightarrow> fail (TypeError (''second argument (exceptions) must be a sequence (got '' @ [CHR 39] @
          type_name other @ [CHR 39] @ '')''))
      | _ \<Rightarrow> fail (TypeError (tname @ ''() takes exactly 2 arguments ('' @ nat_digits (length args) @ '')'')))"

definition join_with :: "string \<Rightarrow> string list \<Rightarrow> string" where
  "join_with sep xs = (case xs of [] \<Rightarrow> [] | x # rest \<Rightarrow> x @ concat (List.map (\<lambda>y. sep @ y) rest))"

definition construct_exception_type ::
  "exc_runtime \<Rightarrow> interp_state \<Rightarrow> string \<Rightarrow> pyval list \<Rightarrow> interp_state \<times> pyval eval_result" where
  "construct_exception_type R s tname args =
     (if tname = ''ExceptionGroup'' \<or> tname = ''BaseExceptionGroup'' then construct_group R s tname args
      else let E = heap_env s;
               message = (case args of
                 [] \<Rightarrow> []
               | [v] \<Rightarrow> if tname = ''KeyError'' then value_repr R E v else value_display R E v
               | _ \<Rightarrow> join_with '', '' (List.map (value_display R E) args))
           in (s, Inr (VException (with_args (exception_new tname message) args))))"

section \<open>Groups\<close>

lemma nested_smaller [termination_simp]:
  assumes "exc_exceptions exc = Some nested" "x \<in> set nested"
  shows "size x < size exc"
  using assms size_in_list [OF assms(2)] by (cases exc) simp

fun flatten :: "exception_value \<Rightarrow> exception_value list" where
  "flatten exc = (case exc_exceptions exc of None \<Rightarrow> [exc] | Some nested \<Rightarrow> concat (List.map flatten nested))"

declare flatten.simps [simp del]

definition name_matches :: "exception_value \<Rightarrow> pyval \<Rightarrow> bool" where
  "name_matches leaf m = (case matcher_name m of
       None \<Rightarrow> False
     | Some n \<Rightarrow> exc_type_name leaf = n \<or> builtin_exception_issubclass (exc_type_name leaf) n)"

definition matches_type :: "pyval \<Rightarrow> exception_value \<Rightarrow> bool" where
  "matches_type matcher leaf = (case matcher of
       VTuple items \<Rightarrow> list_ex (name_matches leaf) items | _ \<Rightarrow> name_matches leaf matcher)"

definition group_leaves :: "exception_value \<Rightarrow> exception_value list" where
  "group_leaves exc =
     concat (List.map flatten (case exc_exceptions exc of Some nested \<Rightarrow> nested | None \<Rightarrow> [exc]))"

text \<open>A part of a group: \<open>None\<close> when it is empty.\<close>

definition group_part ::
  "exc_runtime \<Rightarrow> interp_state \<Rightarrow> exception_value \<Rightarrow> exception_value list \<Rightarrow> interp_state \<times> pyval" where
  "group_part R s exc xs =
     (if xs = [] then (s, VNone)
      else case new_group R s (exc_type_name exc) (exc_message exc) xs of (s1, grp) \<Rightarrow> (s1, VException grp))"

definition call_exception_method ::
  "exc_runtime \<Rightarrow> interp_state \<Rightarrow> string \<Rightarrow> exception_value \<Rightarrow> pyval list \<Rightarrow> interp_state \<times> pyval eval_result" where
  "call_exception_method R s method exc args =
     (let type_error = (\<lambda>m. (s, Inl (Interpreter (TypeError m)))) in
      if method = ''add_note'' then
        (case args of
           [] \<Rightarrow> type_error ''add_note() takes exactly one positional argument (0 given)''
         | note # _ \<Rightarrow> (case note of
             VString _ \<Rightarrow> (s, Inr VNone)
           | _ \<Rightarrow> type_error (''note must be a str, not '' @ type_name note)))
      else if method = ''with_traceback'' then
        (if args = [] then type_error ''with_traceback() takes exactly one argument (0 given)''
         else (s, Inr (VException exc)))
      else case args of
        [] \<Rightarrow> type_error (method @ ''() takes exactly 1 argument (0 given)'')
      | matcher # _ \<Rightarrow>
          let flat = group_leaves exc;
              matched = filter (matches_type matcher) flat;
              rest = filter (\<lambda>leaf. \<not> matches_type matcher leaf) flat in
          if method = ''subgroup'' then (case group_part R s exc matched of (s1, m) \<Rightarrow> (s1, Inr m))
          else if method = ''split'' then
            (case group_part R s exc matched of
               (s1, m) \<Rightarrow> (case group_part R s1 exc rest of (s2, r) \<Rightarrow> (s2, Inr (VTuple [m, r]))))
          else (s, Inl (Interpreter (AttributeError ([CHR 39] @ exc_type_name exc @ [CHR 39] @
            '' object has no attribute '' @ [CHR 39] @ method @ [CHR 39])))))"

section \<open>The stack of handled exceptions\<close>

definition keeps_stack :: "('x, 'a) eval \<Rightarrow> bool" where
  "keeps_stack f \<longleftrightarrow> (\<forall>s x. active_exception_stack (fst (f s x)) = active_exception_stack s)"

lemma keeps_stackD: "keeps_stack f \<Longrightarrow> f s x = (s', r) \<Longrightarrow> active_exception_stack s' = active_exception_stack s"
  unfolding keeps_stack_def by (metis fst_conv)

lemma keeps_stackI:
  "(\<And>s x s' r. f s x = (s', r) \<Longrightarrow> active_exception_stack s' = active_exception_stack s) \<Longrightarrow> keeps_stack f"
  unfolding keeps_stack_def by (metis prod.collapse)

lemma write_through_stack [simp]: "active_exception_stack (write_through s n v) = active_exception_stack s"
  by (simp add: write_through_def split: list.split option.split)

lemma set_variable_stack [simp]: "active_exception_stack (fst (set_variable R s n v)) = active_exception_stack s"
  by (simp add: set_variable_def Let_def)

lemma delete_variable_stack [simp]: "active_exception_stack (fst (delete_variable R s n)) = active_exception_stack s"
  by (simp add: delete_variable_def split: option.split)

lemma unbind_name_stack [simp]: "active_exception_stack (unbind_name R s n) = active_exception_stack s"
  by (simp add: unbind_name_def split: option.split)

lemma bind_name_stack: "bind_name R s n e = (s', r) \<Longrightarrow> active_exception_stack s' = active_exception_stack s"
  using set_variable_stack [of "runtime.truncate R" s "the n" "VException e"]
  by (auto simp: bind_name_def simp del: set_variable_stack split: option.splits prod.splits sum.splits)

lemma push_pop_stack [simp]:
  "active_exception_stack (push_exception s e) = e # active_exception_stack s"
  "active_exception_stack (pop_exception s) = tl (active_exception_stack s)"
  by (simp_all add: push_exception_def pop_exception_def)

lemma new_group_stack: "new_group R s t m xs = (s', g) \<Longrightarrow> active_exception_stack s' = active_exception_stack s"
  by (auto simp: new_group_def Let_def)

lemma eval_body_from_stack:
  assumes "keeps_stack eval_stmt"
  shows "eval_body_from eval_stmt v s body = (s', r) \<Longrightarrow> active_exception_stack s' = active_exception_stack s"
  by (induction body arbitrary: s v) (auto split: prod.splits sum.splits dest: keeps_stackD [OF assms])

lemma eval_body_stack:
  "keeps_stack eval_stmt \<Longrightarrow> eval_body eval_stmt s body = (s', r) \<Longrightarrow> active_exception_stack s' = active_exception_stack s"
  by (simp add: eval_body_def eval_body_from_stack)

lemma matches_handler_stack:
  "keeps_stack eval_expr \<Longrightarrow> matches_handler eval_expr s exc h = (s', r) \<Longrightarrow>
    active_exception_stack s' = active_exception_stack s"
  by (auto simp: matches_handler_def split: option.splits prod.splits sum.splits dest: keeps_stackD)

lemma run_handler_stack:
  assumes "keeps_stack eval_stmt" "run_handler eval_stmt R s exc h = (s', r)"
  shows "active_exception_stack s' = active_exception_stack s"
  using assms(2)
  by (auto simp: run_handler_def Let_def split: prod.splits sum.splits
      dest!: bind_name_stack eval_body_stack [OF assms(1)])

lemma try_match_handlers_stack:
  assumes "keeps_stack eval_stmt" "keeps_stack eval_expr"
  shows "try_match_handlers eval_stmt eval_expr R s exc hs = (s', r) \<Longrightarrow>
    active_exception_stack s' = active_exception_stack s"
  by (induction hs arbitrary: s)
    (auto split: prod.splits sum.splits if_splits
      dest!: matches_handler_stack [OF assms(2)] run_handler_stack [OF assms(1)])

lemma match_leaves_stack:
  assumes "keeps_stack eval_expr"
  shows "match_leaves eval_expr s h xs = (s', r) \<Longrightarrow> active_exception_stack s' = active_exception_stack s"
  by (induction xs arbitrary: s s' r)
    (fastforce split: prod.splits sum.splits if_splits dest!: matches_handler_stack [OF assms])+

lemma star_loop_stack:
  assumes "keeps_stack eval_stmt" "keeps_stack eval_expr"
  shows "star_loop eval_stmt eval_expr R m s v a xs hs = (s', r) \<Longrightarrow>
    active_exception_stack s' = active_exception_stack s"
proof (induction hs arbitrary: s v a xs)
  case (Cons h hs)
  show ?case
    using Cons.prems
    by (auto split: prod.splits sum.splits if_splits dest!: match_leaves_stack [OF assms(2)] new_group_stack
        bind_name_stack eval_body_stack [OF assms(1)] Cons.IH)
qed auto

lemma try_match_star_stack:
  assumes "keeps_stack eval_stmt" "keeps_stack eval_expr"
    "try_match_star_handlers eval_stmt eval_expr R s exc hs = (s', r)"
  shows "active_exception_stack s' = active_exception_stack s"
  using assms(3)
  by (auto simp: try_match_star_handlers_def Let_def
      split: prod.splits sum.splits option.splits list.splits if_splits
      dest!: star_loop_stack [OF assms(1,2)] new_group_stack)

lemma finish_try_stack:
  "keeps_stack eval_stmt \<Longrightarrow> finish_try eval_stmt fb s v p = (s', r) \<Longrightarrow>
    active_exception_stack s' = active_exception_stack s"
  by (auto simp: finish_try_def Let_def split: if_splits prod.splits sum.splits dest!: eval_body_stack)

lemma try_with_stack:
  assumes "keeps_stack eval_stmt"
    "\<And>s exc hs s' r. matching s exc hs = (s', r) \<Longrightarrow> active_exception_stack s' = active_exception_stack s"
  shows "keeps_stack (try_with matching eval_stmt)"
proof (rule keeps_stackI)
  fix s node s' r
  assume "try_with matching eval_stmt s node = (s', r)"
  then show "active_exception_stack s' = active_exception_stack s"
    by (auto simp: try_with_def Let_def
        split: prod.splits sum.splits eval_error.splits control_flow.splits option.splits
        dest!: assms(2) finish_try_stack [OF assms(1)] eval_body_stack [OF assms(1)])
qed

text \<open>C10: When statements and expressions leave the stack of handled exceptions as they found it, so do
  \<open>try\<close>, \<open>try\<close> with \<open>except*\<close>, \<open>raise\<close> and \<open>assert\<close>, on every path out of them.\<close>

theorem exception_stack_balanced:
  assumes "keeps_stack eval_stmt" "keeps_stack eval_expr" "keeps_stack truthy"
  shows "keeps_stack (eval_try eval_stmt eval_expr R) \<and> keeps_stack (eval_try_star eval_stmt eval_expr R) \<and>
    keeps_stack (eval_raise eval_expr R) \<and> keeps_stack (\<lambda>s (test, msg). eval_assert eval_expr truthy R s test msg)"
proof (intro conjI)
  show "keeps_stack (eval_try eval_stmt eval_expr R)"
    using try_with_stack [OF assms(1)] try_match_handlers_stack [OF assms(1,2)]
    unfolding keeps_stack_def eval_try_def by blast
  show "keeps_stack (eval_try_star eval_stmt eval_expr R)"
    using try_with_stack [OF assms(1)] try_match_star_stack [OF assms(1,2)]
    unfolding keeps_stack_def eval_try_star_def by blast
  show "keeps_stack (eval_raise eval_expr R)"
    by (rule keeps_stackI)
      (auto simp: eval_raise_def split: option.splits prod.splits sum.splits dest!: keeps_stackD [OF assms(2)])
  show "keeps_stack (\<lambda>s (test, msg). eval_assert eval_expr truthy R s test msg)"
    by (rule keeps_stackI)
      (auto simp: eval_assert_def split: option.splits prod.splits sum.splits bool.splits
        dest!: keeps_stackD [OF assms(2)] keeps_stackD [OF assms(3)])
qed

text \<open>Evaluators for examples: statement 0 raises, and the others count.\<close>

definition sample_exc_runtime :: exc_runtime where
  "sample_exc_runtime = runtime.extend sample_runtime
     \<lparr>value_display = (\<lambda>_ _. ''value''), value_repr = (\<lambda>_ _. ''value''), fresh_addr = (\<lambda>_. 0), eq_depth = 8\<rparr>"

definition sample_stmt :: "(nat, pyval) eval" where
  "sample_stmt s n =
     (if n = 0 then (s, Inl (Exception (exception_new ''ValueError'' ''bad'')))
      else (s\<lparr>operations_count := operations_count s + n\<rparr>, Inr VNone))"

definition sample_expr :: "(nat, pyval) eval" where
  "sample_expr s n =
     (if n = 0 then (s, Inl (Interpreter (NameError ''name'')))
      else (s\<lparr>operations_count := operations_count s + n\<rparr>, Inr (VExceptionType ''ValueError'')))"

abbreviation sample_state :: interp_state where
  "sample_state \<equiv> new_state empty_env default_config"

theorem exception_stack_balanced_witness:
  "active_exception_stack (fst (eval_try sample_stmt sample_expr sample_exc_runtime sample_state
     \<lparr>try_body = [1, 0], try_handlers = [\<lparr>h_type = Some 1, h_name = Some ''e'', h_body = [0]\<rparr>],
       try_orelse = [2], try_finalbody = [3]\<rparr>)) = []"
proof -
  have "keeps_stack sample_stmt" "keeps_stack sample_expr" "keeps_stack (\<lambda>s (v :: pyval). (s, Inr True))"
    by (auto simp: keeps_stack_def sample_stmt_def sample_expr_def)
  from exception_stack_balanced [OF this] show ?thesis
    by (simp add: keeps_stack_def new_state_def)
qed

section \<open>The finally block\<close>

definition run_finally ::
  "('stmt, pyval) eval \<Rightarrow> 'stmt list \<Rightarrow> interp_state \<times> pyval eval_result \<Rightarrow> interp_state \<times> pyval eval_result" where
  "run_finally eval_stmt finalbody outcome = (case outcome of
     (s1, r) \<Rightarrow> (case eval_body eval_stmt s1 finalbody of (s2, Inl e) \<Rightarrow> (s2, Inl e) | (s2, Inr v) \<Rightarrow> (s2, r)))"

lemma finish_try_run_finally:
  "finish_try eval_stmt fb s v p = run_finally eval_stmt fb (finish_try eval_stmt [] s v p)"
  by (auto simp: finish_try_def run_finally_def Let_def eval_body_def split: prod.splits sum.splits)

text \<open>The statement is left before its \<open>finally\<close> block: the body suspends at a \<open>yield\<close>, or the selection of
  a handler (its type expression, the binding of its name) fails on the error that the body raised.\<close>

definition leaves_early ::
  "('stmt, pyval) eval \<Rightarrow> ('expr, pyval) eval \<Rightarrow> exc_runtime \<Rightarrow> interp_state \<Rightarrow> ('stmt, 'expr) stmt_try \<Rightarrow> bool" where
  "leaves_early eval_stmt eval_expr R s node =
     (let fails = (\<lambda>s1 exc. case try_match_handlers eval_stmt eval_expr R s1 exc (try_handlers node) of
            (s2, Inl e) \<Rightarrow> True | (s2, Inr r) \<Rightarrow> False) in
      case eval_body eval_stmt s (try_body node) of
        (s1, Inl (Signal (Yield v))) \<Rightarrow> True
      | (s1, Inl (Exception exc)) \<Rightarrow> fails s1 exc
      | (s1, Inl (Interpreter ie)) \<Rightarrow> fails s1 (interpreter_error_to_exception ie)
      | _ \<Rightarrow> False)"

lemma finally_cases:
  "eval_try eval_stmt eval_expr R s node =
    (if leaves_early eval_stmt eval_expr R s node then eval_try eval_stmt eval_expr R s (node\<lparr>try_finalbody := []\<rparr>)
     else run_finally eval_stmt (try_finalbody node)
       (eval_try eval_stmt eval_expr R s (node\<lparr>try_finalbody := []\<rparr>)))"
  by (auto simp: eval_try_def try_with_def leaves_early_def Let_def finish_try_run_finally [of eval_stmt "try_finalbody node"]
      split: prod.split sum.split eval_error.split control_flow.split option.split)

text \<open>C9: The \<open>finally\<close> block of a \<open>try\<close> statement runs in every run in which the body does not suspend at a
  \<open>yield\<close> and the selection of a handler does not itself fail on the error that the body raised (its type
  expression raises, or its name cannot be bound).  Whether the body, a handler of any form or the \<open>else\<close> block
  succeeds, raises or signals, the block runs after everything else, from the state the rest of the statement leaves,
  and its own error or signal replaces the outcome; otherwise the outcome stands.\<close>

theorem finally_runs:
  assumes "\<not> leaves_early eval_stmt eval_expr R s node"
  shows "eval_try eval_stmt eval_expr R s node =
    run_finally eval_stmt (try_finalbody node) (eval_try eval_stmt eval_expr R s (node\<lparr>try_finalbody := []\<rparr>))"
  using assms finally_cases [of eval_stmt eval_expr R s node] by simp

lemmas sample_defs = sample_stmt_def sample_expr_def eval_body_def matches_handler_def run_handler_def
  bind_name_def unbind_name_def push_exception_def pop_exception_def

text \<open>The body raises a \<open>ValueError\<close>, the handler \<open>except ValueError as e\<close> raises in turn.\<close>

definition sample_try :: "(nat, nat) stmt_try" where
  "sample_try = \<lparr>try_body = [1, 0], try_handlers = [\<lparr>h_type = Some 1, h_name = Some ''e'', h_body = [0]\<rparr>],
     try_orelse = [], try_finalbody = [3]\<rparr>"

theorem finally_runs_witness:
  "eval_try sample_stmt sample_expr sample_exc_runtime sample_state sample_try =
   run_finally sample_stmt [3] (eval_try sample_stmt sample_expr sample_exc_runtime sample_state
     (sample_try\<lparr>try_finalbody := []\<rparr>))"
proof -
  have "\<not> leaves_early sample_stmt sample_expr sample_exc_runtime sample_state sample_try"
    by (simp add: leaves_early_def sample_try_def sample_defs new_state_def Let_def set_variable_def write_through_def
        sample_exc_runtime_def sample_runtime_def runtime.defs default_config_def usize_max_def
        usize_add_def track_allocation_def check_memory_def)
  from finally_runs [OF this] show ?thesis by (simp add: sample_try_def)
qed

text \<open>In the two other cases the statement ends as it would without the block: \<open>finally\<close> does not run.\<close>

lemma finally_left_out:
  assumes "leaves_early eval_stmt eval_expr R s node"
  shows "eval_try eval_stmt eval_expr R s node = eval_try eval_stmt eval_expr R s (node\<lparr>try_finalbody := []\<rparr>)"
  using assms finally_cases [of eval_stmt eval_expr R s node] by simp

text \<open>When the type expression of the first handler fails, the error leaves the statement at once: no
  \<open>finally\<close> block runs, whatever it holds.\<close>

theorem finally_skipped:
  assumes "eval_body eval_stmt s (try_body node) = (s1, Inl (Exception exc))"
    "try_handlers node = h # hs" "h_type h = Some t" "eval_expr s1 t = (s2, Inl e)"
  shows "eval_try eval_stmt eval_expr R s node = (s2, Inl e)"
  using assms by (simp add: eval_try_def try_with_def matches_handler_def Let_def)

theorem finally_skipped_witness:
  "eval_try sample_stmt sample_expr sample_exc_runtime sample_state
     \<lparr>try_body = [1, 0], try_handlers = [\<lparr>h_type = Some 0, h_name = None, h_body = []\<rparr>],
       try_orelse = [], try_finalbody = [3]\<rparr> =
   (sample_state\<lparr>operations_count := 1\<rparr>, Inl (Interpreter (NameError ''name'')))"
  by (rule finally_skipped [where ?s1.0 = "sample_state\<lparr>operations_count := 1\<rparr>"
        and exc = "exception_new ''ValueError'' ''bad''" and h = "\<lparr>h_type = Some 0, h_name = None, h_body = []\<rparr>"
        and t = 0 and hs = "[]"])
    (simp_all add: sample_defs new_state_def)

section \<open>Context and names\<close>

lemma with_field_fields [simp]: "exc_fields (with_field e n v) = field_insert n v (exc_fields e)"
  by (cases e) (simp add: with_field_def)

lemma field_insert_lookup: "map_of (field_insert n v fs) n = Some v"
  unfolding field_insert_def by (induction fs) auto

text \<open>A bare \<open>raise\<close> in a handler raises the exception being handled, and it leaves the handler
  unchanged exactly when it already carries a context or its arguments compare equal to themselves;
  an argument that is an instance or a function does not, and then the exception becomes its own context.\<close>

theorem bare_raise_unchanged:
  assumes "active_exception_stack s = exc # outer"
  shows "eval_raise eval_expr R s \<lparr>raise_exc = None, raise_cause = c\<rparr> = (s, Inl (Exception exc)) \<and>
    (chain_context eq (Exception exc) exc = Exception exc \<longleftrightarrow>
       map_of (exc_fields exc) ''__context__'' \<noteq> None \<or> elementwise_eq eq (exc_args exc) (exc_args exc))"
proof (intro conjI)
  have "with_field exc ''__context__'' v \<noteq> exc" if "map_of (exc_fields exc) ''__context__'' = None" for v
    using that field_insert_lookup [of "''__context__''" v "exc_fields exc"] with_field_fields by (metis option.distinct(1))
  then show "chain_context eq (Exception exc) exc = Exception exc \<longleftrightarrow>
       map_of (exc_fields exc) ''__context__'' \<noteq> None \<or> elementwise_eq eq (exc_args exc) (exc_args exc)"
    by (auto simp: chain_context_def set_implicit_context_def Let_def)
qed (simp add: eval_raise_def assms)

lemma value_eq_numeral:
  "value_eq E (numeral k) x y = value_eq_step E (value_eq E (pred_numeral k)) x y"
  by (simp add: numeral_eq_Suc)

theorem bare_raise_unchanged_witness:
  "chain_context (value_eq empty_env 8) (Exception (exception_new ''ValueError'' ''bad'')) (exception_new ''ValueError'' ''bad'') =
     Exception (exception_new ''ValueError'' ''bad'') \<and>
   (let exc = with_args (exception_new ''ValueError'' ''bad'') [VInstance ''C'' 0] in
    chain_context (value_eq empty_env 8) (Exception exc) exc \<noteq> Exception exc)"
proof -
  let ?e = "exception_new ''ValueError'' ''bad''" and ?n = "8 :: nat"
  let ?i = "with_args ?e [VInstance ''C'' 0]"
  have "elementwise_eq (value_eq empty_env ?n) (exc_args ?e) (exc_args ?e)"
    by (simp add: value_eq_numeral exception_new_def elementwise_eq_def value_eq_step_def value_eq_arms_def)
  moreover have "\<not> elementwise_eq (value_eq empty_env ?n) (exc_args ?i) (exc_args ?i)"
    by (simp add: value_eq_numeral exception_new_def with_args_def elementwise_eq_def value_eq_step_def value_eq_arms_def)
  moreover have "map_of (exc_fields ?i) ''__context__'' = None"
    by (simp add: exception_new_def with_args_def)
  ultimately show ?thesis
    using bare_raise_unchanged [of "push_exception sample_state ?e" ?e "[]" sample_expr sample_exc_runtime None "value_eq empty_env ?n"]
      bare_raise_unchanged [of "push_exception sample_state ?i" ?i "[]" sample_expr sample_exc_runtime None "value_eq empty_env ?n"]
    by (simp add: new_state_def Let_def)
qed

text \<open>After a handler has run, with or without an error, the name it bound is no longer a variable.\<close>

theorem handler_name_deleted:
  assumes "run_handler eval_stmt R s exc h = (s', Inr r)" "h_name h = Some n"
  shows "variables s' n = None"
  using assms by (auto simp: run_handler_def Let_def unbind_name_def delete_variable_def
      split: prod.splits sum.splits option.splits)

theorem handler_name_deleted_witness:
  "variables (fst (run_handler sample_stmt sample_exc_runtime sample_state (exception_new ''ValueError'' ''bad'')
     \<lparr>h_type = (None :: nat option), h_name = Some ''e'', h_body = [0]\<rparr>)) ''e'' = None"
proof -
  obtain s' r where run: "run_handler sample_stmt sample_exc_runtime sample_state (exception_new ''ValueError'' ''bad'')
     \<lparr>h_type = (None :: nat option), h_name = Some ''e'', h_body = [0]\<rparr> = (s', Inr r)"
    by (simp add: sample_defs new_state_def Let_def set_variable_def write_through_def check_memory_def
        default_config_def usize_add_def usize_max_def sample_exc_runtime_def sample_runtime_def runtime.defs
        split: prod.split sum.split)
  from handler_name_deleted [OF run] run show ?thesis
    by simp
qed

section \<open>Splitting a group\<close>

lemma flatten_leaves: "list_all (\<lambda>e. exc_exceptions e = None) (flatten exc)"
proof (induction exc rule: flatten.induct)
  case (1 exc)
  then show ?case by (auto simp: flatten.simps [of exc] list_all_iff split: option.split)
qed

definition part_members :: "pyval \<Rightarrow> exception_value list" where
  "part_members v = (case v of VException g \<Rightarrow> (case exc_exceptions g of Some xs \<Rightarrow> xs | None \<Rightarrow> []) | _ \<Rightarrow> [])"

lemma group_part_members: "part_members (snd (group_part R s exc xs)) = xs"
  by (simp add: group_part_def part_members_def new_group_def exception_group_def Let_def)

text \<open>\<open>split\<close> always returns a pair whose parts, together, hold exactly the leaves of the group, with
  their number of occurrences: the first those of a matching type, the second the others.  No leaf is a group.\<close>

theorem split_partitions_leaves:
  "\<exists>s' m r. call_exception_method R s ''split'' exc (matcher # more_args) = (s', Inr (VTuple [m, r])) \<and>
     mset (part_members m) + mset (part_members r) = mset (group_leaves exc) \<and>
     list_all (matches_type matcher) (part_members m) \<and>
     list_all (\<lambda>e. \<not> matches_type matcher e) (part_members r) \<and>
     list_all (\<lambda>e. exc_exceptions e = None) (group_leaves exc)"
proof -
  obtain s1 m where m: "group_part R s exc (filter (matches_type matcher) (group_leaves exc)) = (s1, m)"
    by fastforce
  obtain s2 r where r: "group_part R s1 exc (filter (\<lambda>e. \<not> matches_type matcher e) (group_leaves exc)) = (s2, r)"
    by fastforce
  have "part_members m = filter (matches_type matcher) (group_leaves exc)"
    "part_members r = filter (\<lambda>e. \<not> matches_type matcher e) (group_leaves exc)"
    using group_part_members m r by (metis snd_conv)+
  moreover have "list_all (\<lambda>e. exc_exceptions e = None) (group_leaves exc)"
    using flatten_leaves by (auto simp: group_leaves_def list_all_iff)
  ultimately show ?thesis
    using m r by (auto simp: call_exception_method_def Let_def list_all_iff)
qed

end
