(* ===== verification/Classes.thy ===== *)
theory Classes
  imports Exceptions "HOL-Library.Sublist" "HOL-Library.List_Lexorder" "HOL-Library.Char_ord"
begin

text \<open>
  Classes (\<open>eval/classes.rs\<close>): the registry of class values, linearisation of the bases, attribute lookup along the
  method resolution order, registration of a class, members of enumerations and the arguments of a data class.

  The definition of a function is an address; the code wraps it in a new \<open>Arc\<close> when it becomes a value, which is
  \<open>new_function\<close> here.  The evaluation of a class body is a parameter: registration takes what the body collected.
\<close>

section \<open>The registry\<close>

record property_def =
  getter :: addr
  setter :: "addr option"
  deleter :: "addr option"
  cached :: bool

record dataclass_field =
  df_name :: string
  df_default :: "pyval option"
  df_default_factory :: "pyval option"
  df_init :: bool
  df_repr :: bool
  df_compare :: bool
  df_init_only :: bool

record class_value =
  c_name :: string
  c_methods :: "string \<rightharpoonup> addr"
  c_attrs :: "string \<rightharpoonup> pyval"
  c_bases :: "string list"
  c_mro :: "string list"
  c_properties :: "string \<rightharpoonup> property_def"
  c_static_methods :: "string \<rightharpoonup> addr"
  c_class_methods :: "string \<rightharpoonup> addr"
  c_enum_kind :: "enum_kind option"
  c_enum_members :: "string list"
  c_annotations :: "string list"
  c_dataclass_fields :: "dataclass_field list option"
  c_frozen :: bool
  c_order :: bool
  c_total_ordering :: bool
  c_slots :: bool
  c_slot_names :: "string list"
  c_abstract_methods :: "string list"
  c_metaclass :: "string option"
  c_qualname :: string
  c_is_generic :: bool
  c_initvar_fields :: "string list"

type_synonym registry = "string \<rightharpoonup> class_value"

definition class_new :: "string \<Rightarrow> class_value" where
  "class_new n =
     \<lparr>c_name = n, c_methods = Map.empty, c_attrs = Map.empty, c_bases = [], c_mro = [n], c_properties = Map.empty,
      c_static_methods = Map.empty, c_class_methods = Map.empty, c_enum_kind = None, c_enum_members = [],
      c_annotations = [], c_dataclass_fields = None, c_frozen = False, c_order = False,
      c_total_ordering = False, c_slots = False, c_slot_names = [], c_abstract_methods = [],
      c_metaclass = None, c_qualname = n, c_is_generic = False, c_initvar_fields = []\<rparr>"

section \<open>Linearisation\<close>

definition mro_sequences :: "registry \<Rightarrow> string list \<Rightarrow> string list list" where
  "mro_sequences R bases = List.map (\<lambda>b. case R b of None \<Rightarrow> [b] | Some c \<Rightarrow> c_mro c) bases @ [bases]"

definition good_head :: "'a list list \<Rightarrow> 'a \<Rightarrow> bool" where
  "good_head seqs h \<longleftrightarrow> (\<forall>s \<in> set seqs. h \<notin> set (drop 1 s))"

definition heads :: "'a list list \<Rightarrow> 'a list" where
  "heads seqs = List.map hd (filter (\<lambda>s. s \<noteq> []) seqs)"

definition find_head :: "'a list list \<Rightarrow> 'a option" where
  "find_head seqs = List.find (good_head seqs) (heads seqs)"

definition strip_head :: "'a \<Rightarrow> 'a list \<Rightarrow> 'a list" where
  "strip_head h s = (if s \<noteq> [] \<and> hd s = h then tl s else s)"

definition strip_all :: "'a \<Rightarrow> 'a list list \<Rightarrow> 'a list list" where
  "strip_all h seqs = filter (\<lambda>s. s \<noteq> []) (List.map (strip_head h) seqs)"

lemma find_head_Some:
  "find_head seqs = Some h \<Longrightarrow> good_head seqs h \<and> (\<exists>t. h # t \<in> set seqs)"
  unfolding find_head_def by (drule find_SomeD) (auto simp: heads_def neq_Nil_conv)

lemma find_head_None: "find_head seqs = None \<longleftrightarrow> (\<forall>h t. h # t \<in> set seqs \<longrightarrow> \<not> good_head seqs h)"
  by (auto simp: find_head_def heads_def find_None_iff neq_Nil_conv)

lemma strip_head_length: "length (strip_head h s) \<le> length s"
  by (simp add: strip_head_def)

lemma sum_list_strict:
  assumes "\<forall>s \<in> set seqs. f s \<le> (g s :: nat)" "s \<in> set seqs" "f s < g s"
  shows "sum_list (List.map f seqs) < sum_list (List.map g seqs)"
  using assms
proof (induction seqs)
  case (Cons a seqs)
  then show ?case
    using sum_list_mono [of seqs f g] by (fastforce simp: add_mono_thms_linordered_field)
qed simp

lemma sum_list_filter_Nil: "sum_list (List.map length (filter (\<lambda>s. s \<noteq> []) ss)) = sum_list (List.map length ss)"
  by (induction ss) auto

lemma strip_all_smaller:
  assumes "find_head seqs = Some h"
  shows "sum_list (List.map length (strip_all h seqs)) < sum_list (List.map length seqs)"
proof -
  obtain t where "h # t \<in> set seqs" using find_head_Some [OF assms] by blast
  moreover have "\<forall>s \<in> set seqs. length (strip_head h s) \<le> length s" by (simp add: strip_head_length)
  ultimately have "sum_list (List.map (\<lambda>s. length (strip_head h s)) seqs) < sum_list (List.map length seqs)"
    by (intro sum_list_strict [of _ _ _ "h # t"]) (simp_all add: strip_head_def)
  then show ?thesis by (simp add: strip_all_def sum_list_filter_Nil comp_def)
qed

text \<open>The loop of \<open>build_mro\<close>; every round removes a name, so it ends.\<close>

function c3_merge :: "'a list list \<Rightarrow> 'a list \<Rightarrow> 'a list option" where
  "c3_merge seqs acc =
     (if list_all (\<lambda>s. s = []) seqs then Some acc
      else (case find_head seqs of None \<Rightarrow> None | Some h \<Rightarrow> c3_merge (strip_all h seqs) (acc @ [h])))"
  by pat_completeness auto

termination
  by (relation "measure (\<lambda>(seqs, acc). sum_list (List.map length seqs))") (simp_all add: strip_all_smaller)

declare c3_merge.simps [simp del]

definition mro_error :: "string \<Rightarrow> eval_error" where
  "mro_error c = Interpreter (TypeError (''Cannot create a consistent method resolution'' @ [CHR 10] @
     ''order (MRO) for bases of class '' @ [CHR 39] @ c @ [CHR 39]))"

definition build_mro :: "string \<Rightarrow> string list \<Rightarrow> registry \<Rightarrow> string list eval_result" where
  "build_mro c bases R = (case c3_merge (mro_sequences R bases) [c] of
     None \<Rightarrow> Inl (mro_error c) | Some m \<Rightarrow> Inr m)"

section \<open>Lookup along the resolution order\<close>

primrec mro_find :: "registry \<Rightarrow> (class_value \<Rightarrow> 'a option) \<Rightarrow> string list \<Rightarrow> (string \<times> 'a) option" where
  "mro_find R get [] = None"
| "mro_find R get (c # cs) = (case R c of
     None \<Rightarrow> mro_find R get cs
   | Some cv \<Rightarrow> (case get cv of None \<Rightarrow> mro_find R get cs | Some x \<Rightarrow> Some (c, x)))"

definition walk_mro :: "registry \<Rightarrow> string \<Rightarrow> (class_value \<Rightarrow> 'a option) \<Rightarrow> (string \<times> 'a) option" where
  "walk_mro R c get = (case R c of None \<Rightarrow> None | Some cv \<Rightarrow> mro_find R get (c_mro cv))"

definition lookup_method_in_mro :: "registry \<Rightarrow> string \<Rightarrow> string \<Rightarrow> (string \<times> addr) option" where
  "lookup_method_in_mro R c m = walk_mro R c (\<lambda>cv. c_methods cv m)"

definition lookup_method_or_classmethod :: "registry \<Rightarrow> string \<Rightarrow> string \<Rightarrow> (string \<times> addr) option" where
  "lookup_method_or_classmethod R c m = (case lookup_method_in_mro R c m of
     Some found \<Rightarrow> Some found | None \<Rightarrow> walk_mro R c (\<lambda>cv. c_class_methods cv m))"

definition lookup_class_attr :: "registry \<Rightarrow> string \<Rightarrow> string \<Rightarrow> pyval option" where
  "lookup_class_attr R c attr = map_option snd (walk_mro R c (\<lambda>cv. c_attrs cv attr))"

definition lookup_class_attr_instance :: "registry \<Rightarrow> string \<Rightarrow> string \<Rightarrow> pyval option" where
  "lookup_class_attr_instance R c attr = map_option snd (walk_mro R c (\<lambda>cv. case c_attrs cv attr of
     Some (VInstance n a) \<Rightarrow> Some (VInstance n a) | _ \<Rightarrow> None))"

definition lookup_property :: "registry \<Rightarrow> string \<Rightarrow> string \<Rightarrow> property_def option" where
  "lookup_property R c attr = map_option snd (walk_mro R c (\<lambda>cv. c_properties cv attr))"

definition lookup_static_method :: "registry \<Rightarrow> string \<Rightarrow> string \<Rightarrow> addr option" where
  "lookup_static_method R c m = map_option snd (walk_mro R c (\<lambda>cv. c_static_methods cv m))"

definition lookup_class_method :: "registry \<Rightarrow> string \<Rightarrow> string \<Rightarrow> addr option" where
  "lookup_class_method R c m = map_option snd (walk_mro R c (\<lambda>cv. c_class_methods cv m))"

definition instance_attribute :: "registry \<Rightarrow> string \<Rightarrow> (string \<rightharpoonup> pyval) \<Rightarrow> string \<Rightarrow> pyval eval_result" where
  "instance_attribute R c flds attr = (case flds attr of
     Some v \<Rightarrow> Inr v
   | None \<Rightarrow> (case lookup_class_attr R c attr of
       Some v \<Rightarrow> Inr v
     | None \<Rightarrow> Inl (Interpreter (AttributeError ([CHR 39] @ c @ [CHR 39] @ '' object has no attribute '' @ [CHR 39] @ attr @ [CHR 39])))))"

definition class_attribute :: "(addr \<Rightarrow> addr) \<Rightarrow> registry \<Rightarrow> string \<Rightarrow> string \<Rightarrow> pyval eval_result" where
  "class_attribute new_function R c attr =
     (if attr = ''__name__'' then Inr (VString (str_of c))
      else if attr = ''__qualname__'' then
        Inr (VString (str_of (case R c of None \<Rightarrow> c | Some cv \<Rightarrow> if c_qualname cv = [] then c else c_qualname cv)))
      else case lookup_static_method R c attr of Some d \<Rightarrow> Inr (VFunction (new_function d))
      | None \<Rightarrow> (case lookup_class_method R c attr of Some d \<Rightarrow> Inr (VUnboundClassMethod c attr)
      | None \<Rightarrow> (case lookup_class_attr R c attr of Some v \<Rightarrow> Inr v
      | None \<Rightarrow> (case walk_mro R c (\<lambda>cv. c_properties cv attr) of Some (ancestor, p) \<Rightarrow> Inr (VProperty ancestor attr)
      | None \<Rightarrow> (case lookup_method_in_mro R c attr of Some (owner, d) \<Rightarrow> Inr (VFunction (new_function d))
      | None \<Rightarrow>
          (let missing = Inl (Interpreter (AttributeError (''type object '' @ [CHR 39] @ c @ [CHR 39] @ '' has no attribute '' @
                 [CHR 39] @ attr @ [CHR 39]))) in
           case (case R c of None \<Rightarrow> None | Some cv \<Rightarrow> c_metaclass cv) of
             None \<Rightarrow> missing
           | Some meta \<Rightarrow> (case lookup_class_attr R meta attr of Some v \<Rightarrow> Inr v
             | None \<Rightarrow> (case lookup_method_in_mro R meta attr of Some (owner, d) \<Rightarrow> Inr (VFunction (new_function d))
             | None \<Rightarrow> missing))))))))"

section \<open>The linearisation is correct\<close>

text \<open>A linearisation lists the names of all sequences once each, in an order that respects every sequence.\<close>

definition linearises :: "'a list \<Rightarrow> 'a list list \<Rightarrow> bool" where
  "linearises L seqs \<longleftrightarrow> distinct L \<and> set L = \<Union> (set ` set seqs) \<and> (\<forall>s \<in> set seqs. subseq s L)"

lemma strip_head_cases: "s = h # strip_head h s \<or> strip_head h s = s"
  by (cases s) (auto simp: strip_head_def)

lemma good_head_stripped:
  assumes "good_head seqs h" "s \<in> set seqs"
  shows "h \<notin> set (strip_head h s)"
  using assms by (cases s) (auto simp: good_head_def strip_head_def)

lemma set_strip_all: "set (strip_all h seqs) = strip_head h ` set seqs - {[]}"
  by (auto simp: strip_all_def)

lemma linearises_step:
  assumes "find_head seqs = Some h" "linearises L (strip_all h seqs)"
  shows "linearises (h # L) seqs"
proof -
  have h: "good_head seqs h" "h \<in> \<Union> (set ` set seqs)"
    using find_head_Some [OF assms(1)] by force+
  have L: "set L = \<Union> ((\<lambda>s. set (strip_head h s)) ` set seqs)"
    using assms(2) by (auto simp: linearises_def set_strip_all)
  have "h \<notin> set L" using good_head_stripped [OF h(1)] by (auto simp: L)
  moreover have "insert h (set (strip_head h s)) = insert h (set s)" for s
    using strip_head_cases [of s h] by (metis insert_absorb2 list.simps(15))
  then have "insert h (set L) = insert h (\<Union> (set ` set seqs))" unfolding L by blast
  moreover have "subseq s (h # L)" if "s \<in> set seqs" for s
  proof -
    have "subseq (strip_head h s) L"
      using that assms(2) by (cases "strip_head h s = []") (auto simp: linearises_def set_strip_all)
    then show ?thesis using strip_head_cases [of s h] by (metis subseq_Cons2 subseq_Cons')
  qed
  ultimately show ?thesis using assms(2) h(2) by (auto simp: linearises_def)
qed

lemma c3_merge_sound: "c3_merge seqs acc = Some m \<Longrightarrow> \<exists>L. m = acc @ L \<and> linearises L seqs"
proof (induction seqs acc rule: c3_merge.induct)
  case (1 seqs acc)
  show ?case
  proof (cases "list_all (\<lambda>s. s = []) seqs")
    case True
    then have "linearises [] seqs" by (auto simp: linearises_def list_all_iff)
    then show ?thesis using 1(2) True by (simp add: c3_merge.simps [of seqs])
  next
    case False
    then obtain h where h: "find_head seqs = Some h" "c3_merge (strip_all h seqs) (acc @ [h]) = Some m"
      using 1(2) by (auto simp: c3_merge.simps [of seqs] split: option.splits)
    then show ?thesis using 1(1) [OF False h] linearises_step by fastforce
  qed
qed

text \<open>When some order without repetition respects all sequences, its first name among theirs is a head that the
  merge may take.\<close>

lemma order_gives_head:
  assumes "distinct L" "\<forall>s \<in> set seqs. subseq s L" "\<not> list_all (\<lambda>s. s = []) seqs"
  shows "find_head seqs \<noteq> None"
proof -
  let ?U = "\<Union> (set ` set seqs)"
  obtain s0 where s0: "s0 \<in> set seqs" "s0 \<noteq> []" using assms(3) by (auto simp: list_all_iff)
  then have "subseq s0 L" using assms(2) by simp
  then have "hd s0 \<in> set L" using s0(2) list_emb_set [of "(=)" s0 L "hd s0"] by auto
  moreover have "hd s0 \<in> ?U" using s0 hd_in_set by blast
  ultimately have "\<exists>x \<in> set L. x \<in> ?U" by blast
  then obtain P x Q where L: "L = P @ x # Q" "x \<in> ?U" "\<forall>y \<in> set P. y \<notin> ?U"
    using split_list_first_prop [of L "\<lambda>x. x \<in> ?U"] by blast
  have front: "hd s = x \<and> x \<notin> set (tl s)" if s_in: "s \<in> set seqs" and x_in: "x \<in> set s" for s
  proof -
    obtain y t where s: "s = y # t" using x_in by (cases s) auto
    obtain L1 L2 where L12: "L = L1 @ y # L2" "subseq t L2"
      using assms(2) s_in s list_emb_ConsD [of "(=)" y t L] by auto
    have "y \<notin> set P" using L(3) s_in s by fastforce
    moreover have "set t \<subseteq> set L2" using L12(2) list_emb_set [of "(=)" t L2] by auto
    moreover have "x \<notin> set L2"
    proof
      assume "x \<in> set L2"
      then have "x \<notin> set L1" "x \<noteq> y" using assms(1) L12(1) by auto
      moreover have "y \<in> set (P @ [x])"
      proof -
        have "length L1 < length P \<or> length P \<le> length L1" by linarith
        then show ?thesis
        proof
          assume "length P \<le> length L1"
          then have "x \<in> set (L1 @ [y])"
            using L(1) L12(1) by (metis append_eq_append_conv_if hd_drop_conv_nth append_take_drop_id
                list.set_intros(1) in_set_conv_decomp nth_append_length nth_append le_neq_implies_less nth_mem Un_iff set_append)
          then show ?thesis using \<open>x \<notin> set L1\<close> \<open>x \<noteq> y\<close> by simp
        next
          assume "length L1 < length P"
          then have "y = P ! length L1" using L(1) L12(1) by (metis nth_append nth_append_length)
          then show ?thesis using \<open>length L1 < length P\<close> by simp
        qed
      qed
      ultimately show False using \<open>y \<notin> set P\<close> by simp
    qed
    ultimately show ?thesis using s x_in by auto
  qed
  obtain s1 where "s1 \<in> set seqs" "x \<in> set s1" using L(2) by blast
  with front have "x # tl s1 \<in> set seqs" by (metis empty_iff list.collapse list.set(1))
  moreover have "good_head seqs x"
    unfolding good_head_def using front by (metis One_nat_def drop0 drop_Suc list.sel(2) list.set_sel(2))
  ultimately show ?thesis by (auto simp: find_head_None)
qed

lemma c3_merge_complete:
  "distinct L \<Longrightarrow> \<forall>s \<in> set seqs. subseq s L \<Longrightarrow> c3_merge seqs acc \<noteq> None"
proof (induction seqs acc rule: c3_merge.induct)
  case (1 seqs acc)
  show ?case
  proof (cases "list_all (\<lambda>s. s = []) seqs")
    case False
    then obtain h where h: "find_head seqs = Some h" using order_gives_head 1(2,3) by blast
    have "subseq (strip_head h s) s" for s using strip_head_cases [of s h] by (metis subseq_Cons' subseq_order.refl)
    then have "\<forall>s \<in> set (strip_all h seqs). subseq s L"
      using 1(3) by (auto simp: set_strip_all intro: subseq_order.trans)
    then show ?thesis using 1(1) [OF False h 1(2)] False h by (simp add: c3_merge.simps [of seqs])
  qed (simp add: c3_merge.simps [of seqs])
qed

lemma mro_correct_Inr: "build_mro c bases R = Inr m \<Longrightarrow> \<exists>L. m = c # L \<and> linearises L (mro_sequences R bases)"
  using c3_merge_sound [of "mro_sequences R bases" "[c]"] by (auto simp: build_mro_def split: option.splits)

text \<open>Lookup in a subsequence that contains the class found gives the same class.\<close>

lemma mro_find_mem: "mro_find R get cs = Some (d, x) \<Longrightarrow> d \<in> set cs"
  by (induction cs) (auto split: option.splits)

lemma mro_find_subseq:
  "subseq xs ys \<Longrightarrow> distinct ys \<Longrightarrow> mro_find R get ys = Some (d, x) \<Longrightarrow> d \<in> set xs \<Longrightarrow> mro_find R get xs = Some (d, x)"
proof (induction xs ys rule: list_emb.induct)
  case (list_emb_Cons xs ys y)
  have "d \<in> set ys" using list_emb_Cons.hyps list_emb_Cons.prems(3) list_emb_set [of "(=)" xs ys d] by auto
  then have "mro_find R get ys = Some (d, x)"
    using list_emb_Cons.prems by (auto split: option.splits)
  then show ?case using list_emb_Cons by simp
next
  case (list_emb_Cons2 x y xs ys)
  then show ?case by (auto split: option.splits dest: mro_find_mem)
qed simp

text \<open>C17: The method resolution order of a class is the C3 linearisation.  The computation always ends; when it succeeds the
  order is the class followed by every ancestor exactly once, in an order that keeps the resolution order of every base
  and the order in which the bases are declared; it fails with the \<open>TypeError\<close> exactly when no order of the ancestors
  does.\<close>
theorem mro_correct:
  "case build_mro c bases R of
     Inr m \<Rightarrow> (\<exists>L. m = c # L \<and> linearises L (mro_sequences R bases))
   | Inl e \<Rightarrow> e = mro_error c \<and> (\<nexists>L. linearises L (mro_sequences R bases))"
proof (cases "c3_merge (mro_sequences R bases) [c]")
  case None
  then have "\<nexists>L. linearises L (mro_sequences R bases)"
    using c3_merge_complete [of _ "mro_sequences R bases" "[c]"] by (metis linearises_def)
  then show ?thesis using None by (simp add: build_mro_def)
next
  case (Some m)
  then show ?thesis using c3_merge_sound [OF Some] by (simp add: build_mro_def)
qed

section \<open>Bases\<close>

text \<open>The loop over the bases of a class statement, for bases given as a name and the value it resolves to.  A marker
  of a library module sets a flag and is no base; \<open>object\<close> is implicit.\<close>

record base_scan =
  scan_bases :: "string list"
  scan_enum_kind :: "enum_kind option"
  scan_namedtuple :: bool
  scan_generic :: bool

definition starts_with :: "string \<Rightarrow> string \<Rightarrow> bool" where
  "starts_with p s \<longleftrightarrow> take (length p) s = p"

definition scan_marker :: "string \<Rightarrow> base_scan \<Rightarrow> base_scan" where
  "scan_marker n s =
     (if n = ''enum.Enum'' then s\<lparr>scan_enum_kind := Some Plain\<rparr>
      else if n = ''enum.IntEnum'' then s\<lparr>scan_enum_kind := Some IntKind\<rparr>
      else if n = ''enum.Flag'' then s\<lparr>scan_enum_kind := Some Flag\<rparr>
      else if n = ''enum.IntFlag'' then s\<lparr>scan_enum_kind := Some IntFlag\<rparr>
      else if n = ''enum.StrEnum'' then s\<lparr>scan_enum_kind := Some StrKind\<rparr>
      else if n = ''typing.NamedTuple'' then s\<lparr>scan_namedtuple := True\<rparr>
      else if n = ''typing.Generic'' \<or> starts_with ''typing.Generic['' n then s\<lparr>scan_generic := True\<rparr>
      else s)"

definition scan_base :: "registry \<Rightarrow> string \<Rightarrow> pyval option \<Rightarrow> base_scan \<Rightarrow> base_scan eval_result" where
  "scan_base R base_name resolved s =
     (if base_name = ''object'' then Inr s
      else case resolved of
        Some (VType n) \<Rightarrow> Inr (scan_marker n s)
      | Some (VModuleFunction mn fname) \<Rightarrow> Inr s
      | _ \<Rightarrow>
          (let is_exception_base = is_exception_type_name base_name \<or>
                 (case resolved of Some (VExceptionType n) \<Rightarrow> True | _ \<Rightarrow> False);
               is_type_base = base_name = ''type'' \<and> resolved = None \<and> R base_name = None in
           if R base_name = None \<and> \<not> is_exception_base \<and> \<not> is_type_base
           then Inl (Interpreter (name_not_defined base_name))
           else Inr (s\<lparr>scan_bases := scan_bases s @ [base_name]\<rparr>)))"

primrec scan_all :: "registry \<Rightarrow> (string \<times> pyval option) list \<Rightarrow> base_scan \<Rightarrow> base_scan eval_result" where
  "scan_all R [] s = Inr s"
| "scan_all R (b # bs) s = result_bind (scan_base R (fst b) (snd b) s) (scan_all R bs)"

definition inherited_metaclass :: "registry \<Rightarrow> string list \<Rightarrow> string option" where
  "inherited_metaclass R bases =
     (case List.map_filter (\<lambda>b. case R b of None \<Rightarrow> None | Some c \<Rightarrow> c_metaclass c) bases of
        [] \<Rightarrow> None | m # ms \<Rightarrow> Some m)"

section \<open>Registration\<close>

text \<open>The text of a program as a name; names here are within the range of \<open>char\<close>.\<close>

definition string_of :: "pystr \<Rightarrow> string" where
  "string_of s = List.map char_of s"

definition string_items :: "pyval list \<Rightarrow> string list" where
  "string_items vs = List.map_filter (\<lambda>v. case v of VString s \<Rightarrow> Some (string_of s) | _ \<Rightarrow> None) vs"

definition parse_slots_attr :: "env \<Rightarrow> pyval option \<Rightarrow> bool \<times> string list" where
  "parse_slots_attr E attr =
     (let names = (case attr of
          Some (VString s) \<Rightarrow> Some [string_of s]
        | Some (VTuple items) \<Rightarrow> Some (string_items items)
        | Some (VList a) \<Rightarrow> Some (string_items (list_at E a))
        | _ \<Rightarrow> None) in
      case names of None \<Rightarrow> (False, []) | Some ns \<Rightarrow> (\<not> list_ex (\<lambda>n. n = ''__dict__'') ns, ns))"

definition add_name :: "string list \<Rightarrow> string \<Rightarrow> string list" where
  "add_name ns n = (if n \<in> set ns then ns else ns @ [n])"

definition merge_slots :: "registry \<Rightarrow> string list \<Rightarrow> bool \<times> string list \<Rightarrow> bool \<times> string list" where
  "merge_slots R bases s0 = foldl (\<lambda>(on, ns) b. case R b of
       Some bc \<Rightarrow> if c_slots bc then (True, foldl add_name ns (c_slot_names bc)) else (on, ns)
     | None \<Rightarrow> (on, ns)) s0 bases"

text \<open>What the body of a class collects.\<close>

record class_body =
  b_methods :: "string \<rightharpoonup> addr"
  b_attrs :: "string \<rightharpoonup> pyval"
  b_properties :: "string \<rightharpoonup> property_def"
  b_static_methods :: "string \<rightharpoonup> addr"
  b_class_methods :: "string \<rightharpoonup> addr"
  b_enum_members :: "string list"
  b_annotations :: "string list"
  b_initvar_fields :: "string list"
  b_abstract :: "string list"

definition defined_in_body :: "class_body \<Rightarrow> string \<Rightarrow> bool" where
  "defined_in_body body n \<longleftrightarrow> b_methods body n \<noteq> None \<or> b_properties body n \<noteq> None \<or> b_static_methods body n \<noteq> None \<or>
     b_class_methods body n \<noteq> None \<or> b_attrs body n \<noteq> None"

text \<open>The names in a \<open>BTreeSet\<close> come out sorted and once each.\<close>

definition abstract_names :: "registry \<Rightarrow> string list \<Rightarrow> class_body \<Rightarrow> string list" where
  "abstract_names R bases body =
     sort (remdups (filter (\<lambda>n. n \<in> set (b_abstract body) \<or> \<not> defined_in_body body n)
       (b_abstract body @ concat (List.map (\<lambda>b. case R b of None \<Rightarrow> [] | Some bc \<Rightarrow> c_abstract_methods bc) bases))))"

definition register_class ::
  "env \<Rightarrow> registry \<Rightarrow> string \<Rightarrow> string \<Rightarrow> base_scan \<Rightarrow> string option \<Rightarrow> class_body \<Rightarrow> registry eval_result" where
  "register_class E R c qual s metaclass body =
     result_bind (build_mro c (scan_bases s) R) (\<lambda>m.
       let sl = merge_slots R (scan_bases s) (parse_slots_attr E (b_attrs body ''__slots__'')) in
       Inr (R(c \<mapsto> (class_new c)\<lparr>
         c_methods := b_methods body, c_attrs := b_attrs body, c_bases := scan_bases s, c_mro := m,
         c_properties := b_properties body, c_static_methods := b_static_methods body,
         c_class_methods := b_class_methods body, c_enum_kind := scan_enum_kind s,
         c_enum_members := b_enum_members body, c_annotations := b_annotations body,
         c_initvar_fields := b_initvar_fields body, c_slots := fst sl, c_slot_names := snd sl,
         c_abstract_methods := abstract_names R (scan_bases s) body, c_metaclass := metaclass,
         c_qualname := qual, c_is_generic := scan_generic s\<rparr>)))"

text \<open>\<open>type(name, bases, dict)\<close>.\<close>

definition type_bases :: "pyval list \<Rightarrow> string list eval_result" where
  "type_bases vs = result_bind (result_all (List.map (\<lambda>b. case b of
       VClass n \<Rightarrow> Inr [n]
     | VExceptionType n \<Rightarrow> Inr [n]
     | _ \<Rightarrow> (if b = VType ''object'' \<or> b = VType ''type'' \<or> b = VBuiltinName ''object'' \<or> b = VBuiltinName ''type'' then Inr []
         else Inl (Interpreter (TypeError (''type() bases must be types, not '' @ [CHR 39] @ type_name b @ [CHR 39]))))) vs))
     (\<lambda>bs. Inr (concat bs))"

definition string_keys :: "(value_key \<times> pyval) list \<Rightarrow> string \<rightharpoonup> pyval" where
  "string_keys m = foldl (\<lambda>acc (k, v). case k of KString s \<Rightarrow> acc(string_of s \<mapsto> v) | _ \<Rightarrow> acc) Map.empty m"

definition dynamic_type_new :: "env \<Rightarrow> registry \<Rightarrow> pyval \<Rightarrow> pyval \<Rightarrow> pyval \<Rightarrow> (registry \<times> pyval) eval_result" where
  "dynamic_type_new E R name_v bases_v dict_v =
     (case name_v of
        VString n \<Rightarrow>
          (let c = string_of n;
               items = (case bases_v of VTuple vs \<Rightarrow> Some vs | VList a \<Rightarrow> Some (list_at E a) | _ \<Rightarrow> None) in
           case items of
             None \<Rightarrow> Inl (Interpreter (TypeError ''type() argument 2 must be a tuple''))
           | Some vs \<Rightarrow> result_bind (type_bases vs) (\<lambda>bases.
               (case dict_v of
                  VDict d \<Rightarrow>
                    (let attrs = string_keys (dict_at E d) in
                     result_bind (build_mro c bases R) (\<lambda>m.
                       let sl = parse_slots_attr E (attrs ''__slots__'') in
                       Inr (R(c \<mapsto> (class_new c)\<lparr>c_attrs := attrs, c_bases := bases, c_mro := m,
                           c_slots := fst sl, c_slot_names := snd sl\<rparr>), VClass c)))
                | _ \<Rightarrow> Inl (Interpreter (TypeError ''type() argument 3 must be a dict'')))))
      | _ \<Rightarrow> Inl (Interpreter (TypeError ''type() argument 1 must be str'')))"

section \<open>The resolution order as values\<close>

function parent_chain :: "string \<Rightarrow> string list" where
  "parent_chain n = (case builtin_exception_parent n of None \<Rightarrow> [] | Some p \<Rightarrow> p # parent_chain p)"
  by pat_completeness auto

termination
  by (relation "measure exc_rank") (simp_all add: exc_rank_decreases)

declare parent_chain.simps [simp del]

definition class_mro_values :: "registry \<Rightarrow> string \<Rightarrow> pyval list option" where
  "class_mro_values R c = (case R c of None \<Rightarrow> None | Some cv \<Rightarrow>
     (let out = List.map (\<lambda>n. if R n \<noteq> None then VClass n else VType n) (c_mro cv) @
            (if c_mro cv = [] then [] else List.map VType (parent_chain (last (c_mro cv)))) in
      Some (if out \<noteq> [] \<and> last out = VType ''object'' then out else out @ [VType ''object''])))"

definition builtin_type_mro_values :: "string \<Rightarrow> pyval list" where
  "builtin_type_mro_values n =
     (if n = ''object'' then [VType ''object'']
      else VType n # (if n = ''bool'' then [VType ''int''] else List.map VType (parent_chain n)) @ [VType ''object''])"

definition class_mro_is_exception :: "class_value \<Rightarrow> bool" where
  "class_mro_is_exception cv =
     list_ex (\<lambda>b. b = ''Exception'' \<or> b = ''BaseException'' \<or> is_exception_type_name b) (c_mro cv)"

section \<open>The registry stays consistent\<close>

text \<open>In a consistent registry the resolution order of a class starts with it, has no repetition and extends the order
  of every registered ancestor.\<close>

definition registry_ok :: "registry \<Rightarrow> bool" where
  "registry_ok R \<longleftrightarrow> (\<forall>c cv. R c = Some cv \<longrightarrow> (\<exists>L. c_mro cv = c # L \<and> distinct (c # L) \<and>
     (\<forall>b \<in> set L. \<forall>bv. R b = Some bv \<longrightarrow> subseq (c_mro bv) L)))"

definition fresh_name :: "registry \<Rightarrow> string \<Rightarrow> bool" where
  "fresh_name R c \<longleftrightarrow> R c = None \<and> (\<forall>d dv. R d = Some dv \<longrightarrow> c \<notin> set (c_mro dv))"

lemma registry_okD:
  assumes "registry_ok R" "R c = Some cv"
  obtains L where "c_mro cv = c # L" "distinct (c # L)"
    "\<And>b bv. b \<in> set L \<Longrightarrow> R b = Some bv \<Longrightarrow> subseq (c_mro bv) L"
  using assms unfolding registry_ok_def by blast

lemma linearised_ancestors:
  assumes "registry_ok R" "linearises L (mro_sequences R bases)" "b \<in> set L" "R b = Some bv"
  shows "subseq (c_mro bv) L"
proof -
  obtain s where s: "s \<in> set (mro_sequences R bases)" "b \<in> set s" and sub: "subseq s L"
    using assms(2,3) by (auto simp: linearises_def)
  obtain d where d: "d \<in> set bases" "b \<in> set (case R d of None \<Rightarrow> [d] | Some c \<Rightarrow> c_mro c)"
    "subseq (case R d of None \<Rightarrow> [d] | Some c \<Rightarrow> c_mro c) L"
  proof (cases "s = bases")
    case True
    have "c_mro bv \<in> set (mro_sequences R bases)"
      unfolding mro_sequences_def using True s(2) assms(4) by (auto simp: image_iff intro!: bexI [of _ b])
    then have "subseq (c_mro bv) L" using assms(2) unfolding linearises_def by blast
    moreover obtain L0 where "c_mro bv = b # L0" by (rule registry_okD [OF assms(1,4)])
    moreover have "b \<in> set bases" using True s(2) by (simp only:)
    ultimately show thesis by (intro that [of b]) (simp_all add: assms(4))
  next
    case False
    then show thesis using s sub that by (auto simp: mro_sequences_def)
  qed
  show ?thesis
  proof (cases "R d")
    case None
    then show ?thesis using d assms(4) by simp
  next
    case (Some dv)
    obtain L0 where L0: "c_mro dv = d # L0" "distinct (d # L0)"
      "\<And>b bv. b \<in> set L0 \<Longrightarrow> R b = Some bv \<Longrightarrow> subseq (c_mro bv) L0"
      using registry_okD [OF assms(1) Some] by blast
    then have "subseq (c_mro bv) (d # L0)" using d(2) Some assms(4) by (cases "b = d") auto
    then show ?thesis using d(3) Some L0(1) by (auto intro: subseq_order.trans)
  qed
qed

lemma build_mro_fresh:
  assumes "fresh_name R c" "c \<notin> set bases" "linearises L (mro_sequences R bases)"
  shows "c \<notin> set L"
  using assms by (auto simp: linearises_def mro_sequences_def fresh_name_def split: option.splits)

lemma registry_ok_update:
  assumes "registry_ok R" "fresh_name R c" "c_mro cv = c # L" "c \<notin> set L" "distinct L"
    "\<And>b bv. b \<in> set L \<Longrightarrow> R b = Some bv \<Longrightarrow> subseq (c_mro bv) L"
  shows "registry_ok (R(c \<mapsto> cv))"
  unfolding registry_ok_def
proof (intro allI impI)
  fix d dv
  assume d: "(R(c \<mapsto> cv)) d = Some dv"
  show "\<exists>L. c_mro dv = d # L \<and> distinct (d # L) \<and> (\<forall>b \<in> set L. \<forall>bv. (R(c \<mapsto> cv)) b = Some bv \<longrightarrow> subseq (c_mro bv) L)"
  proof (cases "d = c")
    case True
    then show ?thesis using d assms(3-6) by (intro exI [of _ L]) auto
  next
    case False
    then have Rd: "R d = Some dv" using d by simp
    obtain L0 where L0: "c_mro dv = d # L0" "distinct (d # L0)"
      "\<And>b bv. b \<in> set L0 \<Longrightarrow> R b = Some bv \<Longrightarrow> subseq (c_mro bv) L0"
      using registry_okD [OF assms(1) Rd] by blast
    have "c \<notin> set L0" using assms(2) Rd L0(1) unfolding fresh_name_def by (metis list.set_intros(2))
    then show ?thesis using L0 by (intro exI [of _ L0]) (auto split: if_splits)
  qed
qed

text \<open>C18: Registering a class under a new name keeps the registry consistent: the resolution order of every class starts
  with the class, lists no class twice and extends the order of each of its registered ancestors.  The new class keeps
  the bases, the methods and the attributes of its body.\<close>
theorem registry_consistent:
  assumes "registry_ok R" "fresh_name R c" "c \<notin> set (scan_bases s)"
    "register_class E R c qual s metaclass body = Inr R'"
  shows "registry_ok R' \<and> (\<exists>cv. R' = R(c \<mapsto> cv) \<and> c_bases cv = scan_bases s \<and> c_methods cv = b_methods body \<and>
    c_attrs cv = b_attrs body)"
proof -
  obtain m where m: "build_mro c (scan_bases s) R = Inr m"
    using assms(4) by (cases "build_mro c (scan_bases s) R") (simp_all add: register_class_def)
  then obtain L where L: "m = c # L" "linearises L (mro_sequences R (scan_bases s))"
    using mro_correct_Inr [OF m] by blast
  obtain cv where cv: "R' = R(c \<mapsto> cv)" "c_mro cv = m" "c_bases cv = scan_bases s" "c_methods cv = b_methods body"
    "c_attrs cv = b_attrs body"
    using assms(4) m by (auto simp: register_class_def Let_def)
  have "registry_ok R'"
    unfolding cv(1)
    by (rule registry_ok_update [OF assms(1,2) cv(2) [unfolded L(1)] build_mro_fresh [OF assms(2,3) L(2)]])
      (use L(2) linearised_ancestors [OF assms(1) L(2)] in \<open>auto simp: linearises_def\<close>)
  then show ?thesis using cv by blast
qed

text \<open>Inherited lookup is monotone: when the method found for a class is defined by a class among the ancestors of
  one of its ancestors, that ancestor finds the same definition; a subclass changes the meaning of an inherited method
  only through the classes it adds.\<close>
theorem lookup_monotone:
  assumes "registry_ok R" "R c = Some cv" "b \<in> set (c_mro cv)" "R b = Some bv"
    "lookup_method_in_mro R c n = Some (d, def)" "d \<in> set (c_mro bv)"
  shows "lookup_method_in_mro R b n = Some (d, def)"
proof -
  obtain L where L: "c_mro cv = c # L" "distinct (c # L)" "\<And>b bv. b \<in> set L \<Longrightarrow> R b = Some bv \<Longrightarrow> subseq (c_mro bv) L"
    using registry_okD [OF assms(1,2)] by blast
  have "subseq (c_mro bv) (c_mro cv)"
    using L assms(2-4) by (cases "b = c") auto
  moreover have "mro_find R (\<lambda>cv. c_methods cv n) (c_mro cv) = Some (d, def)"
    using assms(2,5) by (simp add: lookup_method_in_mro_def walk_mro_def)
  ultimately have "mro_find R (\<lambda>cv. c_methods cv n) (c_mro bv) = Some (d, def)"
    using mro_find_subseq assms(6) L(1,2) by metis
  then show ?thesis using assms(4) by (simp add: lookup_method_in_mro_def walk_mro_def)
qed

definition empty_body :: class_body where
  "empty_body = \<lparr>b_methods = Map.empty, b_attrs = Map.empty, b_properties = Map.empty, b_static_methods = Map.empty,
     b_class_methods = Map.empty, b_enum_members = [], b_annotations = [], b_initvar_fields = [], b_abstract = []\<rparr>"

definition bases_only :: "string list \<Rightarrow> base_scan" where
  "bases_only bs = \<lparr>scan_bases = bs, scan_enum_kind = None, scan_namedtuple = False, scan_generic = False\<rparr>"

definition class_with_mro :: "string \<Rightarrow> string list \<Rightarrow> class_value" where
  "class_with_mro c m = (class_new c)\<lparr>c_mro := c # m, c_methods := [''f'' \<mapsto> length m]\<rparr>"

definition sample_registry :: registry where
  "sample_registry = [''A'' \<mapsto> class_with_mro ''A'' [], ''B'' \<mapsto> class_with_mro ''B'' [''A'']]"

lemma sample_registry_ok: "registry_ok sample_registry"
  by (auto simp: registry_ok_def sample_registry_def class_with_mro_def split: if_splits)

lemma sample_mro: "build_mro ''C'' [''B'', ''A''] sample_registry = Inr [''C'', ''B'', ''A'']"
  by (simp add: build_mro_def mro_sequences_def sample_registry_def class_with_mro_def c3_merge.simps find_head_def
      heads_def good_head_def strip_all_def strip_head_def)

theorem registry_consistent_witness:
  "\<exists>R'. register_class empty_env sample_registry ''C'' ''C'' (bases_only [''B'', ''A'']) None empty_body = Inr R' \<and> registry_ok R'"
proof -
  let ?r = "register_class empty_env sample_registry ''C'' ''C'' (bases_only [''B'', ''A'']) None empty_body"
  obtain R' where R': "?r = Inr R'"
    by (simp add: register_class_def bases_only_def sample_mro Let_def)
  moreover have "fresh_name sample_registry ''C''"
    by (auto simp: fresh_name_def sample_registry_def class_with_mro_def split: if_splits)
  ultimately show ?thesis
    using registry_consistent [OF sample_registry_ok _ _ R'] by (simp add: bases_only_def)
qed

theorem lookup_monotone_witness:
  "lookup_method_in_mro (sample_registry(''B'' \<mapsto> (class_with_mro ''B'' [''A''])\<lparr>c_methods := Map.empty\<rparr>)) ''A'' ''f'' = Some (''A'', 0)"
  by (rule lookup_monotone [of _ "''B''" "(class_with_mro ''B'' [''A''])\<lparr>c_methods := Map.empty\<rparr>" _ "class_with_mro ''A'' []"])
    (auto simp: registry_ok_def sample_registry_def class_with_mro_def lookup_method_in_mro_def walk_mro_def split: if_splits)

section \<open>What names and the built-in tree do to the order\<close>

text \<open>A class whose base has its own name replaces the base in the registry: the methods of the base are lost.\<close>

theorem self_base_loses_methods:
  assumes "R c = Some cv" "c_mro cv = [c]" "scan_bases s = [c]" "b_methods body n = None"
  shows "\<exists>R'. register_class E R c qual s metaclass body = Inr R' \<and> lookup_method_in_mro R' c n = None"
proof -
  have "build_mro c [c] R = Inr [c, c]"
    using assms(1,2) by (simp add: build_mro_def mro_sequences_def c3_merge.simps find_head_def heads_def good_head_def
        strip_all_def strip_head_def)
  then show ?thesis
    using assms by (simp add: register_class_def lookup_method_in_mro_def walk_mro_def Let_def)
qed

text \<open>The built-in exception types have no resolution order in the registry, so an order that contradicts the tree of
  exceptions is accepted.\<close>

theorem builtin_order_unchecked:
  assumes "R ''Exception'' = None" "R ''ValueError'' = None"
  shows "build_mro c [''Exception'', ''ValueError''] R = Inr [c, ''Exception'', ''ValueError''] \<and>
    builtin_exception_parent ''ValueError'' = Some ''Exception''"
proof
  show "build_mro c [''Exception'', ''ValueError''] R = Inr [c, ''Exception'', ''ValueError'']"
    using assms by (simp add: build_mro_def mro_sequences_def c3_merge.simps find_head_def heads_def good_head_def
        strip_all_def strip_head_def)
  show "builtin_exception_parent ''ValueError'' = Some ''Exception''" by code_simp
qed

text \<open>An abstract method stays abstract although the order finds a concrete definition first.\<close>

theorem mixin_leaves_abstract:
  assumes "R mixin = Some mv" "c_mro mv = [mixin]" "c_methods mv n = Some def"
    "R interface = Some iv" "c_mro iv = [interface]" "n \<in> set (c_abstract_methods iv)" "mixin \<noteq> interface" "c \<notin> {mixin, interface}"
  shows "\<exists>R' cv. register_class E R c qual (bases_only [mixin, interface]) None empty_body = Inr R' \<and> R' c = Some cv \<and>
    n \<in> set (c_abstract_methods cv) \<and> lookup_method_in_mro R' c n = Some (mixin, def)"
proof -
  have "build_mro c [mixin, interface] R = Inr [c, mixin, interface]"
    using assms by (simp add: build_mro_def mro_sequences_def c3_merge.simps find_head_def heads_def good_head_def
        strip_all_def strip_head_def)
  then show ?thesis
    using assms by (auto simp: register_class_def bases_only_def empty_body_def lookup_method_in_mro_def walk_mro_def Let_def
        abstract_names_def defined_in_body_def class_new_def)
qed

section \<open>Members of enumerations\<close>

definition is_auto_sentinel :: "pyval \<Rightarrow> bool" where
  "is_auto_sentinel v \<longleftrightarrow> v = VModuleFunction ''enum'' ''__auto__''"

definition next_power_of_two :: "nat \<Rightarrow> nat" where
  "next_power_of_two n = 2 ^ bit_length (n - 1)"

definition i64_of_u64 :: "nat \<Rightarrow> i64" where
  "i64_of_u64 n = (if n < 2 ^ 63 then of_nat n else word_of_int i64_max)"

text \<open>The value of a member and the next value of \<open>auto()\<close>.  \<open>to_lowercase\<close> is that of the standard library.\<close>

definition auto_value :: "(string \<Rightarrow> string) \<Rightarrow> enum_kind \<Rightarrow> string \<Rightarrow> i64 \<Rightarrow> pyval \<times> i64" where
  "auto_value to_lowercase kind member auto_next =
     (if kind = StrKind then (VString (str_of (to_lowercase member)), auto_next)
      else if enum_is_flag kind then
        (let n = next_power_of_two (nat (max (sint auto_next) 1)) in
         (VInt (i64_of_u64 n), i64_of_u64 (min (2 ^ 64 - 1) (n * 2))))
      else (VInt auto_next, auto_next + 1))"

definition wrap_enum_member ::
  "(string \<Rightarrow> string) \<Rightarrow> enum_kind option \<Rightarrow> string \<Rightarrow> string \<Rightarrow> pyval \<Rightarrow> i64 \<Rightarrow> pyval \<times> i64" where
  "wrap_enum_member to_lowercase enum_kind c member v auto_next = (case enum_kind of
       None \<Rightarrow> (v, auto_next)
     | Some kind \<Rightarrow>
         if (case v of VFunction a \<Rightarrow> True | VLambda a \<Rightarrow> True | VEnumMember c1 m1 i1 k1 \<Rightarrow> True | _ \<Rightarrow> False) \<or>
            starts_with ''_'' member then (v, auto_next)
         else let (inner, auto_next') =
                (if is_auto_sentinel v then auto_value to_lowercase kind member auto_next
                 else (v, case v of
                     VInt i \<Rightarrow> (if sint auto_next \<le> min i64_max (sint i + 1) then word_of_int (min i64_max (sint i + 1)) else auto_next)
                   | _ \<Rightarrow> auto_next)) in
           (VEnumMember c member inner kind, auto_next'))"

text \<open>Targets of an assignment in a class body.\<close>

datatype class_target = TName string | TSeq "class_target list" | TOther

definition class_items :: "env \<Rightarrow> pyval \<Rightarrow> pyval list eval_result" where
  "class_items E v = (case v of
       VTuple items \<Rightarrow> Inr items
     | VList a \<Rightarrow> Inr (list_at E a)
     | VString s \<Rightarrow> Inr (List.map (\<lambda>c. VString [c]) s)
     | _ \<Rightarrow> Inl (Interpreter (TypeError (''cannot unpack non-iterable '' @ type_name v @ '' object''))))"

definition class_arity :: "nat \<Rightarrow> nat \<Rightarrow> unit eval_result" where
  "class_arity targets items =
     (if items = targets then Inr ()
      else Inl (Interpreter (ValueError (if targets < items
        then ''too many values to unpack (expected '' @ nat_digits targets @ '')''
        else ''not enough values to unpack (expected '' @ nat_digits targets @ '', got '' @ nat_digits items @ '')''))))"

type_synonym enum_scope = "(string \<rightharpoonup> pyval) \<times> i64"

fun bind_class_target ::
  "(string \<Rightarrow> string) \<Rightarrow> env \<Rightarrow> enum_kind option \<Rightarrow> string \<Rightarrow> class_target \<Rightarrow> pyval \<Rightarrow> enum_scope \<Rightarrow> enum_scope eval_result"
and unpack_class_targets ::
  "(string \<Rightarrow> string) \<Rightarrow> env \<Rightarrow> enum_kind option \<Rightarrow> string \<Rightarrow> class_target list \<Rightarrow> pyval list \<Rightarrow> enum_scope \<Rightarrow> enum_scope eval_result"
where
  "bind_class_target lc E kind c (TName n) v (attrs, auto_next) =
     (case wrap_enum_member lc kind c n v auto_next of (w, auto_next') \<Rightarrow> Inr (attrs(n \<mapsto> w), auto_next'))"
| "bind_class_target lc E kind c (TSeq ts) v sc =
     result_bind (class_items E v) (\<lambda>items. result_bind (class_arity (length ts) (length items)) (\<lambda>_.
       unpack_class_targets lc E kind c ts items sc))"
| "bind_class_target lc E kind c TOther v sc = Inr sc"
| "unpack_class_targets lc E kind c (t # ts) (v # vs) sc =
     result_bind (bind_class_target lc E kind c t v sc) (unpack_class_targets lc E kind c ts vs)"
| "unpack_class_targets lc E kind c [] vs sc = Inr sc"
| "unpack_class_targets lc E kind c (t # ts) [] sc = Inr sc"

section \<open>Data classes\<close>

definition empty_for_builtin_factory :: "env \<Rightarrow> addr \<Rightarrow> string \<Rightarrow> (env \<times> pyval) eval_result" where
  "empty_for_builtin_factory E fresh n =
     (if n = ''list'' then Inr (set_list E fresh [], VList fresh)
      else if n = ''dict'' then Inr (set_dict E fresh [], VDict fresh)
      else if n = ''set'' then Inr (E\<lparr>set_at := (set_at E)(fresh := body_empty)\<rparr>, VSet fresh)
      else if n = ''frozenset'' then Inr (E, VFrozenset body_empty)
      else if n = ''tuple'' then Inr (E, VTuple [])
      else if n = ''str'' then Inr (E, VString [])
      else Inl (Interpreter (TypeError (''default_factory '' @ [CHR 39] @ n @ [CHR 39] @ '' is not callable''))))"

text \<open>Calling a factory changes the state; \<open>call_factory\<close> is that call, and \<open>init_fields\<close> are bound before the others.\<close>

definition field_value ::
  "('s \<Rightarrow> pyval \<Rightarrow> 's \<times> pyval eval_result) \<Rightarrow> eval_error \<Rightarrow> 's \<Rightarrow> dataclass_field \<Rightarrow> 's \<times> pyval eval_result" where
  "field_value call_factory missing st f = (case df_default f of
       Some v \<Rightarrow> (st, Inr v)
     | None \<Rightarrow> (case df_default_factory f of Some g \<Rightarrow> call_factory st g | None \<Rightarrow> (st, Inl missing)))"

definition class_call_error :: "string \<Rightarrow> string \<Rightarrow> string \<Rightarrow> eval_error" where
  "class_call_error c text n = Interpreter (TypeError (c @ ''() '' @ text @ '' '' @ [CHR 39] @ n @ [CHR 39]))"

primrec bind_init_fields ::
  "('s \<Rightarrow> pyval \<Rightarrow> 's \<times> pyval eval_result) \<Rightarrow> string \<Rightarrow> (string \<rightharpoonup> pyval) \<Rightarrow> dataclass_field list \<Rightarrow> pyval list \<Rightarrow> 's \<Rightarrow>
   (string \<rightharpoonup> pyval) \<times> pyval list \<Rightarrow> 's \<times> ((string \<rightharpoonup> pyval) \<times> pyval list) eval_result" where
  "bind_init_fields cf c kwargs [] args st acc = (st, Inr acc)"
| "bind_init_fields cf c kwargs (f # fs) args st acc =
     (let positional = (case args of [] \<Rightarrow> None | v # vs \<Rightarrow> Some v); keyword = kwargs (df_name f);
          bound = (case (positional, keyword) of
              (Some v, Some w) \<Rightarrow> (st, Inl (class_call_error c ''got multiple values for argument'' (df_name f)))
            | (Some v, None) \<Rightarrow> (st, Inr v)
            | (None, Some w) \<Rightarrow> (st, Inr w)
            | (None, None) \<Rightarrow> field_value cf (class_call_error c ''missing required argument:'' (df_name f)) st f) in
      case bound of
        (st', Inl e) \<Rightarrow> (st', Inl e)
      | (st', Inr v) \<Rightarrow> bind_init_fields cf c kwargs fs (drop 1 args) st'
          (if df_init_only f then (fst acc, snd acc @ [v]) else ((fst acc)(df_name f \<mapsto> v), snd acc)))"

primrec seed_fields ::
  "('s \<Rightarrow> pyval \<Rightarrow> 's \<times> pyval eval_result) \<Rightarrow> dataclass_field list \<Rightarrow> 's \<Rightarrow> (string \<rightharpoonup> pyval) \<Rightarrow> 's \<times> (string \<rightharpoonup> pyval) eval_result" where
  "seed_fields cf [] st acc = (st, Inr acc)"
| "seed_fields cf (f # fs) st acc =
     (if df_default f = None \<and> df_default_factory f = None then seed_fields cf fs st acc
      else case field_value cf (class_call_error [] [] []) st f of
        (st', Inl e) \<Rightarrow> (st', Inl e)
      | (st', Inr v) \<Rightarrow> seed_fields cf fs st' (acc(df_name f \<mapsto> v)))"

text \<open>The fields of the new instance and the values for \<open>__post_init__\<close>, which the caller runs.\<close>

definition dataclass_fields_of ::
  "('s \<Rightarrow> pyval \<Rightarrow> 's \<times> pyval eval_result) \<Rightarrow> string \<Rightarrow> dataclass_field list \<Rightarrow> pyval list \<Rightarrow> (string \<times> pyval) list \<Rightarrow> 's \<Rightarrow>
   's \<times> ((string \<rightharpoonup> pyval) \<times> pyval list) eval_result" where
  "dataclass_fields_of cf c fs args kwargs st =
     (let init_fields = filter df_init fs in
      if length init_fields < length args then
        (st, Inl (Interpreter (TypeError (c @ ''() takes '' @ nat_digits (length init_fields) @ '' positional arguments but '' @
          nat_digits (length args) @ '' were given''))))
      else case List.find (\<lambda>(k, v). k \<notin> set (List.map df_name init_fields)) kwargs of
        Some (k, v) \<Rightarrow> (st, Inl (class_call_error c ''got an unexpected keyword argument'' k))
      | None \<Rightarrow> (case bind_init_fields cf c (map_of kwargs) init_fields args st (Map.empty, []) of
          (st', Inl e) \<Rightarrow> (st', Inl e)
        | (st', Inr (bound, initvars)) \<Rightarrow> (case seed_fields cf (filter (\<lambda>f. \<not> df_init f) fs) st' bound of
            (st'', Inl e) \<Rightarrow> (st'', Inl e)
          | (st'', Inr all_fields) \<Rightarrow> (st'', Inr (all_fields, initvars)))))"

text \<open>The value a call supplies for the field at a position, and what the field falls back to.\<close>

definition supplied :: "(string \<rightharpoonup> pyval) \<Rightarrow> pyval list \<Rightarrow> nat \<Rightarrow> dataclass_field \<Rightarrow> pyval option" where
  "supplied kwargs args i f =
     (if i < length args then Some (args ! i)
      else case kwargs (df_name f) of Some v \<Rightarrow> Some v | None \<Rightarrow> df_default f)"

lemma bind_init_step:
  assumes "bind_init_fields cf c kw (f # fs) args st acc = (st', Inr r)"
  obtains st1 v where
    "bind_init_fields cf c kw fs (drop 1 args) st1
      (if df_init_only f then (fst acc, snd acc @ [v]) else ((fst acc)(df_name f \<mapsto> v), snd acc)) = (st', Inr r)"
    "args \<noteq> [] \<longrightarrow> kw (df_name f) = None" "case supplied kw args 0 f of Some w \<Rightarrow> v = w | None \<Rightarrow> True"
  using assms
  by (cases args; cases "kw (df_name f)"; cases "df_default f")
    (auto simp: field_value_def supplied_def split: prod.splits sum.splits option.splits)

lemma bind_init_frame:
  "bind_init_fields cf c kw fs args st acc = (st', Inr (m, vs)) \<Longrightarrow> n \<notin> df_name ` set fs \<Longrightarrow> m n = fst acc n"
proof (induction fs arbitrary: args st acc)
  case (Cons f fs)
  from Cons.prems(1) show ?case
    by (rule bind_init_step) (use Cons.IH Cons.prems(2) in \<open>fastforce split: if_splits\<close>)
qed simp

lemma bind_init_binds:
  "bind_init_fields cf c kw fs args st acc = (st', Inr (m, vs)) \<Longrightarrow> distinct (List.map df_name fs) \<Longrightarrow> i < length fs \<Longrightarrow>
   (i < length args \<longrightarrow> kw (df_name (fs ! i)) = None) \<and>
   (\<not> df_init_only (fs ! i) \<longrightarrow> (\<exists>v. m (df_name (fs ! i)) = Some v \<and>
      (case supplied kw args i (fs ! i) of Some w \<Rightarrow> v = w | None \<Rightarrow> True)))"
proof (induction fs arbitrary: args st acc i)
  case (Cons f fs)
  obtain st1 v acc1 where step: "bind_init_fields cf c kw fs (drop 1 args) st1 acc1 = (st', Inr (m, vs))"
    and v: "args \<noteq> [] \<longrightarrow> kw (df_name f) = None" "case supplied kw args 0 f of Some w \<Rightarrow> v = w | None \<Rightarrow> True"
    and acc1: "acc1 = (if df_init_only f then (fst acc, snd acc @ [v]) else ((fst acc)(df_name f \<mapsto> v), snd acc))"
    by (rule bind_init_step [OF Cons.prems(1)]) (rule that [OF _ _ _ refl])
  show ?case
  proof (cases i)
    case 0
    have "df_name f \<notin> df_name ` set fs" using Cons.prems(2) by simp
    then have "m (df_name f) = fst acc1 (df_name f)" by (rule bind_init_frame [OF step])
    then show ?thesis using 0 v acc1 by auto
  next
    case (Suc j)
    have "supplied kw (drop 1 args) j (fs ! j) = supplied kw args i (fs ! j)"
      using Suc by (auto simp: supplied_def)
    moreover have "j < length (drop 1 args) \<longleftrightarrow> i < length args" using Suc by auto
    ultimately show ?thesis using Cons.IH [OF step, of j] Cons.prems(2,3) Suc by auto
  qed
qed simp

lemma seed_frame: "seed_fields cf fs st m = (st', Inr m') \<Longrightarrow> n \<notin> df_name ` set fs \<Longrightarrow> m' n = m n"
  by (induction fs arbitrary: st m) (auto split: prod.splits sum.splits if_splits)

text \<open>A successful call of a data class binds its fields as declared: every field of \<open>__init__\<close> that is stored holds the
  positional argument at its position, else the keyword of its name, else its default; no field takes both a
  positional argument and a keyword, there are no more positional arguments than fields and no other keyword.\<close>
theorem dataclass_binding:
  assumes "dataclass_fields_of cf c fs args kwargs st = (st', Inr (m, vs))" "distinct (List.map df_name fs)"
    "i < length (filter df_init fs)"
  shows "length args \<le> length (filter df_init fs) \<and> fst ` set kwargs \<subseteq> df_name ` set (filter df_init fs) \<and>
    (i < length args \<longrightarrow> map_of kwargs (df_name (filter df_init fs ! i)) = None) \<and>
    (\<not> df_init_only (filter df_init fs ! i) \<longrightarrow> (\<exists>v. m (df_name (filter df_init fs ! i)) = Some v \<and>
      (case supplied (map_of kwargs) args i (filter df_init fs ! i) of Some w \<Rightarrow> v = w | None \<Rightarrow> True)))"
proof -
  let ?fs = "filter df_init fs"
  have len: "length args \<le> length ?fs"
    using assms(1) by (auto simp: dataclass_fields_of_def Let_def split: if_splits)
  have kw: "List.find (\<lambda>(k, v). k \<notin> set (List.map df_name ?fs)) kwargs = None"
    using assms(1) len by (auto simp: dataclass_fields_of_def Let_def split: option.splits)
  obtain st1 m1 where b: "bind_init_fields cf c (map_of kwargs) ?fs args st (Map.empty, []) = (st1, Inr (m1, vs))"
    "seed_fields cf (filter (\<lambda>f. \<not> df_init f) fs) st1 m1 = (st', Inr m)"
    using assms(1) len kw by (auto simp: dataclass_fields_of_def Let_def split: prod.splits sum.splits)
  have "distinct (List.map df_name ?fs)" using assms(2) by (simp add: distinct_map_filter)
  note bound = bind_init_binds [OF b(1) this assms(3)]
  have "?fs ! i \<in> set ?fs" using assms(3) by (rule nth_mem)
  then have "df_name (?fs ! i) \<notin> df_name ` set (filter (\<lambda>f. \<not> df_init f) fs)"
    using assms(2) by (auto simp: distinct_map inj_on_def)
  then have "m (df_name (?fs ! i)) = m1 (df_name (?fs ! i))" by (rule seed_frame [OF b(2)])
  moreover have "fst ` set kwargs \<subseteq> df_name ` set ?fs" using kw by (fastforce simp: find_None_iff)
  ultimately show ?thesis using bound len by simp
qed

definition sample_field :: "string \<Rightarrow> pyval option \<Rightarrow> dataclass_field" where
  "sample_field n d = \<lparr>df_name = n, df_default = d, df_default_factory = None, df_init = True, df_repr = True, df_compare = True, df_init_only = False\<rparr>"

theorem dataclass_binding_witness:
  "fst (the (case snd (dataclass_fields_of (\<lambda>st g. (st, Inr VNone)) ''P'' [sample_field ''x'' None, sample_field ''y'' (Some VNone)]
      [VBool True] [] (0 :: nat)) of Inr r \<Rightarrow> Some r | Inl e \<Rightarrow> None)) ''y'' = Some VNone"
proof -
  let ?fs = "[sample_field ''x'' None, sample_field ''y'' (Some VNone)]"
  obtain m vs where r: "dataclass_fields_of (\<lambda>st g. (st, Inr VNone)) ''P'' ?fs [VBool True] [] (0 :: nat) = (0, Inr (m, vs))"
    by (simp add: dataclass_fields_of_def sample_field_def field_value_def Let_def)
  have "\<exists>v. m ''y'' = Some v \<and> v = VNone"
    using dataclass_binding [OF r, of 1] by (simp add: sample_field_def supplied_def)
  then show ?thesis using r by simp
qed

end
