(* ===== verification/Calls.thy ===== *)
theory Calls
  imports Exceptions
begin

text \<open>
  Calls of functions defined in the program (\<open>eval/functions/params.rs\<close>, \<open>eval/functions/dispatch.rs\<close> and the scopes of
  \<open>eval/functions/definitions.rs\<close>): binding of arguments to parameters, the frame of a call, and what the frame restores.

  Parsing and evaluating the source of a default, the evaluation of one statement, the size of a value, and the equality
  of values in Rust are parameters.  An \<open>IndexMap\<close> from names is an association list without repeated keys.
\<close>

section \<open>Parameters\<close>

record param =
  p_name :: string
  p_annotation :: "string option"

record function_params =
  fp_args :: "param list"
  fp_defaults :: "string list"
  fp_default_values :: "pyval list"
  fp_vararg :: "string option"
  fp_kwonlyargs :: "param list"
  fp_kw_defaults :: "string option list"
  fp_kw_default_values :: "pyval option list"
  fp_kwarg :: "string option"
  fp_posonly_count :: nat

text \<open>A computation on the state that may fail, in sequence.\<close>

definition eval_bind ::
  "interp_state \<times> 'a eval_result \<Rightarrow> (interp_state \<Rightarrow> 'a \<Rightarrow> interp_state \<times> 'b eval_result) \<Rightarrow> interp_state \<times> 'b eval_result" where
  "eval_bind r f = (case r of (s, Inl e) \<Rightarrow> (s, Inl e) | (s, Inr a) \<Rightarrow> f s a)"

lemma eval_bind_simps [simp]: "eval_bind (s, Inl e) f = (s, Inl e)" "eval_bind (s, Inr a) f = f s a"
  by (simp_all add: eval_bind_def)

fun eval_all :: "('x, 'a) eval \<Rightarrow> interp_state \<Rightarrow> 'x list \<Rightarrow> interp_state \<times> 'a list eval_result" where
  "eval_all ev s [] = (s, Inr [])"
| "eval_all ev s (x # xs) = eval_bind (ev s x) (\<lambda>s1 a. eval_bind (eval_all ev s1 xs) (\<lambda>s2 as. (s2, Inr (a # as))))"

definition eval_optional :: "(string, pyval) eval \<Rightarrow> (string option, pyval option) eval" where
  "eval_optional ev s src = (case src of
     None \<Rightarrow> (s, Inr None) | Some x \<Rightarrow> eval_bind (ev s x) (\<lambda>s1 v. (s1, Inr (Some v))))"

definition evaluate_param_defaults ::
  "(string, pyval) eval \<Rightarrow> interp_state \<Rightarrow> function_params \<Rightarrow> interp_state \<times> function_params eval_result" where
  "evaluate_param_defaults ev s ps =
     eval_bind
       (if fp_default_values ps = [] \<and> fp_defaults ps \<noteq> []
        then eval_bind (eval_all ev s (fp_defaults ps)) (\<lambda>s1 vs. (s1, Inr (ps\<lparr>fp_default_values := vs\<rparr>)))
        else (s, Inr ps))
       (\<lambda>s1 ps1.
         if fp_kw_default_values ps1 = [] \<and> fp_kw_defaults ps1 \<noteq> []
         then eval_bind (eval_all (eval_optional ev) s1 (fp_kw_defaults ps1)) (\<lambda>s2 vs. (s2, Inr (ps1\<lparr>fp_kw_default_values := vs\<rparr>)))
         else (s1, Inr ps1))"

section \<open>Errors of a call\<close>

definition quoted :: "string \<Rightarrow> string" where
  "quoted n = [CHR 39] @ n @ [CHR 39]"

fun join :: "string \<Rightarrow> string list \<Rightarrow> string" where
  "join sep [] = []"
| "join sep [x] = x"
| "join sep (x # y # ys) = x @ sep @ join sep (y # ys)"

definition call_prefix :: "string \<Rightarrow> string" where
  "call_prefix fname = (if fname = [] then [] else fname @ ''() '')"

definition call_error :: "string \<Rightarrow> eval_error" where
  "call_error m = Interpreter (TypeError m)"

definition name_list :: "string list \<Rightarrow> string" where
  "name_list missing = (case missing of
       [] \<Rightarrow> []
     | [a] \<Rightarrow> quoted a
     | [a, b] \<Rightarrow> quoted a @ '' and '' @ quoted b
     | _ \<Rightarrow> join '', '' (List.map quoted (butlast missing)) @ '', and '' @ quoted (last missing))"

definition missing_positional_error :: "string \<Rightarrow> string list \<Rightarrow> eval_error" where
  "missing_positional_error fname missing =
     call_error (call_prefix fname @ ''missing '' @ nat_digits (length missing) @ '' required positional argument'' @
       (if length missing = 1 then [] else ''s'') @ '': '' @ name_list missing)"

definition too_many_error :: "string \<Rightarrow> nat \<Rightarrow> nat \<Rightarrow> eval_error" where
  "too_many_error fname params given =
     call_error (call_prefix fname @ ''takes '' @ nat_digits params @ '' positional argument'' @ (if params = 1 then [] else ''s'') @
       '' but '' @ nat_digits given @ '' '' @ (if given = 1 then ''was'' else ''were'') @ '' given'')"

definition posonly_error :: "string \<Rightarrow> string list \<Rightarrow> eval_error" where
  "posonly_error fname bad =
     call_error (call_prefix fname @ ''got some positional-only arguments passed as keyword arguments: '' @ quoted (join '', '' bad))"

definition multiple_values_error :: "string \<Rightarrow> eval_error" where
  "multiple_values_error n = call_error (''got multiple values for argument '' @ quoted n)"

definition missing_keyword_error :: "string \<Rightarrow> eval_error" where
  "missing_keyword_error n = call_error (''missing required keyword argument: '' @ quoted n)"

definition unexpected_keyword_error :: "string \<Rightarrow> eval_error" where
  "unexpected_keyword_error n = call_error (''got an unexpected keyword argument '' @ quoted n)"

section \<open>Binding\<close>

type_synonym scope = "string \<rightharpoonup> pyval"
type_synonym kwargs = "(string \<times> pyval) list"

text \<open>A default that was not evaluated with the definition is evaluated now; an error of it counts as \<open>None\<close>.\<close>

definition late_default :: "(string, pyval) eval \<Rightarrow> interp_state \<Rightarrow> string \<Rightarrow> interp_state \<times> pyval" where
  "late_default ev s src = (case ev s src of (s1, Inr v) \<Rightarrow> (s1, v) | (s1, Inl e) \<Rightarrow> (s1, VNone))"

definition positional_default ::
  "(string, pyval) eval \<Rightarrow> function_params \<Rightarrow> interp_state \<Rightarrow> nat \<Rightarrow> interp_state \<times> pyval option" where
  "positional_default ev ps s i =
     (let first_default = length (fp_args ps) - length (fp_defaults ps) in
      if i < first_default then (s, None)
      else let di = i - first_default in
        if di < length (fp_default_values ps) then (s, Some (fp_default_values ps ! di))
        else if di < length (fp_defaults ps) then (case late_default ev s (fp_defaults ps ! di) of (s1, v) \<Rightarrow> (s1, Some v))
        else (s, None))"

text \<open>The loop over the positional parameters from position \<open>i\<close>: the scope so far and the names that are missing.\<close>

primrec bind_positional ::
  "(string, pyval) eval \<Rightarrow> function_params \<Rightarrow> pyval list \<Rightarrow> kwargs \<Rightarrow> nat \<Rightarrow> param list \<Rightarrow> interp_state \<Rightarrow> scope \<times> string list \<Rightarrow>
   interp_state \<times> (scope \<times> string list) eval_result" where
  "bind_positional ev ps vals kw i [] s acc = (s, Inr acc)"
| "bind_positional ev ps vals kw i (p # rest) s acc =
     (let is_posonly = i < min (fp_posonly_count ps) (length (fp_args ps)) in
      if i < length vals then
        (if \<not> is_posonly \<and> map_of kw (p_name p) \<noteq> None then (s, Inl (multiple_values_error (p_name p)))
         else bind_positional ev ps vals kw (Suc i) rest s ((fst acc)(p_name p \<mapsto> vals ! i), snd acc))
      else case (if is_posonly then None else map_of kw (p_name p)) of
        Some v \<Rightarrow> bind_positional ev ps vals kw (Suc i) rest s ((fst acc)(p_name p \<mapsto> v), snd acc)
      | None \<Rightarrow> (case positional_default ev ps s i of
          (s1, Some v) \<Rightarrow> bind_positional ev ps vals kw (Suc i) rest s1 ((fst acc)(p_name p \<mapsto> v), snd acc)
        | (s1, None) \<Rightarrow> bind_positional ev ps vals kw (Suc i) rest s1 (fst acc, snd acc @ [p_name p])))"

definition keyword_default ::
  "(string, pyval) eval \<Rightarrow> function_params \<Rightarrow> interp_state \<Rightarrow> nat \<Rightarrow> interp_state \<times> pyval option" where
  "keyword_default ev ps s i =
     (if i < length (fp_kw_default_values ps) \<and> fp_kw_default_values ps ! i \<noteq> None then (s, fp_kw_default_values ps ! i)
      else if i < length (fp_kw_defaults ps) \<and> fp_kw_defaults ps ! i \<noteq> None
      then (case late_default ev s (the (fp_kw_defaults ps ! i)) of (s1, v) \<Rightarrow> (s1, Some v))
      else (s, None))"

primrec bind_keyword_only ::
  "(string, pyval) eval \<Rightarrow> function_params \<Rightarrow> kwargs \<Rightarrow> nat \<Rightarrow> param list \<Rightarrow> interp_state \<Rightarrow> scope \<Rightarrow> interp_state \<times> scope eval_result" where
  "bind_keyword_only ev ps kw i [] s sc = (s, Inr sc)"
| "bind_keyword_only ev ps kw i (p # rest) s sc = (case map_of kw (p_name p) of
       Some v \<Rightarrow> bind_keyword_only ev ps kw (Suc i) rest s (sc(p_name p \<mapsto> v))
     | None \<Rightarrow> (case keyword_default ev ps s i of
         (s1, Some v) \<Rightarrow> bind_keyword_only ev ps kw (Suc i) rest s1 (sc(p_name p \<mapsto> v))
       | (s1, None) \<Rightarrow> (s1, Inl (missing_keyword_error (p_name p)))))"

definition claimed :: "function_params \<Rightarrow> nat \<Rightarrow> string \<Rightarrow> bool" where
  "claimed ps skip n \<longleftrightarrow> n \<in> p_name ` set (drop skip (fp_args ps)) \<or> n \<in> p_name ` set (fp_kwonlyargs ps)"

text \<open>\<open>**kwargs\<close> gets a new dictionary with the keywords no parameter claims; without it they are an error.\<close>

definition bind_kwargs ::
  "(env \<Rightarrow> addr) \<Rightarrow> function_params \<Rightarrow> kwargs \<Rightarrow> nat \<Rightarrow> interp_state \<Rightarrow> scope \<Rightarrow> interp_state \<times> scope eval_result" where
  "bind_kwargs fresh ps kw posonly s sc = (case fp_kwarg ps of
       Some n \<Rightarrow>
         (let extra = filter (\<lambda>(k, v). \<not> claimed ps posonly k) kw; a = fresh (heap_env s) in
          (s\<lparr>heap_env := set_dict (heap_env s) a (List.map (\<lambda>(k, v). (KString (str_of k), v)) extra)\<rparr>, Inr (sc(n \<mapsto> VDict a))))
     | None \<Rightarrow> (case List.find (\<lambda>(k, v). \<not> claimed ps 0 k) kw of
         Some (k, v) \<Rightarrow> (s, Inl (unexpected_keyword_error k))
       | None \<Rightarrow> (s, Inr sc)))"

definition bind_params_named ::
  "(string, pyval) eval \<Rightarrow> (env \<Rightarrow> addr) \<Rightarrow> function_params \<Rightarrow> string \<Rightarrow> pyval list \<Rightarrow> kwargs \<Rightarrow> interp_state \<Rightarrow>
   interp_state \<times> scope eval_result" where
  "bind_params_named ev fresh ps fname vals kw s =
     (let num_params = length (fp_args ps); posonly = min (fp_posonly_count ps) num_params;
          bad = filter (\<lambda>n. map_of kw n \<noteq> None) (List.map p_name (take posonly (fp_args ps))) in
      if fp_vararg ps = None \<and> num_params < length vals then (s, Inl (too_many_error fname num_params (length vals)))
      else if 0 < posonly \<and> fp_kwarg ps = None \<and> bad \<noteq> [] then (s, Inl (posonly_error fname bad))
      else eval_bind (bind_positional ev ps vals kw 0 (fp_args ps) s (Map.empty, [])) (\<lambda>s1 (sc, missing).
        if missing \<noteq> [] then (s1, Inl (missing_positional_error fname missing))
        else let sc1 = (case fp_vararg ps of Some n \<Rightarrow> sc(n \<mapsto> VTuple (drop num_params vals)) | None \<Rightarrow> sc) in
          eval_bind (bind_keyword_only ev ps kw 0 (fp_kwonlyargs ps) s1 sc1) (\<lambda>s2 sc2.
            bind_kwargs fresh ps kw posonly s2 sc2)))"

section \<open>What a call means\<close>

text \<open>A specification has all defaults evaluated and distinct names.\<close>

definition names_of :: "function_params \<Rightarrow> string list" where
  "names_of ps = List.map p_name (fp_args ps) @ List.map p_name (fp_kwonlyargs ps) @
     (case fp_vararg ps of Some n \<Rightarrow> [n] | None \<Rightarrow> []) @ (case fp_kwarg ps of Some n \<Rightarrow> [n] | None \<Rightarrow> [])"

definition params_ok :: "function_params \<Rightarrow> bool" where
  "params_ok ps \<longleftrightarrow> distinct (names_of ps) \<and> length (fp_defaults ps) \<le> length (fp_args ps) \<and>
     length (fp_default_values ps) = length (fp_defaults ps) \<and>
     length (fp_kw_default_values ps) = length (fp_kwonlyargs ps) \<and>
     List.map (\<lambda>v. v = None) (fp_kw_defaults ps) = List.map (\<lambda>v. v = None) (fp_kw_default_values ps)"

abbreviation posonly :: "function_params \<Rightarrow> nat" where
  "posonly ps \<equiv> min (fp_posonly_count ps) (length (fp_args ps))"

definition pos_default :: "function_params \<Rightarrow> nat \<Rightarrow> pyval option" where
  "pos_default ps i = (let first = length (fp_args ps) - length (fp_defaults ps) in
     if i < first then None else Some (fp_default_values ps ! (i - first)))"

definition pos_value :: "function_params \<Rightarrow> pyval list \<Rightarrow> kwargs \<Rightarrow> nat \<Rightarrow> pyval option" where
  "pos_value ps vals kw i =
     (if i < length vals then Some (vals ! i)
      else case (if i < posonly ps then None else map_of kw (p_name (fp_args ps ! i))) of
        Some v \<Rightarrow> Some v | None \<Rightarrow> pos_default ps i)"

definition kw_value :: "function_params \<Rightarrow> kwargs \<Rightarrow> nat \<Rightarrow> pyval option" where
  "kw_value ps kw i = (case map_of kw (p_name (fp_kwonlyargs ps ! i)) of
     Some v \<Rightarrow> Some v | None \<Rightarrow> fp_kw_default_values ps ! i)"

definition twice :: "function_params \<Rightarrow> pyval list \<Rightarrow> kwargs \<Rightarrow> nat \<Rightarrow> bool" where
  "twice ps vals kw i \<longleftrightarrow> i < length vals \<and> posonly ps \<le> i \<and> map_of kw (p_name (fp_args ps ! i)) \<noteq> None"

definition arity_ok :: "function_params \<Rightarrow> pyval list \<Rightarrow> bool" where
  "arity_ok ps vals \<longleftrightarrow> (fp_vararg ps = None \<longrightarrow> length vals \<le> length (fp_args ps))"

definition posonly_ok :: "function_params \<Rightarrow> kwargs \<Rightarrow> bool" where
  "posonly_ok ps kw \<longleftrightarrow> (fp_kwarg ps = None \<longrightarrow> (\<forall>i < posonly ps. map_of kw (p_name (fp_args ps ! i)) = None))"

definition call_fits :: "function_params \<Rightarrow> pyval list \<Rightarrow> kwargs \<Rightarrow> bool" where
  "call_fits ps vals kw \<longleftrightarrow>
     arity_ok ps vals \<and> posonly_ok ps kw \<and>
     (\<forall>i < length (fp_args ps). \<not> twice ps vals kw i \<and> pos_value ps vals kw i \<noteq> None) \<and>
     (\<forall>i < length (fp_kwonlyargs ps). kw_value ps kw i \<noteq> None) \<and>
     (fp_kwarg ps = None \<longrightarrow> (\<forall>n \<in> fst ` set kw. claimed ps 0 n))"

text \<open>The variables of the call: each positional parameter, the tuple of the arguments left over, each keyword-only
  parameter, and the dictionary of the keywords that no parameter claims.\<close>

definition value_pairs :: "param list \<Rightarrow> (nat \<Rightarrow> pyval option) \<Rightarrow> nat \<Rightarrow> (string \<times> pyval) list" where
  "value_pairs qs val i = List.map (\<lambda>j. (p_name (qs ! j), the (val j))) (filter (\<lambda>j. val j \<noteq> None) [i..<length qs])"

definition optional_name :: "string option \<Rightarrow> pyval \<Rightarrow> scope" where
  "optional_name n v = (case n of Some x \<Rightarrow> [x \<mapsto> v] | None \<Rightarrow> Map.empty)"

definition call_scope :: "function_params \<Rightarrow> pyval list \<Rightarrow> kwargs \<Rightarrow> addr \<Rightarrow> scope" where
  "call_scope ps vals kw a =
     map_of (value_pairs (fp_args ps) (pos_value ps vals kw) 0) ++
     optional_name (fp_vararg ps) (VTuple (drop (length (fp_args ps)) vals)) ++
     map_of (value_pairs (fp_kwonlyargs ps) (kw_value ps kw) 0) ++
     optional_name (fp_kwarg ps) (VDict a)"

definition extra_keywords :: "function_params \<Rightarrow> kwargs \<Rightarrow> (value_key \<times> pyval) list" where
  "extra_keywords ps kw = List.map (\<lambda>(k, v). (KString (str_of k), v)) (filter (\<lambda>(k, v). \<not> claimed ps (posonly ps) k) kw)"

section \<open>The loops bind what the call means\<close>

lemma value_pairs_Cons:
  "i < length qs \<Longrightarrow> value_pairs qs val i =
     (case val i of Some v \<Rightarrow> [(p_name (qs ! i), v)] | None \<Rightarrow> []) @ value_pairs qs val (Suc i)"
  by (auto simp: value_pairs_def upt_conv_Cons split: option.splits)

lemma value_pairs_end [simp]: "value_pairs qs val (length qs) = []"
  by (simp add: value_pairs_def)

lemma value_pairs_later:
  assumes "distinct (List.map p_name qs)" "i < length qs"
  shows "p_name (qs ! i) \<notin> dom (map_of (value_pairs qs val (Suc i)))"
proof -
  have "p_name (qs ! j) \<noteq> p_name (qs ! i)" if "Suc i \<le> j" "j < length qs" for j
    using nth_eq_iff_index_eq [OF assms(1), of i j] that assms(2) by auto
  then show ?thesis unfolding value_pairs_def dom_map_of_conv_image_fst by fastforce
qed

lemma ex_from_Suc: "i < n \<Longrightarrow> (\<exists>j. i \<le> j \<and> j < n \<and> P j) \<longleftrightarrow> P i \<or> (\<exists>j. Suc i \<le> j \<and> j < n \<and> P j)"
  by (metis Suc_le_eq le_less order_refl)

lemma add_pair:
  "n \<notin> dom (map_of ps) \<Longrightarrow> sc(n \<mapsto> v) ++ map_of ps = sc ++ map_of ((n, v) # ps)"
  by (simp add: map_add_upd_left)

lemma positional_default_evaluated:
  assumes "params_ok ps" "i < length (fp_args ps)"
  shows "positional_default ev ps s i = (s, pos_default ps i)"
  using assms by (auto simp: positional_default_def pos_default_def params_ok_def Let_def)

lemma bind_positional_spec:
  assumes "params_ok ps" "i \<le> length (fp_args ps)"
  shows "if \<exists>j. i \<le> j \<and> j < length (fp_args ps) \<and> twice ps vals kw j
    then \<exists>n. bind_positional ev ps vals kw i (drop i (fp_args ps)) s (sc, ms) = (s, Inl (multiple_values_error n))
    else bind_positional ev ps vals kw i (drop i (fp_args ps)) s (sc, ms) =
      (s, Inr (sc ++ map_of (value_pairs (fp_args ps) (pos_value ps vals kw) i),
        ms @ List.map (\<lambda>j. p_name (fp_args ps ! j)) (filter (\<lambda>j. pos_value ps vals kw j = None) [i..<length (fp_args ps)])))"
  using assms(2)
proof (induction "length (fp_args ps) - i" arbitrary: i sc ms)
  case 0
  then have "i = length (fp_args ps)" by simp
  then show ?case by simp
next
  case (Suc k)
  let ?n = "length (fp_args ps)" and ?name = "p_name (fp_args ps ! i)"
  have i: "i < ?n" "k = ?n - Suc i" "Suc i \<le> ?n" using Suc.hyps(2) by auto
  have "distinct (List.map p_name (fp_args ps))" using assms(1) by (simp add: params_ok_def names_of_def)
  note later = value_pairs_later [OF this i(1), of "pos_value ps vals kw"]
  have drop: "drop i (fp_args ps) = fp_args ps ! i # drop (Suc i) (fp_args ps)" using i(1) by (simp add: Cons_nth_drop_Suc)
  have upt: "[i..<?n] = i # [Suc i..<?n]" using i(1) by (simp add: upt_conv_Cons)
  have split: "(\<exists>j. i \<le> j \<and> j < ?n \<and> twice ps vals kw j) \<longleftrightarrow>
    twice ps vals kw i \<or> (\<exists>j. Suc i \<le> j \<and> j < ?n \<and> twice ps vals kw j)"
    by (rule ex_from_Suc [OF i(1)])
  show ?case
  proof (cases "twice ps vals kw i")
    case True
    then have "bind_positional ev ps vals kw i (drop i (fp_args ps)) s (sc, ms) = (s, Inl (multiple_values_error ?name))"
      by (auto simp: drop twice_def Let_def)
    then show ?thesis using True split by auto
  next
    case False
    note IH = Suc.hyps(1) [OF i(2,3)]
    have step: "bind_positional ev ps vals kw i (drop i (fp_args ps)) s (sc, ms) =
      bind_positional ev ps vals kw (Suc i) (drop (Suc i) (fp_args ps)) s
        (case pos_value ps vals kw i of Some v \<Rightarrow> (sc(?name \<mapsto> v), ms) | None \<Rightarrow> (sc, ms @ [?name]))"
      using False i(1) positional_default_evaluated [OF assms(1) i(1), of ev s]
      by (auto simp: drop twice_def pos_value_def Let_def split: option.splits)
    show ?thesis
    proof (cases "pos_value ps vals kw i")
      case None
      then show ?thesis using IH [of sc "ms @ [?name]"] False unfolding step split
        by (simp add: upt value_pairs_Cons [OF i(1)])
    next
      case (Some v)
      then show ?thesis using IH [of "sc(?name \<mapsto> v)" ms] False unfolding step split
        by (simp add: upt value_pairs_Cons [OF i(1)] add_pair [OF later])
    qed
  qed
qed

lemma keyword_default_evaluated:
  assumes "params_ok ps" "i < length (fp_kwonlyargs ps)"
  shows "keyword_default ev ps s i = (s, fp_kw_default_values ps ! i)"
proof -
  have len: "i < length (fp_kw_default_values ps)" "i < length (fp_kw_defaults ps)"
    using assms unfolding params_ok_def by (simp, metis length_map)
  have "(fp_kw_defaults ps ! i = None) = (fp_kw_default_values ps ! i = None)"
    using assms(1) nth_map [OF len(2), of "\<lambda>v. v = None"] nth_map [OF len(1), of "\<lambda>v. v = None"]
    by (simp add: params_ok_def)
  then show ?thesis using len by (auto simp: keyword_default_def)
qed

lemma bind_keyword_only_spec:
  assumes "params_ok ps" "i \<le> length (fp_kwonlyargs ps)"
  shows "if \<exists>j. i \<le> j \<and> j < length (fp_kwonlyargs ps) \<and> kw_value ps kw j = None
    then \<exists>n. bind_keyword_only ev ps kw i (drop i (fp_kwonlyargs ps)) s sc = (s, Inl (missing_keyword_error n))
    else bind_keyword_only ev ps kw i (drop i (fp_kwonlyargs ps)) s sc =
      (s, Inr (sc ++ map_of (value_pairs (fp_kwonlyargs ps) (kw_value ps kw) i)))"
  using assms(2)
proof (induction "length (fp_kwonlyargs ps) - i" arbitrary: i sc)
  case 0
  then have "i = length (fp_kwonlyargs ps)" by simp
  then show ?case by simp
next
  case (Suc k)
  let ?n = "length (fp_kwonlyargs ps)" and ?name = "p_name (fp_kwonlyargs ps ! i)"
  have i: "i < ?n" "k = ?n - Suc i" "Suc i \<le> ?n" using Suc.hyps(2) by auto
  have "distinct (List.map p_name (fp_kwonlyargs ps))" using assms(1) by (simp add: params_ok_def names_of_def)
  note later = value_pairs_later [OF this i(1), of "kw_value ps kw"]
  have drop: "drop i (fp_kwonlyargs ps) = fp_kwonlyargs ps ! i # drop (Suc i) (fp_kwonlyargs ps)"
    using i(1) by (simp add: Cons_nth_drop_Suc)
  have split: "(\<exists>j. i \<le> j \<and> j < ?n \<and> kw_value ps kw j = None) \<longleftrightarrow>
    kw_value ps kw i = None \<or> (\<exists>j. Suc i \<le> j \<and> j < ?n \<and> kw_value ps kw j = None)"
    by (rule ex_from_Suc [OF i(1)])
  have step: "bind_keyword_only ev ps kw i (drop i (fp_kwonlyargs ps)) s sc = (case kw_value ps kw i of
      None \<Rightarrow> (s, Inl (missing_keyword_error ?name))
    | Some v \<Rightarrow> bind_keyword_only ev ps kw (Suc i) (drop (Suc i) (fp_kwonlyargs ps)) s (sc(?name \<mapsto> v)))"
    using keyword_default_evaluated [OF assms(1) i(1), of ev s]
    by (auto simp: drop kw_value_def split: option.splits)
  show ?case
  proof (cases "kw_value ps kw i")
    case None
    then show ?thesis using split by (auto simp: step)
  next
    case (Some v)
    then show ?thesis using Suc.hyps(1) [OF i(2,3), of "sc(?name \<mapsto> v)"] unfolding step split
      by (simp add: value_pairs_Cons [OF i(1)] add_pair [OF later])
  qed
qed

lemma bind_kwargs_spec:
  "if fp_kwarg ps = None \<and> \<not> (\<forall>n \<in> fst ` set kw. claimed ps 0 n)
   then \<exists>n. bind_kwargs fresh ps kw (posonly ps) s sc = (s, Inl (unexpected_keyword_error n))
   else bind_kwargs fresh ps kw (posonly ps) s sc =
     (if fp_kwarg ps = None then s
      else s\<lparr>heap_env := set_dict (heap_env s) (fresh (heap_env s)) (extra_keywords ps kw)\<rparr>,
      Inr (sc ++ optional_name (fp_kwarg ps) (VDict (fresh (heap_env s)))))"
proof (cases "fp_kwarg ps")
  case None
  show ?thesis
  proof (cases "List.find (\<lambda>(k, v). \<not> claimed ps 0 k) kw")
    case None
    then have "\<forall>n \<in> fst ` set kw. claimed ps 0 n" by (auto simp: find_None_iff)
    then show ?thesis using None \<open>fp_kwarg ps = None\<close> by (simp add: bind_kwargs_def optional_name_def)
  next
    case (Some e)
    then have "fst e \<in> fst ` set kw" "\<not> claimed ps 0 (fst e)" using find_SomeD [OF Some] by (auto simp: split_beta)
    then have "\<not> (\<forall>n \<in> fst ` set kw. claimed ps 0 n)" by blast
    moreover have "bind_kwargs fresh ps kw (posonly ps) s sc = (s, Inl (unexpected_keyword_error (fst e)))"
      using Some \<open>fp_kwarg ps = None\<close> by (simp add: bind_kwargs_def split_beta)
    ultimately show ?thesis using \<open>fp_kwarg ps = None\<close> by (simp only: simp_thms if_True) blast
  qed
next
  case (Some n)
  then show ?thesis by (simp add: bind_kwargs_def optional_name_def extra_keywords_def Let_def)
qed

definition is_type_error :: "'a eval_result \<Rightarrow> bool" where
  "is_type_error r = (case r of Inl (Interpreter (TypeError m)) \<Rightarrow> True | _ \<Rightarrow> False)"

lemmas call_errors = is_type_error_def too_many_error_def posonly_error_def multiple_values_error_def
  missing_positional_error_def missing_keyword_error_def unexpected_keyword_error_def call_error_def

text \<open>The two tests before the loops, and what is left after them.\<close>

lemma bad_names:
  "filter (\<lambda>n. map_of kw n \<noteq> None) (List.map p_name (take (posonly ps) (fp_args ps))) = [] \<longleftrightarrow>
   (\<forall>i < posonly ps. map_of kw (p_name (fp_args ps ! i)) = None)"
  by (simp add: filter_empty_conv all_set_conv_all_nth)

lemma early_errors:
  assumes "\<not> (arity_ok ps vals \<and> posonly_ok ps kw)"
  shows "fst (bind_params_named ev fresh ps fname vals kw s) = s \<and>
    is_type_error (snd (bind_params_named ev fresh ps fname vals kw s))"
proof (cases "arity_ok ps vals")
  case False
  then show ?thesis by (simp add: arity_ok_def bind_params_named_def Let_def call_errors)
next
  case True
  then have *: "fp_kwarg ps = None" "\<not> (\<forall>i < posonly ps. map_of kw (p_name (fp_args ps ! i)) = None)"
    using assms by (auto simp: posonly_ok_def)
  then have "0 < posonly ps" by (metis not_gr_zero not_less_zero)
  then show ?thesis
    using * True bad_names [of kw ps] by (auto simp: bind_params_named_def arity_ok_def call_errors Let_def)
qed

lemma after_tests:
  assumes "arity_ok ps vals" "posonly_ok ps kw"
  shows "bind_params_named ev fresh ps fname vals kw s =
    eval_bind (bind_positional ev ps vals kw 0 (fp_args ps) s (Map.empty, [])) (\<lambda>s1 (sc, missing).
      if missing \<noteq> [] then (s1, Inl (missing_positional_error fname missing))
      else eval_bind (bind_keyword_only ev ps kw 0 (fp_kwonlyargs ps) s1
          (sc ++ optional_name (fp_vararg ps) (VTuple (drop (length (fp_args ps)) vals))))
        (\<lambda>s2 sc2. bind_kwargs fresh ps kw (posonly ps) s2 sc2))"
proof -
  have "\<not> (fp_vararg ps = None \<and> length (fp_args ps) < length vals)" using assms(1) by (auto simp: arity_ok_def)
  moreover have "\<not> (0 < posonly ps \<and> fp_kwarg ps = None \<and>
      filter (\<lambda>n. map_of kw n \<noteq> None) (List.map p_name (take (posonly ps) (fp_args ps))) \<noteq> [])"
    using assms(2) unfolding posonly_ok_def bad_names by blast
  moreover have "(case fp_vararg ps of Some n \<Rightarrow> sc(n \<mapsto> v) | None \<Rightarrow> sc) = sc ++ optional_name (fp_vararg ps) v" for sc v
    by (simp add: optional_name_def split: option.splits)
  ultimately show ?thesis by (simp only: bind_params_named_def Let_def if_False)
qed

lemma after_positional:
  assumes "params_ok ps"
  shows "if (\<forall>i < length (fp_kwonlyargs ps). kw_value ps kw i \<noteq> None) \<and>
      (fp_kwarg ps = None \<longrightarrow> (\<forall>n \<in> fst ` set kw. claimed ps 0 n))
    then eval_bind (bind_keyword_only ev ps kw 0 (fp_kwonlyargs ps) s sc) (\<lambda>s2 sc2. bind_kwargs fresh ps kw (posonly ps) s2 sc2) =
      (if fp_kwarg ps = None then s
       else s\<lparr>heap_env := set_dict (heap_env s) (fresh (heap_env s)) (extra_keywords ps kw)\<rparr>,
       Inr (sc ++ map_of (value_pairs (fp_kwonlyargs ps) (kw_value ps kw) 0) ++
         optional_name (fp_kwarg ps) (VDict (fresh (heap_env s)))))
    else \<exists>e. eval_bind (bind_keyword_only ev ps kw 0 (fp_kwonlyargs ps) s sc)
      (\<lambda>s2 sc2. bind_kwargs fresh ps kw (posonly ps) s2 sc2) = (s, Inl e) \<and> is_type_error (Inl e :: scope eval_result)"
proof (cases "\<forall>i < length (fp_kwonlyargs ps). kw_value ps kw i \<noteq> None")
  case True
  then have "bind_keyword_only ev ps kw 0 (fp_kwonlyargs ps) s sc =
      (s, Inr (sc ++ map_of (value_pairs (fp_kwonlyargs ps) (kw_value ps kw) 0)))"
    using bind_keyword_only_spec [OF assms, of 0 kw ev s sc] by (auto split: if_splits)
  then show ?thesis
    using True bind_kwargs_spec [of ps kw fresh s "sc ++ map_of (value_pairs (fp_kwonlyargs ps) (kw_value ps kw) 0)"]
    by (auto simp: call_errors split: if_splits)
next
  case False
  then obtain n where "bind_keyword_only ev ps kw 0 (fp_kwonlyargs ps) s sc = (s, Inl (missing_keyword_error n))"
    using bind_keyword_only_spec [OF assms, of 0 kw ev s sc] by (auto split: if_splits)
  then show ?thesis using False by (auto simp: call_errors)
qed

lemma binding_cases:
  assumes "params_ok ps"
  shows "if call_fits ps vals kw
    then bind_params_named ev fresh ps fname vals kw s =
      (if fp_kwarg ps = None then s
       else s\<lparr>heap_env := set_dict (heap_env s) (fresh (heap_env s)) (extra_keywords ps kw)\<rparr>,
       Inr (call_scope ps vals kw (fresh (heap_env s))))
    else fst (bind_params_named ev fresh ps fname vals kw s) = s \<and>
      is_type_error (snd (bind_params_named ev fresh ps fname vals kw s))"
proof (cases "arity_ok ps vals \<and> posonly_ok ps kw")
  case False
  then show ?thesis using early_errors [OF False] by (auto simp: call_fits_def)
next
  case True
  let ?n = "length (fp_args ps)" and ?bind = "bind_params_named ev fresh ps fname vals kw s"
  note step = after_tests [OF conjunct1 [OF True] conjunct2 [OF True], of ev fresh fname s]
  note pos = bind_positional_spec [OF assms, of 0 vals kw ev s Map.empty "[]"]
  have loop: "bind_positional ev ps vals kw 0 (fp_args ps) s (Map.empty, []) =
      (s, Inr (map_of (value_pairs (fp_args ps) (pos_value ps vals kw) 0),
        List.map (\<lambda>j. p_name (fp_args ps ! j)) (filter (\<lambda>j. pos_value ps vals kw j = None) [0..<?n])))"
    if "\<forall>j < ?n. \<not> twice ps vals kw j"
    using pos that by (auto split: if_splits)
  consider (twice) "\<exists>j < ?n. twice ps vals kw j"
    | (missing) "\<forall>j < ?n. \<not> twice ps vals kw j" "\<exists>j < ?n. pos_value ps vals kw j = None"
    | (rest) "\<forall>j < ?n. \<not> twice ps vals kw j" "\<forall>j < ?n. pos_value ps vals kw j \<noteq> None"
    by metis
  then show ?thesis
  proof cases
    case twice
    then obtain n where "?bind = (s, Inl (multiple_values_error n))" using pos by (auto simp: step)
    then show ?thesis using twice by (auto simp: call_fits_def call_errors)
  next
    case missing
    then have "filter (\<lambda>j. pos_value ps vals kw j = None) [0..<?n] \<noteq> []" by (force simp: filter_empty_conv)
    then have "?bind = (s, Inl (missing_positional_error fname
        (List.map (\<lambda>j. p_name (fp_args ps ! j)) (filter (\<lambda>j. pos_value ps vals kw j = None) [0..<?n]))))"
      by (simp add: step loop [OF missing(1)])
    then show ?thesis using missing by (auto simp: call_fits_def call_errors)
  next
    case rest
    then have "filter (\<lambda>j. pos_value ps vals kw j = None) [0..<?n] = []" by (auto simp: filter_empty_conv)
    then have bind: "?bind = eval_bind (bind_keyword_only ev ps kw 0 (fp_kwonlyargs ps) s
        (map_of (value_pairs (fp_args ps) (pos_value ps vals kw) 0) ++
          optional_name (fp_vararg ps) (VTuple (drop ?n vals)))) (\<lambda>s2 sc2. bind_kwargs fresh ps kw (posonly ps) s2 sc2)"
      by (simp add: step loop [OF rest(1)])
    have fits: "call_fits ps vals kw \<longleftrightarrow> (\<forall>i < length (fp_kwonlyargs ps). kw_value ps kw i \<noteq> None) \<and>
        (fp_kwarg ps = None \<longrightarrow> (\<forall>n \<in> fst ` set kw. claimed ps 0 n))"
      using rest True by (simp add: call_fits_def)
    show ?thesis
      using after_positional [OF assms, of kw ev s _ fresh, folded fits]
      unfolding bind call_scope_def by (metis fst_conv snd_conv)
  qed
qed

lemma argument_binding_fst:
  assumes "params_ok ps"
  shows "\<exists>E. fst (bind_params_named ev fresh ps fname vals kw s) = s\<lparr>heap_env := E\<rparr>"
proof -
  have "\<exists>E. s = s\<lparr>heap_env := E\<rparr>" by (intro exI [of _ "heap_env s"]) simp
  then show ?thesis using binding_cases [OF assms, of vals kw ev fresh fname s] by (auto split: if_splits)
qed

text \<open>C19: Arguments are bound as the call says.  For a function with its defaults evaluated, a call fits when there are no
  positional arguments left over without \<open>*args\<close>, no positional-only name is a keyword without \<open>**kwargs\<close>, no parameter is
  given twice, every parameter has an argument or a default, and every keyword is claimed unless \<open>**kwargs\<close> takes it.  A call
  that fits binds exactly: each parameter to its argument, keyword or default, \<open>*args\<close> to the tuple of the arguments left
  over, \<open>**kwargs\<close> to a new dictionary of the unclaimed keywords in their order, and changes nothing else; any other call
  is a \<open>TypeError\<close> and changes nothing.\<close>
theorem argument_binding:
  assumes "params_ok ps"
  shows "if call_fits ps vals kw
    then bind_params_named ev fresh ps fname vals kw s =
      (if fp_kwarg ps = None then s
       else s\<lparr>heap_env := set_dict (heap_env s) (fresh (heap_env s)) (extra_keywords ps kw)\<rparr>,
       Inr (call_scope ps vals kw (fresh (heap_env s))))
    else fst (bind_params_named ev fresh ps fname vals kw s) = s \<and>
      is_type_error (snd (bind_params_named ev fresh ps fname vals kw s))"
  using assms by (rule binding_cases)

section \<open>Functions and their frames\<close>

record function_def =
  fd_name :: string
  fd_body_key :: string
  fd_params :: function_params
  fd_closure :: "(string \<times> pyval) list"
  fd_nonlocal_names :: "string list"
  fd_is_generator :: bool
  fd_nonlocal_cell_id :: "u64 option"
  fd_assigned_names :: "string list"
  fd_global_names :: "string list"
  fd_is_module_level :: bool
  fd_cell_refreshes :: "(string \<times> u64) list"
  fd_qualname :: string

definition display_qualname :: "function_def \<Rightarrow> string" where
  "display_qualname fd = (if fd_qualname fd = [] then fd_name fd else fd_qualname fd)"

definition body_cache_key :: "function_def \<Rightarrow> string" where
  "body_cache_key fd = (if fd_body_key fd = [] then fd_name fd else fd_body_key fd)"

text \<open>What a call needs of the rest: the evaluators, the bodies of the functions, the shapes of a body that have a path of
  their own, the construction of a generator, and the order in which a hash map is traversed.\<close>

record 'stmt call_env =
  ce_runtime :: exc_runtime
  ce_eval_stmt :: "('stmt, pyval) eval"
  ce_default :: "(string, pyval) eval"
  ce_bodies :: "interp_state \<Rightarrow> string \<Rightarrow> 'stmt list option"
  ce_trivial :: "'stmt list \<Rightarrow> pyval option"
  ce_yields :: "'stmt list \<Rightarrow> bool"
  ce_suspendable :: "'stmt list \<Rightarrow> bool"
  ce_create_generator :: "interp_state \<Rightarrow> function_def \<Rightarrow> 'stmt list \<Rightarrow> scope \<Rightarrow> string list \<Rightarrow> interp_state \<times> pyval"
  ce_eager_generator :: "interp_state \<Rightarrow> 'stmt list \<Rightarrow> interp_state \<times> pyval eval_result"
  ce_entries :: "scope \<Rightarrow> (string \<times> pyval) list"

abbreviation ce_size :: "'stmt call_env \<Rightarrow> runtime" where
  "ce_size C \<equiv> runtime.truncate (ce_runtime C)"

primrec set_variables :: "runtime \<Rightarrow> interp_state \<Rightarrow> (string \<times> pyval) list \<Rightarrow> interp_state \<times> unit eval_result" where
  "set_variables R s [] = (s, Inr ())"
| "set_variables R s (p # ps) = (case set_variable R s (fst p) (snd p) of
     (s1, Inl e) \<Rightarrow> (s1, Inl (Interpreter e)) | (s1, Inr u) \<Rightarrow> set_variables R s1 ps)"

text \<open>The closure: names the call binds, \<open>global\<close> names and names backed by a cell are left out, and so are names whose
  live value wins.\<close>

fun overlay_closure :: "'stmt call_env \<Rightarrow> function_def \<Rightarrow> scope \<Rightarrow> interp_state \<Rightarrow> (string \<times> pyval) list \<Rightarrow> interp_state \<times> unit eval_result" where
  "overlay_closure C fd sc s [] = (s, Inr ())"
| "overlay_closure C fd sc s ((n, v) # rest) =
     (if sc n \<noteq> None \<or> n \<in> set (fd_global_names fd) \<or> n \<in> fst ` set (fd_cell_refreshes fd) \<or>
         (fd_is_module_level fd \<and> variables s n \<noteq> None) \<or>
         (case variables s n of Some live \<Rightarrow> rust_eq (ce_runtime C) s live v | None \<Rightarrow> False)
      then overlay_closure C fd sc s rest
      else case set_variable (ce_size C) s n v of
        (s1, Inl e) \<Rightarrow> (s1, Inl (Interpreter e)) | (s1, Inr u) \<Rightarrow> overlay_closure C fd sc s1 rest)"

definition apply_nonlocal_cell :: "'stmt call_env \<Rightarrow> function_def \<Rightarrow> scope \<Rightarrow> interp_state \<Rightarrow> interp_state \<times> unit eval_result" where
  "apply_nonlocal_cell C fd sc s = (case fd_nonlocal_cell_id fd of
       None \<Rightarrow> (s, Inr ())
     | Some cid \<Rightarrow> (case nonlocal_cells s cid of
         None \<Rightarrow> (s, Inr ())
       | Some cell \<Rightarrow> set_variables (ce_size C) s (filter (\<lambda>(n, v). sc n = None) (ce_entries C cell))))"

fun apply_cell_refreshes :: "runtime \<Rightarrow> scope \<Rightarrow> interp_state \<Rightarrow> (string \<times> u64) list \<Rightarrow> interp_state \<times> unit eval_result" where
  "apply_cell_refreshes R sc s [] = (s, Inr ())"
| "apply_cell_refreshes R sc s ((n, cid) # rest) =
     (case (if sc n \<noteq> None then None else case nonlocal_cells s cid of None \<Rightarrow> None | Some cell \<Rightarrow> cell n) of
        None \<Rightarrow> apply_cell_refreshes R sc s rest
      | Some v \<Rightarrow> (case set_variable R s n v of
          (s1, Inl e) \<Rightarrow> (s1, Inl (Interpreter e)) | (s1, Inr u) \<Rightarrow> apply_cell_refreshes R sc s1 rest))"

definition apply_function_scope :: "'stmt call_env \<Rightarrow> function_def \<Rightarrow> scope \<Rightarrow> interp_state \<Rightarrow> interp_state \<times> unit eval_result" where
  "apply_function_scope C fd sc s =
     eval_bind (overlay_closure C fd sc s (fd_closure fd)) (\<lambda>s1 _.
     eval_bind (apply_nonlocal_cell C fd sc s1) (\<lambda>s2 _.
     eval_bind (apply_cell_refreshes (ce_size C) sc s2 (fd_cell_refreshes fd)) (\<lambda>s3 _.
     set_variables (ce_size C) s3 (ce_entries C sc))))"

definition writeback_nonlocal_cell :: "function_def \<Rightarrow> interp_state \<Rightarrow> interp_state" where
  "writeback_nonlocal_cell fd s = (case fd_nonlocal_cell_id fd of
       None \<Rightarrow> s
     | Some cid \<Rightarrow> (case nonlocal_cells s cid of
         None \<Rightarrow> s
       | Some cell \<Rightarrow> s\<lparr>nonlocal_cells := (nonlocal_cells s)(cid \<mapsto>
           foldl (\<lambda>c n. case variables s n of Some v \<Rightarrow> c(n \<mapsto> v) | None \<Rightarrow> c) cell (fd_nonlocal_names fd))\<rparr>))"

section \<open>The checkpoint\<close>

definition capture :: "interp_state \<Rightarrow> string list \<Rightarrow> (string \<times> pyval option) list" where
  "capture s names = List.map (\<lambda>n. (n, variables s n)) names"

definition restore :: "(string \<times> pyval option) list \<Rightarrow> interp_state \<Rightarrow> interp_state" where
  "restore snapshots s = s\<lparr>variables := foldl (\<lambda>vs (n, prev). vs(n := prev)) (variables s) snapshots\<rparr>"

definition param_name_list :: "function_params \<Rightarrow> string list" where
  "param_name_list ps = List.map p_name (fp_args ps) @ (case fp_vararg ps of Some n \<Rightarrow> [n] | None \<Rightarrow> []) @
     List.map p_name (fp_kwonlyargs ps) @ (case fp_kwarg ps of Some n \<Rightarrow> [n] | None \<Rightarrow> [])"

definition touched_names :: "'stmt call_env \<Rightarrow> function_def \<Rightarrow> interp_state \<Rightarrow> string list" where
  "touched_names C fd s =
     filter (\<lambda>n. n \<notin> set (fd_global_names fd) \<and> n \<notin> set (fd_nonlocal_names fd))
       (param_name_list (fd_params fd) @
        List.map fst (filter (\<lambda>(n, v). \<not> fd_is_module_level fd \<and>
          \<not> (case variables s n of Some live \<Rightarrow> rust_eq (ce_runtime C) s live v | None \<Rightarrow> False)) (fd_closure fd)) @
        fd_assigned_names fd)"

section \<open>The call\<close>

fun execute_body :: "('stmt, pyval) eval \<Rightarrow> pyval \<Rightarrow> interp_state \<Rightarrow> 'stmt list \<Rightarrow> interp_state \<times> pyval eval_result" where
  "execute_body ev result s [] = (s, Inr result)"
| "execute_body ev result s (stmt # rest) = (case ev s stmt of
     (s1, Inr v) \<Rightarrow> execute_body ev v s1 rest
   | (s1, Inl (Signal (Return v))) \<Rightarrow> (s1, Inr v)
   | (s1, Inl e) \<Rightarrow> (s1, Inl e))"

definition catch_return :: "pyval eval_result \<Rightarrow> pyval eval_result" where
  "catch_return r = (case r of Inl (Signal (Return v)) \<Rightarrow> Inr v | _ \<Rightarrow> r)"

definition push_frame :: "interp_state \<Rightarrow> interp_state" where
  "push_frame s = s\<lparr>frame_cell_owners := Map.empty # frame_cell_owners s\<rparr>"

definition pop_frame :: "interp_state \<Rightarrow> interp_state" where
  "pop_frame s = s\<lparr>frame_cell_owners := drop 1 (frame_cell_owners s)\<rparr>"

definition push_qualname :: "function_def \<Rightarrow> interp_state \<Rightarrow> interp_state" where
  "push_qualname fd s = s\<lparr>qualname_stack := (display_qualname fd @ ''.<locals>'') # qualname_stack s\<rparr>"

definition pop_qualname :: "interp_state \<Rightarrow> interp_state" where
  "pop_qualname s = s\<lparr>qualname_stack := drop 1 (qualname_stack s)\<rparr>"

text \<open>A function without parameters, closure and assignments runs in the frame of its caller.\<close>

definition trivial_frame :: "function_def \<Rightarrow> pyval list \<Rightarrow> kwargs \<Rightarrow> bool" where
  "trivial_frame fd vals kw \<longleftrightarrow> vals = [] \<and> kw = [] \<and> fp_args (fd_params fd) = [] \<and> fp_vararg (fd_params fd) = None \<and>
     fp_kwonlyargs (fd_params fd) = [] \<and> fp_kwarg (fd_params fd) = None \<and> fd_nonlocal_names fd = [] \<and>
     fd_assigned_names fd = [] \<and> fd_global_names fd = [] \<and> \<not> fd_is_generator fd \<and>
     (fd_closure fd = [] \<or> fd_is_module_level fd)"

definition call_trivial :: "'stmt call_env \<Rightarrow> function_def \<Rightarrow> interp_state \<Rightarrow> interp_state \<times> pyval eval_result" where
  "call_trivial C fd s = (case ce_bodies C s (body_cache_key fd) of
       None \<Rightarrow> (exit_call (pop_qualname (pop_frame (push_frame (push_qualname fd s)))), Inr VNone)
     | Some body \<Rightarrow> (case ce_trivial C body of
         Some v \<Rightarrow> (exit_call s, Inr v)
       | None \<Rightarrow> (case execute_body (ce_eval_stmt C) VNone (push_frame (push_qualname fd s)) body of
           (s1, r) \<Rightarrow> (exit_call (pop_qualname (pop_frame s1)), catch_return r))))"

text \<open>The end of a full frame, on every path after the body.\<close>

definition leave_frame :: "function_def \<Rightarrow> (string \<times> pyval option) list \<Rightarrow> interp_state \<Rightarrow> interp_state" where
  "leave_frame fd checkpoint s =
     pop_qualname (exit_call (pop_frame (restore checkpoint (writeback_nonlocal_cell fd s))))"

definition run_frame ::
  "'stmt call_env \<Rightarrow> function_def \<Rightarrow> string list \<Rightarrow> interp_state \<Rightarrow> interp_state \<times> pyval eval_result" where
  "run_frame C fd names s = (case ce_bodies C s (body_cache_key fd) of
       None \<Rightarrow> (s, Inr VNone)
     | Some body \<Rightarrow>
         if fd_is_generator fd \<or> ce_yields C body then
           (if ce_suspendable C body then
              (case ce_create_generator C s fd body (\<lambda>n. if n \<in> set names then variables s n else None) names of
                 (s1, g) \<Rightarrow> (s1, Inr g))
            else ce_eager_generator C s body)
         else execute_body (ce_eval_stmt C) VNone s body)"

definition call_full ::
  "'stmt call_env \<Rightarrow> function_def \<Rightarrow> pyval list \<Rightarrow> kwargs \<Rightarrow> interp_state \<Rightarrow> interp_state \<times> pyval eval_result" where
  "call_full C fd vals kw s =
     (case bind_params_named (ce_default C) (fresh_addr (ce_runtime C)) (fd_params fd) (display_qualname fd) vals kw (push_frame s) of
        (s1, Inl e) \<Rightarrow> (exit_call (pop_frame s1), Inl e)
      | (s1, Inr sc) \<Rightarrow>
          (let names = touched_names C fd s1; checkpoint = capture s1 names in
           case apply_function_scope C fd sc s1 of
             (s2, Inl e) \<Rightarrow> (exit_call (pop_frame (restore checkpoint s2)), Inl e)
           | (s2, Inr u) \<Rightarrow> (case run_frame C fd names (push_qualname fd s2) of
               (s3, r) \<Rightarrow> (leave_frame fd checkpoint s3, catch_return r))))"

definition call_user_function_inner ::
  "'stmt call_env \<Rightarrow> function_def \<Rightarrow> pyval list \<Rightarrow> kwargs \<Rightarrow> interp_state \<Rightarrow> interp_state \<times> pyval eval_result" where
  "call_user_function_inner C fd vals kw s0 = (case enter_call s0 of
       (s, Inl e) \<Rightarrow> (s, Inl (Interpreter e))
     | (s, Inr u) \<Rightarrow> if trivial_frame fd vals kw then call_trivial C fd s else call_full C fd vals kw s)"

section \<open>Frames are balanced\<close>

text \<open>What a statement leaves of the frames: the depths, the qualified names, and all frames but the innermost.\<close>

definition same_frames :: "interp_state \<Rightarrow> interp_state \<Rightarrow> bool" where
  "same_frames s t \<longleftrightarrow> call_depth t = call_depth s \<and> saved_expr_depth t = saved_expr_depth s \<and>
     qualname_stack t = qualname_stack s \<and> drop 1 (frame_cell_owners t) = drop 1 (frame_cell_owners s) \<and>
     (frame_cell_owners t = [] \<longleftrightarrow> frame_cell_owners s = [])"

definition keeps_frames :: "('x, 'a) eval \<Rightarrow> bool" where
  "keeps_frames ev \<longleftrightarrow> (\<forall>s x. same_frames s (fst (ev s x)))"

lemma same_frames_refl [simp]: "same_frames s s"
  by (simp add: same_frames_def)

lemma same_frames_trans: "same_frames s t \<Longrightarrow> same_frames t u \<Longrightarrow> same_frames s u"
  by (auto simp: same_frames_def)

lemma write_through_frames: "same_frames s (write_through s n v)"
  by (auto simp: same_frames_def write_through_def split: list.splits option.splits)

lemma set_variable_frames: "same_frames s (fst (set_variable R s n v))"
  using write_through_frames [of "s\<lparr>memory_used_bytes := m\<rparr>" n v for m]
  by (simp add: set_variable_def Let_def same_frames_def)

lemma set_variables_frames: "same_frames s (fst (set_variables R s ps))"
proof (induction ps arbitrary: s)
  case (Cons p ps)
  obtain s1 r where r: "set_variable R s (fst p) (snd p) = (s1, r)" by fastforce
  then have "same_frames s s1" by (metis fst_conv set_variable_frames)
  then show ?case using Cons [of s1] same_frames_trans r by (cases r) auto
qed simp

lemma overlay_closure_frames: "same_frames s (fst (overlay_closure C fd sc s cl))"
proof (induction C fd sc s cl rule: overlay_closure.induct)
  case (2 C fd sc s n v rest)
  obtain s1 r where r: "set_variable (ce_size C) s n v = (s1, r)" by fastforce
  then have "same_frames s s1" by (metis fst_conv set_variable_frames)
  then show ?case using 2 r same_frames_trans by (cases r) auto
qed simp

lemma apply_cell_refreshes_frames: "same_frames s (fst (apply_cell_refreshes R sc s rs))"
proof (induction R sc s rs rule: apply_cell_refreshes.induct)
  case (2 R sc s n cid rest)
  show ?case
  proof (cases "if sc n \<noteq> None then None else case nonlocal_cells s cid of None \<Rightarrow> None | Some cell \<Rightarrow> cell n")
    case None
    then show ?thesis using 2(1) by simp
  next
    case (Some v)
    obtain s1 r where r: "set_variable R s n v = (s1, r)" by fastforce
    then have "same_frames s s1" by (metis fst_conv set_variable_frames)
    then show ?thesis using 2(2) [OF Some] r Some same_frames_trans by (cases r) auto
  qed
qed simp

lemma eval_bind_frames:
  "same_frames s (fst r) \<Longrightarrow> (\<And>t a. same_frames t (fst (f t a))) \<Longrightarrow> same_frames s (fst (eval_bind r f))"
  by (cases r; cases "snd r") (auto intro: same_frames_trans)

lemma apply_function_scope_frames: "same_frames s (fst (apply_function_scope C fd sc s))"
  unfolding apply_function_scope_def apply_nonlocal_cell_def
  by (intro eval_bind_frames overlay_closure_frames apply_cell_refreshes_frames set_variables_frames)
    (auto split: option.splits intro: set_variables_frames)

lemma execute_body_frames: "keeps_frames ev \<Longrightarrow> same_frames s (fst (execute_body ev v s body))"
proof (induction body arbitrary: v s)
  case (Cons stmt body)
  obtain s1 r where r: "ev s stmt = (s1, r)" by fastforce
  then have "same_frames s s1" using Cons.prems unfolding keeps_frames_def by (metis fst_conv)
  then show ?case using Cons r same_frames_trans
    by (cases r) (auto split: eval_error.splits control_flow.splits)
qed simp

definition generators_keep :: "'stmt call_env \<Rightarrow> bool" where
  "generators_keep C \<longleftrightarrow> (\<forall>s fd body sc ns. same_frames s (fst (ce_create_generator C s fd body sc ns))) \<and>
     (\<forall>s body. same_frames s (fst (ce_eager_generator C s body)))"

lemma run_frame_frames:
  assumes "keeps_frames (ce_eval_stmt C)" "generators_keep C"
  shows "same_frames s (fst (run_frame C fd names s))"
  using assms execute_body_frames [OF assms(1)]
  by (auto simp: run_frame_def generators_keep_def split: option.splits prod.splits) (metis fst_conv)+

lemma restore_captured:
  "n \<in> set names \<Longrightarrow> variables (restore (capture s names) t) n = variables s n"
proof -
  have "foldl (\<lambda>vs (n, prev). vs(n := prev)) vs (List.map (\<lambda>n. (n, f n)) names) n =
      (if n \<in> set names then f n else vs n)" for vs and f :: "string \<Rightarrow> pyval option"
    by (induction names arbitrary: vs) auto
  then show "n \<in> set names \<Longrightarrow> ?thesis" by (simp add: restore_def capture_def)
qed

lemma leaving_variables [simp]:
  "variables (exit_call t) = variables t" "variables (pop_frame t) = variables t" "variables (pop_qualname t) = variables t"
  by (simp_all add: exit_call_def pop_frame_def pop_qualname_def Let_def split: list.split)

lemma restore_frames: "same_frames s (restore cp s)"
  by (simp add: same_frames_def restore_def)

lemma writeback_frames: "same_frames s (writeback_nonlocal_cell fd s)"
  by (auto simp: same_frames_def writeback_nonlocal_cell_def split: option.splits)

text \<open>Entering and leaving around something that keeps the frames.\<close>

definition frames_equal :: "interp_state \<Rightarrow> interp_state \<Rightarrow> bool" where
  "frames_equal s t \<longleftrightarrow> call_depth t = call_depth s \<and> expr_depth t = expr_depth s \<and>
     saved_expr_depth t = saved_expr_depth s \<and> qualname_stack t = qualname_stack s \<and>
     frame_cell_owners t = frame_cell_owners s"

lemma enter_exit:
  assumes "enter_call s0 = (s, Inr u)" "max_recursion_depth (config s0) \<le> u32_max"
    "call_depth t = call_depth s" "saved_expr_depth t = saved_expr_depth s" "qualname_stack t = qualname_stack s"
    "frame_cell_owners t = frame_cell_owners s"
  shows "frames_equal s0 (exit_call t)"
  using assms by (auto simp: enter_call_def exit_call_def frames_equal_def u32_succ_def Let_def split: if_splits)

lemma leave_pushed:
  assumes "same_frames (push_frame s) t"
  shows "frame_cell_owners (pop_frame t) = frame_cell_owners s" "call_depth (pop_frame t) = call_depth s"
    "saved_expr_depth (pop_frame t) = saved_expr_depth s" "qualname_stack (pop_frame t) = qualname_stack s"
  using assms by (simp_all add: same_frames_def push_frame_def pop_frame_def)

lemma qualname_pushed:
  "same_frames (push_qualname fd s) t \<Longrightarrow> same_frames s (pop_qualname t)"
  by (simp add: same_frames_def push_qualname_def pop_qualname_def)

lemma pops_commute:
  "pop_qualname (exit_call t) = exit_call (pop_qualname t)" "pop_qualname (pop_frame t) = pop_frame (pop_qualname t)"
  by (auto simp: pop_qualname_def exit_call_def pop_frame_def Let_def split: list.splits)

lemma pushes_commute: "push_frame (push_qualname fd s) = push_qualname fd (push_frame s)"
  by (simp add: push_frame_def push_qualname_def)

lemma call_trivial_frames:
  assumes "keeps_frames (ce_eval_stmt C)" "enter_call s0 = (s, Inr u)" "max_recursion_depth (config s0) \<le> u32_max"
  shows "frames_equal s0 (fst (call_trivial C fd s))"
proof (cases "ce_bodies C s (body_cache_key fd)")
  case None
  then show ?thesis
    using assms(2,3) by (simp add: call_trivial_def pop_qualname_def pop_frame_def push_frame_def push_qualname_def enter_exit)
next
  case (Some body)
  show ?thesis
  proof (cases "ce_trivial C body")
    case None
    obtain s1 r where r: "execute_body (ce_eval_stmt C) VNone (push_frame (push_qualname fd s)) body = (s1, r)" by fastforce
    then have "same_frames (push_qualname fd (push_frame s)) s1"
      using execute_body_frames [OF assms(1), of "push_frame (push_qualname fd s)" VNone body]
      by (simp add: pushes_commute)
    from leave_pushed [OF qualname_pushed [OF this]] show ?thesis
      using assms(2,3) r None Some by (simp add: call_trivial_def pops_commute enter_exit)
  next
    case (Some v)
    then show ?thesis using assms(2,3) \<open>ce_bodies C s _ = Some body\<close> by (simp add: call_trivial_def enter_exit)
  qed
qed

lemma bind_params_frames:
  assumes "params_ok ps"
  shows "same_frames s (fst (bind_params_named ev fresh ps fname vals kw s))"
  using argument_binding_fst [OF assms, of ev fresh fname vals kw s] by (auto simp: same_frames_def)

lemma call_full_frames:
  assumes "params_ok (fd_params fd)" "keeps_frames (ce_eval_stmt C)" "generators_keep C"
    "enter_call s0 = (s, Inr u)" "max_recursion_depth (config s0) \<le> u32_max"
  shows "frames_equal s0 (fst (call_full C fd vals kw s))"
proof -
  note exit1 = enter_exit [OF assms(4,5)]
  obtain s1 b where b: "bind_params_named (ce_default C) (fresh_addr (ce_runtime C)) (fd_params fd) (display_qualname fd)
      vals kw (push_frame s) = (s1, b)" by fastforce
  then have s1: "same_frames (push_frame s) s1" by (metis bind_params_frames [OF assms(1)] fst_conv)
  show ?thesis
  proof (cases b)
    case (Inl e)
    then show ?thesis using b leave_pushed [OF s1] by (simp add: call_full_def exit1)
  next
    case (Inr sc)
    let ?names = "touched_names C fd s1"
    obtain s2 a where a: "apply_function_scope C fd sc s1 = (s2, a)" by fastforce
    then have s2: "same_frames (push_frame s) s2" by (metis apply_function_scope_frames fst_conv s1 same_frames_trans)
    obtain s3 q where q: "run_frame C fd ?names (push_qualname fd s2) = (s3, q)" by fastforce
    then have "same_frames (push_qualname fd s2) s3" by (metis fst_conv run_frame_frames [OF assms(2,3)])
    then have "same_frames (push_qualname fd s2) (restore (capture s1 ?names) (writeback_nonlocal_cell fd s3))"
      by (blast intro: same_frames_trans writeback_frames restore_frames)
    note done1 = leave_pushed [OF same_frames_trans [OF s2 qualname_pushed [OF this]]]
    note failed = leave_pushed [OF same_frames_trans [OF s2 restore_frames]]
    show ?thesis
      using b Inr a q done1 failed
      by (cases a) (simp_all add: call_full_def Let_def leave_frame_def pops_commute exit1)
  qed
qed

text \<open>C20: A call leaves the frames of its caller as it found them, whatever the call does: the call depth and the depth of
  expressions, the qualified names and the cells that every enclosing frame owns are the same after the call, whether it
  returns, fails to bind its arguments, exceeds a limit or raises.  The statements of the body are only assumed to keep
  the frames around their own.\<close>
theorem call_balanced:
  assumes "params_ok (fd_params fd)" "keeps_frames (ce_eval_stmt C)" "generators_keep C"
    "max_recursion_depth (config s0) \<le> u32_max"
  shows "frames_equal s0 (fst (call_user_function_inner C fd vals kw s0))"
proof (cases "enter_call s0")
  case (Pair s r)
  show ?thesis
  proof (cases r)
    case (Inl e)
    then show ?thesis using Pair
      by (auto simp: call_user_function_inner_def enter_call_def frames_equal_def split: if_splits)
  next
    case (Inr u)
    note entered = Pair [unfolded Inr]
    show ?thesis
      using call_trivial_frames [OF assms(2) entered assms(4)] call_full_frames [OF assms(1-3) entered assms(4)] entered
      by (simp add: call_user_function_inner_def)
  qed
qed

text \<open>C21: The local variables of a call do not leak: a parameter, or a name the body assigns, that is neither \<open>global\<close> nor
  \<open>nonlocal\<close> has after the call the value it had before, or none if it had none, whatever the body does.\<close>
theorem call_restores_locals:
  assumes "params_ok (fd_params fd)" "n \<in> set (param_name_list (fd_params fd)) \<union> set (fd_assigned_names fd)"
    "n \<notin> set (fd_global_names fd)" "n \<notin> set (fd_nonlocal_names fd)"
  shows "variables (fst (call_user_function_inner C fd vals kw s0)) n = variables s0 n"
proof (cases "enter_call s0")
  case (Pair s r)
  have vars: "variables s = variables s0" using Pair by (auto simp: enter_call_def split: if_splits)
  have not_trivial: "\<not> trivial_frame fd vals kw" using assms(2) by (auto simp: trivial_frame_def param_name_list_def)
  obtain s1 b where b: "bind_params_named (ce_default C) (fresh_addr (ce_runtime C)) (fd_params fd) (display_qualname fd)
      vals kw (push_frame s) = (s1, b)" by fastforce
  then obtain E where "s1 = (push_frame s)\<lparr>heap_env := E\<rparr>" using argument_binding_fst [OF assms(1)] by (metis fst_conv)
  then have s1: "variables s1 = variables s0" using vars by (simp add: push_frame_def)
  have "n \<in> set (touched_names C fd s1)" using assms(2-4) by (auto simp: touched_names_def)
  then have "variables (restore (capture s1 (touched_names C fd s1)) t) n = variables s0 n" for t
    using restore_captured s1 by metis
  then have "variables (fst (call_full C fd vals kw s)) n = variables s0 n"
    using b s1 by (simp add: call_full_def Let_def leave_frame_def split: sum.split prod.split)
  then show ?thesis using Pair vars not_trivial
    by (simp add: call_user_function_inner_def split: sum.split)
qed

section \<open>What a call leaves behind\<close>

definition one_param :: "string \<Rightarrow> function_params" where
  "one_param x = \<lparr>fp_args = [\<lparr>p_name = x, p_annotation = None\<rparr>], fp_defaults = [], fp_default_values = [], fp_vararg = None,
     fp_kwonlyargs = [], fp_kw_defaults = [], fp_kw_default_values = [], fp_kwarg = None, fp_posonly_count = 0\<rparr>"

definition simple_function :: "string \<Rightarrow> function_params \<Rightarrow> function_def" where
  "simple_function f ps = \<lparr>fd_name = f, fd_body_key = f, fd_params = ps, fd_closure = [], fd_nonlocal_names = [],
     fd_is_generator = False, fd_nonlocal_cell_id = None, fd_assigned_names = [], fd_global_names = [],
     fd_is_module_level = True, fd_cell_refreshes = [], fd_qualname = f\<rparr>"

lemma one_param_ok: "params_ok (one_param x)"
  by (simp add: params_ok_def one_param_def names_of_def)

lemma bind_one:
  "bind_params_named ev fresh (one_param x) f [v] [] s = (s, Inr [x \<mapsto> v])"
proof -
  have "call_fits (one_param x) [v] []"
    by (simp add: call_fits_def arity_ok_def posonly_ok_def one_param_def twice_def pos_value_def)
  moreover have "call_scope (one_param x) [v] [] a = [x \<mapsto> v]" for a
    by (simp add: call_scope_def one_param_def value_pairs_def pos_value_def optional_name_def)
  ultimately show ?thesis
    using binding_cases [OF one_param_ok [of x], of "[v]" "[]" ev fresh f s] by (simp add: one_param_def)
qed

text \<open>Every call of a function with a parameter uses up memory for good.  Binding the argument charges its size, and the
  end of the call removes the variable without giving the charge back: after a call that did nothing, with the variables
  exactly as before, the memory in use has grown by the size of the argument.\<close>
theorem argument_charge_kept:
  assumes "call_depth s0 < max_recursion_depth (config s0)" "variables s0 x = None"
    "ce_entries C [x \<mapsto> v] = [(x, v)]" "\<And>s. ce_bodies C s f = Some [stmt]" "\<not> ce_yields C [stmt]"
    "\<And>s. ce_eval_stmt C s stmt = (s, Inr VNone)" "f \<noteq> []"
    "memory_used_bytes s0 + value_size (ce_size C) v \<le> min (max_memory_bytes (config s0)) usize_max"
  shows "\<exists>s'. call_user_function_inner C (simple_function f (one_param x)) [v] [] s0 = (s', Inr VNone) \<and>
    variables s' = variables s0 \<and> memory_used_bytes s' = memory_used_bytes s0 + value_size (ce_size C) v"
proof -
  obtain s where s: "enter_call s0 = (s, Inr ())" "variables s = variables s0" "memory_used_bytes s = memory_used_bytes s0"
    "config s = config s0"
    using assms(1) by (auto simp: enter_call_def)
  let ?fd = "simple_function f (one_param x)" and ?s1 = "push_frame s"
  have names: "touched_names C ?fd ?s1 = [x]"
    by (simp add: touched_names_def simple_function_def one_param_def param_name_list_def)
  obtain s2 where s2: "apply_function_scope C ?fd [x \<mapsto> v] ?s1 = (s2, Inr ())" "variables s2 = (variables s0)(x \<mapsto> v)"
    "memory_used_bytes s2 = memory_used_bytes s0 + value_size (ce_size C) v"
    using assms(2,3,8) s
    by (auto simp: apply_function_scope_def apply_nonlocal_cell_def simple_function_def set_variable_def push_frame_def
        write_through_def check_memory_def usize_add_def Let_def)
  have "run_frame C ?fd [x] (push_qualname ?fd s2) = (push_qualname ?fd s2, Inr VNone)"
    using assms(4-7) by (simp add: run_frame_def simple_function_def body_cache_key_def)
  moreover have "\<not> trivial_frame ?fd [v] []" by (simp add: trivial_frame_def)
  moreover have "display_qualname ?fd = f" "fd_params ?fd = one_param x"
    using assms(7) by (simp_all add: display_qualname_def simple_function_def)
  ultimately have call: "call_user_function_inner C ?fd [v] [] s0 =
      (leave_frame ?fd (capture ?s1 [x]) (push_qualname ?fd s2), Inr VNone)"
    using s(1) names s2(1) by (simp add: call_user_function_inner_def call_full_def bind_one catch_return_def)
  have "variables (leave_frame ?fd (capture ?s1 [x]) (push_qualname ?fd s2)) = (variables s2)(x := variables s x)"
    by (simp add: leave_frame_def restore_def capture_def writeback_nonlocal_cell_def
        simple_function_def push_qualname_def push_frame_def)
  then have "variables (leave_frame ?fd (capture ?s1 [x]) (push_qualname ?fd s2)) = variables s0"
    using s2(2) s(2) by (simp only: fun_upd_upd fun_upd_triv)
  moreover have "memory_used_bytes (leave_frame ?fd (capture ?s1 [x]) (push_qualname ?fd s2)) = memory_used_bytes s2"
    by (simp add: leave_frame_def restore_def writeback_nonlocal_cell_def simple_function_def push_qualname_def
        pop_qualname_def exit_call_def pop_frame_def Let_def split: list.splits)
  ultimately show ?thesis unfolding call by (intro exI conjI) (rule refl, simp_all only: s2(3))
qed

text \<open>A function whose body ends without \<open>return\<close> returns the value of its last statement: a body of one expression
  statement makes the call return the value of the expression, where Python returns \<open>None\<close>.\<close>
theorem missing_return_value:
  assumes "call_depth s0 < max_recursion_depth (config s0)" "trivial_frame fd [] []"
    "\<And>s. ce_bodies C s (body_cache_key fd) = Some [stmt]" "ce_trivial C [stmt] = None"
    "\<And>s. ce_eval_stmt C s stmt = (s, Inr w)"
  shows "snd (call_user_function_inner C fd [] [] s0) = Inr w"
  using assms by (simp add: call_user_function_inner_def enter_call_def call_trivial_def catch_return_def)

section \<open>Witnesses\<close>

text \<open>Statements that do nothing and return their value.\<close>

definition sample_calls :: "pyval call_env" where
  "sample_calls = \<lparr>ce_runtime = sample_exc_runtime, ce_eval_stmt = (\<lambda>s v. (s, Inr v)), ce_default = (\<lambda>s src. (s, Inr VNone)),
     ce_bodies = (\<lambda>s n. Some (if n = ''f'' then [VNone] else [VBool True])), ce_trivial = (\<lambda>body. None),
     ce_yields = (\<lambda>body. False), ce_suspendable = (\<lambda>body. False),
     ce_create_generator = (\<lambda>s fd body sc ns. (s, VNone)), ce_eager_generator = (\<lambda>s body. (s, Inr VNone)),
     ce_entries = (\<lambda>m. case m ''x'' of Some v \<Rightarrow> [(''x'', v)] | None \<Rightarrow> [])\<rparr>"

lemma sample_calls_keep: "keeps_frames (ce_eval_stmt sample_calls)" "generators_keep sample_calls"
  by (simp_all add: keeps_frames_def generators_keep_def sample_calls_def)

definition no_params :: function_params where
  "no_params = (one_param [])\<lparr>fp_args := []\<rparr>"

lemma no_params_ok: "params_ok no_params"
  by (simp add: params_ok_def no_params_def one_param_def names_of_def)

theorem argument_binding_witness:
  "bind_params_named (ce_default sample_calls) (\<lambda>E. 0) (one_param ''x'') ''f'' [VNone] [] sample_state =
     (sample_state, Inr (call_scope (one_param ''x'') [VNone] [] 0)) \<and>
   is_type_error (snd (bind_params_named (ce_default sample_calls) (\<lambda>E. 0) (one_param ''x'') ''f'' [] [] sample_state))"
proof
  have "call_fits (one_param ''x'') [VNone] []" "\<not> call_fits (one_param ''x'') [] []"
    by (simp_all add: call_fits_def arity_ok_def posonly_ok_def one_param_def twice_def pos_value_def pos_default_def)
  note fits = this
  show "bind_params_named (ce_default sample_calls) (\<lambda>E. 0) (one_param ''x'') ''f'' [VNone] [] sample_state =
     (sample_state, Inr (call_scope (one_param ''x'') [VNone] [] 0))"
    using argument_binding [OF one_param_ok, of "''x''" "[VNone]" "[]" "ce_default sample_calls" "\<lambda>E. 0" "''f''" sample_state] fits(1)
    by (simp add: one_param_def)
  show "is_type_error (snd (bind_params_named (ce_default sample_calls) (\<lambda>E. 0) (one_param ''x'') ''f'' [] [] sample_state))"
    using argument_binding [OF one_param_ok, of "''x''" "[]" "[]" "ce_default sample_calls" "\<lambda>E. 0" "''f''" sample_state] fits(2)
    by simp
qed

theorem call_balanced_witness:
  "call_depth (fst (call_user_function_inner sample_calls (simple_function ''f'' (one_param ''x'')) [VNone] [] sample_state)) = 0"
  using call_balanced [of "simple_function ''f'' (one_param ''x'')" sample_calls sample_state "[VNone]" "[]"] sample_calls_keep
    one_param_ok [of "''x''"]
  by (simp add: frames_equal_def simple_function_def new_state_def default_config_def u32_max_def)

theorem call_restores_locals_witness:
  "variables (fst (call_user_function_inner sample_calls (simple_function ''f'' (one_param ''x'')) [VNone] [] sample_state)) ''x'' = None"
  using call_restores_locals [of "simple_function ''f'' (one_param ''x'')" "''x''" sample_calls "[VNone]" "[]" sample_state]
    one_param_ok [of "''x''"]
  by (simp add: simple_function_def one_param_def param_name_list_def new_state_def)

theorem argument_charge_kept_witness:
  "\<exists>s'. call_user_function_inner sample_calls (simple_function ''f'' (one_param ''x'')) [VNone] [] sample_state = (s', Inr VNone) \<and>
     variables s' = variables sample_state \<and>
     memory_used_bytes s' = memory_used_bytes sample_state + value_size (ce_size sample_calls) VNone"
  by (rule argument_charge_kept [where stmt = VNone])
    (simp_all add: sample_calls_def new_state_def default_config_def sample_exc_runtime_def sample_runtime_def runtime.defs usize_max_def)

theorem missing_return_value_witness:
  "snd (call_user_function_inner sample_calls (simple_function ''g'' no_params) [] [] sample_state) = Inr (VBool True)"
  by (rule missing_return_value [where stmt = "VBool True"])
    (simp_all add: sample_calls_def simple_function_def no_params_def one_param_def trivial_frame_def body_cache_key_def
      new_state_def default_config_def)

end
