(* ===== verification/Control_Flow.thy ===== *)
theory Control_Flow
  imports Calls
begin

text \<open>
  Control flow (\<open>eval/control_flow.rs\<close>, and the truth of a value in \<open>eval/op.rs\<close>): \<open>if\<close>, \<open>while\<close>, \<open>for\<close> and \<open>with\<close>.

  The evaluation of statements and expressions, assignment to a target, the methods of instances and the steps of
  an iterator are parameters.  A \<open>while\<close> loop is bounded by the configuration; a loop over an iterator may run
  forever and is then \<open>None\<close>.
\<close>

section \<open>What control flow needs of the rest\<close>

record ('stmt, 'expr, 'target) flow_env =
  fe_eval_stmt :: "('stmt, pyval) eval"
  fe_eval_expr :: "('expr, pyval) eval"
  fe_resolve_proxy :: "pyval \<Rightarrow> pyval eval_result"
  fe_slot :: "interp_state \<Rightarrow> pyval \<Rightarrow> string \<Rightarrow> (interp_state \<times> pyval eval_result) option"
  fe_assign :: "interp_state \<Rightarrow> 'target \<Rightarrow> pyval \<Rightarrow> interp_state \<times> unit eval_result"
  fe_next :: "(pyval, pyval) eval"
  fe_iter :: "(pyval, pyval list) eval"
  fe_context :: "interp_state \<Rightarrow> pyval \<Rightarrow> string \<Rightarrow> pyval list \<Rightarrow> interp_state \<times> pyval eval_result"
  fe_drive :: "(pyval, pyval) eval"

definition truthy :: "('stmt, 'expr, 'target) flow_env \<Rightarrow> (pyval, bool) eval" where
  "truthy F s v =
     (let plain = (s, Inr (is_truthy (heap_env s) v)) in
      case v of
        VInstance c a \<Rightarrow> (case fe_slot F s v ''__bool__'' of
            Some r \<Rightarrow> eval_bind r (\<lambda>s1 w. case w of
                VBool b \<Rightarrow> (s1, Inr b)
              | _ \<Rightarrow> (s1, Inl (Interpreter (TypeError (''__bool__ should return bool, returned '' @ type_name w)))))
          | None \<Rightarrow> (case fe_slot F s v ''__len__'' of
              Some r \<Rightarrow> eval_bind r (\<lambda>s1 w. case w of
                  VInt n \<Rightarrow> (s1, Inr (n \<noteq> 0))
                | VBool b \<Rightarrow> (s1, Inr b)
                | _ \<Rightarrow> (s1, Inl (Interpreter (TypeError (quoted (type_name w) @ '' object cannot be interpreted as an integer'')))))
            | None \<Rightarrow> plain))
      | _ \<Rightarrow> plain)"

definition eval_resolved :: "('stmt, 'expr, 'target) flow_env \<Rightarrow> ('expr, pyval) eval" where
  "eval_resolved F s e = eval_bind (fe_eval_expr F s e) (\<lambda>s1 v. (s1, fe_resolve_proxy F v))"

definition eval_test :: "('stmt, 'expr, 'target) flow_env \<Rightarrow> ('expr, bool) eval" where
  "eval_test F s e = eval_bind (eval_resolved F s e) (truthy F)"

definition eval_if :: "('stmt, 'expr, 'target) flow_env \<Rightarrow> interp_state \<Rightarrow> 'expr \<Rightarrow> 'stmt list \<Rightarrow> 'stmt list \<Rightarrow> interp_state \<times> pyval eval_result" where
  "eval_if F s test body orelse =
     eval_bind (eval_test F s test) (\<lambda>s1 cond. eval_body (fe_eval_stmt F) s1 (if cond then body else orelse))"

section \<open>Loops\<close>

text \<open>One pass over the body of a loop: the value of the last statement and whether the loop is left by \<open>break\<close>.\<close>

fun loop_body :: "('stmt, pyval) eval \<Rightarrow> pyval \<Rightarrow> interp_state \<Rightarrow> 'stmt list \<Rightarrow> interp_state \<times> (pyval \<times> bool) eval_result" where
  "loop_body ev result s [] = (s, Inr (result, False))"
| "loop_body ev result s (stmt # rest) = (case ev s stmt of
     (s1, Inr v) \<Rightarrow> loop_body ev v s1 rest
   | (s1, Inl (Signal Continue)) \<Rightarrow> (s1, Inr (result, False))
   | (s1, Inl (Signal Break)) \<Rightarrow> (s1, Inr (result, True))
   | (s1, Inl e) \<Rightarrow> (s1, Inl e))"

text \<open>The \<open>else\<close> block runs unless the loop was left by \<open>break\<close>.\<close>

definition loop_else :: "('stmt, pyval) eval \<Rightarrow> 'stmt list \<Rightarrow> interp_state \<Rightarrow> pyval \<times> bool \<Rightarrow> interp_state \<times> pyval eval_result" where
  "loop_else ev orelse s r = (if snd r then (s, Inr (fst r)) else eval_body_from ev (fst r) s orelse)"

definition while_limit :: "nat \<Rightarrow> eval_error" where
  "while_limit n = Interpreter (LimitExceeded (''while loop exceeded maximum iterations ('' @ nat_digits n @ '')''))"

primrec while_loop ::
  "('stmt, 'expr, 'target) flow_env \<Rightarrow> nat \<Rightarrow> 'expr \<Rightarrow> 'stmt list \<Rightarrow> nat \<Rightarrow> pyval \<Rightarrow> interp_state \<Rightarrow> interp_state \<times> (pyval \<times> bool) eval_result" where
  "while_loop F max_iters test body 0 result s = (s, Inl (while_limit max_iters))"
| "while_loop F max_iters test body (Suc left) result s =
     eval_bind (eval_test F s test) (\<lambda>s1 cond.
       if \<not> cond then (s1, Inr (result, False))
       else eval_bind (loop_body (fe_eval_stmt F) result s1 body) (\<lambda>s2 (v, broke).
         if broke then (s2, Inr (v, True)) else while_loop F max_iters test body left v s2))"

definition eval_while ::
  "('stmt, 'expr, 'target) flow_env \<Rightarrow> interp_state \<Rightarrow> 'expr \<Rightarrow> 'stmt list \<Rightarrow> 'stmt list \<Rightarrow> interp_state \<times> pyval eval_result" where
  "eval_while F s test body orelse =
     (let max_iters = max_while_iterations (config s) in
      eval_bind (while_loop F max_iters test body max_iters VNone s) (loop_else (fe_eval_stmt F) orelse))"

record ('stmt, 'expr, 'target) stmt_for =
  for_target :: 'target
  for_iter :: 'expr
  for_body :: "'stmt list"
  for_orelse :: "'stmt list"

definition run_for_body ::
  "('stmt, 'expr, 'target) flow_env \<Rightarrow> ('stmt, 'expr, 'target) stmt_for \<Rightarrow> pyval \<Rightarrow> interp_state \<Rightarrow> pyval \<Rightarrow> interp_state \<times> (pyval \<times> bool) eval_result" where
  "run_for_body F node result s item =
     eval_bind (fe_assign F s (for_target node) item) (\<lambda>s1 _. loop_body (fe_eval_stmt F) result s1 (for_body node))"

text \<open>Over a list of items, over the integers of a range without making a list, and over the steps of an iterator.\<close>

primrec for_items ::
  "('stmt, 'expr, 'target) flow_env \<Rightarrow> ('stmt, 'expr, 'target) stmt_for \<Rightarrow> pyval list \<Rightarrow> pyval \<Rightarrow> interp_state \<Rightarrow> interp_state \<times> (pyval \<times> bool) eval_result" where
  "for_items F node [] result s = (s, Inr (result, False))"
| "for_items F node (x # xs) result s = eval_bind (run_for_body F node result s x) (\<lambda>s1 (v, broke).
     if broke then (s1, Inr (v, True)) else for_items F node xs v s1)"

definition range_measure :: "i64 \<Rightarrow> i64 \<Rightarrow> i64 \<Rightarrow> nat" where
  "range_measure i stop step = (if 0 < sint step then nat (sint stop - sint i) else nat (sint i - sint stop))"

function for_range ::
  "('stmt, 'expr, 'target) flow_env \<Rightarrow> ('stmt, 'expr, 'target) stmt_for \<Rightarrow> i64 \<Rightarrow> i64 \<Rightarrow> i64 \<Rightarrow> pyval \<Rightarrow> interp_state \<Rightarrow> interp_state \<times> (pyval \<times> bool) eval_result" where
  "for_range F node i stop step result s =
     (if \<not> (0 < sint step \<and> sint i < sint stop \<or> sint step < 0 \<and> sint stop < sint i) then (s, Inr (result, False))
      else (case run_for_body F node result s (VInt i) of
          (s1, Inl e) \<Rightarrow> (s1, Inl e)
        | (s1, Inr (v, broke)) \<Rightarrow>
            if broke then (s1, Inr (v, True))
            else (case checked_i64 (sint i + sint step) of
                None \<Rightarrow> (s1, Inr (v, False))
              | Some next \<Rightarrow> for_range F node next stop step v s1)))"
  by pat_completeness auto

termination
  by (relation "measure (\<lambda>(F, node, i, stop, step, result, s). range_measure i stop step)")
    (auto simp: range_measure_def checked_i64_Some)

declare for_range.simps [simp del]

definition stops_with :: "string \<Rightarrow> eval_error \<Rightarrow> bool" where
  "stops_with name e = (case e of Exception x \<Rightarrow> exc_type_name x = name | _ \<Rightarrow> False)"

text \<open>Stepping until the exception called \<open>stop\<close>: the loop may run forever, and is then \<open>None\<close>.\<close>

partial_function (option) for_next ::
  "('stmt, 'expr, 'target) flow_env \<Rightarrow> ('stmt, 'expr, 'target) stmt_for \<Rightarrow> (pyval, pyval) eval \<Rightarrow> string \<Rightarrow> pyval \<Rightarrow> pyval \<Rightarrow> interp_state \<Rightarrow> (interp_state \<times> (pyval \<times> bool) eval_result) option" where
  "for_next F node step stop it result s = (case step s it of
       (s1, Inl e) \<Rightarrow> Some (if stops_with stop e then (s1, Inr (result, False)) else (s1, Inl e))
     | (s1, Inr item) \<Rightarrow> (case run_for_body F node result s1 item of
         (s2, Inl e) \<Rightarrow> Some (s2, Inl e)
       | (s2, Inr (v, broke)) \<Rightarrow> if broke then Some (s2, Inr (v, True)) else for_next F node step stop it v s2))"

definition eval_for ::
  "('stmt, 'expr, 'target) flow_env \<Rightarrow> interp_state \<Rightarrow> ('stmt, 'expr, 'target) stmt_for \<Rightarrow> (interp_state \<times> pyval eval_result) option" where
  "eval_for F s node = (case eval_resolved F s (for_iter node) of
       (s1, Inl e) \<Rightarrow> Some (s1, Inl e)
     | (s1, Inr it) \<Rightarrow> map_option (\<lambda>r. eval_bind r (loop_else (fe_eval_stmt F) (for_orelse node)))
         (case it of
            VRange start stop step \<Rightarrow> Some (for_range F node start stop step VNone s1)
          | VBuiltinIter b k \<Rightarrow> for_next F node (fe_next F) ''StopIteration'' it VNone s1
          | VGenerator g \<Rightarrow> for_next F node (fe_next F) ''StopIteration'' it VNone s1
          | _ \<Rightarrow> Some (eval_bind (fe_iter F s1 it) (\<lambda>s2 items. for_items F node items VNone s2))))"

section \<open>Context managers\<close>

definition build_exit_args :: "eval_error option \<Rightarrow> bool \<times> pyval list" where
  "build_exit_args err =
     (let nones = [VNone, VNone, VNone];
          of_exception = (\<lambda>x. (True, [VExceptionType (exc_type_name x), VException x, VNone])) in
      case err of
        None \<Rightarrow> (False, nones)
      | Some (Signal c) \<Rightarrow> (False, nones)
      | Some (Exception x) \<Rightarrow> of_exception x
      | Some (Interpreter e) \<Rightarrow> of_exception (interpreter_error_to_exception e))"

text \<open>
  \<open>exit_loop\<close> leaves the managers in the order given; \<open>call\<close> is the call of the exit method, and so the same loop
  serves \<open>with\<close> and \<open>async with\<close>.
\<close>

primrec exit_loop ::
  "(interp_state \<Rightarrow> pyval \<Rightarrow> pyval list \<Rightarrow> interp_state \<times> pyval eval_result) \<Rightarrow> pyval list \<Rightarrow> interp_state \<Rightarrow> eval_error option \<Rightarrow> interp_state \<times> eval_error option" where
  "exit_loop call [] s err = (s, err)"
| "exit_loop call (cm # cms) s err =
     (case call s cm (snd (build_exit_args err)) of
        (s1, Inr v) \<Rightarrow> exit_loop call cms s1 (if is_truthy (heap_env s1) v \<and> fst (build_exit_args err) then None else err)
      | (s1, Inl e) \<Rightarrow> exit_loop call cms s1 (Some e))"

definition is_signal :: "eval_error \<Rightarrow> bool" where
  "is_signal e = (case e of Signal c \<Rightarrow> True | _ \<Rightarrow> False)"

definition signal_to_propagate :: "eval_error option \<Rightarrow> eval_error option" where
  "signal_to_propagate err = (case err of Some e \<Rightarrow> if is_signal e then Some e else None | None \<Rightarrow> None)"

definition exit_managers ::
  "(interp_state \<Rightarrow> pyval \<Rightarrow> pyval list \<Rightarrow> interp_state \<times> pyval eval_result) \<Rightarrow> pyval list \<Rightarrow> interp_state \<Rightarrow> eval_error option \<Rightarrow> interp_state \<times> unit eval_result" where
  "exit_managers call managers s body_err =
     (case exit_loop call (rev managers) s (if signal_to_propagate body_err = None then body_err else None) of
        (s1, err) \<Rightarrow> (s1, case signal_to_propagate body_err of
            Some e \<Rightarrow> Inl e
          | None \<Rightarrow> (case err of Some e \<Rightarrow> Inl e | None \<Rightarrow> Inr ())))"

definition exit_context_managers ::
  "('stmt, 'expr, 'target) flow_env \<Rightarrow> pyval list \<Rightarrow> interp_state \<Rightarrow> eval_error option \<Rightarrow> interp_state \<times> unit eval_result" where
  "exit_context_managers F = exit_managers (\<lambda>s cm. fe_context F s cm ''__exit__'')"

fun enter_all ::
  "('stmt, 'expr, 'target) flow_env \<Rightarrow> (interp_state \<Rightarrow> pyval \<Rightarrow> interp_state \<times> pyval eval_result) \<Rightarrow> ('expr \<times> 'target option) list \<Rightarrow> pyval list \<Rightarrow> interp_state \<Rightarrow> interp_state \<times> pyval list eval_result" where
  "enter_all F call [] managers s = (s, Inr managers)"
| "enter_all F call ((e, target) # items) managers s =
     eval_bind (eval_resolved F s e) (\<lambda>s1 cm.
     eval_bind (call s1 cm) (\<lambda>s2 entered.
     eval_bind (case target of Some t \<Rightarrow> fe_assign F s2 t entered | None \<Rightarrow> (s2, Inr ())) (\<lambda>s3 _.
       enter_all F call items (managers @ [cm]) s3)))"

text \<open>The body, and then every manager in reverse order; a suppressed exception leaves the value \<open>None\<close>.\<close>

definition body_then_exit ::
  "('stmt, 'expr, 'target) flow_env \<Rightarrow> (interp_state \<Rightarrow> pyval \<Rightarrow> pyval list \<Rightarrow> interp_state \<times> pyval eval_result) \<Rightarrow> 'stmt list \<Rightarrow> interp_state \<Rightarrow> pyval list \<Rightarrow> interp_state \<times> pyval eval_result" where
  "body_then_exit F call body s managers =
     (case eval_body (fe_eval_stmt F) s body of
        (s1, r) \<Rightarrow> eval_bind (exit_managers call managers s1 (case r of Inl e \<Rightarrow> Some e | Inr v \<Rightarrow> None)) (\<lambda>s2 _.
          (s2, Inr (case r of Inr v \<Rightarrow> v | Inl e \<Rightarrow> VNone))))"

definition eval_with ::
  "('stmt, 'expr, 'target) flow_env \<Rightarrow> interp_state \<Rightarrow> ('expr \<times> 'target option) list \<Rightarrow> 'stmt list \<Rightarrow> interp_state \<times> pyval eval_result" where
  "eval_with F s items body =
     eval_bind (enter_all F (\<lambda>s cm. fe_context F s cm ''__enter__'' []) items [] s)
       (body_then_exit F (\<lambda>s cm. fe_context F s cm ''__exit__'') body)"

section \<open>The asynchronous forms\<close>

definition call_and_drive ::
  "('stmt, 'expr, 'target) flow_env \<Rightarrow> interp_state \<Rightarrow> pyval \<Rightarrow> string \<Rightarrow> pyval list \<Rightarrow> interp_state \<times> pyval eval_result" where
  "call_and_drive F s receiver meth vals = eval_bind (fe_context F s receiver meth vals) (\<lambda>s1 v.
     case v of VCoroutine a ps ks b \<Rightarrow> fe_drive F s1 v | _ \<Rightarrow> (s1, Inr v))"

definition eval_async_with ::
  "('stmt, 'expr, 'target) flow_env \<Rightarrow> interp_state \<Rightarrow> ('expr \<times> 'target option) list \<Rightarrow> 'stmt list \<Rightarrow> interp_state \<times> pyval eval_result" where
  "eval_async_with F s items body =
     eval_bind (enter_all F (\<lambda>s cm. call_and_drive F s cm ''__aenter__'' []) items [] s)
       (body_then_exit F (\<lambda>s cm. call_and_drive F s cm ''__aexit__'') body)"

definition is_generator_source :: "pyval \<Rightarrow> bool" where
  "is_generator_source v = (case v of
       VGenerator g \<Rightarrow> True | VLazy xs k l \<Rightarrow> True | VBuiltinIter b k \<Rightarrow> True | _ \<Rightarrow> False)"

definition async_step :: "('stmt, 'expr, 'target) flow_env \<Rightarrow> (pyval, pyval) eval" where
  "async_step F s it = (if is_generator_source it then fe_next F s it else call_and_drive F s it ''__anext__'' [])"

definition async_stop :: "pyval \<Rightarrow> string" where
  "async_stop it = (if is_generator_source it then ''StopIteration'' else ''StopAsyncIteration'')"

definition eval_async_for ::
  "('stmt, 'expr, 'target) flow_env \<Rightarrow> interp_state \<Rightarrow> ('stmt, 'expr, 'target) stmt_for \<Rightarrow> (interp_state \<times> pyval eval_result) option" where
  "eval_async_for F s node = (case eval_resolved F s (for_iter node) of
       (s1, Inl e) \<Rightarrow> Some (s1, Inl e)
     | (s1, Inr it) \<Rightarrow> (case call_and_drive F s1 it ''__aiter__'' [] of
         (s2, r) \<Rightarrow> (let aiter = (case r of Inr v \<Rightarrow> v | Inl e \<Rightarrow> it) in
           map_option (\<lambda>r. eval_bind r (loop_else (fe_eval_stmt F) (for_orelse node)))
             (for_next F node (async_step F) (async_stop aiter) aiter VNone s2))))"

section \<open>A range is walked like the list of its items\<close>

lemma range_size_stopped:
  "\<not> (0 < s \<and> a < b \<or> s < 0 \<and> b < a) \<Longrightarrow> s \<noteq> 0 \<Longrightarrow> range_size a b s = 0"
  using range_size_up [of s a b] range_size_down [of s a b] by (cases "0 < s") auto

lemma range_size_running:
  "0 < s \<and> a < b \<or> s < 0 \<and> b < a \<Longrightarrow> range_size a b s = Suc (range_size (a + s) b s)"
  using range_size_up [of s a b] range_size_down [of s a b] by auto

lemma range_size_outside:
  fixes i stop step :: i64
  assumes "checked_i64 (sint i + sint step) = None" "0 < sint step \<and> sint i < sint stop \<or> sint step < 0 \<and> sint stop < sint i"
  shows "range_size (sint i + sint step) (sint stop) (sint step) = 0"
proof (rule range_size_stopped)
  have "\<not> in_i64 (sint i + sint step)" using assms(1) by (auto simp: checked_i64_def split: if_splits)
  then show "\<not> (0 < sint step \<and> sint i + sint step < sint stop \<or> sint step < 0 \<and> sint stop < sint i + sint step)"
    using assms(2) in_i64_sint [of stop] in_i64_sint [of i] in_i64_sint [of step] by (auto simp: in_i64_def simp del: in_i64_sint)
  show "sint step \<noteq> 0" using assms(2) by auto
qed

definition range_items :: "i64 \<Rightarrow> i64 \<Rightarrow> i64 \<Rightarrow> pyval list" where
  "range_items i stop step = (if sint step = 0 then []
     else map (\<lambda>k. VInt (word_of_int k)) (progression (sint i) (sint step) (range_size (sint i) (sint stop) (sint step))))"

lemma range_items_Nil:
  "\<not> (0 < sint step \<and> sint i < sint stop \<or> sint step < 0 \<and> sint stop < sint i) \<Longrightarrow> range_items i stop step = []"
  using range_size_stopped [of "sint step" "sint i" "sint stop"] by (simp add: range_items_def progression_def)

lemma range_items_Cons:
  assumes "0 < sint step \<and> sint i < sint stop \<or> sint step < 0 \<and> sint stop < sint i"
  shows "range_items i stop step =
    VInt i # (case checked_i64 (sint i + sint step) of None \<Rightarrow> [] | Some nxt \<Rightarrow> range_items nxt stop step)"
proof (cases "checked_i64 (sint i + sint step)")
  case None
  then show ?thesis
    using assms range_size_running [OF assms] range_size_outside [OF None assms]
    by (auto simp: range_items_def progression_Suc) (simp_all add: progression_def)
next
  case (Some nxt)
  then have "sint nxt = sint i + sint step" by (simp add: checked_i64_Some)
  then show ?thesis using assms Some range_size_running [OF assms] by (auto simp: range_items_def progression_Suc)
qed

lemma for_range_items_lemma: "for_range F node i stop step result s = for_items F node (range_items i stop step) result s"
proof (induction F node i stop step result s rule: for_range.induct)
  case (1 F node i stop step result s)
  show ?case
  proof (cases "0 < sint step \<and> sint i < sint stop \<or> sint step < 0 \<and> sint stop < sint i")
    case False
    then show ?thesis by (simp add: range_items_Nil for_range.simps [of F node i])
  next
    case True
    obtain s1 r where run: "run_for_body F node result s (VInt i) = (s1, r)" by fastforce
    show ?thesis
    proof (cases r)
      case (Inl e)
      then show ?thesis using True run by (simp add: range_items_Cons [OF True] for_range.simps [of F node i])
    next
      case (Inr p)
      obtain v broke where p: "p = (v, broke)" by fastforce
      show ?thesis
        using True run Inr p "1.IH" [OF _ run [symmetric] Inr p [symmetric]]
        by (cases "checked_i64 (sint i + sint step)")
          (simp_all add: range_items_Cons [OF True] for_range.simps [of F node i] del: for_range.simps)
    qed
  qed
qed

text \<open>A \<open>for\<close> loop over a range, which counts in machine integers without making the items, is the loop over the list of
  the range's integers, for every start, stop and step: the step that leaves the 64-bit integers ends the loop
  exactly where the range ends.
\<close>

theorem for_over_range:
  "for_range F node start stop step result s = for_items F node (range_items start stop step) result s"
  by (rule for_range_items_lemma)

section \<open>A bounded loop\<close>

text \<open>The loop of the language, without the bound, and the number of times its test was evaluated.\<close>

partial_function (option) while_unbounded ::
  "('stmt, 'expr, 'target) flow_env \<Rightarrow> 'expr \<Rightarrow> 'stmt list \<Rightarrow> pyval \<Rightarrow> interp_state \<Rightarrow> (nat \<times> interp_state \<times> (pyval \<times> bool) eval_result) option" where
  "while_unbounded F test body result s = (case eval_test F s test of
       (s1, Inl e) \<Rightarrow> Some (1, s1, Inl e)
     | (s1, Inr cond) \<Rightarrow> if \<not> cond then Some (1, s1, Inr (result, False))
         else (case loop_body (fe_eval_stmt F) result s1 body of
             (s2, Inl e) \<Rightarrow> Some (1, s2, Inl e)
           | (s2, Inr (v, broke)) \<Rightarrow> if broke then Some (1, s2, Inr (v, True))
               else Option.bind (while_unbounded F test body v s2) (\<lambda>(n, out). Some (Suc n, out))))"

lemma while_loop_unbounded:
  "case while_unbounded F test body result s of
     Some (n, out) \<Rightarrow> if n \<le> k then while_loop F m test body k result s = out
       else (\<exists>t. while_loop F m test body k result s = (t, Inl (while_limit m)))
   | None \<Rightarrow> \<exists>t. while_loop F m test body k result s = (t, Inl (while_limit m))"
proof (induction k arbitrary: result s)
  case 0
  have "0 < n" if "while_unbounded F test body result s = Some (n, out)" for n out
    using that by (subst (asm) while_unbounded.simps) (auto split: prod.splits sum.splits if_splits option.splits bind_splits)
  then show ?case by (auto split: option.splits)
next
  case (Suc k)
  obtain s1 c where test: "eval_test F s test = (s1, c)" by fastforce
  show ?case
  proof (cases c)
    case (Inl e)
    then show ?thesis using test by (subst while_unbounded.simps) simp
  next
    case (Inr cond)
    obtain s2 r where body: "loop_body (fe_eval_stmt F) result s1 body = (s2, r)" by fastforce
    show ?thesis
    proof (cases r)
      case (Inl e)
      then show ?thesis using test Inr body by (subst while_unbounded.simps) simp
    next
      case R: (Inr p)
      obtain v broke where p: "p = (v, broke)" by fastforce
      show ?thesis
        using test Inr body R p Suc.IH [of v s2]
        by (subst while_unbounded.simps) (cases "while_unbounded F test body v s2"; auto)
    qed
  qed
qed

text \<open>C22: Every \<open>while\<close> statement ends.  If the loop of the language ends within \<open>max_while_iterations\<close> evaluations of its
  test, the statement has that loop's outcome, followed by the \<open>else\<close> block unless the loop was left by \<open>break\<close>;
  if the loop needs more, or never ends, the statement fails with the error that names the limit.
\<close>

theorem while_bounded:
  "case while_unbounded F test body VNone s of
     Some (n, out) \<Rightarrow>
       if n \<le> max_while_iterations (config s) then eval_while F s test body orelse = eval_bind out (loop_else (fe_eval_stmt F) orelse)
       else (\<exists>t. eval_while F s test body orelse = (t, Inl (while_limit (max_while_iterations (config s)))))
   | None \<Rightarrow> \<exists>t. eval_while F s test body orelse = (t, Inl (while_limit (max_while_iterations (config s))))"
  using while_loop_unbounded [where result = VNone and k = "max_while_iterations (config s)" and m = "max_while_iterations (config s)" and F = F and s = s and test = test and body = body]
  by (auto simp: eval_while_def Let_def split: option.splits)

section \<open>Context managers are left in reverse order\<close>

text \<open>
  The calls of the exit methods as a log: the manager, the arguments it got, and its answer, which is the truth of the
  value it returned or the error it raised.  \<open>exit_run call calls s s'\<close>: these calls, each from the state the former
  left, lead from \<open>s\<close> to \<open>s'\<close>.
\<close>

type_synonym exit_log = "(pyval \<times> pyval list \<times> (bool + eval_error)) list"

definition exit_answer :: "interp_state \<times> pyval eval_result \<Rightarrow> bool + eval_error" where
  "exit_answer out = (case out of (s, Inr v) \<Rightarrow> Inl (is_truthy (heap_env s) v) | (s, Inl e) \<Rightarrow> Inr e)"

inductive exit_run ::
  "(interp_state \<Rightarrow> pyval \<Rightarrow> pyval list \<Rightarrow> interp_state \<times> pyval eval_result) \<Rightarrow> exit_log \<Rightarrow> interp_state \<Rightarrow> interp_state \<Rightarrow> bool"
  for call where
  no_exit: "exit_run call [] s s"
| an_exit: "exit_run call calls (fst (call s cm vals)) s' \<Longrightarrow> exit_run call ((cm, vals, exit_answer (call s cm vals)) # calls) s s'"

abbreviation log_managers :: "exit_log \<Rightarrow> pyval list" where
  "log_managers \<equiv> map fst"

abbreviation log_answers :: "exit_log \<Rightarrow> (bool + eval_error) list" where
  "log_answers \<equiv> map (\<lambda>c. snd (snd c))"

text \<open>
  What the exit methods do to the error of the body, in the order they are called: an answer of \<open>True\<close> to an error
  suppresses it, an error of the exit method takes its place.
\<close>

fun exit_outcome :: "(bool + eval_error) list \<Rightarrow> eval_error option \<Rightarrow> eval_error option" where
  "exit_outcome [] err = err"
| "exit_outcome (Inr e # answers) err = exit_outcome answers (Some e)"
| "exit_outcome (Inl suppress # answers) err =
     exit_outcome answers (case err of Some e \<Rightarrow> if suppress \<and> \<not> is_signal e then None else err | None \<Rightarrow> None)"

text \<open>Each exit method is told the error that the answers before it leave.\<close>

definition told_pending :: "exit_log \<Rightarrow> eval_error option \<Rightarrow> bool" where
  "told_pending calls err \<longleftrightarrow> (\<forall>k < length calls.
     fst (snd (calls ! k)) = snd (build_exit_args (exit_outcome (log_answers (take k calls)) err)))"

lemma fst_build_exit_args: "fst (build_exit_args err) = (case err of Some e \<Rightarrow> \<not> is_signal e | None \<Rightarrow> False)"
  by (auto simp: build_exit_args_def is_signal_def Let_def split: option.splits eval_error.splits)

lemma exit_outcome_Cons: "exit_outcome (a # answers) err = exit_outcome answers (exit_outcome [a] err)"
  by (cases a) simp_all

lemma told_pending_Nil: "told_pending [] err"
  by (simp add: told_pending_def)

lemma told_pending_Cons:
  "told_pending ((cm, vals, a) # calls) err \<longleftrightarrow>
     vals = snd (build_exit_args err) \<and> told_pending calls (exit_outcome [a] err)"
  by (simp add: told_pending_def All_less_Suc2 exit_outcome_Cons [of a "log_answers (take k calls)" for k])

lemma exit_loop_Cons:
  "exit_loop call (cm # cms) s err = (let out = call s cm (snd (build_exit_args err)) in
     exit_loop call cms (fst out) (exit_outcome [exit_answer out] err))"
  by (auto simp: exit_answer_def fst_build_exit_args Let_def split: prod.split sum.split option.split)

lemma exit_loop_run:
  "\<exists>calls. exit_run call calls s (fst (exit_loop call cms s err)) \<and> log_managers calls = cms \<and> told_pending calls err \<and>
     snd (exit_loop call cms s err) = exit_outcome (log_answers calls) err"
proof (induction cms arbitrary: s err)
  case (Cons cm cms)
  let ?vals = "snd (build_exit_args err)"
  let ?out = "call s cm ?vals"
  let ?err = "exit_outcome [exit_answer ?out] err"
  obtain calls where calls: "exit_run call calls (fst ?out) (fst (exit_loop call cms (fst ?out) ?err))"
    "log_managers calls = cms" "told_pending calls ?err"
    "snd (exit_loop call cms (fst ?out) ?err) = exit_outcome (log_answers calls) ?err"
    using Cons.IH by blast
  show ?case
    unfolding exit_loop_Cons Let_def
    using exit_run.an_exit [OF calls(1)] calls(2-4) exit_outcome_Cons [of "exit_answer ?out" "log_answers calls" err]
    by (intro exI [of _ "(cm, ?vals, exit_answer ?out) # calls"]) (simp add: told_pending_Cons)
qed (auto intro: exit_run.no_exit told_pending_Nil)

section \<open>Which error a block ends with\<close>

text \<open>The error of the body that the exit methods are told: signals are not.\<close>

definition pending_error :: "'a eval_result \<Rightarrow> eval_error option" where
  "pending_error r = (case r of Inl e \<Rightarrow> if is_signal e then None else Some e | Inr v \<Rightarrow> None)"

lemma body_then_exit_run:
  assumes "eval_body (fe_eval_stmt F) s body = (s1, r)"
  obtains calls where "exit_run call calls s1 (fst (body_then_exit F call body s managers))"
    "log_managers calls = rev managers" "told_pending calls (pending_error r)"
    "snd (body_then_exit F call body s managers) =
      (case r of
         Inl (Signal c) \<Rightarrow> Inl (Signal c)
       | _ \<Rightarrow> (case exit_outcome (log_answers calls) (pending_error r) of
           Some e \<Rightarrow> Inl e
         | None \<Rightarrow> Inr (case r of Inl e \<Rightarrow> VNone | Inr v \<Rightarrow> v)))"
proof -
  obtain calls where calls: "exit_run call calls s1 (fst (exit_loop call (rev managers) s1 (pending_error r)))"
    "log_managers calls = rev managers" "told_pending calls (pending_error r)"
    "snd (exit_loop call (rev managers) s1 (pending_error r)) = exit_outcome (log_answers calls) (pending_error r)"
    using exit_loop_run by blast
  let ?e = "case r of Inl e \<Rightarrow> Some e | Inr v \<Rightarrow> None"
  obtain s2 x where x: "exit_loop call (rev managers) s1 (pending_error r) = (s2, x)" by fastforce
  have p: "(if signal_to_propagate ?e = None then ?e else None) = pending_error r"
    by (auto simp: pending_error_def signal_to_propagate_def split: sum.split)
  have m: "exit_managers call managers s1 ?e = (s2, case signal_to_propagate ?e of
      Some e \<Rightarrow> Inl e | None \<Rightarrow> (case x of Some e \<Rightarrow> Inl e | None \<Rightarrow> Inr ()))"
    by (simp only: exit_managers_def p x prod.case)
  have b: "body_then_exit F call body s managers = (s2, case r of
       Inl (Signal c) \<Rightarrow> Inl (Signal c)
     | _ \<Rightarrow> (case x of Some e \<Rightarrow> Inl e | None \<Rightarrow> Inr (case r of Inl e \<Rightarrow> VNone | Inr v \<Rightarrow> v)))"
    unfolding body_then_exit_def assms prod.case m
    by (auto simp: signal_to_propagate_def is_signal_def split: sum.split eval_error.split option.split)
  have xo: "x = exit_outcome (log_answers calls) (pending_error r)" using calls(4) x by simp
  show ?thesis
    using calls(1-3) by (intro that [of calls]) (simp_all add: b [unfolded xo] x)
qed

text \<open>C23: A \<open>with\<close> statement whose managers could all be entered runs its body and then makes exactly one call of the
  exit method of every manager, the last entered first, each from the state the former left, whatever the body and the
  exit methods do; each call is told the error that is pending when it is made (the one of the body, unless a true
  answer suppressed it or an error of an exit method replaced it), and signals are not told.  A body that ends
  normally or with an error leaves the statement with its value, or with the error that the answers leave; a body that
  ends with \<open>break\<close>, \<open>continue\<close> or \<open>return\<close> leaves it with that signal when no exit method raises.
\<close>

theorem with_exits:
  assumes "enter_all F (\<lambda>s cm. fe_context F s cm ''__enter__'' []) items [] s = (s1, Inr managers)"
    and "eval_body (fe_eval_stmt F) s1 body = (s2, r)"
  shows "\<exists>calls. exit_run (\<lambda>s cm. fe_context F s cm ''__exit__'') calls s2 (fst (eval_with F s items body)) \<and>
    log_managers calls = rev managers \<and> told_pending calls (pending_error r) \<and>
    (case r of
       Inl (Signal c) \<Rightarrow> (\<forall>a \<in> set (log_answers calls). isl a) \<longrightarrow> snd (eval_with F s items body) = Inl (Signal c)
     | _ \<Rightarrow> snd (eval_with F s items body) = (case exit_outcome (log_answers calls) (pending_error r) of
           Some e \<Rightarrow> Inl e
         | None \<Rightarrow> Inr (case r of Inl e \<Rightarrow> VNone | Inr v \<Rightarrow> v)))"
proof -
  have w: "eval_with F s items body = body_then_exit F (\<lambda>s cm. fe_context F s cm ''__exit__'') body s1 managers"
    using assms(1) by (simp add: eval_with_def)
  obtain calls where "exit_run (\<lambda>s cm. fe_context F s cm ''__exit__'') calls s2 (fst (eval_with F s items body))"
    "log_managers calls = rev managers" "told_pending calls (pending_error r)"
    "snd (eval_with F s items body) =
      (case r of
         Inl (Signal c) \<Rightarrow> Inl (Signal c)
       | _ \<Rightarrow> (case exit_outcome (log_answers calls) (pending_error r) of
           Some e \<Rightarrow> Inl e
         | None \<Rightarrow> Inr (case r of Inl e \<Rightarrow> VNone | Inr v \<Rightarrow> v)))"
    unfolding w by (rule body_then_exit_run [OF assms(2)])
  then show ?thesis
    by (intro exI [of _ calls]) (auto split: sum.split eval_error.split)
qed

definition demo_entry :: "pyval \<Rightarrow> nat" where
  "demo_entry v = (case v of VInt n \<Rightarrow> unat n | _ \<Rightarrow> 0)"

definition demo_flow :: "(nat, nat, nat) flow_env" where
  "demo_flow = \<lparr>fe_eval_stmt = \<lambda>s n. (s, Inl (Interpreter (TypeError ''body''))),
     fe_eval_expr = \<lambda>s n. (s, Inr (VInt (of_nat n))), fe_resolve_proxy = Inr, fe_slot = \<lambda>s v name. None,
     fe_assign = \<lambda>s t v. (s, Inr ()), fe_next = \<lambda>s v. (s, Inr v), fe_iter = \<lambda>s v. (s, Inr []),
     fe_context = \<lambda>s cm meth vals.
       (if meth = ''__exit__'' then s\<lparr>print_buffer := print_buffer s @ [demo_entry cm]\<rparr> else s, Inr (VBool (demo_entry cm = 1))),
     fe_drive = \<lambda>s v. (s, Inr v)\<rparr>"

text \<open>Two managers, of which the outer one suppresses the error of the body.\<close>

lemma demo_exit_run:
  "exit_run (\<lambda>s cm. fe_context demo_flow s cm ''__exit__'') calls s s' \<Longrightarrow>
    print_buffer s' = print_buffer s @ map demo_entry (log_managers calls) \<and>
    log_answers calls = map (\<lambda>v. Inl (demo_entry v = 1)) (log_managers calls)"
proof (induction rule: exit_run.induct)
  case (an_exit calls s cm vals s')
  have "is_truthy E (VBool b) = b" for E b by (subst is_truthy.simps) simp
  then show ?case using an_exit.IH by (simp add: demo_flow_def exit_answer_def)
qed simp

theorem with_exits_witness:
  "print_buffer (fst (eval_with demo_flow (new_state empty_env default_config) [(1, None), (2, Some 0)] [0])) = [2, 1] \<and>
   snd (eval_with demo_flow (new_state empty_env default_config) [(1, None), (2, Some 0)] [0]) = Inr VNone"
proof -
  let ?s = "new_state empty_env default_config"
  have enter: "enter_all demo_flow (\<lambda>s cm. fe_context demo_flow s cm ''__enter__'' []) [(1, None), (2, Some 0)] [] ?s = (?s, Inr [VInt 1, VInt 2])"
    by (simp add: demo_flow_def eval_resolved_def)
  have body: "eval_body (fe_eval_stmt demo_flow) ?s [0] = (?s, Inl (Interpreter (TypeError ''body'')))"
    by (simp add: demo_flow_def eval_body_def)
  obtain calls where calls: "exit_run (\<lambda>s cm. fe_context demo_flow s cm ''__exit__'') calls ?s
      (fst (eval_with demo_flow ?s [(1, None), (2, Some 0)] [0]))" "log_managers calls = rev [VInt 1, VInt 2]"
    "snd (eval_with demo_flow ?s [(1, None), (2, Some 0)] [0]) =
       (case exit_outcome (log_answers calls) (pending_error (Inl (Interpreter (TypeError ''body'')) :: pyval eval_result)) of
          Some e \<Rightarrow> Inl e | None \<Rightarrow> Inr VNone)"
    using with_exits [OF enter body] unfolding sum.case eval_error.case by blast
  have "print_buffer ?s = []" by (simp add: new_state_def)
  with demo_exit_run [OF calls(1)] calls(2,3) show ?thesis
    by (simp add: demo_entry_def is_signal_def pending_error_def)
qed

text \<open>A signal of the body also wins over an error that an exit method raises, which is lost.\<close>

lemma with_signal_wins:
  assumes "enter_all F (\<lambda>s cm. fe_context F s cm ''__enter__'' []) items [] s = (s1, Inr managers)"
    and "eval_body (fe_eval_stmt F) s1 body = (s2, Inl (Signal c))"
  shows "snd (eval_with F s items body) = Inl (Signal c)"
proof -
  have "snd (body_then_exit F (\<lambda>s cm. fe_context F s cm ''__exit__'') body s1 managers) = Inl (Signal c)"
    by (rule body_then_exit_run [OF assms(2), of "\<lambda>s cm. fe_context F s cm ''__exit__''" managers]) simp
  then show ?thesis
    using assms(1) by (simp add: eval_with_def)
qed

end
