(* ===== verification/Matching.thy ===== *)
theory Matching
  imports Control_Flow Classes
begin

text \<open>
  Structural pattern matching (\<open>eval/match_stmt.rs\<close>): the match statement and every kind of pattern.  The meaning of a
  pattern is stated by rules, and the code is shown to decide it.  The evaluation of the expressions in a pattern, the
  registry of classes and the choice of an address for a new list or dictionary are parameters.
\<close>

section \<open>Patterns\<close>

datatype class_expr = ClassName string | ClassAttribute string | OtherClass

datatype 'expr pattern =
    MatchValue 'expr
  | MatchSingleton pyval
  | MatchSequence "'expr pattern list"
  | MatchMapping "('expr \<times> 'expr pattern) list" "string option"
  | MatchClass class_expr "'expr pattern list" "(string \<times> 'expr pattern) list"
  | MatchStar "string option"
  | MatchAs "'expr pattern option" "string option"
  | MatchOr "'expr pattern list"

text \<open>Besides the evaluation of expressions, matching needs the registry of classes, the hash of names in keys, and an address
  for a list or dictionary it makes.\<close>

record ('stmt, 'expr, 'target) match_env =
  me_flow :: "('stmt, 'expr, 'target) flow_env"
  me_classes :: "interp_state \<Rightarrow> registry"
  me_runtime :: runtime
  me_fresh :: "interp_state \<Rightarrow> addr"

type_synonym bindings = "(string \<times> pyval) list"
type_synonym match_result = "interp_state \<times> (bool \<times> bindings) eval_result"
type_synonym 'expr matcher = "interp_state \<Rightarrow> 'expr pattern \<Rightarrow> pyval \<Rightarrow> bindings \<Rightarrow> match_result"

section \<open>Class patterns\<close>

definition subject_is_instance_of :: "registry \<Rightarrow> pyval \<Rightarrow> string \<Rightarrow> bool" where
  "subject_is_instance_of G obj name =
     (if name = ''object'' then True
      else case obj of
        VInstance c a \<Rightarrow> c = name \<or> (case G c of Some cv \<Rightarrow> name \<in> set (c_mro cv) | None \<Rightarrow> False)
      | _ \<Rightarrow> type_name obj = name \<or> (case obj of VBool b \<Rightarrow> name = ''int'' | VCounter m \<Rightarrow> name = ''dict'' | _ \<Rightarrow> False))"

primrec match_arg_names :: "string \<Rightarrow> pyval list \<Rightarrow> pystr list eval_result" where
  "match_arg_names c [] = Inr []"
| "match_arg_names c (v # vs) = (case v of
     VString s \<Rightarrow> result_bind (match_arg_names c vs) (\<lambda>names. Inr (s # names))
   | _ \<Rightarrow> Inl (Interpreter (TypeError (c @ ''.__match_args__ entries must be strings (got '' @ quoted (type_name v) @ '')''))))"

definition lookup_match_args :: "registry \<Rightarrow> string \<Rightarrow> pystr list eval_result" where
  "lookup_match_args G c = (case G c of
       None \<Rightarrow> Inr []
     | Some cv \<Rightarrow> (case c_attrs cv ''__match_args__'' of
         None \<Rightarrow> Inr []
       | Some (VTuple items) \<Rightarrow> match_arg_names c items
       | Some v \<Rightarrow> Inl (Interpreter (TypeError (c @ ''.__match_args__ must be a tuple (got '' @ quoted (type_name v) @ '')'')))))"

definition date_attribute :: "naive_date \<Rightarrow> string \<Rightarrow> pyval eval_result" where
  "date_attribute d attr =
     (if attr = ''year'' then Inr (VInt (word_of_int (year d)))
      else if attr = ''month'' then Inr (VInt (of_nat (month d)))
      else if attr = ''day'' then Inr (VInt (of_nat (day d)))
      else Inl (Interpreter (AttributeError (quoted ''date'' @ '' object has no attribute '' @ quoted attr))))"

definition lookup_attribute_for_match :: "registry \<Rightarrow> env \<Rightarrow> pyval \<Rightarrow> string \<Rightarrow> pyval eval_result" where
  "lookup_attribute_for_match G E subject attr = (case subject of
       VInstance c a \<Rightarrow> instance_attribute G c (map_of (fields_at E a)) attr
     | VDate d \<Rightarrow> date_attribute d attr
     | _ \<Rightarrow> Inl (Interpreter (AttributeError (quoted (type_name subject) @ '' object has no attribute '' @ quoted attr))))"

definition builtin_single_positional :: "string \<Rightarrow> bool" where
  "builtin_single_positional c \<longleftrightarrow> c \<in> {''int'', ''str'', ''float'', ''bool'', ''bytes'', ''bytearray'', ''dict'', ''frozenset'', ''list'', ''set'', ''tuple'', ''Counter''}"

section \<open>Matching\<close>

text \<open>The loops over sub-patterns take the function that matches one of them.\<close>

primrec match_items :: "'expr matcher \<Rightarrow> ('expr pattern \<times> pyval) list \<Rightarrow> interp_state \<Rightarrow> bindings \<Rightarrow> match_result" where
  "match_items f [] s b = (s, Inr (True, b))"
| "match_items f (p # ps) s b = eval_bind (f s (fst p) (snd p) b) (\<lambda>s1 (ok, b1).
     if ok then match_items f ps s1 b1 else (s1, Inr (False, b1)))"

primrec match_alternatives :: "'expr matcher \<Rightarrow> 'expr pattern list \<Rightarrow> pyval \<Rightarrow> interp_state \<Rightarrow> bindings \<Rightarrow> match_result" where
  "match_alternatives f [] v s b = (s, Inr (False, b))"
| "match_alternatives f (p # ps) v s b = eval_bind (f s p v []) (\<lambda>s1 (ok, alt).
     if ok then (s1, Inr (True, b @ alt)) else match_alternatives f ps v s1 b)"

primrec match_attrs ::
  "'expr matcher \<Rightarrow> (interp_state \<Rightarrow> string \<Rightarrow> pyval eval_result) \<Rightarrow> (string \<times> 'expr pattern) list \<Rightarrow> interp_state \<Rightarrow> bindings \<Rightarrow> match_result" where
  "match_attrs f look [] s b = (s, Inr (True, b))"
| "match_attrs f look (p # ps) s b = (case look s (fst p) of
     Inl e \<Rightarrow> (s, Inl e)
   | Inr v \<Rightarrow> eval_bind (f s (snd p) v b) (\<lambda>s1 (ok, b1).
       if ok then match_attrs f look ps s1 b1 else (s1, Inr (False, b1))))"

definition star_position :: "'expr pattern list \<Rightarrow> nat option" where
  "star_position ps = (let pre = takeWhile (\<lambda>p. case p of MatchStar n \<Rightarrow> False | _ \<Rightarrow> True) ps in
     if length pre < length ps then Some (length pre) else None)"

definition alloc_list :: "('stmt, 'expr, 'target) match_env \<Rightarrow> interp_state \<Rightarrow> pyval list \<Rightarrow> interp_state \<times> pyval" where
  "alloc_list M s xs = (let a = me_fresh M s in (s\<lparr>heap_env := set_list (heap_env s) a xs\<rparr>, VList a))"

definition alloc_dict :: "('stmt, 'expr, 'target) match_env \<Rightarrow> interp_state \<Rightarrow> (value_key \<times> pyval) list \<Rightarrow> interp_state \<times> pyval" where
  "alloc_dict M s m = (let a = me_fresh M s in (s\<lparr>heap_env := set_dict (heap_env s) a m\<rparr>, VDict a))"

definition sequence_items :: "env \<Rightarrow> pyval \<Rightarrow> pyval list option" where
  "sequence_items E v = (case v of VList a \<Rightarrow> Some (list_at E a) | VTuple xs \<Rightarrow> Some xs | _ \<Rightarrow> None)"

definition bind_star :: "('stmt, 'expr, 'target) match_env \<Rightarrow> 'expr pattern \<Rightarrow> pyval list \<Rightarrow> interp_state \<Rightarrow> bindings \<Rightarrow> match_result" where
  "bind_star M p middle s b = (case p of
       MatchStar (Some name) \<Rightarrow> (case alloc_list M s middle of (s1, v) \<Rightarrow> (s1, Inr (True, b @ [(name, v)])))
     | _ \<Rightarrow> (s, Inr (True, b)))"

definition match_sequence ::
  "('stmt, 'expr, 'target) match_env \<Rightarrow> 'expr matcher \<Rightarrow> 'expr pattern list \<Rightarrow> pyval \<Rightarrow> interp_state \<Rightarrow> bindings \<Rightarrow> match_result" where
  "match_sequence M f ps v s b = (case sequence_items (heap_env s) v of
       None \<Rightarrow> (s, Inr (False, b))
     | Some items \<Rightarrow> (case star_position ps of
         None \<Rightarrow> if length items \<noteq> length ps then (s, Inr (False, b)) else match_items f (zip ps items) s b
       | Some star \<Rightarrow>
           let before = take star ps; after = drop (Suc star) ps; after_start = length items - length after in
           if length items < length before + length after then (s, Inr (False, b))
           else eval_bind (match_items f (zip before items) s b) (\<lambda>s1 (ok, b1).
             if \<not> ok then (s1, Inr (False, b1))
             else eval_bind (match_items f (zip after (drop after_start items)) s1 b1) (\<lambda>s2 (ok2, b2).
               if \<not> ok2 then (s2, Inr (False, b2))
               else bind_star M (ps ! star) (drop (length before) (take after_start items)) s2 b2))))"

primrec match_entries ::
  "('stmt, 'expr, 'target) match_env \<Rightarrow> 'expr matcher \<Rightarrow> (value_key \<times> pyval) list \<Rightarrow> ('expr \<times> 'expr pattern) list \<Rightarrow> value_key list \<Rightarrow>
    interp_state \<Rightarrow> bindings \<Rightarrow> interp_state \<times> (bool \<times> value_key list \<times> bindings) eval_result" where
  "match_entries M f m [] matched s b = (s, Inr (True, matched, b))"
| "match_entries M f m (e # es) matched s b =
     eval_bind (fe_eval_expr (me_flow M) s (fst e)) (\<lambda>s1 key_val.
       case value_to_key (name_hash (me_runtime M)) key_val of
         Inl err \<Rightarrow> (s1, Inl err)
       | Inr key \<Rightarrow> (case map_get (heap_env s1) m key of
           None \<Rightarrow> (s1, Inr (False, matched, b))
         | Some v \<Rightarrow> eval_bind (f s1 (snd e) v b) (\<lambda>s2 (ok, b1).
             if ok then match_entries M f m es (matched @ [key]) s2 b1 else (s2, Inr (False, matched, b1)))))"

definition match_mapping ::
  "('stmt, 'expr, 'target) match_env \<Rightarrow> 'expr matcher \<Rightarrow> ('expr \<times> 'expr pattern) list \<Rightarrow> string option \<Rightarrow> pyval \<Rightarrow> interp_state \<Rightarrow> bindings \<Rightarrow> match_result" where
  "match_mapping M f es rest v s b = (case v of
       VDict a \<Rightarrow> (let m = dict_at (heap_env s) a in
         eval_bind (match_entries M f m es [] s b) (\<lambda>s1 (ok, matched, b1).
           if \<not> ok then (s1, Inr (False, b1))
           else (case rest of
               None \<Rightarrow> (s1, Inr (True, b1))
             | Some name \<Rightarrow>
                 (case alloc_dict M s1 (filter (\<lambda>e. \<not> (\<exists>k \<in> set matched. key_eq (heap_env s1) (values_equal (heap_env s1)) k (fst e))) m) of
                    (s2, d) \<Rightarrow> (s2, Inr (True, b1 @ [(name, d)]))))))
     | _ \<Rightarrow> (s, Inr (False, b)))"

primrec match_positional ::
  "'expr matcher \<Rightarrow> string \<Rightarrow> (interp_state \<Rightarrow> string \<Rightarrow> pyval eval_result) \<Rightarrow> string list \<Rightarrow> (string \<times> 'expr pattern) list \<Rightarrow> interp_state \<Rightarrow> bindings \<Rightarrow> match_result" where
  "match_positional f c look kwd [] s b = (s, Inr (True, b))"
| "match_positional f c look kwd (p # ps) s b =
     (if fst p \<in> set kwd then (s, Inl (Interpreter (TypeError (c @ ''() got multiple sub-patterns for attribute '' @ quoted (fst p)))))
      else case look s (fst p) of
        Inl e \<Rightarrow> (s, Inl e)
      | Inr v \<Rightarrow> eval_bind (f s (snd p) v b) (\<lambda>s1 (ok, b1).
          if ok then match_positional f c look kwd ps s1 b1 else (s1, Inr (False, b1))))"

definition too_many_patterns :: "string \<Rightarrow> nat \<Rightarrow> nat \<Rightarrow> eval_error" where
  "too_many_patterns c allowed given =
     Interpreter (TypeError (c @ ''() accepts '' @ nat_digits allowed @ '' positional sub-patterns ('' @ nat_digits given @ '' given)''))"

text \<open>Names of attributes in \<open>__match_args__\<close> are read as text; a code point beyond 255 matches no attribute.\<close>

definition attr_text :: "pystr \<Rightarrow> string" where
  "attr_text s = map (\<lambda>c. if c < 256 then char_of c else CHR 0x00) s"

definition match_class ::
  "('stmt, 'expr, 'target) match_env \<Rightarrow> 'expr matcher \<Rightarrow> class_expr \<Rightarrow> 'expr pattern list \<Rightarrow> (string \<times> 'expr pattern) list \<Rightarrow> pyval \<Rightarrow> interp_state \<Rightarrow> bindings \<Rightarrow> match_result" where
  "match_class M f cls ps kwds v s b =
     (let run = (\<lambda>c.
        let G = me_classes M s; look = (\<lambda>s'. lookup_attribute_for_match (me_classes M s') (heap_env s') v) in
        if \<not> subject_is_instance_of G v c then (s, Inr (False, b))
        else if builtin_single_positional c then
          (if 1 < length ps then (s, Inl (too_many_patterns c 0 (length ps)))
           else eval_bind (match_items f (map (\<lambda>p. (p, v)) (take 1 ps)) s b) (\<lambda>s1 (ok, b1).
             if ok then match_attrs f look kwds s1 b1 else (s1, Inr (False, b1))))
        else eval_bind
          (if ps = [] then (s, Inr (True, b))
           else (case lookup_match_args G c of
               Inl e \<Rightarrow> (s, Inl e)
             | Inr names \<Rightarrow>
                 if length names < length ps then (s, Inl (too_many_patterns c (length names) (length ps)))
                 else match_positional f c look (map fst kwds) (zip (map attr_text names) ps) s b))
          (\<lambda>s1 (ok, b1). if ok then match_attrs f look kwds s1 b1 else (s1, Inr (False, b1)))) in
      case cls of
        ClassName c \<Rightarrow> run c
      | ClassAttribute c \<Rightarrow> run c
      | OtherClass \<Rightarrow> (s, Inl (Interpreter (Runtime ''class pattern class must be a bare name or module attribute''))))"

lemma match_items_cong [fundef_cong]:
  assumes "ps = ps'" "s = s'" "b = b'" "\<And>s p v b. (p, v) \<in> set ps' \<Longrightarrow> f s p v b = g s p v b"
  shows "match_items f ps s b = match_items g ps' s' b'"
  using assms(4) unfolding assms(1-3)
  by (induction ps' arbitrary: s' b') (auto simp: eval_bind_def split: prod.splits sum.splits)

lemma match_alternatives_cong [fundef_cong]:
  assumes "ps = ps'" "v = v'" "s = s'" "b = b'" "\<And>s p v b. p \<in> set ps' \<Longrightarrow> f s p v b = g s p v b"
  shows "match_alternatives f ps v s b = match_alternatives g ps' v' s' b'"
  using assms(5) unfolding assms(1-4)
  by (induction ps' arbitrary: s' b') (auto simp: eval_bind_def split: prod.splits sum.splits)

lemma match_attrs_cong [fundef_cong]:
  assumes "look = look'" "ps = ps'" "s = s'" "b = b'" "\<And>s n p v b. (n, p) \<in> set ps' \<Longrightarrow> f s p v b = g s p v b"
  shows "match_attrs f look ps s b = match_attrs g look' ps' s' b'"
  using assms(5) unfolding assms(1-4)
proof (induction ps' arbitrary: s' b')
  case (Cons p ps)
  have eq: "f s (snd p) v b = g s (snd p) v b" for s v b by (rule Cons.prems [of "fst p"]) simp
  have rest: "match_attrs f look' ps s b = match_attrs g look' ps s b" for s b by (rule Cons.IH, rule Cons.prems, rule list.set_intros(2))
  show ?case unfolding match_attrs.simps eq rest ..
qed simp

lemma match_positional_cong:
  assumes "\<And>s n p v b. (n, p) \<in> set ps \<Longrightarrow> f s p v b = g s p v b"
  shows "match_positional f c look kwd ps s b = match_positional g c look kwd ps s b"
  using assms
proof (induction ps arbitrary: s b)
  case (Cons p ps)
  have eq: "f s (snd p) v b = g s (snd p) v b" for s v b by (rule Cons.prems [of "fst p"]) simp
  have rest: "match_positional f c look kwd ps s b = match_positional g c look kwd ps s b" for s b by (rule Cons.IH, rule Cons.prems, rule list.set_intros(2))
  show ?case unfolding match_positional.simps eq rest ..
qed simp

lemma match_entries_cong:
  assumes "\<And>s e p v b. (e, p) \<in> set es \<Longrightarrow> f s p v b = g s p v b"
  shows "match_entries M f m es matched s b = match_entries M g m es matched s b"
  using assms
proof (induction es arbitrary: matched s b)
  case (Cons e es)
  have eq: "f s (snd e) v b = g s (snd e) v b" for s v b by (rule Cons.prems [of "fst e"]) simp
  have rest: "match_entries M f m es matched s b = match_entries M g m es matched s b" for matched s b
    by (rule Cons.IH, rule Cons.prems, rule list.set_intros(2))
  show ?case unfolding match_entries.simps eq rest ..
qed simp

lemma match_sequence_cong [fundef_cong]:
  assumes "M = M'" "ps = ps'" "v = v'" "s = s'" "b = b'" "\<And>s p v b. p \<in> set ps' \<Longrightarrow> f s p v b = g s p v b"
  shows "match_sequence M f ps v s b = match_sequence M' g ps' v' s' b'"
proof -
  have sub: "match_items f (zip qs xs) t c = match_items g (zip qs xs) t c" if "set qs \<subseteq> set ps'" for qs xs t c
    using that by (intro match_items_cong assms(6)) (auto dest: set_zip_leftD)
  show ?thesis unfolding assms(1-5) match_sequence_def Let_def
    by (simp only: sub [OF set_take_subset] sub [OF set_drop_subset] sub [OF order_refl])
qed

lemma match_mapping_cong [fundef_cong]:
  assumes "M = M'" "es = es'" "rest = rest'" "v = v'" "s = s'" "b = b'" "\<And>s e p v b. (e, p) \<in> set es' \<Longrightarrow> f s p v b = g s p v b"
  shows "match_mapping M f es rest v s b = match_mapping M' g es' rest' v' s' b'"
proof -
  have e: "match_entries M' f m es' matched t c = match_entries M' g m es' matched t c" for m matched t c
    by (rule match_entries_cong) (rule assms(7))
  show ?thesis unfolding assms(1-6) match_mapping_def e ..
qed

lemma match_class_cong [fundef_cong]:
  assumes "M = M'" "cls = cls'" "ps = ps'" "kwds = kwds'" "v = v'" "s = s'" "b = b'"
    "\<And>s p v b. p \<in> set ps' \<Longrightarrow> f s p v b = g s p v b" "\<And>s n p v b. (n, p) \<in> set kwds' \<Longrightarrow> f s p v b = g s p v b"
  shows "match_class M f cls ps kwds v s b = match_class M' g cls' ps' kwds' v' s' b'"
proof -
  have a: "match_attrs f look kwds' t c = match_attrs g look kwds' t c" for look t c
    by (intro match_attrs_cong assms(9) refl)
  have i: "match_items f (map (\<lambda>p. (p, v')) (take n ps')) t c = match_items g (map (\<lambda>p. (p, v')) (take n ps')) t c" for n t c
    by (intro match_items_cong assms(8) refl) (auto dest: in_set_takeD)
  have p: "match_positional f x look kwd (zip names ps') t c = match_positional g x look kwd (zip names ps') t c" for x look kwd names t c
    by (intro match_positional_cong assms(8)) (auto dest: set_zip_rightD)
  show ?thesis unfolding assms(1-7) match_class_def a i p ..
qed

lemma size_sub: "p \<in> set ps \<Longrightarrow> size p \<le> size_list size ps"
  by (induction ps) auto

lemma size_sub_pair: "(n, p) \<in> set ps \<Longrightarrow> size p < Suc (size_list (size_prod (\<lambda>x. 0) size) ps)"
  by (induction ps) auto

function pattern_matches :: "('stmt, 'expr, 'target) match_env \<Rightarrow> 'expr matcher" where
  "pattern_matches M s p v b = (case p of
       MatchValue e \<Rightarrow> eval_bind (fe_eval_expr (me_flow M) s e) (\<lambda>s1 w. (s1, Inr (values_equal (heap_env s1) w v, b)))
     | MatchSingleton c \<Rightarrow> (s, Inr (values_equal (heap_env s) c v, b))
     | MatchAs inner name \<Rightarrow>
         eval_bind (case inner of Some q \<Rightarrow> pattern_matches M s q v b | None \<Rightarrow> (s, Inr (True, b))) (\<lambda>s1 (ok, b1).
           (s1, Inr (ok, if ok then (case name of Some n \<Rightarrow> b1 @ [(n, v)] | None \<Rightarrow> b1) else b1)))
     | MatchOr ps \<Rightarrow> match_alternatives (\<lambda>s q v b. pattern_matches M s q v b) ps v s b
     | MatchSequence ps \<Rightarrow> match_sequence M (\<lambda>s q v b. pattern_matches M s q v b) ps v s b
     | MatchMapping es rest \<Rightarrow> match_mapping M (\<lambda>s q v b. pattern_matches M s q v b) es rest v s b
     | MatchStar n \<Rightarrow> (s, Inr (False, b))
     | MatchClass cls ps kwds \<Rightarrow> match_class M (\<lambda>s q v b. pattern_matches M s q v b) cls ps kwds v s b)"
  by auto

termination
proof (relation "measure (\<lambda>(M, s, p, v, b). size p)", goal_cases)
  case 1 then show ?case by simp
qed (auto simp: less_Suc_eq_le dest!: size_sub size_sub_pair)

declare pattern_matches.simps [simp del]

section \<open>The match statement\<close>

record ('stmt, 'expr) match_case =
  mc_pattern :: "'expr pattern"
  mc_guard :: "'expr option"
  mc_body :: "'stmt list"

primrec bind_all :: "runtime \<Rightarrow> interp_state \<Rightarrow> bindings \<Rightarrow> interp_state \<times> unit eval_result" where
  "bind_all R s [] = (s, Inr ())"
| "bind_all R s (p # ps) = (case set_variable R s (fst p) (snd p) of
     (s1, Inl e) \<Rightarrow> (s1, Inl (Interpreter e))
   | (s1, Inr u) \<Rightarrow> bind_all R s1 ps)"

definition guard_passes :: "('stmt, 'expr, 'target) match_env \<Rightarrow> interp_state \<Rightarrow> 'expr option \<Rightarrow> interp_state \<times> bool eval_result" where
  "guard_passes M s guard = (case guard of
       None \<Rightarrow> (s, Inr True)
     | Some g \<Rightarrow> eval_bind (fe_eval_expr (me_flow M) s g) (truthy (me_flow M)))"

primrec match_cases ::
  "('stmt, 'expr, 'target) match_env \<Rightarrow> ('stmt, 'expr) match_case list \<Rightarrow> pyval \<Rightarrow> interp_state \<Rightarrow> interp_state \<times> pyval eval_result" where
  "match_cases M [] v s = (s, Inr VNone)"
| "match_cases M (c # cs) v s =
     eval_bind (pattern_matches M s (mc_pattern c) v []) (\<lambda>s1 (ok, b).
       if \<not> ok then match_cases M cs v s1
       else eval_bind (bind_all (me_runtime M) s1 b) (\<lambda>s2 _.
         eval_bind (guard_passes M s2 (mc_guard c)) (\<lambda>s3 pass.
           if pass then eval_body (fe_eval_stmt (me_flow M)) s3 (mc_body c) else match_cases M cs v s3)))"

definition eval_match ::
  "('stmt, 'expr, 'target) match_env \<Rightarrow> interp_state \<Rightarrow> 'expr \<Rightarrow> ('stmt, 'expr) match_case list \<Rightarrow> interp_state \<times> pyval eval_result" where
  "eval_match M s subject cases = eval_bind (eval_resolved (me_flow M) s subject) (\<lambda>s1 v. match_cases M cases v s1)"

section \<open>What a pattern means\<close>

text \<open>The sub-patterns of a pattern with the values they are matched against, if the subject has the shape of the pattern.
  The expressions in a pattern denote fixed values here.\<close>

definition key_part :: "('stmt, 'expr, 'target) match_env \<Rightarrow> ('expr \<Rightarrow> pyval) \<Rightarrow> interp_state \<Rightarrow> (value_key \<times> pyval) list \<Rightarrow> 'expr \<Rightarrow> pyval option" where
  "key_part M val s m e = (case value_to_key (name_hash (me_runtime M)) (val e) of Inl err \<Rightarrow> None | Inr key \<Rightarrow> map_get (heap_env s) m key)"

fun pair_up :: "('k \<Rightarrow> pyval option) \<Rightarrow> ('k \<times> 'expr pattern) list \<Rightarrow> ('expr pattern \<times> pyval) list option" where
  "pair_up look [] = Some []"
| "pair_up look ((k, q) # rest) = (case (look k, pair_up look rest) of (Some w, Some pvs) \<Rightarrow> Some ((q, w) # pvs) | _ \<Rightarrow> None)"

definition both_parts :: "'a list option \<Rightarrow> 'a list option \<Rightarrow> 'a list option" where
  "both_parts xs ys = (case (xs, ys) of (Some as, Some bs) \<Rightarrow> Some (as @ bs) | _ \<Rightarrow> None)"

definition sequence_parts :: "'expr pattern list \<Rightarrow> pyval list \<Rightarrow> ('expr pattern \<times> pyval) list option" where
  "sequence_parts ps items = (case star_position ps of
       None \<Rightarrow> if length items = length ps then Some (zip ps items) else None
     | Some k \<Rightarrow> let after = drop (Suc k) ps in
         if length (take k ps) + length after \<le> length items
         then Some (zip (take k ps) items @ zip after (drop (length items - length after) items)) else None)"

definition class_name_of :: "class_expr \<Rightarrow> string option" where
  "class_name_of cls = (case cls of ClassName c \<Rightarrow> Some c | ClassAttribute c \<Rightarrow> Some c | OtherClass \<Rightarrow> None)"

definition attr_of :: "('stmt, 'expr, 'target) match_env \<Rightarrow> interp_state \<Rightarrow> pyval \<Rightarrow> string \<Rightarrow> pyval option" where
  "attr_of M s v name = (case lookup_attribute_for_match (me_classes M s) (heap_env s) v name of Inl e \<Rightarrow> None | Inr w \<Rightarrow> Some w)"

definition class_parts ::
  "('stmt, 'expr, 'target) match_env \<Rightarrow> interp_state \<Rightarrow> string \<Rightarrow> 'expr pattern list \<Rightarrow> (string \<times> 'expr pattern) list \<Rightarrow> pyval \<Rightarrow> ('expr pattern \<times> pyval) list option" where
  "class_parts M s c ps kwds v =
     (if \<not> subject_is_instance_of (me_classes M s) v c then None
      else both_parts
        (if builtin_single_positional c then Some (map (\<lambda>p. (p, v)) (take 1 ps))
         else if ps = [] then Some []
         else (case lookup_match_args (me_classes M s) c of
             Inl e \<Rightarrow> None
           | Inr names \<Rightarrow> pair_up (attr_of M s v) (zip (map attr_text names) ps)))
        (pair_up (attr_of M s v) kwds))"

definition parts ::
  "('stmt, 'expr, 'target) match_env \<Rightarrow> ('expr \<Rightarrow> pyval) \<Rightarrow> interp_state \<Rightarrow> 'expr pattern \<Rightarrow> pyval \<Rightarrow> ('expr pattern \<times> pyval) list option" where
  "parts M val s p v = (case p of
       MatchSequence ps \<Rightarrow> (case sequence_items (heap_env s) v of None \<Rightarrow> None | Some items \<Rightarrow> sequence_parts ps items)
     | MatchMapping es rest \<Rightarrow> (case v of VDict a \<Rightarrow> pair_up (key_part M val s (dict_at (heap_env s) a)) es | _ \<Rightarrow> None)
     | MatchClass cls ps kwds \<Rightarrow> (case class_name_of cls of None \<Rightarrow> None | Some c \<Rightarrow> class_parts M s c ps kwds v)
     | _ \<Rightarrow> None)"

text \<open>When a pattern matches a value, and the names it binds, in order.\<close>

inductive denotes :: "('stmt, 'expr, 'target) match_env \<Rightarrow> ('expr \<Rightarrow> pyval) \<Rightarrow> interp_state \<Rightarrow> 'expr pattern \<Rightarrow> pyval \<Rightarrow> bindings \<Rightarrow> bool"
  and denotes_all :: "('stmt, 'expr, 'target) match_env \<Rightarrow> ('expr \<Rightarrow> pyval) \<Rightarrow> interp_state \<Rightarrow> ('expr pattern \<times> pyval) list \<Rightarrow> bindings \<Rightarrow> bool"
  for M val s where
  m_value: "values_equal (heap_env s) (val e) v \<Longrightarrow> denotes M val s (MatchValue e) v []"
| m_singleton: "values_equal (heap_env s) c v \<Longrightarrow> denotes M val s (MatchSingleton c) v []"
| m_wildcard: "denotes M val s (MatchAs None None) v []"
| m_capture: "denotes M val s (MatchAs None (Some n)) v [(n, v)]"
| m_group: "denotes M val s q v b \<Longrightarrow> denotes M val s (MatchAs (Some q) None) v b"
| m_as_name: "denotes M val s q v b \<Longrightarrow> denotes M val s (MatchAs (Some q) (Some n)) v (b @ [(n, v)])"
| m_alternative: "q \<in> set ps \<Longrightarrow> denotes M val s q v b \<Longrightarrow> denotes M val s (MatchOr ps) v b"
| m_composite: "parts M val s p v = Some pvs \<Longrightarrow> denotes_all M val s pvs b \<Longrightarrow> denotes M val s p v b"
| m_none: "denotes_all M val s [] []"
| m_some: "denotes M val s q w b \<Longrightarrow> denotes_all M val s pvs c \<Longrightarrow> denotes_all M val s ((q, w) # pvs) (b @ c)"

inductive_simps denotes_value [simp]: "denotes M val s (MatchValue e) v b"
inductive_simps denotes_singleton [simp]: "denotes M val s (MatchSingleton c) v b"
inductive_simps denotes_as [simp]: "denotes M val s (MatchAs q n) v b"
inductive_simps denotes_or [simp]: "denotes M val s (MatchOr ps) v b"
inductive_simps denotes_star [simp]: "denotes M val s (MatchStar n) v b"
inductive_simps denotes_composite:
  "denotes M val s (MatchSequence ps) v b" "denotes M val s (MatchMapping es rest) v b" "denotes M val s (MatchClass cls ps kwds) v b"
inductive_simps denotes_nil [simp]: "denotes_all M val s [] b"
inductive_simps denotes_cons [simp]: "denotes_all M val s (p # ps) b"

lemma parts_none [simp]: "parts M val s (MatchValue e) v = None" "parts M val s (MatchSingleton c) v = None"
  "parts M val s (MatchAs q n) v = None" "parts M val s (MatchOr ps) v = None" "parts M val s (MatchStar n) v = None"
  by (simp_all add: parts_def)

lemma denotes_append:
  "denotes_all M val s (xs @ ys) b \<longleftrightarrow> (\<exists>c d. b = c @ d \<and> denotes_all M val s xs c \<and> denotes_all M val s ys d)"
proof (induction xs arbitrary: b)
  case (Cons p xs)
  show ?case
    by (auto simp: Cons.IH) (metis append_assoc)+
qed simp

text \<open>What matching reads of the state: the heap and the classes.  The evaluation of an expression may change the rest (it
  counts an operation, for one).\<close>

definition same_view :: "('stmt, 'expr, 'target) match_env \<Rightarrow> interp_state \<Rightarrow> interp_state \<Rightarrow> bool" where
  "same_view M s t \<longleftrightarrow> heap_env t = heap_env s \<and> me_classes M t = me_classes M s"

lemma same_view_refl [simp]: "same_view M s s"
  by (simp add: same_view_def)

text \<open>The expressions of patterns have fixed values: where an evaluation succeeds it gives the value of the expression and
  leaves the heap and the classes alone.\<close>

definition stable_exprs :: "('stmt, 'expr, 'target) match_env \<Rightarrow> ('expr \<Rightarrow> pyval) \<Rightarrow> interp_state \<Rightarrow> bool" where
  "stable_exprs M val s \<longleftrightarrow> (\<forall>t e t' w. same_view M s t \<longrightarrow> fe_eval_expr (me_flow M) t e = (t', Inr w) \<longrightarrow>
     w = val e \<and> same_view M s t')"

text \<open>The result of matching, compared with the meaning of the sub-patterns.\<close>

definition decides ::
  "('stmt, 'expr, 'target) match_env \<Rightarrow> ('expr \<Rightarrow> pyval) \<Rightarrow> interp_state \<Rightarrow> bindings \<Rightarrow> ('expr pattern \<times> pyval) list option \<Rightarrow> match_result \<Rightarrow> bool" where
  "decides M val s b X r \<longleftrightarrow> (\<forall>s' ok b'. r = (s', Inr (ok, b')) \<longrightarrow> same_view M s s' \<and>
     (if ok then \<exists>pvs c. X = Some pvs \<and> b' = b @ c \<and> denotes_all M val s pvs c
      else \<forall>pvs c. X = Some pvs \<longrightarrow> \<not> denotes_all M val s pvs c))"

definition decided ::
  "('stmt, 'expr, 'target) match_env \<Rightarrow> ('expr \<Rightarrow> pyval) \<Rightarrow> interp_state \<Rightarrow> 'expr matcher \<Rightarrow> 'expr pattern \<Rightarrow> bool" where
  "decided M val s f q \<longleftrightarrow> (\<forall>t v b. same_view M s t \<longrightarrow> decides M val s b (Some [(q, v)]) (f t q v b))"

lemma decides_error [simp]: "decides M val s b X (s', Inl e)"
  by (simp add: decides_def)

lemma decides_no [simp]: "same_view M s t \<Longrightarrow> decides M val s b None (t, Inr (False, b'))"
  by (simp add: decides_def)

lemma decides_bind:
  assumes "decides M val s b X r" "\<And>t b1. same_view M s t \<Longrightarrow> decides M val s b1 Y (g t b1)"
  shows "decides M val s b (both_parts X Y) (eval_bind r (\<lambda>s1 (ok, b1). if ok then g s1 b1 else (s1, Inr (False, b1))))"
proof (cases r)
  case (Pair s1 res)
  show ?thesis
  proof (cases res)
    case (Inr p)
    obtain ok b1 where p: "p = (ok, b1)" by (cases p)
    have "same_view M s s1 \<and> (if ok then \<exists>pvs c. X = Some pvs \<and> b1 = b @ c \<and> denotes_all M val s pvs c
        else \<forall>pvs c. X = Some pvs \<longrightarrow> \<not> denotes_all M val s pvs c)"
      using assms(1) unfolding decides_def Pair Inr p by blast
    note first = conjunct1 [OF this] conjunct2 [OF this]
    show ?thesis
    proof (cases ok)
      case True
      then obtain pvs c where X: "X = Some pvs" "b1 = b @ c" "denotes_all M val s pvs c" using first by auto
      have r: "eval_bind r (\<lambda>s1 (ok, b1). if ok then g s1 b1 else (s1, Inr (False, b1))) = g s1 b1"
        using True by (simp add: Pair Inr p first)
      show ?thesis unfolding r decides_def
      proof (intro allI impI)
        fix s' ok2 b2 assume "g s1 b1 = (s', Inr (ok2, b2))"
        then have second: "same_view M s s' \<and> (if ok2 then \<exists>qs d. Y = Some qs \<and> b2 = b1 @ d \<and> denotes_all M val s qs d
            else \<forall>qs d. Y = Some qs \<longrightarrow> \<not> denotes_all M val s qs d)"
          using assms(2) [OF first(1), of b1] unfolding decides_def by blast
        show "same_view M s s' \<and> (if ok2 then \<exists>pvs c. both_parts X Y = Some pvs \<and> b2 = b @ c \<and> denotes_all M val s pvs c
            else \<forall>pvs c. both_parts X Y = Some pvs \<longrightarrow> \<not> denotes_all M val s pvs c)"
        proof (cases ok2)
          case True
          then obtain qs d where "Y = Some qs" "b2 = b1 @ d" "denotes_all M val s qs d" using second by auto
          then have "both_parts X Y = Some (pvs @ qs) \<and> b2 = b @ (c @ d) \<and> denotes_all M val s (pvs @ qs) (c @ d)"
            using X by (auto simp: both_parts_def denotes_append)
          then show ?thesis using second True by auto
        next
          case False
          then show ?thesis using second X by (auto simp: both_parts_def denotes_append split: option.splits)
        qed
      qed
    next
      case False
      then show ?thesis using first
        by (auto simp: decides_def Pair Inr p both_parts_def denotes_append split: option.splits)
    qed
  qed (simp add: Pair)
qed

lemma decided_items:
  "\<forall>(q, w) \<in> set pvs. decided M val s f q \<Longrightarrow> same_view M s t \<Longrightarrow> decides M val s b (Some pvs) (match_items f pvs t b)"
proof (induction pvs arbitrary: t b)
  case Nil
  then show ?case by (simp add: decides_def)
next
  case (Cons p pvs)
  have "decides M val s b (Some [p]) (f t (fst p) (snd p) b)"
    using Cons.prems by (cases p) (simp add: decided_def)
  from decides_bind [OF this, of "Some pvs" "match_items f pvs"] Cons show ?case by (simp add: both_parts_def)
qed

lemma decides_look:
  assumes "\<And>w. look k = Some w \<Longrightarrow> decides M val s b (Some [(q, w)]) (r w)" "\<And>t b1. same_view M s t \<Longrightarrow> decides M val s b1 Y (g t b1)"
    "look k = None \<Longrightarrow> Z = None" "\<And>w. look k = Some w \<Longrightarrow> Z = both_parts (Some [(q, w)]) Y"
    "\<And>w. look k = Some w \<Longrightarrow> R = eval_bind (r w) (\<lambda>s1 (ok, b1). if ok then g s1 b1 else (s1, Inr (False, b1)))"
    "look k = None \<Longrightarrow> (\<exists>e s1. R = (s1, Inl e)) \<or> (\<exists>s1 b1. R = (s1, Inr (False, b1)) \<and> same_view M s s1)"
  shows "decides M val s b Z R"
proof (cases "look k")
  case None
  then show ?thesis using assms(3,6) by auto
next
  case (Some w)
  then show ?thesis using decides_bind [where g = g, OF assms(1) [OF Some] assms(2)] assms(4,5) by simp
qed

lemma pair_up_Cons:
  "look k = None \<Longrightarrow> pair_up look ((k, q) # ps) = None"
  "look k = Some w \<Longrightarrow> pair_up look ((k, q) # ps) = both_parts (Some [(q, w)]) (pair_up look ps)"
  by (auto simp: both_parts_def split: option.splits)

lemma decided_attrs:
  assumes "\<And>t n. same_view M s t \<Longrightarrow> look t n = (case look' n of Some w \<Rightarrow> Inr w | None \<Rightarrow> Inl (err n))" "\<forall>(n, q) \<in> set kwds. decided M val s f q" "same_view M s t"
  shows "decides M val s b (pair_up look' kwds) (match_attrs f look kwds t b)"
  using assms(2,3)
proof (induction kwds arbitrary: t b)
  case (Cons p kwds)
  obtain n q where p: "p = (n, q)" by (cases p)
  show ?case unfolding p
  proof (rule decides_look [where look = look' and k = n and q = q and r = "\<lambda>w. f t q w b" and Y = "pair_up look' kwds" and g = "match_attrs f look kwds"])
    show "decides M val s b (Some [(q, w)]) (f t q w b)" for w using Cons.prems p by (simp add: decided_def)
    show "decides M val s b1 (pair_up look' kwds) (match_attrs f look kwds t b1)" if "same_view M s t" for t b1
    using Cons that by simp
  qed (simp_all add: assms(1) [OF Cons.prems(2)] pair_up_Cons del: pair_up.simps)
qed (simp add: decides_def)

lemma decided_positional:
  assumes "\<And>t n. same_view M s t \<Longrightarrow> look t n = (case look' n of Some w \<Rightarrow> Inr w | None \<Rightarrow> Inl (err n))" "\<forall>(n, q) \<in> set ps. decided M val s f q" "same_view M s t"
  shows "decides M val s b (pair_up look' ps) (match_positional f c look kwd ps t b)"
  using assms(2,3)
proof (induction ps arbitrary: t b)
  case (Cons p ps)
  obtain n q where p: "p = (n, q)" by (cases p)
  show ?case
  proof (cases "n \<in> set kwd")
    case False
    show ?thesis unfolding p
    proof (rule decides_look [where look = look' and k = n and q = q and r = "\<lambda>w. f t q w b" and Y = "pair_up look' ps" and g = "match_positional f c look kwd ps"])
      show "decides M val s b (Some [(q, w)]) (f t q w b)" for w using Cons.prems p by (simp add: decided_def)
      show "decides M val s b1 (pair_up look' ps) (match_positional f c look kwd ps t b1)" if "same_view M s t" for t b1
      using Cons that by simp
    qed (simp_all add: assms(1) [OF Cons.prems(2)] pair_up_Cons False del: pair_up.simps)
  qed (simp add: p)
qed (simp add: decides_def)

definition drop_keys :: "interp_state \<times> (bool \<times> value_key list \<times> bindings) eval_result \<Rightarrow> match_result" where
  "drop_keys r = eval_bind r (\<lambda>s1 (ok, ks, b). (s1, Inr (ok, b)))"

lemma drop_keys_bind:
  "drop_keys (eval_bind r (\<lambda>s1 (ok, b). if ok then h s1 b else (s1, Inr (False, ks, b)))) =
    eval_bind r (\<lambda>s1 (ok, b). if ok then drop_keys (h s1 b) else (s1, Inr (False, b)))"
  by (auto simp: drop_keys_def eval_bind_def split: prod.splits sum.splits)

lemma decided_entries:
  assumes "stable_exprs M val s" "\<forall>(e, q) \<in> set es. decided M val s f q" "same_view M s t"
  shows "decides M val s b (pair_up (key_part M val s m) es) (drop_keys (match_entries M f m es matched t b))"
  using assms(2,3)
proof (induction es arbitrary: t b matched)
  case (Cons p es)
  obtain e q where p: "p = (e, q)" by (cases p)
  obtain t1 r where ev: "fe_eval_expr (me_flow M) t e = (t1, r)" by fastforce
  let ?key = "value_to_key (name_hash (me_runtime M)) (val e)"
  show ?case
  proof (cases r)
    case (Inr w0)
    have w0: "w0 = val e" and t1: "same_view M s t1"
      using assms(1) Cons.prems(2) ev Inr unfolding stable_exprs_def by blast+
    then have env: "heap_env t1 = heap_env s" by (simp add: same_view_def)
    show ?thesis unfolding p
    proof (rule decides_look [where look = "key_part M val s m" and k = e and q = q and r = "\<lambda>w. f t1 q w b" and
          Y = "pair_up (key_part M val s m) es" and
          g = "\<lambda>s1 b1. drop_keys (match_entries M f m es (matched @ [projr ?key]) s1 b1)"])
      show "decides M val s b (Some [(q, w)]) (f t1 q w b)" for w using Cons.prems p t1 by (simp add: decided_def)
      show "decides M val s b1 (pair_up (key_part M val s m) es) (drop_keys (match_entries M f m es (matched @ [projr ?key]) t b1))"
        if "same_view M s t" for t b1
        using Cons that by simp
      show "drop_keys (match_entries M f m ((e, q) # es) matched t b) =
          eval_bind (f t1 q w b) (\<lambda>s1 (ok, b1). if ok then drop_keys (match_entries M f m es (matched @ [projr ?key]) s1 b1) else (s1, Inr (False, b1)))"
        if found: "key_part M val s m e = Some w" for w
      proof -
        obtain key where key: "?key = Inr key" "map_get (heap_env s) m key = Some w"
          using found by (cases ?key) (auto simp: key_part_def)
        have "projr ?key = key" by (simp add: key)
        then show ?thesis by (simp only:) (simp add: key ev Inr w0 env drop_keys_bind)
      qed
      show "(\<exists>err s1. drop_keys (match_entries M f m ((e, q) # es) matched t b) = (s1, Inl err)) \<or>
          (\<exists>s1 b1. drop_keys (match_entries M f m ((e, q) # es) matched t b) = (s1, Inr (False, b1)) \<and> same_view M s s1)"
        if "key_part M val s m e = None"
        using that t1 by (cases ?key) (simp_all add: ev Inr w0 env key_part_def drop_keys_def)
    qed (simp_all add: pair_up_Cons del: pair_up.simps)
  qed (simp add: p ev drop_keys_def)
qed (simp add: decides_def drop_keys_def)

lemma bind_assoc_match:
  "eval_bind (drop_keys r) (\<lambda>s1 (ok, b1). if ok then (s1, Inr (True, b1)) else (s1, Inr (False, b1))) = drop_keys r"
  by (auto simp: drop_keys_def eval_bind_def split: prod.splits sum.splits)

lemma decided_mapping:
  assumes "stable_exprs M val s" "\<forall>(e, q) \<in> set es. decided M val s f q" "same_view M s t"
  shows "decides M val s b (parts M val s (MatchMapping es None) v) (match_mapping M f es None v t b)"
proof (cases "\<exists>a. v = VDict a")
  case True
  then obtain a where v: "v = VDict a" by blast
  have "match_mapping M f es None v t b = drop_keys (match_entries M f (dict_at (heap_env t) a) es [] t b)"
    by (auto simp: match_mapping_def v drop_keys_def eval_bind_def split: prod.splits sum.splits)
  moreover have "heap_env t = heap_env s" using assms(3) by (simp add: same_view_def)
  ultimately show ?thesis using decided_entries [OF assms] by (simp add: parts_def v)
next
  case False
  then have "match_mapping M f es None v t b = (t, Inr (False, b))" "parts M val s (MatchMapping es None) v = None"
    by (cases v; simp add: match_mapping_def parts_def)+
  then show ?thesis using assms(3) by simp
qed

lemma bind_ok: "eval_bind r (\<lambda>s1 (ok, b1). if \<not> ok then (s1, Inr (False, b1)) else (s1, Inr (True, b1))) = r"
  by (auto simp: eval_bind_def split: prod.splits sum.splits)

lemma decided_sequence:
  assumes "\<forall>q \<in> set ps. decided M val s f q" "\<forall>n. MatchStar (Some n) \<notin> set ps"
    "same_view M s t"
  shows "decides M val s b (parts M val s (MatchSequence ps) v) (match_sequence M f ps v t b)"
proof (cases "sequence_items (heap_env s) v")
  case None
  then show ?thesis using assms(3) by (simp add: parts_def match_sequence_def same_view_def)
next
  case (Some items)
  have env: "heap_env t = heap_env s" using assms(3) by (simp add: same_view_def)
  have dec: "decides M val s c (Some (zip qs xs)) (match_items f (zip qs xs) u c)" if "set qs \<subseteq> set ps" "same_view M s u" for qs xs u c
    using assms(1) that by (intro decided_items) (auto dest!: set_zip_leftD)
  show ?thesis
  proof (cases "star_position ps")
    case None
    then show ?thesis using dec [OF order_refl assms(3)] Some assms(3)
      by (simp add: parts_def match_sequence_def sequence_parts_def env)
  next
    case (Some k)
    let ?before = "take k ps" and ?after = "drop (Suc k) ps"
    let ?tail = "drop (length items - length ?after) items"
    have "k < length ps" using Some by (auto simp: star_position_def Let_def split: if_splits)
    then have star: "bind_star M (ps ! k) middle s2 b2 = (s2, Inr (True, b2))" for middle s2 b2
    proof -
      have "ps ! k \<noteq> MatchStar (Some n)" for n using assms(2) nth_mem [OF \<open>k < length ps\<close>] by metis
      then show ?thesis by (auto simp: bind_star_def split: pattern.splits option.splits)
    qed
    have shape: "match_sequence M f ps v t b =
        (if length items < length ?before + length ?after then (t, Inr (False, b))
         else eval_bind (match_items f (zip ?before items) t b) (\<lambda>s1 (ok, b1). if ok then match_items f (zip ?after ?tail) s1 b1 else (s1, Inr (False, b1))))"
      by (auto simp: match_sequence_def env \<open>sequence_items (heap_env s) v = Some items\<close> Some Let_def star eval_bind_def
          split: prod.splits sum.splits)
    have both: "both_parts (Some (zip ?before items)) (Some (zip ?after ?tail)) = Some (zip ?before items @ zip ?after ?tail)"
      by (simp add: both_parts_def)
    have "decides M val s b (Some (zip ?before items @ zip ?after ?tail))
        (eval_bind (match_items f (zip ?before items) t b) (\<lambda>s1 (ok, b1). if ok then match_items f (zip ?after ?tail) s1 b1 else (s1, Inr (False, b1))))"
      unfolding both [symmetric]
      by (rule decides_bind [where g = "match_items f (zip ?after ?tail)"])
        (rule dec set_take_subset set_drop_subset assms(3) | assumption)+
    then show ?thesis
      using \<open>sequence_items (heap_env s) v = Some items\<close> Some
      by (cases "length items < length ?before + length ?after")
        (simp_all only: shape parts_def pattern.case option.case sequence_parts_def Let_def not_less [symmetric] if_True if_False not_False_eq_True not_True_eq_False decides_no [OF assms(3)])
  qed
qed

lemma attr_look: "lookup_attribute_for_match (me_classes M s) (heap_env s) v n =
    (case attr_of M s v n of Some w \<Rightarrow> Inr w | None \<Rightarrow> Inl (projl (lookup_attribute_for_match (me_classes M s) (heap_env s) v n)))"
  by (simp add: attr_of_def split: sum.splits)

lemma decided_class:
  assumes "\<forall>q \<in> set ps. decided M val s f q" "\<forall>(n, q) \<in> set kwds. decided M val s f q"
    "same_view M s t"
  shows "decides M val s b (parts M val s (MatchClass cls ps kwds) v) (match_class M f cls ps kwds v t b)"
proof (cases "class_name_of cls")
  case None
  then have "cls = OtherClass" by (cases cls) (simp_all add: class_name_of_def)
  then show ?thesis by (simp add: match_class_def)
next
  case (Some c)
  have view: "heap_env t = heap_env s" "me_classes M t = me_classes M s" using assms(3) by (simp_all add: same_view_def)
  have look: "lookup_attribute_for_match (me_classes M u) (heap_env u) v n =
      (case attr_of M s v n of Some w \<Rightarrow> Inr w | None \<Rightarrow> Inl (projl (lookup_attribute_for_match (me_classes M s) (heap_env s) v n)))"
    if "same_view M s u" for u n
    using that attr_look [of M s v n] by (simp add: same_view_def)
  let ?look = "\<lambda>s'. lookup_attribute_for_match (me_classes M s') (heap_env s') v" and ?G = "me_classes M s"
  define first where "first = (if builtin_single_positional c then
        (if 1 < length ps then (t, Inl (too_many_patterns c 0 (length ps))) else match_items f (map (\<lambda>p. (p, v)) (take 1 ps)) t b)
      else if ps = [] then (t, Inr (True, b))
      else (case lookup_match_args ?G c of
          Inl e \<Rightarrow> (t, Inl e)
        | Inr names \<Rightarrow> if length names < length ps then (t, Inl (too_many_patterns c (length names) (length ps)))
            else match_positional f c ?look (map fst kwds) (zip (map attr_text names) ps) t b))"
  define X where "X = (if builtin_single_positional c then Some (map (\<lambda>p. (p, v)) (take 1 ps))
      else if ps = [] then Some []
      else (case lookup_match_args ?G c of Inl e \<Rightarrow> None | Inr names \<Rightarrow> pair_up (attr_of M s v) (zip (map attr_text names) ps)))"
  have run: "match_class M f cls ps kwds v t b = (if \<not> subject_is_instance_of ?G v c then (t, Inr (False, b))
      else eval_bind first (\<lambda>s1 (ok, b1). if ok then match_attrs f ?look kwds s1 b1 else (s1, Inr (False, b1))))"
    using Some by (cases cls) (simp_all add: match_class_def class_name_of_def first_def view Let_def)
  have items: "decides M val s b (Some (map (\<lambda>p. (p, v)) (take 1 ps))) (match_items f (map (\<lambda>p. (p, v)) (take 1 ps)) t b)"
    using assms(1,3) by (intro decided_items) (auto dest: in_set_takeD)
  have positional: "decides M val s b (pair_up (attr_of M s v) (zip (map attr_text names) ps))
      (match_positional f c ?look (map fst kwds) (zip (map attr_text names) ps) t b)" for names
    using assms(1,3) by (intro decided_positional [OF look]) (auto dest!: set_zip_rightD)
  have "decides M val s b X first"
    using items positional assms(3) by (auto simp: X_def first_def decides_def [of M val s b "Some []"] split: sum.splits)
  moreover have "decides M val s b1 (pair_up (attr_of M s v) kwds) (match_attrs f ?look kwds u b1)"
    if "same_view M s u" for u b1
    using that by (intro decided_attrs [OF look assms(2)])
  ultimately have "decides M val s b (both_parts X (pair_up (attr_of M s v) kwds))
      (eval_bind first (\<lambda>s1 (ok, b1). if ok then match_attrs f ?look kwds s1 b1 else (s1, Inr (False, b1))))"
    by (rule decides_bind [where g = "match_attrs f ?look kwds"])
  then show ?thesis using Some assms(3) unfolding run by (simp add: parts_def class_parts_def X_def)
qed

text \<open>Patterns that make no list or dictionary of their own.\<close>

fun static :: "'expr pattern \<Rightarrow> bool" where
  "static (MatchAs (Some q) n) = static q"
| "static (MatchOr ps) = (\<forall>q \<in> set ps. static q)"
| "static (MatchSequence ps) = ((\<forall>q \<in> set ps. static q) \<and> (\<forall>n. MatchStar (Some n) \<notin> set ps))"
| "static (MatchMapping es rest) = ((\<forall>e \<in> set es. static (snd e)) \<and> rest = None)"
| "static (MatchClass cls ps kwds) = ((\<forall>q \<in> set ps. static q) \<and> (\<forall>e \<in> set kwds. static (snd e)))"
| "static p = True"

lemma single_part: "denotes_all M val s [(q, v)] b \<longleftrightarrow> denotes M val s q v b"
  by simp

lemma composite_part:
  "denotes M val s (MatchSequence ps) v b \<longleftrightarrow> (\<exists>pvs. parts M val s (MatchSequence ps) v = Some pvs \<and> denotes_all M val s pvs b)"
  "denotes M val s (MatchMapping es rest) v b \<longleftrightarrow> (\<exists>pvs. parts M val s (MatchMapping es rest) v = Some pvs \<and> denotes_all M val s pvs b)"
  "denotes M val s (MatchClass cls ps kwds) v b \<longleftrightarrow> (\<exists>pvs. parts M val s (MatchClass cls ps kwds) v = Some pvs \<and> denotes_all M val s pvs b)"
  by (simp_all add: denotes_composite)

lemma decides_composite:
  assumes "decides M val s b (parts M val s p v) r" "\<And>b. denotes M val s p v b \<longleftrightarrow> (\<exists>pvs. parts M val s p v = Some pvs \<and> denotes_all M val s pvs b)"
  shows "decides M val s b (Some [(p, v)]) r"
  using assms(1) unfolding decides_def option.inject single_part by (fastforce simp: assms(2))

lemma decided_alternatives:
  assumes "\<forall>q \<in> set ps. decided M val s f q" "same_view M s t"
  shows "\<forall>s' ok b'. match_alternatives f ps v t b = (s', Inr (ok, b')) \<longrightarrow> same_view M s s' \<and>
    (if ok then \<exists>q c. q \<in> set ps \<and> b' = b @ c \<and> denotes M val s q v c else \<forall>q c. q \<in> set ps \<longrightarrow> \<not> denotes M val s q v c)"
  using assms
proof (induction ps arbitrary: t)
  case (Cons p ps)
  have p: "decides M val s [] (Some [(p, v)]) (f t p v [])" using Cons.prems by (simp add: decided_def)
  show ?case
  proof (cases "f t p v []")
    case (Pair s1 res)
    show ?thesis
    proof (cases res)
      case (Inr r)
      obtain ok c where r: "r = (ok, c)" by (cases r)
      have first: "same_view M s s1 \<and> (if ok then denotes M val s p v c else \<forall>c. \<not> denotes M val s p v c)"
        using p unfolding decides_def Pair Inr r option.inject by (auto split: if_splits)
      show ?thesis
      proof (cases ok)
        case True
        then show ?thesis using first by (auto simp: Pair Inr r)
      next
        case False
        have "\<forall>q \<in> set ps. decided M val s f q" using Cons.prems by simp
        note rest = Cons.IH [OF this, of s1]
        have eq: "match_alternatives f (p # ps) v t b = match_alternatives f ps v s1 b"
          using first False by (simp add: Pair Inr r)
        show ?thesis unfolding eq
        proof (intro allI impI)
          fix s' ok2 b2 assume "match_alternatives f ps v s1 b = (s', Inr (ok2, b2))"
          then have "same_view M s s' \<and> (if ok2 then \<exists>q c. q \<in> set ps \<and> b2 = b @ c \<and> denotes M val s q v c
              else \<forall>q c. q \<in> set ps \<longrightarrow> \<not> denotes M val s q v c)" using rest first by blast
          then show "same_view M s s' \<and> (if ok2 then \<exists>q c. q \<in> set (p # ps) \<and> b2 = b @ c \<and> denotes M val s q v c
              else \<forall>q c. q \<in> set (p # ps) \<longrightarrow> \<not> denotes M val s q v c)"
            using first False by (cases ok2) auto
        qed
      qed
    qed (simp add: Pair)
  qed
qed simp

lemma decided_pattern:
  assumes "stable_exprs M val s" "static p"
  shows "decided M val s (pattern_matches M) p"
  using assms(2)
proof (induction p)
  case (MatchAs inner n)
  show ?case
  proof (cases inner)
    case None
    then show ?thesis by (auto simp: decided_def decides_def pattern_matches.simps [of M t "MatchAs None k" for t k] split: option.splits)
  next
    case (Some q)
    then have "decided M val s (pattern_matches M) q" using MatchAs by simp
    then have q: "decides M val s b (Some [(q, v)]) (pattern_matches M t q v b)" if "same_view M s t" for t v b
      using that by (simp add: decided_def)
    show ?thesis unfolding decided_def
    proof (intro allI impI)
      fix t v b assume "same_view M s t"
      then show "decides M val s b (Some [(MatchAs inner n, v)]) (pattern_matches M t (MatchAs inner n) v b)"
        using q [of t b v] unfolding decides_def
        by (auto simp: Some pattern_matches.simps [of M t "MatchAs (Some q) n"] eval_bind_def split: prod.splits sum.splits option.splits if_splits)
    qed
  qed
next
  case (MatchOr ps)
  then have ps: "\<forall>q \<in> set ps. decided M val s (pattern_matches M) q" by simp
  show ?case unfolding decided_def decides_def
  proof (intro allI impI)
    fix t v b s' ok b' assume t: "same_view M s t" and "pattern_matches M t (MatchOr ps) v b = (s', Inr (ok, b'))"
    then have "match_alternatives (pattern_matches M) ps v t b = (s', Inr (ok, b'))"
      by (simp add: pattern_matches.simps [of M t "MatchOr ps"])
    then show "same_view M s s' \<and> (if ok then \<exists>pvs c. Some [(MatchOr ps, v)] = Some pvs \<and> b' = b @ c \<and> denotes_all M val s pvs c
        else \<forall>pvs c. Some [(MatchOr ps, v)] = Some pvs \<longrightarrow> \<not> denotes_all M val s pvs c)"
      using decided_alternatives [OF ps t, of v b] by (auto split: if_splits)
  qed
next
  case (MatchSequence ps)
  then have ps: "\<forall>q \<in> set ps. decided M val s (pattern_matches M) q" "\<forall>n. MatchStar (Some n) \<notin> set ps" by simp_all
  show ?case unfolding decided_def
    using decides_composite [OF decided_sequence [OF ps] composite_part(1)] by (simp add: pattern_matches.simps [of M t "MatchSequence ps" for t])
next
  case (MatchMapping es rest)
  then have es: "\<forall>(e, q) \<in> set es. decided M val s (pattern_matches M) q" and rest: "rest = None"
    by (auto elim!: snds.cases)
  show ?case unfolding decided_def rest
    using decides_composite [OF decided_mapping [OF assms(1) es] composite_part(2)] by (simp add: pattern_matches.simps [of M t "MatchMapping es None" for t])
next
  case (MatchClass cls ps kwds)
  then have ps: "\<forall>q \<in> set ps. decided M val s (pattern_matches M) q" and kwds: "\<forall>(n, q) \<in> set kwds. decided M val s (pattern_matches M) q"
    by (auto elim!: snds.cases)
  show ?case unfolding decided_def
    using decides_composite [OF decided_class [OF ps kwds] composite_part(3)] by (simp add: pattern_matches.simps [of M t "MatchClass cls ps kwds" for t])
next
  case (MatchValue e)
  have "decides M val s b (Some [(MatchValue e, v)]) (pattern_matches M t (MatchValue e) v b)" if t: "same_view M s t" for t v b
  proof -
    obtain t1 r where ev: "fe_eval_expr (me_flow M) t e = (t1, r)" by fastforce
    show ?thesis
    proof (cases r)
      case (Inr w)
      have "w = val e" "same_view M s t1" using assms(1) t ev Inr unfolding stable_exprs_def by blast+
      then show ?thesis by (simp add: pattern_matches.simps ev Inr decides_def same_view_def)
    qed (simp add: pattern_matches.simps ev)
  qed
  then show ?case by (simp add: decided_def)
qed (auto simp: decided_def decides_def same_view_def pattern_matches.simps [of M t "MatchSingleton c" for t c]
    pattern_matches.simps [of M t "MatchStar n" for t n])


text \<open>An evaluator that counts an operation for every expression.\<close>

definition sample_flow :: "(unit, nat, unit) flow_env" where
  "sample_flow = \<lparr>fe_eval_stmt = (\<lambda>s st. (s, Inr VNone)),
     fe_eval_expr = (\<lambda>s e. case increment_ops 0 [] s of
       (s1, Inl err) \<Rightarrow> (s1, Inl (Interpreter err)) | (s1, Inr u) \<Rightarrow> (s1, Inr (VInt (of_nat e)))),
     fe_resolve_proxy = (\<lambda>v. Inr v),
     fe_slot = (\<lambda>s v n. None), fe_assign = (\<lambda>s t v. (s, Inr ())), fe_next = (\<lambda>s v. (s, Inr VNone)), fe_iter = (\<lambda>s v. (s, Inr [])),
     fe_context = (\<lambda>s v n xs. (s, Inr VNone)), fe_drive = (\<lambda>s v. (s, Inr VNone))\<rparr>"

definition sample_match :: "(unit, nat, unit) match_env" where
  "sample_match = \<lparr>me_flow = sample_flow, me_classes = (\<lambda>s. Map.empty), me_runtime = sample_runtime, me_fresh = (\<lambda>s. 0)\<rparr>"

lemma values_equal_top: "values_equal E = values_equal_step E (values_equal_depth E 999)"
  using values_equal_depth.simps(2) [of E 999] by (simp add: fun_eq_iff values_equal_def EQ_RECURSION_LIMIT_def)

lemma sample_stable: "stable_exprs sample_match (\<lambda>e. VInt (of_nat e)) s"
proof -
  have "heap_env s1 = heap_env t" if "increment_ops 0 [] t = (s1, r)" for t s1 r
  proof -
    have "s1 = fst (increment_ops 0 [] t)" using that by simp
    then show ?thesis by (simp add: increment_ops_state)
  qed
  then show ?thesis
    by (auto simp: stable_exprs_def same_view_def sample_match_def sample_flow_def split: prod.splits sum.splits)
qed


text \<open>The bindings of a case are made only after its pattern has matched as a whole; when no case matches, the statement
  changes neither the heap nor the classes and ends with \<open>None\<close>.\<close>

lemma no_case_no_effect:
  assumes "stable_exprs M val s" "same_view M s t"
    "\<forall>c \<in> set cases. static (mc_pattern c) \<and> (\<forall>b. \<not> denotes M val s (mc_pattern c) v b) \<and>
      (\<forall>t. \<exists>s' r. pattern_matches M t (mc_pattern c) v [] = (s', Inr r))"
  shows "\<exists>s'. match_cases M cases v t = (s', Inr VNone) \<and> same_view M s s'"
  using assms(2,3)
proof (induction cases arbitrary: t)
  case (Cons c cases)
  then have "\<exists>s' r. pattern_matches M t (mc_pattern c) v [] = (s', Inr r)" by simp
  then obtain s' ok b where r: "pattern_matches M t (mc_pattern c) v [] = (s', Inr (ok, b))" by force
  have "decides M val s [] (Some [(mc_pattern c, v)]) (pattern_matches M t (mc_pattern c) v [])"
    using decided_pattern [OF assms(1), of "mc_pattern c"] Cons.prems by (simp add: decided_def)
  then have "same_view M s s' \<and> \<not> ok"
    unfolding decides_def r option.inject using Cons.prems by (cases ok) auto
  then show ?case using Cons r by simp
qed simp

text \<open>A singleton pattern compares by equality where Python compares by identity.\<close>

lemma singleton_by_equality: "pattern_matches M s (MatchSingleton (VBool True)) (VInt 1) b = (s, Inr (True, b))"
  by (simp add: pattern_matches.simps values_equal_top values_equal_step_def values_equal_arms_def)

end
