(* ===== verification/Methods.thy ===== *)
theory Methods
  imports Calls Arithmetic
begin

text \<open>
  Methods of the containers (\<open>eval/functions/methods\<close>): lists, tuples, dictionaries, deques and Counters, with the
  change of the memory estimate that each call reports (\<open>MethodOutcome\<close> of \<open>method_dispatch.rs\<close>).

  A method takes the contents of its receiver and returns the heap, the new contents and the outcome; a call that
  fails leaves the receiver alone, except a Counter's.  \<open>None\<close> is a loop over an argument that never ends.  A method
  that makes a list puts it at the address \<open>fresh\<close>.  The representation of a value is a parameter.
\<close>

section \<open>Outcomes and arguments\<close>

record method_outcome =
  mo_value :: pyval
  mo_delta :: int

definition outcome_pure :: "pyval \<Rightarrow> method_outcome" where
  "outcome_pure v = \<lparr>mo_value = v, mo_delta = 0\<rparr>"

definition outcome_grew :: "pyval \<Rightarrow> nat \<Rightarrow> method_outcome" where
  "outcome_grew v bytes = \<lparr>mo_value = v, mo_delta = to_isize_sat bytes\<rparr>"

definition outcome_shrank :: "pyval \<Rightarrow> nat \<Rightarrow> method_outcome" where
  "outcome_shrank v bytes = \<lparr>mo_value = v, mo_delta = - to_isize_sat bytes\<rparr>"

definition reject_kwargs :: "string \<Rightarrow> kwargs \<Rightarrow> unit eval_result" where
  "reject_kwargs meth kw = (case kw of
       [] \<Rightarrow> Inr ()
     | (name, v) # rest \<Rightarrow> Inl (Interpreter (TypeError (meth @ ''() got an unexpected keyword argument '' @ quoted name))))"

definition arg1 :: "string \<Rightarrow> pyval list \<Rightarrow> pyval eval_result" where
  "arg1 meth vals = (case vals of
       [] \<Rightarrow> Inl (Interpreter (TypeError (meth @ ''() takes exactly 1 argument'')))
     | v # vs \<Rightarrow> Inr v)"

definition to_len_i64 :: "nat \<Rightarrow> i64 eval_result" where
  "to_len_i64 n = (if n < 2 ^ 63 then Inr (of_nat n) else Inl (Interpreter (Runtime ''collection length overflows i64'')))"

fun value_to_i64 :: "pyval \<Rightarrow> i64 eval_result" where
  "value_to_i64 v = (case v of
       VInt i \<Rightarrow> Inr i
     | VBool b \<Rightarrow> Inr (if b then 1 else 0)
     | VEnumMember c m inner kind \<Rightarrow>
         (if kind = IntKind \<or> kind = IntFlag then value_to_i64 inner
          else Inl (Interpreter (TypeError (quoted (type_name v) @ '' object cannot be interpreted as an integer''))))
     | _ \<Rightarrow> Inl (Interpreter (TypeError (quoted (type_name v) @ '' object cannot be interpreted as an integer''))))"

declare value_to_i64.simps [simp del]

definition index_bound :: "nat \<Rightarrow> i64 \<Rightarrow> nat" where
  "index_bound len v = nat (max 0 (min (int len) (if sint v < 0 then sint v + int len else sint v)))"

definition sequence_index_range :: "string \<Rightarrow> pyval list \<Rightarrow> nat \<Rightarrow> (nat \<times> nat) eval_result" where
  "sequence_index_range meth vals len =
     (if vals = [] \<or> 3 < length vals then Inl (Interpreter (TypeError (meth @ ''() takes 1 to 3 arguments'')))
      else result_bind (to_len_i64 len) (\<lambda>_.
        let bound = (\<lambda>i d. if i < length vals then result_bind (value_to_i64 (vals ! i)) (\<lambda>n. Inr (index_bound len n)) else Inr d) in
        result_bind (bound 1 0) (\<lambda>start.
        result_bind (bound 2 len) (\<lambda>end_pos. Inr (start, max end_pos start)))))"

section \<open>Lists and tuples\<close>

primrec first_index :: "('a \<Rightarrow> bool) \<Rightarrow> 'a list \<Rightarrow> nat option" where
  "first_index P [] = None"
| "first_index P (x # xs) = (if P x then Some 0 else map_option Suc (first_index P xs))"

definition seq_count :: "env \<Rightarrow> pyval list \<Rightarrow> pyval \<Rightarrow> pyval eval_result" where
  "seq_count E items x = result_bind (to_len_i64 (length (filter (\<lambda>v. values_equal E v x) items))) (\<lambda>n. Inr (VInt n))"

definition seq_index :: "env \<Rightarrow> pyval list \<Rightarrow> nat \<times> nat \<Rightarrow> pyval \<Rightarrow> eval_error \<Rightarrow> pyval eval_result" where
  "seq_index E items bounds target missing =
     (case first_index (\<lambda>v. values_equal E v target) (drop (fst bounds) (take (snd bounds) items)) of
        Some i \<Rightarrow> result_bind (to_len_i64 (fst bounds + i)) (\<lambda>n. Inr (VInt n))
      | None \<Rightarrow> Inl missing)"

definition sizes :: "runtime \<Rightarrow> pyval list \<Rightarrow> nat" where
  "sizes R items = sum_list (map (value_size R) items)"

definition list_insert :: "runtime \<Rightarrow> pyval list \<Rightarrow> pyval list \<Rightarrow> (pyval list \<times> method_outcome) eval_result" where
  "list_insert R items vals =
     (if length vals \<noteq> 2 then Inl (Interpreter (TypeError ''insert() takes exactly 2 arguments''))
      else result_bind (value_to_i64 (vals ! 0)) (\<lambda>idx. result_bind (to_len_i64 (length items)) (\<lambda>len.
        let pos = (if sint idx < 0 then nat (max 0 (sint len + sint idx)) else min (nat (sint idx)) (length items)) in
        Inr (take pos items @ vals ! 1 # drop pos items, outcome_grew VNone (value_size R (vals ! 1))))))"

definition pop_index :: "pyval list \<Rightarrow> pyval list \<Rightarrow> nat eval_result" where
  "pop_index items vals = (case vals of
       [] \<Rightarrow> Inr (length items - 1)
     | v # vs \<Rightarrow> result_bind (value_to_i64 v) (\<lambda>raw. result_bind (to_len_i64 (length items)) (\<lambda>len.
         let normalized = (if sint raw < 0 then sint len + sint raw else sint raw) in
         if normalized < 0 \<or> sint len \<le> normalized then Inl (Exception (index_error ''pop'')) else Inr (nat normalized))))"

definition list_pop :: "runtime \<Rightarrow> pyval list \<Rightarrow> pyval list \<Rightarrow> (pyval list \<times> method_outcome) eval_result" where
  "list_pop R items vals =
     (if items = [] then Inl (Exception (exception_new ''IndexError'' ''pop from empty list''))
      else result_bind (pop_index items vals) (\<lambda>i.
        Inr (remove_nth i items, outcome_shrank (items ! i) (value_size R (items ! i)))))"

definition list_remove :: "runtime \<Rightarrow> env \<Rightarrow> pyval list \<Rightarrow> pyval \<Rightarrow> eval_error \<Rightarrow> (pyval list \<times> method_outcome) eval_result" where
  "list_remove R E items target missing = (case first_index (\<lambda>v. values_equal E v target) items of
       None \<Rightarrow> Inl missing
     | Some i \<Rightarrow> Inr (remove_nth i items, outcome_shrank VNone (value_size R (items ! i))))"

definition keep :: "'c \<Rightarrow> env \<Rightarrow> pyval eval_result \<Rightarrow> (env \<times> 'c \<times> method_outcome) run" where
  "keep items E r = Some (result_bind r (\<lambda>v. Inr (E, items, outcome_pure v)))"

definition changed :: "env \<Rightarrow> ('c \<times> method_outcome) eval_result \<Rightarrow> (env \<times> 'c \<times> method_outcome) run" where
  "changed E r = Some (result_bind r (\<lambda>(items, out). Inr (E, items, out)))"

definition dispatch_list_method ::
  "runtime \<Rightarrow> (pyval \<Rightarrow> string) \<Rightarrow> addr \<Rightarrow> env \<Rightarrow> pyval list \<Rightarrow> string \<Rightarrow> pyval list \<Rightarrow> kwargs \<Rightarrow> (env \<times> pyval list \<times> method_outcome) run" where
  "dispatch_list_method R repr fresh E items meth vals kw =
     run_bind (Some (reject_kwargs meth kw)) (\<lambda>_.
       if meth = ''copy'' then Some (Inr (set_list E fresh items, items, outcome_pure (VList fresh)))
       else if meth = ''count'' then
         (if length vals \<noteq> 1 then Some (Inl (Interpreter (TypeError ''count() takes exactly one argument'')))
          else keep items E (seq_count E items (vals ! 0)))
       else if meth = ''index'' then
         keep items E (result_bind (arg1 meth vals) (\<lambda>target.
           result_bind (sequence_index_range meth vals (length items)) (\<lambda>bounds.
             seq_index E items bounds target (Exception (exception_new ''ValueError'' (repr target @ '' is not in list''))))))
       else if meth = ''append'' then
         changed E (result_bind (arg1 meth vals) (\<lambda>v. Inr (items @ [v], outcome_grew VNone (value_size R v))))
       else if meth = ''extend'' then
         run_bind (Some (arg1 meth vals)) (\<lambda>v. run_bind (dispatch_iter E v) (\<lambda>new_items.
           Some (Inr (E, items @ new_items, outcome_grew VNone (sizes R new_items)))))
       else if meth = ''insert'' then changed E (list_insert R items vals)
       else if meth = ''pop'' then changed E (list_pop R items vals)
       else if meth = ''remove'' then
         changed E (result_bind (arg1 meth vals) (\<lambda>target.
           list_remove R E items target (Exception (exception_new ''ValueError'' ''list.remove(x): x not in list''))))
       else if meth = ''reverse'' then Some (Inr (E, rev items, outcome_pure VNone))
       else if meth = ''clear'' then Some (Inr (E, [], outcome_shrank VNone (sizes R items)))
       else Some (Inl (Interpreter (AttributeError ([CHR 39] @ ''list'' @ [CHR 39] @ '' object has no attribute '' @ quoted meth)))))"

definition dispatch_tuple_method :: "env \<Rightarrow> pyval list \<Rightarrow> string \<Rightarrow> pyval list \<Rightarrow> kwargs \<Rightarrow> pyval eval_result" where
  "dispatch_tuple_method E items meth vals kw =
     result_bind (reject_kwargs meth kw) (\<lambda>_.
       if meth = ''count'' then
         (if length vals \<noteq> 1 then Inl (Interpreter (TypeError ''count() takes exactly 1 argument''))
          else seq_count E items (vals ! 0))
       else if meth = ''index'' then
         (case vals of
            [] \<Rightarrow> Inl (Interpreter (TypeError ''index() takes at least 1 argument''))
          | target # rest \<Rightarrow> result_bind (sequence_index_range meth vals (length items)) (\<lambda>bounds.
              seq_index E items bounds target (Exception (exception_new ''ValueError'' ''tuple.index(x): x not in tuple''))))
       else Inl (Interpreter (AttributeError ([CHR 39] @ ''tuple'' @ [CHR 39] @ '' object has no attribute '' @ quoted meth))))"

section \<open>Deques\<close>

text \<open>A bounded deque drops from the other end; the loop runs until the bound holds.\<close>

definition sat_isize :: "int \<Rightarrow> int" where
  "sat_isize n = max (- (2 ^ 63)) (min (2 ^ 63 - 1) n)"

primrec trim_front :: "runtime \<Rightarrow> nat \<Rightarrow> pyval list \<Rightarrow> int \<Rightarrow> pyval list \<times> int" where
  "trim_front R cap [] d = ([], d)"
| "trim_front R cap (x # xs) d =
     (if cap < length (x # xs) then trim_front R cap xs (sat_isize (d - to_isize_sat (value_size R x))) else (x # xs, d))"

definition trim_back :: "runtime \<Rightarrow> nat \<Rightarrow> pyval list \<Rightarrow> int \<Rightarrow> pyval list \<times> int" where
  "trim_back R cap items d = (case trim_front R cap (rev items) d of (xs, d') \<Rightarrow> (rev xs, d'))"

definition push_back :: "runtime \<Rightarrow> nat option \<Rightarrow> pyval \<Rightarrow> pyval list \<times> int \<Rightarrow> pyval list \<times> int" where
  "push_back R maxlen v p =
     (let items = fst p @ [v]; d = sat_isize (snd p + to_isize_sat (value_size R v)) in
      case maxlen of None \<Rightarrow> (items, d) | Some cap \<Rightarrow> trim_front R cap items d)"

definition push_front :: "runtime \<Rightarrow> nat option \<Rightarrow> pyval \<Rightarrow> pyval list \<times> int \<Rightarrow> pyval list \<times> int" where
  "push_front R maxlen v p =
     (let items = v # fst p; d = sat_isize (snd p + to_isize_sat (value_size R v)) in
      case maxlen of None \<Rightarrow> (items, d) | Some cap \<Rightarrow> trim_back R cap items d)"

definition with_delta :: "pyval list \<times> int \<Rightarrow> pyval list \<times> method_outcome" where
  "with_delta p = (fst p, \<lparr>mo_value = VNone, mo_delta = snd p\<rparr>)"

definition rotate_count :: "pyval list \<Rightarrow> i64 eval_result" where
  "rotate_count vals = (case vals of
       [] \<Rightarrow> Inr 1
     | VInt n # vs \<Rightarrow> Inr n
     | VBool b # vs \<Rightarrow> Inr (if b then 1 else 0)
     | other # vs \<Rightarrow> Inl (Interpreter (TypeError (''rotate() expected an integer (got '' @ quoted (type_name other) @ '')''))))"

definition deque_rotate :: "pyval list \<Rightarrow> pyval list \<Rightarrow> (pyval list \<times> method_outcome) eval_result" where
  "deque_rotate items vals = result_bind (rotate_count vals) (\<lambda>n.
     if items = [] then Inr (items, outcome_pure VNone)
     else if 2 ^ 63 \<le> length items then Inl (Interpreter (Runtime ''deque length overflows i64''))
     else let shift = nat (sint n mod int (length items)); k = length items - shift in
       Inr (drop k items @ take k items, outcome_pure VNone))"

definition deque_insert :: "runtime \<Rightarrow> nat option \<Rightarrow> pyval list \<Rightarrow> pyval list \<Rightarrow> (pyval list \<times> method_outcome) eval_result" where
  "deque_insert R maxlen items vals =
     result_bind (case vals of
         VInt i # vs \<Rightarrow> Inr i
       | VBool b # vs \<Rightarrow> Inr (if b then 1 else 0)
       | _ \<Rightarrow> Inl (Interpreter (TypeError ''insert() argument 1 must be an integer''))) (\<lambda>raw.
     let v = (if 1 < length vals then vals ! 1 else VNone); len = int (length items) in
     if (case maxlen of Some m \<Rightarrow> m \<le> length items | None \<Rightarrow> False)
     then Inl (Exception (exception_new ''IndexError'' ''deque already at its maximum size''))
     else let idx = max (- len) (min len (sint raw));
              pos = nat (if idx < 0 then max 0 (idx + len) else min idx len) in
       Inr (take pos items @ v # drop pos items, outcome_grew VNone (value_size R v)))"

definition empty_deque :: eval_error where
  "empty_deque = Exception (exception_new ''IndexError'' ''pop from an empty deque'')"

definition dispatch_deque_method ::
  "runtime \<Rightarrow> (pyval \<Rightarrow> string) \<Rightarrow> env \<Rightarrow> nat option \<Rightarrow> pyval list \<Rightarrow> string \<Rightarrow> pyval list \<Rightarrow> kwargs \<Rightarrow> (env \<times> pyval list \<times> method_outcome) run" where
  "dispatch_deque_method R repr E maxlen items meth vals kw =
     run_bind (Some (reject_kwargs meth kw)) (\<lambda>_.
       if meth = ''append'' then changed E (result_bind (arg1 meth vals) (\<lambda>v. Inr (with_delta (push_back R maxlen v (items, 0)))))
       else if meth = ''appendleft'' then changed E (result_bind (arg1 meth vals) (\<lambda>v. Inr (with_delta (push_front R maxlen v (items, 0)))))
       else if meth = ''pop'' then
         changed E (if items = [] then Inl empty_deque
           else Inr (butlast items, \<lparr>mo_value = last items, mo_delta = - to_isize_sat (value_size R (last items))\<rparr>))
       else if meth = ''popleft'' then
         changed E (case items of [] \<Rightarrow> Inl empty_deque
           | x # xs \<Rightarrow> Inr (xs, \<lparr>mo_value = x, mo_delta = - to_isize_sat (value_size R x)\<rparr>))
       else if meth = ''extend'' then
         run_bind (Some (arg1 meth vals)) (\<lambda>v. run_bind (dispatch_iter E v) (\<lambda>new_items.
           changed E (Inr (with_delta (foldl (\<lambda>p x. push_back R maxlen x p) (items, 0) new_items)))))
       else if meth = ''extendleft'' then
         run_bind (Some (arg1 meth vals)) (\<lambda>v. run_bind (dispatch_iter E v) (\<lambda>new_items.
           changed E (Inr (with_delta (foldl (\<lambda>p x. push_front R maxlen x p) (items, 0) new_items)))))
       else if meth = ''rotate'' then changed E (deque_rotate items vals)
       else if meth = ''clear'' then Some (Inr (E, [], outcome_shrank VNone (sizes R items)))
       else if meth = ''copy'' then Some (Inr (E, items, outcome_pure (VDeque items maxlen)))
       else if meth = ''index'' then
         keep items E (result_bind (arg1 meth vals) (\<lambda>target.
           case first_index (\<lambda>v. values_equal E v target) items of
             Some i \<Rightarrow> Inr (VInt (of_nat i))
           | None \<Rightarrow> Inl (Interpreter (ValueError (repr target @ '' is not in deque'')))))
       else if meth = ''count'' then
         keep items E (result_bind (arg1 meth vals) (\<lambda>target.
           Inr (VInt (of_nat (length (filter (\<lambda>v. values_equal E v target) items))))))
       else if meth = ''insert'' then changed E (deque_insert R maxlen items vals)
       else if meth = ''remove'' then
         changed E (result_bind (arg1 meth vals) (\<lambda>target.
           list_remove R E items target (Interpreter (ValueError ''deque.remove(x): x not in deque''))))
       else if meth = ''reverse'' then Some (Inr (E, rev items, outcome_pure VNone))
       else Some (Inl (Interpreter (AttributeError ([CHR 39] @ ''deque'' @ [CHR 39] @ '' object has no attribute '' @ quoted meth)))))"

lemma run_bind_Inr: "run_bind r f = Some (Inr y) \<longleftrightarrow> (\<exists>x. r = Some (Inr x) \<and> f x = Some (Inr y))"
  by (auto simp: run_bind_def split: option.splits sum.splits)

section \<open>The reported change of the estimate is exact\<close>

lemma sizes_simps [simp]:
  "sizes R [] = 0" "sizes R (x # xs) = value_size R x + sizes R xs" "sizes R (xs @ ys) = sizes R xs + sizes R ys"
  "sizes R (rev xs) = sizes R xs"
  by (simp_all add: sizes_def rev_map [symmetric])

lemma sizes_take_drop: "sizes R (take n xs) + sizes R (drop n xs) = sizes R xs"
  using sizes_simps(3) [of R "take n xs" "drop n xs"] by simp

lemma sizes_remove_nth: "i < length xs \<Longrightarrow> sizes R (remove_nth i xs) + value_size R (xs ! i) = sizes R xs"
  using sizes_take_drop [of R i xs] by (simp add: remove_nth_def Cons_nth_drop_Suc [symmetric])

lemma sizes_butlast: "xs \<noteq> [] \<Longrightarrow> sizes R (butlast xs) + value_size R (last xs) = sizes R xs"
  using sizes_simps(3) [of R "butlast xs" "[last xs]"] by simp

lemma to_isize_exact [simp]: "n < 2 ^ 63 \<Longrightarrow> to_isize_sat n = int n"
  by (simp add: to_isize_sat_def)

lemma sat_isize_exact: "\<bar>n\<bar> < 2 ^ 63 \<Longrightarrow> sat_isize n = n"
  by (simp add: sat_isize_def)

lemma first_index_Some: "first_index P xs = Some i \<Longrightarrow> i < length xs \<and> P (xs ! i) \<and> (\<forall>j < i. \<not> P (xs ! j))"
proof (induction xs arbitrary: i)
  case (Cons x xs)
  then show ?case
  proof (cases "P x")
    case False
    then obtain k where "first_index P xs = Some k" "i = Suc k" using Cons.prems by auto
    then show ?thesis using Cons.IH [of k] False by (auto simp: less_Suc_eq_0_disj)
  qed simp
qed simp

lemma first_index_None: "first_index P xs = None \<longleftrightarrow> (\<forall>x \<in> set xs. \<not> P x)"
  by (induction xs) auto

text \<open>A contents before and after, and the reported change.\<close>

definition accounts :: "runtime \<Rightarrow> pyval list \<Rightarrow> pyval list \<times> method_outcome \<Rightarrow> bool" where
  "accounts R items p \<longleftrightarrow> (sizes R items < 2 ^ 63 \<longrightarrow> sizes R (fst p) < 2 ^ 63 \<longrightarrow>
     mo_delta (snd p) = int (sizes R (fst p)) - int (sizes R items))"

lemma accounts_pure [simp]: "sizes R xs = sizes R items \<Longrightarrow> accounts R items (xs, outcome_pure v)"
  by (simp add: accounts_def outcome_pure_def)

lemma accounts_grew: "sizes R xs = sizes R items + n \<Longrightarrow> accounts R items (xs, outcome_grew v n)"
  by (simp add: accounts_def outcome_grew_def)

lemma accounts_shrank: "sizes R xs + n = sizes R items \<Longrightarrow> accounts R items (xs, outcome_shrank v n)"
  by (simp add: accounts_def outcome_shrank_def)

lemma keep_Inr: "keep items E r = Some (Inr (E', p)) \<Longrightarrow> \<exists>v. p = (items, outcome_pure v)"
  by (auto simp: keep_def result_bind_eq_Inr)

lemma changed_Inr: "changed E r = Some (Inr (E', p)) \<longleftrightarrow> r = Inr p \<and> E' = E"
  by (cases p) (auto simp: changed_def result_bind_eq_Inr)

lemma list_insert_accounts: "list_insert R items vals = Inr p \<Longrightarrow> accounts R items p"
  by (auto simp: list_insert_def result_bind_eq_Inr Let_def sizes_take_drop intro!: accounts_grew split: if_splits)

lemma to_len_i64_Inr: "to_len_i64 n = Inr w \<longleftrightarrow> n < 2 ^ 63 \<and> sint w = int n"
proof -
  have "n < 2 ^ 63 \<Longrightarrow> sint (of_nat n :: i64) = int n"
    using sint_word_of_int_i64 [of "int n"] by (simp add: in_i64_def)
  then show ?thesis by (auto simp: to_len_i64_def) (metis sint_i64_inject)
qed

lemma pop_index_less: "pop_index items vals = Inr i \<Longrightarrow> items \<noteq> [] \<Longrightarrow> i < length items"
  by (cases vals) (auto simp: pop_index_def result_bind_eq_Inr to_len_i64_Inr Let_def split: if_splits)

lemma list_pop_index:
  assumes "list_pop R items vals = Inr p"
  shows "\<exists>i < length items. p = (remove_nth i items, outcome_shrank (items ! i) (value_size R (items ! i)))"
  using assms pop_index_less by (fastforce simp: list_pop_def result_bind_eq_Inr split: if_splits)

lemma list_remove_index:
  assumes "list_remove R E items x e = Inr p"
  shows "\<exists>i < length items. p = (remove_nth i items, outcome_shrank VNone (value_size R (items ! i)))"
  using assms first_index_Some by (fastforce simp: list_remove_def split: option.splits)

lemma dispatch_list_accounts:
  assumes "dispatch_list_method R repr fresh E items meth vals kw = Some (Inr (E', p))"
  shows "accounts R items p"
  using assms
  by (auto simp: dispatch_list_method_def run_bind_Inr changed_Inr result_bind_eq_Inr
      split: if_splits dest!: keep_Inr list_insert_accounts list_pop_index list_remove_index
      intro!: accounts_grew accounts_shrank sizes_remove_nth)


subsection \<open>Bounded deques\<close>

lemma trim_front_take: "fst (trim_front R cap xs d) = drop (length xs - cap) xs"
  by (induction xs arbitrary: d) (auto simp: Suc_diff_le not_less_eq_eq)

lemma trim_front_delta:
  "\<bar>d\<bar> + int (sizes R xs) < 2 ^ 63 \<Longrightarrow>
   snd (trim_front R cap xs d) = d - int (sizes R xs) + int (sizes R (fst (trim_front R cap xs d)))"
proof (induction xs arbitrary: d)
  case (Cons x xs)
  have "sat_isize (d - to_isize_sat (value_size R x)) = d - int (value_size R x)"
    using Cons.prems by (simp add: sat_isize_exact)
  then show ?case using Cons.IH [of "d - int (value_size R x)"] Cons.prems by auto
qed simp

lemma trim_back_take: "fst (trim_back R cap xs d) = take cap xs"
  by (cases "cap \<le> length xs") (simp_all add: trim_back_def case_prod_unfold trim_front_take rev_drop)

lemma trim_back_delta:
  "\<bar>d\<bar> + int (sizes R xs) < 2 ^ 63 \<Longrightarrow>
   snd (trim_back R cap xs d) = d - int (sizes R xs) + int (sizes R (fst (trim_back R cap xs d)))"
  using trim_front_delta [of d R "rev xs" cap] by (simp add: trim_back_def case_prod_unfold)

lemma push_back_items: "fst (push_back R maxlen v p) =
  (case maxlen of None \<Rightarrow> fst p @ [v] | Some cap \<Rightarrow> drop (Suc (length (fst p)) - cap) (fst p @ [v]))"
  by (simp add: push_back_def Let_def trim_front_take split: option.split)

lemma push_front_items: "fst (push_front R maxlen v p) =
  (case maxlen of None \<Rightarrow> v # fst p | Some cap \<Rightarrow> take cap (v # fst p))"
  by (simp add: push_front_def Let_def trim_back_take split: option.split)

text \<open>\<open>base\<close> is the size of the contents that the change is counted from, \<open>most\<close> a bound for the contents now.\<close>

definition counted :: "runtime \<Rightarrow> nat \<Rightarrow> nat \<Rightarrow> pyval list \<times> int \<Rightarrow> bool" where
  "counted R base most p \<longleftrightarrow> sizes R (fst p) \<le> most \<and> snd p = int (sizes R (fst p)) - int base"

lemma counted_trim:
  assumes "sizes R xs \<le> most" "2 * most + base < 2 ^ 63"
    and "q = trim_front R cap xs (int (sizes R xs) - int base) \<or> q = trim_back R cap xs (int (sizes R xs) - int base)"
  shows "counted R base most q"
proof -
  have small: "\<bar>int (sizes R xs) - int base\<bar> + int (sizes R xs) < 2 ^ 63" using assms(1,2) by simp
  have "snd q = int (sizes R (fst q)) - int base"
    using assms(3) trim_front_delta [OF small, of cap] trim_back_delta [OF small, of cap] by auto
  moreover have "sizes R (fst q) \<le> sizes R xs"
    using assms(3) sizes_take_drop [of R "length xs - cap" xs] sizes_take_drop [of R cap xs]
    by (auto simp: trim_front_take trim_back_take)
  ultimately show ?thesis using assms(1) by (simp add: counted_def)
qed

lemma push_counted:
  assumes "counted R base most p" "2 * (most + value_size R v) + base < 2 ^ 63"
  shows "counted R base (most + value_size R v) (push_back R maxlen v p)"
    and "counted R base (most + value_size R v) (push_front R maxlen v p)"
proof -
  have d: "sat_isize (snd p + to_isize_sat (value_size R v)) = int (sizes R (fst p @ [v])) - int base"
    "sat_isize (snd p + to_isize_sat (value_size R v)) = int (sizes R (v # fst p)) - int base"
    using assms by (auto simp: counted_def sat_isize_def)
  have le: "sizes R (fst p @ [v]) \<le> most + value_size R v" "sizes R (v # fst p) \<le> most + value_size R v"
    using assms(1) by (simp_all add: counted_def)
  show "counted R base (most + value_size R v) (push_back R maxlen v p)"
  proof (cases maxlen)
    case None
    then show ?thesis using le(1) unfolding push_back_def d(1) Let_def by (simp add: counted_def)
  next
    case (Some cap)
    then show ?thesis unfolding push_back_def d(1) Let_def Some option.case
      by (simp only: counted_trim [OF le(1) assms(2) disjI1 [OF refl]])
  qed
  show "counted R base (most + value_size R v) (push_front R maxlen v p)"
  proof (cases maxlen)
    case None
    then show ?thesis using le(2) unfolding push_front_def d(2) Let_def by (simp add: counted_def)
  next
    case (Some cap)
    then show ?thesis unfolding push_front_def d(2) Let_def Some option.case
      by (simp only: counted_trim [OF le(2) assms(2) disjI2 [OF refl]])
  qed
qed

lemma push_all_counted:
  assumes "counted R base most p" "2 * (most + sizes R vs) + base < 2 ^ 63"
  shows "counted R base (most + sizes R vs) (foldl (\<lambda>p x. push_back R maxlen x p) p vs)"
    and "counted R base (most + sizes R vs) (foldl (\<lambda>p x. push_front R maxlen x p) p vs)"
  using assms
proof (induction vs arbitrary: p most)
  case (Cons v vs)
  { case 1
    have "counted R base (most + value_size R v) (push_back R maxlen v p)"
      using 1 by (intro push_counted) simp_all
    then show ?case using Cons(1) [of "most + value_size R v" "push_back R maxlen v p"] 1 by (simp add: add.assoc) }
  { case 2
    have "counted R base (most + value_size R v) (push_front R maxlen v p)"
      using 2 by (intro push_counted) simp_all
    then show ?case using Cons(2) [of "most + value_size R v" "push_front R maxlen v p"] 2 by (simp add: add.assoc) }
qed simp_all


text \<open>What a successful call leaves of the bound.\<close>

lemma deque_rotate_result:
  assumes "deque_rotate items vals = Inr p"
  shows "\<exists>k. p = (drop k items @ take k items, outcome_pure VNone)"
  using assms
  by (auto simp: deque_rotate_def result_bind_eq_Inr Let_def split: if_splits intro: exI [of _ 0])

lemma deque_insert_result:
  assumes "deque_insert R maxlen items vals = Inr p"
  shows "\<exists>pos v. p = (take pos items @ v # drop pos items, outcome_grew VNone (value_size R v)) \<and>
    (\<forall>cap. maxlen = Some cap \<longrightarrow> length items < cap)"
  using assms unfolding deque_insert_def result_bind_eq_Inr Let_def
  by (auto simp: Let_def split: if_splits option.splits)

lemma push_all_bounded:
  "length (fst p) \<le> cap \<Longrightarrow> length (fst (foldl (\<lambda>p x. push_back R (Some cap) x p) p vs)) \<le> cap"
  "length (fst p) \<le> cap \<Longrightarrow> length (fst (foldl (\<lambda>p x. push_front R (Some cap) x p) p vs)) \<le> cap"
  by (induction vs arbitrary: p) (simp_all add: push_back_items push_front_items)

lemma length_remove_nth: "i < length xs \<Longrightarrow> length (remove_nth i xs) = length xs - 1"
  by (simp add: remove_nth_def)

lemma deque_bounded_lemma:
  assumes "length items \<le> cap" "dispatch_deque_method R repr E (Some cap) items meth vals kw = Some (Inr (E', xs, out))"
  shows "length xs \<le> cap"
proof -
  have drop: "length (remove_nth i items) \<le> cap" if "i < length items" for i
    using that assms(1) by (simp add: length_remove_nth)
  show ?thesis
    using assms(2) assms(1) push_all_bounded [where p = "(items, 0)" and cap = cap]
    by (auto simp: dispatch_deque_method_def run_bind_Inr changed_Inr result_bind_eq_Inr with_delta_def
        push_back_items push_front_items drop
        split: if_splits list.splits
        dest!: keep_Inr list_remove_index deque_rotate_result deque_insert_result)
qed

lemma push_back_all:
  assumes "length (fst p) \<le> cap"
  shows "fst (foldl (\<lambda>p x. push_back R (Some cap) x p) p vs) = drop (length (fst p) + length vs - cap) (fst p @ vs)"
  using assms
proof (induction vs arbitrary: p)
  case (Cons v vs)
  let ?q = "push_back R (Some cap) v p" and ?a = "Suc (length (fst p)) - cap"
  have q: "fst ?q = drop ?a (fst p @ [v])" by (simp add: push_back_items)
  have len: "length (fst ?q) = Suc (length (fst p)) - ?a" using q by simp
  have "fst (foldl (\<lambda>p x. push_back R (Some cap) x p) ?q vs) = drop (length (fst ?q) + length vs - cap) (fst ?q @ vs)"
    using Cons.prems len by (intro Cons.IH) simp
  also have "fst ?q @ vs = drop ?a (fst p @ v # vs)"
    using Cons.prems unfolding q by (cases "?a = 0"; cases "fst p") (auto simp: Suc_diff_le)
  also have "drop (length (fst ?q) + length vs - cap) (drop ?a (fst p @ v # vs)) =
      drop (length (fst p) + length (v # vs) - cap) (fst p @ v # vs)"
    using Cons.prems len unfolding drop_drop by (intro arg_cong [where f = "\<lambda>n. drop n (fst p @ v # vs)"]) auto
  finally show ?case by simp
qed simp

lemma push_front_all:
  assumes "length (fst p) \<le> cap"
  shows "fst (foldl (\<lambda>p x. push_front R (Some cap) x p) p vs) = take cap (rev vs @ fst p)"
  using assms
proof (induction vs arbitrary: p)
  case (Cons v vs)
  have q: "fst (push_front R (Some cap) v p) = take cap (v # fst p)" by (simp add: push_front_items)
  have "fst (foldl (\<lambda>p x. push_front R (Some cap) x p) (push_front R (Some cap) v p) vs) =
      take cap (rev vs @ fst (push_front R (Some cap) v p))"
    using q by (intro Cons.IH) simp
  then show ?case unfolding q by (simp add: min_def)
qed simp

lemma deque_extends:
  assumes "length items \<le> cap" "dispatch_iter E v = Some (Inr vs)"
  shows "\<exists>d. dispatch_deque_method R repr E (Some cap) items ''extend'' [v] [] =
      Some (Inr (E, drop (length items + length vs - cap) (items @ vs), \<lparr>mo_value = VNone, mo_delta = d\<rparr>))"
    and "\<exists>d. dispatch_deque_method R repr E (Some cap) items ''extendleft'' [v] [] =
      Some (Inr (E, take cap (rev vs @ items), \<lparr>mo_value = VNone, mo_delta = d\<rparr>))"
  using push_back_all [of "(items, 0)" cap R vs] push_front_all [of "(items, 0)" cap R vs] assms
  by (simp_all add: dispatch_deque_method_def reject_kwargs_def arg1_def changed_def with_delta_def)

text \<open>C24: A deque of bounded length holds the last items pushed.  Extending it on the right leaves the last \<open>maxlen\<close> items
  of the old contents followed by the new ones, extending it on the left the first \<open>maxlen\<close> of the new ones in reverse
  followed by the old contents, and after every method that succeeds the contents are within the bound.\<close>

theorem deque_keeps_last:
  assumes "length items \<le> cap" "dispatch_iter E v = Some (Inr vs)"
  shows "(\<exists>d. dispatch_deque_method R repr E (Some cap) items ''extend'' [v] [] =
        Some (Inr (E, drop (length items + length vs - cap) (items @ vs), \<lparr>mo_value = VNone, mo_delta = d\<rparr>))) \<and>
    (\<exists>d. dispatch_deque_method R repr E (Some cap) items ''extendleft'' [v] [] =
        Some (Inr (E, take cap (rev vs @ items), \<lparr>mo_value = VNone, mo_delta = d\<rparr>))) \<and>
    (\<forall>meth vals kw E' xs out.
       dispatch_deque_method R repr E (Some cap) items meth vals kw = Some (Inr (E', xs, out)) \<longrightarrow> length xs \<le> cap)"
  using deque_extends [OF assms] deque_bounded_lemma [OF assms(1)] by blast

theorem deque_keeps_last_witness:
  "\<exists>d. dispatch_deque_method sample_runtime (\<lambda>v. []) empty_env (Some 2) [VInt 1] ''extend'' [VTuple [VInt 2, VInt 3]] [] =
    Some (Inr (empty_env, [VInt 2, VInt 3], \<lparr>mo_value = VNone, mo_delta = d\<rparr>))"
  using deque_keeps_last [of "[VInt 1]" 2 empty_env "VTuple [VInt 2, VInt 3]" "[VInt 2, VInt 3]" sample_runtime "\<lambda>v. []"]
  by (simp add: dispatch_iter_def iter_slot_def)

text \<open>The estimate of the size of a list (\<open>estimate_value_size\<close>): a header, a slot of 80 bytes per element and the
  elements.\<close>

definition list_estimate :: "runtime \<Rightarrow> pyval list \<Rightarrow> nat" where
  "list_estimate R items = 24 + length items * 80 + sizes R items"



text \<open>Appending \<open>None\<close>, whose own size is zero, is free although the list grows.\<close>

lemma append_slot_unreported:
  assumes "value_size R VNone = 0"
  shows "dispatch_list_method R repr fresh E items ''append'' [VNone] [] =
      Some (Inr (E, items @ [VNone], \<lparr>mo_value = VNone, mo_delta = 0\<rparr>)) \<and>
    list_estimate R (items @ [VNone]) = list_estimate R items + 80"
  using assms
  by (simp add: dispatch_list_method_def reject_kwargs_def arg1_def changed_def outcome_grew_def list_estimate_def)

section \<open>Dictionaries\<close>

type_synonym entries = "(value_key \<times> pyval) list"

primrec bind_kwarg :: "string \<Rightarrow> string list \<Rightarrow> pyval option list \<Rightarrow> kwargs \<Rightarrow> pyval option list eval_result" where
  "bind_kwarg meth params bound [] = Inr bound"
| "bind_kwarg meth params bound (p # rest) = (case first_index (\<lambda>q. q = fst p) params of
     None \<Rightarrow> Inl (Interpreter (TypeError (meth @ ''() got an unexpected keyword argument '' @ quoted (fst p))))
   | Some i \<Rightarrow> (if bound ! i \<noteq> None then Inl (Interpreter (TypeError (meth @ ''() got multiple values for argument '' @ quoted (fst p))))
       else bind_kwarg meth params (bound[i := Some (snd p)]) rest))"

definition bind_method_params :: "string \<Rightarrow> pyval list \<Rightarrow> kwargs \<Rightarrow> string list \<Rightarrow> pyval option list eval_result" where
  "bind_method_params meth vals kw params =
     (if length params < length vals
      then Inl (Interpreter (TypeError (meth @ ''() takes at most '' @ nat_digits (length params) @ '' argument'' @
        (if length params = 1 then [] else ''s'') @ '' ('' @ nat_digits (length vals) @ '' given)'')))
      else bind_kwarg meth params (map Some vals @ replicate (length params - length vals) None) kw)"

definition require_param :: "string \<Rightarrow> pyval option list \<Rightarrow> nat \<Rightarrow> string \<Rightarrow> pyval eval_result" where
  "require_param meth bound i name =
     (case (if i < length bound then bound ! i else None) of
        Some v \<Rightarrow> Inr v
      | None \<Rightarrow> Inl (Interpreter (TypeError (meth @ ''() missing required argument: '' @ quoted name))))"

definition insert_entry :: "runtime \<Rightarrow> env \<Rightarrow> entries \<times> int \<Rightarrow> value_key \<times> pyval \<Rightarrow> entries \<times> int" where
  "insert_entry R E p e = (map_insert E (fst e) (snd e) (fst p), sat_isize (snd p + insert_delta R E (fst p) (fst e) (snd e)))"

definition entry_size :: "runtime \<Rightarrow> value_key \<times> pyval \<Rightarrow> nat" where
  "entry_size R e = key_size R (fst e) + value_size R (snd e)"

definition entry_sizes :: "runtime \<Rightarrow> entries \<Rightarrow> nat" where
  "entry_sizes R m = sum_list (map (entry_size R) m)"

text \<open>The entries of the argument of \<open>update\<close>: a mapping, or an iterable of pairs.\<close>

primrec update_pairs :: "runtime \<Rightarrow> env \<Rightarrow> nat \<Rightarrow> pyval list \<Rightarrow> entries run" where
  "update_pairs R E i [] = Some (Inr [])"
| "update_pairs R E i (pair # rest) = run_bind (dispatch_iter E pair) (\<lambda>items.
     if length items \<noteq> 2 then Some (Inl (Interpreter (ValueError (''dictionary update sequence element #'' @ nat_digits i @
       '' has length '' @ nat_digits (length items) @ ''; 2 is required''))))
     else run_bind (Some (value_to_key (name_hash R) (items ! 0))) (\<lambda>k.
       run_bind (update_pairs R E (Suc i) rest) (\<lambda>out. Some (Inr ((k, items ! 1) # out)))))"

definition update_entries :: "runtime \<Rightarrow> env \<Rightarrow> pyval \<Rightarrow> entries run" where
  "update_entries R E arg = (case arg of
       VDict d \<Rightarrow> Some (Inr (dict_at E d))
     | VOrderedDict d \<Rightarrow> Some (Inr (dict_at E d))
     | VCounter m \<Rightarrow> Some (Inr m)
     | VDefaultDict m f \<Rightarrow> Some (Inr m)
     | _ \<Rightarrow> run_bind (dispatch_iter E arg) (update_pairs R E 0))"

definition kwarg_entries :: "kwargs \<Rightarrow> entries" where
  "kwarg_entries kw = map (\<lambda>(k, v). (KString (str_of k), v)) kw"

definition dict_update :: "runtime \<Rightarrow> env \<Rightarrow> entries \<Rightarrow> pyval list \<Rightarrow> kwargs \<Rightarrow> (env \<times> entries \<times> method_outcome) run" where
  "dict_update R E m vals kw =
     (if 1 < length vals
      then Some (Inl (Interpreter (TypeError (''update expected at most 1 argument, got '' @ nat_digits (length vals)))))
      else run_bind (case vals of [] \<Rightarrow> Some (Inr []) | arg # rest \<Rightarrow> update_entries R E arg) (\<lambda>new_entries.
        let p = foldl (insert_entry R E) (foldl (insert_entry R E) (m, 0) new_entries) (kwarg_entries kw) in
        Some (Inr (E, fst p, \<lparr>mo_value = VNone, mo_delta = snd p\<rparr>))))"

definition dict_pop :: "runtime \<Rightarrow> env \<Rightarrow> entries \<Rightarrow> pyval list \<Rightarrow> (entries \<times> method_outcome) eval_result" where
  "dict_pop R E m vals =
     result_bind (arg1 ''pop'' vals) (\<lambda>a. result_bind (value_to_key (name_hash R) a) (\<lambda>key.
       case map_get E m key of
         Some v \<Rightarrow> Inr (map_remove E key m, outcome_shrank v (key_size R key + value_size R v))
       | None \<Rightarrow> if 1 < length vals then Inr (m, outcome_pure (vals ! 1)) else Inl (Exception (key_error R E key))))"

definition dict_setdefault :: "runtime \<Rightarrow> env \<Rightarrow> entries \<Rightarrow> pyval list \<Rightarrow> (entries \<times> method_outcome) eval_result" where
  "dict_setdefault R E m vals =
     result_bind (arg1 ''setdefault'' vals) (\<lambda>a. result_bind (value_to_key (name_hash R) a) (\<lambda>key.
       let d = (if 1 < length vals then vals ! 1 else VNone) in
       case map_get E m key of
         Some v \<Rightarrow> Inr (m, outcome_pure v)
       | None \<Rightarrow> Inr (map_insert E key d m, outcome_grew d (key_size R key + value_size R d))))"

definition dict_move_to_end :: "runtime \<Rightarrow> env \<Rightarrow> entries \<Rightarrow> pyval list \<Rightarrow> kwargs \<Rightarrow> (entries \<times> method_outcome) eval_result" where
  "dict_move_to_end R E m vals kw =
     result_bind (bind_method_params ''move_to_end'' vals kw [''key'', ''last'']) (\<lambda>bound.
     result_bind (require_param ''move_to_end'' bound 0 ''key'') (\<lambda>a.
     result_bind (value_to_key (name_hash R) a) (\<lambda>key.
       let to_back = (case bound ! 1 of None \<Rightarrow> True | Some v \<Rightarrow> is_truthy E v) in
       case List.find (\<lambda>e. same_key E key (fst e)) m of
         None \<Rightarrow> Inl (Exception (key_error R E key))
       | Some e \<Rightarrow> Inr (if to_back then map_remove E key m @ [e] else e # map_remove E key m, outcome_pure VNone))))"

definition dict_popitem :: "runtime \<Rightarrow> env \<Rightarrow> entries \<Rightarrow> pyval list \<Rightarrow> kwargs \<Rightarrow> (entries \<times> method_outcome) eval_result" where
  "dict_popitem R E m vals kw =
     (let from_back = (case vals of v # vs \<Rightarrow> is_truthy E v | [] \<Rightarrow>
            (case map_of kw ''last'' of None \<Rightarrow> True | Some v \<Rightarrow> is_truthy E v)) in
      if m = [] then Inl (Exception (exception_new ''KeyError'' ([CHR 39] @ ''popitem(): dictionary is empty'' @ [CHR 39])))
      else let e = (if from_back then last m else hd m); rest = (if from_back then butlast m else tl m) in
        Inr (rest, outcome_shrank (VTuple [key_value E (fst e), snd e]) (entry_size R e)))"

definition no_kwargs :: "string \<Rightarrow> kwargs \<Rightarrow> 'a run \<Rightarrow> 'a run" where
  "no_kwargs meth kw r = run_bind (Some (reject_kwargs meth kw)) (\<lambda>_. r)"

definition dispatch_dict_method ::
  "runtime \<Rightarrow> addr \<Rightarrow> env \<Rightarrow> entries \<Rightarrow> string \<Rightarrow> pyval list \<Rightarrow> kwargs \<Rightarrow> (env \<times> entries \<times> method_outcome) run" where
  "dispatch_dict_method R fresh E m meth vals kw =
     (let new_list = (\<lambda>xs. Some (Inr (set_list E fresh xs, m, outcome_pure (VList fresh)))) in
      if meth = ''keys'' then no_kwargs meth kw (new_list (map (\<lambda>e. key_value E (fst e)) m))
      else if meth = ''values'' then no_kwargs meth kw (new_list (map snd m))
      else if meth = ''items'' then no_kwargs meth kw (new_list (map (\<lambda>e. VTuple [key_value E (fst e), snd e]) m))
      else if meth = ''get'' then
        no_kwargs meth kw (keep m E (result_bind (arg1 meth vals) (\<lambda>a. result_bind (value_to_key (name_hash R) a) (\<lambda>key.
          Inr (case map_get E m key of Some v \<Rightarrow> v | None \<Rightarrow> if 1 < length vals then vals ! 1 else VNone)))))
      else if meth = ''copy'' then no_kwargs meth kw (Some (Inr (set_dict E fresh m, m, outcome_pure (VDict fresh))))
      else if meth = ''pop'' then no_kwargs meth kw (changed E (dict_pop R E m vals))
      else if meth = ''update'' then dict_update R E m vals kw
      else if meth = ''setdefault'' then no_kwargs meth kw (changed E (dict_setdefault R E m vals))
      else if meth = ''clear'' then no_kwargs meth kw (Some (Inr (E, [], outcome_shrank VNone (entry_sizes R m))))
      else if meth = ''move_to_end'' then changed E (dict_move_to_end R E m vals kw)
      else if meth = ''popitem'' then changed E (dict_popitem R E m vals kw)
      else Some (Inl (Interpreter (AttributeError ([CHR 39] @ ''dict'' @ [CHR 39] @ '' object has no attribute '' @ quoted meth)))))"

section \<open>Dictionary methods account exactly\<close>

lemma entry_sizes_simps [simp]:
  "entry_sizes R [] = 0" "entry_sizes R (e # m) = entry_size R e + entry_sizes R m"
  "entry_sizes R (m @ n) = entry_sizes R m + entry_sizes R n"
  by (simp_all add: entry_sizes_def)

lemma entry_sizes_insert:
  "int (entry_sizes R (assoc_insert same k v m)) = int (entry_sizes R m) +
     (case find (\<lambda>e. same k (fst e)) m of
        None \<Rightarrow> int (key_size R k + value_size R v) | Some e \<Rightarrow> int (value_size R v) - int (value_size R (snd e)))"
  by (induction m) (auto simp: entry_size_def split: option.splits)

lemma entry_sizes_remove:
  "find (\<lambda>e. same k (fst e)) m = Some e \<Longrightarrow> entry_sizes R (assoc_remove same k m) + entry_size R e = entry_sizes R m"
  by (induction m) (auto split: if_splits)

lemma find_entry_le: "find P m = Some e \<Longrightarrow> entry_size R e \<le> entry_sizes R m"
  by (induction m) (auto split: if_splits)

lemma map_get_find: "map_get E m k = map_option snd (find (\<lambda>e. same_key E k (fst e)) m)"
  by (simp add: dict_get_def)

lemma insert_delta_exact:
  assumes "entry_sizes R m + key_size R k + value_size R v < 2 ^ 63"
  shows "insert_delta R E m k v = int (entry_sizes R (map_insert E k v m)) - int (entry_sizes R m)"
proof (cases "find (\<lambda>e. same_key E k (fst e)) m")
  case None
  then show ?thesis using assms by (simp add: insert_delta_def map_get_find entry_sizes_insert)
next
  case (Some e)
  then have "value_size R (snd e) < 2 ^ 63" using find_entry_le [OF Some, of R] assms by (simp add: entry_size_def)
  then show ?thesis using Some assms by (simp add: insert_delta_def map_get_find entry_sizes_insert size_delta_def)
qed

lemma insert_entry_counted:
  assumes "entry_sizes R m \<le> most" "d = int (entry_sizes R m) - int base" "base \<le> most0" "2 * (most + entry_size R e) + most0 < 2 ^ 63"
  shows "insert_entry R E (m, d) e =
      (map_insert E (fst e) (snd e) m, int (entry_sizes R (map_insert E (fst e) (snd e) m)) - int base) \<and>
    entry_sizes R (map_insert E (fst e) (snd e) m) \<le> most + entry_size R e"
proof -
  have le: "entry_sizes R (map_insert E (fst e) (snd e) m) \<le> entry_sizes R m + entry_size R e"
    using entry_sizes_insert [of R "same_key E" "fst e" "snd e" m] by (simp add: entry_size_def split: option.splits)
  have "insert_delta R E m (fst e) (snd e) = int (entry_sizes R (map_insert E (fst e) (snd e) m)) - int (entry_sizes R m)"
    using assms by (intro insert_delta_exact) (simp add: entry_size_def)
  then show ?thesis using le assms by (simp add: insert_entry_def sat_isize_exact)
qed

lemma insert_entries_counted:
  assumes "entry_sizes R m \<le> most" "d = int (entry_sizes R m) - int base" "base \<le> most0"
    "2 * (most + entry_sizes R es) + most0 < 2 ^ 63"
  shows "\<exists>m'. foldl (insert_entry R E) (m, d) es = (m', int (entry_sizes R m') - int base) \<and>
    entry_sizes R m' \<le> most + entry_sizes R es \<and> m' = foldl (\<lambda>m e. map_insert E (fst e) (snd e) m) m es"
  using assms
proof (induction es arbitrary: m d most)
  case (Cons e es)
  let ?m = "map_insert E (fst e) (snd e) m"
  have step: "insert_entry R E (m, d) e = (?m, int (entry_sizes R ?m) - int base)" "entry_sizes R ?m \<le> most + entry_size R e"
    using insert_entry_counted [OF Cons.prems(1-3), of e] Cons.prems(4) by simp_all
  then show ?case
    using Cons.IH [OF step(2) refl Cons.prems(3)] Cons.prems(4) by (simp add: add.assoc)
qed simp

text \<open>\<open>pop\<close> charges the key of the call, not the stored one.  Their sizes can differ, as \<open>True\<close> and \<open>1\<close> do; where
  they agree the delta is exact.\<close>

definition pops_same_size :: "runtime \<Rightarrow> env \<Rightarrow> entries \<Rightarrow> pyval list \<Rightarrow> bool" where
  "pops_same_size R E m vals \<longleftrightarrow> (\<forall>v rest key e. vals = v # rest \<longrightarrow> value_to_key (name_hash R) v = Inr key \<longrightarrow>
     List.find (\<lambda>e. same_key E key (fst e)) m = Some e \<longrightarrow> key_size R (fst e) = key_size R key)"

definition dict_accounts :: "runtime \<Rightarrow> entries \<Rightarrow> entries \<times> method_outcome \<Rightarrow> bool" where
  "dict_accounts R m p \<longleftrightarrow> (entry_sizes R m < 2 ^ 63 \<longrightarrow> entry_sizes R (fst p) < 2 ^ 63 \<longrightarrow>
     mo_delta (snd p) = int (entry_sizes R (fst p)) - int (entry_sizes R m))"

lemma dict_accounts_pure: "entry_sizes R n = entry_sizes R m \<Longrightarrow> dict_accounts R m (n, outcome_pure v)"
  by (simp add: dict_accounts_def outcome_pure_def)

lemma dict_accounts_shrank: "entry_sizes R n + k = entry_sizes R m \<Longrightarrow> dict_accounts R m (n, outcome_shrank v k)"
  by (simp add: dict_accounts_def outcome_shrank_def)

lemma dict_accounts_grew: "entry_sizes R n = entry_sizes R m + k \<Longrightarrow> dict_accounts R m (n, outcome_grew v k)"
  by (simp add: dict_accounts_def outcome_grew_def)

lemma dict_pop_accounts:
  assumes "pops_same_size R E m vals" "dict_pop R E m vals = Inr p"
  shows "dict_accounts R m p"
proof -
  obtain v rest key where key: "vals = v # rest" "value_to_key (name_hash R) v = Inr key" and r: "(case map_get E m key of
         Some v \<Rightarrow> Inr (map_remove E key m, outcome_shrank v (key_size R key + value_size R v))
       | None \<Rightarrow> if 1 < length vals then Inr (m, outcome_pure (vals ! 1)) else Inl (Exception (key_error R E key))) = Inr p"
    using assms(2) by (auto simp: dict_pop_def arg1_def result_bind_eq_Inr split: list.splits)
  show ?thesis
  proof (cases "find (\<lambda>e. same_key E key (fst e)) m")
    case None
    then show ?thesis using r by (auto simp: map_get_find intro!: dict_accounts_pure split: if_splits)
  next
    case (Some e)
    then have "key_size R key = key_size R (fst e)"
      using assms(1) key by (cases e) (auto simp: pops_same_size_def)
    then show ?thesis using r Some entry_sizes_remove [where same = "same_key E" and R = R, OF Some]
      by (auto simp: map_get_find entry_size_def intro!: dict_accounts_shrank)
  qed
qed

lemma dict_setdefault_accounts: "dict_setdefault R E m vals = Inr p \<Longrightarrow> dict_accounts R m p"
proof -
  assume "dict_setdefault R E m vals = Inr p"
  then obtain key d where r: "(case map_get E m key of
         Some v \<Rightarrow> Inr (m, outcome_pure v)
       | None \<Rightarrow> Inr (map_insert E key d m, outcome_grew d (key_size R key + value_size R d))) = (Inr p :: (entries \<times> method_outcome) eval_result)"
    by (auto simp: dict_setdefault_def result_bind_eq_Inr Let_def)
  show "dict_accounts R m p"
  proof (cases "find (\<lambda>e. same_key E key (fst e)) m")
    case None
    have "int (entry_sizes R (map_insert E key d m)) = int (entry_sizes R m) + int (key_size R key + value_size R d)"
      using entry_sizes_insert [of R "same_key E" key d m] None by simp
    then show ?thesis using r None by (auto simp: map_get_find intro!: dict_accounts_grew)
  next
    case (Some e)
    then show ?thesis using r by (auto simp: map_get_find intro!: dict_accounts_pure)
  qed
qed

lemma dict_popitem_accounts: "dict_popitem R E m vals kw = Inr p \<Longrightarrow> dict_accounts R m p"
proof -
  assume p: "dict_popitem R E m vals kw = Inr p"
  have "m \<noteq> [] \<Longrightarrow> entry_sizes R (butlast m) + entry_size R (last m) = entry_sizes R m"
    using entry_sizes_simps(3) [of R "butlast m" "[last m]"] by simp
  moreover have "m \<noteq> [] \<Longrightarrow> entry_sizes R (tl m) + entry_size R (hd m) = entry_sizes R m"
    using entry_sizes_simps(2) [of R "hd m" "tl m"] by simp
  ultimately show "dict_accounts R m p"
    using p by (auto simp: dict_popitem_def Let_def intro!: dict_accounts_shrank split: if_splits)
qed

lemma dict_move_accounts: "dict_move_to_end R E m vals kw = Inr p \<Longrightarrow> dict_accounts R m p"
proof -
  assume "dict_move_to_end R E m vals kw = Inr p"
  then obtain key to_back where r: "(case find (\<lambda>e. same_key E key (fst e)) m of
         None \<Rightarrow> Inl (Exception (key_error R E key))
       | Some e \<Rightarrow> Inr (if to_back then map_remove E key m @ [e] else e # map_remove E key m, outcome_pure VNone)) = Inr p"
    unfolding dict_move_to_end_def result_bind_eq_Inr Let_def by blast
  then obtain e where e: "find (\<lambda>e. same_key E key (fst e)) m = Some e"
    by (cases "find (\<lambda>e. same_key E key (fst e)) m") auto
  show "dict_accounts R m p"
    using r e entry_sizes_remove [where same = "same_key E" and R = R, OF e]
    by (auto intro!: dict_accounts_pure split: if_splits)
qed

lemma dispatch_dict_accounts:
  assumes "meth = ''pop'' \<Longrightarrow> pops_same_size R E m vals" "meth \<noteq> ''update''"
    "dispatch_dict_method R fresh E m meth vals kw = Some (Inr (E', p))"
  shows "dict_accounts R m p"
  using assms(2,3) dict_pop_accounts [of R E m vals p, OF assms(1)]
  by (cases p) (auto simp: dispatch_dict_method_def Let_def no_kwargs_def run_bind_Inr changed_Inr
      split: if_splits dest!: keep_Inr dict_setdefault_accounts dict_popitem_accounts dict_move_accounts
      intro!: dict_accounts_pure dict_accounts_shrank)

text \<open>One entry in the finite map.\<close>

definition put_entry :: "env \<Rightarrow> (akey \<rightharpoonup> pyval) \<Rightarrow> value_key \<times> pyval \<Rightarrow> (akey \<rightharpoonup> pyval)" where
  "put_entry E c e = c(key_abs E (fst e) \<mapsto> snd e)"

lemma insert_all_wf:
  assumes "keys.wf E m" "\<forall>e \<in> set es. exact_key (fst e)"
  shows "keys.wf E (foldl (\<lambda>m e. map_insert E (fst e) (snd e) m) m es) \<and>
    keys.content E (foldl (\<lambda>m e. map_insert E (fst e) (snd e) m) m es) =
      foldl (put_entry E) (keys.content E m) es"
  using assms
proof (induction es arbitrary: m)
  case (Cons e es)
  have e: "exact_key (fst e)" using Cons.prems(2) by simp
  have "keys.content E (map_insert E (fst e) (snd e) m) = put_entry E (keys.content E m) e"
    using keys.insert_content [OF Cons.prems(1) e, of "values_equal E" "snd e"] unfolding put_entry_def .
  then show ?case
    using Cons.IH [OF keys.insert_wf [OF Cons.prems(1) e]] Cons.prems(2) by simp
qed simp

lemma kwarg_entries_exact: "\<forall>e \<in> set (kwarg_entries kw). exact_key (fst e)"
  by (auto simp: kwarg_entries_def exact_key.simps)

lemma insert_entries_map: "fst (foldl (insert_entry R E) p es) = foldl (\<lambda>m e. map_insert E (fst e) (snd e) m) (fst p) es"
  by (induction es arbitrary: p) (simp_all add: insert_entry_def)

lemma dict_update_content:
  assumes "keys.wf E m" "update_entries R E arg = Some (Inr es)" "\<forall>e \<in> set es. exact_key (fst e)"
  shows "\<exists>m' out. dispatch_dict_method R fresh E m ''update'' [arg] kw = Some (Inr (E, m', out)) \<and> keys.wf E m' \<and>
    keys.content E m' = foldl (put_entry E) (keys.content E m) (es @ kwarg_entries kw) \<and> mo_value out = VNone"
proof -
  have "\<forall>e \<in> set (es @ kwarg_entries kw). exact_key (fst e)" using assms(3) kwarg_entries_exact [of kw] by auto
  from insert_all_wf [OF assms(1) this] show ?thesis
    using assms(2) by (simp add: dispatch_dict_method_def dict_update_def insert_entries_map Let_def)
qed

text \<open>The delta that \<open>update\<close> reports is exact for keys and values.\<close>

lemma dict_update_accounts:
  assumes "update_entries R E arg = Some (Inr es)" "3 * entry_sizes R m + 2 * entry_sizes R (es @ kwarg_entries kw) < 2 ^ 63"
  shows "\<exists>m'. dispatch_dict_method R fresh E m ''update'' [arg] kw =
    Some (Inr (E, m', \<lparr>mo_value = VNone, mo_delta = int (entry_sizes R m') - int (entry_sizes R m)\<rparr>))"
  using insert_entries_counted [of R m "entry_sizes R m" 0 "entry_sizes R m" "entry_sizes R m" "es @ kwarg_entries kw" E] assms
  by (auto simp: dispatch_dict_method_def dict_update_def Let_def)

text \<open>The entry is charged with the 8 bytes of the stored key and \<open>{1: x}.pop(True)\<close> gives back the byte of \<open>True\<close>.\<close>

lemma pop_true_delta:
  assumes "key_size R (KBool True) = 1" "key_size R (KInt 1) = 8" "value_size R VNone = 0"
  shows "dispatch_dict_method R fresh E [(KInt 1, VNone)] ''pop'' [VBool True] [] =
      Some (Inr (E, [], \<lparr>mo_value = VNone, mo_delta = - 1\<rparr>)) \<and> entry_sizes R [(KInt 1, VNone)] = 8"
  using assms by (simp add: dispatch_dict_method_def dict_pop_def no_kwargs_def reject_kwargs_def arg1_def changed_def
      value_to_key.simps map_get_find entry_size_def outcome_shrank_def to_isize_sat_def)

text \<open>C26: The methods of a dictionary refine the operations of the finite map it stands for.  For a dictionary with
  distinct exact keys (\<open>None\<close>, \<open>...\<close>, \<open>bool\<close>, \<open>int\<close>, \<open>str\<close>, dates, times, time deltas and tuples of these),
  an argument \<open>a\<close> with such a key, and an \<open>update\<close> whose argument yields entries with such keys: \<open>get\<close> looks the key
  up; \<open>pop\<close> returns its value and deletes it, or returns the default, or is a \<open>KeyError\<close>; \<open>setdefault\<close> returns the
  value there or inserts the default; \<open>update\<close> merges the entries of its argument and then its keywords, later ones
  winning; \<open>clear\<close> empties the map.  The keys stay distinct and nothing else changes.\<close>

theorem dict_methods_refine:
  assumes "keys.wf E m" "value_to_key (name_hash R) a = Inr k" "exact_key k"
    "update_entries R E arg = Some (Inr es)" "\<forall>e \<in> set es. exact_key (fst e)"
  shows "dispatch_dict_method R fresh E m ''get'' [a, d] [] =
      Some (Inr (E, m, outcome_pure (case keys.content E m (key_abs E k) of Some v \<Rightarrow> v | None \<Rightarrow> d))) \<and>
    (\<exists>m' out. dispatch_dict_method R fresh E m ''pop'' [a, d] [] = Some (Inr (E, m', out)) \<and> keys.wf E m' \<and>
      keys.content E m' = (keys.content E m)(key_abs E k := None) \<and>
      mo_value out = (case keys.content E m (key_abs E k) of Some v \<Rightarrow> v | None \<Rightarrow> d)) \<and>
    (keys.content E m (key_abs E k) = None \<longrightarrow>
      dispatch_dict_method R fresh E m ''pop'' [a] [] = Some (Inl (Exception (key_error R E k)))) \<and>
    (\<exists>m' out. dispatch_dict_method R fresh E m ''setdefault'' [a, d] [] = Some (Inr (E, m', out)) \<and> keys.wf E m' \<and>
      (case keys.content E m (key_abs E k) of
         Some v \<Rightarrow> keys.content E m' = keys.content E m \<and> mo_value out = v
       | None \<Rightarrow> keys.content E m' = (keys.content E m)(key_abs E k \<mapsto> d) \<and> mo_value out = d)) \<and>
    (\<exists>m' out. dispatch_dict_method R fresh E m ''update'' [arg] kw = Some (Inr (E, m', out)) \<and> keys.wf E m' \<and>
      keys.content E m' = foldl (put_entry E) (keys.content E m) (es @ kwarg_entries kw) \<and> mo_value out = VNone) \<and>
    (\<exists>m' out. dispatch_dict_method R fresh E m ''clear'' [] [] = Some (Inr (E, m', out)) \<and> keys.wf E m' \<and>
      keys.content E m' = Map.empty)"
proof (intro conjI)
  note get = map_get_content [OF assms(1,3)]
  note calls = dispatch_dict_method_def no_kwargs_def reject_kwargs_def arg1_def changed_def
  have same: "keys.content E m (key_abs E k) = None \<Longrightarrow> (keys.content E m)(key_abs E k := None) = keys.content E m"
    by (simp add: fun_upd_idem)
  show "dispatch_dict_method R fresh E m ''get'' [a, d] [] =
      Some (Inr (E, m, outcome_pure (case keys.content E m (key_abs E k) of Some v \<Rightarrow> v | None \<Rightarrow> d)))"
    using assms(2) get by (simp add: calls keep_def split: option.split)
  show "\<exists>m' out. dispatch_dict_method R fresh E m ''pop'' [a, d] [] = Some (Inr (E, m', out)) \<and> keys.wf E m' \<and>
      keys.content E m' = (keys.content E m)(key_abs E k := None) \<and>
      mo_value out = (case keys.content E m (key_abs E k) of Some v \<Rightarrow> v | None \<Rightarrow> d)"
    using assms(1,2) get same keys.remove_wf [OF assms(1,3), of "values_equal E"]
      keys.remove_content [OF assms(1,3), of "values_equal E"]
    by (cases "keys.content E m (key_abs E k)")
      (simp_all add: calls dict_pop_def outcome_shrank_def outcome_pure_def)
  show "keys.content E m (key_abs E k) = None \<longrightarrow>
      dispatch_dict_method R fresh E m ''pop'' [a] [] = Some (Inl (Exception (key_error R E k)))"
    using assms(2) get by (simp add: calls dict_pop_def)
  show "\<exists>m' out. dispatch_dict_method R fresh E m ''setdefault'' [a, d] [] = Some (Inr (E, m', out)) \<and> keys.wf E m' \<and>
      (case keys.content E m (key_abs E k) of
         Some v \<Rightarrow> keys.content E m' = keys.content E m \<and> mo_value out = v
       | None \<Rightarrow> keys.content E m' = (keys.content E m)(key_abs E k \<mapsto> d) \<and> mo_value out = d)"
    using assms(1,2) get keys.insert_wf [OF assms(1,3), of "values_equal E" d]
      keys.insert_content [OF assms(1,3), of "values_equal E" d]
    by (cases "keys.content E m (key_abs E k)")
      (simp_all add: calls dict_setdefault_def outcome_grew_def outcome_pure_def)
  show "\<exists>m' out. dispatch_dict_method R fresh E m ''update'' [arg] kw = Some (Inr (E, m', out)) \<and> keys.wf E m' \<and>
      keys.content E m' = foldl (put_entry E) (keys.content E m) (es @ kwarg_entries kw) \<and> mo_value out = VNone"
    by (rule dict_update_content [OF assms(1,4,5)])
  show "\<exists>m' out. dispatch_dict_method R fresh E m ''clear'' [] [] = Some (Inr (E, m', out)) \<and> keys.wf E m' \<and>
      keys.content E m' = Map.empty"
    by (simp add: calls keys.wf_def keys.content_def)
qed

theorem dict_methods_refine_witness:
  "\<exists>m' out. dispatch_dict_method sample_runtime 0 sample_dict [(KInt 1, VNone)] ''update'' [VDict 0] [(''h'', VEllipsis)] =
      Some (Inr (sample_dict, m', out)) \<and> keys.content sample_dict m' (key_abs sample_dict (KString [104])) = Some VEllipsis"
proof -
  have "update_entries sample_runtime sample_dict (VDict 0) = Some (Inr [(KInt 1, VNone), (KString [104], VBool True)])"
    by (simp add: update_entries_def sample_dict_def)
  moreover have "keys.wf sample_dict [(KInt 1, VNone)]" by (simp add: keys.wf_def exact_key.simps)
  moreover have "value_to_key (name_hash sample_runtime) (VBool True) = Inr (KBool True)" by (simp add: value_to_key.simps)
  ultimately show ?thesis
    using dict_methods_refine [of sample_dict "[(KInt 1, VNone)]" sample_runtime "VBool True" "KBool True" "VDict 0" _ 0 VNone
        "[(''h'', VEllipsis)]"]
    by (auto simp: exact_key.simps kwarg_entries_def put_entry_def)
qed

section \<open>Counters\<close>

definition count_value :: "pyval \<Rightarrow> i64" where
  "count_value v = (case v of VInt i \<Rightarrow> i | VBool b \<Rightarrow> if b then 1 else 0 | _ \<Rightarrow> 0)"

definition current_count :: "env \<Rightarrow> entries \<Rightarrow> value_key \<Rightarrow> i64" where
  "current_count E m key = (case map_get E m key of Some v \<Rightarrow> count_value v | None \<Rightarrow> 0)"

text \<open>One entry of an update: the count changes by the amount, with wrap-around.\<close>

definition apply_count :: "runtime \<Rightarrow> env \<Rightarrow> (i64 \<Rightarrow> i64 \<Rightarrow> i64) \<Rightarrow> entries \<times> int \<Rightarrow> value_key \<times> i64 \<Rightarrow> entries \<times> int" where
  "apply_count R E op p e = insert_entry R E p (fst e, VInt (op (current_count E (fst p) (fst e)) (snd e)))"

primrec count_items :: "runtime \<Rightarrow> env \<Rightarrow> (i64 \<Rightarrow> i64 \<Rightarrow> i64) \<Rightarrow> pyval list \<Rightarrow> entries \<times> int \<Rightarrow> (entries \<times> int) \<times> unit eval_result" where
  "count_items R E op [] p = (p, Inr ())"
| "count_items R E op (v # vs) p = (case value_to_key (name_hash R) v of
     Inl e \<Rightarrow> (p, Inl e)
   | Inr k \<Rightarrow> count_items R E op vs (apply_count R E op p (k, 1)))"

definition counter_apply_in_place ::
  "runtime \<Rightarrow> env \<Rightarrow> (i64 \<Rightarrow> i64 \<Rightarrow> i64) \<Rightarrow> pyval option \<Rightarrow> entries \<Rightarrow> ((entries \<times> int) \<times> unit eval_result) option" where
  "counter_apply_in_place R E op other m =
     (let mapping = (\<lambda>n. Some (foldl (apply_count R E op) (m, 0) (map (\<lambda>e. (fst e, count_value (snd e))) n), Inr ())) in
      case other of
        None \<Rightarrow> Some ((m, 0), Inr ())
      | Some (VDict d) \<Rightarrow> mapping (dict_at E d)
      | Some (VCounter n) \<Rightarrow> mapping n
      | Some v \<Rightarrow> (case dispatch_iter E v of
          None \<Rightarrow> None
        | Some (Inl e) \<Rightarrow> Some ((m, 0), Inl e)
        | Some (Inr items) \<Rightarrow> Some (count_items R E op items (m, 0))))"

definition counter_apply_kwargs :: "runtime \<Rightarrow> env \<Rightarrow> (i64 \<Rightarrow> i64 \<Rightarrow> i64) \<Rightarrow> kwargs \<Rightarrow> entries \<times> int \<Rightarrow> entries \<times> int" where
  "counter_apply_kwargs R E op kw p = foldl (apply_count R E op) p
     (map (\<lambda>(n, v). (KString (str_of n), count_value v)) (filter (\<lambda>(n, v). case v of VInt i \<Rightarrow> True | VBool b \<Rightarrow> True | _ \<Rightarrow> False) kw))"

definition counter_update ::
  "runtime \<Rightarrow> env \<Rightarrow> (i64 \<Rightarrow> i64 \<Rightarrow> i64) \<Rightarrow> entries \<Rightarrow> pyval list \<Rightarrow> kwargs \<Rightarrow> (env \<times> entries \<times> method_outcome eval_result) option" where
  "counter_update R E op m vals kw = (case counter_apply_in_place R E op (case vals of [] \<Rightarrow> None | v # vs \<Rightarrow> Some v) m of
       None \<Rightarrow> None
     | Some (p, Inl e) \<Rightarrow> Some (E, fst p, Inl e)
     | Some (p, Inr u) \<Rightarrow> (let q = counter_apply_kwargs R E op kw p in
         Some (E, fst q, Inr \<lparr>mo_value = VNone, mo_delta = snd q\<rparr>)))"

definition most_common_limit :: "pyval list \<Rightarrow> nat \<Rightarrow> nat eval_result" where
  "most_common_limit vals n = (case vals of
       [] \<Rightarrow> Inr n
     | VNone # vs \<Rightarrow> Inr n
     | VInt i # vs \<Rightarrow> Inr (nat (max (sint i) 0))
     | VBool b # vs \<Rightarrow> Inr (if b then 1 else 0)
     | v # vs \<Rightarrow> Inl (Interpreter (TypeError ''most_common(): n must be an integer or None'')))"

definition most_common :: "entries \<Rightarrow> (value_key \<times> i64) list" where
  "most_common m = sort_key (\<lambda>e. - sint (snd e)) (map (\<lambda>e. (fst e, count_value (snd e))) m)"

definition counter_elements :: "env \<Rightarrow> entries \<Rightarrow> pyval list" where
  "counter_elements E m = concat (map (\<lambda>e. replicate (nat (sint (count_value (snd e)))) (key_value E (fst e))) m)"

definition dispatch_counter_method ::
  "runtime \<Rightarrow> addr \<Rightarrow> env \<Rightarrow> entries \<Rightarrow> string \<Rightarrow> pyval list \<Rightarrow> kwargs \<Rightarrow> (env \<times> entries \<times> method_outcome eval_result) option" where
  "dispatch_counter_method R fresh E m meth vals kw =
     (let lift = (\<lambda>r. case r of None \<Rightarrow> None | Some (Inl e) \<Rightarrow> Some (E, m, Inl e) | Some (Inr (E', m', out)) \<Rightarrow> Some (E', m', Inr out)) in
      if meth \<in> {''keys'', ''values'', ''items'', ''get'', ''pop'', ''setdefault'', ''clear''}
      then lift (dispatch_dict_method R fresh E m meth vals kw)
      else if meth = ''copy'' then lift (no_kwargs meth kw (Some (Inr (E, m, outcome_pure (VCounter m)))))
      else if meth = ''most_common'' then
        lift (no_kwargs meth kw (run_bind (Some (most_common_limit vals (length m))) (\<lambda>n.
          Some (Inr (set_list E fresh (map (\<lambda>(k, c). VTuple [key_value E k, VInt c]) (take n (most_common m))), m,
            outcome_pure (VList fresh))))))
      else if meth = ''elements'' then
        lift (no_kwargs meth kw (Some (Inr (set_list E fresh (counter_elements E m), m, outcome_pure (VList fresh)))))
      else if meth = ''subtract'' then counter_update R E (\<lambda>cur amount. cur - amount) m vals kw
      else if meth = ''update'' then counter_update R E (\<lambda>cur amount. cur + amount) m vals kw
      else if meth = ''total'' then
        lift (no_kwargs meth kw (Some (Inr (E, m, outcome_pure (VInt (sum_list (map (\<lambda>e. count_value (snd e)) m)))))))
      else Some (E, m, Inl (Interpreter (AttributeError ([CHR 39] @ ''Counter'' @ [CHR 39] @ '' object has no attribute '' @ quoted meth)))))"

lemma apply_count_content:
  assumes "keys.wf E (fst p)" "exact_key k"
  shows "keys.wf E (fst (apply_count R E op p (k, n)))"
    and "keys.content E (fst (apply_count R E op p (k, n))) = (keys.content E (fst p))(key_abs E k \<mapsto>
      VInt (op (case keys.content E (fst p) (key_abs E k) of Some v \<Rightarrow> count_value v | None \<Rightarrow> 0) n))"
  using keys.insert_wf [OF assms] keys.insert_content [OF assms, of "values_equal E"] map_get_content [OF assms]
  by (simp_all add: apply_count_def insert_entry_def current_count_def)

lemma count_items_content:
  assumes "keys.wf E (fst p)" "map (value_to_key (name_hash R)) items = map Inr ks" "list_all exact_key ks"
  shows "\<exists>q. count_items R E (+) items p = (q, Inr ()) \<and> keys.wf E (fst q) \<and>
    (\<forall>a. keys.content E (fst q) a = (if a \<in> set (map (key_abs E) ks)
       then Some (VInt ((case keys.content E (fst p) a of Some v \<Rightarrow> count_value v | None \<Rightarrow> 0) +
         of_nat (count_list (map (key_abs E) ks) a)))
       else keys.content E (fst p) a))"
  using assms
proof (induction items arbitrary: ks p)
  case (Cons v items)
  then obtain k ks' where ks: "ks = k # ks'" "value_to_key (name_hash R) v = Inr k"
    "map (value_to_key (name_hash R)) items = map Inr ks'" "exact_key k" "list_all exact_key ks'"
    by (cases ks) auto
  note step = apply_count_content [where R = R and op = "(+)" and n = 1, OF Cons.prems(1) ks(4)]
  let ?p = "apply_count R E (+) p (k, 1)"
  obtain q where q: "count_items R E (+) items ?p = (q, Inr ())" "keys.wf E (fst q)"
    "\<And>a. keys.content E (fst q) a = (if a \<in> set (map (key_abs E) ks')
       then Some (VInt ((case keys.content E (fst ?p) a of Some v \<Rightarrow> count_value v | None \<Rightarrow> 0) +
         of_nat (count_list (map (key_abs E) ks') a)))
       else keys.content E (fst ?p) a)"
    using Cons.IH [OF step(1) ks(3,5)] by blast
  have none: "a \<notin> set (map (key_abs E) ks') \<Longrightarrow> count_list (map (key_abs E) ks') a = 0" for a
    by (simp only: count_list_0_iff not_False_eq_True)
  have "keys.content E (fst q) a = (if a \<in> set (map (key_abs E) ks)
       then Some (VInt ((case keys.content E (fst p) a of Some v \<Rightarrow> count_value v | None \<Rightarrow> 0) +
         of_nat (count_list (map (key_abs E) ks) a)))
       else keys.content E (fst p) a)" for a
    using none [of a] unfolding q(3) step(2) ks(1) by (simp add: count_value_def add.assoc)
  then show ?case using q(1,2) ks(2) by (intro exI [of _ q]) simp
qed simp

lemma sint_add_of_nat:
  fixes i :: i64
  assumes "sint i + int n < 2 ^ 63"
  shows "sint (i + of_nat n) = sint i + int n"
proof -
  have "i + of_nat n = word_of_int (sint i + int n)"
    by simp
  moreover have "in_i64 (sint i + int n)"
    using assms in_i64_sint [of i] by (simp add: in_i64_bounds)
  ultimately show ?thesis by (simp only: sint_word_of_int_i64)
qed

lemma sint_of_nat_small: "n < 2 ^ 63 \<Longrightarrow> sint (of_nat n :: i64) = int n"
  using sint_add_of_nat [of 0 n] by simp

text \<open>C27: Updating a Counter with an iterable (not a dict or a Counter) counts exactly.  Let the Counter have distinct
  exact keys, and let every item be an exact key whose count so far is missing or a 64-bit integer that stays below
  \<open>2^63\<close> when the number of items is added.  Then the call succeeds; afterwards a key that equals \<open>n > 0\<close> of the items
  holds its old count (0 if missing) plus \<open>n\<close>, every other key holds what it held, and the keys are distinct.\<close>

theorem counter_update_counts:
  assumes "keys.wf E m" "dispatch_iter E v = Some (Inr items)" "\<And>d. v \<noteq> VDict d" "\<And>n. v \<noteq> VCounter n"
    "map (value_to_key (name_hash R)) items = map Inr ks" "list_all exact_key ks"
    "\<And>k. k \<in> set ks \<Longrightarrow> keys.content E m (key_abs E k) = None \<or>
      (\<exists>i. keys.content E m (key_abs E k) = Some (VInt i) \<and> sint i + int (length ks) < 2 ^ 63)" "length ks < 2 ^ 63"
  shows "\<exists>m' out. dispatch_counter_method R fresh E m ''update'' [v] [] = Some (E, m', Inr out) \<and>
    keys.wf E m' \<and> (\<forall>a. let n = count_list (map (key_abs E) ks) a in
      if n = 0 then keys.content E m' a = keys.content E m a
      else \<exists>i. keys.content E m' a = Some (VInt i) \<and>
        sint i = (case keys.content E m a of Some (VInt j) \<Rightarrow> sint j | _ \<Rightarrow> 0) + int n)"
proof -
  obtain q where q: "count_items R E (+) items (m, 0) = (q, Inr ())" "keys.wf E (fst q)"
    "\<forall>a. keys.content E (fst q) a = (if a \<in> set (map (key_abs E) ks)
       then Some (VInt ((case keys.content E m a of Some v \<Rightarrow> count_value v | None \<Rightarrow> 0) +
         of_nat (count_list (map (key_abs E) ks) a)))
       else keys.content E m a)"
    using count_items_content [of E "(m, 0)" R items ks] assms(1,5,6) by auto
  have "counter_apply_in_place R E (+) (Some v) m = Some (q, Inr ())"
    using assms(2) assms(3,4) q(1) by (auto simp: counter_apply_in_place_def split: pyval.split)
  then have call: "dispatch_counter_method R fresh E m ''update'' [v] [] = Some (E, fst q, Inr \<lparr>mo_value = VNone, mo_delta = snd q\<rparr>)"
    by (simp add: dispatch_counter_method_def counter_update_def counter_apply_kwargs_def Let_def)
  have "let n = count_list (map (key_abs E) ks) a in
      if n = 0 then keys.content E (fst q) a = keys.content E m a
      else \<exists>i. keys.content E (fst q) a = Some (VInt i) \<and>
        sint i = (case keys.content E m a of Some (VInt j) \<Rightarrow> sint j | _ \<Rightarrow> 0) + int n" for a
  proof (cases "a \<in> set (map (key_abs E) ks)")
    case True
    define n where "n = count_list (map (key_abs E) ks) a"
    have n: "n \<noteq> 0" "n \<le> length ks"
      using True count_list_0_iff [of "map (key_abs E) ks" a] count_le_length [of "map (key_abs E) ks" a] by (auto simp: n_def)
    obtain k where k: "k \<in> set ks" "a = key_abs E k" using True by auto
    from assms(7) [OF k(1), folded k(2)]
    have "sint ((case keys.content E m a of Some v \<Rightarrow> count_value v | None \<Rightarrow> 0) + (of_nat n :: i64)) =
        (case keys.content E m a of Some (VInt j) \<Rightarrow> sint j | _ \<Rightarrow> 0) + int n"
      using n(2) assms(8) by (elim disjE exE conjE) (simp_all add: count_value_def sint_add_of_nat sint_of_nat_small)
    then show ?thesis using q(3) True n(1) by (simp add: Let_def n_def)
  next
    case False
    then show ?thesis using q(3) count_list_0_iff [of "map (key_abs E) ks" a] by (simp add: Let_def)
  qed
  then show ?thesis using call q(2) by blast
qed

theorem counter_update_counts_witness:
  "\<exists>m' out i. dispatch_counter_method sample_runtime 0 empty_env [(KString [97], VInt 5)] ''update'' [VString [97, 98, 97]] [] =
      Some (empty_env, m', Inr out) \<and> keys.content empty_env m' (key_abs empty_env (KString [97])) = Some (VInt i) \<and> sint i = 7"
proof -
  let ?m = "[(KString [97], VInt 5)]" and ?ks = "map KString [[97], [98], [97]]"
  have "keys.wf empty_env ?m" by (simp add: keys.wf_def exact_key.simps)
  moreover have "dispatch_iter empty_env (VString [97, 98, 97]) = Some (Inr (map VString [[97], [98], [97]]))"
    by (simp add: dispatch_iter_def iter_slot_def)
  moreover have content: "keys.content empty_env ?m = [key_abs empty_env (KString [97]) \<mapsto> VInt 5]"
    by (simp add: keys.content_def)
  ultimately have wf: "keys.wf empty_env ?m"
    and iter: "dispatch_iter empty_env (VString [97, 98, 97]) = Some (Inr (map VString [[97], [98], [97]]))" by blast+
  have hyp: "keys.content empty_env ?m (key_abs empty_env k) = None \<or>
      (\<exists>i. keys.content empty_env ?m (key_abs empty_env k) = Some (VInt i) \<and> sint i + int (length ?ks) < 2 ^ 63)"
    if "k \<in> set ?ks" for k
    using that content by (auto simp: key_abs.simps)
  have vks: "map (value_to_key (name_hash sample_runtime)) (map VString [[97], [98], [97]]) = map Inr ?ks"
    "list_all exact_key ?ks"
    by (simp_all add: value_to_key.simps exact_key.simps)
  have two: "count_list (map (key_abs empty_env) ?ks) (key_abs empty_env (KString [97])) = 2"
    by (simp add: key_abs.simps)
  define Q where "Q m' a \<longleftrightarrow> (let n = count_list (map (key_abs empty_env) ?ks) a in
      if n = 0 then keys.content empty_env m' a = keys.content empty_env ?m a
      else \<exists>i. keys.content empty_env m' a = Some (VInt i) \<and>
        sint i = (case keys.content empty_env ?m a of Some (VInt j) \<Rightarrow> sint j | _ \<Rightarrow> 0) + int n)" for m' a
  have "\<exists>m' out. dispatch_counter_method sample_runtime 0 empty_env ?m ''update'' [VString [97, 98, 97]] [] =
      Some (empty_env, m', Inr out) \<and> keys.wf empty_env m' \<and> (\<forall>a. Q m' a)"
    unfolding Q_def by (rule counter_update_counts [OF wf iter _ _ vks hyp]) simp_all
  then obtain m' out where "dispatch_counter_method sample_runtime 0 empty_env ?m ''update'' [VString [97, 98, 97]] [] =
      Some (empty_env, m', Inr out)" "Q m' (key_abs empty_env (KString [97]))" by blast
  then show ?thesis
    unfolding Q_def two content by (auto simp: Let_def)
qed

text \<open>A count that is not a 64-bit integer is overwritten: a count of 2.5 or of \<open>2^70\<close> becomes 1.\<close>

lemma counter_overwrites:
  "dispatch_counter_method R fresh E [(KInt 1, VBigInt (2 ^ 70))] ''update'' [VTuple [VInt 1]] [] =
    Some (E, [(KInt 1, VInt 1)], Inr \<lparr>mo_value = VNone, mo_delta = sat_isize (size_delta (value_size R (VBigInt (2 ^ 70)))
      (value_size R (VInt 1)))\<rparr>)"
  by (simp add: dispatch_counter_method_def counter_update_def counter_apply_in_place_def dispatch_iter_def iter_slot_def
      value_to_key.simps apply_count_def insert_entry_def insert_delta_def current_count_def map_get_find count_value_def
      counter_apply_kwargs_def Let_def)

section \<open>Sets\<close>

text \<open>The operations of a set on Python values: equality and hash are those of \<open>types.rs\<close> and \<open>pyhash.rs\<close>.  A probe that
  never ends is \<open>None\<close>.\<close>

type_synonym py_body = "pyval set_body"

definition py_hash :: "env \<Rightarrow> pyval \<Rightarrow> i64 option" where
  "py_hash E = python_hash (siphash13 E)"

definition lift_run :: "'a option \<Rightarrow> 'a run" where
  "lift_run r = map_option Inr r"

definition arg_body :: "env \<Rightarrow> pyval \<Rightarrow> py_body run" where
  "arg_body E arg = (case arg of
       VSet s \<Rightarrow> Some (Inr (set_at E s))
     | VFrozenset b \<Rightarrow> Some (Inr b)
     | _ \<Rightarrow> run_bind (dispatch_iter E arg) (\<lambda>items. lift_run (from_items (recurse_eq E) (py_hash E) items)))"

definition apply_union :: "env \<Rightarrow> py_body \<Rightarrow> pyval \<Rightarrow> py_body run" where
  "apply_union E acc arg = (case arg of
       VSet s \<Rightarrow> lift_run (merge_from (recurse_eq E) (py_hash E) acc (set_at E s))
     | VFrozenset b \<Rightarrow> lift_run (merge_from (recurse_eq E) (py_hash E) acc b)
     | _ \<Rightarrow> run_bind (dispatch_iter E arg) (\<lambda>items. lift_run (add_values (recurse_eq E) (py_hash E) acc items)))"

definition intersect_arg :: "env \<Rightarrow> py_body \<Rightarrow> pyval \<Rightarrow> py_body run" where
  "intersect_arg E acc arg = (case arg of
       VSet s \<Rightarrow> lift_run (intersection_with (recurse_eq E) (py_hash E) acc (set_at E s))
     | VFrozenset b \<Rightarrow> lift_run (intersection_with (recurse_eq E) (py_hash E) acc b)
     | _ \<Rightarrow> run_bind (dispatch_iter E arg) (\<lambda>items. lift_run (add_common (recurse_eq E) (py_hash E) acc body_empty items)))"

definition apply_difference :: "env \<Rightarrow> py_body \<Rightarrow> pyval \<Rightarrow> py_body run" where
  "apply_difference E acc arg = run_bind (arg_body E arg) (\<lambda>b. lift_run (difference_from (recurse_eq E) (py_hash E) acc b))"

primrec apply_all :: "(py_body \<Rightarrow> pyval \<Rightarrow> py_body run) \<Rightarrow> py_body \<Rightarrow> pyval list \<Rightarrow> py_body run" where
  "apply_all f acc [] = Some (Inr acc)"
| "apply_all f acc (v # vs) = run_bind (f acc v) (\<lambda>acc'. apply_all f acc' vs)"

definition body_bytes :: "runtime \<Rightarrow> py_body \<Rightarrow> nat" where
  "body_bytes R b = sizes R (body_iter_ordered b)"

definition delta_outcome :: "nat \<Rightarrow> nat \<Rightarrow> method_outcome" where
  "delta_outcome old new = (if old \<le> new then outcome_grew VNone (new - old) else outcome_shrank VNone (old - new))"

primrec all_contained :: "(pyval \<Rightarrow> bool option) \<Rightarrow> pyval list \<Rightarrow> bool option" where
  "all_contained has [] = Some True"
| "all_contained has (v # vs) = (case has v of None \<Rightarrow> None | Some False \<Rightarrow> Some False | Some True \<Rightarrow> all_contained has vs)"

primrec any_contained :: "(pyval \<Rightarrow> bool option) \<Rightarrow> pyval list \<Rightarrow> bool option" where
  "any_contained has [] = Some False"
| "any_contained has (v # vs) = (case has v of None \<Rightarrow> None | Some True \<Rightarrow> Some True | Some False \<Rightarrow> any_contained has vs)"

text \<open>A method that makes a set puts it at \<open>fresh\<close>; one that changes the receiver returns its new body.\<close>

definition new_set :: "addr \<Rightarrow> env \<Rightarrow> py_body \<Rightarrow> py_body run \<Rightarrow> (env \<times> py_body \<times> method_outcome) run" where
  "new_set fresh E body r = run_bind r (\<lambda>b. Some (Inr (E\<lparr>set_at := (set_at E)(fresh := b)\<rparr>, body, outcome_pure (VSet fresh))))"

definition replace_body :: "runtime \<Rightarrow> env \<Rightarrow> py_body \<Rightarrow> py_body run \<Rightarrow> (env \<times> py_body \<times> method_outcome) run" where
  "replace_body R E body r = run_bind r (\<lambda>b. Some (Inr (E, b, delta_outcome (body_bytes R body) (body_bytes R b))))"

definition answer :: "env \<Rightarrow> py_body \<Rightarrow> bool option \<Rightarrow> (env \<times> py_body \<times> method_outcome) run" where
  "answer E body r = map_option (\<lambda>b. Inr (E, body, outcome_pure (VBool b))) r"

definition set_add :: "runtime \<Rightarrow> env \<Rightarrow> py_body \<Rightarrow> pyval \<Rightarrow> (env \<times> py_body \<times> method_outcome) run" where
  "set_add R E body v =
     run_bind (Some (case v of VInstance c a \<Rightarrow> Inr () | _ \<Rightarrow> result_bind (value_to_key (name_hash R) v) (\<lambda>_. Inr ()))) (\<lambda>_.
     run_bind (lift_run (add_value (recurse_eq E) (py_hash E) body v)) (\<lambda>(b, added).
       Some (Inr (E, b, if added then outcome_grew VNone (value_size R v) else outcome_pure VNone))))"

definition set_discard :: "runtime \<Rightarrow> env \<Rightarrow> py_body \<Rightarrow> pyval \<Rightarrow> eval_error option \<Rightarrow> (env \<times> py_body \<times> method_outcome) run" where
  "set_discard R E body v missing = run_bind (lift_run (discard_value (recurse_eq E) (py_hash E) body v)) (\<lambda>(b, found).
     if found then Some (Inr (E, b, outcome_shrank VNone (value_size R v)))
     else (case missing of Some e \<Rightarrow> Some (Inl e) | None \<Rightarrow> Some (Inr (E, b, outcome_pure VNone))))"

definition with_arg :: "pyval eval_result \<Rightarrow> (pyval \<Rightarrow> 'a run) \<Rightarrow> 'a run" where
  "with_arg arg f = run_bind (Some arg) f"

definition dispatch_set_method ::
  "runtime \<Rightarrow> (pyval \<Rightarrow> string) \<Rightarrow> addr \<Rightarrow> env \<Rightarrow> py_body \<Rightarrow> string \<Rightarrow> pyval list \<Rightarrow> kwargs \<Rightarrow> (env \<times> py_body \<times> method_outcome) run" where
  "dispatch_set_method R repr fresh E body meth vals kw =
     (let eq = recurse_eq E; hsh = py_hash E; arg = arg1 meth vals in
      no_kwargs meth kw
       (if meth = ''copy'' then new_set fresh E body (lift_run (copied eq body))
        else if meth = ''union'' then
          new_set fresh E body (run_bind (lift_run (copied eq body)) (\<lambda>acc. apply_all (apply_union E) acc vals))
        else if meth = ''intersection'' then
          new_set fresh E body (if vals = [] then lift_run (copied eq body) else apply_all (intersect_arg E) body vals)
        else if meth = ''difference'' then
          new_set fresh E body (run_bind (lift_run (copied eq body)) (\<lambda>acc. apply_all (apply_difference E) acc vals))
        else if meth = ''symmetric_difference'' then
          new_set fresh E body (with_arg arg (\<lambda>v. run_bind (arg_body E v) (\<lambda>other. lift_run (symmetric_difference_with eq hsh body other))))
        else if meth = ''issubset'' then
          with_arg arg (\<lambda>v. run_bind (arg_body E v) (\<lambda>other. answer E body (all_contained (body_contains eq hsh other) (body_iter_ordered body))))
        else if meth = ''issuperset'' then
          with_arg arg (\<lambda>v. run_bind (dispatch_iter E v) (\<lambda>items. answer E body (all_contained (body_contains eq hsh body) items)))
        else if meth = ''isdisjoint'' then
          with_arg arg (\<lambda>v. run_bind (dispatch_iter E v) (\<lambda>items. answer E body (map_option Not (any_contained (body_contains eq hsh body) items))))
        else if meth = ''add'' then with_arg arg (set_add R E body)
        else if meth = ''remove'' then
          with_arg arg (\<lambda>v. set_discard R E body v (Some (Exception (exception_new ''KeyError'' (repr v)))))
        else if meth = ''discard'' then with_arg arg (\<lambda>v. set_discard R E body v None)
        else if meth = ''pop'' then
          (case body_pop_first body of
             Some (v, b) \<Rightarrow> Some (Inr (E, b, outcome_shrank v (value_size R v)))
           | None \<Rightarrow> Some (Inl (Exception (exception_new ''KeyError'' ([CHR 39] @ ''pop from an empty set'' @ [CHR 39])))))
        else if meth = ''clear'' then Some (Inr (E, body_clear body, outcome_shrank VNone (body_bytes R body)))
        else if meth = ''update'' then replace_body R E body (apply_all (apply_union E) body vals)
        else if meth = ''intersection_update'' then replace_body R E body (apply_all (intersect_arg E) body vals)
        else if meth = ''difference_update'' then replace_body R E body (apply_all (apply_difference E) body vals)
        else if meth = ''symmetric_difference_update'' then
          replace_body R E body (with_arg arg (\<lambda>v. run_bind (arg_body E v) (\<lambda>other. lift_run (toggle_values eq hsh body (body_iter_ordered other)))))
        else Some (Inl (Interpreter (AttributeError ([CHR 39] @ ''set'' @ [CHR 39] @ '' object has no attribute '' @ quoted meth))))))"

definition frozenset_methods :: "string list" where
  "frozenset_methods = [''copy'', ''union'', ''intersection'', ''difference'', ''symmetric_difference'', ''issubset'', ''issuperset'', ''isdisjoint'']"

definition dispatch_frozenset_method ::
  "runtime \<Rightarrow> (pyval \<Rightarrow> string) \<Rightarrow> addr \<Rightarrow> env \<Rightarrow> py_body \<Rightarrow> string \<Rightarrow> pyval list \<Rightarrow> kwargs \<Rightarrow> pyval run" where
  "dispatch_frozenset_method R repr fresh E body meth vals kw =
     (if meth \<notin> set frozenset_methods
      then Some (Inl (Interpreter (AttributeError ([CHR 39] @ ''frozenset'' @ [CHR 39] @ '' object has no attribute '' @ quoted meth))))
      else run_bind (dispatch_set_method R repr fresh E body meth vals kw) (\<lambda>(E', b, out).
        Some (Inr (case mo_value out of VSet s \<Rightarrow> VFrozenset (set_at E' s) | v \<Rightarrow> v))))"

text \<open>A frozenset is never changed and never becomes a set: every value its methods return is a frozenset or a bool.\<close>

lemma frozenset_results:
  assumes "dispatch_frozenset_method R repr fresh E body meth vals kw = Some (Inr v)"
  shows "(\<exists>b. v = VFrozenset b) \<or> (\<exists>b. v = VBool b)"
  using assms
  by (auto simp: dispatch_frozenset_method_def dispatch_set_method_def frozenset_methods_def no_kwargs_def run_bind_Inr
      new_set_def with_arg_def answer_def outcome_pure_def Let_def split: if_splits)

text \<open>The in-place operations of a set report the change of the size of its elements exactly.\<close>

lemma set_updates_account:
  assumes "meth \<in> {''update'', ''intersection_update'', ''difference_update'', ''symmetric_difference_update'', ''clear''}"
    "dispatch_set_method R repr fresh E body meth vals kw = Some (Inr (E', b, out))"
    "body_bytes R body < 2 ^ 63" "body_bytes R b < 2 ^ 63"
  shows "mo_delta out = int (body_bytes R b) - int (body_bytes R body)"
proof -
  have "body_bytes R (body_clear b0) = 0" for b0
    by (simp add: body_bytes_def body_clear_def body_empty_def body_iter_ordered_def table_iter_ordered_def with_capacity_def List.map_filter_def)
  then show ?thesis
    using assms
    by (auto simp: dispatch_set_method_def no_kwargs_def run_bind_Inr replace_body_def with_arg_def delta_outcome_def outcome_grew_def
        outcome_shrank_def Let_def of_nat_diff split: if_splits)
qed

end
