(* ===== verification/Integers.thy ===== *)
theory Integers
  imports Methods
begin

text \<open>
  Rounding, the methods of integers and their bytes (\<open>eval/functions/mod.rs\<close>: \<open>round_int\<close> and its relatives;
  \<open>methods/int.rs\<close>; \<open>helpers.rs\<close>: \<open>int_to_bytes\<close>, \<open>int_from_bytes\<close>).  Rounding is compared with the nearest
  multiple, ties to even; writing and reading bytes are shown inverse to each other; the two dispatchers of methods agree
  on the integers both can hold.
\<close>

section \<open>Rounding\<close>

text \<open>Division of integers that truncates toward zero, as Rust's \<open>/\<close> on \<open>i64\<close> and \<open>BigInt\<close> does.\<close>

definition quot :: "int \<Rightarrow> int \<Rightarrow> int" where
  "quot a b = (if (a < 0) = (b < 0) then \<bar>a\<bar> div \<bar>b\<bar> else - (\<bar>a\<bar> div \<bar>b\<bar>))"

text \<open>The common steps of \<open>round_int\<close> and \<open>round_bigint\<close>: the quotient after banker's rounding.\<close>

definition rounded_quotient :: "int \<Rightarrow> int \<Rightarrow> int" where
  "rounded_quotient i factor =
     (let q = quot i factor; r = i - q * factor; twice_r = \<bar>r\<bar> * 2 in
      if twice_r = factor then (if q mod 2 = 0 then q else if i < 0 then q - 1 else q + 1)
      else if factor < twice_r then (if i < 0 then q - 1 else q + 1)
      else q)"

definition round_exponent :: "i64 \<Rightarrow> nat" where
  "round_exponent n = min (nat (- sint n)) (2 ^ 32 - 1)"

definition round_int :: "i64 \<Rightarrow> i64 option \<Rightarrow> pyval" where
  "round_int i ndigits = (case ndigits of
       None \<Rightarrow> VInt i
     | Some n \<Rightarrow>
         if 0 \<le> sint n then VInt i
         else let abs_exp = round_exponent n in
           if 18 < abs_exp then VInt 0
           else VInt (word_of_int (rounded_quotient (sint i) (10 ^ abs_exp)) * word_of_int (10 ^ abs_exp)))"

definition round_bigint :: "int \<Rightarrow> i64 option \<Rightarrow> int" where
  "round_bigint b ndigits = (case ndigits of
       None \<Rightarrow> b
     | Some n \<Rightarrow>
         if 0 \<le> sint n then b
         else let factor = 10 ^ round_exponent n in rounded_quotient b factor * factor)"

text \<open>A \<open>BigRational\<close> is its numerator and its positive denominator in lowest terms.\<close>

definition reduced :: "int \<Rightarrow> int \<Rightarrow> int \<times> int" where
  "reduced n d = (let g = gcd n d; s = (if d < 0 then - 1 else 1) in (s * (n div g), s * (d div g)))"

definition round_ratio_bankers :: "int \<times> int \<Rightarrow> int" where
  "round_ratio_bankers r =
     (let fl = fst r div snd r; rest = fst r mod snd r; twice = rest * 2 in
      if twice < snd r then fl else if snd r < twice then fl + 1 else if even fl then fl else fl + 1)"

definition fraction_value :: "int \<times> int \<Rightarrow> pyval" where
  "fraction_value r = VFraction (fst r) (snd r)"

definition ten_to :: "i64 \<Rightarrow> int" where
  "ten_to n = 10 ^ min (nat (sint n)) (2 ^ 32 - 1)"

definition round_fraction :: "int \<times> int \<Rightarrow> i64 option \<Rightarrow> pyval" where
  "round_fraction fr ndigits = (case ndigits of
       None \<Rightarrow> int_from_bigint (round_ratio_bankers fr)
     | Some n \<Rightarrow>
         if 0 \<le> sint n
         then fraction_value (reduced (round_ratio_bankers (reduced (fst fr * ten_to n) (snd fr))) (ten_to n))
         else let pow = 10 ^ round_exponent n in
           fraction_value (round_ratio_bankers (reduced (fst fr) (snd fr * pow)) * pow, 1))"

definition float_to_int_exact :: "f64 \<Rightarrow> pyval eval_result" where
  "float_to_int_exact f =
     (if is_nan f then Inl (Exception (exception_new ''ValueError'' ''cannot convert float NaN to integer''))
      else if is_infinite f then Inl (Exception (exception_new ''OverflowError'' ''cannot convert float infinity to integer''))
      else Inr (int_from_bigint (f64_trunc f)))"

section \<open>Methods of integers\<close>

definition round_ndigits :: "pyval list \<Rightarrow> i64 option eval_result" where
  "round_ndigits vals = (case vals of
       [] \<Rightarrow> Inr None
     | VNone # vs \<Rightarrow> Inr None
     | VInt n # vs \<Rightarrow> Inr (Some n)
     | VBool b # vs \<Rightarrow> Inr (Some (if b then 1 else 0))
     | other # vs \<Rightarrow> Inl (Interpreter (TypeError (quoted (type_name other) @ '' object cannot be interpreted as an integer''))))"

text \<open>\<open>i64::unsigned_abs\<close>; \<open>u64::BITS - leading_zeros\<close> is the number of bits, \<open>count_ones\<close> counts the set ones.\<close>

definition unsigned_abs :: "i64 \<Rightarrow> nat" where
  "unsigned_abs i = nat \<bar>sint i\<bar>"

fun count_ones :: "nat \<Rightarrow> nat" where
  "count_ones n = (if n = 0 then 0 else n mod 2 + count_ones (n div 2))"

declare count_ones.simps [simp del]

text \<open>\<open>BigInt::iter_u64_digits\<close>: the digits of the magnitude in base \<open>2 ^ 64\<close>, least significant first.\<close>

fun u64_digits :: "nat \<Rightarrow> nat list" where
  "u64_digits n = (if n = 0 then [] else n mod 2 ^ 64 # u64_digits (n div 2 ^ 64))"

declare u64_digits.simps [simp del]

definition sat_i64 :: "nat \<Rightarrow> i64" where
  "sat_i64 n = (if n < 2 ^ 63 then of_nat n else of_nat (2 ^ 63 - 1))"

definition no_int_attribute :: "string \<Rightarrow> eval_error" where
  "no_int_attribute meth = Interpreter (AttributeError ([CHR 39] @ ''int'' @ [CHR 39] @ '' object has no attribute '' @ quoted meth))"

definition dispatch_int_method :: "i64 \<Rightarrow> string \<Rightarrow> pyval list \<Rightarrow> kwargs \<Rightarrow> pyval eval_result" where
  "dispatch_int_method i meth vals kw =
     result_bind (reject_kwargs meth kw) (\<lambda>_.
       if meth = ''__round__'' then result_bind (round_ndigits vals) (\<lambda>nd. Inr (round_int i nd))
       else if meth = ''bit_length'' then Inr (VInt (of_nat (bit_length (unsigned_abs i))))
       else if meth = ''bit_count'' then Inr (VInt (of_nat (count_ones (unsigned_abs i))))
       else if meth \<in> {''conjugate'', ''real'', ''numerator''} then Inr (VInt i)
       else if meth = ''imag'' then Inr (VInt 0)
       else if meth = ''denominator'' then Inr (VInt 1)
       else if meth = ''is_integer'' then Inr (VBool True)
       else if meth = ''as_integer_ratio'' then Inr (VTuple [VInt i, VInt 1])
       else if meth \<in> {''__index__'', ''__int__'', ''__trunc__'', ''__floor__'', ''__ceil__'', ''__pos__''} then Inr (VInt i)
       else if meth = ''__float__'' then Inr (VFloat (f64_of_int (sint i)))
       else if meth = ''__bool__'' then Inr (VBool (i \<noteq> 0))
       else if meth = ''__invert__'' then Inr (VInt (NOT i))
       else if meth = ''__neg__'' then
         Inr (case checked_i64 (- sint i) of Some v \<Rightarrow> VInt v | None \<Rightarrow> int_from_bigint (- sint i))
       else if meth = ''__abs__'' then
         Inr (case checked_i64 \<bar>sint i\<bar> of Some v \<Rightarrow> VInt v | None \<Rightarrow> int_from_bigint (- sint i))
       else Inl (no_int_attribute meth))"

definition dispatch_bigint_method :: "int \<Rightarrow> string \<Rightarrow> pyval list \<Rightarrow> kwargs \<Rightarrow> pyval eval_result" where
  "dispatch_bigint_method b meth vals kw =
     result_bind (reject_kwargs meth kw) (\<lambda>_.
       if meth = ''__round__'' then result_bind (round_ndigits vals) (\<lambda>nd. Inr (int_from_bigint (round_bigint b nd)))
       else if meth = ''bit_length'' then Inr (VInt (sat_i64 (bit_length (nat \<bar>b\<bar>))))
       else if meth = ''bit_count'' then Inr (VInt (sat_i64 (sum_list (map count_ones (u64_digits (nat \<bar>b\<bar>))))))
       else if meth \<in> {''conjugate'', ''real'', ''numerator'', ''__index__'', ''__int__'', ''__trunc__'', ''__floor__'', ''__ceil__'', ''__pos__''}
       then Inr (int_from_bigint b)
       else if meth = ''imag'' then Inr (VInt 0)
       else if meth = ''denominator'' then Inr (VInt 1)
       else if meth = ''is_integer'' then Inr (VBool True)
       else if meth = ''as_integer_ratio'' then Inr (VTuple [int_from_bigint b, VInt 1])
       else if meth = ''__neg__'' then Inr (int_from_bigint (- b))
       else if meth = ''__abs__'' then Inr (int_from_bigint (if b < 0 then - b else b))
       else if meth = ''__invert__'' then Inr (int_from_bigint (- b - 1))
       else if meth = ''__float__'' then Inr (VFloat (f64_of_int b))
       else if meth = ''__bool__'' then Inr (VBool (b \<noteq> 0))
       else Inl (no_int_attribute meth))"

text \<open>The reference: \<open>r\<close> is the integer nearest to \<open>n / d\<close>, an even one when two are equally near.\<close>

definition nearest_even :: "int \<Rightarrow> int \<Rightarrow> int \<Rightarrow> bool" where
  "nearest_even n d r \<longleftrightarrow> 2 * \<bar>n - r * d\<bar> \<le> d \<and> (2 * \<bar>n - r * d\<bar> = d \<longrightarrow> even r)"

lemma quot_rest:
  assumes "0 < d"
  obtains q r where "quot n d = q" "n = q * d + r" "\<bar>r\<bar> < d" "n < 0 \<longrightarrow> r \<le> 0" "0 \<le> n \<longrightarrow> 0 \<le> r"
proof -
  define m where "m = \<bar>n\<bar> div d"
  define s where "s = \<bar>n\<bar> mod d"
  have s: "\<bar>n\<bar> = m * d + s" "0 \<le> s" "s < d"
    using assms by (simp_all add: m_def s_def)
  show thesis
  proof (cases "n < 0")
    case True
    then have "quot n d = - m" using assms by (simp add: quot_def m_def)
    moreover have "n = - m * d + - s" using True s(1) by simp
    ultimately show thesis using that [of "- m" "- s"] s True by simp
  next
    case False
    then have "quot n d = m" using assms by (simp add: quot_def m_def)
    then show thesis using that [of m s] s False by simp
  qed
qed

lemma odd_shift: "odd (q :: int) \<Longrightarrow> even (q + 1) \<and> even (q - 1)"
  by simp

lemma rounded_quotient_nearest:
  assumes "0 < f"
  shows "nearest_even n f (rounded_quotient n f)"
proof -
  obtain q r where q: "quot n f = q" and n: "n = q * f + r" and r: "\<bar>r\<bar> < f" "n < 0 \<longrightarrow> r \<le> 0" "0 \<le> n \<longrightarrow> 0 \<le> r"
    using quot_rest [OF assms, of n] by blast
  have up: "n - (q + 1) * f = r - f" and down: "n - (q - 1) * f = r + f" and same: "n - q * f = r"
    using n by (simp_all add: algebra_simps)
  show ?thesis
    using r odd_shift [of q] assms
    by (auto simp: nearest_even_def rounded_quotient_def q Let_def same up down even_iff_mod_2_eq_zero [symmetric]
        simp del: even_add even_diff)
qed

lemma ratio_nearest:
  assumes "0 < d"
  shows "nearest_even n d (round_ratio_bankers (n, d))"
proof -
  define q where "q = n div d"
  define r where "r = n mod d"
  have n: "n = q * d + r" and r: "0 \<le> r" "r < d"
    using assms by (simp_all add: q_def r_def)
  have up: "n - (q + 1) * d = r - d" and same: "n - q * d = r"
    using n by (simp_all add: algebra_simps)
  show ?thesis
    using r by (auto simp: nearest_even_def round_ratio_bankers_def q_def [symmetric] r_def [symmetric] Let_def same up)
qed

lemma nearest_even_unique:
  assumes "0 < d" "nearest_even n d a" "nearest_even n d b"
  shows "a = b"
proof (rule ccontr)
  assume "a \<noteq> b"
  have close: "\<bar>a - b\<bar> * d \<le> \<bar>n - a * d\<bar> + \<bar>n - b * d\<bar>"
  proof -
    have "(n - b * d) - (n - a * d) = (a - b) * d" by (simp add: left_diff_distrib)
    then have "\<bar>a - b\<bar> * d = \<bar>(n - b * d) - (n - a * d)\<bar>"
      using assms(1) by (simp only: abs_mult)
    then show ?thesis using abs_triangle_ineq4 [of "n - b * d" "n - a * d"] by linarith
  qed
  have half: "2 * \<bar>n - a * d\<bar> \<le> d" "2 * \<bar>n - b * d\<bar> \<le> d"
    using assms(2,3) by (simp_all add: nearest_even_def)
  then have "\<bar>n - a * d\<bar> + \<bar>n - b * d\<bar> \<le> 1 * d" by simp
  then have "\<bar>a - b\<bar> * d \<le> 1 * d" using close by (rule order_trans [rotated])
  then have "\<bar>a - b\<bar> \<le> 1" using assms(1) by simp
  then have one: "\<bar>a - b\<bar> = 1" using \<open>a \<noteq> b\<close> by linarith
  then have "2 * \<bar>n - a * d\<bar> = d" "2 * \<bar>n - b * d\<bar> = d"
    using close half by simp_all
  then have "even a" "even b" using assms(2,3) by (simp_all add: nearest_even_def)
  then have "even (a - b)" by simp
  then show False using one by (metis abs_1 dvd_abs_iff odd_one)
qed

lemma nearest_even_scale:
  assumes "0 < k"
  shows "nearest_even (k * n) (k * d) r \<longleftrightarrow> nearest_even n d r"
proof -
  have "k * n - r * (k * d) = k * (n - r * d)" by (simp add: algebra_simps)
  then have "2 * \<bar>k * n - r * (k * d)\<bar> = k * (2 * \<bar>n - r * d\<bar>)"
    using assms by (simp add: abs_mult)
  then show ?thesis using assms by (simp add: nearest_even_def)
qed

lemma reduced_scale:
  assumes "0 < d"
  shows "0 < snd (reduced n d) \<and> n = gcd n d * fst (reduced n d) \<and> d = gcd n d * snd (reduced n d)"
proof -
  have g: "0 < gcd n d" using assms by (simp add: gcd_pos_int)
  have "gcd n d dvd d" by simp
  then have "0 < d div gcd n d" using assms g by (metis dvd_mult_div_cancel zero_less_mult_pos)
  then show ?thesis using assms by (simp add: reduced_def Let_def)
qed

lemma nearest_reduced:
  assumes "0 < d"
  shows "nearest_even n d (round_ratio_bankers (reduced n d))"
proof -
  have "0 < gcd n d" using assms by (simp add: gcd_pos_int)
  then show ?thesis
    using reduced_scale [OF assms, of n] ratio_nearest [of "snd (reduced n d)" "fst (reduced n d)"]
      nearest_even_scale [of "gcd n d" "fst (reduced n d)" "snd (reduced n d)"] by simp
qed

lemma nearest_reduced_digits:
  assumes "0 < d"
  obtains q a b where "nearest_even (m * 10 ^ k) d q" "reduced q (10 ^ k) = (a, b)" "a * 10 ^ k = q * b" "0 < b" "coprime a b"
    "round_ratio_bankers (reduced (m * 10 ^ k) d) = q"
proof -
  define q where "q = round_ratio_bankers (reduced (m * 10 ^ k) d)"
  obtain a b where ab: "reduced q (10 ^ k) = (a, b)" by fastforce
  define g where "g = gcd q (10 ^ k)"
  have "0 < b \<and> q = g * a \<and> 10 ^ k = g * b"
    by (rule reduced_scale [of "10 ^ k" q, unfolded ab fst_conv snd_conv, folded g_def]) simp
  then have r: "0 < b" "q = g * a" "10 ^ k = g * b" by blast+
  have ratio: "a * 10 ^ k = q * b" unfolding r(2,3) by simp
  have lowest: "coprime a b"
    using ab div_gcd_coprime [of q "10 ^ k"] by (auto simp: reduced_def Let_def)
  have "nearest_even (m * 10 ^ k) d q" unfolding q_def by (rule nearest_reduced [OF assms])
  from that [OF this ab ratio r(1) lowest q_def [symmetric]] show thesis .
qed

text \<open>C29: Rounding is half to even.  For a number of digits \<open>n\<close> from \<open>- (2^32 - 1)\<close> to \<open>2^32 - 1\<close>: an integer of
  arbitrary precision is unchanged for \<open>0 \<le> n\<close> and becomes \<open>q * 10 ^ -n\<close> for \<open>n < 0\<close>, where \<open>q\<close> is the integer
  nearest to \<open>b / 10 ^ -n\<close>, ties to the even one; an \<open>i64\<close> is rounded to the same integer for \<open>-18 \<le> n\<close> when the
  result fits in 64 bits.  A fraction \<open>m / d\<close> without digits becomes the nearest integer, the same as the integer
  routine gives for this ratio; with \<open>n < 0\<close> the multiple of \<open>10 ^ -n\<close> for the integer nearest to
  \<open>m / (d * 10 ^ -n)\<close>; and with \<open>0 \<le> n\<close> the fraction \<open>q / 10 ^ n\<close> in lowest terms for the integer \<open>q\<close> nearest
  to \<open>m * 10 ^ n / d\<close>; ties always to the even integer.\<close>

theorem rounding_half_even:
  fixes n :: i64
  assumes "\<bar>sint n\<bar> < 2 ^ 32" "0 < d"
  shows "(0 \<le> sint n \<longrightarrow> round_bigint b (Some n) = b \<and> round_int i (Some n) = VInt i) \<and>
    (sint n < 0 \<longrightarrow> (\<exists>q. nearest_even b (10 ^ nat (- sint n)) q \<and> round_bigint b (Some n) = q * 10 ^ nat (- sint n))) \<and>
    (- 18 \<le> sint n \<and> sint n < 0 \<longrightarrow> (\<exists>q. nearest_even (sint i) (10 ^ nat (- sint n)) q \<and>
      (in_i64 (q * 10 ^ nat (- sint n)) \<longrightarrow> round_int i (Some n) = VInt (word_of_int (q * 10 ^ nat (- sint n)))))) \<and>
    (\<exists>q. nearest_even m d q \<and> round_fraction (m, d) None = int_from_bigint q \<and> rounded_quotient m d = q) \<and>
    (sint n < 0 \<longrightarrow> (\<exists>q. nearest_even m (d * 10 ^ nat (- sint n)) q \<and>
      round_fraction (m, d) (Some n) = VFraction (q * 10 ^ nat (- sint n)) 1)) \<and>
    (0 \<le> sint n \<longrightarrow> (\<exists>q x y. nearest_even (m * 10 ^ nat (sint n)) d q \<and>
      round_fraction (m, d) (Some n) = VFraction x y \<and> x * 10 ^ nat (sint n) = q * y \<and> 0 < y \<and> coprime x y))"
proof (intro conjI impI)
  have e: "round_exponent n = nat (- sint n)" using assms(1) by (simp add: round_exponent_def)
  show "\<exists>q. nearest_even b (10 ^ nat (- sint n)) q \<and> round_bigint b (Some n) = q * 10 ^ nat (- sint n)" if "sint n < 0"
    using that rounded_quotient_nearest [of "10 ^ nat (- sint n)" b] by (auto simp: round_bigint_def e Let_def)
  show "\<exists>q. nearest_even (sint i) (10 ^ nat (- sint n)) q \<and>
      (in_i64 (q * 10 ^ nat (- sint n)) \<longrightarrow> round_int i (Some n) = VInt (word_of_int (q * 10 ^ nat (- sint n))))"
    if "- 18 \<le> sint n \<and> sint n < 0"
    using that nat_le_iff [of "- sint n" 18] rounded_quotient_nearest [of "10 ^ nat (- sint n)" "sint i"]
    by (intro exI [of _ "rounded_quotient (sint i) (10 ^ nat (- sint n))"]) (simp add: round_int_def e Let_def)
  show "\<exists>q. nearest_even m d q \<and> round_fraction (m, d) None = int_from_bigint q \<and> rounded_quotient m d = q"
    using nearest_even_unique [OF assms(2) ratio_nearest [OF assms(2)] rounded_quotient_nearest [OF assms(2)], of m]
      ratio_nearest [OF assms(2), of m] by (simp add: round_fraction_def)
  show "\<exists>q. nearest_even m (d * 10 ^ nat (- sint n)) q \<and>
      round_fraction (m, d) (Some n) = VFraction (q * 10 ^ nat (- sint n)) 1" if "sint n < 0"
    using that assms(2) nearest_reduced [of "d * 10 ^ nat (- sint n)" m]
    by (intro exI [of _ "round_ratio_bankers (reduced m (d * 10 ^ nat (- sint n)))"])
      (auto simp: round_fraction_def fraction_value_def e Let_def)
  show "\<exists>q x y. nearest_even (m * 10 ^ nat (sint n)) d q \<and>
      round_fraction (m, d) (Some n) = VFraction x y \<and> x * 10 ^ nat (sint n) = q * y \<and> 0 < y \<and> coprime x y"
    if "0 \<le> sint n"
  proof -
    have "ten_to n = 10 ^ nat (sint n)" using assms(1) by (simp add: ten_to_def)
    moreover obtain q x y where q: "nearest_even (m * 10 ^ nat (sint n)) d q" "reduced q (10 ^ nat (sint n)) = (x, y)"
      "x * 10 ^ nat (sint n) = q * y" "0 < y" "coprime x y" "round_ratio_bankers (reduced (m * 10 ^ nat (sint n)) d) = q"
      by (rule nearest_reduced_digits [OF assms(2), of m "nat (sint n)"])
    ultimately have "round_fraction (m, d) (Some n) = VFraction x y"
      using that by (simp add: round_fraction_def fraction_value_def)
    then show ?thesis using q by blast
  qed
qed (simp_all add: round_bigint_def round_int_def)

theorem rounding_half_even_witness:
  "(\<exists>q. nearest_even 25 (10 ^ nat (- sint (- 1 :: i64))) q \<and>
     round_bigint 25 (Some (- 1)) = q * 10 ^ nat (- sint (- 1 :: i64))) \<and>
   (\<exists>q x y. nearest_even (5 * 10 ^ nat (sint (1 :: i64))) 2 q \<and> round_fraction (5, 2) (Some 1) = VFraction x y \<and>
     x * 10 ^ nat (sint (1 :: i64)) = q * y \<and> 0 < y \<and> coprime x y)"
proof
  have neg: "\<bar>sint (- 1 :: i64)\<bar> < 2 ^ 32" "sint (- 1 :: i64) < 0" and pos: "\<bar>sint (1 :: i64)\<bar> < 2 ^ 32" "0 \<le> sint (1 :: i64)"
    and two: "0 < (2 :: int)" by simp_all
  show "\<exists>q. nearest_even 25 (10 ^ nat (- sint (- 1 :: i64))) q \<and>
     round_bigint 25 (Some (- 1)) = q * 10 ^ nat (- sint (- 1 :: i64))"
    using rounding_half_even [OF neg(1) two] neg(2) by blast
  show "\<exists>q x y. nearest_even (5 * 10 ^ nat (sint (1 :: i64))) 2 q \<and> round_fraction (5, 2) (Some 1) = VFraction x y \<and>
     x * 10 ^ nat (sint (1 :: i64)) = q * y \<and> 0 < y \<and> coprime x y"
    using rounding_half_even [OF pos(1) two] pos(2) by blast
qed

text \<open>Where the result does not fit, the product of the machine integers wraps; and the shortcut for more than 18
  digits gives zero although the nearest multiple of \<open>10 ^ 19\<close> is not zero.\<close>

lemma round_int_wraps:
  "round_int (word_of_int 9223372036854775807) (Some (- 1)) = VInt (word_of_int (- 9223372036854775806)) \<and>
   round_bigint 9223372036854775807 (Some (- 1)) = 9223372036854775810 \<and>
   round_int (word_of_int 9000000000000000000) (Some (- 19)) = VInt 0 \<and>
   round_bigint 9000000000000000000 (Some (- 19)) = 10000000000000000000"
  by (simp add: round_int_def round_bigint_def round_exponent_def rounded_quotient_def quot_def Let_def)

section \<open>Bytes of an integer\<close>

text \<open>\<open>BigInt::from_bytes_be\<close> and \<open>to_bytes_be\<close> (the magnitude; zero is one zero byte).\<close>

definition from_bytes_be :: "u8 list \<Rightarrow> nat" where
  "from_bytes_be bs = foldl (\<lambda>n b. n * 256 + unat b) 0 bs"

fun to_bytes_be :: "nat \<Rightarrow> u8 list" where
  "to_bytes_be n = (if n < 256 then [of_nat n] else to_bytes_be (n div 256) @ [of_nat (n mod 256)])"

declare to_bytes_be.simps [simp del]

definition kwarg :: "kwargs \<Rightarrow> string \<Rightarrow> pyval option" where
  "kwarg kw name = map_of kw name"

definition parse_byteorder :: "pyval option \<Rightarrow> kwargs \<Rightarrow> bool eval_result" where
  "parse_byteorder pos kw = (case (case pos of Some v \<Rightarrow> Some v | None \<Rightarrow> kwarg kw ''byteorder'') of
       None \<Rightarrow> Inr False
     | Some (VString s) \<Rightarrow>
         if s = str_of ''big'' then Inr False
         else if s = str_of ''little'' then Inr True
         else Inl (Interpreter (ValueError (''byteorder must be either '' @ quoted ''little'' @ '' or '' @ quoted ''big'')))
     | Some other \<Rightarrow> Inl (Interpreter (TypeError (''byteorder must be str, not '' @ type_name other))))"

definition byte_of :: "pyval \<Rightarrow> u8 eval_result" where
  "byte_of v = (case v of
       VInt n \<Rightarrow> if 0 \<le> sint n \<and> sint n \<le> 255 then Inr (word_of_int (sint n))
         else Inl (Interpreter (ValueError ''bytes must be in range(0, 256)''))
     | VBool b \<Rightarrow> Inr (if b then 1 else 0)
     | other \<Rightarrow> Inl (Interpreter (TypeError (quoted (type_name other) @ '' object cannot be interpreted as an integer''))))"

primrec bytes_of :: "pyval list \<Rightarrow> u8 list eval_result" where
  "bytes_of [] = Inr []"
| "bytes_of (v # vs) = result_bind (byte_of v) (\<lambda>b. result_bind (bytes_of vs) (\<lambda>bs. Inr (b # bs)))"

definition source_bytes :: "env \<Rightarrow> pyval \<Rightarrow> u8 list eval_result" where
  "source_bytes E src = (case src of
       VBytes b \<Rightarrow> Inr b
     | VList l \<Rightarrow> bytes_of (list_at E l)
     | VTuple t \<Rightarrow> bytes_of t
     | other \<Rightarrow> Inl (Interpreter (TypeError (''cannot convert '' @ quoted (type_name other) @ '' object to bytes''))))"

definition is_signed :: "env \<Rightarrow> kwargs \<Rightarrow> bool" where
  "is_signed E kw = (case kwarg kw ''signed'' of None \<Rightarrow> False | Some v \<Rightarrow> is_truthy E v)"

definition int_from_bytes :: "env \<Rightarrow> pyval list \<Rightarrow> kwargs \<Rightarrow> pyval eval_result" where
  "int_from_bytes E vals kw = (case vals of
       [] \<Rightarrow> Inl (Interpreter (TypeError (''from_bytes() missing required argument '' @ quoted ''bytes'' @ '' (pos 1)'')))
     | src # rest \<Rightarrow>
         result_bind (source_bytes E src) (\<lambda>bs.
         result_bind (parse_byteorder (case rest of [] \<Rightarrow> None | v # vs \<Rightarrow> Some v) kw) (\<lambda>little.
           let be = (if little then rev bs else bs); n = int (from_bytes_be be);
               negative = is_signed E kw \<and> (case be of [] \<Rightarrow> False | b # bs' \<Rightarrow> b AND 0x80 \<noteq> 0) in
           Inr (int_from_bigint (if negative then n - 2 ^ (8 * length be) else n)))))"

definition bytes_length :: "pyval list \<Rightarrow> kwargs \<Rightarrow> nat eval_result" where
  "bytes_length vals kw = (case (case vals of v # vs \<Rightarrow> Some v | [] \<Rightarrow> kwarg kw ''length'') of
       None \<Rightarrow> Inr 1
     | Some (VInt n) \<Rightarrow> if 0 \<le> sint n then Inr (nat (sint n))
         else Inl (Interpreter (ValueError ''length argument must be non-negative''))
     | Some other \<Rightarrow> Inl (Interpreter (TypeError (quoted (type_name other) @ '' object cannot be interpreted as an integer''))))"

text \<open>The bits of the result are a \<open>usize\<close>, whose arithmetic wraps.\<close>

definition int_to_bytes :: "env \<Rightarrow> int \<Rightarrow> pyval list \<Rightarrow> kwargs \<Rightarrow> pyval eval_result" where
  "int_to_bytes E v vals kw =
     result_bind (bytes_length vals kw) (\<lambda>len.
     result_bind (parse_byteorder (if 1 < length vals then Some (vals ! 1) else None) kw) (\<lambda>little.
       let sgnd = is_signed E kw; overflow = Inl (Exception (exception_new ''OverflowError'' ''int too big to convert'')) in
       if v < 0 \<and> \<not> sgnd then Inl (Exception (exception_new ''OverflowError'' (''can'' @ [CHR 39] @ ''t convert negative int to unsigned'')))
       else if len = 0 then (if v = 0 then Inr (VBytes []) else overflow)
       else let bits = 8 * len mod 2 ^ 64; modulus = 2 ^ bits; half = 2 ^ ((bits + (2 ^ 64 - 1)) mod 2 ^ 64);
                lo = (if sgnd then - half else 0); hi = (if sgnd then half else modulus) in
         if v < lo \<or> hi \<le> v then overflow
         else let mag = to_bytes_be (nat (if v < 0 then modulus + v else v));
                  out = replicate (len - length mag) 0 @ mag in
           Inr (VBytes (if little then rev out else out))))"

definition int_methods :: "env \<Rightarrow> pyval \<Rightarrow> string \<Rightarrow> pyval list \<Rightarrow> kwargs \<Rightarrow> method_outcome eval_result" where
  "int_methods E obj meth vals kw =
     (let mismatch = Inl (Interpreter (TypeError ''internal: method table expected int'')) in
      result_bind
        (if meth = ''to_bytes'' then
           (case obj of VInt i \<Rightarrow> int_to_bytes E (sint i) vals kw
            | VBigInt b \<Rightarrow> int_to_bytes E b vals kw
            | VBool b \<Rightarrow> int_to_bytes E (if b then 1 else 0) vals kw
            | _ \<Rightarrow> mismatch)
         else
           (case obj of VInt i \<Rightarrow> dispatch_int_method i meth vals kw
            | VBool b \<Rightarrow> dispatch_int_method (if b then 1 else 0) meth vals kw
            | VBigInt b \<Rightarrow> (case checked_i64 b of
                Some n \<Rightarrow> dispatch_int_method n meth vals kw
              | None \<Rightarrow> dispatch_bigint_method b meth vals kw)
            | _ \<Rightarrow> mismatch))
        (\<lambda>v. Inr (outcome_pure v)))"

subsection \<open>The two representations of an integer have the same methods\<close>

lemma bit_length_le: "n < 2 ^ k \<Longrightarrow> bit_length n \<le> k"
proof (cases "n = 0")
  case False
  assume "n < 2 ^ k"
  then have "2 ^ (bit_length n - 1) < (2 :: nat) ^ k" using bit_length_bounds [of n] False by linarith
  then show ?thesis by (simp add: power_strict_increasing_iff)
qed (simp add: bit_length.simps)

lemma count_ones_le: "n < 2 ^ k \<Longrightarrow> count_ones n \<le> k"
proof (induction k arbitrary: n)
  case (Suc k)
  then have "count_ones (n div 2) \<le> k" by simp
  moreover have "n mod 2 \<le> 1" by simp
  ultimately show ?case by (subst count_ones.simps) (simp add: add_mono)
qed (simp add: count_ones.simps)

lemma unsigned_abs_less: "unsigned_abs i < 2 ^ 64"
  using in_i64_sint [of i] by (simp add: unsigned_abs_def in_i64_def nat_less_iff abs_if)

lemma sat_i64_small: "n \<le> 64 \<Longrightarrow> sat_i64 n = of_nat n"
  by (simp add: sat_i64_def)

lemma u64_digits_small: "n < 2 ^ 64 \<Longrightarrow> sum_list (map count_ones (u64_digits n)) = count_ones n"
  by (subst u64_digits.simps) (simp add: u64_digits.simps [of 0] count_ones.simps [of 0])

lemma from_sint [simp]: "int_from_bigint (sint i) = VInt i"
  by (simp add: int_from_bigint_def)

lemma from_complement: "int_from_bigint (- sint i - 1) = VInt (NOT i)"
proof -
  have "in_i64 (- sint i - 1)" using in_i64_sint [of i] by (simp add: in_i64_bounds)
  then show ?thesis by (simp add: int_from_bigint_VInt not_eq_complement)
qed

lemma int_methods_same:
  assumes "meth \<noteq> ''__round__''"
  shows "dispatch_int_method i meth vals kw = dispatch_bigint_method (sint i) meth vals kw"
proof -
  have a: "checked_i64 \<bar>sint i\<bar> = None \<Longrightarrow> sint i < 0"
    using checked_i64_sint [of i] by (cases "sint i < 0") (auto simp: abs_if simp del: checked_i64_sint)
  have s: "sat_i64 (bit_length (unsigned_abs i)) = of_nat (bit_length (unsigned_abs i))"
    "sat_i64 (count_ones (unsigned_abs i)) = of_nat (count_ones (unsigned_abs i))"
    using bit_length_le [OF unsigned_abs_less] count_ones_le [OF unsigned_abs_less] by (simp_all add: sat_i64_small)
  have d: "sum_list (map count_ones (u64_digits (unsigned_abs i))) = count_ones (unsigned_abs i)"
    by (rule u64_digits_small [OF unsigned_abs_less])
  have neg: "(case checked_i64 (- sint i) of Some v \<Rightarrow> VInt v | None \<Rightarrow> int_from_bigint (- sint i)) = int_from_bigint (- sint i)"
    by (simp add: int_from_bigint_def split: option.splits)
  have abs: "(case checked_i64 \<bar>sint i\<bar> of Some v \<Rightarrow> VInt v | None \<Rightarrow> int_from_bigint (- sint i)) =
      int_from_bigint (if sint i < 0 then - sint i else sint i)"
    using a by (auto simp: int_from_bigint_def abs_if split: option.splits)
  have zero: "sint i \<noteq> 0 \<longleftrightarrow> i \<noteq> 0" by simp
  show ?thesis
    using assms unfolding dispatch_int_method_def dispatch_bigint_method_def
    by (simp only: neg abs zero from_complement from_sint s d unsigned_abs_def [symmetric] if_False refl
        insert_iff empty_iff simp_thms if_cancel cong: if_cong) (simp split: if_splits)
qed

subsection \<open>Bytes\<close>

lemma from_bytes_snoc [simp]: "from_bytes_be (bs @ [b]) = from_bytes_be bs * 256 + unat b"
  by (simp add: from_bytes_be_def)

lemma from_bytes_Nil [simp]: "from_bytes_be [] = 0"
  by (simp add: from_bytes_be_def)

lemma byte_less: "unat (b :: u8) < 256"
  using unsigned_less [of b, where ?'a = nat] by simp

lemma from_bytes_append: "from_bytes_be (as @ bs) = from_bytes_be as * 256 ^ length bs + from_bytes_be bs"
  by (induction bs rule: rev_induct) (simp_all add: algebra_simps flip: append_assoc)

lemma from_bytes_less: "from_bytes_be bs < 256 ^ length bs"
proof (induction bs rule: rev_induct)
  case (snoc b bs)
  have "from_bytes_be bs * 256 + unat b < (from_bytes_be bs + 1) * 256" using byte_less [of b] by simp
  also have "\<dots> \<le> 256 ^ length bs * 256" using snoc by (intro mult_right_mono) simp_all
  finally show ?case by simp
qed simp

lemma from_bytes_zeros [simp]: "from_bytes_be (replicate k 0) = 0"
  by (induction k) (simp_all add: replicate_append_same [symmetric])

lemma unat_of_small: "n < 256 \<Longrightarrow> unat (of_nat n :: u8) = n"
  by (simp add: unat_of_nat)

lemma from_to_bytes: "from_bytes_be (to_bytes_be n) = n"
proof (induction n rule: to_bytes_be.induct)
  case (1 n)
  show ?case
  proof (cases "n < 256")
    case True
    then show ?thesis
      using from_bytes_snoc [of "[]" "of_nat n"] by (simp add: to_bytes_be.simps [of n] unat_of_small)
  next
    case False
    then show ?thesis using 1 by (subst to_bytes_be.simps) (simp add: unat_of_small)
  qed
qed

lemma length_to_bytes: "n < 256 ^ k \<Longrightarrow> 0 < k \<Longrightarrow> length (to_bytes_be n) \<le> k"
proof (induction n arbitrary: k rule: to_bytes_be.induct)
  case (1 n)
  show ?case
  proof (cases "n < 256")
    case False
    then obtain j where k: "k = Suc j" and "j \<noteq> 0"
      using 1(2,3) by (cases k; cases "k - 1") auto
    moreover have "n div 256 < 256 ^ j" using 1(2) k by (simp add: less_mult_imp_div_less mult.commute)
    ultimately have "length (to_bytes_be (n div 256)) \<le> j" using 1(1) [of j] False by simp
    then show ?thesis using False k by (subst to_bytes_be.simps) simp
  qed (use 1(3) in \<open>simp add: to_bytes_be.simps\<close>)
qed

lemma from_bytes_inject:
  "length as = length bs \<Longrightarrow> from_bytes_be as = from_bytes_be bs \<Longrightarrow> as = bs"
proof (induction as arbitrary: bs rule: rev_induct)
  case (snoc a as)
  then obtain cs c where bs: "bs = cs @ [c]" by (cases bs rule: rev_cases) auto
  have eq: "from_bytes_be as * 256 + unat a = from_bytes_be cs * 256 + unat c" using snoc(3) bs by simp
  have "unat a = (from_bytes_be as * 256 + unat a) mod 256" using byte_less [of a] by simp
  also have "\<dots> = unat c" unfolding eq using byte_less [of c] by simp
  finally have "unat a = unat c" .
  then show ?case using snoc eq bs by (simp add: unsigned_word_eqI)
qed simp

text \<open>The bytes written for an unsigned number below \<open>256 ^ len\<close>.\<close>

definition padded :: "nat \<Rightarrow> nat \<Rightarrow> u8 list" where
  "padded len n = replicate (len - length (to_bytes_be n)) 0 @ to_bytes_be n"

lemma padded_correct:
  assumes "n < 256 ^ len" "0 < len"
  shows "length (padded len n) = len \<and> from_bytes_be (padded len n) = n"
  using length_to_bytes [OF assms] by (simp add: padded_def from_bytes_append from_to_bytes)

lemma padded_from_bytes: "bs \<noteq> [] \<Longrightarrow> padded (length bs) (from_bytes_be bs) = bs"
  using padded_correct [OF from_bytes_less [of bs]] by (intro from_bytes_inject) simp_all

definition top_bit :: "u8 list \<Rightarrow> bool" where
  "top_bit be = (case be of [] \<Rightarrow> False | b # bs \<Rightarrow> b AND 0x80 \<noteq> 0)"

lemma byte_top: "(b :: u8) AND 0x80 \<noteq> 0 \<longleftrightarrow> 128 \<le> unat b"
proof -
  have "b AND 0x80 = 0 \<longleftrightarrow> \<not> bit b 7"
  proof
    assume "b AND 0x80 = 0"
    then have "\<not> bit (b AND push_bit 7 1) 7" by (simp add: push_bit_eq_mult)
    then show "\<not> bit b 7" by (simp add: bit_simps)
  next
    assume "\<not> bit b 7"
    then have "\<not> (bit b n \<and> n < 8 \<and> 7 \<le> n)" for n by (cases "n = 7") simp_all
    then have "b AND push_bit 7 1 = 0"
      by (intro bit_eqI) (auto simp: bit_and_iff bit_push_bit_iff bit_1_iff simp del: push_bit_of_1)
    then show "b AND 0x80 = 0" by (simp add: push_bit_eq_mult)
  qed
  moreover have "bit b 7 \<longleftrightarrow> odd (unat b div 2 ^ 7)"
    using bit_unsigned_iff [of b 7, where ?'a = nat] by (simp only: possible_bit_nat simp_thms bit_iff_odd [of "unat b", symmetric])
  moreover have "odd (unat b div 128) \<longleftrightarrow> 128 \<le> unat b"
  proof -
    have "unat b div 128 < 2" using byte_less [of b] by simp
    then show ?thesis by (cases "unat b div 128 = 0") (auto simp: div_eq_0_iff less_2_cases_iff)
  qed
  ultimately show ?thesis by simp
qed

lemma top_bit_iff:
  assumes "bs \<noteq> []"
  shows "top_bit bs \<longleftrightarrow> 2 ^ (8 * length bs - 1) \<le> from_bytes_be bs"
proof (cases bs)
  case (Cons b cs)
  have p: "(256 :: nat) ^ length cs = 2 ^ (8 * length cs)" by (simp add: power_mult)
  have e: "(2 :: nat) ^ (8 * length bs - 1) = 128 * 256 ^ length cs"
    unfolding p using Cons by (simp add: power_add)
  have v: "from_bytes_be bs = unat b * 256 ^ length cs + from_bytes_be cs"
    using from_bytes_append [of "[b]" cs] Cons by (simp add: from_bytes_be_def)
  have "128 * 256 ^ length cs \<le> unat b * 256 ^ length cs + from_bytes_be cs \<longleftrightarrow> 128 \<le> unat b"
  proof
    assume "128 \<le> unat b"
    then show "128 * 256 ^ length cs \<le> unat b * 256 ^ length cs + from_bytes_be cs" by (simp add: trans_le_add1)
  next
    assume "128 * 256 ^ length cs \<le> unat b * 256 ^ length cs + from_bytes_be cs"
    also have "\<dots> < (unat b + 1) * 256 ^ length cs" using from_bytes_less [of cs] by simp
    finally show "128 \<le> unat b" by simp
  qed
  then have "128 \<le> unat b \<longleftrightarrow> 2 ^ (8 * length bs - 1) \<le> from_bytes_be bs" unfolding e v by (rule sym)
  then show ?thesis using Cons by (simp only: top_bit_def byte_top list.case)
qed (use assms in simp)

definition decode_bytes :: "bool \<Rightarrow> u8 list \<Rightarrow> int" where
  "decode_bytes sgnd be = (if sgnd \<and> top_bit be then int (from_bytes_be be) - 2 ^ (8 * length be) else int (from_bytes_be be))"

definition fits_bytes :: "bool \<Rightarrow> nat \<Rightarrow> int \<Rightarrow> bool" where
  "fits_bytes sgnd len v \<longleftrightarrow>
     (if len = 0 then v = 0 else if sgnd then - (2 ^ (8 * len - 1)) \<le> v \<and> v < 2 ^ (8 * len - 1) else 0 \<le> v \<and> v < 2 ^ (8 * len))"

definition encode_bytes :: "nat \<Rightarrow> int \<Rightarrow> u8 list" where
  "encode_bytes len v = (if len = 0 then [] else padded len (nat (if v < 0 then 2 ^ (8 * len) + v else v)))"

lemma double_half: "0 < len \<Longrightarrow> (2 :: 'a :: comm_semiring_1) ^ (8 * len) = 2 * 2 ^ (8 * len - 1)"
  by (simp flip: power_Suc)

lemma byte_power: "(256 :: 'a :: comm_semiring_1) ^ len = 2 ^ (8 * len)"
  by (simp add: power_mult)

lemma decode_fits:
  assumes "bs \<noteq> []"
  shows "fits_bytes sgnd (length bs) (decode_bytes sgnd bs) \<and>
    nat (if decode_bytes sgnd bs < 0 then 2 ^ (8 * length bs) + decode_bytes sgnd bs else decode_bytes sgnd bs) = from_bytes_be bs"
proof -
  define n h where "n = int (from_bytes_be bs)" and "h = (2 :: int) ^ (8 * length bs - 1)"
  have "from_bytes_be bs < 2 ^ (8 * length bs)" using from_bytes_less [of bs] by (simp only: byte_power)
  then have less: "n < 2 * h"
    using double_half [of "length bs", where ?'a = int] assms unfolding n_def h_def
    by (metis length_greater_0_conv of_nat_less_iff of_nat_numeral of_nat_power)
  have top: "top_bit bs \<longleftrightarrow> h \<le> n"
    unfolding n_def h_def top_bit_iff [OF assms] by (metis of_nat_le_iff of_nat_numeral of_nat_power)
  have p: "(2 :: int) ^ (8 * length bs) = 2 * h" using double_half [of "length bs"] assms by (simp add: h_def)
  have "0 \<le> n" by (simp add: n_def)
  then show ?thesis
    using less top assms unfolding fits_bytes_def decode_bytes_def n_def [symmetric] p h_def [symmetric]
    by (auto simp: n_def)
qed

lemma decode_fits_any: "fits_bytes sgnd (length bs) (decode_bytes sgnd bs)"
proof (cases "bs = []")
  case False
  then show ?thesis using decode_fits [of bs sgnd] by simp
qed (simp add: fits_bytes_def decode_bytes_def top_bit_def)

lemma encode_decode:
  "encode_bytes (length bs) (decode_bytes sgnd bs) = bs"
  using decode_fits [of bs sgnd] padded_from_bytes [of bs] by (cases "bs = []") (simp_all add: encode_bytes_def)

lemma decode_encode:
  assumes "fits_bytes sgnd len v"
  shows "length (encode_bytes len v) = len \<and> decode_bytes sgnd (encode_bytes len v) = v"
proof (cases "len = 0")
  case False
  define h where "h = (2 :: int) ^ (8 * len - 1)"
  define n where "n = nat (if v < 0 then 2 ^ (8 * len) + v else v)"
  have p: "(2 :: int) ^ (8 * len) = 2 * h" using double_half [of len] False by (simp add: h_def)
  have h: "0 < h" by (simp add: h_def)
  have v: "(if sgnd then - h \<le> v \<and> v < h else 0 \<le> v \<and> v < 2 * h)"
    using assms False unfolding fits_bytes_def p h_def [symmetric] by simp
  have n: "int n = (if v < 0 then 2 * h + v else v)" using v h by (auto simp: n_def p split: if_splits)
  then have "int n < 2 * h" using v h by (auto split: if_splits)
  then have "int n < int (256 ^ len)" unfolding p [symmetric] by (simp add: byte_power)
  then have "n < 256 ^ len" by (simp only: of_nat_less_iff)
  then have e: "length (encode_bytes len v) = len" "from_bytes_be (encode_bytes len v) = n"
    using padded_correct [of n len] False by (simp_all add: encode_bytes_def n_def [symmetric])
  moreover have "top_bit (encode_bytes len v) \<longleftrightarrow> h \<le> int n"
  proof -
    have "encode_bytes len v \<noteq> []" using e(1) False by auto
    then show ?thesis unfolding top_bit_iff [OF \<open>encode_bytes len v \<noteq> []\<close>] e h_def
      by (metis of_nat_le_iff of_nat_numeral of_nat_power)
  qed
  ultimately show ?thesis using v h n unfolding decode_bytes_def e p
    by (auto split: if_splits)
qed (use assms in \<open>simp add: fits_bytes_def encode_bytes_def decode_bytes_def top_bit_def\<close>)

lemma bits_wrap: "len < 2 ^ 61 \<Longrightarrow> 8 * len mod 2 ^ 64 = 8 * (len :: nat)"
  by simp

lemma bits_pred: "0 < len \<Longrightarrow> len < 2 ^ 61 \<Longrightarrow> (8 * len + (2 ^ 64 - 1)) mod 2 ^ 64 = 8 * (len :: nat) - 1"
proof -
  assume "0 < len" "len < 2 ^ 61"
  then have "8 * len + (2 ^ 64 - 1) = (8 * len - 1) + 2 ^ 64" "8 * len - 1 < 2 ^ 64" by simp_all
  then show ?thesis by (metis mod_add_self2 mod_less)
qed

definition order_name :: "bool \<Rightarrow> pyval" where
  "order_name little = VString (str_of (if little then ''little'' else ''big''))"

lemma parse_order [simp]: "parse_byteorder (Some (order_name little)) kw = Inr little"
  by (simp add: parse_byteorder_def order_name_def)

lemma sint_of_nat_i64: "len < 2 ^ 63 \<Longrightarrow> nat (sint (of_nat len :: i64)) = len \<and> 0 \<le> sint (of_nat len :: i64)"
  using sint_word_of_int_i64 [of "int len"] by (simp add: in_i64_def)

lemma to_bytes_eq:
  assumes "len < 2 ^ 61"
  shows "int_to_bytes E v [VInt (of_nat len), order_name little] kw =
    (if fits_bytes (is_signed E kw) len v
     then Inr (VBytes (if little then rev (encode_bytes len v) else encode_bytes len v))
     else Inl (Exception (exception_new ''OverflowError'' (if v < 0 \<and> \<not> is_signed E kw
       then ''can'' @ [CHR 39] @ ''t convert negative int to unsigned'' else ''int too big to convert''))))"
proof -
  have len: "bytes_length [VInt (of_nat len), order_name little] kw = Inr len"
    using sint_of_nat_i64 [of len] assms by (simp add: bytes_length_def)
  have pos: "(if 1 < length [x, y] then Some ([x, y] ! 1) else None) = Some y" for x y :: pyval by simp
  show ?thesis
  proof (cases "len = 0")
    case False
    then have b: "8 * len mod 2 ^ 64 = 8 * len" "(8 * len + (2 ^ 64 - 1)) mod 2 ^ 64 = 8 * len - 1"
      using bits_wrap [OF assms] bits_pred [OF _ assms] by simp_all
    show ?thesis
      using False unfolding int_to_bytes_def len pos parse_order result_bind_simps Let_def b fits_bytes_def encode_bytes_def padded_def
      by auto
  next
    case True
    show ?thesis
      unfolding int_to_bytes_def len pos parse_order result_bind_simps Let_def fits_bytes_def encode_bytes_def using True by auto
  qed
qed

lemma from_bytes_eq:
  "int_from_bytes E [VBytes bs, order_name little] kw =
     Inr (int_from_bigint (decode_bytes (is_signed E kw) (if little then rev bs else bs)))"
  by (simp add: int_from_bytes_def source_bytes_def Let_def decode_bytes_def top_bit_def)

text \<open>C28: \<open>int.to_bytes\<close> and \<open>int.from_bytes\<close> are inverse to each other for both byte orders, signed and unsigned: a number is
  written exactly when it is in the range of the given length, in that many bytes, and read back as itself; it is an
  \<open>OverflowError\<close> otherwise; and every sequence of bytes that is read as a number is what that number is written as.\<close>

theorem bytes_round_trip:
  assumes "len < 2 ^ 61"
  shows "(fits_bytes (is_signed E kw) len v \<longrightarrow> (\<exists>bs. length bs = len \<and>
        int_to_bytes E v [VInt (of_nat len), order_name little] kw = Inr (VBytes bs) \<and>
        int_from_bytes E [VBytes bs, order_name little] kw = Inr (int_from_bigint v))) \<and>
    (\<not> fits_bytes (is_signed E kw) len v \<longrightarrow>
      (\<exists>m. int_to_bytes E v [VInt (of_nat len), order_name little] kw = Inl (Exception (exception_new ''OverflowError'' m)))) \<and>
    (\<forall>bs. length bs = len \<longrightarrow> (\<exists>w. int_from_bytes E [VBytes bs, order_name little] kw = Inr (int_from_bigint w) \<and>
        int_to_bytes E w [VInt (of_nat len), order_name little] kw = Inr (VBytes bs)))"
proof (intro conjI impI allI)
  assume "fits_bytes (is_signed E kw) len v"
  then show "\<exists>bs. length bs = len \<and>
        int_to_bytes E v [VInt (of_nat len), order_name little] kw = Inr (VBytes bs) \<and>
        int_from_bytes E [VBytes bs, order_name little] kw = Inr (int_from_bigint v)"
    using decode_encode [of "is_signed E kw" len v]
    by (intro exI [of _ "if little then rev (encode_bytes len v) else encode_bytes len v"])
      (simp add: to_bytes_eq [OF assms] from_bytes_eq)
next
  fix bs :: "u8 list" assume bs: "length bs = len"
  let ?be = "if little then rev bs else bs"
  have len: "length ?be = len" using bs by simp
  have "fits_bytes (is_signed E kw) len (decode_bytes (is_signed E kw) ?be)"
    using decode_fits_any [of "is_signed E kw" ?be] len by (simp only:)
  moreover have "encode_bytes len (decode_bytes (is_signed E kw) ?be) = ?be"
    using encode_decode [of ?be "is_signed E kw"] len by simp
  ultimately show "\<exists>w. int_from_bytes E [VBytes bs, order_name little] kw = Inr (int_from_bigint w) \<and>
        int_to_bytes E w [VInt (of_nat len), order_name little] kw = Inr (VBytes bs)"
    by (intro exI [of _ "decode_bytes (is_signed E kw) ?be"]) (cases little; simp add: to_bytes_eq [OF assms] from_bytes_eq)
qed (auto simp: to_bytes_eq [OF assms])

theorem bytes_round_trip_witness:
  "\<exists>bs. length bs = 2 \<and> int_to_bytes empty_env 300 [VInt (of_nat 2), order_name True] [] = Inr (VBytes bs) \<and>
    int_from_bytes empty_env [VBytes bs, order_name True] [] = Inr (int_from_bigint 300)"
  using bytes_round_trip [of 2 empty_env "[]" 300 True] by (simp add: fits_bytes_def is_signed_def kwarg_def)

end
