(* ===== verification/Math_Module.thy ===== *)
theory Math_Module
  imports Integers
begin

text \<open>
  The module \<open>math\<close> (\<open>eval/modules/math.rs\<close>).  Its integer functions are compared with the mathematical ones;
  \<open>nextafter\<close> is shown to move one representable number.  The arithmetic of \<open>f64\<close> and the functions of the C library are
  parameters.
\<close>

section \<open>The module math\<close>

text \<open>The functions of the C library on \<open>f64\<close> (\<open>lm1\<close> and \<open>lm2\<close> by the name of the Rust method), the conversions of decimals
  and fractions to \<open>f64\<close>, the integer square root of \<open>num_integer\<close>, and the arms with loops over floating point
  (\<open>frexp\<close>, \<open>ldexp\<close>, the gamma and error functions) are parameters.\<close>

record libm =
  lm1 :: "string \<Rightarrow> f64 \<Rightarrow> f64"
  lm2 :: "string \<Rightarrow> f64 \<Rightarrow> f64 \<Rightarrow> f64"
  decimal_f64 :: "int \<Rightarrow> int \<Rightarrow> f64 option"
  ratio_f64 :: "int \<Rightarrow> int \<Rightarrow> f64 option"
  int_sqrt :: "int \<Rightarrow> int"
  loop_math :: "string \<Rightarrow> pyval list \<Rightarrow> pyval eval_result"

definition value_error :: "string \<Rightarrow> eval_error" where
  "value_error m = Interpreter (ValueError m)"

definition need_value :: "string \<Rightarrow> pyval list \<Rightarrow> nat \<Rightarrow> pyval eval_result" where
  "need_value func vals i = (if i < length vals then Inr (vals ! i)
     else Inl (type_error (func @ ''() missing required argument at position '' @ nat_digits i)))"

fun as_float :: "libm \<Rightarrow> pyval \<Rightarrow> f64 option" where
  "as_float L v = (case v of
       VFloat f \<Rightarrow> Some f
     | VInt i \<Rightarrow> Some (f64_of_int (sint i))
     | VBigInt b \<Rightarrow> Some (f64_of_int b)
     | VBool b \<Rightarrow> Some (f64_of_bool b)
     | VDecimal n s k \<Rightarrow> decimal_f64 L n s
     | VFraction n d \<Rightarrow> ratio_f64 L n d
     | VEnumMember c m inner k \<Rightarrow> if k = IntKind \<or> k = IntFlag then as_float L inner else None
     | _ \<Rightarrow> None)"

declare as_float.simps [simp del]

definition arg_f64 :: "libm \<Rightarrow> string \<Rightarrow> pyval list \<Rightarrow> nat \<Rightarrow> f64 eval_result" where
  "arg_f64 L func vals i = result_bind (need_value func vals i) (\<lambda>v. case as_float L v of
       Some f \<Rightarrow> Inr f
     | None \<Rightarrow> Inl (type_error (func @ ''() expected a number at position '' @ nat_digits i)))"

definition not_an_integer :: "pyval \<Rightarrow> eval_error" where
  "not_an_integer v = type_error (quoted (type_name v) @ '' object cannot be interpreted as an integer'')"

definition nonneg_int :: "string \<Rightarrow> pyval list \<Rightarrow> nat \<Rightarrow> int eval_result" where
  "nonneg_int func vals i = result_bind (need_value func vals i) (\<lambda>v. case value_as_bigint v of
       None \<Rightarrow> Inl (not_an_integer v)
     | Some n \<Rightarrow> if n < 0 then Inl (value_error (func @ ''() argument must be a non-negative integer'')) else Inr n)"

text \<open>The loops \<open>while i < k\<close> of \<open>math_comb\<close> and \<open>math_perm\<close> and \<open>while k <= n\<close> of \<open>factorial\<close>.\<close>

function comb_loop :: "int \<Rightarrow> int \<Rightarrow> int \<Rightarrow> int \<Rightarrow> int" where
  "comb_loop n k i result =
     (if i < k then comb_loop n k (i + 1) (quot (result * (n - k + i + 1)) (i + 1)) else result)"
  by auto
termination by (relation "measure (\<lambda>(n, k, i, r). nat (k - i))") auto

function perm_loop :: "int \<Rightarrow> int \<Rightarrow> int \<Rightarrow> int \<Rightarrow> int" where
  "perm_loop n k i result = (if i < k then perm_loop n k (i + 1) (result * (n - i)) else result)"
  by auto
termination by (relation "measure (\<lambda>(n, k, i, r). nat (k - i))") auto

function factorial_loop :: "int \<Rightarrow> int \<Rightarrow> int \<Rightarrow> int" where
  "factorial_loop n k result = (if k \<le> n then factorial_loop n (k + 1) (result * k) else result)"
  by auto
termination by (relation "measure (\<lambda>(n, k, r). nat (n + 1 - k))") auto

declare comb_loop.simps [simp del] perm_loop.simps [simp del] factorial_loop.simps [simp del]

definition math_comb :: "pyval list \<Rightarrow> pyval eval_result" where
  "math_comb vals =
     result_bind (nonneg_int ''comb'' vals 0) (\<lambda>n.
     result_bind (nonneg_int ''comb'' vals 1) (\<lambda>k.
       if n < k then Inr (VInt 0)
       else let k' = (if n - k < k then n - k else k) in Inr (int_from_bigint (comb_loop n k' 0 1))))"

definition math_perm :: "pyval list \<Rightarrow> pyval eval_result" where
  "math_perm vals =
     result_bind (nonneg_int ''perm'' vals 0) (\<lambda>n.
     result_bind (case (if 1 < length vals then Some (vals ! 1) else None) of
         None \<Rightarrow> Inr n
       | Some VNone \<Rightarrow> Inr n
       | Some v \<Rightarrow> nonneg_int ''perm'' vals 1) (\<lambda>k.
       if n < k then Inr (VInt 0) else Inr (int_from_bigint (perm_loop n k 0 1))))"

definition factorial :: "pyval \<Rightarrow> pyval eval_result" where
  "factorial arg =
     result_bind (case arg of
         VInt i \<Rightarrow> Inr (sint i)
       | VBool b \<Rightarrow> Inr (if b then 1 else 0)
       | VBigInt b \<Rightarrow> Inr b
       | other \<Rightarrow> Inl (not_an_integer other)) (\<lambda>n.
       if n < 0 then Inl (value_error ''factorial() not defined for negative values'')
       else Inr (int_from_bigint (factorial_loop n 2 1)))"

primrec fold_ints :: "(int \<Rightarrow> int \<Rightarrow> int) \<Rightarrow> int \<Rightarrow> pyval list \<Rightarrow> int eval_result" where
  "fold_ints f acc [] = Inr acc"
| "fold_ints f acc (v # vs) = (case value_as_bigint v of
     None \<Rightarrow> Inl (not_an_integer v)
   | Some n \<Rightarrow> fold_ints f (f acc n) vs)"

definition lcm_step :: "int \<Rightarrow> int \<Rightarrow> int" where
  "lcm_step acc n = (if acc = 0 \<or> n = 0 then 0 else \<bar>quot acc (gcd acc n) * n\<bar>)"

definition math_lcm :: "pyval list \<Rightarrow> pyval eval_result" where
  "math_lcm vals = result_bind (fold_ints lcm_step 1 vals) (\<lambda>n. Inr (int_from_bigint n))"

definition math_gcd :: "pyval list \<Rightarrow> pyval eval_result" where
  "math_gcd vals = result_bind (fold_ints gcd 0 vals) (\<lambda>n. Inr (int_from_bigint n))"

definition math_isqrt :: "libm \<Rightarrow> pyval list \<Rightarrow> pyval eval_result" where
  "math_isqrt L vals = result_bind (need_value ''isqrt'' vals 0) (\<lambda>v. case value_as_bigint v of
       None \<Rightarrow> Inl (not_an_integer v)
     | Some n \<Rightarrow> if n < 0 then Inl (value_error ''isqrt() argument must be nonnegative'')
         else Inr (int_from_bigint (int_sqrt L n)))"

primrec prod_loop :: "arith \<Rightarrow> addr \<Rightarrow> env \<Rightarrow> pyval \<Rightarrow> pyval list \<Rightarrow> (env \<times> pyval) run" where
  "prod_loop A fresh E acc [] = Some (Inr (E, acc))"
| "prod_loop A fresh E acc (v # vs) =
     run_bind (apply_binop_builtin A Mul E (fresh + length vs) acc v) (\<lambda>(E', acc'). prod_loop A fresh E' acc' vs)"

definition math_prod :: "arith \<Rightarrow> addr \<Rightarrow> env \<Rightarrow> pyval list \<Rightarrow> kwargs \<Rightarrow> (env \<times> pyval) run" where
  "math_prod A fresh E vals kw =
     run_bind (Some (need_value ''prod'' vals 0)) (\<lambda>v. run_bind (dispatch_iter E v) (\<lambda>items.
       prod_loop A fresh E (case kwarg kw ''start'' of Some s \<Rightarrow> s | None \<Rightarrow> VInt 1) items))"

subsection \<open>Floating-point functions\<close>

definition f64_le :: "f64 \<Rightarrow> f64 \<Rightarrow> bool" where
  "f64_le a b \<longleftrightarrow> f64_lt a b \<or> f64_eq a b"

definition f64_abs :: "f64 \<Rightarrow> f64" where
  "f64_abs f = f AND mask 63"

definition f64_copysign :: "f64 \<Rightarrow> f64 \<Rightarrow> f64" where
  "f64_copysign a b = (a AND mask 63) OR (b AND push_bit 63 1)"

definition f64_nan :: f64 where
  "f64_nan = 0x7FF8000000000000"

definition next_after :: "f64 \<Rightarrow> f64 \<Rightarrow> f64" where
  "next_after x y =
     (if is_nan x \<or> is_nan y then f64_nan
      else if f64_eq x y then y
      else if f64_eq x 0 then f64_copysign 1 y
      else if f64_lt x y = f64_lt 0 x then x + 1 else x - 1)"

definition ulp :: "arith \<Rightarrow> f64 \<Rightarrow> f64" where
  "ulp A v = (let x = f64_abs v in
     if is_nan x \<or> is_infinite x then x
     else if f64_eq x 0 then 1
     else f_sub A (next_after x f64_infinity) x)"

text \<open>One addition of \<open>fsum\<close>: the new partial sums that are not zero, and the last high part.\<close>

primrec fsum_partials :: "arith \<Rightarrow> f64 \<Rightarrow> f64 list \<Rightarrow> f64 list \<times> f64" where
  "fsum_partials A x [] = ([], x)"
| "fsum_partials A x (p # ps) =
     (let a = (if f64_lt (f64_abs x) (f64_abs p) then p else x); b = (if f64_lt (f64_abs x) (f64_abs p) then x else p);
          hi = f_add A a b; lo = f_sub A b (f_sub A hi a);
          rest = fsum_partials A hi ps in
      (if f64_eq lo 0 then fst rest else lo # fst rest, snd rest))"

definition fsum_step :: "arith \<Rightarrow> f64 list \<times> f64 \<times> f64 \<Rightarrow> f64 \<Rightarrow> (f64 list \<times> f64 \<times> f64) eval_result" where
  "fsum_step A st xsave = (case st of (ps, special, infs) \<Rightarrow>
     case fsum_partials A xsave ps of (qs, x) \<Rightarrow>
       if f64_eq x 0 then Inr (qs, special, infs)
       else if is_finite x then Inr (qs @ [x], special, infs)
       else if is_finite xsave then Inl (overflow_error ''intermediate overflow in fsum'')
       else Inr ([], f_add A special xsave, if is_infinite xsave then f_add A infs xsave else infs))"

primrec fsum_loop :: "libm \<Rightarrow> arith \<Rightarrow> f64 list \<times> f64 \<times> f64 \<Rightarrow> pyval list \<Rightarrow> (f64 list \<times> f64 \<times> f64) eval_result" where
  "fsum_loop L A st [] = Inr st"
| "fsum_loop L A st (v # vs) = (case as_float L v of
     None \<Rightarrow> Inl (type_error (''must be real number, not '' @ type_name v))
   | Some x \<Rightarrow> result_bind (fsum_step A st x) (\<lambda>st'. fsum_loop L A st' vs))"

definition math_fsum :: "libm \<Rightarrow> arith \<Rightarrow> env \<Rightarrow> pyval list \<Rightarrow> pyval run" where
  "math_fsum L A E vals =
     run_bind (Some (need_value ''fsum'' vals 0)) (\<lambda>v. run_bind (dispatch_iter E v) (\<lambda>items.
       Some (result_bind (fsum_loop L A ([], 0, 0) items) (\<lambda>(ps, special, infs).
         if \<not> f64_eq special 0 then
           (if is_nan infs then Inl (value_error ''-inf + inf in fsum'') else Inr (VFloat special))
         else Inr (VFloat (foldl (f_add A) 0 ps))))))"

primrec dist_loop :: "libm \<Rightarrow> arith \<Rightarrow> f64 \<Rightarrow> (pyval \<times> pyval) list \<Rightarrow> f64 eval_result" where
  "dist_loop L A s [] = Inr s"
| "dist_loop L A s (p # ps) = (case (as_float L (fst p), as_float L (snd p)) of
     (Some a, Some b) \<Rightarrow> let d = f_sub A a b in dist_loop L A (f_add A s (f_mul A d d)) ps
   | _ \<Rightarrow> Inl (type_error ''coordinates must be numbers''))"

definition math_dist :: "libm \<Rightarrow> arith \<Rightarrow> env \<Rightarrow> pyval list \<Rightarrow> pyval run" where
  "math_dist L A E vals =
     run_bind (Some (need_value ''dist'' vals 0)) (\<lambda>v. run_bind (dispatch_iter E v) (\<lambda>p.
     run_bind (Some (need_value ''dist'' vals 1)) (\<lambda>w. run_bind (dispatch_iter E w) (\<lambda>q.
       Some (if length p \<noteq> length q then Inl (value_error ''both points must have the same number of dimensions'')
         else result_bind (dist_loop L A 0 (zip p q)) (\<lambda>s. Inr (VFloat (lm1 L ''sqrt'' s))))))))"

definition f64_max :: "f64 \<Rightarrow> f64 \<Rightarrow> f64" where
  "f64_max a b = (if is_nan a then b else if is_nan b then a else if f64_lt a b then b else a)"

definition tolerance :: "libm \<Rightarrow> kwargs \<Rightarrow> string \<Rightarrow> f64 \<Rightarrow> f64" where
  "tolerance L kw name d = (case kwarg kw name of None \<Rightarrow> d | Some v \<Rightarrow> (case as_float L v of None \<Rightarrow> d | Some f \<Rightarrow> f))"

definition math_isclose :: "libm \<Rightarrow> arith \<Rightarrow> string \<Rightarrow> pyval list \<Rightarrow> kwargs \<Rightarrow> pyval eval_result" where
  "math_isclose L A func vals kw =
     result_bind (arg_f64 L func vals 0) (\<lambda>a.
     result_bind (arg_f64 L func vals 1) (\<lambda>b.
       let rel_tol = tolerance L kw ''rel_tol'' 0x3E112E0BE826D695; abs_tol = tolerance L kw ''abs_tol'' 0;
           diff = f64_abs (f_sub A a b) in
       if f64_lt rel_tol 0 \<or> f64_lt abs_tol 0 then Inl (value_error ''tolerances must be non-negative'')
       else Inr (VBool (if f64_eq a b then True
         else if is_infinite a \<or> is_infinite b then False
         else f64_le diff (f64_max (f_mul A rel_tol (f64_abs b)) (f_mul A rel_tol (f64_abs a))) \<or> f64_le diff abs_tol))))"

definition domain_error :: eval_error where
  "domain_error = value_error ''math domain error''"

definition domain_pos :: "libm \<Rightarrow> string \<Rightarrow> pyval list \<Rightarrow> f64 eval_result" where
  "domain_pos L func vals = result_bind (arg_f64 L func vals 0) (\<lambda>x. if f64_le x 0 then Inl domain_error else Inr x)"

definition math_log :: "libm \<Rightarrow> string \<Rightarrow> pyval list \<Rightarrow> pyval eval_result" where
  "math_log L func vals = result_bind (domain_pos L func vals) (\<lambda>x.
     if 2 \<le> length vals then
       result_bind (arg_f64 L func vals 1) (\<lambda>b.
         if f64_le b 0 then Inl domain_error
         else if f64_eq b (f64_of_int 1) then Inl (Exception (exception_new ''ZeroDivisionError'' ''float division by zero''))
         else Inr (VFloat (lm2 L ''log'' x b)))
     else Inr (VFloat (lm1 L ''ln'' x)))"

definition math_pow :: "libm \<Rightarrow> string \<Rightarrow> pyval list \<Rightarrow> pyval eval_result" where
  "math_pow L func vals = result_bind (arg_f64 L func vals 0) (\<lambda>x. result_bind (arg_f64 L func vals 1) (\<lambda>y.
     if f64_eq x 0 \<and> f64_lt y 0 then Inl domain_error
     else let r = lm2 L ''powf'' x y in
       if is_nan r \<and> is_finite x \<and> is_finite y then Inl domain_error
       else if is_infinite r \<and> is_finite x \<and> is_finite y then Inl (overflow_error ''math range error'')
       else Inr (VFloat r)))"

primrec hypot_loop :: "libm \<Rightarrow> arith \<Rightarrow> pyval list \<Rightarrow> f64 \<Rightarrow> nat list \<Rightarrow> f64 eval_result" where
  "hypot_loop L A vals s [] = Inr s"
| "hypot_loop L A vals s (i # is) =
     result_bind (arg_f64 L ''hypot'' vals i) (\<lambda>x. hypot_loop L A vals (f_add A s (f_mul A x x)) is)"

text \<open>The names of the arms that only apply a function of \<open>f64\<close>, with the Rust name of the function.\<close>

definition plain_functions :: "(string \<times> string) list" where
  "plain_functions = [(''sinh'', ''sinh''), (''cosh'', ''cosh''), (''tanh'', ''tanh''), (''expm1'', ''exp_m1''), (''log1p'', ''ln_1p''),
     (''sin'', ''sin''), (''cos'', ''cos''), (''tan'', ''tan''), (''atan'', ''atan''), (''radians'', ''to_radians''), (''degrees'', ''to_degrees'')]"

definition math_call :: "libm \<Rightarrow> arith \<Rightarrow> addr \<Rightarrow> env \<Rightarrow> string \<Rightarrow> pyval list \<Rightarrow> kwargs \<Rightarrow> (env \<times> pyval) run" where
  "math_call L A fresh E func vals kw =
     (let x1 = arg_f64 L func vals 0; x2 = arg_f64 L func vals 1;
          pure = (\<lambda>r. Some (result_bind r (\<lambda>v. Inr (E, v)))); running = (\<lambda>r. run_bind r (\<lambda>v. Some (Inr (E, v))));
          float1 = (\<lambda>f. pure (result_bind x1 (\<lambda>x. Inr (VFloat (f x)))));
          float2 = (\<lambda>f. pure (result_bind x1 (\<lambda>x. result_bind x2 (\<lambda>y. Inr (VFloat (f x y))))));
          test = (\<lambda>p. pure (result_bind x1 (\<lambda>x. Inr (VBool (p x)))));
          unit_range = (\<lambda>f. pure (result_bind x1 (\<lambda>x.
            if f64_le (f64_of_int (- 1)) x \<and> f64_le x (f64_of_int 1) then Inr (VFloat (lm1 L f x)) else Inl domain_error))) in
      if func = ''remainder'' then float2 (\<lambda>x y. f_sub A x (f_mul A (lm1 L ''round_ties_even'' (f_div A x y)) y))
      else if func = ''modf'' then pure (result_bind x1 (\<lambda>x. let t = lm1 L ''trunc'' x in Inr (VTuple [VFloat (f_sub A x t), VFloat t])))
      else if func \<in> {''ldexp'', ''frexp'', ''gamma'', ''lgamma'', ''erf'', ''erfc''} then pure (loop_math L func vals)
      else if func = ''comb'' then pure (math_comb vals)
      else if func = ''perm'' then pure (math_perm vals)
      else if func = ''prod'' then math_prod A fresh E vals kw
      else if func = ''fsum'' then running (math_fsum L A E vals)
      else if func = ''dist'' then running (math_dist L A E vals)
      else if func = ''lcm'' then pure (math_lcm vals)
      else if func = ''isclose'' then pure (math_isclose L A func vals kw)
      else if func = ''sqrt'' then pure (result_bind x1 (\<lambda>x. if f64_lt x 0 then Inl domain_error else Inr (VFloat (lm1 L ''sqrt'' x))))
      else if func \<in> {''floor'', ''ceil'', ''trunc''} then pure (result_bind x1 (\<lambda>x. float_to_int_exact (lm1 L func x)))
      else if func = ''fabs'' then float1 f64_abs
      else if func = ''exp'' then pure (result_bind x1 (\<lambda>x. let r = lm1 L ''exp'' x in
        if is_infinite r \<and> is_finite x then Inl (overflow_error ''math range error'') else Inr (VFloat r)))
      else if func = ''log'' then pure (math_log L func vals)
      else if func \<in> {''log2'', ''log10''} then pure (result_bind (domain_pos L func vals) (\<lambda>x. Inr (VFloat (lm1 L func x))))
      else if func = ''pow'' then pure (math_pow L func vals)
      else if func \<in> {''asin'', ''acos''} then unit_range func
      else if func = ''atan2'' then float2 (lm2 L ''atan2'')
      else if func = ''hypot'' then
        (if length vals = 2 then float2 (lm2 L ''hypot'')
         else pure (result_bind (hypot_loop L A vals 0 [0..<length vals]) (\<lambda>s. Inr (VFloat (lm1 L ''sqrt'' s)))))
      else if func = ''copysign'' then float2 f64_copysign
      else if func = ''nextafter'' then float2 next_after
      else if func = ''ulp'' then float1 (ulp A)
      else if func = ''fmod'' then
        pure (result_bind x2 (\<lambda>y. if f64_eq y 0 then Inl domain_error else result_bind x1 (\<lambda>x. Inr (VFloat (lm2 L ''rem'' x y)))))
      else if func = ''isnan'' then test is_nan
      else if func = ''isinf'' then test is_infinite
      else if func = ''isfinite'' then test is_finite
      else if func = ''factorial'' then pure (result_bind (need_value func vals 0) factorial)
      else if func = ''gcd'' then pure (math_gcd vals)
      else if func = ''isqrt'' then pure (math_isqrt L vals)
      else (case map_of plain_functions func of
          Some f \<Rightarrow> float1 (lm1 L f)
        | None \<Rightarrow> pure (Inl (Interpreter (AttributeError (''module '' @ quoted ''math'' @ '' has no attribute '' @ quoted func))))))"

subsection \<open>Exact integer functions\<close>

lemma quot_nonneg: "0 \<le> a \<Longrightarrow> 0 < b \<Longrightarrow> quot a b = a div b"
  by (simp add: quot_def)

lemma comb_step:
  "quot (int (m choose i) * (int m + 1)) (int i + 1) = int (Suc m choose Suc i)"
proof -
  have "int (m choose i) * (int m + 1) = int (Suc m choose Suc i) * (int i + 1)"
    using Suc_times_binomial_eq [of m i] by (metis mult.commute of_nat_Suc of_nat_mult add.commute)
  then show ?thesis by (simp add: quot_nonneg)
qed

lemma comb_loop_choose:
  assumes "i \<le> k" "k \<le> n"
  shows "comb_loop (int n) (int k) (int i) (int ((n - k + i) choose i)) = int (n choose k)"
  using assms
proof (induction "k - i" arbitrary: i)
  case 0
  then show ?case by (simp add: comb_loop.simps)
next
  case (Suc d)
  then have "i < k" "d = k - Suc i" by simp_all
  have step: "quot (int ((n - k + i) choose i) * (int n - int k + int i + 1)) (int i + 1) = int ((n - k + Suc i) choose Suc i)"
  proof -
    have "int n - int k + int i + 1 = int (n - k + i) + 1" using Suc.prems by (simp add: of_nat_diff)
    then show ?thesis using comb_step [of "n - k + i" i] by (simp only: add_Suc_right)
  qed
  have suc: "int i + 1 = int (Suc i)" by simp
  have "comb_loop (int n) (int k) (int i) (int ((n - k + i) choose i)) =
      comb_loop (int n) (int k) (int (Suc i)) (int ((n - k + Suc i) choose Suc i))"
    using \<open>i < k\<close> unfolding comb_loop.simps [of "int n" "int k" "int i"] by (simp only: of_nat_less_iff if_True step) (simp add: suc)
  then show ?case
    using Suc.hyps(1) [OF \<open>d = k - Suc i\<close>] Suc.prems \<open>i < k\<close> by simp
qed

lemma comb_exact: "k \<le> n \<Longrightarrow> comb_loop (int n) (int k) 0 1 = int (n choose k)"
  using comb_loop_choose [of 0 k n] by simp

lemma perm_loop_fact:
  assumes "i \<le> k" "k \<le> n"
  shows "perm_loop (int n) (int k) (int i) r * fact (n - k) = r * fact (n - i)"
  using assms
proof (induction "k - i" arbitrary: i r)
  case 0
  then show ?case by (simp add: perm_loop.simps)
next
  case (Suc d)
  then have "i < k" "d = k - Suc i" by simp_all
  have f: "(fact (n - i) :: int) = (int n - int i) * fact (n - Suc i)"
    using \<open>i < k\<close> Suc.prems by (simp add: fact_reduce of_nat_diff)
  show ?case
    using Suc.hyps(1) [OF \<open>d = k - Suc i\<close>, of "r * (int n - int i)"] Suc.prems \<open>i < k\<close>
    by (subst perm_loop.simps) (simp add: f add.commute [of "int i" 1])
qed

lemma perm_exact: "k \<le> n \<Longrightarrow> perm_loop (int n) (int k) 0 1 = fact n div fact (n - k)"
proof -
  assume "k \<le> n"
  then have "(fact n :: int) div fact (n - k) = perm_loop (int n) (int k) 0 1 * fact (n - k) div fact (n - k)"
    using perm_loop_fact [of 0 k n 1] by simp
  also have "\<dots> = perm_loop (int n) (int k) 0 1" by (rule nonzero_mult_div_cancel_right) simp
  finally show ?thesis by (rule sym)
qed

lemma factorial_loop_fact: "k \<le> n \<Longrightarrow> factorial_loop (int n) (int k + 1) (fact k) = fact n"
proof (induction "n - k" arbitrary: k)
  case 0
  then show ?case by (simp add: factorial_loop.simps)
next
  case (Suc d)
  then have "k < n" "d = n - Suc k" by simp_all
  then show ?case
    using Suc.hyps(1) [of "Suc k"] by (subst factorial_loop.simps) (simp add: algebra_simps)
qed

lemma factorial_exact: "factorial_loop (int n) 2 1 = fact n"
  using factorial_loop_fact [of 1 n] by (cases "n = 0") (simp_all add: factorial_loop.simps [of 0])

lemma factorial_bigint:
  "factorial (int_from_bigint m) = (if m < 0 then Inl (value_error ''factorial() not defined for negative values'')
     else Inr (int_from_bigint (factorial_loop m 2 1)))"
proof (cases "checked_i64 m")
  case (Some i)
  then have "int_from_bigint m = VInt i" "sint i = m" by (simp add: int_from_bigint_def) (use Some checked_i64_Some in simp)
  then show ?thesis by (simp add: factorial_def del: from_sint)
next
  case None
  then have "int_from_bigint m = VBigInt m" by (simp add: int_from_bigint_def)
  then show ?thesis by (simp add: factorial_def)
qed

lemma lcm_step_lcm: "0 \<le> acc \<Longrightarrow> lcm_step acc n = lcm acc n"
proof -
  assume "0 \<le> acc"
  have "\<bar>acc div gcd acc n * n\<bar> = lcm acc n" if "acc \<noteq> 0" "n \<noteq> 0"
    by (simp add: lcm_gcd dvd_div_mult abs_mult normalize_mult)
  moreover have "acc \<noteq> 0 \<Longrightarrow> 0 < gcd acc n" by (simp add: gcd_pos_int)
  ultimately show ?thesis using \<open>0 \<le> acc\<close> by (simp add: lcm_step_def quot_nonneg)
qed

lemma fold_gcd: "map value_as_bigint vs = map Some ns \<Longrightarrow> fold_ints gcd a vs = Inr (gcd a (Gcd (set ns)))" if "0 \<le> a" for a
  using that
proof (induction vs arbitrary: ns a)
  case (Cons v vs)
  then obtain n ms where "ns = n # ms" "value_as_bigint v = Some n" "map value_as_bigint vs = map Some ms" by (cases ns) auto
  then show ?case using Cons.IH [of ms "gcd a n"] by (simp add: gcd.assoc)
qed simp

lemma fold_lcm: "map value_as_bigint vs = map Some ns \<Longrightarrow> fold_ints lcm_step a vs = Inr (lcm a (Lcm (set ns)))" if "0 \<le> a" for a
  using that
proof (induction vs arbitrary: ns a)
  case (Cons v vs)
  then obtain n ms where "ns = n # ms" "value_as_bigint v = Some n" "map value_as_bigint vs = map Some ms" by (cases ns) auto
  then show ?case using Cons.IH [of ms "lcm a n"] Cons.prems by (simp add: lcm.assoc lcm_step_lcm)
qed simp

lemma nonneg_int_nat:
  assumes "i < length vals" "value_as_bigint (vals ! i) = Some (int n)"
  shows "nonneg_int func vals i = Inr (int n)"
  using assms by (simp add: nonneg_int_def need_value_def)

lemma from_bigint_zero: "int_from_bigint 0 = VInt 0"
  by (simp add: int_from_bigint_VInt in_i64_def)



subsection \<open>One step of nextafter\<close>

lemma is_nan_mag: "is_nan b \<longleftrightarrow> 2047 * 2 ^ 52 < f64_mag b"
proof -
  define e f where "e = f64_exp b" and "f = f64_frac b"
  have "f64_mag b = e * 2 ^ 52 + f" "0 \<le> f" "f < 2 ^ 52" "e \<le> 2047"
    unfolding e_def f_def by (rule f64_exp_frac f64_frac_bounds f64_exp_bounds)+
  then show ?thesis unfolding is_nan_def e_def [symmetric] f_def [symmetric] by (cases "e = 2047") auto
qed

lemma split_sign: "0 \<le> u \<Longrightarrow> u < 2 ^ 64 \<Longrightarrow> u = (if 2 ^ 63 \<le> u then 2 ^ 63 else 0) + u mod 2 ^ 63" for u :: int
proof (cases "2 ^ 63 \<le> u")
  case True
  assume "u < 2 ^ 64"
  then have "(u - 2 ^ 63) mod 2 ^ 63 = u - 2 ^ 63" using True by (intro mod_pos_pos_trivial) simp_all
  then have "u mod 2 ^ 63 = u - 2 ^ 63" by (simp only: minus_mod_self2)
  then show ?thesis using True by simp
qed simp

lemma uint_parts: "uint b = (if f64_sign b then 2 ^ 63 else 0) + f64_mag b"
proof -
  have "uint b < 2 ^ 64" using uint_bounded [of b] by simp
  then show ?thesis unfolding f64_sign_def f64_mag_def by (rule split_sign [OF unsigned_greater_eq])
qed

lemma f64_key_parts: "uint b = (if s then 2 ^ 63 else 0) + m \<Longrightarrow> 0 \<le> m \<Longrightarrow> m < 2 ^ 63 \<Longrightarrow>
  f64_sign b = s \<and> f64_mag b = m"
  by (auto simp: f64_sign_def f64_mag_def)

lemma uint_succ: "uint (b :: f64) + 1 < 2 ^ 64 \<Longrightarrow> uint (b + 1) = uint b + 1"
  by (simp add: uint_word_ariths(1) take_bit_eq_mod)

lemma uint_pred: "0 < uint (b :: f64) \<Longrightarrow> uint (b - 1) = uint b - 1"
  using uint_bounded [of b] by (simp add: uint_word_ariths(2) take_bit_eq_mod)

lemma step_up:
  assumes "f64_mag b < 2047 * 2 ^ 52"
  shows "f64_sign (b + 1) = f64_sign b \<and> f64_mag (b + 1) = f64_mag b + 1"
proof -
  have "uint (b + 1) = uint b + 1" using uint_parts [of b] assms by (intro uint_succ) (auto split: if_splits)
  then show ?thesis using uint_parts [of b] assms by (intro f64_key_parts) (auto split: if_splits)
qed

lemma step_down:
  assumes "0 < f64_mag b"
  shows "f64_sign (b - 1) = f64_sign b \<and> f64_mag (b - 1) = f64_mag b - 1"
proof -
  have "uint (b - 1) = uint b - 1" using uint_parts [of b] assms by (intro uint_pred) (auto split: if_splits)
  then show ?thesis using uint_parts [of b] f64_mag_nonneg [of b] assms by (intro f64_key_parts) (auto split: if_splits)
qed

lemma key_zero: "f64_key 0 = 0" "\<not> is_nan 0"
  by (simp_all add: f64_key_def f64_mag_def is_nan_mag)

lemma tiny: "f64_sign (f64_copysign 1 y) = f64_sign y \<and> f64_mag (f64_copysign 1 y) = 1"
proof -
  have m: "(1 :: f64) AND mask 63 = 1" by (simp flip: take_bit_eq_mask)
  have s: "y AND push_bit 63 1 = (if bit y 63 then push_bit 63 1 else 0)"
  proof (rule bit_eqI)
    fix n assume "possible_bit TYPE(64 word) n"
    then have "n < 64" by simp
    then show "bit (y AND push_bit 63 1) n \<longleftrightarrow> bit (if bit y 63 then push_bit 63 1 else (0 :: f64)) n"
      by (cases "n = 63") (auto simp: bit_and_iff bit_push_bit_iff bit_1_iff simp del: push_bit_of_1)
  qed
  have b: "bit y 63 \<longleftrightarrow> f64_sign y"
  proof -
    have "bit y 63 \<longleftrightarrow> odd (uint y div 2 ^ 63)"
      using bit_unsigned_iff [of y 63, where ?'a = int] by (simp only: possible_bit_int simp_thms bit_iff_odd [of "uint y", symmetric])
    also have "uint y div 2 ^ 63 = (if f64_sign y then 1 else 0)"
      using uint_parts [of y] f64_mag_nonneg [of y] by (auto simp: div_pos_pos_trivial)
    finally show ?thesis by simp
  qed
  show ?thesis unfolding f64_copysign_def m s b
    by (intro f64_key_parts) (simp_all add: push_bit_eq_mult)
qed

text \<open>\<open>nextafter\<close> moves exactly one representable number toward its target: on the scale of the finite and infinite
  numbers in their order the result is the neighbour of the first argument in the direction of the second, across zero and
  at the largest number too, and it is never a NaN unless an argument is.\<close>

theorem nextafter_steps:
  assumes "\<not> is_nan x" "\<not> is_nan y"
  shows "\<not> is_nan (next_after x y) \<and> f64_key (next_after x y) = f64_key x + sgn (f64_key y - f64_key x)"
proof (cases "f64_key x = f64_key y")
  case False
  have mx: "f64_mag x \<le> 2047 * 2 ^ 52" and my: "f64_mag y \<le> 2047 * 2 ^ 52"
    using assms by (simp_all add: is_nan_mag)
  note nonneg = f64_mag_nonneg(1) [of x] f64_mag_nonneg(1) [of y]
  have ne: "next_after x y = (if f64_key x = 0 then f64_copysign 1 y
      else if (f64_key x < f64_key y) = (0 < f64_key x) then x + 1 else x - 1)"
    using False assms by (simp add: next_after_def f64_eq_def f64_lt_def key_zero)
  consider (zero) "f64_key x = 0" | (up) "f64_key x \<noteq> 0" "(f64_key x < f64_key y) = (0 < f64_key x)"
    | (down) "f64_key x \<noteq> 0" "(f64_key x < f64_key y) \<noteq> (0 < f64_key x)" by blast
  then show ?thesis
  proof cases
    case zero
    then show ?thesis using tiny [of y] False nonneg
      by (auto simp: ne is_nan_mag f64_key_def sgn_if simp del: f64_mag_nonneg split: if_splits)
  next
    case up
    then have "f64_mag x < 2047 * 2 ^ 52" using mx my False nonneg
      by (auto simp: f64_key_def simp del: f64_mag_nonneg split: if_splits)
    then show ?thesis using up step_up [of x] False nonneg
      by (auto simp: ne is_nan_mag f64_key_def sgn_if simp del: f64_mag_nonneg split: if_splits)
  next
    case down
    then have "0 < f64_mag x" using nonneg by (auto simp: f64_key_def simp del: f64_mag_nonneg split: if_splits)
    then show ?thesis using down step_down [of x] mx False nonneg
      by (auto simp: ne is_nan_mag f64_key_def sgn_if simp del: f64_mag_nonneg split: if_splits)
  qed
qed (use assms in \<open>simp add: next_after_def f64_eq_def\<close>)

theorem nextafter_steps_witness:
  "f64_key (next_after (f64_of_int 0) (f64_of_int 1)) = f64_key (f64_of_int 0) + sgn (f64_key (f64_of_int 1) - f64_key (f64_of_int 0))"
  using nextafter_steps [of "f64_of_int 0" "f64_of_int 1"]
  by (simp add: f64_of_int_def f64_round_nat_def is_nan_mag f64_mag_def bit_length.simps)

end
