(* ===== verification/Int_Text.thy ===== *)
theory Int_Text
  imports Math_Module
begin

text \<open>
  Modular powers (\<open>pow_three_arg\<close> of \<open>helpers.rs\<close>), integers as text (\<open>parse_int_str\<close>, \<open>bin\<close>, \<open>oct\<close>, \<open>hex\<close>)
  and the built-in functions \<open>int\<close>, \<open>chr\<close>, \<open>ord\<close>, \<open>range\<close>, \<open>abs\<close>, \<open>round\<close> and \<open>divmod\<close> (\<open>builtins.rs\<close>).
\<close>

section \<open>Modular powers\<close>

lemma quot_rest_less: "r \<noteq> 0 \<Longrightarrow> \<bar>a - quot a r * r\<bar> < \<bar>r\<bar>"
proof -
  assume r: "r \<noteq> 0"
  define d m where "d = \<bar>a\<bar> div \<bar>r\<bar>" and "m = \<bar>a\<bar> mod \<bar>r\<bar>"
  have parts: "\<bar>a\<bar> = d * \<bar>r\<bar> + m" "0 \<le> m" "m < \<bar>r\<bar>" using r by (simp_all add: d_def m_def)
  have "quot a r = (if (a < 0) = (r < 0) then d else - d)" by (simp only: quot_def d_def)
  then have "quot a r * r = (if a < 0 then - (d * \<bar>r\<bar>) else d * \<bar>r\<bar>)" by (simp add: abs_if)
  then have "a - quot a r * r = m \<or> a - quot a r * r = - m" using parts(1) by (auto simp: abs_if [of a] split: if_splits)
  then show ?thesis using parts(2,3) by auto
qed

text \<open>The extended Euclidean algorithm on \<open>i128\<close>, whose values stay far below its bounds.\<close>

function egcd_loop :: "int \<Rightarrow> int \<Rightarrow> int \<Rightarrow> int \<Rightarrow> int \<times> int" where
  "egcd_loop old_r r old_s s =
     (if r = 0 then (old_r, old_s)
      else let q = quot old_r r in egcd_loop r (old_r - q * r) s (old_s - q * s))"
  by auto

termination
  by (relation "measure (\<lambda>(old_r, r, old_s, s). nat \<bar>r\<bar>)") (auto simp: quot_rest_less)

declare egcd_loop.simps [simp del]

definition mod_inverse :: "int \<Rightarrow> int \<Rightarrow> i64 option" where
  "mod_inverse a m =
     (let modulus = \<bar>m\<bar> in
      case egcd_loop (a mod modulus) modulus 1 0 of (old_r, old_s) \<Rightarrow>
        if old_r \<noteq> 1 then None else checked_i64 (old_s mod modulus))"

text \<open>Square and multiply: the loop \<open>while e > 0\<close> on \<open>u128\<close>, whose products stay below \<open>2 ^ 126\<close>.\<close>

fun pow_loop :: "int \<Rightarrow> nat \<Rightarrow> int \<Rightarrow> int \<Rightarrow> int" where
  "pow_loop m e b result =
     (if e = 0 then result
      else pow_loop m (e div 2) (b * b mod m) (if odd e then result * b mod m else result))"

declare pow_loop.simps [simp del]

definition pow_operand :: "pyval \<Rightarrow> i64 eval_result" where
  "pow_operand v = (case value_as_bigint v of
       None \<Rightarrow> Inl (type_error ''pow() 3rd argument not allowed unless all arguments are integers'')
     | Some n \<Rightarrow> (case checked_i64 n of
         None \<Rightarrow> Inl (type_error ''pow() 3rd argument not allowed unless all arguments are integers'')
       | Some i \<Rightarrow> Inr i))"

text \<open>\<open>i64::rem_euclid\<close> panics on \<open>i64::MIN\<close> and \<open>-1\<close>.\<close>

definition rem_euclid :: "i64 \<Rightarrow> i64 \<Rightarrow> int option" where
  "rem_euclid a m = (if sint a = - (2 ^ 63) \<and> sint m = - 1 then None else Some (sint a mod \<bar>sint m\<bar>))"

definition not_invertible :: eval_error where
  "not_invertible = Exception (exception_new ''ValueError'' ''base is not invertible for the given modulus'')"

definition effective_base :: "i64 \<Rightarrow> i64 \<Rightarrow> i64 \<Rightarrow> i64 run" where
  "effective_base base e m =
     (if sint e < 0 then (case rem_euclid base m of
          None \<Rightarrow> None
        | Some a \<Rightarrow> (case mod_inverse a (sint m) of None \<Rightarrow> Some (Inl not_invertible) | Some i \<Rightarrow> Some (Inr i)))
      else Some (Inr base))"

definition pow_three_arg :: "pyval \<Rightarrow> pyval \<Rightarrow> pyval \<Rightarrow> pyval run" where
  "pow_three_arg base e modulus =
     run_bind (Some (pow_operand base)) (\<lambda>base_i. run_bind (Some (pow_operand e)) (\<lambda>exp_i. run_bind (Some (pow_operand modulus)) (\<lambda>mod_i.
       if mod_i = 0 then Some (Inl (Exception (exception_new ''ValueError'' ''pow() 3rd argument cannot be 0'')))
       else run_bind (effective_base base_i exp_i mod_i) (\<lambda>b_i.
         case rem_euclid b_i mod_i of None \<Rightarrow> None | Some b \<Rightarrow>
           let result = pow_loop \<bar>sint mod_i\<bar> (nat \<bar>sint exp_i\<bar>) b 1 in
           (case checked_i64 result of
              None \<Rightarrow> Some (Inl (Interpreter (Runtime ''pow() result out of i64 range: out of range integral type conversion attempted'')))
            | Some sgnd \<Rightarrow> Some (Inr (VInt (if sint mod_i < 0 \<and> sgnd \<noteq> 0 then sgnd + mod_i else sgnd))))))))"

subsection \<open>Correctness\<close>

lemma pow_loop_correct:
  assumes "0 < m" "e \<noteq> 0"
  shows "pow_loop m e b r = r * b ^ e mod m"
  using assms
proof (induction m e b r rule: pow_loop.induct)
  case (1 m e b r)
  show ?case
  proof (cases "e = 1")
    case True
    then show ?thesis by (simp add: pow_loop.simps [of m "Suc 0"] pow_loop.simps [of m 0])
  next
    case False
    then have half: "e div 2 \<noteq> 0" using 1(3) by simp
    let ?r = "if odd e then r * b mod m else r"
    have "pow_loop m e b r = ?r * (b * b mod m) ^ (e div 2) mod m"
      using 1 half by (subst pow_loop.simps) simp
    also have "\<dots> = (?r mod m) * ((b * b) ^ (e div 2) mod m) mod m"
      by (metis mod_mult_eq power_mod)
    also have "?r mod m = r * b ^ (e mod 2) mod m" by (auto simp: odd_iff_mod_2_eq_one)
    also have "r * b ^ (e mod 2) mod m * ((b * b) ^ (e div 2) mod m) mod m = r * (b ^ (e mod 2) * (b * b) ^ (e div 2)) mod m"
      by (simp add: mod_mult_eq mult.assoc)
    also have "b ^ (e mod 2) * (b * b) ^ (e div 2) = b ^ (e mod 2 + 2 * (e div 2))"
      by (simp only: power_add power_mult power2_eq_square)
    also have "e mod 2 + 2 * (e div 2) = e" by simp
    finally show ?thesis .
  qed
qed

lemma egcd_invariant:
  assumes "egcd_loop old_r r old_s s = (g, t)" "old_r mod m = old_s * a mod m" "r mod m = s * a mod m" "0 \<le> old_r" "0 \<le> r"
  shows "g mod m = t * a mod m \<and> g = gcd old_r r"
  using assms
proof (induction old_r r old_s s rule: egcd_loop.induct)
  case (1 old_r r old_s s)
  show ?case
  proof (cases "r = 0")
    case False
    let ?q = "quot old_r r"
    have rest: "old_r - ?q * r = old_r mod r" using False 1(5,6) by (simp add: quot_nonneg minus_div_mult_eq_mod)
    have cong: "(old_r - ?q * r) mod m = (old_s - ?q * s) * a mod m"
    proof -
      have "?q * r mod m = ?q * (s * a) mod m" using 1(4) by (metis mod_mult_right_eq)
      then have "(old_r - ?q * r) mod m = (old_s * a - ?q * (s * a)) mod m" by (rule mod_diff_cong [OF 1(3)])
      then show ?thesis by (simp only: left_diff_distrib mult.assoc)
    qed
    have "egcd_loop old_r r old_s s = egcd_loop r (old_r - ?q * r) s (old_s - ?q * s)"
      using False by (subst egcd_loop.simps) (simp only: if_False Let_def)
    then have loop: "egcd_loop r (old_r - ?q * r) s (old_s - ?q * s) = (g, t)" using 1(2) by (simp only:)
    have nonneg: "0 \<le> old_r - ?q * r" unfolding rest using False 1(6) by simp
    have "g mod m = t * a mod m \<and> g = gcd r (old_r - ?q * r)"
      by (rule 1(1) [OF False refl loop 1(4) cong 1(6) nonneg])
    then show ?thesis unfolding rest gcd_red_int [of old_r r] .
  qed (use 1 in \<open>simp add: egcd_loop.simps\<close>)
qed

lemma mod_inverse_correct:
  assumes "m \<noteq> 0" "\<bar>m\<bar> \<le> 2 ^ 63"
  shows "if gcd a m = 1 then (\<exists>i. mod_inverse a m = Some i \<and> 0 \<le> sint i \<and> sint i * a mod m = 1 mod m)
    else mod_inverse a m = None"
proof -
  obtain g t where e: "egcd_loop (a mod \<bar>m\<bar>) \<bar>m\<bar> 1 0 = (g, t)" by fastforce
  have "gcd (a mod \<bar>m\<bar>) \<bar>m\<bar> = gcd a m" using gcd_red_int [of a "\<bar>m\<bar>"] by (simp add: gcd.commute)
  then have inv: "g mod \<bar>m\<bar> = t * a mod \<bar>m\<bar>" "g = gcd a m"
    using egcd_invariant [OF e, of "\<bar>m\<bar>" a] assms(1) by auto
  have range: "0 \<le> t mod \<bar>m\<bar>" "t mod \<bar>m\<bar> < \<bar>m\<bar>" using assms(1) by simp_all
  then have "in_i64 (t mod \<bar>m\<bar>)" using assms(2) by (simp add: in_i64_def)
  then have c: "checked_i64 (t mod \<bar>m\<bar>) = Some (word_of_int (t mod \<bar>m\<bar>))" "sint (word_of_int (t mod \<bar>m\<bar>) :: i64) = t mod \<bar>m\<bar>"
    by (simp_all add: checked_i64_def sint_word_of_int_i64)
  have "t mod \<bar>m\<bar> * a mod m = 1 mod m" if "gcd a m = 1"
  proof -
    have "\<bar>m\<bar> dvd t * a - 1" using inv that by (metis mod_eq_dvd_iff)
    moreover have "\<bar>m\<bar> dvd (t mod \<bar>m\<bar>) * a - t * a" by (metis mod_eq_dvd_iff mod_mult_left_eq)
    ultimately have "\<bar>m\<bar> dvd (t mod \<bar>m\<bar>) * a - 1" by (metis dvd_add diff_add_cancel add_diff_eq)
    then show ?thesis by (simp add: mod_eq_dvd_iff)
  qed
  then show ?thesis using range c by (auto simp: mod_inverse_def e inv Let_def)
qed

lemma i64_abs_le: "\<bar>sint (m :: i64)\<bar> \<le> 2 ^ 63"
  using in_i64_sint [of m] by (simp add: in_i64_def abs_if)

lemma rem_euclid_mod: "rem_euclid a m = Some b \<Longrightarrow> b = sint a mod \<bar>sint m\<bar>"
  by (simp add: rem_euclid_def split: if_splits)

lemma mod_abs_cong: "a mod \<bar>m\<bar> = b mod \<bar>m\<bar> \<Longrightarrow> a mod m = b mod m" for a :: int
  by (simp add: mod_eq_dvd_iff)

lemma signed_result:
  fixes m n :: int
  assumes "m \<noteq> 0" "0 \<le> n" "n < \<bar>m\<bar>"
  shows "(if m < 0 \<and> n \<noteq> 0 then n + m else n) = n mod m"
proof (cases "0 < m")
  case False
  then have m: "m < 0" using assms(1) by simp
  show ?thesis
  proof (cases "n = 0")
    case False
    have "n mod m = (n + m) mod m" by simp
    also have "\<dots> = n + m" using m assms False by (intro mod_neg_neg_trivial) simp_all
    finally show ?thesis using m False by simp
  qed simp
qed (use assms in simp)

text \<open>The result of the final steps: the power reduced by the modulus, with the sign of the modulus.\<close>

lemma pow_finish:
  assumes "m \<noteq> 0" "rem_euclid b m = Some c" "e \<noteq> 0 \<or> sint m \<noteq> 1"
  shows "(case checked_i64 (pow_loop \<bar>sint m\<bar> e c 1) of
       None \<Rightarrow> Some (Inl err)
     | Some s \<Rightarrow> Some (Inr (VInt (if sint m < 0 \<and> s \<noteq> 0 then s + m else s)))) =
     Some (Inr (VInt (word_of_int (sint b ^ e mod sint m))))"
proof -
  have m: "sint m \<noteq> 0" using assms(1) by simp
  define n where "n = pow_loop \<bar>sint m\<bar> e c 1"
  have n: "n mod sint m = sint b ^ e mod sint m \<and> 0 \<le> n \<and> (n < \<bar>sint m\<bar> \<or> n = 1 \<and> sint m = - 1)"
  proof (cases "e = 0")
    case True
    then have "1 < \<bar>sint m\<bar> \<or> sint m = - 1" using m assms(3) by linarith
    then show ?thesis using True by (auto simp: n_def pow_loop.simps [of _ 0])
  next
    case False
    then have "n = c ^ e mod \<bar>sint m\<bar>" using pow_loop_correct [of "\<bar>sint m\<bar>" e c 1] m by (simp add: n_def)
    moreover have "c ^ e mod \<bar>sint m\<bar> = sint b ^ e mod \<bar>sint m\<bar>" using rem_euclid_mod [OF assms(2)] by (simp add: power_mod)
    ultimately show ?thesis using m mod_abs_cong [of n "sint m" "sint b ^ e"] by simp
  qed
  then have range: "in_i64 n" using i64_abs_le [of m] by (auto simp: in_i64_def)
  then have c: "checked_i64 n = Some (word_of_int n)" "sint (word_of_int n :: i64) = n"
    by (simp_all add: checked_i64_def sint_word_of_int_i64)
  then have zero: "(word_of_int n :: i64) = 0 \<longleftrightarrow> n = 0" by (metis sint_0 word_of_int_0)
  have "(if sint m < 0 \<and> n \<noteq> 0 then n + sint m else n) = n mod sint m"
    using n signed_result [OF m, of n] by auto
  then have "(if sint m < 0 \<and> (word_of_int n :: i64) \<noteq> 0 then word_of_int n + m else word_of_int n) = word_of_int (n mod sint m)"
    unfolding zero by (metis wi_hom_add word_of_int_sint_i64)
  then show ?thesis using n by (simp add: n_def [symmetric] c)
qed

lemma pow_operand_int: "value_as_bigint v = Some (sint i) \<Longrightarrow> pow_operand v = Inr i"
  by (simp add: pow_operand_def)

text \<open>C31: The three-argument \<open>pow\<close> is the power modulo its third argument with the sign of that argument, for three
  integers of 64 bits (booleans included) with a modulus other than 0 and \<open>-1\<close>, and not for the exponent 0 with the
  modulus 1 (where the code gives 1).  For an exponent that is not negative it is \<open>base ^ e mod m\<close> in unbounded
  arithmetic although the loop works on reduced numbers; for a negative exponent it is a power of a number whose product
  with the base is one modulo \<open>m\<close>, or a \<open>ValueError\<close> when the base and the modulus have a common divisor.\<close>

theorem pow_mod_correct:
  fixes b e m :: i64
  assumes "value_as_bigint vb = Some (sint b)" "value_as_bigint ve = Some (sint e)" "value_as_bigint vm = Some (sint m)"
    "m \<noteq> 0" "sint m \<noteq> - 1" "e \<noteq> 0 \<or> sint m \<noteq> 1"
  shows "(0 \<le> sint e \<longrightarrow> pow_three_arg vb ve vm = Some (Inr (VInt (word_of_int (sint b ^ nat (sint e) mod sint m))))) \<and>
    (sint e < 0 \<longrightarrow> gcd (sint b) (sint m) = 1 \<longrightarrow> (\<exists>i. i * sint b mod sint m = 1 mod sint m \<and>
       pow_three_arg vb ve vm = Some (Inr (VInt (word_of_int (i ^ nat (- sint e) mod sint m)))))) \<and>
    (sint e < 0 \<longrightarrow> gcd (sint b) (sint m) \<noteq> 1 \<longrightarrow> pow_three_arg vb ve vm = Some (Inl not_invertible))"
proof -
  have ops: "pow_operand vb = Inr b" "pow_operand ve = Inr e" "pow_operand vm = Inr m"
    using assms by (simp_all add: pow_operand_int)
  have rem: "rem_euclid x m = Some (sint x mod \<bar>sint m\<bar>)" for x using assms(5) by (simp add: rem_euclid_def)
  have fin: "pow_three_arg vb ve vm = Some (Inr (VInt (word_of_int (sint x ^ nat \<bar>sint e\<bar> mod sint m))))"
    if "effective_base b e m = Some (Inr x)" for x
  proof -
    have "nat \<bar>sint e\<bar> \<noteq> 0 \<or> sint m \<noteq> 1" using assms(6) by auto
    from pow_finish [OF assms(4) rem this] show ?thesis
      using assms(4) that by (simp add: pow_three_arg_def ops run_bind_def rem Let_def)
  qed
  have inv: "if gcd (sint b) (sint m) = 1
      then (\<exists>i. mod_inverse (sint b mod \<bar>sint m\<bar>) (sint m) = Some i \<and> 0 \<le> sint i \<and> sint i * sint b mod sint m = 1 mod sint m)
      else mod_inverse (sint b mod \<bar>sint m\<bar>) (sint m) = None"
  proof -
    have g: "gcd (sint b mod \<bar>sint m\<bar>) (sint m) = gcd (sint b) (sint m)"
      using gcd_red_int [of "sint b" "\<bar>sint m\<bar>"] by (simp add: gcd.commute)
    have c: "i * (sint b mod \<bar>sint m\<bar>) mod sint m = i * sint b mod sint m" for i
      by (rule mod_abs_cong) (simp add: mod_mult_right_eq)
    have "sint m \<noteq> 0" using assms(4) by simp
    from mod_inverse_correct [OF this i64_abs_le, of "sint b mod \<bar>sint m\<bar>"] show ?thesis by (simp only: g c)
  qed
  show ?thesis
  proof (intro conjI impI)
    assume "0 \<le> sint e"
    then show "pow_three_arg vb ve vm = Some (Inr (VInt (word_of_int (sint b ^ nat (sint e) mod sint m))))"
      using fin [of b] by (simp add: effective_base_def)
  next
    assume neg: "sint e < 0" and "gcd (sint b) (sint m) = 1"
    then obtain i where i: "mod_inverse (sint b mod \<bar>sint m\<bar>) (sint m) = Some i" "sint i * sint b mod sint m = 1 mod sint m"
      using inv by auto
    then show "\<exists>i. i * sint b mod sint m = 1 mod sint m \<and>
       pow_three_arg vb ve vm = Some (Inr (VInt (word_of_int (i ^ nat (- sint e) mod sint m))))"
      using fin [of i] neg by (intro exI [of _ "sint i"]) (simp add: effective_base_def rem)
  next
    assume "sint e < 0" "gcd (sint b) (sint m) \<noteq> 1"
    then show "pow_three_arg vb ve vm = Some (Inl not_invertible)"
      using inv assms(4) by (simp add: pow_three_arg_def ops run_bind_def effective_base_def rem)
  qed
qed

theorem pow_mod_correct_witness:
  "pow_three_arg (VInt 3) (VInt 5) (VInt 7) = Some (Inr (VInt (word_of_int (3 ^ nat 5 mod 7))))"
  using pow_mod_correct [of "VInt 3" 3 "VInt 5" 5 "VInt 7" 7] by (simp add: value_as_bigint.simps)

text \<open>The two excluded cases: the result is not reduced when the loop does not run, and the remainder of the smallest number
  by \<open>-1\<close> panics.\<close>

lemma pow_mod_gaps:
  "pow_three_arg (VInt 2) (VInt 0) (VInt 1) = Some (Inr (VInt 1)) \<and>
   pow_three_arg (VInt (word_of_int (- (2 ^ 63)))) (VInt 1) (VInt (- 1)) = None"
  by (simp add: pow_three_arg_def pow_operand_def value_as_bigint.simps run_bind_def effective_base_def rem_euclid_def pow_loop.simps
      checked_i64_def in_i64_def)

section \<open>Integers as text\<close>

text \<open>What the conversions take from outside: \<open>BigInt::from_str_radix\<close>, the \<open>repr\<close> of a string, the decoding of UTF-8, the
  conversion methods of instances, and the truncation of a decimal.\<close>

record int_env =
  from_str_radix :: "pystr \<Rightarrow> nat \<Rightarrow> int option"
  str_repr :: "pystr \<Rightarrow> string"
  from_utf8 :: "u8 list \<Rightarrow> pystr option"
  dunder :: "pyval \<Rightarrow> string \<Rightarrow> pyval eval_result option"
  decimal_trunc :: "int \<Rightarrow> int \<Rightarrow> int"

text \<open>The code points of \<open>char::is_whitespace\<close>.\<close>

definition is_whitespace :: "nat \<Rightarrow> bool" where
  "is_whitespace c \<longleftrightarrow> 9 \<le> c \<and> c \<le> 13 \<or> 0x2000 \<le> c \<and> c \<le> 0x200A \<or>
     c \<in> {32, 0x85, 0xA0, 0x1680, 0x2028, 0x2029, 0x202F, 0x205F, 0x3000}"

definition trim_text :: "pystr \<Rightarrow> pystr" where
  "trim_text s = rev (dropWhile is_whitespace (rev (dropWhile is_whitespace s)))"

definition lower_ascii :: "nat \<Rightarrow> nat" where
  "lower_ascii c = (if 65 \<le> c \<and> c \<le> 90 then c + 32 else c)"

definition strip_ci :: "pystr \<Rightarrow> string \<Rightarrow> pystr option" where
  "strip_ci s prefix =
     (if length prefix \<le> length s \<and> map lower_ascii (take (length prefix) s) = map lower_ascii (str_of prefix)
      then Some (drop (length prefix) s) else None)"

primrec drop_underscores :: "bool \<Rightarrow> pystr \<Rightarrow> pystr option" where
  "drop_underscores prev [] = Some []"
| "drop_underscores prev (c # s) =
     (if c = 95 then (if prev then None else drop_underscores True s)
      else map_option (\<lambda>t. c # t) (drop_underscores False s))"

text \<open>The bytes of a string, each of which the code reads as a character of its own.\<close>

definition utf8_char :: "nat \<Rightarrow> nat list" where
  "utf8_char c =
     (if c < 0x80 then [c]
      else if c < 0x800 then [0xC0 + c div 64, 0x80 + c mod 64]
      else if c < 0x10000 then [0xE0 + c div 4096, 0x80 + c div 64 mod 64, 0x80 + c mod 64]
      else [0xF0 + c div 262144, 0x80 + c div 4096 mod 64, 0x80 + c div 64 mod 64, 0x80 + c mod 64])"

definition clean_underscores :: "pystr \<Rightarrow> pystr option" where
  "clean_underscores s =
     (if s = [] then Some []
      else if hd s = 95 \<or> last s = 95 then None
      else drop_underscores False (concat (map utf8_char s)))"

definition split_sign_text :: "pystr \<Rightarrow> bool \<times> pystr" where
  "split_sign_text s = (case s of
       c # r \<Rightarrow> if c = 45 then (True, r) else if c = 43 then (False, r) else (False, s)
     | [] \<Rightarrow> (False, s))"

definition radix_and_digits :: "i64 \<Rightarrow> pystr \<Rightarrow> nat \<times> pystr" where
  "radix_and_digits base rest =
     (if base = 0 then
        (case strip_ci rest ''0x'' of Some r \<Rightarrow> (16, r)
         | None \<Rightarrow> (case strip_ci rest ''0o'' of Some r \<Rightarrow> (8, r)
             | None \<Rightarrow> (case strip_ci rest ''0b'' of Some r \<Rightarrow> (2, r) | None \<Rightarrow> (10, rest))))
      else let radix = nat (sint base);
               stripped = (if radix = 16 then strip_ci rest ''0x'' else if radix = 8 then strip_ci rest ''0o''
                 else if radix = 2 then strip_ci rest ''0b'' else None) in
        (radix, case stripped of Some r \<Rightarrow> r | None \<Rightarrow> rest))"

definition parse_int_str :: "int_env \<Rightarrow> pystr \<Rightarrow> i64 \<Rightarrow> pyval eval_result" where
  "parse_int_str I raw base =
     (let invalid = Exception (exception_new ''ValueError''
            (''invalid literal for int() with base '' @ int_digits (sint base) @ '': '' @ str_repr I raw)) in
      if base \<noteq> 0 \<and> \<not> (2 \<le> sint base \<and> sint base \<le> 36)
      then Inl (Exception (exception_new ''ValueError'' ''int() base must be >= 2 and <= 36, or 0''))
      else let (negative, rest) = split_sign_text (trim_text raw); (radix, digits_raw) = radix_and_digits base rest in
        case clean_underscores digits_raw of
          None \<Rightarrow> Inl invalid
        | Some cleaned \<Rightarrow>
            if cleaned = [] then Inl invalid
            else if base = 0 \<and> radix = 10 \<and> 1 < length cleaned \<and> hd cleaned = 48 \<and> (\<exists>c \<in> set cleaned. c \<noteq> 48) then Inl invalid
            else (case from_str_radix I cleaned radix of
                None \<Rightarrow> Inl invalid
              | Some big \<Rightarrow> Inr (int_from_bigint (if negative then - big else big))))"

text \<open>The digits that the formats \<open>{:b}\<close>, \<open>{:o}\<close> and \<open>{:x}\<close> print.\<close>

definition digit_code :: "nat \<Rightarrow> nat" where
  "digit_code d = (if d < 10 then 48 + d else 87 + d)"

function radix_digits :: "nat \<Rightarrow> nat \<Rightarrow> nat list" where
  "radix_digits r n = (if r < 2 \<or> n < r then [n] else radix_digits r (n div r) @ [n mod r])"
  by auto
termination by (relation "measure snd") (auto intro!: div_less_dividend)

declare radix_digits.simps [simp del]

definition format_radix :: "string \<Rightarrow> nat \<Rightarrow> i64 \<Rightarrow> pystr" where
  "format_radix prefix r n =
     (if sint n < 0 then str_of (''-'' @ prefix) @ map digit_code (radix_digits r (unsigned_abs n))
      else str_of prefix @ map digit_code (radix_digits r (nat (sint n))))"

section \<open>Built-in functions on integers\<close>

definition check_arg_count :: "string \<Rightarrow> pyval list \<Rightarrow> nat \<Rightarrow> nat \<Rightarrow> unit eval_result" where
  "check_arg_count name vals lo hi =
     (if length vals < lo \<or> hi < length vals then
        Inl (type_error (name @ ''() takes '' @ (if lo = hi then ''exactly '' @ nat_digits lo @ '' argument(s) (''
          else nat_digits lo @ '' to '' @ nat_digits hi @ '' arguments ('') @ nat_digits (length vals) @ '' given)''))
      else Inr ())"

text \<open>\<open>bin\<close>, \<open>oct\<close> and \<open>hex\<close>; \<open>coerce_index\<close> calls \<open>__index__\<close> of an instance.\<close>

definition coerce_index :: "int_env \<Rightarrow> pyval \<Rightarrow> pyval eval_result" where
  "coerce_index I v = (case v of
       VInstance c a \<Rightarrow> (case dunder I v ''__index__'' of
           None \<Rightarrow> Inr v
         | Some r \<Rightarrow> result_bind r (\<lambda>idx. case idx of
             VInt i \<Rightarrow> Inr idx
           | VBool b \<Rightarrow> Inr idx
           | other \<Rightarrow> Inl (type_error (''__index__ returned non-int (type '' @ type_name other @ '')''))))
     | _ \<Rightarrow> Inr v)"

definition builtin_radix :: "int_env \<Rightarrow> string \<Rightarrow> string \<Rightarrow> nat \<Rightarrow> pyval list \<Rightarrow> pyval eval_result" where
  "builtin_radix I name prefix r vals =
     result_bind (check_arg_count name vals 1 1) (\<lambda>_.
     result_bind (coerce_index I (vals ! 0)) (\<lambda>v.
     result_bind (value_to_i64 v) (\<lambda>n. Inr (VString (format_radix prefix r n)))))"

definition builtin_chr :: "int_env \<Rightarrow> pyval list \<Rightarrow> pyval eval_result" where
  "builtin_chr I vals =
     result_bind (check_arg_count ''chr'' vals 1 1) (\<lambda>_.
     result_bind (coerce_index I (vals ! 0)) (\<lambda>v.
     result_bind (value_to_i64 v) (\<lambda>code.
       if 0 \<le> sint code \<and> sint code < 0x110000 \<and> \<not> (0xD800 \<le> sint code \<and> sint code < 0xE000)
       then Inr (VString [nat (sint code)])
       else Inl (Exception (exception_new ''ValueError'' ''chr() arg not in range(0x110000)'')))))"

definition ord_length_error :: "nat \<Rightarrow> string" where
  "ord_length_error n = ''ord() expected a character, but string of length '' @ nat_digits n @ '' found''"

definition ord_single_byte :: "u8 list \<Rightarrow> pyval eval_result" where
  "ord_single_byte b = (case b of [x] \<Rightarrow> Inr (VInt (word_of_int (uint x))) | _ \<Rightarrow> Inl (type_error (ord_length_error (length b))))"

definition builtin_ord :: "env \<Rightarrow> pyval list \<Rightarrow> pyval eval_result" where
  "builtin_ord E vals =
     result_bind (check_arg_count ''ord'' vals 1 1) (\<lambda>_. case vals ! 0 of
       VString s \<Rightarrow> (case s of [c] \<Rightarrow> Inr (VInt (of_nat c))
         | _ \<Rightarrow> Inl (Exception (exception_new ''TypeError'' (ord_length_error (length s)))))
     | VBytes b \<Rightarrow> ord_single_byte b
     | VByteArray a \<Rightarrow> ord_single_byte (bytes_at E a)
     | other \<Rightarrow> Inl (type_error (''ord() expected string of length 1, but '' @ type_name other @ '' found'')))"

primrec index_all :: "int_env \<Rightarrow> pyval list \<Rightarrow> i64 list eval_result" where
  "index_all I [] = Inr []"
| "index_all I (v # vs) = result_bind (coerce_index I v) (\<lambda>w. result_bind (value_to_i64 w) (\<lambda>n.
     result_bind (index_all I vs) (\<lambda>ns. Inr (n # ns))))"

definition builtin_range :: "int_env \<Rightarrow> pyval list \<Rightarrow> pyval eval_result" where
  "builtin_range I vals = result_bind (index_all I vals) (\<lambda>c.
     result_bind (case c of
         [stop] \<Rightarrow> Inr (0, stop, 1)
       | [start, stop] \<Rightarrow> Inr (start, stop, 1)
       | [start, stop, stride] \<Rightarrow> Inr (start, stop, stride)
       | _ \<Rightarrow> Inl (type_error ''range expected at most 3 arguments'')) (\<lambda>(start, stop, stride).
       if stride = 0 then Inl (Interpreter (ValueError ''range() arg 3 must not be zero'')) else Inr (VRange start stop stride)))"

definition not_a_number :: eval_error where
  "not_a_number = type_error ''int() argument must be a string or a number''"

definition int_of_value :: "int_env \<Rightarrow> pyval \<Rightarrow> pyval eval_result" where
  "int_of_value I v = (case v of
       VInt i \<Rightarrow> Inr (VInt i)
     | VBigInt b \<Rightarrow> Inr (VBigInt b)
     | VFloat f \<Rightarrow> float_to_int_exact f
     | VBool b \<Rightarrow> Inr (VInt (if b then 1 else 0))
     | VString s \<Rightarrow> parse_int_str I s 10
     | VDecimal n s k \<Rightarrow> Inr (int_from_bigint (decimal_trunc I n s))
     | VFraction n d \<Rightarrow> Inr (int_from_bigint (quot n d))
     | VEnumMember c m inner kind \<Rightarrow> (case kind of
           IntKind \<Rightarrow> (case value_as_bigint inner of Some n \<Rightarrow> Inr (int_from_bigint n) | None \<Rightarrow> Inl not_a_number)
         | IntFlag \<Rightarrow> (case value_as_bigint inner of Some n \<Rightarrow> Inr (int_from_bigint n) | None \<Rightarrow> Inl not_a_number)
         | StrKind \<Rightarrow> (case inner of VString s \<Rightarrow> parse_int_str I s 10 | _ \<Rightarrow> Inl not_a_number)
         | _ \<Rightarrow> Inl not_a_number)
     | _ \<Rightarrow> Inl (type_error (''int() argument must be a string or a number, not '' @ quoted (type_name v))))"

definition int_with_base :: "int_env \<Rightarrow> pyval \<Rightarrow> i64 \<Rightarrow> pyval eval_result" where
  "int_with_base I v base = (case v of
       VString s \<Rightarrow> parse_int_str I s base
     | VBytes b \<Rightarrow> (case from_utf8 I b of
           None \<Rightarrow> Inl (Interpreter (ValueError ''int() bytes argument is not valid UTF-8''))
         | Some s \<Rightarrow> parse_int_str I s base)
     | _ \<Rightarrow> Inl (type_error (''int() can'' @ [CHR 39] @ ''t convert non-string with explicit base'')))"

primrec first_dunder :: "int_env \<Rightarrow> pyval \<Rightarrow> string list \<Rightarrow> pyval eval_result option" where
  "first_dunder I v [] = None"
| "first_dunder I v (name # names) = (case dunder I v name of Some r \<Rightarrow> Some r | None \<Rightarrow> first_dunder I v names)"

definition builtin_int :: "int_env \<Rightarrow> pyval list \<Rightarrow> kwargs \<Rightarrow> pyval eval_result" where
  "builtin_int I vals kw =
     result_bind (check_arg_count ''int'' vals 0 2) (\<lambda>_.
     result_bind (case filter (\<lambda>p. fst p \<noteq> ''base'') kw of
         [] \<Rightarrow> Inr ()
       | p # ps \<Rightarrow> Inl (type_error (quoted (fst p) @ '' is an invalid keyword argument for int()''))) (\<lambda>_.
       if vals = [] \<and> kw = [] then Inr (VInt 0)
       else (case (if 1 < length vals then Some (vals ! 1) else kwarg kw ''base'') of
           Some base_val \<Rightarrow>
             if vals = [] then Inl (type_error ''int() missing string argument'')
             else result_bind (value_to_i64 base_val) (int_with_base I (vals ! 0))
         | None \<Rightarrow>
             (case (case vals ! 0 of VInstance c a \<Rightarrow> first_dunder I (vals ! 0) [''__int__'', ''__index__'', ''__trunc__''] | _ \<Rightarrow> None) of
                Some r \<Rightarrow> r
              | None \<Rightarrow> int_of_value I (vals ! 0)))))"

subsection \<open>Printing and parsing\<close>

text \<open>What the library promises of \<open>from_str_radix\<close>: a sequence of digits of the radix, the letters standing for the digits
  from ten on, is read as the number it denotes.\<close>

definition digits_value :: "nat \<Rightarrow> nat list \<Rightarrow> nat" where
  "digits_value r ds = foldl (\<lambda>n d. n * r + d) 0 ds"

definition reads_digits :: "int_env \<Rightarrow> bool" where
  "reads_digits I \<longleftrightarrow> (\<forall>r ds. 2 \<le> r \<and> r \<le> 36 \<and> ds \<noteq> [] \<and> (\<forall>d \<in> set ds. d < r) \<longrightarrow>
     from_str_radix I (map digit_code ds) r = Some (int (digits_value r ds)))"

lemma radix_digits_props:
  "2 \<le> r \<Longrightarrow> radix_digits r n \<noteq> [] \<and> (\<forall>d \<in> set (radix_digits r n). d < r) \<and> digits_value r (radix_digits r n) = n"
proof (induction r n rule: radix_digits.induct)
  case (1 r n)
  show ?case
  proof (cases "n < r")
    case True
    then show ?thesis by (simp add: radix_digits.simps [of r n] digits_value_def)
  next
    case False
    then have "radix_digits r n = radix_digits r (n div r) @ [n mod r]" using 1(2) by (simp add: radix_digits.simps [of r n])
    then show ?thesis using 1 False by (auto simp: digits_value_def)
  qed
qed

lemma digit_code_ascii:
  assumes "d < 36"
  shows "digit_code d < 128 \<and> digit_code d \<noteq> 95 \<and> \<not> is_whitespace (digit_code d) \<and> 48 \<le> digit_code d"
  using assms by (auto simp: digit_code_def is_whitespace_def)

lemma clean_digits:
  assumes "\<forall>d \<in> set ds. d < 36"
  shows "clean_underscores (map digit_code ds) = Some (map digit_code ds)"
proof -
  have u: "concat (map utf8_char (map digit_code ds)) = map digit_code ds"
    using assms by (induction ds) (simp_all add: utf8_char_def digit_code_ascii)
  have d: "drop_underscores b (map digit_code ds) = Some (map digit_code ds)" for b
    using assms by (induction ds arbitrary: b) (simp_all add: digit_code_ascii)
  have "hd (map digit_code ds) \<noteq> 95 \<and> last (map digit_code ds) \<noteq> 95" if "ds \<noteq> []"
    using assms that by (simp add: hd_map last_map digit_code_ascii)
  then show ?thesis unfolding clean_underscores_def u d by simp
qed

lemma trim_plain: "\<forall>c \<in> set s. \<not> is_whitespace c \<Longrightarrow> trim_text s = s"
proof -
  have id: "dropWhile is_whitespace t = t" if "\<forall>c \<in> set t. \<not> is_whitespace c" for t using that by (cases t) simp_all
  assume "\<forall>c \<in> set s. \<not> is_whitespace c"
  then show ?thesis using id [of s] id [of "rev s"] by (simp add: trim_text_def)
qed

definition radix_prefix :: "nat \<Rightarrow> string" where
  "radix_prefix r = (if r = 16 then ''0x'' else if r = 8 then ''0o'' else ''0b'')"

lemma strip_prefixed:
  "strip_ci (str_of ''0x'' @ s) ''0x'' = Some s" "strip_ci (str_of ''0o'' @ s) ''0x'' = None"
  "strip_ci (str_of ''0b'' @ s) ''0x'' = None" "strip_ci (str_of ''0o'' @ s) ''0o'' = Some s"
  "strip_ci (str_of ''0b'' @ s) ''0o'' = None" "strip_ci (str_of ''0b'' @ s) ''0b'' = Some s"
  by (simp_all add: strip_ci_def lower_ascii_def)

lemma radix_prefixed:
  assumes "r \<in> {2, 8, 16}" "base = 0 \<or> sint base = int r"
  shows "radix_and_digits base (str_of (radix_prefix r) @ s) = (r, s)"
proof -
  have "base = 0 \<or> base = word_of_int (int r)" using assms(2) by (metis word_of_int_sint_i64)
  then show ?thesis
    using assms(1) by (auto simp only: radix_and_digits_def radix_prefix_def insert_iff empty_iff) (simp_all add: strip_prefixed [simplified] Let_def)
qed

lemma split_format:
  assumes "r \<in> {2, 8, 16}"
  shows "split_sign_text (trim_text (format_radix (radix_prefix r) r n)) =
    (sint n < 0, str_of (radix_prefix r) @ map digit_code (radix_digits r (nat \<bar>sint n\<bar>)))"
proof -
  have r: "2 \<le> r" "r \<le> 36" using assms by auto
  have "\<not> is_whitespace c" if "c \<in> set (map digit_code (radix_digits r m))" for c m
    using that radix_digits_props [OF r(1), of m] r(2) by (auto dest!: bspec simp: digit_code_ascii)
  moreover have "\<forall>c \<in> set (str_of (''-'' @ radix_prefix r)). \<not> is_whitespace c" "\<forall>c \<in> set (str_of (radix_prefix r)). \<not> is_whitespace c"
    using assms by (auto simp: radix_prefix_def is_whitespace_def)
  ultimately have "trim_text (format_radix (radix_prefix r) r n) = format_radix (radix_prefix r) r n"
    by (intro trim_plain) (auto simp: format_radix_def split: if_splits)
  moreover have "\<exists>t. str_of (radix_prefix r) = 48 # t" using assms by (auto simp: radix_prefix_def)
  ultimately show ?thesis
    by (auto simp: format_radix_def split_sign_text_def unsigned_abs_def abs_if)
qed

text \<open>C32: \<open>bin\<close>, \<open>oct\<close> and \<open>hex\<close> print an integer so that \<open>int\<close> reads it back, with the base given or taken from the prefix
  (base 0), for every integer of 64 bits, the most negative one included.  The conversion of the digits is the library's.\<close>

theorem radix_round_trip:
  assumes "reads_digits I" "r \<in> {2, 8, 16}" "base = 0 \<or> sint base = int r"
  shows "\<exists>s. builtin_radix I name (radix_prefix r) r [VInt n] = Inr (VString s) \<and> parse_int_str I s base = Inr (VInt n)"
proof (intro exI conjI)
  let ?s = "format_radix (radix_prefix r) r n"
  show "builtin_radix I name (radix_prefix r) r [VInt n] = Inr (VString ?s)"
    by (simp add: builtin_radix_def check_arg_count_def coerce_index_def value_to_i64.simps)
  have r: "2 \<le> r" "r \<le> 36" using assms(2) by auto
  let ?ds = "radix_digits r (nat \<bar>sint n\<bar>)"
  have ds: "?ds \<noteq> []" "\<forall>d \<in> set ?ds. d < r" "digits_value r ?ds = nat \<bar>sint n\<bar>"
    using radix_digits_props [OF r(1)] by simp_all
  then have "\<forall>d \<in> set ?ds. d < 36" using r(2) by auto
  then have clean: "clean_underscores (map digit_code ?ds) = Some (map digit_code ?ds)" by (rule clean_digits)
  have read: "from_str_radix I (map digit_code ?ds) r = Some \<bar>sint n\<bar>"
    using assms(1) r ds by (simp add: reads_digits_def)
  have base: "\<not> (base \<noteq> 0 \<and> \<not> (2 \<le> sint base \<and> sint base \<le> 36))" using assms(3) r by auto
  have ten: "r \<noteq> 10" using assms(2) by auto
  show "parse_int_str I ?s base = Inr (VInt n)"
    unfolding parse_int_str_def Let_def split_format [OF assms(2)] prod.case radix_prefixed [OF assms(2,3)] clean option.case
    using base ds(1) ten by (simp add: read del: de_Morgan_conj)
qed

definition sample_digit :: "nat \<Rightarrow> nat" where
  "sample_digit c = (if c < 58 then c - 48 else c - 87)"

definition sample_int_env :: int_env where
  "sample_int_env = \<lparr>from_str_radix = (\<lambda>s r. Some (int (digits_value r (map sample_digit s)))), str_repr = (\<lambda>s. []),
     from_utf8 = (\<lambda>b. None), dunder = (\<lambda>v s. None), decimal_trunc = (\<lambda>n s. n)\<rparr>"

lemma sample_reads_digits: "reads_digits sample_int_env"
proof -
  have "map sample_digit (map digit_code ds) = ds" if "\<forall>d \<in> set ds. d < r" "r \<le> 36" for ds r
    using that by (auto simp: sample_digit_def digit_code_def intro!: map_idI)
  then show ?thesis by (auto simp: reads_digits_def sample_int_env_def)
qed

theorem radix_round_trip_witness:
  "\<exists>s. builtin_radix sample_int_env ''hex'' (radix_prefix 16) 16 [VInt (- 255)] = Inr (VString s) \<and>
    parse_int_str sample_int_env s 0 = Inr (VInt (- 255))"
  by (rule radix_round_trip) (simp_all add: sample_reads_digits)

text \<open>The sign is stripped before the digits are given to the library, which accepts a sign of its own: if it reads \<open>-5\<close>, then
  \<open>int\<close> of two signs is a number and not an error.\<close>

lemma double_sign_accepted:
  assumes "from_str_radix I (str_of ''-5'') 10 = Some (- 5)"
  shows "parse_int_str I (str_of ''--5'') 10 = Inr (VInt 5)"
  using assms
  by (simp add: parse_int_str_def trim_text_def is_whitespace_def split_sign_text_def radix_and_digits_def clean_underscores_def utf8_char_def
      int_from_bigint_def checked_i64_def in_i64_def Let_def)

text \<open>\<open>chr\<close> and \<open>ord\<close> are inverse on the code points that are not surrogates.\<close>

lemma chr_ord:
  assumes "c < 0x110000" "\<not> (0xD800 \<le> c \<and> c < 0xE000)"
  shows "builtin_chr I [VInt (of_nat c)] = Inr (VString [c]) \<and> builtin_ord E [VString [c]] = Inr (VInt (of_nat c))"
proof -
  have "sint (of_nat c :: i64) = int c" using assms(1) sint_word_of_int_i64 [of "int c"] by (simp add: in_i64_def)
  then show ?thesis
    using assms by (simp add: builtin_chr_def builtin_ord_def check_arg_count_def coerce_index_def value_to_i64.simps)
qed

section \<open>abs, round and divmod\<close>

text \<open>Formatting a float with a number of decimal places and reading it back, ten to a power as \<open>f64\<close>, the rounding of decimals
  and the norm of a complex number are parameters.\<close>

record round_env =
  fixed_places :: "f64 \<Rightarrow> nat \<Rightarrow> f64"
  ten_powi :: "nat \<Rightarrow> f64"
  ties_even :: "f64 \<Rightarrow> f64"
  decimal_round :: "int \<Rightarrow> int \<Rightarrow> i64 option \<Rightarrow> pyval"
  decimal_abs :: "int \<Rightarrow> int \<Rightarrow> decimal_kind \<Rightarrow> pyval"
  complex_norm :: "f64 \<Rightarrow> f64 \<Rightarrow> f64"
  round_dunder :: "pyval \<Rightarrow> pyval option \<Rightarrow> pyval eval_result option"

definition round_float :: "arith \<Rightarrow> round_env \<Rightarrow> f64 \<Rightarrow> i64 option \<Rightarrow> pyval eval_result" where
  "round_float A X f ndigits = (case ndigits of
       None \<Rightarrow> float_to_int_exact (ties_even X f)
     | Some n \<Rightarrow>
         if 0 \<le> sint n then Inr (VFloat (fixed_places X f (nat (sint n))))
         else let pow10 = ten_powi X (min (nat (- sint n)) (2 ^ 31 - 1)) in
           if \<not> is_finite pow10 then Inr (VFloat (f64_copysign 0 f))
           else Inr (VFloat (f_mul A (ties_even X (f_div A f pow10)) pow10)))"

definition no_round :: "pyval \<Rightarrow> eval_error" where
  "no_round v = type_error (''type '' @ quoted (type_name v) @ '' doesn'' @ [CHR 39] @ ''t define __round__'')"

definition round_integral :: "pyval \<Rightarrow> i64 option \<Rightarrow> pyval option" where
  "round_integral v ndigits = (case v of
       VInt i \<Rightarrow> Some (round_int i ndigits)
     | VBigInt b \<Rightarrow> Some (int_from_bigint (round_bigint b ndigits))
     | VBool b \<Rightarrow> Some (VInt (if b then 1 else 0))
     | _ \<Rightarrow> None)"

definition round_value :: "arith \<Rightarrow> round_env \<Rightarrow> pyval \<Rightarrow> i64 option \<Rightarrow> pyval eval_result" where
  "round_value A X v ndigits = (case round_integral v ndigits of
       Some w \<Rightarrow> Inr w
     | None \<Rightarrow> (case v of
           VFloat f \<Rightarrow> round_float A X f ndigits
         | VDecimal n s k \<Rightarrow> Inr (decimal_round X n s ndigits)
         | VFraction n d \<Rightarrow> Inr (round_fraction (n, d) ndigits)
         | VEnumMember c m inner kind \<Rightarrow>
             (case (if kind = IntKind \<or> kind = IntFlag then round_integral inner ndigits else None) of
                Some w \<Rightarrow> Inr w
              | None \<Rightarrow> Inl (no_round v))
         | _ \<Rightarrow> Inl (no_round v)))"

definition builtin_round :: "arith \<Rightarrow> round_env \<Rightarrow> pyval list \<Rightarrow> kwargs \<Rightarrow> pyval eval_result" where
  "builtin_round A X vals kw =
     result_bind (check_arg_count ''round'' vals 1 2) (\<lambda>_.
       let nd = (if 1 < length vals then Some (vals ! 1) else kwarg kw ''ndigits'') in
       case round_dunder X (vals ! 0) nd of
         Some r \<Rightarrow> r
       | None \<Rightarrow> result_bind (case nd of None \<Rightarrow> Inr None | Some VNone \<Rightarrow> Inr None
             | Some v \<Rightarrow> result_bind (value_to_i64 v) (\<lambda>n. Inr (Some n))) (round_value A X (vals ! 0)))"

definition abs_error :: "pyval \<Rightarrow> eval_error" where
  "abs_error v = type_error (''bad operand type for abs(): '' @ quoted (type_name v))"

text \<open>\<open>i64::abs\<close> of a time difference wraps on the smallest number.\<close>

definition abs_value :: "round_env \<Rightarrow> pyval \<Rightarrow> pyval eval_result" where
  "abs_value X v = (case v of
       VInt i \<Rightarrow> Inr (case checked_i64 \<bar>sint i\<bar> of Some a \<Rightarrow> VInt a | None \<Rightarrow> int_from_bigint (- sint i))
     | VBigInt b \<Rightarrow> Inr (int_from_bigint \<bar>b\<bar>)
     | VFloat f \<Rightarrow> Inr (VFloat (f64_abs f))
     | VComplex re im \<Rightarrow> Inr (VFloat (complex_norm X re im))
     | VBool b \<Rightarrow> Inr (VInt (if b then 1 else 0))
     | VTimeDelta us \<Rightarrow> Inr (VTimeDelta (if sint us < 0 then - us else us))
     | VDecimal n s k \<Rightarrow> Inr (decimal_abs X n s k)
     | VFraction n d \<Rightarrow> Inr (VFraction \<bar>n\<bar> d)
     | VEnumMember c m inner kind \<Rightarrow>
         (if kind = IntKind \<or> kind = IntFlag
          then (case value_as_bigint inner of Some b \<Rightarrow> Inr (int_from_bigint \<bar>b\<bar>) | None \<Rightarrow> Inl (abs_error v))
          else Inl (abs_error v))
     | _ \<Rightarrow> Inl (abs_error v))"

definition builtin_abs :: "int_env \<Rightarrow> round_env \<Rightarrow> pyval list \<Rightarrow> pyval eval_result" where
  "builtin_abs I X vals =
     result_bind (check_arg_count ''abs'' vals 1 1) (\<lambda>_.
       case (case vals ! 0 of VInstance c a \<Rightarrow> dunder I (vals ! 0) ''__abs__'' | _ \<Rightarrow> None) of
         Some r \<Rightarrow> r
       | None \<Rightarrow> abs_value X (vals ! 0))"

definition builtin_divmod :: "arith \<Rightarrow> env \<Rightarrow> addr \<Rightarrow> pyval list \<Rightarrow> (env \<times> pyval) run" where
  "builtin_divmod A E fresh vals =
     run_bind (Some (check_arg_count ''divmod'' vals 2 2)) (\<lambda>_.
     run_bind (dispatch_binop A FloorDiv E fresh (vals ! 0) (vals ! 1)) (\<lambda>(E1, q).
     run_bind (dispatch_binop A Mod E1 (Suc fresh) (vals ! 0) (vals ! 1)) (\<lambda>(E2, r).
       Some (Inr (E2, VTuple [q, r])))))"

lemma abs_exact: "value_as_bigint v = Some n \<Longrightarrow> abs_value X v = Inr (int_from_bigint \<bar>n\<bar>)"
proof -
  assume v: "value_as_bigint v = Some n"
  have "(case checked_i64 \<bar>sint i\<bar> of Some a \<Rightarrow> VInt a | None \<Rightarrow> int_from_bigint (- sint i)) = int_from_bigint \<bar>sint i\<bar>" for i :: i64
  proof (cases "checked_i64 \<bar>sint i\<bar>")
    case None
    then have "sint i < 0" using checked_i64_sint [of i] by (cases "sint i < 0") (auto simp: abs_if simp del: checked_i64_sint)
    then show ?thesis using None by simp
  qed (simp add: int_from_bigint_def)
  then show ?thesis
    using v [unfolded value_as_bigint.simps [of v]] by (cases v) (auto simp: abs_value_def from_bigint_zero int_from_bigint_VInt in_i64_def split: if_splits)
qed

lemma divmod_exact:
  assumes "integral l" "integral r" "int_value r \<noteq> 0"
  shows "builtin_divmod A E fresh [l, r] =
    Some (Inr (E, VTuple [int_from_bigint (int_value l div int_value r), int_from_bigint (int_value l mod int_value r)]))"
  using assms
  by (simp add: builtin_divmod_def check_arg_count_def run_bind_def dispatch_integral binop_integral divide_integral exact_result_def)

end
