(* ===== verification/Text_Search.thy ===== *)
theory Text_Search
  imports Int_Text "HOL-Library.Sublist"
begin

text \<open>
  Substring search, splitting, joining and replacing, as the \<open>str\<close> type of Rust defines them for a string pattern, on lists
  of any elements; and the two whitespace splitters of \<open>eval/functions/methods/str.rs\<close>.

  A string is the list of its code points.  UTF-8 is self-synchronising, so a search for a string in the bytes of another
  finds the same places as a search in the code points, and the code converts the offsets it shows back to characters.
\<close>

section \<open>Searching a sequence\<close>

text \<open>\<open>str::find\<close> and \<open>str::rfind\<close> with a string pattern: the first and the last position of an occurrence.\<close>

fun find_text :: "'a list \<Rightarrow> 'a list \<Rightarrow> nat option" where
  "find_text sub [] = (if sub = [] then Some 0 else None)"
| "find_text sub (c # s) = (if prefix sub (c # s) then Some 0 else map_option Suc (find_text sub s))"

fun rfind_text :: "'a list \<Rightarrow> 'a list \<Rightarrow> nat option" where
  "rfind_text sub [] = (if sub = [] then Some 0 else None)"
| "rfind_text sub (c # s) = (case rfind_text sub s of
     Some i \<Rightarrow> Some (Suc i)
   | None \<Rightarrow> (if prefix sub (c # s) then Some 0 else None))"

definition occurs_at :: "'a list \<Rightarrow> 'a list \<Rightarrow> nat \<Rightarrow> bool" where
  "occurs_at sub s i \<longleftrightarrow> i \<le> length s \<and> prefix sub (drop i s)"

lemma occurs_at_0 [simp]: "occurs_at sub s 0 \<longleftrightarrow> prefix sub s"
  by (simp add: occurs_at_def)

lemma occurs_at_Suc [simp]: "occurs_at sub (c # s) (Suc i) \<longleftrightarrow> occurs_at sub s i"
  by (simp add: occurs_at_def)

lemma occurs_at_Nil [simp]: "occurs_at sub [] i \<longleftrightarrow> i = 0 \<and> sub = []"
  by (auto simp: occurs_at_def)

lemma occurs_at_split:
  "occurs_at sub s i \<longleftrightarrow> i \<le> length s \<and> s = take i s @ sub @ drop (i + length sub) s"
proof
  assume a: "occurs_at sub s i"
  then obtain r where "drop i s = sub @ r" by (auto simp: occurs_at_def prefix_def)
  moreover from this have "drop (i + length sub) s = r"
    by (metis add.commute append_eq_conv_conj drop_drop)
  ultimately show "i \<le> length s \<and> s = take i s @ sub @ drop (i + length sub) s"
    using a by (metis append_take_drop_id occurs_at_def)
next
  assume a: "i \<le> length s \<and> s = take i s @ sub @ drop (i + length sub) s"
  then have "take i s @ drop i s = take i s @ (sub @ drop (i + length sub) s)" by simp
  then have "drop i s = sub @ drop (i + length sub) s" by blast
  then show "occurs_at sub s i" using a by (auto simp: occurs_at_def prefix_def)
qed

lemma find_text_first:
  "find_text sub s = Some i \<longleftrightarrow> occurs_at sub s i \<and> (\<forall>j < i. \<not> occurs_at sub s j)"
proof (induction s arbitrary: i)
  case Nil
  then show ?case by auto
next
  case (Cons c s)
  show ?case
  proof (cases i)
    case 0
    then show ?thesis by simp
  next
    case (Suc k)
    have "(\<forall>j < Suc k. \<not> occurs_at sub (c # s) j) \<longleftrightarrow> \<not> prefix sub (c # s) \<and> (\<forall>j < k. \<not> occurs_at sub s j)"
      by (auto simp: less_Suc_eq_0_disj)
    then show ?thesis using Cons.IH [of k] Suc by auto
  qed
qed

lemma find_text_None: "find_text sub s = None \<longleftrightarrow> (\<forall>i. \<not> occurs_at sub s i)"
proof (induction s)
  case Nil
  then show ?case by simp
next
  case (Cons c s)
  have "(\<forall>i. \<not> occurs_at sub (c # s) i) \<longleftrightarrow> \<not> prefix sub (c # s) \<and> (\<forall>i. \<not> occurs_at sub s i)"
    by (metis nat.exhaust occurs_at_0 occurs_at_Suc)
  then show ?case using Cons by simp
qed

lemma rfind_text_None: "rfind_text sub s = None \<longleftrightarrow> (\<forall>i. \<not> occurs_at sub s i)"
proof (induction s)
  case Nil
  then show ?case by simp
next
  case (Cons c s)
  have "(\<forall>i. \<not> occurs_at sub (c # s) i) \<longleftrightarrow> \<not> prefix sub (c # s) \<and> (\<forall>i. \<not> occurs_at sub s i)"
    by (metis nat.exhaust occurs_at_0 occurs_at_Suc)
  then show ?case using Cons by (auto split: option.splits)
qed

lemma rfind_text_last:
  "rfind_text sub s = Some i \<longleftrightarrow> occurs_at sub s i \<and> (\<forall>j > i. \<not> occurs_at sub s j)"
proof (induction s arbitrary: i)
  case Nil
  then show ?case by auto
next
  case (Cons c s)
  have later: "(\<forall>j > Suc k. \<not> occurs_at sub (c # s) j) \<longleftrightarrow> (\<forall>j > k. \<not> occurs_at sub s j)" for k
    by (metis Suc_less_eq Suc_less_eq2 occurs_at_Suc)
  have first: "(\<forall>j > 0. \<not> occurs_at sub (c # s) j) \<longleftrightarrow> (\<forall>j. \<not> occurs_at sub s j)"
    by (metis gr0_implies_Suc occurs_at_Suc zero_less_Suc)
  show ?case
  proof (cases "rfind_text sub s")
    case None
    then have no: "\<forall>j. \<not> occurs_at sub s j" by (simp add: rfind_text_None)
    then show ?thesis using None first by (cases i) auto
  next
    case (Some k)
    then have "occurs_at sub s k" using Cons.IH by blast
    then have more: "\<not> (\<forall>j > 0. \<not> occurs_at sub (c # s) j)" using first by blast
    have e: "rfind_text sub (c # s) = Some (Suc k)" using Some by simp
    show ?thesis
    proof (cases i)
      case 0
      then show ?thesis using e more by (simp del: rfind_text.simps)
    next
      case (Suc n)
      have "rfind_text sub (c # s) = Some (Suc n) \<longleftrightarrow> rfind_text sub s = Some n" using Some by simp
      then show ?thesis using Suc Cons.IH [of n] later [of n] by (simp del: rfind_text.simps)
    qed
  qed
qed

lemma find_text_split: "find_text sub s = Some i \<Longrightarrow> s = take i s @ sub @ drop (i + length sub) s \<and> i \<le> length s"
  by (metis find_text_first occurs_at_split)

lemma rfind_text_split: "rfind_text sub s = Some i \<Longrightarrow> s = take i s @ sub @ drop (i + length sub) s \<and> i \<le> length s"
  by (metis rfind_text_last occurs_at_split)

lemma occurs_at_bound: "occurs_at sub s i \<Longrightarrow> i + length sub \<le> length s"
  by (auto simp: occurs_at_def dest!: prefix_length_le)

lemma occurs_at_append: "occurs_at sub a i \<Longrightarrow> occurs_at sub (a @ b) i"
  by (auto simp: occurs_at_def prefix_def)

definition contains_text :: "'a list \<Rightarrow> 'a list \<Rightarrow> bool" where
  "contains_text sub s \<longleftrightarrow> (\<exists>i. occurs_at sub s i)"

lemma before_first_free:
  assumes "find_text sub s = Some i" "sub \<noteq> []"
  shows "\<not> contains_text sub (take i s)"
proof
  assume "contains_text sub (take i s)"
  then obtain j where j: "occurs_at sub (take i s) j" by (auto simp: contains_text_def)
  have "j + length sub \<le> i" using occurs_at_bound [OF j] by simp
  then have "j < i" using assms(2) by (cases sub) auto
  have "occurs_at sub s j" using occurs_at_append [OF j, of "drop i s"] by simp
  then show False using assms(1) \<open>j < i\<close> by (simp add: find_text_first)
qed

lemma after_last_free:
  assumes "rfind_text sub s = Some i" "sub \<noteq> []"
  shows "\<not> contains_text sub (drop (i + length sub) s)"
proof
  assume "contains_text sub (drop (i + length sub) s)"
  then obtain j where j: "occurs_at sub (drop (i + length sub) s) j" by (auto simp: contains_text_def)
  have le: "i + length sub \<le> length s" using assms(1) occurs_at_bound rfind_text_last by blast
  have "occurs_at sub s (i + length sub + j)"
    using j le by (auto simp: occurs_at_def add.commute add.left_commute)
  moreover have "i < i + length sub + j" using assms(2) by (cases sub) auto
  ultimately show False using assms(1) by (simp add: rfind_text_last)
qed

section \<open>Splitting, joining and replacing\<close>

text \<open>
  \<open>str::split\<close> (no limit) and \<open>str::splitn\<close>, where \<open>Some k\<close> allows \<open>k\<close> splits; \<open>str::rsplitn\<close>, put back in the order
  of the text.  The callers refuse an empty separator.
\<close>

function split_text :: "'a list \<Rightarrow> nat option \<Rightarrow> 'a list \<Rightarrow> 'a list list" where
  "split_text sep k s =
     (if sep = [] \<or> k = Some 0 then [s]
      else case find_text sep s of
        None \<Rightarrow> [s]
      | Some i \<Rightarrow> take i s # split_text sep (map_option (\<lambda>n. n - 1) k) (drop (i + length sep) s))"
  by pat_completeness auto
termination
proof (relation "measure (\<lambda>(sep, k, s). length s)")
  fix sep s :: "'a list" and k :: "nat option" and i
  assume a: "\<not> (sep = [] \<or> k = Some 0)" "find_text sep s = Some i"
  then have "i + length sep \<le> length s" using find_text_first occurs_at_bound by blast
  then show "((sep, map_option (\<lambda>n. n - 1) k, drop (i + length sep) s), sep, k, s) \<in> measure (\<lambda>(sep, k, s). length s)"
    using a(1) by (cases sep) auto
qed simp

declare split_text.simps [simp del]

fun rsplit_text :: "'a list \<Rightarrow> nat \<Rightarrow> 'a list \<Rightarrow> 'a list list" where
  "rsplit_text sep 0 s = [s]"
| "rsplit_text sep (Suc k) s = (case rfind_text sep s of
     None \<Rightarrow> [s]
   | Some i \<Rightarrow> rsplit_text sep k (take i s) @ [drop (i + length sep) s])"

fun join_text :: "'a list \<Rightarrow> 'a list list \<Rightarrow> 'a list" where
  "join_text sep [] = []"
| "join_text sep [x] = x"
| "join_text sep (x # y # ys) = x @ sep @ join_text sep (y # ys)"

text \<open>\<open>str::replace\<close> and \<open>str::replacen\<close>: an empty pattern matches at every boundary.\<close>

fun insert_between :: "'a list \<Rightarrow> nat option \<Rightarrow> 'a list \<Rightarrow> 'a list" where
  "insert_between new k [] = (if k = Some 0 then [] else new)"
| "insert_between new k (c # s) =
     (if k = Some 0 then c # s else new @ c # insert_between new (map_option (\<lambda>n. n - 1) k) s)"

definition replace_text :: "'a list \<Rightarrow> 'a list \<Rightarrow> nat option \<Rightarrow> 'a list \<Rightarrow> 'a list" where
  "replace_text old new k s = (if old = [] then insert_between new k s else join_text new (split_text old k s))"

text \<open>\<open>str::matches(sub).count()\<close>.\<close>

definition count_text :: "'a list \<Rightarrow> 'a list \<Rightarrow> nat" where
  "count_text sub s = (if sub = [] then length s + 1 else length (split_text sub None s) - 1)"

subsection \<open>Laws\<close>

lemma split_text_nonempty [simp]: "split_text sep k s \<noteq> []"
  by (subst split_text.simps) (auto split: option.splits)

lemma join_cons: "parts \<noteq> [] \<Longrightarrow> join_text sep (p # parts) = p @ sep @ join_text sep parts"
  by (cases parts) simp_all

lemma join_snoc: "parts \<noteq> [] \<Longrightarrow> join_text sep (parts @ [p]) = join_text sep parts @ sep @ p"
proof (induction parts)
  case (Cons q qs)
  then show ?case by (cases "qs = []") (simp_all add: join_cons)
qed simp

lemma join_split: "join_text sep (split_text sep k s) = s"
proof (induction sep k s rule: split_text.induct)
  case (1 sep k s)
  show ?case
  proof (cases "sep = [] \<or> k = Some 0 \<or> find_text sep s = None")
    case True
    then show ?thesis by (subst split_text.simps) auto
  next
    case False
    then obtain i where i: "find_text sep s = Some i" by auto
    have "split_text sep k s = take i s # split_text sep (map_option (\<lambda>n. n - 1) k) (drop (i + length sep) s)"
      by (subst split_text.simps) (use False i in simp)
    then have "join_text sep (split_text sep k s) = take i s @ sep @ drop (i + length sep) s"
      using 1 False i by (simp add: join_cons)
    then show ?thesis using find_text_split [OF i] by simp
  qed
qed

lemma split_parts_bounded: "length (split_text sep (Some k) s) \<le> k + 1"
proof (induction k arbitrary: s)
  case 0
  show ?case by (subst split_text.simps) simp
next
  case (Suc k)
  show ?case by (subst split_text.simps) (use Suc in \<open>auto split: option.splits\<close>)
qed

lemma split_parts_free:
  assumes "sep \<noteq> []" "p \<in> set (split_text sep None s)"
  shows "\<not> contains_text sep p"
  using assms
proof (induction s arbitrary: p rule: length_induct)
  case (1 s)
  show ?case
  proof (cases "find_text sep s")
    case None
    then have "split_text sep None s = [s]" by (subst split_text.simps) simp
    then have "p = s" using 1 by simp
    then show ?thesis using None by (simp add: contains_text_def find_text_None)
  next
    case (Some i)
    have e: "split_text sep None s = take i s # split_text sep None (drop (i + length sep) s)"
      by (subst split_text.simps) (use Some 1 in simp)
    have "i + length sep \<le> length s" using Some find_text_first occurs_at_bound by blast
    then have shorter: "length (drop (i + length sep) s) < length s" using 1(2) by (cases sep) auto
    have "p = take i s \<or> p \<in> set (split_text sep None (drop (i + length sep) s))" using 1(3) e by simp
    then show ?thesis using 1(1) [rule_format, OF shorter 1(2), of p] before_first_free [OF Some 1(2)] by blast
  qed
qed

lemma rsplit_text_nonempty [simp]: "rsplit_text sep k s \<noteq> []"
  by (induction sep k s rule: rsplit_text.induct) (auto split: option.splits)

lemma join_rsplit: "join_text sep (rsplit_text sep k s) = s"
proof (induction sep k s rule: rsplit_text.induct)
  case (2 sep k s)
  show ?case
  proof (cases "rfind_text sep s")
    case (Some i)
    then show ?thesis using 2 rfind_text_split [OF Some] by (simp add: join_snoc)
  qed simp
qed simp

lemma rsplit_parts_bounded: "length (rsplit_text sep k s) \<le> k + 1"
  by (induction sep k s rule: rsplit_text.induct) (auto split: option.splits)

lemma rsplit_tail_free:
  assumes "sep \<noteq> []" "p \<in> set (tl (rsplit_text sep k s))"
  shows "\<not> contains_text sep p"
  using assms
proof (induction sep k s rule: rsplit_text.induct)
  case (2 sep k s)
  show ?case
  proof (cases "rfind_text sep s")
    case (Some i)
    have "p \<in> set (tl (rsplit_text sep k (take i s))) \<or> p = drop (i + length sep) s"
      using 2(3) Some by (auto simp: tl_append split: list.splits)
    then show ?thesis using 2 Some after_last_free [of sep s i] by blast
  qed (use 2 in simp)
qed simp

text \<open>A single-element separator that occurs in no part.\<close>

lemma prefix_single: "prefix [c] (x # s) \<longleftrightarrow> x = c"
  by auto

lemma find_single:
  assumes "c \<notin> set a"
  shows "find_text [c] (a @ c # b) = Some (length a)" "find_text [c] a = None"
  using assms by (induction a) auto

lemma split_join:
  assumes "parts \<noteq> []" "\<forall>p \<in> set parts. c \<notin> set p"
  shows "split_text [c] None (join_text [c] parts) = parts"
  using assms
proof (induction parts)
  case (Cons p ps)
  show ?case
  proof (cases "ps = []")
    case True
    then show ?thesis using Cons.prems find_single(2) [of c p] by (subst split_text.simps) simp
  next
    case False
    then have "join_text [c] (p # ps) = p @ c # join_text [c] ps" by (simp add: join_cons)
    moreover have "split_text [c] None (p @ c # join_text [c] ps) = p # split_text [c] None (join_text [c] ps)"
      using Cons.prems find_single(1) [of c p "join_text [c] ps"] by (subst split_text.simps) simp
    ultimately show ?thesis using Cons False by simp
  qed
qed simp

lemma replace_identity: "old \<noteq> [] \<Longrightarrow> replace_text old old k s = s"
  by (simp add: replace_text_def join_split)

lemma replace_absent:
  assumes "old \<noteq> []" "\<not> contains_text old s"
  shows "replace_text old new k s = s"
proof -
  have "find_text old s = None" using assms by (simp add: contains_text_def find_text_None)
  then have "split_text old k s = [s]" by (subst split_text.simps) simp
  then show ?thesis using assms by (simp add: replace_text_def)
qed

lemma length_join: "parts \<noteq> [] \<Longrightarrow> length (join_text sep parts) = sum_list (map length parts) + length sep * (length parts - 1)"
proof (induction parts)
  case (Cons p ps)
  show ?case
  proof (cases ps)
    case (Cons q qs)
    then show ?thesis using Cons.IH by (simp add: algebra_simps)
  qed simp
qed simp

text \<open>The length of a replacement counts the matches.\<close>

lemma length_replace:
  assumes "old \<noteq> []"
  shows "int (length (replace_text old new None s)) =
    int (length s) + (int (length new) - int (length old)) * int (count_text old s)"
proof -
  let ?p = "split_text old None s"
  have "int (length (join_text new ?p)) = int (sum_list (map length ?p)) + int (length new) * int (length ?p - 1)"
    by (simp add: length_join)
  moreover have "int (length s) = int (sum_list (map length ?p)) + int (length old) * int (length ?p - 1)"
    using length_join [of ?p old] by (simp add: join_split)
  ultimately show ?thesis using assms by (simp add: replace_text_def count_text_def algebra_simps)
qed

section \<open>Whitespace\<close>

abbreviation blank :: "nat \<Rightarrow> bool" where "blank \<equiv> is_whitespace"

text \<open>\<open>str::split_whitespace\<close>.\<close>

function split_whitespace :: "pystr \<Rightarrow> pystr list" where
  "split_whitespace s =
     (let t = dropWhile blank s in
      if t = [] then [] else takeWhile (\<lambda>c. \<not> blank c) t # split_whitespace (dropWhile (\<lambda>c. \<not> blank c) t))"
  by pat_completeness auto
termination
proof (relation "measure length")
  fix s t :: pystr
  assume a: "t = dropWhile blank s" "t \<noteq> []"
  then have "\<not> blank (hd t)" using hd_dropWhile by blast
  then have "length (dropWhile (\<lambda>c. \<not> blank c) t) < length t"
    using a(2) length_dropWhile_le [of "\<lambda>c. \<not> blank c" "tl t"] by (cases t) auto
  also have "\<dots> \<le> length s" using a(1) by (simp add: length_dropWhile_le)
  finally show "(dropWhile (\<lambda>c. \<not> blank c) t, s) \<in> measure length" by simp
qed simp

declare split_whitespace.simps [simp del]

definition trim_start :: "pystr \<Rightarrow> pystr" where
  "trim_start s = dropWhile blank s"

definition trim_end :: "pystr \<Rightarrow> pystr" where
  "trim_end s = rev (dropWhile blank (rev s))"

lemma first_index_less: "first_index P xs = Some i \<Longrightarrow> i < length xs \<and> P (xs ! i)"
  by (induction xs arbitrary: i) (auto split: if_splits)

lemma first_index_takeWhile:
  "first_index P xs = Some i \<Longrightarrow> take i xs = takeWhile (\<lambda>x. \<not> P x) xs \<and> drop i xs = dropWhile (\<lambda>x. \<not> P x) xs"
  by (induction xs arbitrary: i) (auto split: if_splits)

lemma trim_start_shrinks: "first_index blank s = Some i \<Longrightarrow> length (trim_start (drop i s)) < length s"
proof -
  assume a: "first_index blank s = Some i"
  then have i: "i < length s" "blank (s ! i)" using first_index_less by blast+
  then have "drop i s = s ! i # drop (Suc i) s" using Cons_nth_drop_Suc by metis
  then have "length (trim_start (drop i s)) \<le> length (drop (Suc i) s)"
    using i(2) length_dropWhile_le [of blank "drop (Suc i) s"] by (simp add: trim_start_def)
  then show ?thesis using i(1) by simp
qed

text \<open>The loop of \<open>split_whitespace_max\<close>.\<close>

function split_ws_loop :: "int \<Rightarrow> int \<Rightarrow> pystr \<Rightarrow> pystr list" where
  "split_ws_loop maxsplit splits rest =
     (if rest = [] then []
      else if 0 \<le> maxsplit \<and> maxsplit \<le> splits then [rest]
      else case first_index blank rest of
        Some ws \<Rightarrow> take ws rest # split_ws_loop maxsplit (splits + 1) (trim_start (drop ws rest))
      | None \<Rightarrow> [rest])"
  by pat_completeness auto
termination by (relation "measure (\<lambda>(m, c, r). length r)") (auto simp: trim_start_shrinks)

declare split_ws_loop.simps [simp del]

definition split_whitespace_max :: "pystr \<Rightarrow> int \<Rightarrow> pystr list" where
  "split_whitespace_max s maxsplit = (if maxsplit = 0 then [s] else split_ws_loop maxsplit 0 (trim_start s))"

text \<open>The remainder of \<open>rsplit\<close> is found by searching for the words one after the other.\<close>

definition word_from :: "pystr \<Rightarrow> nat \<Rightarrow> pystr \<Rightarrow> nat" where
  "word_from s pos w = (case find_text w (drop pos s) of Some i \<Rightarrow> pos + i | None \<Rightarrow> pos)"

definition skip_words :: "pystr \<Rightarrow> pystr list \<Rightarrow> nat \<Rightarrow> nat" where
  "skip_words s ws pos = fold (\<lambda>w pos. word_from s pos w + length w) ws pos"

definition rsplit_whitespace_max :: "pystr \<Rightarrow> int \<Rightarrow> pystr list" where
  "rsplit_whitespace_max s maxsplit =
     (if maxsplit < 0 then split_whitespace s
      else if maxsplit = 0 then [s]
      else let words = split_whitespace s; n = length words in
        if words = [] then []
        else let keep = min (nat maxsplit) n in
          if n \<le> keep then words
          else let rem_end = word_from s (skip_words s (take (n - keep) words) 0) (words ! (n - keep)) in
            trim_end (take rem_end s) # drop (n - keep) words)"

subsection \<open>Words\<close>

lemma words_blank: "\<forall>c \<in> set s. blank c \<Longrightarrow> split_whitespace s = []"
proof -
  assume "\<forall>c \<in> set s. blank c"
  then have "dropWhile blank s = []" by simp
  then show ?thesis by (subst split_whitespace.simps) simp
qed

lemma words_cons:
  assumes "\<forall>c \<in> set a. blank c" "w \<noteq> []" "\<forall>c \<in> set w. \<not> blank c" "r = [] \<or> blank (hd r)"
  shows "split_whitespace (a @ w @ r) = w # split_whitespace r"
proof -
  have d: "dropWhile blank (a @ w @ r) = w @ r"
    using assms(1-3) by (induction a) (cases w, auto)
  have t: "takeWhile (\<lambda>c. \<not> blank c) (w @ r) = w \<and> dropWhile (\<lambda>c. \<not> blank c) (w @ r) = r"
    using assms(3,4) by (induction w) (cases r, auto)+
  show ?thesis by (subst split_whitespace.simps) (use d t assms(2) in simp)
qed

lemma words_cases:
  fixes s :: pystr
  obtains (blank) "\<forall>c \<in> set s. blank c"
  | (word) a w r where "s = a @ w @ r" "\<forall>c \<in> set a. blank c" "w \<noteq> []" "\<forall>c \<in> set w. \<not> blank c" "r = [] \<or> blank (hd r)"
proof (cases "dropWhile blank s = []")
  case True
  then show ?thesis using blank by (simp add: dropWhile_eq_Nil_conv)
next
  case False
  let ?t = "dropWhile blank s"
  let ?w = "takeWhile (\<lambda>c. \<not> blank c) ?t" and ?r = "dropWhile (\<lambda>c. \<not> blank c) ?t"
  have "s = takeWhile blank s @ ?w @ ?r" by simp
  moreover have "\<forall>c \<in> set (takeWhile blank s). blank c" using set_takeWhileD by metis
  moreover have "?w \<noteq> []" using False hd_dropWhile [OF False] by (cases ?t) auto
  moreover have "\<forall>c \<in> set ?w. \<not> blank c" using set_takeWhileD by metis
  moreover have "?r = [] \<or> blank (hd ?r)" using hd_dropWhile [of "\<lambda>c. \<not> blank c" ?t] by blast
  ultimately show ?thesis using word by metis
qed

lemma words_append:
  assumes "a = [] \<or> blank (last a) \<or> b = [] \<or> blank (hd b)"
  shows "split_whitespace (a @ b) = split_whitespace a @ split_whitespace b"
  using assms
proof (induction a rule: length_induct)
  case (1 a)
  show ?case
  proof (cases a rule: words_cases)
    case blank
    then have "dropWhile blank (a @ b) = dropWhile blank b" by simp
    then have "split_whitespace (a @ b) = split_whitespace b"
      by (metis split_whitespace.simps)
    then show ?thesis using blank by (simp add: words_blank)
  next
    case (word x w r)
    have r: "r = [] \<or> blank (last r) \<or> b = [] \<or> blank (hd b)"
    proof (cases "r = []")
      case False
      then show ?thesis using 1(2) word(1,3) by auto
    qed simp
    have "r @ b = [] \<or> blank (hd (r @ b))"
    proof (cases "r = []")
      case True
      then have "\<not> blank (last a)" using word by (simp add: last_append)
      then show ?thesis using True 1(2) word by auto
    qed (use word in auto)
    then have "split_whitespace (a @ b) = w # split_whitespace (r @ b)"
      using words_cons [OF word(2-4), of "r @ b"] word(1) by simp
    also have "\<dots> = w # split_whitespace r @ split_whitespace b"
    proof -
      have shorter: "length r < length a" using word by simp
      show ?thesis using 1(1) [rule_format, OF shorter r] by simp
    qed
    finally show ?thesis using words_cons [OF word(2-5)] word(1) by simp
  qed
qed

lemma words_wf: "\<forall>w \<in> set (split_whitespace s). w \<noteq> [] \<and> (\<forall>c \<in> set w. \<not> blank c)"
proof (induction s rule: length_induct)
  case (1 s)
  show ?case
  proof (cases s rule: words_cases)
    case blank
    then show ?thesis by (simp add: words_blank)
  next
    case (word a w r)
    have shorter: "length r < length s" using word by simp
    show ?thesis using 1 [rule_format, OF shorter] words_cons [OF word(2-5)] word(1,3,4) by simp
  qed
qed

lemma words_concat: "concat (split_whitespace s) = filter (\<lambda>c. \<not> blank c) s"
proof (induction s rule: length_induct)
  case (1 s)
  show ?case
  proof (cases s rule: words_cases)
    case blank
    then show ?thesis by (simp add: words_blank)
  next
    case (word a w r)
    have "length r < length s" using word by simp
    moreover have "filter (\<lambda>c. \<not> blank c) a = []" "filter (\<lambda>c. \<not> blank c) w = w"
      using word by (simp_all add: filter_empty_conv)
    ultimately show ?thesis using 1 words_cons [OF word(2-5)] word(1) by simp
  qed
qed

subsection \<open>Splitting on whitespace\<close>

lemma first_index_word:
  "\<forall>c \<in> set w. \<not> P c \<Longrightarrow> r \<noteq> [] \<Longrightarrow> P (hd r) \<Longrightarrow> first_index P (w @ r) = Some (length w)"
  by (induction w) (cases r, auto)+

lemma words_trim_start [simp]: "split_whitespace (trim_start s) = split_whitespace s"
proof -
  have "dropWhile blank (trim_start s) = dropWhile blank s" by (simp add: trim_start_def dropWhile_idem)
  then show ?thesis by (metis split_whitespace.simps)
qed

lemma trim_start_hd: "trim_start s = [] \<or> \<not> blank (hd (trim_start s))"
  using hd_dropWhile [of blank s] by (auto simp: trim_start_def)

lemma trim_start_suffix: "suffix (trim_start s) s"
  by (simp add: trim_start_def suffix_dropWhile)

definition split_rest :: "nat \<Rightarrow> pystr \<Rightarrow> pystr list \<Rightarrow> bool" where
  "split_rest k s parts \<longleftrightarrow>
     (let ws = split_whitespace s in
      if length ws \<le> k then parts = ws
      else \<exists>t. parts = take k ws @ [t] \<and> suffix t s \<and> t \<noteq> [] \<and> \<not> blank (hd t) \<and> split_whitespace t = drop k ws)"

lemma split_rest_cons:
  assumes "split_rest k r parts" "split_whitespace s = w # split_whitespace r" "suffix r s"
  shows "split_rest (Suc k) s (w # parts)"
  using assms suffix_order.trans by (auto simp: split_rest_def Let_def split: if_splits)

lemma rest_cases:
  assumes "rest \<noteq> []" "\<not> blank (hd rest)"
  obtains w r where "rest = w @ r" "w \<noteq> []" "\<forall>c \<in> set w. \<not> blank c" "r = [] \<or> blank (hd r)"
    "split_whitespace rest = w # split_whitespace r"
proof (cases rest rule: words_cases)
  case blank
  then show ?thesis using assms by (cases rest) auto
next
  case (word a w r)
  then have "a = []" using assms by (cases a) auto
  then show ?thesis using word that words_cons [OF word(2-5)] by simp
qed

lemma split_loop_unlimited:
  assumes "maxsplit < 0" "rest = [] \<or> \<not> blank (hd rest)"
  shows "split_ws_loop maxsplit splits rest = split_whitespace rest"
  using assms
proof (induction maxsplit splits rest rule: split_ws_loop.induct)
  case (1 m c rest)
  show ?case
  proof (cases "rest = []")
    case True
    then show ?thesis using words_blank [of "[]"] by (subst split_ws_loop.simps) simp
  next
    case False
    then obtain w r where r: "rest = w @ r" "w \<noteq> []" "\<forall>c \<in> set w. \<not> blank c" "r = [] \<or> blank (hd r)"
        "split_whitespace rest = w # split_whitespace r" using 1(3) rest_cases by blast
    show ?thesis
    proof (cases "r = []")
      case True
      then have "first_index blank rest = None" using r by (simp add: first_index_None)
      then show ?thesis using r True 1(2) words_blank [of "[]"] by (subst split_ws_loop.simps) simp
    next
      case nonempty: False
      then have f: "first_index blank rest = Some (length w)" using r first_index_word by blast
      have "split_ws_loop m (c + 1) (trim_start (drop (length w) rest)) = split_whitespace (trim_start (drop (length w) rest))"
        using 1(1) [OF False _ f] 1(2) trim_start_hd by simp
      then show ?thesis using r(1,2,5) f 1(2) by (subst split_ws_loop.simps) simp
    qed
  qed
qed

lemma split_loop_limited:
  assumes "0 \<le> c" "c \<le> m" "rest = [] \<or> \<not> blank (hd rest)"
  shows "split_rest (nat (m - c)) rest (split_ws_loop m c rest)"
  using assms
proof (induction m c rest rule: split_ws_loop.induct)
  case (1 m c rest)
  show ?case
  proof (cases "rest = []")
    case True
    then show ?thesis using words_blank [of "[]"] by (subst split_ws_loop.simps) (simp add: split_rest_def)
  next
    case False
    then obtain w r where r: "rest = w @ r" "w \<noteq> []" "\<forall>c \<in> set w. \<not> blank c" "r = [] \<or> blank (hd r)"
        "split_whitespace rest = w # split_whitespace r" using 1(4) rest_cases by blast
    consider (stop) "m = c" | (last) "c < m" "r = []" | (more) "c < m" "r \<noteq> []" using 1(3) by fastforce
    then show ?thesis
    proof cases
      case stop
      then show ?thesis using False 1(2,4) r(5) by (subst split_ws_loop.simps) (simp add: split_rest_def)
    next
      case last
      then have "first_index blank rest = None" using r by (simp add: first_index_None)
      then have "split_ws_loop m c rest = [rest]" using False last by (subst split_ws_loop.simps) simp
      then show ?thesis using r last words_blank [of "[]"] by (simp add: split_rest_def)
    next
      case more
      then have f: "first_index blank rest = Some (length w)" using r first_index_word by blast
      let ?t = "trim_start (drop (length w) rest)"
      have t: "?t = trim_start r" using r(1) by simp
      have "split_rest (nat (m - (c + 1))) ?t (split_ws_loop m (c + 1) ?t)"
        using 1(1) [OF False _ f] 1(2) more trim_start_hd [of "drop (length w) rest"] by simp
      moreover have "suffix ?t rest" using r(1) t trim_start_suffix suffix_append by (metis suffix_order.trans suffixI)
      ultimately have "split_rest (Suc (nat (m - (c + 1)))) rest (w # split_ws_loop m (c + 1) ?t)"
        using split_rest_cons r(5) t by (metis words_trim_start)
      moreover have "Suc (nat (m - (c + 1))) = nat (m - c)" using more by simp
      moreover have "split_ws_loop m c rest = w # split_ws_loop m (c + 1) ?t"
        by (subst split_ws_loop.simps) (use False more f r(1) in simp)
      ultimately show ?thesis by simp
    qed
  qed
qed

lemma split_rest_trim: "split_rest k (trim_start s) parts \<Longrightarrow> split_rest k s parts"
  using trim_start_suffix suffix_order.trans by (fastforce simp: split_rest_def Let_def)

lemma split_whitespace_max_correct:
  "(m < 0 \<longrightarrow> split_whitespace_max s m = split_whitespace s) \<and>
   (0 < m \<longrightarrow> split_rest (nat m) s (split_whitespace_max s m))"
proof -
  have "split_rest (nat m) s (split_ws_loop m 0 (trim_start s))" if "0 < m"
    using split_rest_trim split_loop_limited [of 0 m "trim_start s"] trim_start_hd that by simp
  then show ?thesis using split_loop_unlimited trim_start_hd by (auto simp: split_whitespace_max_def)
qed

text \<open>\<open>rsplit\<close>: the remainder is a prefix of the text.\<close>

definition rsplit_rest :: "nat \<Rightarrow> pystr \<Rightarrow> pystr list \<Rightarrow> bool" where
  "rsplit_rest k s parts \<longleftrightarrow>
     (let ws = split_whitespace s; n = length ws in
      if n \<le> k then parts = ws
      else \<exists>t. parts = t # drop (n - k) ws \<and> prefix t s \<and> t \<noteq> [] \<and> \<not> blank (last t) \<and> split_whitespace t = take (n - k) ws)"

lemma trim_end_split: "\<exists>b. s = trim_end s @ b \<and> (\<forall>c \<in> set b. blank c)"
proof -
  have "rev s = takeWhile blank (rev s) @ dropWhile blank (rev s)" by simp
  then have "s = trim_end s @ rev (takeWhile blank (rev s))"
    unfolding trim_end_def by (metis rev_append rev_rev_ident)
  moreover have "\<forall>c \<in> set (rev (takeWhile blank (rev s))). blank c" using set_takeWhileD by fastforce
  ultimately show ?thesis by blast
qed

lemma trim_end_prefix: "prefix (trim_end s) s"
proof -
  obtain b where "s = trim_end s @ b" using trim_end_split by blast
  then show ?thesis by (rule prefixI)
qed

lemma words_blank_right:
  assumes "\<forall>c \<in> set b. blank c"
  shows "split_whitespace (s @ b) = split_whitespace s"
proof -
  have "b = [] \<or> blank (hd b)" using assms by (cases b) auto
  then show ?thesis using words_append [of s b] words_blank [OF assms] by auto
qed

lemma words_trim_end [simp]: "split_whitespace (trim_end s) = split_whitespace s"
  using trim_end_split [of s] words_blank_right by metis

lemma trim_end_last: "trim_end s = [] \<or> \<not> blank (last (trim_end s))"
  using hd_dropWhile [of blank "rev s"] by (auto simp: trim_end_def last_rev)

text \<open>Searching for the next word finds it where it stands.\<close>

lemma find_word:
  assumes "\<forall>c \<in> set a. blank c" "w \<noteq> []" "\<forall>c \<in> set w. \<not> blank c"
  shows "find_text w (a @ w @ r) = Some (length a)"
  using assms(1)
proof (induction a)
  case Nil
  then show ?case using assms(2) by (cases w) auto
next
  case (Cons c a)
  have "\<not> prefix w ((c # a) @ w @ r)" using Cons.prems assms(2,3) by (cases w) auto
  then show ?case using Cons by simp
qed

lemma next_word:
  assumes "split_whitespace s = w # ws"
  obtains a r where "s = a @ w @ r" "\<forall>c \<in> set a. blank c" "find_text w s = Some (length a)"
    "split_whitespace r = ws" "r = [] \<or> blank (hd r)"
proof (cases s rule: words_cases)
  case blank
  then show ?thesis using assms by (simp add: words_blank)
next
  case (word a w' r)
  then have "split_whitespace s = w' # split_whitespace r" using words_cons [OF word(2-5)] by simp
  then have "w' = w" "split_whitespace r = ws" using assms by auto
  then show ?thesis using that [of a r] word find_word [OF word(2-4)] by blast
qed

lemma words_blank_left:
  assumes "split_whitespace a = []"
  shows "split_whitespace (a @ b) = split_whitespace b"
proof (cases a rule: words_cases)
  case blank
  then have "dropWhile blank (a @ b) = dropWhile blank b" by simp
  then show ?thesis by (metis split_whitespace.simps)
next
  case (word x w r)
  then show ?thesis using assms words_cons [OF word(2-5)] by simp
qed

text \<open>After \<open>j\<close> words the position splits the text between the first \<open>j\<close> words and the others.\<close>

definition word_cut :: "pystr \<Rightarrow> pystr list \<Rightarrow> pystr list \<Rightarrow> nat \<Rightarrow> bool" where
  "word_cut s before after pos \<longleftrightarrow> pos \<le> length s \<and> split_whitespace (take pos s) = before \<and>
     split_whitespace (drop pos s) = after \<and> (before = [] \<or> drop pos s = [] \<or> blank (hd (drop pos s)))"

lemma word_cut_step:
  assumes cut: "word_cut s before (w # after) pos"
  shows "word_cut s (before @ [w]) after (word_from s pos w + length w) \<and>
    split_whitespace (take (word_from s pos w) s) = before"
proof -
  obtain a r where r: "drop pos s = a @ w @ r" "\<forall>c \<in> set a. blank c" "find_text w (drop pos s) = Some (length a)"
      "split_whitespace r = after" "r = [] \<or> blank (hd r)"
    using cut next_word [of "drop pos s" w after] by (auto simp: word_cut_def)
  have s: "s = take pos s @ a @ w @ r" using r(1) by (metis append_take_drop_id)
  have len: "length (take pos s) = pos" using cut by (simp add: word_cut_def)
  let ?p = "pos + length a"
  have p: "take ?p s = take pos s @ a" using s len by (metis append_eq_conv_conj length_append append.assoc)
  have q: "take (?p + length w) s = take pos s @ a @ w" "drop (?p + length w) s = r"
    using s len by (metis append.assoc append_eq_conv_conj length_append)+
  have bound: "?p + length w \<le> length s" using q(1) len by (metis append.assoc length_append nat_le_linear take_all length_take min.absorb2 s le_add1)
  have w: "w \<noteq> []" "\<forall>c \<in> set w. \<not> blank c"
    using words_wf [of "drop pos s"] cut by (auto simp: word_cut_def)
  have aw: "split_whitespace (a @ w) = [w]" using words_cons [OF r(2) w, of "[]"] words_blank [of "[]"] by simp
  have "before = [] \<or> blank (hd (a @ w))"
    using cut r(1,2) w by (cases a; cases w) (auto simp: word_cut_def)
  then have "split_whitespace (take pos s @ a @ w) = before @ [w]"
    using aw cut words_append [of "take pos s" "a @ w"] words_blank_left [of "take pos s" "a @ w"] by (auto simp: word_cut_def)
  moreover have "split_whitespace (take ?p s) = before"
    using p cut words_blank_right [OF r(2), of "take pos s"] by (simp add: word_cut_def)
  moreover have "word_from s pos w = ?p" using r(3) by (simp add: word_from_def)
  ultimately show ?thesis using r(4,5) q bound by (simp add: word_cut_def)
qed

lemma skip_words_cut:
  assumes "word_cut s before (ws @ after) pos"
  shows "word_cut s (before @ ws) after (skip_words s ws pos)"
  using assms
proof (induction ws arbitrary: before pos)
  case Nil
  then show ?case by (simp add: skip_words_def)
next
  case (Cons w ws)
  then have "word_cut s (before @ [w]) (ws @ after) (word_from s pos w + length w)" using word_cut_step by simp
  from Cons.IH [OF this] show ?case by (simp add: skip_words_def)
qed

lemma rsplit_whitespace_max_correct:
  "(m < 0 \<longrightarrow> rsplit_whitespace_max s m = split_whitespace s) \<and>
   (0 < m \<longrightarrow> rsplit_rest (nat m) s (rsplit_whitespace_max s m))"
proof -
  have "rsplit_rest (nat m) s (rsplit_whitespace_max s m)" if m: "0 < m"
  proof -
    let ?ws = "split_whitespace s" let ?n = "length ?ws" let ?j = "?n - nat m"
    show ?thesis
    proof (cases "?n \<le> nat m")
      case True
      then show ?thesis using m by (simp add: rsplit_rest_def rsplit_whitespace_max_def Let_def)
    next
      case False
      let ?pos = "skip_words s (take ?j ?ws) 0" let ?t = "trim_end (take (word_from s ?pos (?ws ! ?j)) s)"
      have "word_cut s [] (take ?j ?ws @ drop ?j ?ws) 0" using words_blank [of "[]"] by (simp add: word_cut_def)
      then have "word_cut s (take ?j ?ws) (drop ?j ?ws) ?pos" using skip_words_cut by fastforce
      moreover have "drop ?j ?ws = ?ws ! ?j # drop (Suc ?j) ?ws" using False m by (simp add: Cons_nth_drop_Suc)
      ultimately have t: "split_whitespace ?t = take ?j ?ws" using word_cut_step by (metis words_trim_end)
      moreover have "?t \<noteq> []"
      proof
        assume "?t = []"
        then have "take ?j ?ws = []" using t words_blank [of "[]"] by simp
        then show False using False m by auto
      qed
      moreover have "prefix ?t s"
        using trim_end_prefix take_is_prefix by (rule prefix_order.trans)
      moreover have "rsplit_whitespace_max s m = ?t # drop ?j ?ws"
      proof -
        have k: "min (nat m) ?n = nat m" "\<not> m < 0" "m \<noteq> 0" "?ws \<noteq> []" using m False by auto
        show ?thesis using False unfolding rsplit_whitespace_max_def Let_def k(1) by (simp add: k)
      qed
      ultimately show ?thesis using False trim_end_last [of "take (word_from s ?pos (?ws ! ?j)) s"]
        unfolding rsplit_rest_def Let_def by simp
    qed
  qed
  then show ?thesis by (auto simp: rsplit_whitespace_max_def)
qed

end
