(* ===== verification/Str_Methods.thy ===== *)
theory Str_Methods
  imports Text_Search
begin

text \<open>
  The methods of \<open>str\<close> (\<open>eval/functions/methods/str.rs\<close>): the whole dispatch, with the encoders, and
  \<open>str.maketrans\<close> of \<open>helpers.rs\<close>.  A method that makes a list or a dictionary puts it at the address \<open>fresh\<close>;
  \<open>None\<close> is a \<open>join\<close> over an argument that never ends.  \<open>maxsplit + 1\<close> wraps, as in a release build.
\<close>

section \<open>Characters\<close>

text \<open>
  The Unicode tables are parameters: the classes and case mappings of Rust's \<open>char\<close> and \<open>str\<close>, and the general category
  of the crate \<open>unicode_general_category\<close>.
\<close>

datatype general_category =
    GDecimalNumber | GLetterNumber | GOtherNumber | GControl | GFormat | GSurrogate | GPrivateUse | GUnassigned
  | GLineSeparator | GParagraphSeparator | GSpaceSeparator | GOther

record unicode =
  is_alphabetic :: "nat \<Rightarrow> bool"
  is_alphanumeric :: "nat \<Rightarrow> bool"
  is_uppercase :: "nat \<Rightarrow> bool"
  is_lowercase :: "nat \<Rightarrow> bool"
  to_uppercase :: "nat \<Rightarrow> pystr"
  to_lowercase :: "nat \<Rightarrow> pystr"
  text_uppercase :: "pystr \<Rightarrow> pystr"
  text_lowercase :: "pystr \<Rightarrow> pystr"
  get_general_category :: "nat \<Rightarrow> general_category"

definition in_range :: "nat \<Rightarrow> nat \<times> nat \<Rightarrow> bool" where
  "in_range c r \<longleftrightarrow> fst r \<le> c \<and> c \<le> snd r"

definition is_unicode_digit :: "unicode \<Rightarrow> nat \<Rightarrow> bool" where
  "is_unicode_digit U c \<longleftrightarrow>
     get_general_category U c = GDecimalNumber \<or>
     list_ex (in_range c)
       [(0xB2, 0xB2), (0xB3, 0xB3), (0xB9, 0xB9), (0x1369, 0x1371), (0x2070, 0x2070), (0x2074, 0x2079), (0x2080, 0x2089),
        (0x2460, 0x2468), (0x2474, 0x247C), (0x2488, 0x2490), (0x24EA, 0x24EA), (0x24F5, 0x24FD), (0x24FF, 0x24FF),
        (0x2776, 0x277E), (0x2780, 0x2788), (0x278A, 0x2792)]"

definition is_numeric_char :: "unicode \<Rightarrow> nat \<Rightarrow> bool" where
  "is_numeric_char U c \<longleftrightarrow> get_general_category U c \<in> {GDecimalNumber, GLetterNumber, GOtherNumber}"

definition char_is_printable :: "unicode \<Rightarrow> nat \<Rightarrow> bool" where
  "char_is_printable U c \<longleftrightarrow> c = 32 \<or>
     get_general_category U c \<notin> {GControl, GFormat, GSurrogate, GPrivateUse, GUnassigned, GLineSeparator,
       GParagraphSeparator, GSpaceSeparator}"

definition titlecase_table :: "(nat \<times> pystr) list" where
  "titlecase_table =
     [(0x1C4, [0x1C5]), (0x1C5, [0x1C5]), (0x1C6, [0x1C5]), (0x1C7, [0x1C8]), (0x1C8, [0x1C8]), (0x1C9, [0x1C8]),
      (0x1CA, [0x1CB]), (0x1CB, [0x1CB]), (0x1CC, [0x1CB]), (0x1F1, [0x1F2]), (0x1F2, [0x1F2]), (0x1F3, [0x1F2]),
      (0xDF, [0x53, 0x73]), (0x587, [0x535, 0x582]), (0x1F80, [0x1F88]), (0x1F81, [0x1F89]), (0x1F82, [0x1F8A]),
      (0x1F83, [0x1F8B]), (0x1F84, [0x1F8C]), (0x1F85, [0x1F8D]), (0x1F86, [0x1F8E]), (0x1F87, [0x1F8F]),
      (0x1F88, [0x1F88]), (0x1F89, [0x1F89]), (0x1F8A, [0x1F8A]), (0x1F8B, [0x1F8B]), (0x1F8C, [0x1F8C]),
      (0x1F8D, [0x1F8D]), (0x1F8E, [0x1F8E]), (0x1F8F, [0x1F8F]), (0x1F90, [0x1F98]), (0x1F91, [0x1F99]),
      (0x1F92, [0x1F9A]), (0x1F93, [0x1F9B]), (0x1F94, [0x1F9C]), (0x1F95, [0x1F9D]), (0x1F96, [0x1F9E]),
      (0x1F97, [0x1F9F]), (0x1F98, [0x1F98]), (0x1F99, [0x1F99]), (0x1F9A, [0x1F9A]), (0x1F9B, [0x1F9B]),
      (0x1F9C, [0x1F9C]), (0x1F9D, [0x1F9D]), (0x1F9E, [0x1F9E]), (0x1F9F, [0x1F9F]), (0x1FA0, [0x1FA8]),
      (0x1FA1, [0x1FA9]), (0x1FA2, [0x1FAA]), (0x1FA3, [0x1FAB]), (0x1FA4, [0x1FAC]), (0x1FA5, [0x1FAD]),
      (0x1FA6, [0x1FAE]), (0x1FA7, [0x1FAF]), (0x1FA8, [0x1FA8]), (0x1FA9, [0x1FA9]), (0x1FAA, [0x1FAA]),
      (0x1FAB, [0x1FAB]), (0x1FAC, [0x1FAC]), (0x1FAD, [0x1FAD]), (0x1FAE, [0x1FAE]), (0x1FAF, [0x1FAF]),
      (0x1FB2, [0x1FBA, 0x345]), (0x1FB3, [0x1FBC]), (0x1FB4, [0x386, 0x345]), (0x1FB7, [0x391, 0x342, 0x345]),
      (0x1FBC, [0x1FBC]), (0x1FC2, [0x1FCA, 0x345]), (0x1FC3, [0x1FCC]), (0x1FC4, [0x389, 0x345]),
      (0x1FC7, [0x397, 0x342, 0x345]), (0x1FCC, [0x1FCC]), (0x1FF2, [0x1FFA, 0x345]), (0x1FF3, [0x1FFC]),
      (0x1FF4, [0x38F, 0x345]), (0x1FF7, [0x3A9, 0x342, 0x345]), (0x1FFC, [0x1FFC]), (0xFB00, [0x46, 0x66]),
      (0xFB01, [0x46, 0x69]), (0xFB02, [0x46, 0x6C]), (0xFB03, [0x46, 0x66, 0x69]), (0xFB04, [0x46, 0x66, 0x6C]),
      (0xFB05, [0x53, 0x74]), (0xFB06, [0x53, 0x74]), (0xFB13, [0x544, 0x576]), (0xFB14, [0x544, 0x565]),
      (0xFB15, [0x544, 0x56B]), (0xFB16, [0x54E, 0x576]), (0xFB17, [0x544, 0x56D])]"

definition push_titlecase :: "unicode \<Rightarrow> nat \<Rightarrow> pystr" where
  "push_titlecase U c =
     (if in_range c (0x10D0, 0x10FF) then [c]
      else case map_of titlecase_table c of Some out \<Rightarrow> out | None \<Rightarrow> to_uppercase U c)"

definition unicode_casefold :: "unicode \<Rightarrow> pystr \<Rightarrow> pystr" where
  "unicode_casefold U s =
     concat (map (\<lambda>c. if c = 0xDF \<or> c = 0x1E9E then [115, 115] else if c = 0x3C2 \<or> c = 0x3A3 then [0x3C3] else to_lowercase U c) s)"

fun title_loop :: "unicode \<Rightarrow> bool \<Rightarrow> pystr \<Rightarrow> pystr" where
  "title_loop U capitalize [] = []"
| "title_loop U capitalize (c # s) =
     (if \<not> is_alphabetic U c then c # title_loop U True s
      else if capitalize then push_titlecase U c @ title_loop U False s
      else to_lowercase U c @ title_loop U False s)"

definition capitalize_text :: "unicode \<Rightarrow> pystr \<Rightarrow> pystr" where
  "capitalize_text U s = (case s of [] \<Rightarrow> [] | c # cs \<Rightarrow> push_titlecase U c @ concat (map (to_lowercase U) cs))"

definition swapcase_text :: "unicode \<Rightarrow> pystr \<Rightarrow> pystr" where
  "swapcase_text U s = concat (map (\<lambda>c. if is_uppercase U c then to_lowercase U c else to_uppercase U c) s)"

definition is_identifier :: "unicode \<Rightarrow> pystr \<Rightarrow> bool" where
  "is_identifier U s = (case s of
       [] \<Rightarrow> False
     | c # cs \<Rightarrow> (c = 95 \<or> is_alphabetic U c) \<and> list_all (\<lambda>c. c = 95 \<or> is_alphanumeric U c) cs)"

fun title_scan :: "(nat \<Rightarrow> bool) \<Rightarrow> (nat \<Rightarrow> bool) \<Rightarrow> bool \<Rightarrow> bool \<Rightarrow> pystr \<Rightarrow> bool" where
  "title_scan up lo seen prev [] = seen"
| "title_scan up lo seen prev (c # s) =
     (if up c then (if prev then False else title_scan up lo True True s)
      else if lo c then (if \<not> prev then False else title_scan up lo True True s)
      else title_scan up lo seen False s)"

definition is_title :: "unicode \<Rightarrow> pystr \<Rightarrow> bool" where
  "is_title U s = title_scan (is_uppercase U) (is_lowercase U) False False s"

section \<open>Lines, tabs and padding\<close>

definition is_line_break :: "nat \<Rightarrow> bool" where
  "is_line_break c \<longleftrightarrow> c \<in> {10, 13, 0x0B, 0x0C, 0x1C, 0x1D, 0x1E, 0x85, 0x2028, 0x2029}"

text \<open>The loop of \<open>split_lines\<close>, with the current line.\<close>

fun lines_loop :: "bool \<Rightarrow> pystr \<Rightarrow> pystr \<Rightarrow> pystr list" where
  "lines_loop keepends line [] = (if line = [] then [] else [line])"
| "lines_loop keepends line (c # s) =
     (if is_line_break c then
        (case s of
           d # s' \<Rightarrow>
             if c = 13 \<and> d = 10 then (if keepends then line @ [c, d] else line) # lines_loop keepends [] s'
             else (if keepends then line @ [c] else line) # lines_loop keepends [] s
         | [] \<Rightarrow> (if keepends then line @ [c] else line) # lines_loop keepends [] s)
      else lines_loop keepends (line @ [c]) s)"

definition split_lines :: "pystr \<Rightarrow> bool \<Rightarrow> pystr list" where
  "split_lines s keepends = lines_loop keepends [] s"

fun expand_loop :: "nat \<Rightarrow> nat \<Rightarrow> pystr \<Rightarrow> pystr" where
  "expand_loop tabsize col [] = []"
| "expand_loop tabsize col (c # s) =
     (if c = 9 then
        (let pad = (if tabsize = 0 then 0 else tabsize - col mod tabsize) in
         replicate pad 32 @ expand_loop tabsize (col + pad) s)
      else if c = 10 \<or> c = 13 then c # expand_loop tabsize 0 s
      else c # expand_loop tabsize (col + 1) s)"

definition pad_center :: "nat \<Rightarrow> 'a \<Rightarrow> 'a list \<Rightarrow> 'a list" where
  "pad_center width filler s =
     (if width \<le> length s then s
      else let pad = width - length s; left = pad div 2 in replicate left filler @ s @ replicate (pad - left) filler)"

definition pad_left :: "nat \<Rightarrow> 'a \<Rightarrow> 'a list \<Rightarrow> 'a list" where
  "pad_left width filler s = (if width \<le> length s then s else s @ replicate (width - length s) filler)"

definition pad_right :: "nat \<Rightarrow> 'a \<Rightarrow> 'a list \<Rightarrow> 'a list" where
  "pad_right width filler s = (if width \<le> length s then s else replicate (width - length s) filler @ s)"

definition zero_fill :: "'a \<Rightarrow> 'a list \<Rightarrow> nat \<Rightarrow> 'a list \<Rightarrow> 'a list" where
  "zero_fill z signs width s =
     (if width \<le> length s then s
      else let zeros = replicate (width - length s) z in
        case s of
          c # cs \<Rightarrow> if c \<in> set signs then c # zeros @ cs else zeros @ s
        | [] \<Rightarrow> zeros)"

section \<open>Encodings\<close>

definition hex_text :: "nat \<Rightarrow> nat \<Rightarrow> pystr" where
  "hex_text width u = (let ds = map digit_code (radix_digits 16 u) in replicate (width - length ds) 48 @ ds)"

definition hex_escape :: "nat \<Rightarrow> pystr" where
  "hex_escape u =
     (if u \<le> 0xFF then [92, 120] @ hex_text 2 u
      else if u \<le> 0xFFFF then [92, 117] @ hex_text 4 u
      else [92, 85] @ hex_text 8 u)"

definition escape_char :: "nat \<Rightarrow> pystr" where
  "escape_char c =
     (if c = 92 then [92, 92] else if c = 10 then [92, 110] else if c = 13 then [92, 114] else if c = 9 then [92, 116]
      else if 32 \<le> c \<and> c \<le> 126 then [c] else hex_escape c)"

definition unicode_escape_encode :: "pystr \<Rightarrow> u8 list" where
  "unicode_escape_encode s = map of_nat (concat (map escape_char s))"

text \<open>A name that a message quotes; its characters beyond Latin-1 are not kept.\<close>

definition message_text :: "pystr \<Rightarrow> string" where
  "message_text s = map (\<lambda>c. if c < 256 then char_of c else CHR 63) s"

primrec encode_narrow :: "pystr \<Rightarrow> nat \<Rightarrow> string \<Rightarrow> pystr \<Rightarrow> u8 list eval_result" where
  "encode_narrow [] limit codec errors = Inr []"
| "encode_narrow (c # s) limit codec errors =
     result_bind
       (if c \<le> limit then Inr [of_nat c]
        else if errors = str_of ''strict'' then
          Inl (Exception (exception_new ''UnicodeEncodeError'' (quoted codec @ '' codec can'' @ [CHR 39] @ ''t encode character'')))
        else if errors = str_of ''ignore'' then Inr []
        else if errors = str_of ''replace'' then Inr [63]
        else if errors = str_of ''xmlcharrefreplace'' then Inr (map of_nat (str_of (''&#'' @ nat_digits c @ '';'')))
        else if errors = str_of ''backslashreplace'' then Inr (map of_nat (hex_escape c))
        else Inl (Exception (exception_new ''LookupError'' (''unknown error handler name '' @ quoted (message_text errors)))))
       (\<lambda>out. result_bind (encode_narrow s limit codec errors) (\<lambda>rest. Inr (out @ rest)))"

text \<open>\<open>str::as_bytes\<close>, \<open>str::encode_utf16\<close> and the byte orders.\<close>

definition utf8_text :: "pystr \<Rightarrow> u8 list" where
  "utf8_text s = map of_nat (concat (map utf8_char s))"

definition utf16_units :: "nat \<Rightarrow> nat list" where
  "utf16_units c = (if c < 0x10000 then [c] else [0xD800 + (c - 0x10000) div 1024, 0xDC00 + (c - 0x10000) mod 1024])"

definition unit_bytes :: "nat \<Rightarrow> bool \<Rightarrow> nat \<Rightarrow> u8 list" where
  "unit_bytes width little u =
     (let le = map (\<lambda>i. of_nat (u div 256 ^ i mod 256)) [0..<width] in if little then le else rev le)"

definition utf16_text :: "bool \<Rightarrow> pystr \<Rightarrow> u8 list" where
  "utf16_text little s = concat (map (unit_bytes 2 little) (concat (map utf16_units s)))"

definition utf32_text :: "bool \<Rightarrow> pystr \<Rightarrow> u8 list" where
  "utf32_text little s = concat (map (unit_bytes 4 little) s)"

definition named :: "pystr \<Rightarrow> string list \<Rightarrow> bool" where
  "named name aliases \<longleftrightarrow> list_ex (\<lambda>a. map lower_ascii name = str_of a) aliases"

definition encode_text :: "pystr \<Rightarrow> pystr \<Rightarrow> pystr \<Rightarrow> u8 list eval_result" where
  "encode_text s name errors =
     (if named name [''utf-8'', ''utf_8'', ''u8''] then Inr (utf8_text s)
      else if named name [''ascii'', ''us-ascii''] then encode_narrow s 0x7F ''ascii'' errors
      else if named name [''latin-1'', ''latin1'', ''iso-8859-1'', ''iso8859-1''] then encode_narrow s 0xFF ''latin-1'' errors
      else if named name [''utf-16'', ''utf16''] then Inr ([0xFF, 0xFE] @ utf16_text True s)
      else if named name [''utf-16-le'', ''utf-16le'', ''utf_16_le''] then Inr (utf16_text True s)
      else if named name [''utf-16-be'', ''utf-16be'', ''utf_16_be''] then Inr (utf16_text False s)
      else if named name [''utf-32'', ''utf32''] then Inr ([0xFF, 0xFE, 0, 0] @ utf32_text True s)
      else if named name [''utf-32-le'', ''utf-32le'', ''utf_32_le''] then Inr (utf32_text True s)
      else if named name [''utf-32-be'', ''utf-32be'', ''utf_32_be''] then Inr (utf32_text False s)
      else if named name [''unicode-escape'', ''unicode_escape''] then Inr (unicode_escape_encode s)
      else Inl (Exception (exception_new ''LookupError'' (''unknown encoding: '' @ message_text (map lower_ascii name)))))"

section \<open>Methods of strings\<close>

definition usize_index :: "int \<Rightarrow> nat eval_result" where
  "usize_index i = (if 0 \<le> i then Inr (nat i) else Inl (Interpreter (Runtime ''index overflow or negative'')))"

definition strip_chars :: "string \<Rightarrow> pyval list \<Rightarrow> pystr option eval_result" where
  "strip_chars meth vals = (case vals of
       [] \<Rightarrow> Inr None
     | VNone # _ \<Rightarrow> Inr None
     | VString chars # _ \<Rightarrow> Inr (Some chars)
     | _ \<Rightarrow> Inl (type_error (meth @ '' arg must be None or str'')))"

definition strip_set :: "pystr option \<Rightarrow> nat \<Rightarrow> bool" where
  "strip_set chars c = (case chars of Some cs \<Rightarrow> c \<in> set cs | None \<Rightarrow> blank c)"

definition strip_left :: "('a \<Rightarrow> bool) \<Rightarrow> 'a list \<Rightarrow> 'a list" where
  "strip_left P s = dropWhile P s"

definition strip_right :: "('a \<Rightarrow> bool) \<Rightarrow> 'a list \<Rightarrow> 'a list" where
  "strip_right P s = rev (dropWhile P (rev s))"

definition coerce_maxsplit :: "pyval option \<Rightarrow> i64 eval_result" where
  "coerce_maxsplit arg = (case arg of
       None \<Rightarrow> Inr (- 1)
     | Some VNone \<Rightarrow> Inr (- 1)
     | Some v \<Rightarrow> value_to_i64 v)"

definition separator_error :: "pyval \<Rightarrow> eval_error" where
  "separator_error v = type_error (''must be str or None, not '' @ type_name v)"

text \<open>\<open>maxsplit + 1\<close> wraps.\<close>

definition str_split :: "pystr \<Rightarrow> string \<Rightarrow> pyval list \<Rightarrow> kwargs \<Rightarrow> pystr list eval_result" where
  "str_split s meth vals kw =
     result_bind (bind_method_params meth vals kw [''sep'', ''maxsplit'']) (\<lambda>bound.
     result_bind (coerce_maxsplit (bound ! 1)) (\<lambda>maxsplit.
       case bound ! 0 of
         None \<Rightarrow> Inr (split_whitespace_max s (sint maxsplit))
       | Some VNone \<Rightarrow> Inr (split_whitespace_max s (sint maxsplit))
       | Some (VString sep) \<Rightarrow>
           if sep = [] then Inl (Interpreter (ValueError ''empty separator''))
           else if sint maxsplit < 0 then Inr (split_text sep None s)
           else result_bind (usize_index (sint (maxsplit + 1))) (\<lambda>n. Inr (split_text sep (Some (n - 1)) s))
       | Some other \<Rightarrow> Inl (separator_error other)))"

definition str_rsplit :: "pystr \<Rightarrow> string \<Rightarrow> pyval list \<Rightarrow> kwargs \<Rightarrow> pystr list eval_result" where
  "str_rsplit s meth vals kw =
     result_bind (bind_method_params meth vals kw [''sep'', ''maxsplit'']) (\<lambda>bound.
     result_bind (coerce_maxsplit (bound ! 1)) (\<lambda>maxsplit.
       case bound ! 0 of
         None \<Rightarrow> Inr (rsplit_whitespace_max s (sint maxsplit))
       | Some VNone \<Rightarrow> Inr (rsplit_whitespace_max s (sint maxsplit))
       | Some (VString sep) \<Rightarrow>
           if sep = [] then Inl (Interpreter (ValueError ''empty separator''))
           else if sint maxsplit < 0 then Inr (split_text sep None s)
           else result_bind (usize_index (sint (maxsplit + 1))) (\<lambda>n. Inr (rsplit_text sep (n - 1) s))
       | Some other \<Rightarrow> Inl (separator_error other)))"

primrec join_items :: "nat \<Rightarrow> pyval list \<Rightarrow> pystr list eval_result" where
  "join_items i [] = Inr []"
| "join_items i (v # vs) = (case v of
     VString s \<Rightarrow> result_bind (join_items (i + 1) vs) (\<lambda>rest. Inr (s # rest))
   | _ \<Rightarrow> Inl (type_error (''sequence item '' @ nat_digits i @ '': expected str instance, '' @ type_name v @ '' found'')))"

definition str_join :: "env \<Rightarrow> pystr \<Rightarrow> pyval list \<Rightarrow> pyval run" where
  "str_join E s vals =
     (if length vals \<noteq> 1 then Some (Inl (type_error ''join() takes exactly one argument''))
      else case dispatch_iter E (vals ! 0) of
        None \<Rightarrow> None
      | Some (Inl e) \<Rightarrow> Some (Inl (type_error ''can only join an iterable''))
      | Some (Inr items) \<Rightarrow> Some (result_bind (join_items 0 items) (\<lambda>parts. Inr (VString (join_text s parts)))))"

definition str_replace :: "pystr \<Rightarrow> pyval list \<Rightarrow> pyval eval_result" where
  "str_replace s vals =
     (if length vals < 2 \<or> 3 < length vals then Inl (type_error ''replace() takes 2 or 3 arguments'')
      else case (vals ! 0, vals ! 1) of
        (VString old, VString new) \<Rightarrow>
          result_bind (if length vals = 3 then value_to_i64 (vals ! 2) else Inr (- 1)) (\<lambda>count.
            if sint count < 0 then Inr (VString (replace_text old new None s))
            else result_bind (usize_index (sint count)) (\<lambda>n. Inr (VString (replace_text old new (Some n) s))))
      | _ \<Rightarrow> Inl (type_error ''replace() argument must be str''))"

definition opt_index_arg :: "pyval list \<Rightarrow> nat \<Rightarrow> i64 option eval_result" where
  "opt_index_arg vals i =
     (if i < length vals then
        (case vals ! i of VNone \<Rightarrow> Inr None | v \<Rightarrow> result_bind (value_to_i64 v) (\<lambda>n. Inr (Some n)))
      else Inr None)"

text \<open>The window is in characters; the code converts it to the byte offsets of those characters.\<close>

definition resolve_window :: "nat \<Rightarrow> i64 option \<Rightarrow> i64 option \<Rightarrow> nat \<times> nat" where
  "resolve_window len start stop =
     (let lo = (case start of Some i \<Rightarrow> index_bound len i | None \<Rightarrow> 0);
          hi = (case stop of Some i \<Rightarrow> index_bound len i | None \<Rightarrow> len) in
      (lo, max hi lo))"

definition slice_window :: "nat \<times> nat \<Rightarrow> 'a list \<Rightarrow> 'a list" where
  "slice_window w s = drop (fst w) (take (snd w) s)"

definition parse_search_args :: "pystr \<Rightarrow> string \<Rightarrow> pyval list \<Rightarrow> (pystr \<times> nat \<times> nat) eval_result" where
  "parse_search_args s meth vals =
     (if vals = [] \<or> 3 < length vals then Inl (type_error (meth @ ''() takes at least 1 argument''))
      else case vals ! 0 of
        VString sub \<Rightarrow>
          result_bind (opt_index_arg vals 1) (\<lambda>start. result_bind (opt_index_arg vals 2) (\<lambda>stop.
            Inr (sub, resolve_window (length s) start stop)))
      | _ \<Rightarrow> Inl (type_error (meth @ ''() argument must be str'')))"

definition str_search :: "(pystr \<Rightarrow> pystr \<Rightarrow> nat option) \<Rightarrow> bool \<Rightarrow> pystr \<Rightarrow> string \<Rightarrow> pyval list \<Rightarrow> pyval eval_result" where
  "str_search look missing_raises s meth vals =
     result_bind (parse_search_args s meth vals) (\<lambda>(sub, w).
       case look sub (slice_window w s) of
         Some pos \<Rightarrow> result_bind (to_len_i64 (fst w + pos)) (\<lambda>n. Inr (VInt n))
       | None \<Rightarrow> if missing_raises then Inl (Exception (exception_new ''ValueError'' ''substring not found'')) else Inr (VInt (- 1)))"

definition str_count :: "pystr \<Rightarrow> string \<Rightarrow> pyval list \<Rightarrow> pyval eval_result" where
  "str_count s meth vals =
     result_bind (parse_search_args s meth vals) (\<lambda>(sub, w).
       result_bind (to_len_i64 (count_text sub (slice_window w s))) (\<lambda>n. Inr (VInt n)))"

primrec any_affix :: "string \<Rightarrow> (pystr \<Rightarrow> bool) \<Rightarrow> pyval list \<Rightarrow> bool eval_result" where
  "any_affix meth test [] = Inr False"
| "any_affix meth test (v # vs) = (case v of
     VString p \<Rightarrow> if test p then Inr True else any_affix meth test vs
   | _ \<Rightarrow> Inl (type_error (''tuple for '' @ meth @ ''() must only contain str'')))"

definition string_affix :: "pystr \<Rightarrow> string \<Rightarrow> pyval list \<Rightarrow> bool \<Rightarrow> pyval eval_result" where
  "string_affix s meth vals is_start =
     (if vals = [] \<or> 3 < length vals then Inl (type_error (meth @ ''() takes at least 1 argument''))
      else
        result_bind (opt_index_arg vals 1) (\<lambda>start. result_bind (opt_index_arg vals 2) (\<lambda>stop.
          let window = slice_window (resolve_window (length s) start stop) s;
              test = (\<lambda>affix. if is_start then prefix affix window else suffix affix window) in
          result_bind (case vals ! 0 of
               VString p \<Rightarrow> Inr (test p)
             | VTuple items \<Rightarrow> any_affix meth test items
             | _ \<Rightarrow> Inl (type_error (meth @ ''() first arg must be str or a tuple of str''))) (\<lambda>b. Inr (VBool b)))))"

definition str_partition :: "(pystr \<Rightarrow> pystr \<Rightarrow> nat option) \<Rightarrow> pystr \<times> pystr \<times> pystr \<Rightarrow> pystr \<Rightarrow> string \<Rightarrow> pyval list \<Rightarrow> pyval eval_result" where
  "str_partition look whole s meth vals = (case vals of
       [] \<Rightarrow> Inl (type_error (meth @ ''() requires 1 argument''))
     | VString sep # _ \<Rightarrow>
         (case look sep s of
            None \<Rightarrow> Inr (VTuple [VString (fst whole), VString (fst (snd whole)), VString (snd (snd whole))])
          | Some idx \<Rightarrow> Inr (VTuple [VString (take idx s), VString sep, VString (drop (idx + length sep) s)]))
     | _ \<Rightarrow> Inl (type_error (meth @ ''() argument must be str'')))"

definition remove_prefix :: "'a list \<Rightarrow> 'a list \<Rightarrow> 'a list" where
  "remove_prefix p s = (if prefix p s then drop (length p) s else s)"

definition remove_suffix :: "'a list \<Rightarrow> 'a list \<Rightarrow> 'a list" where
  "remove_suffix p s = (if suffix p s then take (length s - length p) s else s)"

definition str_remove :: "(pystr \<Rightarrow> pystr \<Rightarrow> pystr) \<Rightarrow> pystr \<Rightarrow> string \<Rightarrow> pyval list \<Rightarrow> pyval eval_result" where
  "str_remove remover s meth vals = (case vals of
       [] \<Rightarrow> Inl (type_error (meth @ ''() takes exactly 1 argument''))
     | VString p # _ \<Rightarrow> Inr (VString (remover p s))
     | _ \<Rightarrow> Inl (type_error (meth @ ''() argument must be str'')))"

definition fill_char :: "pyval list \<Rightarrow> nat" where
  "fill_char vals = (if 2 \<le> length vals then (case vals ! 1 of VString (c # _) \<Rightarrow> c | _ \<Rightarrow> 32) else 32)"

definition str_pad :: "(nat \<Rightarrow> nat \<Rightarrow> pystr \<Rightarrow> pystr) \<Rightarrow> string \<Rightarrow> pystr \<Rightarrow> string \<Rightarrow> pyval list \<Rightarrow> pyval eval_result" where
  "str_pad pad takes s meth vals =
     (if vals = [] then Inl (type_error (meth @ ''() takes '' @ takes @ '' 1 argument''))
      else result_bind (value_to_i64 (vals ! 0)) (\<lambda>w. result_bind (usize_index (sint w)) (\<lambda>width.
        Inr (VString (pad width (fill_char vals) s)))))"

definition str_expandtabs :: "pystr \<Rightarrow> string \<Rightarrow> pyval list \<Rightarrow> kwargs \<Rightarrow> pyval eval_result" where
  "str_expandtabs s meth vals kw =
     result_bind (bind_method_params meth vals kw [''tabsize'']) (\<lambda>bound.
     result_bind (case bound ! 0 of
          Some (VInt n) \<Rightarrow> Inr (nat (max 0 (sint n)))
        | Some (VBool b) \<Rightarrow> Inr (if b then 1 else 0)
        | Some _ \<Rightarrow> Inl (type_error ''expandtabs() argument must be int'')
        | None \<Rightarrow> Inr 8) (\<lambda>tabsize. Inr (VString (expand_loop tabsize 0 s))))"

definition str_encode :: "pystr \<Rightarrow> string \<Rightarrow> pyval list \<Rightarrow> kwargs \<Rightarrow> pyval eval_result" where
  "str_encode s meth vals kw =
     result_bind (bind_method_params meth vals kw [''encoding'', ''errors'']) (\<lambda>bound.
     result_bind (case bound ! 0 of
          Some (VString name) \<Rightarrow> Inr name
        | None \<Rightarrow> Inr (str_of ''utf-8'')
        | Some _ \<Rightarrow> Inl (type_error ''encode() argument must be str'')) (\<lambda>name.
     result_bind (case bound ! 1 of
          Some (VString e) \<Rightarrow> Inr e
        | None \<Rightarrow> Inr (str_of ''strict'')
        | Some _ \<Rightarrow> Inl (type_error ''errors must be str'')) (\<lambda>errors.
     result_bind (encode_text s name errors) (\<lambda>b. Inr (VBytes b)))))"

definition code_point_key :: "nat \<Rightarrow> value_key" where
  "code_point_key c = KInt (of_nat c)"

definition is_scalar :: "int \<Rightarrow> bool" where
  "is_scalar n \<longleftrightarrow> 0 \<le> n \<and> n < 0x110000 \<and> \<not> (0xD800 \<le> n \<and> n < 0xE000)"

primrec translate_chars :: "env \<Rightarrow> entries \<Rightarrow> pystr \<Rightarrow> pystr eval_result" where
  "translate_chars E m [] = Inr []"
| "translate_chars E m (c # s) =
     result_bind
       (case map_get E m (code_point_key c) of
          None \<Rightarrow> Inr [c]
        | Some VNone \<Rightarrow> Inr []
        | Some (VInt n) \<Rightarrow> if is_scalar (sint n) then Inr [nat (sint n)]
            else Inl (Interpreter (ValueError ''character mapping must be in range(0x110000)''))
        | Some (VString rep) \<Rightarrow> Inr rep
        | Some other \<Rightarrow> Inl (type_error (''character mapping must return integer, None or str, not '' @ type_name other)))
       (\<lambda>out. result_bind (translate_chars E m s) (\<lambda>rest. Inr (out @ rest)))"

definition translate :: "env \<Rightarrow> pystr \<Rightarrow> pyval \<Rightarrow> pyval eval_result" where
  "translate E s table = (case table of
       VDict d \<Rightarrow> result_bind (translate_chars E (dict_at E d) s) (\<lambda>out. Inr (VString out))
     | _ \<Rightarrow> Inl (type_error (quoted (type_name table) @ '' object is not subscriptable'')))"

definition translate_key :: "value_key \<Rightarrow> value_key eval_result" where
  "translate_key k = (case k of
       KInt i \<Rightarrow> Inr k
     | KString [c] \<Rightarrow> Inr (code_point_key c)
     | KString _ \<Rightarrow> Inl (Interpreter (ValueError ''string keys in translate table must be of length 1''))
     | _ \<Rightarrow> Inl (type_error ''keys in translate table must be strings or integers''))"

definition maketrans_dict :: "env \<Rightarrow> entries \<Rightarrow> entries eval_result" where
  "maketrans_dict E d = result_fold (\<lambda>m (k, v). result_bind (translate_key k) (\<lambda>key. Inr (map_insert E key v m))) [] d"

definition maketrans_pairs :: "env \<Rightarrow> pystr \<Rightarrow> pystr \<Rightarrow> pystr \<Rightarrow> entries" where
  "maketrans_pairs E x y z =
     fold (\<lambda>c m. map_insert E (code_point_key c) VNone m) z
       (fold (\<lambda>(cx, cy) m. map_insert E (code_point_key cx) (VInt (of_nat cy)) m) (zip x y) [])"

definition str_maketrans :: "env \<Rightarrow> pyval list \<Rightarrow> entries eval_result" where
  "str_maketrans E vals = (case vals of
       [VDict d] \<Rightarrow> maketrans_dict E (dict_at E d)
     | VString x # VString y # rest \<Rightarrow>
         if length x \<noteq> length y then Inl (Interpreter (ValueError ''the first two maketrans arguments must have equal length''))
         else (case rest of
             [] \<Rightarrow> Inr (maketrans_pairs E x y [])
           | [VString z] \<Rightarrow> Inr (maketrans_pairs E x y z)
           | _ \<Rightarrow> Inl (type_error ''maketrans third argument must be a str''))
     | _ \<Rightarrow> Inl (type_error ''maketrans expects a dict, or two/three str arguments''))"

definition nonempty_all :: "('a \<Rightarrow> bool) \<Rightarrow> 'a list \<Rightarrow> pyval eval_result" where
  "nonempty_all P s = Inr (VBool (s \<noteq> [] \<and> list_all P s))"

definition pure_text :: "env \<Rightarrow> pyval eval_result \<Rightarrow> (env \<times> pyval) run" where
  "pure_text E r = Some (result_bind r (\<lambda>v. Inr (E, v)))"

definition listed :: "addr \<Rightarrow> env \<Rightarrow> ('a \<Rightarrow> pyval) \<Rightarrow> 'a list eval_result \<Rightarrow> (env \<times> pyval) run" where
  "listed fresh E f r = Some (result_bind r (\<lambda>parts. Inr (set_list E fresh (map f parts), VList fresh)))"

definition dispatch_string_method ::
  "unicode \<Rightarrow> addr \<Rightarrow> env \<Rightarrow> pystr \<Rightarrow> string \<Rightarrow> pyval list \<Rightarrow> kwargs \<Rightarrow> (env \<times> pyval) run" where
  "dispatch_string_method U fresh E s meth vals kw =
     run_bind (Some (if meth \<in> {''split'', ''rsplit'', ''encode'', ''expandtabs'', ''splitlines''} then Inr () else reject_kwargs meth kw)) (\<lambda>_.
       let text = (\<lambda>t. pure_text E (Inr (VString t))); flag = (\<lambda>b. pure_text E (Inr (VBool b))) in
       if meth = ''upper'' then text (text_uppercase U s)
       else if meth = ''lower'' then text (text_lowercase U s)
       else if meth = ''strip'' then
         pure_text E (result_bind (strip_chars meth vals) (\<lambda>cs. Inr (VString (strip_right (strip_set cs) (strip_left (strip_set cs) s)))))
       else if meth = ''lstrip'' then
         pure_text E (result_bind (strip_chars meth vals) (\<lambda>cs. Inr (VString (strip_left (strip_set cs) s))))
       else if meth = ''rstrip'' then
         pure_text E (result_bind (strip_chars meth vals) (\<lambda>cs. Inr (VString (strip_right (strip_set cs) s))))
       else if meth = ''split'' then listed fresh E VString (str_split s meth vals kw)
       else if meth = ''rsplit'' then listed fresh E VString (str_rsplit s meth vals kw)
       else if meth = ''join'' then run_bind (str_join E s vals) (\<lambda>v. Some (Inr (E, v)))
       else if meth = ''replace'' then pure_text E (str_replace s vals)
       else if meth = ''startswith'' then pure_text E (string_affix s meth vals True)
       else if meth = ''endswith'' then pure_text E (string_affix s meth vals False)
       else if meth = ''casefold'' then text (unicode_casefold U s)
       else if meth = ''encode'' then pure_text E (str_encode s meth vals kw)
       else if meth = ''expandtabs'' then pure_text E (str_expandtabs s meth vals kw)
       else if meth = ''partition'' then pure_text E (str_partition find_text (s, [], []) s meth vals)
       else if meth = ''rpartition'' then pure_text E (str_partition rfind_text ([], [], s) s meth vals)
       else if meth = ''removeprefix'' then pure_text E (str_remove remove_prefix s meth vals)
       else if meth = ''removesuffix'' then pure_text E (str_remove remove_suffix s meth vals)
       else if meth = ''find'' then pure_text E (str_search find_text False s meth vals)
       else if meth = ''rfind'' then pure_text E (str_search rfind_text False s meth vals)
       else if meth = ''index'' then pure_text E (str_search find_text True s meth vals)
       else if meth = ''rindex'' then pure_text E (str_search rfind_text True s meth vals)
       else if meth = ''count'' then pure_text E (str_count s meth vals)
       else if meth = ''isdigit'' then pure_text E (nonempty_all (is_unicode_digit U) s)
       else if meth = ''isalpha'' then pure_text E (nonempty_all (is_alphabetic U) s)
       else if meth = ''isalnum'' then pure_text E (nonempty_all (is_alphanumeric U) s)
       else if meth = ''isspace'' then pure_text E (nonempty_all blank s)
       else if meth = ''isupper'' then flag (list_ex (is_uppercase U) s \<and> \<not> list_ex (is_lowercase U) s)
       else if meth = ''islower'' then flag (list_ex (is_lowercase U) s \<and> \<not> list_ex (is_uppercase U) s)
       else if meth = ''title'' then text (title_loop U True s)
       else if meth = ''capitalize'' then text (capitalize_text U s)
       else if meth = ''swapcase'' then text (swapcase_text U s)
       else if meth = ''center'' then pure_text E (str_pad pad_center ''at least'' s meth vals)
       else if meth = ''ljust'' then pure_text E (str_pad pad_left ''at least'' s meth vals)
       else if meth = ''rjust'' then pure_text E (str_pad pad_right ''at least'' s meth vals)
       else if meth = ''zfill'' then pure_text E (str_pad (\<lambda>w _. zero_fill 48 [45, 43] w) ''exactly'' s meth vals)
       else if meth = ''splitlines'' then
         listed fresh E VString (result_bind (bind_method_params meth vals kw [''keepends'']) (\<lambda>bound.
           Inr (split_lines s (case bound ! 0 of None \<Rightarrow> False | Some VNone \<Rightarrow> False | Some v \<Rightarrow> is_truthy E v))))
       else if meth = ''isidentifier'' then flag (is_identifier U s)
       else if meth = ''istitle'' then flag (is_title U s)
       else if meth = ''isprintable'' then flag (list_all (char_is_printable U) s)
       else if meth = ''isascii'' then flag (list_all (\<lambda>c. c < 128) s)
       else if meth = ''isdecimal'' then pure_text E (nonempty_all (\<lambda>c. get_general_category U c = GDecimalNumber) s)
       else if meth = ''isnumeric'' then pure_text E (nonempty_all (is_numeric_char U) s)
       else if meth = ''translate'' then
         (case vals of
            [] \<Rightarrow> Some (Inl (type_error ''translate() takes exactly one argument (0 given)''))
          | table # _ \<Rightarrow> pure_text E (translate E s table))
       else if meth = ''maketrans'' then
         Some (result_bind (str_maketrans E vals) (\<lambda>m. Inr (set_dict E fresh m, VDict fresh)))
       else Some (Inl (Interpreter (AttributeError (quoted ''str'' @ '' object has no attribute '' @ quoted meth)))))"

section \<open>Correctness\<close>

subsection \<open>Splitting and joining\<close>

lemma join_items_strings: "join_items i (map VString parts) = Inr parts"
  by (induction parts arbitrary: i) simp_all

lemma to_index_next: "0 \<le> sint k \<Longrightarrow> sint (k :: i64) \<noteq> 2 ^ 63 - 1 \<Longrightarrow> usize_index (sint (k + 1)) = Inr (nat (sint k) + 1)"
proof -
  assume a: "0 \<le> sint k" "sint k \<noteq> 2 ^ 63 - 1"
  have "sint k < 2 ^ 63" using sint_lt [of k] by simp
  then have "sint (k + 1) = sint k + 1" using a by (simp add: sint_word_ariths signed_take_bit_int_eq_self)
  then show ?thesis using a by (simp add: usize_index_def nat_add_distrib)
qed

lemma value_to_i64_int [simp]: "value_to_i64 (VInt k) = Inr k"
  by (subst value_to_i64.simps) simp

lemma bind_two [simp]:
  "bind_method_params meth [a, b] [] [''sep'', ''maxsplit''] = Inr [Some a, Some b]"
  "bind_method_params meth [] [] [''sep'', ''maxsplit''] = Inr [None, None]"
  by (simp_all add: bind_method_params_def numeral_2_eq_2)

lemma str_split_text:
  assumes "sep \<noteq> []" "sint k \<noteq> 2 ^ 63 - 1"
  shows "str_split s meth [VString sep, VInt k] [] = Inr (split_text sep (if sint k < 0 then None else Some (nat (sint k))) s)"
    "str_rsplit s meth [VString sep, VInt k] [] =
       Inr (if sint k < 0 then split_text sep None s else rsplit_text sep (nat (sint k)) s)"
  using assms to_index_next [of k] by (auto simp: str_split_def str_rsplit_def coerce_maxsplit_def)

lemma dispatch_split:
  "dispatch_string_method U fresh E s ''split'' vals kw = listed fresh E VString (str_split s ''split'' vals kw)"
  "dispatch_string_method U fresh E s ''rsplit'' vals kw = listed fresh E VString (str_rsplit s ''rsplit'' vals kw)"
  "dispatch_string_method U fresh E s ''join'' vals [] = run_bind (str_join E s vals) (\<lambda>v. Some (Inr (E, v)))"
  unfolding dispatch_string_method_def Let_def by (simp_all add: reject_kwargs_def)

lemma str_join_list:
  assumes "list_at E fresh = map VString parts"
  shows "str_join E sep [VList fresh] = Some (Inr (VString (join_text sep parts)))"
  using assms by (simp add: str_join_def dispatch_iter_def iter_slot_def join_items_strings)

lemma join_listed:
  "dispatch_string_method U other (set_list E fresh (map VString parts)) sep ''join'' [VList fresh] [] =
     Some (Inr (set_list E fresh (map VString parts), VString (join_text sep parts)))"
proof -
  have "list_at (set_list E fresh (map VString parts)) fresh = map VString parts" by (simp add: set_list_def)
  then show ?thesis by (simp add: dispatch_split str_join_list)
qed

definition split_parts :: "bool \<Rightarrow> pystr \<Rightarrow> i64 \<Rightarrow> pystr \<Rightarrow> pystr list" where
  "split_parts right sep k s =
     (if sint k < 0 then split_text sep None s
      else if right then rsplit_text sep (nat (sint k)) s else split_text sep (Some (nat (sint k))) s)"

lemma join_split_parts: "join_text sep (split_parts right sep k s) = s"
  by (simp add: split_parts_def join_split join_rsplit)

lemma split_parts_count: "0 \<le> sint k \<Longrightarrow> int (length (split_parts right sep k s)) \<le> sint k + 1"
proof -
  assume k: "0 \<le> sint k"
  have "length (split_parts right sep k s) \<le> nat (sint k) + 1"
    using k split_parts_bounded [of sep "nat (sint k)" s] rsplit_parts_bounded [of sep "nat (sint k)" s]
    by (simp add: split_parts_def)
  then show ?thesis using k by linarith
qed

lemma split_parts_unlimited: "sep \<noteq> [] \<Longrightarrow> sint k < 0 \<Longrightarrow> p \<in> set (split_parts right sep k s) \<Longrightarrow> \<not> contains_text sep p"
  using split_parts_free by (simp add: split_parts_def)

text \<open>C34: Splitting a string and joining the parts.  \<open>s.split(sep, k)\<close> and \<open>s.rsplit(sep, k)\<close> with a non-empty separator
  return a list of strings; \<open>sep.join\<close> of that list gives \<open>s\<close> back.  A limit \<open>k \<ge> 0\<close> gives at most \<open>k + 1\<close> parts, and
  without a limit no part contains the separator.  The limit \<open>sys.maxsize\<close> is excluded: \<open>maxsplit + 1\<close> overflows there.\<close>

theorem split_then_join:
  assumes "sep \<noteq> []" "sint k \<noteq> 2 ^ 63 - 1"
  shows "\<exists>parts. dispatch_string_method U fresh E s (if right then ''rsplit'' else ''split'') [VString sep, VInt k] [] =
        Some (Inr (set_list E fresh (map VString parts), VList fresh)) \<and>
      dispatch_string_method U other (set_list E fresh (map VString parts)) sep ''join'' [VList fresh] [] =
        Some (Inr (set_list E fresh (map VString parts), VString s)) \<and>
      (0 \<le> sint k \<longrightarrow> int (length parts) \<le> sint k + 1) \<and>
      (sint k < 0 \<longrightarrow> (\<forall>p \<in> set parts. \<not> contains_text sep p))"
proof (intro exI [of _ "split_parts right sep k s"] conjI impI ballI)
  show "dispatch_string_method U fresh E s (if right then ''rsplit'' else ''split'') [VString sep, VInt k] [] =
      Some (Inr (set_list E fresh (map VString (split_parts right sep k s)), VList fresh))"
    using assms by (auto simp: dispatch_split listed_def str_split_text split_parts_def)
  show "dispatch_string_method U other (set_list E fresh (map VString (split_parts right sep k s))) sep ''join'' [VList fresh] [] =
      Some (Inr (set_list E fresh (map VString (split_parts right sep k s)), VString s))"
    by (simp add: join_listed join_split_parts)
qed (use assms split_parts_count split_parts_unlimited in blast)+

definition ascii_unicode :: unicode where
  "ascii_unicode = (let up = (\<lambda>c. 65 \<le> c \<and> c \<le> 90); lo = (\<lambda>c. 97 \<le> c \<and> c \<le> 122);
       to_up = (\<lambda>c. if lo c then c - 32 else c); to_lo = (\<lambda>c. if up c then c + 32 else c) in
     \<lparr>is_alphabetic = (\<lambda>c. up c \<or> lo c), is_alphanumeric = (\<lambda>c. up c \<or> lo c \<or> 48 \<le> c \<and> c \<le> 57),
      is_uppercase = up, is_lowercase = lo, to_uppercase = (\<lambda>c. [to_up c]), to_lowercase = (\<lambda>c. [to_lo c]),
      text_uppercase = map to_up, text_lowercase = map to_lo,
      get_general_category = (\<lambda>c. if 48 \<le> c \<and> c \<le> 57 then GDecimalNumber else GOther)\<rparr>)"

theorem split_then_join_witness:
  "\<exists>parts. dispatch_string_method ascii_unicode 0 empty_env (str_of ''a,b,c'') ''split'' [VString (str_of '',''), VInt 1] [] =
        Some (Inr (set_list empty_env 0 (map VString parts), VList 0)) \<and>
      dispatch_string_method ascii_unicode 1 (set_list empty_env 0 (map VString parts)) (str_of '','') ''join'' [VList 0] [] =
        Some (Inr (set_list empty_env 0 (map VString parts), VString (str_of ''a,b,c'')))"
  using split_then_join [of "str_of '',''" 1 ascii_unicode 0 empty_env "str_of ''a,b,c''" False 1] by (auto simp: str_of_def)

lemma maxsplit_overflows:
  "str_split s meth [VString [44], VInt (2 ^ 63 - 1)] [] = Inl (Interpreter (Runtime ''index overflow or negative''))"
  by (simp add: str_split_def coerce_maxsplit_def usize_index_def)

lemma rsplit_unlimited_from_left:
  "str_rsplit (str_of ''aaa'') meth [VString (str_of ''aa''), VInt (- 1)] [] = Inr [[], str_of ''a''] \<and>
   str_rsplit (str_of ''aaa'') meth [VString (str_of ''aa''), VInt 5] [] = Inr [str_of ''a'', []]"
proof -
  have "split_text (str_of ''aa'') None (str_of ''aaa'') = [[], str_of ''a'']" by code_simp
  moreover have "rsplit_text (str_of ''aa'') 5 (str_of ''aaa'') = [str_of ''a'', []]" by code_simp
  ultimately show ?thesis
    using str_split_text(2) [of "str_of ''aa''" "- 1"] str_split_text(2) [of "str_of ''aa''" 5] by simp
qed

lemma empty_partition:
  "str_partition find_text (s, [], []) s ''partition'' [VString []] = Inr (VTuple [VString [], VString [], VString s])"
  by (cases s) (simp_all add: str_partition_def)

lemma whitespace_limit_zero: "split_whitespace_max s 0 = [s] \<and> rsplit_whitespace_max s 0 = [s]"
  by (simp add: split_whitespace_max_def rsplit_whitespace_max_def)

lemma center_leans_left: "pad_center 5 32 (str_of ''ab'') = str_of '' ab  ''"
  by code_simp

lemma negative_width_fails:
  "str_pad pad takes s meth [VInt (- 1)] = Inl (Interpreter (Runtime ''index overflow or negative''))"
  by (simp add: str_pad_def usize_index_def)

subsection \<open>Searching in a window\<close>

lemma occurs_at_take: "occurs_at sub s i \<longleftrightarrow> i + length sub \<le> length s \<and> take (length sub) (drop i s) = sub"
proof
  assume o: "occurs_at sub s i"
  then obtain r where "drop i s = sub @ r" by (auto simp: occurs_at_def prefix_def)
  then show "i + length sub \<le> length s \<and> take (length sub) (drop i s) = sub" using occurs_at_bound [OF o] by simp
next
  assume a: "i + length sub \<le> length s \<and> take (length sub) (drop i s) = sub"
  then show "occurs_at sub s i" using take_is_prefix [of "length sub" "drop i s"] by (simp add: occurs_at_def)
qed

definition valid_window :: "nat \<times> nat \<Rightarrow> 'a list \<Rightarrow> bool" where
  "valid_window w s \<longleftrightarrow> fst w \<le> snd w \<and> snd w \<le> length s"

lemma index_bound_le: "index_bound len i \<le> len"
  by (simp add: index_bound_def)

lemma resolve_window_valid: "valid_window (resolve_window (length s) start stop) s"
  using index_bound_le by (auto simp: valid_window_def resolve_window_def Let_def split: option.splits)

lemma occurs_in_window:
  assumes "valid_window w s"
  shows "occurs_at sub (slice_window w s) i \<longleftrightarrow> fst w + i + length sub \<le> snd w \<and> occurs_at sub s (fst w + i)"
proof -
  have len: "length (slice_window w s) = snd w - fst w" using assms by (simp add: slice_window_def valid_window_def)
  have "take (length sub) (drop i (slice_window w s)) = take (length sub) (drop (fst w + i) s)"
    if "fst w + i + length sub \<le> snd w"
    using that by (simp add: slice_window_def drop_take add.commute min_absorb1)
  then show ?thesis using assms len by (auto simp: occurs_at_take valid_window_def)
qed

definition found_in :: "pystr \<Rightarrow> pystr \<Rightarrow> nat \<times> nat \<Rightarrow> nat \<Rightarrow> bool" where
  "found_in sub s w p \<longleftrightarrow> fst w \<le> p \<and> p + length sub \<le> snd w \<and> occurs_at sub s p"

lemma found_in_window:
  "valid_window w s \<Longrightarrow> occurs_at sub (slice_window w s) i \<longleftrightarrow> found_in sub s w (fst w + i)"
  by (auto simp: occurs_in_window found_in_def)

lemma find_in_window:
  assumes w: "valid_window w s"
  shows "case find_text sub (slice_window w s) of
      Some i \<Rightarrow> found_in sub s w (fst w + i) \<and> (\<forall>p. found_in sub s w p \<longrightarrow> fst w + i \<le> p)
    | None \<Rightarrow> \<forall>p. \<not> found_in sub s w p"
proof (cases "find_text sub (slice_window w s)")
  case None
  then have "\<not> found_in sub s w (fst w + i)" for i using found_in_window [OF w] find_text_None by blast
  then have "\<not> found_in sub s w p" for p by (metis found_in_def le_add_diff_inverse)
  then show ?thesis using None by simp
next
  case (Some i)
  then have "found_in sub s w (fst w + i)" "\<forall>j < i. \<not> found_in sub s w (fst w + j)"
    using found_in_window [OF w] find_text_first by blast+
  moreover from this have "fst w + i \<le> p" if "found_in sub s w p" for p
    using that by (metis found_in_def le_add_diff_inverse nat_add_left_cancel_le not_le)
  ultimately show ?thesis using Some by simp
qed

lemma rfind_in_window:
  assumes w: "valid_window w s"
  shows "case rfind_text sub (slice_window w s) of
      Some i \<Rightarrow> found_in sub s w (fst w + i) \<and> (\<forall>p. found_in sub s w p \<longrightarrow> p \<le> fst w + i)
    | None \<Rightarrow> \<forall>p. \<not> found_in sub s w p"
proof (cases "rfind_text sub (slice_window w s)")
  case None
  then have "\<not> found_in sub s w (fst w + i)" for i using found_in_window [OF w] rfind_text_None by blast
  then have "\<not> found_in sub s w p" for p by (metis found_in_def le_add_diff_inverse)
  then show ?thesis using None by simp
next
  case (Some i)
  then have "found_in sub s w (fst w + i)" "\<forall>j > i. \<not> found_in sub s w (fst w + j)"
    using found_in_window [OF w] rfind_text_last by blast+
  moreover from this have "p \<le> fst w + i" if "found_in sub s w p" for p
    using that by (metis found_in_def le_add_diff_inverse nat_add_left_cancel_le not_le)
  ultimately show ?thesis using Some by simp
qed

lemma dispatch_search:
  "dispatch_string_method U fresh E s ''find'' vals [] = pure_text E (str_search find_text False s ''find'' vals)"
  "dispatch_string_method U fresh E s ''rfind'' vals [] = pure_text E (str_search rfind_text False s ''rfind'' vals)"
  "dispatch_string_method U fresh E s ''index'' vals [] = pure_text E (str_search find_text True s ''index'' vals)"
  "dispatch_string_method U fresh E s ''rindex'' vals [] = pure_text E (str_search rfind_text True s ''rindex'' vals)"
  unfolding dispatch_string_method_def Let_def by (simp_all add: reject_kwargs_def)

lemma parse_three:
  "parse_search_args s meth [VString sub, VInt i, VInt j] = Inr (sub, resolve_window (length s) (Some i) (Some j))"
  by (simp add: parse_search_args_def opt_index_arg_def)

lemma str_search_int:
  assumes "length s < 2 ^ 63" "w = resolve_window (length s) (Some i) (Some j)"
    "\<And>p. look sub (slice_window w s) = Some p \<Longrightarrow> found_in sub s w (fst w + p)"
  shows "str_search look missing s meth [VString sub, VInt i, VInt j] =
    (case look sub (slice_window w s) of
       Some p \<Rightarrow> Inr (VInt (of_nat (fst w + p)))
     | None \<Rightarrow> if missing then Inl (Exception (exception_new ''ValueError'' ''substring not found'')) else Inr (VInt (- 1)))"
proof -
  have "fst w + p < 2 ^ 63" if "look sub (slice_window w s) = Some p" for p
    using assms(1) assms(3) [OF that] resolve_window_valid [of s "Some i" "Some j"] assms(2)
    by (simp add: found_in_def valid_window_def)
  then show ?thesis using assms(2) by (auto simp: str_search_def parse_three to_len_i64_def split: option.split)
qed

text \<open>C35: Searching a string.  On a string that fits, \<open>s.find(sub, i, j)\<close> returns the smallest and \<open>s.rfind(sub, i, j)\<close> the largest
  position of an occurrence of \<open>sub\<close> that lies in the window of \<open>i\<close> and \<open>j\<close>, and both return \<open>-1\<close> when there is none;
  \<open>index\<close> and \<open>rindex\<close> return the same positions and raise \<open>ValueError\<close> when there is none.\<close>

theorem search_correct:
  assumes "length s < 2 ^ 63"
  shows "let w = resolve_window (length s) (Some i) (Some j); vals = [VString sub, VInt i, VInt j];
        call = (\<lambda>meth. dispatch_string_method U fresh E s meth vals []);
        missing = Some (Inl (Exception (exception_new ''ValueError'' ''substring not found''))) in
      if \<exists>p. found_in sub s w p then
        (\<exists>p q. (\<forall>meth \<in> {''find'', ''index''}. call meth = Some (Inr (E, VInt (of_nat p)))) \<and>
           (\<forall>meth \<in> {''rfind'', ''rindex''}. call meth = Some (Inr (E, VInt (of_nat q)))) \<and>
           found_in sub s w p \<and> found_in sub s w q \<and> (\<forall>r. found_in sub s w r \<longrightarrow> p \<le> r \<and> r \<le> q))
      else call ''find'' = Some (Inr (E, VInt (- 1))) \<and> call ''rfind'' = Some (Inr (E, VInt (- 1))) \<and>
        call ''index'' = missing \<and> call ''rindex'' = missing"
proof -
  define w where "w = resolve_window (length s) (Some i) (Some j)"
  have valid: "valid_window w s" by (simp add: w_def resolve_window_valid)
  note first = find_in_window [OF valid, of sub] and last = rfind_in_window [OF valid, of sub]
  have find: "str_search find_text m s meth [VString sub, VInt i, VInt j] =
      (case find_text sub (slice_window w s) of Some p \<Rightarrow> Inr (VInt (of_nat (fst w + p)))
       | None \<Rightarrow> if m then Inl (Exception (exception_new ''ValueError'' ''substring not found'')) else Inr (VInt (- 1)))" for m meth
    by (rule str_search_int [OF assms w_def]) (use first in simp)
  have rfind: "str_search rfind_text m s meth [VString sub, VInt i, VInt j] =
      (case rfind_text sub (slice_window w s) of Some p \<Rightarrow> Inr (VInt (of_nat (fst w + p)))
       | None \<Rightarrow> if m then Inl (Exception (exception_new ''ValueError'' ''substring not found'')) else Inr (VInt (- 1)))" for m meth
    by (rule str_search_int [OF assms w_def]) (use last in simp)
  show ?thesis
  proof (cases "\<exists>p. found_in sub s w p")
    case True
    then obtain p q where pq: "find_text sub (slice_window w s) = Some p" "rfind_text sub (slice_window w s) = Some q"
      using first last by (auto split: option.splits)
    have p: "found_in sub s w (fst w + p)" "\<forall>r. found_in sub s w r \<longrightarrow> fst w + p \<le> r" using first pq(1) by simp_all
    have q: "found_in sub s w (fst w + q)" "\<forall>r. found_in sub s w r \<longrightarrow> r \<le> fst w + q" using last pq(2) by simp_all
    show ?thesis
      unfolding Let_def w_def [symmetric] if_P [OF True]
    proof (intro exI conjI allI impI)
      show "\<forall>meth \<in> {''find'', ''index''}. dispatch_string_method U fresh E s meth [VString sub, VInt i, VInt j] [] =
          Some (Inr (E, VInt (of_nat (fst w + p))))"
        by (simp add: dispatch_search find pure_text_def pq)
      show "\<forall>meth \<in> {''rfind'', ''rindex''}. dispatch_string_method U fresh E s meth [VString sub, VInt i, VInt j] [] =
          Some (Inr (E, VInt (of_nat (fst w + q))))"
        by (simp add: dispatch_search rfind pure_text_def pq)
    qed (use p q in blast)+
  next
    case False
    then have "find_text sub (slice_window w s) = None" "rfind_text sub (slice_window w s) = None"
      using first last by (auto split: option.splits)
    then show ?thesis
      unfolding Let_def w_def [symmetric] using False by (simp add: dispatch_search find rfind pure_text_def)
  qed
qed

theorem search_correct_witness:
  "dispatch_string_method ascii_unicode 0 empty_env (str_of ''banana'') ''rfind'' [VString (str_of ''ana''), VInt 0, VInt 5] [] =
     Some (Inr (empty_env, VInt 1))"
proof -
  have w: "resolve_window 6 (Some 0) (Some 5) = (0, 5)" by code_simp
  have len: "length (str_of ''banana'') = 6" by code_simp
  have one: "found_in (str_of ''ana'') (str_of ''banana'') (0, 5) 1" by code_simp
  have only: "p = 1" if f: "found_in (str_of ''ana'') (str_of ''banana'') (0, 5) p" for p
  proof -
    have "p \<le> 2" using f by (simp add: found_in_def str_of_def)
    moreover have "\<not> found_in (str_of ''ana'') (str_of ''banana'') (0, 5) 0" by code_simp
    moreover have "\<not> found_in (str_of ''ana'') (str_of ''banana'') (0, 5) 2" by code_simp
    ultimately show ?thesis using f by (metis One_nat_def Suc_1 le_Suc_eq le_zero_eq)
  qed
  have "\<exists>p. found_in (str_of ''ana'') (str_of ''banana'') (0, 5) p" using one by blast
  then obtain q where "dispatch_string_method ascii_unicode 0 empty_env (str_of ''banana'') ''rfind'' [VString (str_of ''ana''), VInt 0, VInt 5] [] =
      Some (Inr (empty_env, VInt (of_nat q)))" "found_in (str_of ''ana'') (str_of ''banana'') (0, 5) q"
    using search_correct [of "str_of ''banana''" 0 5 "str_of ''ana''" ascii_unicode 0 empty_env] unfolding Let_def len w by auto
  then show ?thesis using only by fastforce
qed

subsection \<open>Whitespace and lines\<close>

text \<open>C36: Splitting on whitespace.  The words of a text are its maximal runs of other characters.  Without a limit \<open>split()\<close> and
  \<open>rsplit()\<close> return them; with a limit \<open>k > 0\<close> smaller than their number, \<open>split\<close> returns the first \<open>k\<close> words and the rest
  of the text from the next word on, and \<open>rsplit\<close>, which locates the remainder by searching for one word after the other,
  returns the text up to the end of the word before the last \<open>k\<close> words, and those words.\<close>

theorem whitespace_split_correct:
  "(m < 0 \<longrightarrow> split_whitespace_max s m = split_whitespace s \<and> rsplit_whitespace_max s m = split_whitespace s) \<and>
   (0 < m \<longrightarrow> split_rest (nat m) s (split_whitespace_max s m) \<and> rsplit_rest (nat m) s (rsplit_whitespace_max s m)) \<and>
   (\<forall>w \<in> set (split_whitespace s). w \<noteq> [] \<and> (\<forall>c \<in> set w. \<not> blank c)) \<and>
   concat (split_whitespace s) = filter (\<lambda>c. \<not> blank c) s"
  using split_whitespace_max_correct rsplit_whitespace_max_correct words_wf words_concat by blast

theorem whitespace_split_correct_witness:
  "split_rest 1 (str_of ''a b  c'') (split_whitespace_max (str_of ''a b  c'') 1) \<and>
   rsplit_rest 1 (str_of ''a b  c'') (rsplit_whitespace_max (str_of ''a b  c'') 1)"
  using whitespace_split_correct [of 1 "str_of ''a b  c''"] by simp

lemma lines_loop_concat: "concat (lines_loop True line s) = line @ s"
  by (induction True line s rule: lines_loop.induct) (auto split: list.splits)

lemma lines_loop_free:
  "\<forall>c \<in> set line. \<not> is_line_break c \<Longrightarrow> \<forall>l \<in> set (lines_loop False line s). \<forall>c \<in> set l. \<not> is_line_break c"
proof (induction s arbitrary: line rule: length_induct)
  case (1 s)
  have IH: "\<forall>l \<in> set (lines_loop False l0 u). \<forall>c \<in> set l. \<not> is_line_break c"
    if "length u < length s" "\<forall>c \<in> set l0. \<not> is_line_break c" for u l0 using 1(1) that by blast
  show ?case
  proof (cases s)
    case (Cons c t)
    have rest: "\<forall>l \<in> set (lines_loop False [] u). \<forall>c \<in> set l. \<not> is_line_break c" if "length u < length s" for u
      using IH [OF that, of "[]"] by simp
    show ?thesis
    proof (cases "is_line_break c")
      case True
      show ?thesis
      proof (cases t)
        case Nil
        then show ?thesis using Cons True 1(2) by simp
      next
        case (Cons d u)
        have "\<forall>l \<in> set (lines_loop False [] u). \<forall>c \<in> set l. \<not> is_line_break c"
          "\<forall>l \<in> set (lines_loop False [] t). \<forall>c \<in> set l. \<not> is_line_break c" 
          using rest [of u] rest [of t] \<open>s = c # t\<close> Cons by (simp_all del: lines_loop.simps)
        moreover have "lines_loop False line s = line # (if c = 13 \<and> d = 10 then lines_loop False [] u else lines_loop False [] t)"
          unfolding \<open>s = c # t\<close> Cons by (subst lines_loop.simps(2)) (use True in \<open>simp del: lines_loop.simps\<close>)
        ultimately show ?thesis using 1(2) by simp
      qed
    next
      case False
      then have "\<forall>c \<in> set (line @ [c]). \<not> is_line_break c" using 1(2) by simp
      moreover have "length t < length s" using Cons by simp
      moreover have "lines_loop False line s = lines_loop False (line @ [c]) t"
        unfolding Cons by (subst lines_loop.simps(2)) (use False in \<open>simp del: lines_loop.simps\<close>)
      ultimately show ?thesis using IH by presburger
    qed
  qed (use 1(2) in simp)
qed

lemma split_lines_correct:
  "concat (split_lines s True) = s \<and> (\<forall>l \<in> set (split_lines s False). \<forall>c \<in> set l. \<not> is_line_break c)"
  using lines_loop_free [of "[]" s] by (simp add: split_lines_def lines_loop_concat)

lemma pad_length:
  "length (pad_center w f s) = max w (length s) \<and> length (pad_left w f s) = max w (length s) \<and>
   length (pad_right w f s) = max w (length s) \<and> length (zero_fill z signs w s) = max w (length s)"
  by (auto simp: pad_center_def pad_left_def pad_right_def zero_fill_def Let_def split: list.split)

end
