(* ===== verification/Codecs.thy ===== *)
theory Codecs
  imports Str_Methods
begin

text \<open>
  Decoding of bytes (\<open>decode\<close> in \<open>eval/functions/methods/bytes.rs\<close>): UTF-8 with its error handlers, ASCII, Latin-1, UTF-16,
  UTF-32 and \<open>unicode-escape\<close>.  The validation of UTF-8 and UTF-16 is that of the standard library.  An interface for
  codecs that work character by character is instantiated by the encoders of \<open>str.encode\<close>, so that what encodes decodes.
\<close>

section \<open>Decoding\<close>

subsection \<open>UTF-8\<close>

text \<open>
  \<open>std::str::from_utf8\<close>: the sequence at the head of the bytes decodes, is malformed after so many bytes (\<open>error_len\<close>), or
  is cut off by the end (\<open>error_len\<close> is \<open>None\<close>).
\<close>

datatype utf8_item = Decoded nat nat | Malformed nat | Truncated

definition continuation :: "nat \<Rightarrow> bool" where
  "continuation c \<longleftrightarrow> 0x80 \<le> c \<and> c \<le> 0xBF"

definition second_ok :: "nat \<Rightarrow> nat \<Rightarrow> bool" where
  "second_ok lead c \<longleftrightarrow> continuation c \<and> (lead = 0xE0 \<longrightarrow> 0xA0 \<le> c) \<and> (lead = 0xED \<longrightarrow> c \<le> 0x9F) \<and>
     (lead = 0xF0 \<longrightarrow> 0x90 \<le> c) \<and> (lead = 0xF4 \<longrightarrow> c \<le> 0x8F)"

definition utf8_width :: "nat \<Rightarrow> nat" where
  "utf8_width lead =
     (if lead < 0x80 then 1 else if 0xC2 \<le> lead \<and> lead \<le> 0xDF then 2 else if 0xE0 \<le> lead \<and> lead \<le> 0xEF then 3
      else if 0xF0 \<le> lead \<and> lead \<le> 0xF4 then 4 else 0)"

definition utf8_step :: "nat \<Rightarrow> nat list \<Rightarrow> utf8_item" where
  "utf8_step lead rest =
     (let w = utf8_width lead in
      if w = 0 then Malformed 1
      else if w = 1 then Decoded lead 1
      else case rest of [] \<Rightarrow> Truncated | b1 # rest1 \<Rightarrow>
        if \<not> second_ok lead b1 then Malformed 1
        else if w = 2 then Decoded ((lead - 0xC0) * 64 + (b1 - 0x80)) 2
        else case rest1 of [] \<Rightarrow> Truncated | b2 # rest2 \<Rightarrow>
          if \<not> continuation b2 then Malformed 2
          else if w = 3 then Decoded ((lead - 0xE0) * 4096 + (b1 - 0x80) * 64 + (b2 - 0x80)) 3
          else case rest2 of [] \<Rightarrow> Truncated | b3 # rest3 \<Rightarrow>
            if \<not> continuation b3 then Malformed 3
            else Decoded ((lead - 0xF0) * 262144 + (b1 - 0x80) * 4096 + (b2 - 0x80) * 64 + (b3 - 0x80)) 4)"

lemma utf8_step_bounds:
  "(case utf8_step lead rest of Decoded c n \<Rightarrow> 0 < n \<and> n \<le> Suc (length rest) | Malformed n \<Rightarrow> 0 < n \<and> n \<le> Suc (length rest) | Truncated \<Rightarrow> True)"
  by (auto simp: utf8_step_def Let_def split: list.split)

text \<open>The decoded prefix and, when there is one, the error: \<open>valid_up_to\<close> and \<open>error_len\<close>.\<close>

function parse_utf8 :: "nat \<Rightarrow> nat list \<Rightarrow> pystr \<times> (nat \<times> nat option) option" where
  "parse_utf8 pos [] = ([], None)"
| "parse_utf8 pos (lead # rest) = (case utf8_step lead rest of
     Decoded c n \<Rightarrow> (let r = parse_utf8 (pos + n) (drop n (lead # rest)) in (c # fst r, snd r))
   | Malformed n \<Rightarrow> ([], Some (pos, Some n))
   | Truncated \<Rightarrow> ([], Some (pos, None)))"
  by pat_completeness auto
termination
proof (relation "measure (\<lambda>(pos, b). length b)")
  fix pos lead rest c n
  assume "utf8_step lead rest = Decoded c n"
  then have "0 < n" using utf8_step_bounds [where lead = lead and rest = rest] by simp
  then show "((pos + n, drop n (lead # rest)), pos, lead # rest) \<in> measure (\<lambda>(pos, b). length b)" by simp
qed simp

lemma parse_utf8_error:
  "snd (parse_utf8 pos b) = Some (v, Some n) \<Longrightarrow> 0 < n \<and> pos \<le> v \<and> v + n \<le> pos + length b"
proof (induction pos b rule: parse_utf8.induct)
  case (2 pos lead rest)
  show ?case
  proof (cases "utf8_step lead rest")
    case (Decoded c k)
    then have "0 < k" "k \<le> Suc (length rest)" using utf8_step_bounds [where lead = lead and rest = rest] by simp_all
    then show ?thesis using 2 Decoded by (auto simp: Let_def)
  qed (use 2(2) utf8_step_bounds [where lead = lead and rest = rest] in auto)
qed simp

lemma parse_utf8_shrinks: "parse_utf8 0 b = (s, Some (v, Some n)) \<Longrightarrow> length b - (v + n) < length b"
  using parse_utf8_error [of 0 b v n] by auto

text \<open>\<open>String::from_utf8_lossy\<close>: U+FFFD for every malformed subpart.\<close>

function from_utf8_lossy :: "nat list \<Rightarrow> pystr" where
  "from_utf8_lossy b = (case parse_utf8 0 b of
     (s, None) \<Rightarrow> s
   | (s, Some (v, None)) \<Rightarrow> s @ [0xFFFD]
   | (s, Some (v, Some n)) \<Rightarrow> s @ 0xFFFD # from_utf8_lossy (drop (v + n) b))"
  by pat_completeness auto
termination by (relation "measure length") (auto dest: parse_utf8_shrinks parse_utf8_shrinks [OF sym])

declare from_utf8_lossy.simps [simp del]

text \<open>The loop of the handler \<open>ignore\<close>.\<close>

function decode_ignoring :: "nat list \<Rightarrow> pystr" where
  "decode_ignoring rest = (case parse_utf8 0 rest of
     (s, None) \<Rightarrow> s
   | (s, Some (v, None)) \<Rightarrow> s
   | (s, Some (v, Some n)) \<Rightarrow> s @ decode_ignoring (drop (v + n) rest))"
  by pat_completeness auto
termination by (relation "measure length") (auto dest: parse_utf8_shrinks parse_utf8_shrinks [OF sym])

declare decode_ignoring.simps [simp del]

definition unknown_error_handler :: "pystr \<Rightarrow> eval_error" where
  "unknown_error_handler errors = Exception (exception_new ''LookupError'' (''unknown error handler name '' @ quoted (message_text errors)))"

definition decode_error :: "string \<Rightarrow> nat \<Rightarrow> nat \<Rightarrow> string \<Rightarrow> eval_error" where
  "decode_error codec byte pos reason = Exception (exception_new ''UnicodeDecodeError''
     (quoted codec @ '' codec can'' @ [CHR 39] @ ''t decode byte 0x'' @ message_text (hex_text 2 byte) @
      '' in position '' @ nat_digits pos @ '': '' @ reason))"

definition decode_utf8_with_errors :: "u8 list \<Rightarrow> pystr \<Rightarrow> pyval eval_result" where
  "decode_utf8_with_errors bytes errors =
     (let b = map unat bytes in
      if errors = str_of ''replace'' then Inr (VString (from_utf8_lossy b))
      else if errors = str_of ''ignore'' then Inr (VString (decode_ignoring b))
      else case parse_utf8 0 b of
        (s, None) \<Rightarrow> Inr (VString s)
      | (s, Some (pos, error_len)) \<Rightarrow>
          if errors = str_of ''strict'' then
            (let byte = (if pos < length b then b ! pos else 0) in
             Inl (decode_error ''utf-8'' byte pos
               (if error_len = None then ''unexpected end of data''
                else if 0xC2 \<le> byte \<and> byte \<le> 0xF4 then ''invalid continuation byte'' else ''invalid start byte'')))
          else Inl (unknown_error_handler errors))"

definition decode_ascii_with_errors :: "u8 list \<Rightarrow> pystr \<Rightarrow> pyval eval_result" where
  "decode_ascii_with_errors bytes errors =
     (let b = map unat bytes in
      if list_all (\<lambda>c. c < 128) b then Inr (VString b)
      else if errors = str_of ''replace'' then Inr (VString (map (\<lambda>c. if c < 128 then c else 0xFFFD) b))
      else if errors = str_of ''ignore'' then Inr (VString (filter (\<lambda>c. c < 128) b))
      else if errors = str_of ''strict'' then
        (let pos = (case first_index (\<lambda>c. 128 \<le> c) b of Some i \<Rightarrow> i | None \<Rightarrow> 0) in
         Inl (decode_error ''ascii'' (if pos < length b then b ! pos else 0) pos ''ordinal not in range(128)''))
      else Inl (unknown_error_handler errors))"

subsection \<open>UTF-16, UTF-32 and escapes\<close>

fun from_utf16 :: "nat list \<Rightarrow> pystr option" where
  "from_utf16 [] = Some []"
| "from_utf16 (u # us) =
     (if \<not> (0xD800 \<le> u \<and> u < 0xE000) then map_option (\<lambda>s. u # s) (from_utf16 us)
      else if 0xDC00 \<le> u then None
      else case us of
        v # vs \<Rightarrow> if 0xDC00 \<le> v \<and> v < 0xE000
          then map_option (\<lambda>s. (0x10000 + (u - 0xD800) * 1024 + (v - 0xDC00)) # s) (from_utf16 vs) else None
      | [] \<Rightarrow> None)"

text \<open>\<open>chunks_exact\<close> drops a short last chunk.\<close>

function chunks_exact :: "nat \<Rightarrow> 'a list \<Rightarrow> 'a list list" where
  "chunks_exact n xs = (if n = 0 \<or> length xs < n then [] else take n xs # chunks_exact n (drop n xs))"
  by pat_completeness auto
termination by (relation "measure (\<lambda>(n, xs). length xs)") auto

declare chunks_exact.simps [simp del]

definition unit_value :: "bool \<Rightarrow> u8 list \<Rightarrow> nat" where
  "unit_value little c = foldr (\<lambda>b n. unat b + 256 * n) (if little then c else rev c) 0"

definition byte_order :: "pystr \<Rightarrow> u8 list \<Rightarrow> u8 list \<Rightarrow> u8 list \<Rightarrow> bool \<times> u8 list" where
  "byte_order lname le_bom be_bom b =
     (if find_text (str_of ''be'') lname \<noteq> None then (False, b)
      else if find_text (str_of ''le'') lname \<noteq> None then (True, b)
      else if prefix le_bom b then (True, drop (length le_bom) b)
      else if prefix be_bom b then (False, drop (length be_bom) b)
      else (True, b))"

definition decode_utf16 :: "pystr \<Rightarrow> u8 list \<Rightarrow> pyval eval_result" where
  "decode_utf16 lname b =
     (let (little, body) = byte_order lname [0xFF, 0xFE] [0xFE, 0xFF] b in
      case from_utf16 (map (unit_value little) (chunks_exact 2 body)) of
        Some s \<Rightarrow> Inr (VString s)
      | None \<Rightarrow> Inl (Interpreter (ValueError ''invalid utf-16 data'')))"

definition decode_utf32 :: "pystr \<Rightarrow> u8 list \<Rightarrow> pyval eval_result" where
  "decode_utf32 lname b =
     (let (little, body) = byte_order lname [0xFF, 0xFE, 0, 0] [0, 0, 0xFE, 0xFF] b;
          cps = map (unit_value little) (chunks_exact 4 body) in
      if list_all (\<lambda>c. is_scalar (int c)) cps then Inr (VString cps) else Inl (Interpreter (ValueError ''invalid utf-32 data'')))"

text \<open>\<open>u32::from_str_radix(_, 16)\<close> on at most eight digits, which cannot overflow; one leading \<open>+\<close> is accepted.\<close>

definition hex_value :: "nat \<Rightarrow> nat option" where
  "hex_value c =
     (if 48 \<le> c \<and> c \<le> 57 then Some (c - 48) else if 97 \<le> c \<and> c \<le> 102 then Some (c - 87)
      else if 65 \<le> c \<and> c \<le> 70 then Some (c - 55) else None)"

definition parse_hex :: "nat list \<Rightarrow> nat option" where
  "parse_hex text =
     (let ds = (case text of c # cs \<Rightarrow> if c = 43 then cs else text | [] \<Rightarrow> []) in
      if ds = [] \<or> list_ex (\<lambda>c. hex_value c = None) ds then None
      else Some (digits_value 16 (map (\<lambda>c. the (hex_value c)) ds)))"

definition simple_escape :: "nat \<Rightarrow> nat option" where
  "simple_escape c = map_of [(110, 10), (116, 9), (114, 13), (92, 92), (39, 39), (34, 34), (97, 7), (98, 8), (102, 12),
     (118, 11), (48, 0)] c"

definition escape_width :: "nat \<Rightarrow> nat option" where
  "escape_width c = map_of [(120, 2), (117, 4), (85, 8)] c"

function unescape_loop :: "nat list \<Rightarrow> pystr" where
  "unescape_loop [] = []"
| "unescape_loop [b] = [b]"
| "unescape_loop (b # c # rest) =
     (if b \<noteq> 92 then b # unescape_loop (c # rest)
      else case simple_escape c of
        Some ch \<Rightarrow> ch # unescape_loop rest
      | None \<Rightarrow> (case escape_width c of
          Some k \<Rightarrow> (case parse_hex (take k rest) of
              Some v \<Rightarrow> (if is_scalar (int v) then [v] else []) @ unescape_loop (drop k rest)
            | None \<Rightarrow> unescape_loop rest)
        | None \<Rightarrow> 92 # c # unescape_loop rest))"
  by pat_completeness auto
termination by (relation "measure length") auto

definition unicode_escape_decode :: "u8 list \<Rightarrow> pystr" where
  "unicode_escape_decode b = unescape_loop (map unat b)"

definition decode_text :: "u8 list \<Rightarrow> pystr \<Rightarrow> pystr \<Rightarrow> pyval eval_result" where
  "decode_text b name errors =
     (if named name [''utf-8'', ''utf_8'', ''u8''] then decode_utf8_with_errors b errors
      else if named name [''ascii'', ''us-ascii''] then decode_ascii_with_errors b errors
      else if named name [''latin-1'', ''latin1'', ''iso-8859-1'', ''iso8859-1''] then Inr (VString (map unat b))
      else if named name [''utf-16'', ''utf16'', ''utf-16-le'', ''utf-16le'', ''utf_16_le'', ''utf-16-be'', ''utf-16be'', ''utf_16_be'']
        then decode_utf16 (map lower_ascii name) b
      else if named name [''utf-32'', ''utf32'', ''utf-32-le'', ''utf-32le'', ''utf_32_le'', ''utf-32-be'', ''utf-32be'', ''utf_32_be'']
        then decode_utf32 (map lower_ascii name) b
      else if named name [''unicode-escape'', ''unicode_escape''] then Inr (VString (unicode_escape_decode b))
      else Inl (Exception (exception_new ''LookupError'' (''unknown encoding: '' @ message_text (map lower_ascii name)))))"

definition decode_arg :: "string \<Rightarrow> pyval \<Rightarrow> pystr eval_result" where
  "decode_arg which v = (case v of VString s \<Rightarrow> Inr s | _ \<Rightarrow> Inl (type_error (''decode() argument '' @ quoted which @ '' must be str'')))"

definition bytes_decode :: "u8 list \<Rightarrow> pyval list \<Rightarrow> kwargs \<Rightarrow> pyval eval_result" where
  "bytes_decode b vals kw =
     (case filter (\<lambda>k. k \<noteq> ''encoding'' \<and> k \<noteq> ''errors'') (map fst kw) of
        k # _ \<Rightarrow> Inl (type_error (quoted k @ '' is an invalid keyword argument for decode()''))
      | [] \<Rightarrow>
          (let pick = (\<lambda>i name. if i < length vals then Some (vals ! i) else map_of kw name) in
           result_bind (case pick 0 ''encoding'' of Some v \<Rightarrow> decode_arg ''encoding'' v | None \<Rightarrow> Inr (str_of ''utf-8'')) (\<lambda>name.
           result_bind (case pick 1 ''errors'' of Some v \<Rightarrow> decode_arg ''errors'' v | None \<Rightarrow> Inr (str_of ''strict'')) (\<lambda>errors.
             decode_text b name errors))))"

subsection \<open>Round trips\<close>

text \<open>A codec that works character by character: decoding the code of a character and more gives the character and what the
  rest decodes to.\<close>

locale char_codec =
  fixes encode_char :: "nat \<Rightarrow> 'u list"
    and decode_units :: "'u list \<Rightarrow> pystr option"
    and encodable :: "nat \<Rightarrow> bool"
  assumes decode_nothing: "decode_units [] = Some []"
    and decode_one: "encodable c \<Longrightarrow> decode_units (encode_char c @ rest) = map_option (\<lambda>s. c # s) (decode_units rest)"
begin

lemma decodes_units: "\<forall>c \<in> set s. encodable c \<Longrightarrow> decode_units (concat (map encode_char s)) = Some s"
  by (induction s) (simp_all add: decode_nothing decode_one)

end

definition scalar :: "nat \<Rightarrow> bool" where
  "scalar c \<longleftrightarrow> is_scalar (int c)"

lemma scalar_iff: "scalar c \<longleftrightarrow> c < 0x110000 \<and> \<not> (0xD800 \<le> c \<and> c < 0xE000)"
  by (auto simp: scalar_def is_scalar_def)

definition utf8_decode :: "nat list \<Rightarrow> pystr option" where
  "utf8_decode b = (if snd (parse_utf8 0 b) = None then Some (fst (parse_utf8 0 b)) else None)"

lemma parse_utf8_pos:
  "fst (parse_utf8 p b) = fst (parse_utf8 q b) \<and> (snd (parse_utf8 p b) = None \<longleftrightarrow> snd (parse_utf8 q b) = None)"
proof (induction p b arbitrary: q rule: parse_utf8.induct)
  case (2 pos lead rest)
  show ?case
  proof (cases "utf8_step lead rest")
    case (Decoded c n)
    then show ?thesis using 2 [OF Decoded, of "q + n"] by (simp add: Let_def)
  qed simp_all
qed simp

text \<open>A code point in digits to the base 64.\<close>

lemma base64_digits:
  fixes c :: nat
  shows "c = 64 * (c div 64) + c mod 64" "c div 64 = 64 * (c div 4096) + c div 64 mod 64"
    "c div 4096 = 64 * (c div 262144) + c div 4096 mod 64" "c mod 64 < 64" "c div 64 mod 64 < 64" "c div 4096 mod 64 < 64"
  using mult_div_mod_eq [of 64 c] mult_div_mod_eq [of 64 "c div 64"] mult_div_mod_eq [of 64 "c div 4096"]
  by (simp_all add: div_mult2_eq [symmetric])

lemma utf8_step_two:
  assumes "0x80 \<le> c" "c < 0x800"
  shows "utf8_step (0xC0 + c div 64) ((0x80 + c mod 64) # rest) = Decoded c 2"
proof -
  have "2 \<le> c div 64" "c div 64 \<le> 31" "c mod 64 \<le> 63" using assms base64_digits(1,4) [of c] by linarith+
  then show ?thesis by (simp add: utf8_step_def utf8_width_def second_ok_def continuation_def Let_def)
qed

lemma utf8_step_three:
  assumes "0x800 \<le> c" "c < 0x10000" "\<not> (0xD800 \<le> c \<and> c < 0xE000)"
  shows "utf8_step (0xE0 + c div 4096) ((0x80 + c div 64 mod 64) # (0x80 + c mod 64) # rest) = Decoded c 3"
proof -
  define h m r where "h = c div 4096" "m = c div 64 mod 64" "r = c mod 64"
  then have e: "c = 4096 * h + 64 * m + r" "m < 64" "r < 64" using base64_digits [of c] by linarith+
  have "h \<le> 15" "h = 0 \<Longrightarrow> 32 \<le> m" "h = 13 \<Longrightarrow> m \<le> 31" using assms e by linarith+
  then have "utf8_step (0xE0 + h) ((0x80 + m) # (0x80 + r) # rest) = Decoded (4096 * h + 64 * m + r) 3"
    using e(2,3) by (auto simp: utf8_step_def utf8_width_def second_ok_def continuation_def Let_def)
  then show ?thesis using e(1) unfolding h_m_r_def by metis
qed

lemma utf8_step_four:
  assumes "0x10000 \<le> c" "c < 0x110000"
  shows "utf8_step (0xF0 + c div 262144) ((0x80 + c div 4096 mod 64) # (0x80 + c div 64 mod 64) # (0x80 + c mod 64) # rest) = Decoded c 4"
proof -
  define g h m r where "g = c div 262144" "h = c div 4096 mod 64" "m = c div 64 mod 64" "r = c mod 64"
  then have e: "c = 262144 * g + 4096 * h + 64 * m + r" "h < 64" "m < 64" "r < 64" using base64_digits [of c] by linarith+
  have "g \<le> 4" "g = 0 \<Longrightarrow> 16 \<le> h" "g = 4 \<Longrightarrow> h \<le> 15" using assms e by linarith+
  then have "utf8_step (0xF0 + g) ((0x80 + h) # (0x80 + m) # (0x80 + r) # rest) = Decoded (262144 * g + 4096 * h + 64 * m + r) 4"
    using e(2-4) by (auto simp: utf8_step_def utf8_width_def second_ok_def continuation_def Let_def)
  then show ?thesis using e(1) unfolding g_h_m_r_def by metis
qed

lemma parse_utf8_char:
  assumes "scalar c"
  shows "parse_utf8 pos (utf8_char c @ rest) =
    (let r = parse_utf8 (pos + length (utf8_char c)) rest in (c # fst r, snd r))"
proof -
  consider "c < 0x80" | "0x80 \<le> c" "c < 0x800" | "0x800 \<le> c" "c < 0x10000" | "0x10000 \<le> c" by linarith
  then show ?thesis
  proof cases
    case 1
    then have "utf8_step c rest = Decoded c 1" by (simp add: utf8_step_def utf8_width_def)
    then show ?thesis using 1 by (simp add: utf8_char_def)
  next
    case 2
    then show ?thesis using utf8_step_two [OF 2, of rest] by (simp add: utf8_char_def numeral_2_eq_2)
  next
    case 3
    then show ?thesis using utf8_step_three [OF 3, of rest] assms by (simp add: utf8_char_def scalar_iff numeral_3_eq_3)
  next
    case 4
    have four: "Suc (Suc (Suc (Suc pos))) = pos + 4" by simp
    show ?thesis using 4 utf8_step_four [OF 4, of rest] assms by (simp add: utf8_char_def scalar_iff four)
  qed
qed

interpretation utf8: char_codec utf8_char utf8_decode scalar
proof
  show "utf8_decode [] = Some []" by (simp add: utf8_decode_def)
next
  fix c and rest :: "nat list"
  assume "scalar c"
  then show "utf8_decode (utf8_char c @ rest) = map_option (\<lambda>s. c # s) (utf8_decode rest)"
    using parse_utf8_pos [of "length (utf8_char c)" rest 0] by (auto simp: utf8_decode_def parse_utf8_char Let_def)
qed

lemma utf16_char:
  assumes "scalar c"
  shows "from_utf16 (utf16_units c @ rest) = map_option (\<lambda>s. c # s) (from_utf16 rest)"
proof (cases "c < 0x10000")
  case True
  then show ?thesis using assms by (auto simp: utf16_units_def scalar_iff)
next
  case False
  let ?d = "c - 0x10000"
  have d: "?d div 1024 < 1024" "?d mod 1024 < 1024" "0x10000 + ?d div 1024 * 1024 + ?d mod 1024 = c"
    using assms False unfolding scalar_iff by auto
  then show ?thesis using False by (simp add: utf16_units_def)
qed

interpretation utf16: char_codec utf16_units from_utf16 scalar
  by unfold_locales (simp_all add: utf16_char)

text \<open>Code units as bytes.\<close>

lemma chunks_exact_cons: "length x = n \<Longrightarrow> 0 < n \<Longrightarrow> chunks_exact n (x @ rest) = x # chunks_exact n rest"
  by (subst chunks_exact.simps) simp

lemma unit_bytes_length [simp]: "length (unit_bytes width little u) = width"
  by (simp add: unit_bytes_def Let_def)

lemma unit_value_le: "foldr (\<lambda>b n. unat (b :: u8) + 256 * n) (map (\<lambda>i. of_nat (u div 256 ^ i mod 256)) [0..<width]) 0 = u mod 256 ^ width"
proof (induction width arbitrary: u)
  case (Suc w)
  have "map (\<lambda>i. of_nat (u div 256 ^ i mod 256) :: u8) [0..<Suc w] =
      of_nat (u mod 256) # map (\<lambda>i. of_nat (u div 256 div 256 ^ i mod 256)) [0..<w]"
    by (simp add: upt_conv_Cons map_Suc_upt [symmetric] div_mult2_eq del: upt_Suc)
  moreover have "unat (of_nat (u mod 256) :: u8) = u mod 256" by (simp add: unat_of_nat)
  ultimately show ?case using Suc [of "u div 256"] by (simp add: mod_mult2_eq)
qed simp

lemma unit_value_bytes: "u < 256 ^ width \<Longrightarrow> unit_value little (unit_bytes width little u) = u"
  using unit_value_le [of u width] by (simp add: unit_value_def unit_bytes_def Let_def)

lemma chunks_units:
  assumes "\<forall>u \<in> set us. u < 256 ^ width" "0 < width"
  shows "map (unit_value little) (chunks_exact width (concat (map (unit_bytes width little) us))) = us"
  using assms
proof (induction us)
  case Nil
  then show ?case by (subst chunks_exact.simps) simp
next
  case (Cons u us)
  then show ?case by (simp add: chunks_exact_cons unit_value_bytes)
qed

lemma utf16_units_bound: "scalar c \<Longrightarrow> u \<in> set (utf16_units c) \<Longrightarrow> u < 65536"
proof -
  assume a: "scalar c" "u \<in> set (utf16_units c)"
  have "(c - 0x10000) div 1024 < 1024" using a(1) unfolding scalar_iff by auto
  then show ?thesis using a by (auto simp: utf16_units_def split: if_splits)
qed

lemma utf16_round:
  assumes "\<forall>c \<in> set s. scalar c"
  shows "from_utf16 (map (unit_value little) (chunks_exact 2 (utf16_text little s))) = Some s"
proof -
  have "\<forall>u \<in> set (concat (map utf16_units s)). u < 256 ^ 2" using assms utf16_units_bound by fastforce
  then show ?thesis using chunks_units [of _ 2 little] utf16.decodes_units [OF assms] unfolding utf16_text_def by simp
qed

lemma utf32_round:
  assumes "\<forall>c \<in> set s. scalar c"
  shows "map (unit_value little) (chunks_exact 4 (utf32_text little s)) = s"
proof -
  have "\<forall>u \<in> set s. u < 256 ^ 4" using assms by (auto simp: scalar_iff)
  then show ?thesis using chunks_units [of s 4 little] unfolding utf32_text_def by simp
qed

lemma radix_length: "2 \<le> r \<Longrightarrow> u < r ^ w \<Longrightarrow> 0 < w \<Longrightarrow> length (radix_digits r u) \<le> w"
proof (induction w arbitrary: u)
  case (Suc w)
  show ?case
  proof (cases "u < r")
    case True
    then show ?thesis by (subst radix_digits.simps) simp
  next
    case False
    have "u div r < r ^ w" using Suc.prems by (simp add: div_less_iff_less_mult mult.commute)
    moreover have "0 < w" using False Suc.prems by (cases w) auto
    ultimately have "length (radix_digits r (u div r)) \<le> w" using Suc by blast
    then show ?thesis using False Suc.prems by (subst radix_digits.simps) simp
  qed
qed simp

lemma hex_value_digit: "d < 16 \<Longrightarrow> hex_value (digit_code d) = Some d"
  by (auto simp: hex_value_def digit_code_def)

lemma digits_value_zeros: "digits_value r (replicate k 0 @ ds) = digits_value r ds"
proof -
  have "foldl (\<lambda>n d. n * r + d) 0 (replicate k 0) = 0" by (induction k) simp_all
  then show ?thesis by (simp add: digits_value_def)
qed

lemma parse_hex_digits:
  assumes "ds \<noteq> []" "\<forall>d \<in> set ds. d < 16"
  shows "parse_hex (map digit_code ds) = Some (digits_value 16 ds)"
proof -
  have "map (\<lambda>c. the (hex_value c)) (map digit_code ds) = ds"
    using assms(2) by (induction ds) (simp_all add: hex_value_digit)
  moreover have "\<not> list_ex (\<lambda>c. hex_value c = None) (map digit_code ds)"
    using assms(2) by (auto simp: list_ex_iff hex_value_digit)
  moreover have "(case map digit_code ds of c # cs \<Rightarrow> if c = 43 then cs else map digit_code ds | [] \<Rightarrow> []) = map digit_code ds"
    using assms by (cases ds) (auto simp: digit_code_def)
  ultimately show ?thesis using assms(1) by (simp add: parse_hex_def Let_def)
qed

lemma hex_text_round:
  assumes "u < 16 ^ w" "0 < w"
  shows "length (hex_text w u) = w \<and> parse_hex (hex_text w u) = Some u"
proof -
  let ?ds = "radix_digits 16 u"
  have len: "length ?ds \<le> w" using radix_length [of 16 u w] assms by simp
  have "map digit_code (replicate (w - length ?ds) 0 @ ?ds) = hex_text w u"
    by (simp add: hex_text_def Let_def digit_code_def [of 0])
  moreover have "parse_hex (map digit_code (replicate (w - length ?ds) 0 @ ?ds)) = Some u"
  proof -
    have "\<forall>d \<in> set (replicate (w - length ?ds) 0 @ ?ds). d < 16" using radix_digits_props [of 16 u] by auto
    then show ?thesis
      using parse_hex_digits [of "replicate (w - length ?ds) 0 @ ?ds"] radix_digits_props [of 16 u] digits_value_zeros [of 16 _ ?ds] by simp
  qed
  moreover have "length (hex_text w u) = w" using len by (simp add: hex_text_def Let_def)
  ultimately show ?thesis by simp
qed

lemma unescape_hex:
  assumes "escape_width x = Some w" "simple_escape x = None" "c < 16 ^ w" "0 < w" "scalar c"
  shows "unescape_loop ([92, x] @ hex_text w c @ rest) = c # unescape_loop rest"
  using assms hex_text_round [OF assms(3,4)] by (simp add: scalar_def)

lemma unescape_char:
  assumes "scalar c"
  shows "unescape_loop (escape_char c @ rest) = c # unescape_loop rest"
proof -
  have w: "escape_width 120 = Some 2" "escape_width 117 = Some 4" "escape_width 85 = Some 8"
    and n: "simple_escape 120 = None" "simple_escape 117 = None" "simple_escape 85 = None"
    by (simp_all add: escape_width_def simple_escape_def)
  have hex: "unescape_loop (hex_escape c @ rest) = c # unescape_loop rest"
    using assms unescape_hex [OF w(1) n(1), of c rest] unescape_hex [OF w(2) n(2), of c rest] unescape_hex [OF w(3) n(3), of c rest]
    by (auto simp: hex_escape_def scalar_iff)
  have plain: "unescape_loop (c # rest) = c # unescape_loop rest" if "c \<noteq> 92" using that by (cases rest) simp_all
  have short: "unescape_loop (92 # x # rest) = y # unescape_loop rest" if "simple_escape x = Some y" for x y using that by simp
  show ?thesis
    using hex plain short by (auto simp: escape_char_def simple_escape_def)
qed

interpretation escapes: char_codec escape_char "\<lambda>b. Some (unescape_loop b)" scalar
  by unfold_locales (simp_all add: unescape_char)

lemma bytes_back: "\<forall>n \<in> set ns. n < 256 \<Longrightarrow> map unat (map of_nat ns :: u8 list) = ns"
  by (induction ns) (simp_all add: unat_of_nat)

lemma hex_text_ascii: "n \<in> set (hex_text w u) \<Longrightarrow> n < 256"
proof -
  assume "n \<in> set (hex_text w u)"
  then have "n = 48 \<or> (\<exists>d \<in> set (radix_digits 16 u). n = digit_code d)" by (auto simp: hex_text_def Let_def split: if_splits)
  moreover have "digit_code d < 256" if "d \<in> set (radix_digits 16 u)" for d
    using radix_digits_props [of 16 u] that by (auto simp: digit_code_def)
  ultimately show ?thesis by auto
qed

lemma escape_char_bytes: "n \<in> set (escape_char c) \<Longrightarrow> n < 256"
  using hex_text_ascii by (fastforce simp: escape_char_def hex_escape_def split: if_splits)

lemma utf8_char_bytes: "scalar c \<Longrightarrow> n \<in> set (utf8_char c) \<Longrightarrow> n < 256"
proof -
  assume a: "scalar c" "n \<in> set (utf8_char c)"
  have "c div 64 < 32" if "c < 0x800" using that base64_digits(1) [of c] by linarith
  moreover have "c div 4096 < 16" if "c < 0x10000" using that base64_digits [of c] by linarith
  moreover have "c div 262144 < 16" using a(1) base64_digits [of c] unfolding scalar_iff by linarith
  moreover have "c mod 64 < 64" "c div 64 mod 64 < 64" "c div 4096 mod 64 < 64" by simp_all
  ultimately show ?thesis using a(2) by (auto simp: utf8_char_def split: if_splits)
qed

lemma decode_utf8_round:
  assumes "\<forall>c \<in> set s. scalar c" "errors \<noteq> str_of ''replace''" "errors \<noteq> str_of ''ignore''"
  shows "decode_utf8_with_errors (utf8_text s) errors = Inr (VString s)"
proof -
  have "\<forall>n \<in> set (concat (map utf8_char s)). n < 256" using assms(1) utf8_char_bytes by auto
  then have b: "map unat (utf8_text s) = concat (map utf8_char s)" unfolding utf8_text_def by (rule bytes_back)
  have "utf8_decode (concat (map utf8_char s)) = Some s" using assms(1) by (rule utf8.decodes_units)
  then have "parse_utf8 0 (concat (map utf8_char s)) = (s, None)"
    by (cases "parse_utf8 0 (concat (map utf8_char s))") (auto simp: utf8_decode_def split: if_splits)
  then show ?thesis using assms(2,3) b by (simp add: decode_utf8_with_errors_def Let_def)
qed

lemma decode_escape_round: "\<forall>c \<in> set s. scalar c \<Longrightarrow> unicode_escape_decode (unicode_escape_encode s) = s"
proof -
  assume s: "\<forall>c \<in> set s. scalar c"
  have "\<forall>n \<in> set (concat (map escape_char s)). n < 256" using escape_char_bytes by auto
  then have "map unat (unicode_escape_encode s) = concat (map escape_char s)"
    unfolding unicode_escape_encode_def by (rule bytes_back)
  then show ?thesis using escapes.decodes_units [OF s] by (simp add: unicode_escape_decode_def)
qed

lemma encode_narrow_strict:
  "encode_narrow s limit codec (str_of ''strict'') = Inr b \<Longrightarrow> (\<forall>c \<in> set s. c \<le> limit) \<and> b = map of_nat s"
proof (induction s arbitrary: b)
  case (Cons c s)
  then show ?case
    by (cases "c \<le> limit"; cases "encode_narrow s limit codec (str_of ''strict'')") auto
qed simp

lemma encode_narrow_back:
  assumes "encode_narrow s limit codec (str_of ''strict'') = Inr b" "limit < 256"
  shows "map unat b = s \<and> (\<forall>c \<in> set s. c \<le> limit)"
proof -
  have s: "\<forall>c \<in> set s. c \<le> limit" "b = map of_nat s" using encode_narrow_strict [OF assms(1)] by auto
  then have "\<forall>c \<in> set s. c < 256" using assms(2) by auto
  then show ?thesis using s bytes_back [of s] by simp
qed

lemma byte_order_plain:
  "named name [''utf-16'', ''utf16''] \<or> named name [''utf-32'', ''utf32''] \<Longrightarrow>
     byte_order (map lower_ascii name) le be (le @ b) = (True, b)"
proof -
  assume "named name [''utf-16'', ''utf16''] \<or> named name [''utf-32'', ''utf32'']"
  then have "map lower_ascii name \<in> set (map str_of [''utf-16'', ''utf16'', ''utf-32'', ''utf32''])" by (auto simp: named_def)
  moreover have "\<forall>n \<in> set (map str_of [''utf-16'', ''utf16'', ''utf-32'', ''utf32'']).
      find_text (str_of ''be'') n = None \<and> find_text (str_of ''le'') n = None" by code_simp
  ultimately have "find_text (str_of ''be'') (map lower_ascii name) = None \<and> find_text (str_of ''le'') (map lower_ascii name) = None" by blast
  then show ?thesis by (simp add: byte_order_def)
qed

lemma byte_order_little:
  "named name [''utf-16-le'', ''utf-16le'', ''utf_16_le''] \<or> named name [''utf-32-le'', ''utf-32le'', ''utf_32_le''] \<Longrightarrow>
     byte_order (map lower_ascii name) le be b = (True, b)"
proof -
  let ?names = "[''utf-16-le'', ''utf-16le'', ''utf_16_le'', ''utf-32-le'', ''utf-32le'', ''utf_32_le'']"
  assume "named name [''utf-16-le'', ''utf-16le'', ''utf_16_le''] \<or> named name [''utf-32-le'', ''utf-32le'', ''utf_32_le'']"
  then have "map lower_ascii name \<in> set (map str_of ?names)" by (auto simp: named_def)
  moreover have "\<forall>n \<in> set (map str_of ?names). find_text (str_of ''be'') n = None \<and> find_text (str_of ''le'') n \<noteq> None" by code_simp
  ultimately have "find_text (str_of ''be'') (map lower_ascii name) = None \<and> find_text (str_of ''le'') (map lower_ascii name) \<noteq> None" by blast
  then show ?thesis by (simp add: byte_order_def)
qed

lemma byte_order_big:
  "named name [''utf-16-be'', ''utf-16be'', ''utf_16_be''] \<or> named name [''utf-32-be'', ''utf-32be'', ''utf_32_be''] \<Longrightarrow>
     byte_order (map lower_ascii name) le be b = (False, b)"
proof -
  let ?names = "[''utf-16-be'', ''utf-16be'', ''utf_16_be'', ''utf-32-be'', ''utf-32be'', ''utf_32_be'']"
  assume "named name [''utf-16-be'', ''utf-16be'', ''utf_16_be''] \<or> named name [''utf-32-be'', ''utf-32be'', ''utf_32_be'']"
  then have "map lower_ascii name \<in> set (map str_of ?names)" by (auto simp: named_def)
  moreover have "\<forall>n \<in> set (map str_of ?names). find_text (str_of ''be'') n \<noteq> None" by code_simp
  ultimately have "find_text (str_of ''be'') (map lower_ascii name) \<noteq> None" by blast
  then show ?thesis by (simp add: byte_order_def)
qed

lemma decode_utf16_round:
  assumes s: "\<forall>c \<in> set s. scalar c" and order: "byte_order lname [0xFF, 0xFE] [0xFE, 0xFF] b = (little, utf16_text little s)"
  shows "decode_utf16 lname b = Inr (VString s)"
  using utf16_round [OF s] order by (simp add: decode_utf16_def)

lemma decode_utf32_round:
  assumes s: "\<forall>c \<in> set s. scalar c"
    and order: "byte_order lname [0xFF, 0xFE, 0, 0] [0, 0, 0xFE, 0xFF] b = (little, utf32_text little s)"
  shows "decode_utf32 lname b = Inr (VString s)"
  unfolding decode_utf32_def order Let_def prod.case utf32_round [OF s] using s by (simp add: list_all_iff scalar_def)

lemma named_utf16:
  "named name [''utf-16'', ''utf16'', ''utf-16-le'', ''utf-16le'', ''utf_16_le'', ''utf-16-be'', ''utf-16be'', ''utf_16_be''] \<longleftrightarrow>
     named name [''utf-16'', ''utf16''] \<or> named name [''utf-16-le'', ''utf-16le'', ''utf_16_le''] \<or>
     named name [''utf-16-be'', ''utf-16be'', ''utf_16_be'']"
  "named name [''utf-32'', ''utf32'', ''utf-32-le'', ''utf-32le'', ''utf_32_le'', ''utf-32-be'', ''utf-32be'', ''utf_32_be''] \<longleftrightarrow>
     named name [''utf-32'', ''utf32''] \<or> named name [''utf-32-le'', ''utf-32le'', ''utf_32_le''] \<or>
     named name [''utf-32-be'', ''utf-32be'', ''utf_32_be'']"
  by (auto simp: named_def)

lemma decode_ascii_round:
  assumes "map unat b = s" "\<forall>c \<in> set s. c \<le> 0x7F"
  shows "decode_ascii_with_errors b errors = Inr (VString s)"
  using assms by (auto simp: decode_ascii_with_errors_def Let_def list_all_iff)

lemma strict_handler: "str_of ''strict'' \<noteq> str_of ''replace''" "str_of ''strict'' \<noteq> str_of ''ignore''"
  by code_simp+

lemma encoded_decodes:
  assumes enc: "encode_text s name (str_of ''strict'') = Inr b" and s: "\<forall>c \<in> set s. scalar c"
  shows "decode_text b name (str_of ''strict'') = Inr (VString s)"
proof -
  define strict where "strict = str_of ''strict''"
  define u8 asc lat esc where "u8 = named name [''utf-8'', ''utf_8'', ''u8'']" and "asc = named name [''ascii'', ''us-ascii'']"
    and "lat = named name [''latin-1'', ''latin1'', ''iso-8859-1'', ''iso8859-1'']"
    and "esc = named name [''unicode-escape'', ''unicode_escape'']"
  define p16 l16 b16 where "p16 = named name [''utf-16'', ''utf16'']" and "l16 = named name [''utf-16-le'', ''utf-16le'', ''utf_16_le'']"
    and "b16 = named name [''utf-16-be'', ''utf-16be'', ''utf_16_be'']"
  define p32 l32 b32 where "p32 = named name [''utf-32'', ''utf32'']" and "l32 = named name [''utf-32-le'', ''utf-32le'', ''utf_32_le'']"
    and "b32 = named name [''utf-32-be'', ''utf-32be'', ''utf_32_be'']"
  note names = u8_def asc_def lat_def esc_def p16_def l16_def b16_def p32_def l32_def b32_def strict_def
  note encode = enc [unfolded encode_text_def, folded names]
  note decode = decode_text_def [of b name strict, unfolded named_utf16, folded names]
  note u16 = decode_utf16_round [OF s] and u32 = decode_utf32_round [OF s]
  consider u8 | "\<not> u8" asc | "\<not> u8" "\<not> asc" lat | "\<not> u8" "\<not> asc" "\<not> lat" "p16 \<or> l16 \<or> b16"
    | "\<not> u8" "\<not> asc" "\<not> lat" "\<not> (p16 \<or> l16 \<or> b16)" "p32 \<or> l32 \<or> b32"
    | "\<not> u8" "\<not> asc" "\<not> lat" "\<not> (p16 \<or> l16 \<or> b16)" "\<not> (p32 \<or> l32 \<or> b32)" by blast
  then have "decode_text b name strict = Inr (VString s)"
  proof cases
    case 1
    then show ?thesis using encode decode_utf8_round [OF s strict_handler, folded strict_def] by (auto simp: decode)
  next
    case 2
    then have "encode_narrow s 0x7F ''ascii'' strict = Inr b" using encode by simp
    then have "map unat b = s \<and> (\<forall>c \<in> set s. c \<le> 0x7F)" unfolding strict_def by (rule encode_narrow_back) simp
    then show ?thesis using 2 decode_ascii_round [of b s strict] by (simp add: decode)
  next
    case 3
    then have "encode_narrow s 0xFF ''latin-1'' strict = Inr b" using encode by simp
    then have "map unat b = s" unfolding strict_def by (rule encode_narrow_back [THEN conjunct1]) simp
    then show ?thesis using 3 by (simp add: decode)
  next
    case 4
    have "\<exists>little. byte_order (map lower_ascii name) [0xFF, 0xFE] [0xFE, 0xFF] b = (little, utf16_text little s)"
      using 4 encode byte_order_plain [of name "[0xFF, 0xFE]" _ "utf16_text True s"] byte_order_little [of name] byte_order_big [of name]
      unfolding p16_def [symmetric] l16_def [symmetric] b16_def [symmetric] by (auto split: if_splits)
    then show ?thesis using 4 u16 by (auto simp: decode)
  next
    case 5
    have "\<exists>little. byte_order (map lower_ascii name) [0xFF, 0xFE, 0, 0] [0, 0, 0xFE, 0xFF] b = (little, utf32_text little s)"
      using 5 encode byte_order_plain [of name "[0xFF, 0xFE, 0, 0]" _ "utf32_text True s"] byte_order_little [of name] byte_order_big [of name]
      unfolding p32_def [symmetric] l32_def [symmetric] b32_def [symmetric] by (auto split: if_splits)
    then show ?thesis using 5 u32 by (auto simp: decode)
  next
    case 6
    then show ?thesis using encode decode_escape_round [OF s] by (auto simp: decode split: if_splits)
  qed
  then show ?thesis by (simp only: strict_def)
qed

end
