(* ===== verification/Bytes_Methods.thy ===== *)
theory Bytes_Methods
  imports Codecs
begin

text \<open>
  The methods of \<open>bytes\<close>, \<open>bytearray\<close> and \<open>memoryview\<close> (\<open>eval/functions/methods/bytes.rs\<close>), which the code writes as loops over
  positions; they agree with the reference functions of the strings.  New lists and byte arrays are put at the addresses from
  \<open>fresh\<close> on.
\<close>

section \<open>Methods of bytes\<close>

lemma window_step:
  "sep \<noteq> [] \<Longrightarrow> \<not> n < i + length sep \<Longrightarrow> n - (i + length sep) < n - i \<and> n - Suc i < n - i"
  by (cases sep) auto

lemma window_back: "sep \<noteq> [] \<Longrightarrow> \<not> i < length sep \<Longrightarrow> i - length sep < i \<and> i - Suc 0 < i"
  by (cases sep) auto

text \<open>The loops over positions; the callers refuse an empty separator.\<close>

function split_bytes_loop :: "'a list \<Rightarrow> 'a list \<Rightarrow> int \<Rightarrow> int \<Rightarrow> nat \<Rightarrow> nat \<Rightarrow> 'a list list" where
  "split_bytes_loop sep b maxsplit cnt start i =
     (if sep = [] \<or> length b < i + length sep then [drop start b]
      else if (maxsplit < 0 \<or> cnt < maxsplit) \<and> take (length sep) (drop i b) = sep
      then take (i - start) (drop start b) # split_bytes_loop sep b maxsplit (cnt + 1) (i + length sep) (i + length sep)
      else split_bytes_loop sep b maxsplit cnt start (i + 1))"
  by pat_completeness auto
termination by (relation "measure (\<lambda>(sep, b, m, c, s, i). length b - i)") (auto simp: window_step)

declare split_bytes_loop.simps [simp del]

function rsplit_bytes_loop :: "'a list \<Rightarrow> 'a list \<Rightarrow> int \<Rightarrow> int \<Rightarrow> nat \<Rightarrow> nat \<Rightarrow> 'a list list" where
  "rsplit_bytes_loop sep b maxsplit cnt stop i =
     (if sep = [] \<or> i < length sep then [take stop b]
      else let j = i - length sep in
        if (maxsplit < 0 \<or> cnt < maxsplit) \<and> take (length sep) (drop j b) = sep
        then rsplit_bytes_loop sep b maxsplit (cnt + 1) j j @ [take (stop - i) (drop i b)]
        else rsplit_bytes_loop sep b maxsplit cnt stop (i - 1))"
  by pat_completeness auto
termination by (relation "measure (\<lambda>(sep, b, m, c, s, i). i)") (auto simp: Let_def window_back)

declare rsplit_bytes_loop.simps [simp del]

function replace_bytes_loop :: "'a list \<Rightarrow> 'a list \<Rightarrow> 'a list \<Rightarrow> nat \<Rightarrow> 'a list" where
  "replace_bytes_loop needle new b i =
     (if needle = [] \<or> length b < i + length needle then drop i b
      else if take (length needle) (drop i b) = needle then new @ replace_bytes_loop needle new b (i + length needle)
      else b ! i # replace_bytes_loop needle new b (i + 1))"
  by pat_completeness auto
termination by (relation "measure (\<lambda>(needle, new, b, i). length b - i)") (auto simp: window_step)

declare replace_bytes_loop.simps [simp del]

function count_loop :: "'a list \<Rightarrow> 'a list \<Rightarrow> nat \<Rightarrow> nat" where
  "count_loop needle hay i =
     (if needle = [] \<or> length hay < i + length needle then 0
      else if take (length needle) (drop i hay) = needle then 1 + count_loop needle hay (i + length needle)
      else count_loop needle hay (i + 1))"
  by pat_completeness auto
termination by (relation "measure (\<lambda>(needle, hay, i). length hay - i)") (auto simp: window_step)

declare count_loop.simps [simp del]

definition count_occurrences :: "'a list \<Rightarrow> 'a list \<Rightarrow> nat" where
  "count_occurrences hay needle = (if needle = [] then length hay + 1 else count_loop needle hay 0)"

text \<open>\<open>windows(n)\<close>, whose \<open>position\<close> and \<open>rposition\<close> the searches use, and the lines.\<close>

definition windows :: "nat \<Rightarrow> 'a list \<Rightarrow> 'a list list" where
  "windows n xs = map (\<lambda>i. take n (drop i xs)) [0..<length xs + 1 - n]"

definition last_index :: "('a \<Rightarrow> bool) \<Rightarrow> 'a list \<Rightarrow> nat option" where
  "last_index P xs = map_option (\<lambda>i. length xs - 1 - i) (first_index P (rev xs))"

definition position_of :: "bool \<Rightarrow> 'a list \<Rightarrow> 'a list \<Rightarrow> nat option" where
  "position_of from_right sub xs =
     (let ws = windows (length sub) xs in if from_right then last_index (\<lambda>w. w = sub) ws else first_index (\<lambda>w. w = sub) ws)"

function byte_lines :: "bool \<Rightarrow> u8 list \<Rightarrow> nat \<Rightarrow> nat \<Rightarrow> u8 list list" where
  "byte_lines keepends b start i =
     (if i < length b then
        if b ! i = 10 \<or> b ! i = 13 then
          (let stop = (if b ! i = 13 \<and> i + 1 < length b \<and> b ! (i + 1) = 10 then i + 2 else i + 1) in
           take ((if keepends then stop else i) - start) (drop start b) # byte_lines keepends b stop stop)
        else byte_lines keepends b start (i + 1)
      else if start < length b then [drop start b] else [])"
  by pat_completeness auto
termination by (relation "measure (\<lambda>(k, b, s, i). length b - i)") (auto simp: Let_def)

declare byte_lines.simps [simp del]

definition byte_window :: "u8 list \<Rightarrow> i64 option \<Rightarrow> i64 option \<Rightarrow> nat \<times> nat" where
  "byte_window b start stop = resolve_window (length b) start stop"

definition bytes_needle :: "string \<Rightarrow> pyval \<Rightarrow> u8 list eval_result" where
  "bytes_needle meth arg = (case arg of
       VBytes v \<Rightarrow> Inr v
     | VInt i \<Rightarrow> if 0 \<le> sint i \<and> sint i < 256 then Inr [of_int (sint i)] else Inl (Interpreter (ValueError ''byte must be in range(0, 256)''))
     | VBool b \<Rightarrow> Inr [if b then 1 else 0]
     | _ \<Rightarrow> Inl (type_error (meth @ ''() argument should be integer or bytes-like object, not '' @ quoted (type_name arg))))"

definition bytes_search_args :: "u8 list \<Rightarrow> string \<Rightarrow> pyval list \<Rightarrow> (u8 list \<times> nat \<times> nat) eval_result" where
  "bytes_search_args b meth vals =
     (if vals = [] \<or> 3 < length vals then Inl (type_error (meth @ ''() takes at least 1 argument''))
      else result_bind (bytes_needle meth (vals ! 0)) (\<lambda>needle.
        result_bind (opt_index_arg vals 1) (\<lambda>start. result_bind (opt_index_arg vals 2) (\<lambda>stop.
          Inr (needle, byte_window b start stop)))))"

definition bytes_search :: "u8 list \<Rightarrow> string \<Rightarrow> pyval list \<Rightarrow> bool \<Rightarrow> bool \<Rightarrow> pyval eval_result" where
  "bytes_search b meth vals from_right raise_missing =
     result_bind (bytes_search_args b meth vals) (\<lambda>(needle, w).
       let found = (if needle = [] then Some (if from_right then snd w else fst w)
                    else map_option (\<lambda>p. fst w + p) (position_of from_right needle (slice_window w b))) in
       case found of
         Some pos \<Rightarrow> result_bind (to_len_i64 pos) (\<lambda>n. Inr (VInt n))
       | None \<Rightarrow> if raise_missing then Inl (Exception (exception_new ''ValueError'' ''subsection not found'')) else Inr (VInt (- 1)))"

primrec any_bytes_affix :: "string \<Rightarrow> (u8 list \<Rightarrow> bool) \<Rightarrow> pyval list \<Rightarrow> bool eval_result" where
  "any_bytes_affix meth test [] = Inr False"
| "any_bytes_affix meth test (v # vs) = (case v of
     VBytes p \<Rightarrow> if test p then Inr True else any_bytes_affix meth test vs
   | _ \<Rightarrow> Inl (type_error (''a bytes-like object is required for '' @ meth @ ''()'')))"

definition bytes_affix :: "u8 list \<Rightarrow> string \<Rightarrow> pyval list \<Rightarrow> bool \<Rightarrow> pyval eval_result" where
  "bytes_affix b meth vals is_start =
     (if vals = [] \<or> 3 < length vals then Inl (type_error (meth @ ''() takes at least 1 argument''))
      else
        result_bind (opt_index_arg vals 1) (\<lambda>start. result_bind (opt_index_arg vals 2) (\<lambda>stop.
          let window = slice_window (byte_window b start stop) b;
              test = (\<lambda>affix. if is_start then prefix affix window else suffix affix window) in
          result_bind (case vals ! 0 of
               VBytes p \<Rightarrow> Inr (test p)
             | VTuple items \<Rightarrow> any_bytes_affix meth test items
             | _ \<Rightarrow> Inl (type_error (meth @ ''() first arg must be bytes or a tuple of bytes''))) (\<lambda>m. Inr (VBool m)))))"

definition split_args :: "string \<Rightarrow> pyval list \<Rightarrow> (u8 list \<times> int) eval_result" where
  "split_args meth vals =
     result_bind (case vals of
          VBytes s # _ \<Rightarrow> Inr s
        | [] \<Rightarrow> Inr [32]
        | _ \<Rightarrow> Inl (type_error (meth @ ''() argument must be bytes''))) (\<lambda>sep.
     if sep = [] then Inl (Interpreter (ValueError ''empty separator''))
     else result_bind (if length vals < 2 then Inr (- 1) else (case vals ! 1 of
          VNone \<Rightarrow> Inr (- 1)
        | VInt n \<Rightarrow> Inr (sint n)
        | VBool b \<Rightarrow> Inr (if b then 1 else 0)
        | _ \<Rightarrow> Inl (type_error (meth @ ''() maxsplit must be an integer'')))) (\<lambda>maxsplit. Inr (sep, maxsplit)))"

definition bytes_split :: "u8 list \<Rightarrow> string \<Rightarrow> pyval list \<Rightarrow> u8 list list eval_result" where
  "bytes_split b meth vals = result_bind (split_args meth vals) (\<lambda>(sep, m). Inr (split_bytes_loop sep b m 0 0 0))"

definition bytes_rsplit :: "u8 list \<Rightarrow> string \<Rightarrow> pyval list \<Rightarrow> u8 list list eval_result" where
  "bytes_rsplit b meth vals = result_bind (split_args meth vals) (\<lambda>(sep, m). Inr (rsplit_bytes_loop sep b m 0 (length b) (length b)))"

definition bytes_replace :: "u8 list \<Rightarrow> pyval list \<Rightarrow> pyval eval_result" where
  "bytes_replace b vals = (case vals of
       VBytes needle # rest \<Rightarrow> (case rest of
           VBytes new # _ \<Rightarrow> Inr (VBytes (if needle = [] then b else replace_bytes_loop needle new b 0))
         | _ \<Rightarrow> Inl (type_error ''replace() second argument must be bytes''))
     | _ \<Rightarrow> Inl (type_error ''replace() first argument must be bytes''))"

subsection \<open>ASCII\<close>

definition ascii_upper :: "u8 \<Rightarrow> bool" where "ascii_upper c \<longleftrightarrow> 65 \<le> c \<and> c \<le> 90"

definition ascii_lower :: "u8 \<Rightarrow> bool" where "ascii_lower c \<longleftrightarrow> 97 \<le> c \<and> c \<le> 122"

definition ascii_alpha :: "u8 \<Rightarrow> bool" where "ascii_alpha c \<longleftrightarrow> ascii_upper c \<or> ascii_lower c"

definition ascii_digit :: "u8 \<Rightarrow> bool" where "ascii_digit c \<longleftrightarrow> 48 \<le> c \<and> c \<le> 57"

definition ascii_space :: "u8 \<Rightarrow> bool" where "ascii_space c \<longleftrightarrow> c \<in> {9, 10, 12, 13, 32}"

definition to_ascii_upper :: "u8 \<Rightarrow> u8" where "to_ascii_upper c = (if ascii_lower c then c - 32 else c)"

definition to_ascii_lower :: "u8 \<Rightarrow> u8" where "to_ascii_lower c = (if ascii_upper c then c + 32 else c)"

definition swap_ascii :: "u8 \<Rightarrow> u8" where
  "swap_ascii c = (if ascii_upper c then to_ascii_lower c else if ascii_lower c then to_ascii_upper c else c)"

definition capitalize_bytes :: "u8 list \<Rightarrow> u8 list" where
  "capitalize_bytes b = (case map to_ascii_lower b of [] \<Rightarrow> [] | c # cs \<Rightarrow> to_ascii_upper c # cs)"

fun title_bytes :: "bool \<Rightarrow> u8 list \<Rightarrow> u8 list" where
  "title_bytes start_word [] = []"
| "title_bytes start_word (c # b) =
     (if ascii_alpha c then (if start_word then to_ascii_upper c else to_ascii_lower c) # title_bytes False b
      else c # title_bytes True b)"

fun bytes_title_scan :: "bool \<Rightarrow> bool \<Rightarrow> u8 list \<Rightarrow> bool" where
  "bytes_title_scan cased prev [] = cased"
| "bytes_title_scan cased prev (c # b) =
     (if ascii_upper c then (if prev then False else bytes_title_scan True True b)
      else if ascii_lower c then (if \<not> prev then False else bytes_title_scan True True b)
      else bytes_title_scan cased False b)"

subsection \<open>Arguments\<close>

definition bytes_required :: eval_error where
  "bytes_required = type_error ''a bytes-like object is required''"

definition bytes_strip :: "u8 list \<Rightarrow> string \<Rightarrow> pyval list \<Rightarrow> pyval eval_result" where
  "bytes_strip b meth vals =
     result_bind (case vals of
          [] \<Rightarrow> Inr ascii_space
        | VNone # _ \<Rightarrow> Inr ascii_space
        | VBytes chars # _ \<Rightarrow> Inr (\<lambda>c. c \<in> set chars)
        | _ \<Rightarrow> Inl bytes_required) (\<lambda>P.
       let left = (if meth \<noteq> ''rstrip'' then strip_left P b else b) in
       Inr (VBytes (if meth \<noteq> ''lstrip'' then strip_right P left else left)))"

fun join_bytes :: "u8 list \<Rightarrow> nat \<Rightarrow> pyval list \<Rightarrow> u8 list eval_result" where
  "join_bytes b i [] = Inr []"
| "join_bytes b i (v # vs) = (case v of
     VBytes part \<Rightarrow> result_bind (join_bytes b (i + 1) vs) (\<lambda>rest. Inr ((if 0 < i then b else []) @ part @ rest))
   | _ \<Rightarrow> Inl (type_error (''sequence item '' @ nat_digits i @ '': expected a bytes-like object, '' @ type_name v @ '' found'')))"

definition bytes_join :: "env \<Rightarrow> u8 list \<Rightarrow> pyval list \<Rightarrow> pyval run" where
  "bytes_join E b vals = (case vals of
       [] \<Rightarrow> Some (Inl (type_error ''join() takes exactly one argument''))
     | v # _ \<Rightarrow> run_bind (dispatch_iter E v) (\<lambda>items. Some (result_bind (join_bytes b 0 items) (\<lambda>out. Inr (VBytes out)))))"

definition bytes_remove :: "(u8 list \<Rightarrow> u8 list \<Rightarrow> u8 list) \<Rightarrow> u8 list \<Rightarrow> pyval list \<Rightarrow> pyval eval_result" where
  "bytes_remove remover b vals = (case vals of VBytes p # _ \<Rightarrow> Inr (VBytes (remover p b)) | _ \<Rightarrow> Inl bytes_required)"

definition bytes_like :: "env \<Rightarrow> pyval \<Rightarrow> u8 list option" where
  "bytes_like E v = (case v of VBytes b \<Rightarrow> Some b | VByteArray a \<Rightarrow> Some (bytes_at E a) | _ \<Rightarrow> None)"

definition bytes_translate :: "env \<Rightarrow> u8 list \<Rightarrow> pyval list \<Rightarrow> pyval eval_result" where
  "bytes_translate E b vals =
     result_bind (case vals of
          [] \<Rightarrow> Inr None
        | VNone # _ \<Rightarrow> Inr None
        | v # _ \<Rightarrow> (case bytes_like E v of
            Some t \<Rightarrow> if length t = 256 then Inr (Some t) else Inl (Interpreter (ValueError ''translation table must be 256 bytes long''))
          | None \<Rightarrow> Inl (Interpreter (ValueError ''translation table must be 256 bytes long'')))) (\<lambda>table.
       let delete = (if length vals < 2 then [] else case bytes_like E (vals ! 1) of Some d \<Rightarrow> d | None \<Rightarrow> []) in
       Inr (VBytes (map (\<lambda>c. case table of Some t \<Rightarrow> t ! unat c | None \<Rightarrow> c) (filter (\<lambda>c. c \<notin> set delete) b))))"

definition bytes_partition :: "u8 list \<Rightarrow> bool \<Rightarrow> pyval list \<Rightarrow> pyval eval_result" where
  "bytes_partition b from_right vals = (case vals of
       VBytes sep # _ \<Rightarrow>
         if sep = [] then Inl (Interpreter (ValueError ''empty separator''))
         else (case position_of from_right sep b of
             Some i \<Rightarrow> Inr (VTuple [VBytes (take i b), VBytes sep, VBytes (drop (i + length sep) b)])
           | None \<Rightarrow> if from_right then Inr (VTuple [VBytes [], VBytes [], VBytes b]) else Inr (VTuple [VBytes b, VBytes [], VBytes []]))
     | _ \<Rightarrow> Inl bytes_required)"

definition width_arg :: "string \<Rightarrow> pyval list \<Rightarrow> nat eval_result" where
  "width_arg meth vals = (case vals of
       VInt n # _ \<Rightarrow> Inr (nat (max 0 (sint n)))
     | VBool b # _ \<Rightarrow> Inr (if b then 1 else 0)
     | _ \<Rightarrow> Inl (type_error (meth @ ''() takes an integer width'')))"

definition fill_byte :: "env \<Rightarrow> pyval list \<Rightarrow> u8 eval_result" where
  "fill_byte E vals =
     (if length vals < 2 then Inr 32
      else case bytes_like E (vals ! 1) of
        Some [c] \<Rightarrow> Inr c
      | _ \<Rightarrow> Inl (type_error ''fill byte must be a byte string of length 1''))"

definition bytes_pad :: "(nat \<Rightarrow> u8 \<Rightarrow> u8 list \<Rightarrow> u8 list) \<Rightarrow> env \<Rightarrow> u8 list \<Rightarrow> string \<Rightarrow> pyval list \<Rightarrow> pyval eval_result" where
  "bytes_pad pad E b meth vals =
     result_bind (width_arg meth vals) (\<lambda>width. result_bind (fill_byte E vals) (\<lambda>c. Inr (VBytes (pad width c b))))"

definition bytes_zfill :: "u8 list \<Rightarrow> string \<Rightarrow> pyval list \<Rightarrow> pyval eval_result" where
  "bytes_zfill b meth vals = result_bind (width_arg meth vals) (\<lambda>width. Inr (VBytes (zero_fill 48 [43, 45] width b)))"

fun expand_bytes :: "nat \<Rightarrow> nat \<Rightarrow> u8 list \<Rightarrow> u8 list" where
  "expand_bytes tabsize col [] = []"
| "expand_bytes tabsize col (c # b) =
     (if c = 9 then
        (if 0 < tabsize then
           let spaces = tabsize - col mod tabsize in replicate spaces 32 @ expand_bytes tabsize (col + spaces) b
         else expand_bytes tabsize col b)
      else if c = 10 \<or> c = 13 then c # expand_bytes tabsize 0 b
      else c # expand_bytes tabsize (col + 1) b)"

definition bytes_expandtabs :: "u8 list \<Rightarrow> pyval list \<Rightarrow> pyval eval_result" where
  "bytes_expandtabs b vals =
     result_bind (case vals of
          [] \<Rightarrow> Inr 8
        | VNone # _ \<Rightarrow> Inr 8
        | VInt n # _ \<Rightarrow> Inr (if 0 \<le> sint n then nat (sint n) else 0)
        | VBool t # _ \<Rightarrow> Inr (if t then 1 else 0)
        | _ \<Rightarrow> Inl (type_error ''expandtabs() argument must be an integer'')) (\<lambda>tabsize. Inr (VBytes (expand_bytes tabsize 0 b)))"

subsection \<open>Hexadecimal text\<close>

definition hex_sep :: "pyval list \<Rightarrow> nat option eval_result" where
  "hex_sep vals = (case vals of
       [] \<Rightarrow> Inr None
     | VNone # _ \<Rightarrow> Inr None
     | VString [c] # _ \<Rightarrow> Inr (Some c)
     | VString _ # _ \<Rightarrow> Inl (Interpreter (ValueError ''sep must be length 1.''))
     | other # _ \<Rightarrow> Inl (type_error (''hex() argument '' @ quoted ''sep'' @ '' must be str, not '' @ type_name other)))"

definition hex_group :: "pyval list \<Rightarrow> int eval_result" where
  "hex_group vals =
     (if length vals < 2 then Inr 1
      else case vals ! 1 of
        VInt n \<Rightarrow> Inr (sint n)
      | VBool b \<Rightarrow> Inr (if b then 1 else 0)
      | other \<Rightarrow> Inl (type_error (''hex() argument '' @ quoted ''bytes_per_sep'' @ '' must be int, not '' @ type_name other)))"

definition hex_boundary :: "int \<Rightarrow> nat \<Rightarrow> nat \<Rightarrow> bool" where
  "hex_boundary width n i \<longleftrightarrow>
     0 < i \<and> (if 0 < width then (n - i) mod nat \<bar>width\<bar> = 0 else i mod nat \<bar>width\<bar> = 0)"

definition bytes_to_hex :: "u8 list \<Rightarrow> pyval list \<Rightarrow> pyval eval_result" where
  "bytes_to_hex raw vals =
     result_bind (hex_sep vals) (\<lambda>sep. case sep of
         None \<Rightarrow> Inr (VString (concat (map (\<lambda>c. hex_text 2 (unat c)) raw)))
       | Some c \<Rightarrow>
           result_bind (hex_group vals) (\<lambda>width.
             if width = 0 then Inl (Interpreter (ValueError ''bytes_per_sep must not be zero''))
             else Inr (VString (concat (map (\<lambda>(i, x). (if hex_boundary width (length raw) i then [c] else []) @ hex_text 2 (unat x))
               (enumerate 0 raw))))))"

subsection \<open>Dispatch\<close>

definition dispatch_bytes_method :: "addr \<Rightarrow> env \<Rightarrow> u8 list \<Rightarrow> string \<Rightarrow> pyval list \<Rightarrow> kwargs \<Rightarrow> (env \<times> pyval) run" where
  "dispatch_bytes_method fresh E b meth vals kw =
     run_bind (Some (if meth \<noteq> ''decode'' then reject_kwargs meth kw else Inr ())) (\<lambda>_.
       let data = (\<lambda>t. pure_text E (Inr (VBytes t))); flag = (\<lambda>t. pure_text E (Inr (VBool t))) in
       if meth = ''decode'' then pure_text E (bytes_decode b vals kw)
       else if meth = ''hex'' then pure_text E (bytes_to_hex b vals)
       else if meth = ''startswith'' then pure_text E (bytes_affix b meth vals True)
       else if meth = ''endswith'' then pure_text E (bytes_affix b meth vals False)
       else if meth = ''split'' then listed fresh E VBytes (bytes_split b meth vals)
       else if meth = ''replace'' then pure_text E (bytes_replace b vals)
       else if meth = ''find'' then pure_text E (bytes_search b meth vals False False)
       else if meth = ''rfind'' then pure_text E (bytes_search b meth vals True False)
       else if meth = ''index'' then pure_text E (bytes_search b meth vals False True)
       else if meth = ''rindex'' then pure_text E (bytes_search b meth vals True True)
       else if meth = ''count'' then
         pure_text E (result_bind (bytes_search_args b meth vals) (\<lambda>(needle, w).
           result_bind (to_len_i64 (count_occurrences (slice_window w b) needle)) (\<lambda>n. Inr (VInt n))))
       else if meth = ''upper'' then data (map to_ascii_upper b)
       else if meth = ''lower'' then data (map to_ascii_lower b)
       else if meth = ''swapcase'' then data (map swap_ascii b)
       else if meth = ''capitalize'' then data (capitalize_bytes b)
       else if meth = ''title'' then data (title_bytes True b)
       else if meth = ''isdigit'' then pure_text E (nonempty_all ascii_digit b)
       else if meth = ''isalpha'' then pure_text E (nonempty_all ascii_alpha b)
       else if meth = ''isalnum'' then pure_text E (nonempty_all (\<lambda>c. ascii_alpha c \<or> ascii_digit c) b)
       else if meth = ''isspace'' then pure_text E (nonempty_all ascii_space b)
       else if meth = ''isupper'' then flag (list_ex ascii_upper b \<and> \<not> list_ex ascii_lower b)
       else if meth = ''islower'' then flag (list_ex ascii_lower b \<and> \<not> list_ex ascii_upper b)
       else if meth = ''istitle'' then flag (bytes_title_scan False False b)
       else if meth \<in> {''strip'', ''lstrip'', ''rstrip''} then pure_text E (bytes_strip b meth vals)
       else if meth = ''join'' then run_bind (bytes_join E b vals) (\<lambda>v. Some (Inr (E, v)))
       else if meth = ''removeprefix'' then pure_text E (bytes_remove remove_prefix b vals)
       else if meth = ''removesuffix'' then pure_text E (bytes_remove remove_suffix b vals)
       else if meth = ''translate'' then pure_text E (bytes_translate E b vals)
       else if meth = ''partition'' then pure_text E (bytes_partition b False vals)
       else if meth = ''rpartition'' then pure_text E (bytes_partition b True vals)
       else if meth = ''center'' then pure_text E (bytes_pad pad_center E b meth vals)
       else if meth = ''ljust'' then pure_text E (bytes_pad pad_left E b meth vals)
       else if meth = ''rjust'' then pure_text E (bytes_pad pad_right E b meth vals)
       else if meth = ''zfill'' then pure_text E (bytes_zfill b meth vals)
       else if meth = ''splitlines'' then
         listed fresh E VBytes (Inr (byte_lines (case vals of [] \<Rightarrow> False | v # _ \<Rightarrow> is_truthy E v) b 0 0))
       else if meth = ''isascii'' then flag (list_all (\<lambda>c. c < 128) b)
       else if meth = ''expandtabs'' then pure_text E (bytes_expandtabs b vals)
       else if meth = ''rsplit'' then listed fresh E VBytes (bytes_rsplit b meth vals)
       else Some (Inl (Interpreter (AttributeError (quoted ''bytes'' @ '' object has no attribute '' @ quoted meth)))))"

section \<open>Methods of bytearray and memoryview\<close>

definition byte_arg :: "pyval \<Rightarrow> u8 eval_result" where
  "byte_arg v = (case v of
       VInt n \<Rightarrow> if 0 \<le> sint n \<and> sint n \<le> 255 then Inr (of_int (sint n)) else Inl (Interpreter (ValueError ''byte must be in range(0, 256)''))
     | VBool b \<Rightarrow> Inr (if b then 1 else 0)
     | _ \<Rightarrow> Inl (type_error (quoted (type_name v) @ '' object cannot be interpreted as an integer'')))"

definition extend_arg :: "env \<Rightarrow> pyval \<Rightarrow> u8 list eval_result" where
  "extend_arg E v = (case bytes_like E v of
       Some b \<Rightarrow> Inr b
     | None \<Rightarrow> Inl (type_error (''can'' @ [CHR 39] @ ''t extend/concat bytearray with '' @ quoted (type_name v))))"

definition first_arg :: "string \<Rightarrow> pyval list \<Rightarrow> pyval eval_result" where
  "first_arg meth vals = (case vals of [] \<Rightarrow> Inl (type_error (meth @ ''() takes one argument'')) | v # _ \<Rightarrow> Inr v)"

definition bytearray_insert :: "u8 list \<Rightarrow> pyval list \<Rightarrow> (u8 list \<times> method_outcome) eval_result" where
  "bytearray_insert b vals = (case vals of
       [idx, v] \<Rightarrow> result_bind (byte_arg v) (\<lambda>byte.
         result_bind (case idx of
              VInt n \<Rightarrow> Inr (sint n)
            | VBool t \<Rightarrow> Inr (if t then 1 else 0)
            | _ \<Rightarrow> Inl (type_error ''an integer is required for the index'')) (\<lambda>raw.
           let pos = (if raw < 0 then nat (max 0 (int (length b) + raw)) else min (nat raw) (length b)) in
           Inr (take pos b @ byte # drop pos b, outcome_grew VNone 1)))
     | _ \<Rightarrow> Inl (type_error ''insert() takes exactly two arguments''))"

definition bytearray_pop :: "u8 list \<Rightarrow> pyval list \<Rightarrow> (u8 list \<times> method_outcome) eval_result" where
  "bytearray_pop b vals =
     (if b = [] then Inl (Exception (exception_new ''IndexError'' ''pop from empty bytearray''))
      else result_bind (case vals of
           [] \<Rightarrow> Inr (int (length b) - 1)
         | VInt n # _ \<Rightarrow> Inr (sint n)
         | VBool t # _ \<Rightarrow> Inr (if t then 1 else 0)
         | _ \<Rightarrow> Inl (type_error ''an integer is required'')) (\<lambda>raw.
        let idx = (if raw < 0 then int (length b) + raw else raw) in
        if idx < 0 \<or> int (length b) \<le> idx then Inl (Exception (exception_new ''IndexError'' ''bytearray index out of range''))
        else Inr (take (nat idx) b @ drop (nat idx + 1) b, outcome_shrank (VInt (ucast (b ! nat idx))) 1)))"

text \<open>The bytes in the result of a method of \<open>bytes\<close> become byte arrays, at the addresses from \<open>fresh\<close> on.\<close>

fun rewrap_items :: "addr \<Rightarrow> env \<Rightarrow> pyval list \<Rightarrow> env \<times> pyval list" where
  "rewrap_items a E [] = (E, [])"
| "rewrap_items a E (v # vs) = (case v of
     VBytes b \<Rightarrow> (let r = rewrap_items (a + 1) (set_bytes E a b) vs in (fst r, VByteArray a # snd r))
   | _ \<Rightarrow> (let r = rewrap_items (a + 1) E vs in (fst r, v # snd r)))"

definition rewrap_bytes_as_bytearray :: "addr \<Rightarrow> env \<Rightarrow> pyval \<Rightarrow> env \<times> pyval" where
  "rewrap_bytes_as_bytearray fresh E v = (case v of
       VBytes b \<Rightarrow> (set_bytes E fresh b, VByteArray fresh)
     | VList l \<Rightarrow> (let r = rewrap_items (fresh + 1) E (list_at E l) in (set_list (fst r) fresh (snd r), VList fresh))
     | VTuple items \<Rightarrow> (let r = rewrap_items (fresh + 1) E items in (fst r, VTuple (snd r)))
     | _ \<Rightarrow> (E, v))"

definition dispatch_bytearray_method ::
  "addr \<Rightarrow> env \<Rightarrow> addr \<Rightarrow> string \<Rightarrow> pyval list \<Rightarrow> kwargs \<Rightarrow> (env \<times> method_outcome) run" where
  "dispatch_bytearray_method fresh E ba meth vals kw =
     (let b = bytes_at E ba; store = (\<lambda>r. Some (result_bind r (\<lambda>(b', out). Inr (set_bytes E ba b', out)))) in
      if meth = ''append'' then
        store (result_bind (first_arg meth vals) (\<lambda>v. result_bind (byte_arg v) (\<lambda>c. Inr (b @ [c], outcome_grew VNone 1))))
      else if meth = ''extend'' then
        store (result_bind (first_arg meth vals) (\<lambda>v. result_bind (extend_arg E v) (\<lambda>x. Inr (b @ x, outcome_grew VNone (length x)))))
      else if meth = ''insert'' then store (bytearray_insert b vals)
      else if meth = ''remove'' then
        store (result_bind (first_arg meth vals) (\<lambda>v. result_bind (byte_arg v) (\<lambda>c.
          case first_index (\<lambda>x. x = c) b of
            Some i \<Rightarrow> Inr (take i b @ drop (i + 1) b, outcome_shrank VNone 1)
          | None \<Rightarrow> Inl (Exception (exception_new ''ValueError'' ''value not found'')))))
      else if meth = ''pop'' then store (bytearray_pop b vals)
      else if meth = ''clear'' then store (Inr ([], outcome_shrank VNone (length b)))
      else if meth = ''reverse'' then store (Inr (rev b, outcome_pure VNone))
      else if meth = ''copy'' then Some (Inr (set_bytes E fresh b, outcome_pure (VByteArray fresh)))
      else run_bind (dispatch_bytes_method fresh E b meth vals kw) (\<lambda>(E1, v).
        case rewrap_bytes_as_bytearray (fresh + 1) E1 v of (E2, w) \<Rightarrow> Some (Inr (E2, outcome_pure w))))"

definition dispatch_memoryview_method :: "addr \<Rightarrow> env \<Rightarrow> u8 list \<Rightarrow> string \<Rightarrow> (env \<times> pyval) run" where
  "dispatch_memoryview_method fresh E raw meth =
     (if meth = ''tobytes'' then pure_text E (Inr (VBytes raw))
      else if meth = ''tolist'' then listed fresh E (\<lambda>c. VInt (ucast c)) (Inr raw)
      else if meth = ''hex'' then pure_text E (bytes_to_hex raw [])
      else Some (Inl (Interpreter (AttributeError (quoted ''memoryview'' @ '' object has no attribute '' @ quoted meth)))))"

section \<open>Correctness of the methods of bytes\<close>

subsection \<open>The loops compute the reference functions\<close>

lemma prefix_take: "prefix sep xs \<longleftrightarrow> take (length sep) xs = sep"
  by (metis append_eq_conv_conj prefix_def take_is_prefix)

lemma split_text_step:
  assumes "sep \<noteq> []" "k \<noteq> Some 0"
  shows "split_text sep k (sep @ s) = [] # split_text sep (map_option (\<lambda>n. n - 1) k) s"
    and "\<not> prefix sep (c # s) \<Longrightarrow> split_text sep k (c # s) = (c # hd (split_text sep k s)) # tl (split_text sep k s)"
proof -
  have "find_text sep (sep @ s) = Some 0" using assms(1) by (cases sep) auto
  then show "split_text sep k (sep @ s) = [] # split_text sep (map_option (\<lambda>n. n - 1) k) s"
    using assms by (subst split_text.simps) simp
next
  assume "\<not> prefix sep (c # s)"
  then have f: "find_text sep (c # s) = map_option Suc (find_text sep s)" by simp
  show "split_text sep k (c # s) = (c # hd (split_text sep k s)) # tl (split_text sep k s)"
    by (cases "find_text sep s"; subst (1 2 3) split_text.simps) (use assms f in simp_all)
qed

lemma short_text: "length s < length sep \<Longrightarrow> split_text sep k s = [s]"
proof -
  assume "length s < length sep"
  then have "\<not> occurs_at sep s i" for i using occurs_at_bound [of sep s i] by auto
  then have "find_text sep s = None" by (simp add: find_text_None)
  then show ?thesis by (subst split_text.simps) simp
qed

lemma drop_hit: "take (length sep) (drop i b) = sep \<Longrightarrow> drop i b = sep @ drop (i + length sep) b"
  by (metis add.commute append_take_drop_id drop_drop)

lemma drop_miss: "\<not> length b < i + length sep \<Longrightarrow> sep \<noteq> [] \<Longrightarrow> drop i b = b ! i # drop (i + 1) b"
proof -
  assume a: "\<not> length b < i + length sep" "sep \<noteq> []"
  then have "i < length b" by (cases sep) auto
  then show ?thesis by (simp add: Cons_nth_drop_Suc)
qed

lemma replace_loop_correct:
  "needle \<noteq> [] \<Longrightarrow> replace_bytes_loop needle new b i = join_text new (split_text needle None (drop i b))"
proof (induction needle new b i rule: replace_bytes_loop.induct)
  case (1 needle new b i)
  consider "length b < i + length needle" | "\<not> length b < i + length needle" "take (length needle) (drop i b) = needle"
    | "\<not> length b < i + length needle" "take (length needle) (drop i b) \<noteq> needle" by blast
  then show ?case
  proof cases
    case 1
    then have "length (drop i b) < length needle" using "1.prems" by (cases needle) auto
    then show ?thesis using 1 by (subst replace_bytes_loop.simps) (simp add: short_text)
  next
    case 2
    then have "replace_bytes_loop needle new b i = new @ join_text new (split_text needle None (drop (i + length needle) b))"
      using "1.IH"(1) "1.prems" by (subst replace_bytes_loop.simps) simp
    also have "\<dots> = join_text new (split_text needle None (needle @ drop (i + length needle) b))"
      using "1.prems" by (simp add: split_text_step join_cons)
    finally show ?thesis using drop_hit [OF 2(2)] by simp
  next
    case 3
    let ?t = "split_text needle None (drop (i + 1) b)"
    have d: "drop i b = b ! i # drop (i + 1) b" using drop_miss [OF 3(1) "1.prems"] .
    then have "\<not> prefix needle (b ! i # drop (i + 1) b)" using 3(2) by (metis prefix_take)
    then have "split_text needle None (drop i b) = (b ! i # hd ?t) # tl ?t" using d "1.prems" by (simp add: split_text_step(2))
    moreover have "join_text new ((b ! i # hd ?t) # tl ?t) = b ! i # join_text new (hd ?t # tl ?t)"
      by (cases "tl ?t") simp_all
    moreover have "replace_bytes_loop needle new b i = b ! i # join_text new ?t"
      using 3 "1.IH"(2) "1.prems" by (subst replace_bytes_loop.simps) simp
    ultimately show ?thesis by simp
  qed
qed

lemma count_loop_correct:
  "needle \<noteq> [] \<Longrightarrow> count_loop needle hay i = length (split_text needle None (drop i hay)) - 1"
proof (induction needle hay i rule: count_loop.induct)
  case (1 needle b i)
  have pos: "0 < length (split_text needle k s)" for k s by simp
  consider "length b < i + length needle" | "\<not> length b < i + length needle" "take (length needle) (drop i b) = needle"
    | "\<not> length b < i + length needle" "take (length needle) (drop i b) \<noteq> needle" by blast
  then show ?case
  proof cases
    case 1
    then have "length (drop i b) < length needle" using "1.prems" by (cases needle) auto
    then show ?thesis using 1 by (subst count_loop.simps) (simp add: short_text)
  next
    case 2
    have "split_text needle None (drop i b) = [] # split_text needle None (drop (i + length needle) b)"
      using drop_hit [OF 2(2)] "1.prems" split_text_step(1) [of needle None] by simp
    then show ?thesis using 2 "1.IH"(1) "1.prems" pos [of None "drop (i + length needle) b"] by (subst count_loop.simps) simp
  next
    case 3
    have d: "drop i b = b ! i # drop (i + 1) b" using drop_miss [OF 3(1) "1.prems"] .
    then have "\<not> prefix needle (b ! i # drop (i + 1) b)" using 3(2) by (metis prefix_take)
    then have "length (split_text needle None (drop i b)) = length (split_text needle None (drop (i + 1) b))"
      using d "1.prems" pos [of None "drop (i + 1) b"] by (simp add: split_text_step(2))
    then show ?thesis using 3 "1.IH"(2) "1.prems" by (subst count_loop.simps) simp
  qed
qed

lemma count_occurrences_correct: "count_occurrences hay needle = count_text needle hay"
  by (simp add: count_occurrences_def count_text_def count_loop_correct)

text \<open>Splits still allowed.\<close>

definition left_over :: "int \<Rightarrow> int \<Rightarrow> nat option" where
  "left_over m c = (if m < 0 then None else Some (nat (m - c)))"

lemma left_over_step:
  "(m < 0 \<or> c < m) \<longleftrightarrow> left_over m c \<noteq> Some 0"
  "m < 0 \<or> c < m \<Longrightarrow> left_over m (c + 1) = map_option (\<lambda>n. n - 1) (left_over m c)"
  by (auto simp: left_over_def)

lemma split_loop_correct:
  assumes "sep \<noteq> []" "start \<le> i" "i \<le> length b"
    "left_over m c = Some 0 \<or> (\<forall>j. start \<le> j \<and> j < i \<longrightarrow> \<not> occurs_at sep b j)"
  shows "split_bytes_loop sep b m c start i = split_text sep (left_over m c) (drop start b)"
  using assms
proof (induction sep b m c start i rule: split_bytes_loop.induct)
  case (1 sep b m c start i)
  have shift: "occurs_at sep (drop start b) j \<longleftrightarrow> occurs_at sep b (start + j)" for j
    using 1(4,5) by (auto simp: occurs_at_def add.commute)
  consider (short) "length b < i + length sep"
    | (hit) "\<not> length b < i + length sep" "m < 0 \<or> c < m" "take (length sep) (drop i b) = sep"
    | (miss) "\<not> length b < i + length sep" "\<not> ((m < 0 \<or> c < m) \<and> take (length sep) (drop i b) = sep)" by blast
  then show ?case
  proof cases
    case short
    have "split_text sep (left_over m c) (drop start b) = [drop start b]"
    proof (cases "left_over m c = Some 0")
      case False
      have "\<not> occurs_at sep (drop start b) j" for j
        using 1(6) False short shift [of j] occurs_at_bound [of sep b "start + j"] by (cases "start + j < i") auto
      then have "find_text sep (drop start b) = None" by (simp add: find_text_None)
      then show ?thesis by (subst split_text.simps) simp
    qed (subst split_text.simps, simp)
    then show ?thesis using short by (subst split_bytes_loop.simps) simp
  next
    case hit
    have allowed: "left_over m c \<noteq> Some 0" using hit(2) left_over_step(1) by blast
    have "occurs_at sep b i" using hit 1(5) by (simp add: occurs_at_take)
    then have "find_text sep (drop start b) = Some (i - start)"
      using 1(4,6) allowed shift by (simp add: find_text_first)
    then have "split_text sep (left_over m c) (drop start b) =
        take (i - start) (drop start b) # split_text sep (left_over m (c + 1)) (drop (i + length sep) b)"
      using 1(3,4) allowed left_over_step(2) [OF hit(2)] by (subst split_text.simps) (simp add: add.commute)
    moreover have "split_bytes_loop sep b m (c + 1) (i + length sep) (i + length sep) =
        split_text sep (left_over m (c + 1)) (drop (i + length sep) b)"
      by (rule 1(1)) (use hit 1(3) in auto)
    ultimately show ?thesis using hit 1(3) by (subst split_bytes_loop.simps) simp
  next
    case miss
    have "split_bytes_loop sep b m c start (i + 1) = split_text sep (left_over m c) (drop start b)"
    proof (rule 1(2))
      show "i + 1 \<le> length b" using miss(1) 1(3) by (cases sep) auto
      show "left_over m c = Some 0 \<or> (\<forall>j. start \<le> j \<and> j < i + 1 \<longrightarrow> \<not> occurs_at sep b j)"
        using miss(2) 1(6) left_over_step(1) [of m c] by (auto simp: occurs_at_take less_Suc_eq)
    qed (use miss 1(3,4) in auto)
    then show ?thesis using miss 1(3) by (subst split_bytes_loop.simps) auto
  qed
qed

lemma occurs_before:
  "stop \<le> length b \<Longrightarrow> occurs_at sep (take stop b) p \<longleftrightarrow> p + length sep \<le> stop \<and> occurs_at sep b p"
  using occurs_in_window [of "(0, stop)" b sep p] by (simp add: valid_window_def slice_window_def)

lemma rsplit_loop_correct:
  assumes "sep \<noteq> []" "i \<le> stop" "stop \<le> length b" "if m < 0 then stop \<le> k else k = nat (m - c)"
    "k = 0 \<or> (\<forall>p. i < p + length sep \<and> p + length sep \<le> stop \<longrightarrow> \<not> occurs_at sep b p)"
  shows "rsplit_bytes_loop sep b m c stop i = rsplit_text sep k (take stop b)"
  using assms
proof (induction sep b m c stop i arbitrary: k rule: rsplit_bytes_loop.induct)
  case (1 sep b m c stop i)
  note before = occurs_before [OF 1(5), of sep]
  consider (short) "i < length sep"
    | (hit) "\<not> i < length sep" "m < 0 \<or> c < m" "take (length sep) (drop (i - length sep) b) = sep"
    | (miss) "\<not> i < length sep" "\<not> ((m < 0 \<or> c < m) \<and> take (length sep) (drop (i - length sep) b) = sep)" by blast
  then show ?case
  proof cases
    case short
    have "rsplit_text sep k (take stop b) = [take stop b]"
    proof (cases k)
      case (Suc n)
      then have "\<not> occurs_at sep (take stop b) p" for p using 1(7) before [of p] short by auto
      then have "rfind_text sep (take stop b) = None" by (simp add: rfind_text_None)
      then show ?thesis using Suc by simp
    qed simp
    then show ?thesis using short by (subst rsplit_bytes_loop.simps) simp
  next
    case hit
    define j where "j = i - length sep"
    have j: "j + length sep = i" "j < i" using hit(1) window_back [OF 1(3) hit(1)] by (simp_all add: j_def)
    obtain n where n: "k = Suc n" using 1(6) hit(2) j 1(4) by (cases k) (auto split: if_splits)
    have "occurs_at sep b j" using hit(3) j 1(4,5) by (simp add: occurs_at_take j_def)
    moreover have "\<not> occurs_at sep (take stop b) p" if "j < p" for p using 1(7) n before [of p] j that by auto
    ultimately have "rfind_text sep (take stop b) = Some j" using before [of j] j 1(4) by (auto simp: rfind_text_last)
    then have "rsplit_text sep k (take stop b) = rsplit_text sep n (take j b) @ [take (stop - i) (drop i b)]"
      using n j 1(4) by (simp add: drop_take min_absorb1)
    moreover have "rsplit_bytes_loop sep b m (c + 1) j j = rsplit_text sep n (take j b)"
    proof (rule 1(1) [of j n])
      show "if m < 0 then j \<le> n else n = nat (m - (c + 1))" using 1(4,6) n j by (auto split: if_splits)
    qed (use hit 1(3-5) j in \<open>auto simp: j_def\<close>)
    ultimately show ?thesis using hit 1(3) by (subst rsplit_bytes_loop.simps) (simp add: j_def)
  next
    case miss
    have pos: "0 < i" using miss(1) 1(3) by (cases sep) auto
    have "rsplit_bytes_loop sep b m c stop (i - 1) = rsplit_text sep k (take stop b)"
    proof (rule 1(2) [of "i - length sep" k])
      show "k = 0 \<or> (\<forall>p. i - 1 < p + length sep \<and> p + length sep \<le> stop \<longrightarrow> \<not> occurs_at sep b p)"
      proof (cases "k = 0")
        case False
        then have "m < 0 \<or> c < m" using 1(6) by (auto split: if_splits)
        then have no: "take (length sep) (drop (i - length sep) b) \<noteq> sep" using miss(2) by blast
        have "\<not> occurs_at sep b p" if p: "i - 1 < p + length sep" "p + length sep \<le> stop" for p
        proof (cases "p + length sep = i")
          case True
          then have "p = i - length sep" by simp
          then show ?thesis using no by (simp add: occurs_at_take)
        next
          case False
          then have "i < p + length sep" using p(1) pos by linarith
          then show ?thesis using 1(7) \<open>k \<noteq> 0\<close> p(2) by blast
        qed
        then show ?thesis by blast
      qed simp
    qed (use miss 1(3-6) in auto)
    then show ?thesis using miss 1(3) by (subst rsplit_bytes_loop.simps) (auto simp: Let_def)
  qed
qed

lemma first_index_iff:
  "first_index P xs = Some i \<longleftrightarrow> i < length xs \<and> P (xs ! i) \<and> (\<forall>j < i. \<not> P (xs ! j))"
proof (induction xs arbitrary: i)
  case (Cons x xs)
  show ?case
  proof (cases i)
    case (Suc n)
    have "(\<forall>j < Suc n. \<not> P ((x # xs) ! j)) \<longleftrightarrow> \<not> P x \<and> (\<forall>j < n. \<not> P (xs ! j))" by (auto simp: less_Suc_eq_0_disj)
    then show ?thesis using Suc Cons.IH [of n] by auto
  qed simp
qed simp

lemma last_index_iff:
  "last_index P xs = Some i \<longleftrightarrow> i < length xs \<and> P (xs ! i) \<and> (\<forall>j. i < j \<and> j < length xs \<longrightarrow> \<not> P (xs ! j))"
proof -
  have r: "rev xs ! k = xs ! (length xs - 1 - k)" if "k < length xs" for k using that by (simp add: rev_nth)
  show ?thesis
  proof
    assume "last_index P xs = Some i"
    then obtain k where k: "first_index P (rev xs) = Some k" "i = length xs - 1 - k" by (auto simp: last_index_def)
    then have a: "k < length xs" "P (rev xs ! k)" "\<forall>j < k. \<not> P (rev xs ! j)" by (auto simp: first_index_iff)
    have "\<not> P (xs ! j)" if "i < j" "j < length xs" for j
      using a(3) [rule_format, of "length xs - 1 - j"] r [of "length xs - 1 - j"] that k(2) a(1) by auto
    then show "i < length xs \<and> P (xs ! i) \<and> (\<forall>j. i < j \<and> j < length xs \<longrightarrow> \<not> P (xs ! j))" using a r [of k] k(2) by auto
  next
    assume a: "i < length xs \<and> P (xs ! i) \<and> (\<forall>j. i < j \<and> j < length xs \<longrightarrow> \<not> P (xs ! j))"
    let ?k = "length xs - 1 - i"
    have k: "?k < length xs" using a by linarith
    then have "P (rev xs ! ?k)" using a r [of ?k] by simp
    moreover have "\<not> P (rev xs ! j)" if "j < ?k" for j
    proof -
      have "j < length xs" "i < length xs - 1 - j" "length xs - 1 - j < length xs" using that by linarith+
      then show ?thesis using a r [of j] by simp
    qed
    ultimately have "first_index P (rev xs) = Some ?k" using k by (simp add: first_index_iff)
    then show "last_index P xs = Some i" using a by (simp add: last_index_def)
  qed
qed

lemma windows_nth: "i < length (windows (length sub) xs) \<and> windows (length sub) xs ! i = sub \<longleftrightarrow> occurs_at sub xs i"
  by (auto simp: windows_def occurs_at_take)

lemma position_of_correct: "position_of right sub xs = (if right then rfind_text sub xs else find_text sub xs)"
proof -
  let ?w = "windows (length sub) xs"
  have "first_index (\<lambda>w. w = sub) ?w = find_text sub xs"
  proof (rule option.expand)
    show "(first_index (\<lambda>w. w = sub) ?w = None) = (find_text sub xs = None)"
      using windows_nth [of _ sub xs] by (auto simp: first_index_None find_text_None in_set_conv_nth)
  next
    assume "first_index (\<lambda>w. w = sub) ?w \<noteq> None" "find_text sub xs \<noteq> None"
    then obtain i where i: "first_index (\<lambda>w. w = sub) ?w = Some i" by auto
    then have "find_text sub xs = Some i" using windows_nth [of _ sub xs] unfolding first_index_iff find_text_first by (meson less_trans)
    then show "the (first_index (\<lambda>w. w = sub) ?w) = the (find_text sub xs)" using i by simp
  qed
  moreover have "last_index (\<lambda>w. w = sub) ?w = Some i \<longleftrightarrow> rfind_text sub xs = Some i" for i
    using windows_nth [of _ sub xs] unfolding last_index_iff rfind_text_last by blast
  then have "last_index (\<lambda>w. w = sub) ?w = rfind_text sub xs" by (metis not_Some_eq)
  ultimately show ?thesis by (simp add: position_of_def Let_def)
qed

lemma split_args_pair:
  assumes "sep \<noteq> []"
  shows "split_args meth [VBytes sep, VInt k] = Inr (sep, sint k)"
  using assms by (simp add: split_args_def)

definition byte_splits :: "bool \<Rightarrow> u8 list \<Rightarrow> int \<Rightarrow> u8 list \<Rightarrow> u8 list list" where
  "byte_splits right sep m b =
     (if right then rsplit_text sep (if m < 0 then length b else nat m) b
      else split_text sep (if m < 0 then None else Some (nat m)) b)"

lemma bytes_split_reference:
  assumes "sep \<noteq> []"
  shows "bytes_split b meth [VBytes sep, VInt k] = Inr (byte_splits False sep (sint k) b)"
    "bytes_rsplit b meth [VBytes sep, VInt k] = Inr (byte_splits True sep (sint k) b)"
proof -
  have "split_bytes_loop sep b (sint k) 0 0 0 = split_text sep (left_over (sint k) 0) b"
    using split_loop_correct [OF assms, of 0 0 b "sint k" 0] by simp
  then show "bytes_split b meth [VBytes sep, VInt k] = Inr (byte_splits False sep (sint k) b)"
    using assms by (simp add: bytes_split_def split_args_pair left_over_def byte_splits_def)
  have "rsplit_bytes_loop sep b (sint k) 0 (length b) (length b) =
      rsplit_text sep (if sint k < 0 then length b else nat (sint k)) (take (length b) b)"
    by (rule rsplit_loop_correct) (use assms in auto)
  then show "bytes_rsplit b meth [VBytes sep, VInt k] = Inr (byte_splits True sep (sint k) b)"
    using assms by (simp add: bytes_rsplit_def split_args_pair byte_splits_def)
qed

lemma join_byte_splits: "join_text sep (byte_splits right sep m b) = b"
  by (simp add: byte_splits_def join_split join_rsplit)

text \<open>C38: The position loops of \<open>bytes\<close> compute the reference functions on sequences.  For a non-empty separator \<open>split\<close> and
  \<open>rsplit\<close> return the parts of the reference, from the left and from the right, and the parts join to the bytes; \<open>replace\<close>
  replaces every match; \<open>count\<close> is the number of non-overlapping matches; the searches find the first and the last occurrence.\<close>

theorem bytes_methods_agree:
  assumes "sep \<noteq> []"
  shows "bytes_split b ''split'' [VBytes sep, VInt k] = Inr (byte_splits False sep (sint k) b) \<and>
    bytes_rsplit b ''rsplit'' [VBytes sep, VInt k] = Inr (byte_splits True sep (sint k) b) \<and>
    (\<forall>right. join_text sep (byte_splits right sep (sint k) b) = b) \<and>
    bytes_replace b [VBytes sep, VBytes new] = Inr (VBytes (replace_text sep new None b)) \<and>
    count_occurrences b sep = count_text sep b \<and>
    position_of False sep b = find_text sep b \<and> position_of True sep b = rfind_text sep b"
  using assms bytes_split_reference [OF assms] join_byte_splits
  by (simp add: bytes_replace_def replace_text_def replace_loop_correct count_occurrences_correct position_of_correct)

theorem bytes_methods_agree_witness:
  "bytes_rsplit [97, 44, 98, 44, 99] ''rsplit'' [VBytes [44], VInt 1] = Inr (byte_splits True [44] 1 [97, 44, 98, 44, 99])"
  using bytes_methods_agree [of "[44]" "[97, 44, 98, 44, 99]" 1 "[]"] by simp

lemma bind_encoding: "bind_method_params meth [a] [] [''encoding'', ''errors''] = Inr [Some a, None]"
  by (simp add: bind_method_params_def numeral_2_eq_2)

lemma dispatch_encode:
  "dispatch_string_method U fresh E s ''encode'' [VString name] [] =
     pure_text E (result_bind (encode_text s name (str_of ''strict'')) (\<lambda>b. Inr (VBytes b)))"
  unfolding dispatch_string_method_def Let_def by (simp add: str_encode_def bind_encoding)

lemma dispatch_decode:
  "dispatch_bytes_method fresh E b ''decode'' [VString name] [] = pure_text E (decode_text b name (str_of ''strict''))"
  unfolding dispatch_bytes_method_def Let_def by (simp add: bytes_decode_def decode_arg_def Let_def)

text \<open>C37: Decoding undoes encoding.  For every encoding name: when \<open>s.encode(name)\<close> succeeds on a text of Unicode scalar values,
  \<open>decode(name)\<close> of the bytes returns \<open>s\<close>.  This covers UTF-8, UTF-16 and UTF-32 in both byte orders and with a byte
  order mark, ASCII, Latin-1 and \<open>unicode-escape\<close>.\<close>

theorem codec_round_trip:
  assumes "dispatch_string_method U fresh E s ''encode'' [VString name] [] = Some (Inr (E1, VBytes b))" "\<forall>c \<in> set s. scalar c"
  shows "dispatch_bytes_method other E1 b ''decode'' [VString name] [] = Some (Inr (E1, VString s))"
proof -
  have "encode_text s name (str_of ''strict'') = Inr b"
    using assms(1) unfolding dispatch_encode pure_text_def by (cases "encode_text s name (str_of ''strict'')") auto
  from encoded_decodes [OF this assms(2)] show ?thesis unfolding dispatch_decode pure_text_def by simp
qed

theorem codec_round_trip_witness:
  "dispatch_bytes_method 0 empty_env [0xE2, 0x82, 0xAC] ''decode'' [VString (str_of ''UTF-8'')] [] = Some (Inr (empty_env, VString [0x20AC]))"
proof -
  have "encode_text [0x20AC] (str_of ''UTF-8'') (str_of ''strict'') = Inr [0xE2, 0x82, 0xAC]"
    by (simp add: encode_text_def named_def lower_ascii_def utf8_text_def utf8_char_def)
  then have "dispatch_string_method ascii_unicode 0 empty_env [0x20AC] ''encode'' [VString (str_of ''UTF-8'')] [] =
      Some (Inr (empty_env, VBytes [0xE2, 0x82, 0xAC]))" unfolding dispatch_encode pure_text_def by simp
  then show ?thesis by (rule codec_round_trip) (simp add: scalar_iff)
qed

text \<open>Where the methods of \<open>bytes\<close> differ from those of \<open>str\<close>.\<close>

lemma replace_count_ignored:
  "bytes_replace b (VBytes needle # VBytes new # rest) = bytes_replace b [VBytes needle, VBytes new]"
  by (simp add: bytes_replace_def)

lemma replace_empty_unchanged: "bytes_replace b [VBytes [], VBytes new] = Inr (VBytes b)"
  by (simp add: bytes_replace_def)

lemma split_default_is_space: "bytes_split b meth [] = Inr (split_bytes_loop [32] b (- 1) 0 0 0)"
  by (simp add: bytes_split_def split_args_def)

lemma vertical_tab_not_space: "bytes_strip [0x0B, 97] ''strip'' [] = Inr (VBytes [0x0B, 97])"
  by (simp add: bytes_strip_def strip_left_def strip_right_def ascii_space_def)

text \<open>The change of size that a mutator of a byte array reports is the change of its length.\<close>

lemma bytearray_accounts:
  assumes "length (bytes_at E ba) < 2 ^ 63"
  shows "dispatch_bytearray_method fresh E ba ''append'' [VInt k] [] = Some (Inr (E', out)) \<Longrightarrow>
      mo_delta out = int (length (bytes_at E' ba)) - int (length (bytes_at E ba))"
    "dispatch_bytearray_method fresh E ba ''pop'' [VInt k] [] = Some (Inr (E', out)) \<Longrightarrow>
      mo_delta out = int (length (bytes_at E' ba)) - int (length (bytes_at E ba))"
    "dispatch_bytearray_method fresh E ba ''clear'' vals [] = Some (Inr (E', out)) \<Longrightarrow>
      mo_delta out = int (length (bytes_at E' ba)) - int (length (bytes_at E ba))"
  using assms
  by (auto simp: dispatch_bytearray_method_def Let_def first_arg_def byte_arg_def bytearray_pop_def set_bytes_def outcome_grew_def
      outcome_shrank_def to_isize_sat_def split: if_splits)

end
