(* ===== verification/Execution.thy ===== *)
theory Execution
  imports Exceptions
begin

text \<open>
  One execution of a program (\<open>interpreter.rs\<close>) and the checks on names (\<open>security/\<close>).

  The parser, the evaluation of a statement and the finalisation of suspended generators are
  parameters.  The time of the start and the source text that function objects quote are not
  part of the state here, and the tools of a call are part of the evaluation.
\<close>

section \<open>Names and attributes\<close>

definition DANGEROUS_NAMES :: "string list" where
  "DANGEROUS_NAMES = [''eval'', ''exec'', ''compile'', ''__import__'', ''globals'', ''locals'', ''dir'', ''open'',
     ''file'', ''os'', ''sys'', ''subprocess'', ''shutil'']"

definition BLOCKED_ATTRIBUTES :: "string list" where
  "BLOCKED_ATTRIBUTES = [''__class__'', ''__globals__'', ''__code__'', ''__closure__'', ''__dict__'', ''__subclasses__'',
     ''__bases__'', ''__mro__'', ''__builtins__'', ''__spec__'', ''__loader__'']"

datatype name_context = Access | FunctionDefinition | Assignment

definition quoted :: "string \<Rightarrow> string" where
  "quoted name = [CHR 39] @ name @ [CHR 39]"

definition validate_name :: "name_context \<Rightarrow> string \<Rightarrow> unit eval_result" where
  "validate_name ctx name =
     (if name \<in> set DANGEROUS_NAMES then
        Inl (Interpreter (Security (case ctx of
            Access \<Rightarrow> ''access to '' @ quoted name @ '' is not allowed''
          | FunctionDefinition \<Rightarrow> ''function name '' @ quoted name @ '' is a dangerous builtin and not allowed''
          | Assignment \<Rightarrow> ''cannot assign to dangerous name '' @ quoted name)))
      else Inr ())"

definition is_name_allowed :: "string \<Rightarrow> bool" where
  "is_name_allowed name \<longleftrightarrow> name \<notin> set DANGEROUS_NAMES"

definition validate_attribute :: "string \<Rightarrow> unit eval_result" where
  "validate_attribute attr_name =
     (if attr_name \<in> set BLOCKED_ATTRIBUTES then
        Inl (Interpreter (Security (''access to '' @ quoted attr_name @ '' is not permitted for security reasons'')))
      else Inr ())"

section \<open>The depth of brackets\<close>

abbreviation is_quote :: "nat \<Rightarrow> bool" where
  "is_quote c \<equiv> c = of_char CHR 39 \<or> c = of_char CHR 34"

abbreviation opens_bracket :: "nat \<Rightarrow> bool" where
  "opens_bracket c \<equiv> c = of_char CHR ''('' \<or> c = of_char CHR ''['' \<or> c = of_char CHR ''{''"

abbreviation closes_bracket :: "nat \<Rightarrow> bool" where
  "closes_bracket c \<equiv> c = of_char CHR '')'' \<or> c = of_char CHR '']'' \<or> c = of_char CHR ''}''"

record bracket_scan =
  scan_depth :: nat
  in_string :: "nat option"
  escaped :: bool
  in_comment :: bool

definition scan_char :: "bracket_scan \<Rightarrow> nat \<Rightarrow> bracket_scan" where
  "scan_char b ch =
     (if in_comment b then (if ch = 10 then b\<lparr>in_comment := False\<rparr> else b)
      else case in_string b of
        Some q \<Rightarrow>
          if escaped b then b\<lparr>escaped := False\<rparr>
          else if ch = of_char CHR 92 then b\<lparr>escaped := True\<rparr>
          else if ch = q then b\<lparr>in_string := None\<rparr>
          else b
      | None \<Rightarrow>
          if is_quote ch then b\<lparr>in_string := Some ch\<rparr>
          else if ch = of_char CHR ''#'' then b\<lparr>in_comment := True\<rparr>
          else if opens_bracket ch then b\<lparr>scan_depth := scan_depth b + 1\<rparr>
          else if closes_bracket ch then b\<lparr>scan_depth := scan_depth b - 1\<rparr>
          else b)"

primrec scan_exceeds :: "nat \<Rightarrow> bracket_scan \<Rightarrow> pystr \<Rightarrow> bool" where
  "scan_exceeds limit b [] = False"
| "scan_exceeds limit b (ch # rest) =
     (let b' = scan_char b ch in
      if scan_depth b < scan_depth b' \<and> limit < scan_depth b' then True else scan_exceeds limit b' rest)"

definition scan_start :: bracket_scan where
  "scan_start = \<lparr>scan_depth = 0, in_string = None, escaped = False, in_comment = False\<rparr>"

definition bracket_depth_exceeds :: "pystr \<Rightarrow> nat \<Rightarrow> bool" where
  "bracket_depth_exceeds code limit = scan_exceeds limit scan_start code"

section \<open>Execution\<close>

definition MAX_SOURCE_BYTES :: nat where
  "MAX_SOURCE_BYTES = 512 * 1024"

record interpreter_response =
  resp_stdout :: pystr
  resp_error :: "interpreter_error option"

definition resp_result :: "interpreter_response \<Rightarrow> interpreter_error + unit" where
  "resp_result r = (case resp_error r of Some e \<Rightarrow> Inl e | None \<Rightarrow> Inr ())"

definition resp_is_ok :: "interpreter_response \<Rightarrow> bool" where
  "resp_is_ok r \<longleftrightarrow> resp_error r = None"

text \<open>The error of the host for an error of the evaluation.\<close>

definition host_error :: "eval_error \<Rightarrow> interpreter_error" where
  "host_error err = (case err of
       Signal (Return v) \<Rightarrow> Runtime ([CHR 39] @ ''return'' @ [CHR 39] @ '' outside function'')
     | Signal Break \<Rightarrow> Runtime ([CHR 39] @ ''break'' @ [CHR 39] @ '' outside loop'')
     | Signal (Yield v) \<Rightarrow> Runtime ([CHR 39] @ ''yield'' @ [CHR 39] @ '' outside function'')
     | Signal Continue \<Rightarrow> Runtime ([CHR 39] @ ''continue'' @ [CHR 39] @ '' not properly in loop'')
     | Interpreter e \<Rightarrow> e
     | Exception exc \<Rightarrow> PythonException (exc_type_name exc) (case exc_stamped_line exc of
           Some line \<Rightarrow> exc_message exc @ line_suffix line
         | None \<Rightarrow> exc_message exc))"

primrec inject_variables :: "runtime \<Rightarrow> interp_state \<Rightarrow> (string \<times> pyval) list \<Rightarrow> interp_state" where
  "inject_variables R s [] = s"
| "inject_variables R s (kv # rest) = inject_variables R (fst (set_variable R s (fst kv) (snd kv))) rest"

definition prepare_run :: "runtime \<Rightarrow> interp_state \<Rightarrow> (string \<times> pyval) list \<Rightarrow> interp_state" where
  "prepare_run R s vars = inject_variables R (reset_operations (clear_print_buffer s)) vars"

definition respond :: "interp_state \<Rightarrow> interpreter_error option \<Rightarrow> interp_state \<times> interpreter_response" where
  "respond s err = (s, \<lparr>resp_stdout = print_buffer s, resp_error = err\<rparr>)"

definition run_program ::
  "('stmt, pyval) eval \<Rightarrow> (interp_state \<Rightarrow> interp_state) \<Rightarrow> interp_state \<Rightarrow> 'stmt list \<Rightarrow> interp_state \<times> interpreter_response" where
  "run_program eval_stmt finalize_generators s stmts =
     (case eval_body eval_stmt (s\<lparr>frame_cell_owners := Map.empty # frame_cell_owners s\<rparr>) stmts of
        (s1, result) \<Rightarrow>
          let s2 = s1\<lparr>frame_cell_owners := tl (frame_cell_owners s1)\<rparr> in
          case result of
            Inr v \<Rightarrow> respond (finalize_generators s2) None
          | Inl err \<Rightarrow> respond s2 (Some (host_error err)))"

definition execute ::
  "(pystr \<Rightarrow> interpreter_error + 'stmt list) \<Rightarrow> ('stmt, pyval) eval \<Rightarrow> (interp_state \<Rightarrow> interp_state) \<Rightarrow> runtime \<Rightarrow>
   interp_state \<Rightarrow> pystr \<Rightarrow> (string \<times> pyval) list \<Rightarrow> interp_state \<times> interpreter_response" where
  "execute parse eval_stmt finalize_generators R s0 code vars =
     (let s = prepare_run R s0 vars in
      if MAX_SOURCE_BYTES < byte_len code then
        respond s (Some (Syntax (''source exceeds the '' @ nat_digits MAX_SOURCE_BYTES @ ''-byte limit'')))
      else if bracket_depth_exceeds code (max_recursion_depth (config s)) then
        respond s (Some (Syntax ''expression nesting is too deep''))
      else case parse code of
        Inl e \<Rightarrow> respond s (Some e)
      | Inr stmts \<Rightarrow> run_program eval_stmt finalize_generators s stmts)"

section \<open>What the scan counts\<close>

text \<open>The nesting a stretch of code adds: its opening less its closing brackets.  \<open>gain\<close> is the most that a
  prefix adds, and \<open>peak\<close> the most that any stretch adds.\<close>

definition bracket_weight :: "nat \<Rightarrow> int" where
  "bracket_weight c = (if opens_bracket c then 1 else if closes_bracket c then - 1 else 0)"

definition net_depth :: "pystr \<Rightarrow> int" where
  "net_depth cs = sum_list (map bracket_weight cs)"

lemma net_depth_simps [simp]: "net_depth [] = 0" "net_depth (c # cs) = bracket_weight c + net_depth cs"
  by (simp_all add: net_depth_def)

primrec gain :: "pystr \<Rightarrow> int" where
  "gain [] = 0"
| "gain (c # cs) = max 0 (bracket_weight c + gain cs)"

primrec peak :: "pystr \<Rightarrow> int" where
  "peak [] = 0"
| "peak (c # cs) = max (gain (c # cs)) (peak cs)"

lemma gain_nonneg: "0 \<le> gain cs"
  by (induction cs) auto

lemma gain_le_peak: "gain cs \<le> peak cs"
  by (cases cs) auto

lemma gain_prefix: "0 \<le> n \<Longrightarrow> n < gain cs \<longleftrightarrow> (\<exists>p q. cs = p @ q \<and> n < net_depth p)"
proof -
  have "net_depth p \<le> gain (p @ q)" for p q
    by (induction p) (auto simp: gain_nonneg)
  moreover have "\<exists>p q. cs = p @ q \<and> net_depth p = gain cs"
  proof (induction cs)
    case (Cons c cs)
    then obtain p q where pq: "cs = p @ q" "net_depth p = gain cs" by blast
    show ?case
    proof (cases "0 \<le> bracket_weight c + gain cs")
      case True
      then have "c # cs = (c # p) @ q \<and> net_depth (c # p) = gain (c # cs)" using pq by simp
      then show ?thesis by blast
    next
      case False
      then have "c # cs = [] @ (c # cs) \<and> net_depth [] = gain (c # cs)" by simp
      then show ?thesis by blast
    qed
  qed simp
  ultimately show ?thesis by (metis order_less_le_trans)
qed

lemma peak_infix: "0 \<le> n \<Longrightarrow> n < peak cs \<longleftrightarrow> (\<exists>a b c. cs = a @ b @ c \<and> n < net_depth b)"
proof (induction cs)
  case (Cons x cs)
  have "(\<exists>a b c. x # cs = a @ b @ c \<and> n < net_depth b) \<longleftrightarrow>
      (\<exists>b c. x # cs = b @ c \<and> n < net_depth b) \<or> (\<exists>a b c. cs = a @ b @ c \<and> n < net_depth b)" (is "?l \<longleftrightarrow> ?p \<or> ?r")
  proof
    assume ?l
    then obtain a b c where abc: "x # cs = a @ b @ c" "n < net_depth b" by blast
    show "?p \<or> ?r"
      using abc by (cases a) auto
  next
    assume "?p \<or> ?r"
    then show ?l
    proof
      assume ?p
      then obtain b c where "x # cs = [] @ b @ c" "n < net_depth b" by auto
      then show ?l by blast
    next
      assume ?r
      then obtain a b c where "x # cs = (x # a) @ b @ c" "n < net_depth b" by auto
      then show ?l by blast
    qed
  qed
  then show ?case
    using Cons gain_prefix [of n "x # cs"] by (simp only: peak.simps less_max_iff_disj)
qed simp

definition plain_char :: "nat \<Rightarrow> bool" where
  "plain_char c \<longleftrightarrow> \<not> is_quote c \<and> c \<noteq> of_char CHR ''#''"

definition plain_scan :: "nat \<Rightarrow> bracket_scan" where
  "plain_scan d = \<lparr>scan_depth = d, in_string = None, escaped = False, in_comment = False\<rparr>"

lemma scan_plain:
  "plain_char c \<Longrightarrow> scan_char (plain_scan d) c = plain_scan (nat (int d + bracket_weight c))"
  by (auto simp: scan_char_def plain_scan_def plain_char_def bracket_weight_def nat_add_distrib nat_diff_distrib)

lemma plain_scan_depth [simp]: "scan_depth (plain_scan d) = d"
  by (simp add: plain_scan_def)

lemma bracket_weight_cases: "bracket_weight c = 1 \<or> bracket_weight c = - 1 \<or> bracket_weight c = 0"
  by (simp add: bracket_weight_def)

lemma scan_exceeds_plain:
  assumes "list_all plain_char code" "d \<le> limit"
  shows "scan_exceeds limit (plain_scan d) code \<longleftrightarrow> int limit < int d + gain code \<or> int limit < peak code"
  using assms
proof (induction code arbitrary: d)
  case (Cons c cs)
  then have scan: "scan_char (plain_scan d) c = plain_scan (nat (int d + bracket_weight c))" by (simp add: scan_plain)
  note facts = gain_nonneg [of cs] gain_le_peak [of cs] Cons.prems(2)
  show ?case
    using bracket_weight_cases [of c]
  proof (elim disjE)
    assume w: "bracket_weight c = 1"
    then show ?thesis
      using facts scan Cons.IH [of "d + 1"] Cons.prems by (auto simp: Let_def nat_add_distrib)
  next
    assume w: "bracket_weight c = - 1"
    then have "nat (int d + bracket_weight c) = d - 1" by simp
    then show ?thesis
      using facts scan w Cons.IH [of "d - 1"] Cons.prems by (cases "d = 0") (auto simp: Let_def)
  next
    assume w: "bracket_weight c = 0"
    then show ?thesis
      using facts scan Cons.IH [of d] Cons.prems by (auto simp: Let_def)
  qed
qed simp

text \<open>On source without quotes and comments the scan rejects exactly the programs in which some stretch
  of the text opens more brackets than it closes by more than the limit.\<close>

theorem bracket_depth_reference:
  assumes "list_all plain_char code"
  shows "bracket_depth_exceeds code limit \<longleftrightarrow> (\<exists>a b c. code = a @ b @ c \<and> int limit < net_depth b)"
  using scan_exceeds_plain [OF assms, of 0 limit] gain_le_peak [of code] peak_infix [of "int limit" code]
  by (auto simp: bracket_depth_exceeds_def scan_start_def plain_scan_def)

theorem bracket_depth_reference_witness:
  "bracket_depth_exceeds (str_of ''f([x])'') 1 \<longleftrightarrow> (\<exists>a b c. str_of ''f([x])'' = a @ b @ c \<and> int 1 < net_depth b)"
  by (rule bracket_depth_reference) (simp add: str_of_def plain_char_def)

text \<open>A quote inside a triple-quoted string leaves the scan inside a string: brackets that follow the
  string are not counted, so nesting beyond the limit passes.\<close>

theorem bracket_scan_undercounts:
  "\<not> bracket_depth_exceeds (str_of ([CHR 34, CHR 34, CHR 34, CHR ''a'', CHR 34, CHR ''b'', CHR 34, CHR 34, CHR 34, CHR 10] @ ''[[[[]]]]'')) 2 \<and>
    bracket_depth_exceeds (str_of ''[[[[]]]]'') 2"
  by (simp add: bracket_depth_exceeds_def str_of_def scan_start_def scan_char_def Let_def)

section \<open>Runs\<close>

lemma prepare_independent:
  "prepare_run R (s\<lparr>print_buffer := p, operations_count := n\<rparr>) vars = prepare_run R s vars"
  by (simp add: prepare_run_def clear_print_buffer_def reset_operations_def)

text \<open>What earlier executions printed and how many operations they used has no influence on an
  execution: neither on the state it leaves nor on its response.\<close>

theorem execute_independent:
  "execute parse eval_stmt fin R (s\<lparr>print_buffer := p, operations_count := n\<rparr>) code vars =
    execute parse eval_stmt fin R s code vars"
  by (simp add: execute_def prepare_independent)

lemma inject_variables_vars: "variables (inject_variables R s vars) = variables s ++ map_of (rev vars)"
  by (induction vars arbitrary: s) (auto simp: set_variable_def Let_def map_add_def fun_eq_iff split: option.splits)

lemma inject_variables_frames: "frame_cell_owners (inject_variables R s vars) = frame_cell_owners s"
  by (induction vars arbitrary: s) (simp_all add: set_variable_def write_through_def Let_def split: list.split option.split)

text \<open>What the evaluation of a statement leaves of the frames of cell owners: all but the innermost one, into which a
  definition or a closure enters cells, and their number.\<close>

definition same_outer :: "interp_state \<Rightarrow> interp_state \<Rightarrow> bool" where
  "same_outer s t \<longleftrightarrow> length (frame_cell_owners t) = length (frame_cell_owners s) \<and>
     tl (frame_cell_owners t) = tl (frame_cell_owners s)"

definition keeps_outer :: "('x, 'a) eval \<Rightarrow> bool" where
  "keeps_outer f \<longleftrightarrow> (\<forall>s x. same_outer s (fst (f s x)))"

lemma same_outer_trans: "same_outer s t \<Longrightarrow> same_outer t u \<Longrightarrow> same_outer s u"
  by (simp add: same_outer_def)

lemma eval_body_outer:
  assumes "keeps_outer eval_stmt"
  shows "same_outer s (fst (eval_body_from eval_stmt v s body))"
proof (induction body arbitrary: s v)
  case (Cons x body)
  obtain s1 r where x: "eval_stmt s x = (s1, r)" by fastforce
  then have s1: "same_outer s s1" using assms unfolding keeps_outer_def by (metis fst_conv)
  show ?case
    using s1 same_outer_trans [OF s1 Cons.IH] by (cases r) (simp_all add: x)
qed (simp add: same_outer_def)

lemma run_program_outer:
  assumes "keeps_outer eval_stmt" "\<And>s. same_outer s (fin s)"
  shows "same_outer s (fst (run_program eval_stmt fin s stmts))"
proof -
  let ?s = "s\<lparr>frame_cell_owners := Map.empty # frame_cell_owners s\<rparr>"
  obtain s1 r where run: "eval_body eval_stmt ?s stmts = (s1, r)"
    by fastforce
  then have "same_outer ?s s1"
    using eval_body_outer [OF assms(1), of ?s VNone stmts] by (simp add: eval_body_def)
  then have "frame_cell_owners (s1\<lparr>frame_cell_owners := tl (frame_cell_owners s1)\<rparr>) = frame_cell_owners s"
    by (simp add: same_outer_def)
  then show ?thesis
    using assms(2) [of "s1\<lparr>frame_cell_owners := tl (frame_cell_owners s1)\<rparr>"]
    by (simp add: run_program_def run respond_def same_outer_def Let_def split: sum.split)
qed

lemma execute_outer:
  assumes "keeps_outer eval_stmt" "\<And>s. same_outer s (fin s)"
  shows "same_outer s (fst (execute parse eval_stmt fin R s code vars))"
proof -
  have "frame_cell_owners (prepare_run R s vars) = frame_cell_owners s"
    by (simp add: prepare_run_def inject_variables_frames clear_print_buffer_def reset_operations_def)
  then show ?thesis
    using run_program_outer [OF assms, of "prepare_run R s vars"]
    by (simp add: execute_def respond_def same_outer_def Let_def split: sum.split)
qed

text \<open>The executions of one interpreter, each on the state the former left.\<close>

definition session ::
  "(pystr \<Rightarrow> interpreter_error + 'stmt list) \<Rightarrow> ('stmt, pyval) eval \<Rightarrow> (interp_state \<Rightarrow> interp_state) \<Rightarrow> runtime \<Rightarrow>
   interp_state \<Rightarrow> (pystr \<times> (string \<times> pyval) list) list \<Rightarrow> interp_state" where
  "session parse eval_stmt fin R s runs = foldl (\<lambda>s (code, vars). fst (execute parse eval_stmt fin R s code vars)) s runs"

text \<open>C40: A new interpreter has no frame of cell owners, and none is left after any sequence of executions, whatever
  they run and however they end (each pushes a frame for the module and pops it), provided that a statement and the
  finalisation of generators keep the number of frames and all but the innermost one, into which they may enter cells.
  Each execution starts from the injected variables over those already there, the last value of a name winning.\<close>

theorem execute_balanced:
  assumes "keeps_outer eval_stmt" "\<And>s. same_outer s (fin s)"
  shows "frame_cell_owners (session parse eval_stmt fin R (new_state E cfg) runs) = [] \<and>
    variables (prepare_run R s vars) = variables s ++ map_of (rev vars)"
proof
  have "frame_cell_owners (session parse eval_stmt fin R s runs) = []" if "frame_cell_owners s = []" for s
    using that
  proof (induction runs arbitrary: s)
    case (Cons x runs)
    obtain code vars where x: "x = (code, vars)" by fastforce
    show ?case
      using Cons execute_outer [OF assms, of s parse R code vars] by (simp add: session_def same_outer_def x)
  qed (simp add: session_def)
  then show "frame_cell_owners (session parse eval_stmt fin R (new_state E cfg) runs) = []"
    by (simp add: new_state_def)
  show "variables (prepare_run R s vars) = variables s ++ map_of (rev vars)"
    by (simp add: prepare_run_def inject_variables_vars clear_print_buffer_def reset_operations_def)
qed

text \<open>A statement that enters a cell into the innermost frame.\<close>

definition capturing_stmt :: "(nat, pyval) eval" where
  "capturing_stmt s n = (case frame_cell_owners s of
     [] \<Rightarrow> (s, Inr VNone)
   | owners # outer \<Rightarrow> (s\<lparr>frame_cell_owners := owners(''x'' \<mapsto> 0) # outer\<rparr>, Inr VNone))"

theorem execute_balanced_witness:
  "frame_cell_owners (session (\<lambda>_. Inr [1, 0]) capturing_stmt (\<lambda>s. s) sample_runtime (new_state empty_env default_config)
     [(str_of ''x'', [(''x'', VNone)]), (str_of ''y'', [])]) = []"
proof -
  have "keeps_outer capturing_stmt"
    by (simp add: keeps_outer_def same_outer_def capturing_stmt_def split: list.split)
  moreover have "same_outer s s" for s by (simp add: same_outer_def)
  ultimately show ?thesis using execute_balanced [of capturing_stmt "\<lambda>s. s"] by blast
qed

text \<open>Source that is too long or whose brackets are scanned as too deep is answered with a syntax error
  and no output, and neither parsed nor evaluated: the state is that of the preparation.\<close>

theorem rejected_source_not_run:
  assumes "MAX_SOURCE_BYTES < byte_len code \<or> bracket_depth_exceeds code (max_recursion_depth (config s))"
  shows "\<exists>msg. execute parse eval_stmt fin R s code vars =
    (prepare_run R s vars, \<lparr>resp_stdout = [], resp_error = Some (Syntax msg)\<rparr>)"
proof -
  have "config (inject_variables R s vs) = config s \<and> print_buffer (inject_variables R s vs) = print_buffer s" for s vs
    by (induction vs arbitrary: s) (simp_all add: set_variable_def Let_def)
  then have "config (prepare_run R s vars) = config s" "print_buffer (prepare_run R s vars) = []"
    by (simp_all add: prepare_run_def clear_print_buffer_def reset_operations_def)
  then show ?thesis
    using assms by (auto simp: execute_def respond_def Let_def)
qed

theorem rejected_source_not_run_witness:
  "\<exists>msg. execute (\<lambda>_. Inr [1, 0]) sample_stmt (\<lambda>s. s) sample_runtime
      (new_state empty_env (default_config\<lparr>max_recursion_depth := 2\<rparr>)) (str_of ''[[[[]]]]'') [] =
    (prepare_run sample_runtime (new_state empty_env (default_config\<lparr>max_recursion_depth := 2\<rparr>)) [],
     \<lparr>resp_stdout = [], resp_error = Some (Syntax msg)\<rparr>)"
  by (rule rejected_source_not_run)
    (simp add: new_state_def bracket_depth_exceeds_def str_of_def scan_start_def scan_char_def Let_def)

end
