(* ===== verification/Spec2Isabelle.thy ===== *)
theory Spec2Isabelle
  imports Python_Sets Arithmetic Classes Matching Bytes_Methods Execution
begin

text \<open>
  \<^bold>\<open>Verification of \<open>interpretthis\<close>\<close>, a sandboxed Python interpreter written in Rust.  All files below are
  under \<open>src/crates/interpretthis/src\<close>.

  \<^bold>\<open>The program.\<close>  \<open>Interpreter::execute\<close> (\<open>interpreter.rs\<close>) checks the source, parses it and evaluates
  the statements over an \<open>InterpreterState\<close> (\<open>state.rs\<close>), which holds the variables and the counters behind the
  resource limits (\<open>config.rs\<close>).  Values (\<open>value.rs\<close>) are a tagged union; lists, dictionaries, sets and byte
  arrays are shared through \<open>Arc<Mutex<..>>\<close>.  Operations on values go through per-type slots (\<open>types.rs\<close>).
  Sets are tables with CPython's iteration order (\<open>pyset.rs\<close>), over CPython's hash functions (\<open>pyhash.rs\<close>).
  Errors are a sum of interpreter errors, control-flow signals and Python exceptions (\<open>error.rs\<close>), which
  \<open>eval/exceptions.rs\<close> raises, matches and catches.

  \<^bold>\<open>The theories\<close>, each importing those it builds on:
  \<^item> \<open>Prelude\<close>: machine types, result types, \<open>named_theorems\<close> and generic lemmas.
  \<^item> \<open>Probing\<close>, \<open>Pyset\<close>, \<open>Set_Algebra\<close>, \<open>Set_Body\<close>: \<open>pyset.rs\<close>.  A table is a record of slots and counters; equality
    and hash are parameters with the laws of a locale.  The probe sequence reaches every slot, so each operation
    returns on a well-formed table and keeps it well-formed; a table refines its list of entries.
  \<^item> \<open>Floats\<close>, \<open>Values\<close>: bits of \<open>f64\<close> and the data types of \<open>value.rs\<close>; shared storage is an address.
  \<^item> \<open>Mersenne\<close>, \<open>Pyhash\<close>: \<open>pyhash.rs\<close> and the rational hashes of \<open>types.rs\<close>: arithmetic modulo the Mersenne prime,
    agreement of the hash across the numeric tower, no hash equal to the reserved \<open>-1\<close>.
  \<^item> \<open>Equality\<close>, \<open>Python_Sets\<close>: the equality slots of \<open>types.rs\<close>, \<open>values_equal\<close> of \<open>eval/operations.rs\<close> with its depth
    guard; on values with exact hashes it is an equivalence that hashing respects, which instantiates the
    interface of the set theories, so the set operations are correct for Python values.
  \<^item> \<open>Errors\<close>, \<open>Value_Keys\<close>: \<open>error.rs\<close>, line stamping (\<open>eval/mod.rs\<close>), the tree of exception types; dictionary keys
    (\<open>eval/literals.rs\<close>, \<open>value.rs\<close>), their equality and what they feed the hasher.
  \<^item> \<open>Ordering\<close>, \<open>Heapq\<close>, \<open>Bisect\<close>: the less-than slots and two library modules that rest on them, through a locale
    of a comparison that is a total preorder on one kind of value.
  \<^item> \<open>Slices\<close>, \<open>Containers\<close>, \<open>Ranges\<close>, \<open>Slice_Assignment\<close>: the item, iteration, length and membership slots of
    \<open>types.rs\<close>, and slices in \<open>eval/names.rs\<close>, \<open>eval/place.rs\<close> and \<open>eval/delete.rs\<close>.  Dictionaries refine finite
    maps that keep insertion order; the three computations of slice positions agree with one reference.
  \<^item> \<open>State\<close>: \<open>state.rs\<close> and \<open>config.rs\<close>.  A step relation over the operations, with the limits and the memory
    accounting as invariants of the reachable states.
  \<^item> \<open>Exceptions\<close>: \<open>eval/exceptions.rs\<close>: \<open>try\<close>, \<open>except*\<close>, \<open>raise\<close>, \<open>assert\<close>, exception values and groups, over
    evaluators of statements and expressions given as state transformers.
  \<^item> \<open>Arithmetic\<close>: the operators of \<open>eval/operations.rs\<close> on built-in values, with promotion from \<open>i64\<close> to big integers and the
    limits on powers, shifts and repetition.  Integer results are exact; bitwise operators are those of unbounded
    two's complement.
  \<^item> \<open>Classes\<close>: \<open>eval/classes.rs\<close>: class definitions, the C3 linearisation (always ends, and satisfies its defining
    constraints), attribute lookup, data classes and named tuples.
  \<^item> \<open>Calls\<close>: \<open>eval/functions/params.rs\<close>, \<open>dispatch.rs\<close> and the scopes of \<open>definitions.rs\<close>: arguments are bound as a
    specification says, and a call restores depths, frames and local names on every path.
  \<^item> \<open>Control_Flow\<close>, \<open>Matching\<close>: \<open>if\<close>, \<open>while\<close>, \<open>for\<close>, \<open>with\<close> (\<open>eval/control_flow.rs\<close>) and the \<open>match\<close> statement
    (\<open>eval/match_stmt.rs\<close>), whose answers are those of a relation given by rules.
  \<^item> \<open>Methods\<close>: methods of lists, tuples, dictionaries, deques, Counters and sets (\<open>eval/functions/methods\<close>) and the change
    of the memory estimate each of them reports.
  \<^item> \<open>Integers\<close>, \<open>Math_Module\<close>, \<open>Int_Text\<close>: rounding, methods of \<open>int\<close>, the \<open>math\<close> module, three-argument \<open>pow\<close>, the parser
    behind \<open>int()\<close>, \<open>bin\<close>, \<open>oct\<close>, \<open>hex\<close>, \<open>chr\<close>, \<open>ord\<close>, \<open>range\<close>, \<open>abs\<close>, \<open>round\<close> and \<open>divmod\<close>.
  \<^item> \<open>Text_Search\<close>, \<open>Str_Methods\<close>: the methods of \<open>str\<close> (\<open>eval/functions/methods/str.rs\<close>): searching, splitting, joining,
    padding, translation and the encoders, over the Unicode tables as parameters.
  \<^item> \<open>Codecs\<close>, \<open>Bytes_Methods\<close>: decoding and the methods of \<open>bytes\<close>, \<open>bytearray\<close> and \<open>memoryview\<close>
    (\<open>eval/functions/methods/bytes.rs\<close>): what encodes decodes, and the loops agree with the functions on strings.
  \<^item> \<open>Execution\<close>: \<open>interpreter.rs\<close> and \<open>security/\<close>: the scan for bracket depth, one execution and its response.

  \<^bold>\<open>Conventions.\<close>  \<open>i64\<close> and \<open>u64\<close> are words (or \<open>int\<close> with the wrap-around written out), \<open>usize\<close> counters are \<open>nat\<close> with
  the saturation the code asks for, \<open>f64\<close> is its bit pattern.  Text of a program is a list of code points, names
  and messages are \<open>string\<close>.  A fallible operation returns a sum with the error on the left; a loop that may not
  return, or a panic, is \<open>None\<close>.  Arithmetic that overflows wraps, as in a release build.  Shared storage is an
  environment record from addresses to contents.  Comparisons of nested values take the code's own depth limit of
  1000 as fuel; ordering, which has no limit in the code, takes fuel explicitly, and the theorems on it give fuel
  that is enough.

  \<^bold>\<open>Parameters\<close> stand for code outside the repository (SipHash, chrono's arithmetic, big-integer parsing, the C library's
  floating-point functions, Unicode tables, the allocator, the parser) and for the parts of the interpreter that are
  not modelled (the evaluation of statements and expressions, size estimates, the display of values).  What a theorem
  needs of them is among its hypotheses.

  \<^bold>\<open>Not modelled\<close>: the tree walk over expressions and statements, which dispatches on the syntax trees of an external
  parser and is a parameter of the theories above; generators and coroutines, whose suspended frames need that walk;
  formatting and \<open>repr\<close>; built-in functions that call back into the evaluator; the library modules that mostly wrap
  external crates (\<open>datetime\<close>, \<open>decimal\<close>, \<open>re\<close>, \<open>json\<close>, \<open>random\<close>) or iterate lazily (\<open>itertools\<close>, \<open>functools\<close>);
  serialisation, tools and the foreign-function bindings.
\<close>

end
